(* ===== verification/Go_Prelude.thy ===== *)
theory Go_Prelude
  imports Main "HOL-Library.AList" "HOL-Library.Multiset"
begin

text \<open>
  What every component of the webhook engine uses of Go and of its standard library:
  error values and \<open>errors.Is\<close>, the per-call environment (context, clock, map iteration
  order), maps, 64-bit integers, and the functions of \<open>strings\<close>, \<open>strconv\<close> and
  \<open>encoding/hex\<close> that the source calls. Go strings and byte slices are byte sequences:
  both are HOL \<open>string\<close>s, whose characters are bytes.
\<close>

section \<open>Collections of facts\<close>

named_theorems go_defs "definitions of the operations of the interface records"
named_theorems go_map_simps "lookup after update and deletion in a Go map"
named_theorems range_simps "facts about one iteration over a Go map"

section \<open>Errors\<close>

text \<open>
  The sentinel errors of the packages, the two errors of a finished context,
  \<open>errors.New\<close> and \<open>fmt.Errorf("...: %w", err)\<close>.
\<close>

datatype goerr =
    ErrNotFound | ErrDuplicateKey
  | ErrNilEvent | ErrEmptyStream | ErrEmptyGroup
  | ErrInvalidParameters
  | ErrRestrictedDestination
  | CtxCanceled | CtxDeadlineExceeded
  | ErrorsNew string
  | Errorf string goerr
  | GoPanic string

fun errors_is :: "goerr \<Rightarrow> goerr \<Rightarrow> bool" where
  "errors_is (Errorf m e) target = (Errorf m e = target \<or> errors_is e target)"
| "errors_is e target = (e = target)"

fun error_msg :: "goerr \<Rightarrow> string" where
  "error_msg ErrNotFound = ''record not found''"
| "error_msg ErrDuplicateKey = ''duplicate key violation''"
| "error_msg ErrNilEvent = ''event cannot be nil''"
| "error_msg ErrEmptyStream = ''streamName cannot be empty''"
| "error_msg ErrEmptyGroup = ''groupName cannot be empty''"
| "error_msg ErrInvalidParameters = ''tenantID and key must not be empty''"
| "error_msg ErrRestrictedDestination = ''destination IP is restricted (SSRF protection)''"
| "error_msg CtxCanceled = ''context canceled''"
| "error_msg CtxDeadlineExceeded = ''context deadline exceeded''"
| "error_msg (ErrorsNew m) = m"
| "error_msg (Errorf m e) = m @ '': '' @ error_msg e"
| "error_msg (GoPanic m) = m"

lemma errors_is_refl [simp]: "errors_is e e"
  by (cases e) simp_all

section \<open>Time and the environment of a call\<close>

text \<open>
  \<open>time.Time\<close> is the number of nanoseconds since the zero time, so that \<open>IsZero\<close> is
  equality with 0. A \<open>time.Duration\<close> is its number of nanoseconds.
\<close>

type_synonym gotime = int
type_synonym duration = int

abbreviation IsZero :: "gotime \<Rightarrow> bool" where
  "IsZero t \<equiv> t = 0"

definition Microsecond :: duration where "Microsecond = 1000"
definition Millisecond :: duration where "Millisecond = 1000 * 1000"
definition Second :: duration where "Second = 1000 * 1000 * 1000"
definition Hour :: duration where "Hour = 3600 * 1000 * 1000 * 1000"

lemmas duration_defs = Microsecond_def Millisecond_def Second_def Hour_def

text \<open>The zero time is 62135596800 seconds before the Unix epoch.\<close>

definition time_Unix :: "gotime \<Rightarrow> int" where
  "time_Unix t = t div 1000000000 - 62135596800"

definition time_UnixMilli :: "gotime \<Rightarrow> int" where
  "time_UnixMilli t = t div 1000000 - 62135596800 * 1000"

text \<open>
  What one call reads of its surroundings: \<open>ctx.Err()\<close>, \<open>time.Now()\<close>, and the order in
  which \<open>range\<close> visits a map of \<open>n\<close> entries (any permutation of the positions).
\<close>

record env =
  e_ctx :: "goerr option"
  e_now :: gotime
  e_ord :: "nat \<Rightarrow> nat list"

definition range_order_ok :: "(nat \<Rightarrow> nat list) \<Rightarrow> bool" where
  "range_order_ok ord \<longleftrightarrow> (\<forall>n. mset (ord n) = mset [0..<n])"

section \<open>Maps\<close>

text \<open>
  A Go map is the list of its entries, with distinct keys; the order of the list has no
  meaning, because every iteration goes through \<open>go_range\<close>.
\<close>

type_synonym ('k, 'v) gomap = "('k \<times> 'v) list"

definition gomap_ok :: "('k, 'v) gomap \<Rightarrow> bool" where
  "gomap_ok m \<longleftrightarrow> distinct (map fst m)"

definition go_range :: "(nat \<Rightarrow> nat list) \<Rightarrow> 'a list \<Rightarrow> 'a list" where
  "go_range ord xs = map (\<lambda>i. xs ! i) (ord (length xs))"

lemma mset_go_range [range_simps]:
  assumes "range_order_ok ord"
  shows "mset (go_range ord xs) = mset xs"
proof -
  have "mset (ord (length xs)) = mset [0..<length xs]"
    using assms unfolding range_order_ok_def by blast
  then have "mset (go_range ord xs) = mset (map (\<lambda>i. xs ! i) [0..<length xs])"
    unfolding go_range_def by (simp only: mset_map)
  then show ?thesis by (simp only: map_nth)
qed

lemma set_go_range [range_simps]:
  "range_order_ok ord \<Longrightarrow> set (go_range ord xs) = set xs"
  by (metis mset_go_range set_mset_mset)

lemma length_go_range [range_simps]:
  "range_order_ok ord \<Longrightarrow> length (go_range ord xs) = length xs"
  by (metis mset_go_range size_mset)

lemma distinct_go_range [range_simps]:
  "range_order_ok ord \<Longrightarrow> distinct (map f (go_range ord xs)) = distinct (map f xs)"
  by (metis mset_go_range mset_map mset_eq_imp_distinct_iff)

lemma range_order_ok_upt [simp]: "range_order_ok (\<lambda>n. [0..<n])"
  by (simp add: range_order_ok_def)

lemma go_range_upt [simp]: "go_range (\<lambda>n. [0..<n]) xs = xs"
  by (simp add: go_range_def map_nth)

lemma gomap_ok_Nil [simp]: "gomap_ok []"
  by (simp add: gomap_ok_def)

lemma gomap_ok_update [simp, intro]: "gomap_ok m \<Longrightarrow> gomap_ok (AList.update k v m)"
  by (simp add: gomap_ok_def distinct_update)

lemma gomap_ok_delete [simp, intro]: "gomap_ok m \<Longrightarrow> gomap_ok (AList.delete k m)"
  by (simp add: gomap_ok_def distinct_delete)

lemma map_of_update [go_map_simps, simp]:
  "map_of (AList.update k v m) = (map_of m)(k \<mapsto> v)"
  by (rule ext) (simp add: update_conv)

lemma map_of_delete [go_map_simps, simp]:
  "map_of (AList.delete k m) = (map_of m)(k := None)"
  by (rule ext) (simp add: delete_conv)

lemma gomap_in_set:
  "gomap_ok m \<Longrightarrow> (k, v) \<in> set m \<longleftrightarrow> map_of m k = Some v"
  by (auto simp: gomap_ok_def)

lemma gomap_values:
  "gomap_ok m \<Longrightarrow> v \<in> snd ` set m \<longleftrightarrow> (\<exists>k. map_of m k = Some v)"
  by (force simp: gomap_in_set [symmetric] image_iff)

section \<open>64-bit integers\<close>

text \<open>\<open>int\<close> and \<open>int64\<close> are 64 bits wide and wrap around.\<close>

definition wrap64 :: "int \<Rightarrow> int" where
  "wrap64 x = (x + 2 ^ 63) mod 2 ^ 64 - 2 ^ 63"

definition int64_ok :: "int \<Rightarrow> bool" where
  "int64_ok x \<longleftrightarrow> - (2 ^ 63) \<le> x \<and> x < 2 ^ 63"

lemma wrap64_id [simp]: "int64_ok x \<Longrightarrow> wrap64 x = x"
  by (simp add: wrap64_def int64_ok_def)

lemma wrap64_ok [simp, intro]: "int64_ok (wrap64 x)"
  by (simp add: wrap64_def int64_ok_def)

end
