(* ===== verification/Go_Strings.thy ===== *)
theory Go_Strings
  imports Go_Prelude
begin

text \<open>
  The functions of Go's \<open>strconv\<close>, \<open>strings\<close> and \<open>encoding/hex\<close> that the source uses,
  over byte strings, with the round trips the signature code rests on.
\<close>

section \<open>Decimal printing and parsing\<close>

definition digit_char :: "nat \<Rightarrow> char" where
  "digit_char d = char_of (48 + d)"

definition digit_val :: "char \<Rightarrow> nat option" where
  "digit_val c =
     (let n = of_char c :: nat in if 48 \<le> n \<and> n \<le> 57 then Some (n - 48) else None)"

fun show_nat :: "nat \<Rightarrow> string" where
  "show_nat n =
     (if n < 10 then [digit_char n] else show_nat (n div 10) @ [digit_char (n mod 10)])"

declare show_nat.simps [simp del]

text \<open>\<open>%d\<close>, \<open>strconv.Itoa\<close> and \<open>strconv.FormatInt(_, 10)\<close>.\<close>

definition show_int :: "int \<Rightarrow> string" where
  "show_int i = (if i < 0 then CHR ''-'' # show_nat (nat (- i)) else show_nat (nat i))"

fun parse_nat_acc :: "nat \<Rightarrow> string \<Rightarrow> nat option" where
  "parse_nat_acc acc [] = Some acc"
| "parse_nat_acc acc (c # cs) =
     (case digit_val c of None \<Rightarrow> None | Some d \<Rightarrow> parse_nat_acc (10 * acc + d) cs)"

definition parse_digits :: "string \<Rightarrow> nat option" where
  "parse_digits s = (if s = [] then None else parse_nat_acc 0 s)"

text \<open>\<open>strconv.ParseInt(s, 10, 64)\<close>: an optional sign, digits, and the range check.\<close>

definition ParseInt64 :: "string \<Rightarrow> int option" where
  "ParseInt64 s =
     (case s of
        [] \<Rightarrow> None
      | c # cs \<Rightarrow>
          (let neg = (c = CHR ''-''); rest = (if c = CHR ''+'' \<or> neg then cs else s)
           in case parse_digits rest of
                None \<Rightarrow> None
              | Some n \<Rightarrow>
                  if \<not> neg \<and> 2 ^ 63 \<le> n then None
                  else if neg \<and> 2 ^ 63 < n then None
                  else Some (if neg then - int n else int n)))"

lemma of_char_digit_char [simp]:
  assumes "d < 10"
  shows "(of_char (digit_char d) :: nat) = 48 + d"
proof -
  have "(of_char (char_of (48 + d)) :: nat) = (48 + d) mod 256" by simp
  with assms show ?thesis by (simp add: digit_char_def)
qed

lemma digit_val_digit_char [simp]: "d < 10 \<Longrightarrow> digit_val (digit_char d) = Some d"
  by (simp add: digit_val_def)

lemma parse_nat_acc_append:
  "parse_nat_acc acc (xs @ ys) =
     (case parse_nat_acc acc xs of None \<Rightarrow> None | Some a \<Rightarrow> parse_nat_acc a ys)"
  by (induction xs arbitrary: acc) (auto split: option.splits)

lemma parse_nat_acc_show_nat: "parse_nat_acc 0 (show_nat n) = Some n"
proof (induction n rule: show_nat.induct)
  case (1 n)
  show ?case
  proof (cases "n < 10")
    case True
    then show ?thesis by (simp add: show_nat.simps [of n])
  next
    case False
    with 1 show ?thesis
      by (subst show_nat.simps) (simp add: parse_nat_acc_append)
  qed
qed

lemma show_nat_not_Nil [simp]: "show_nat n \<noteq> []"
  by (subst show_nat.simps) simp

lemma show_int_not_Nil [simp]: "show_int i \<noteq> []"
  by (simp add: show_int_def)

lemma show_nat_digits: "c \<in> set (show_nat n) \<Longrightarrow> 48 \<le> (of_char c :: nat) \<and> (of_char c :: nat) \<le> 57"
proof (induction n rule: show_nat.induct)
  case (1 n)
  show ?case
  proof (cases "n < 10")
    case True
    with 1 show ?thesis by (simp add: show_nat.simps [of n])
  next
    case False
    with 1 show ?thesis by (auto simp: show_nat.simps [of n])
  qed
qed

lemma show_nat_hd_no_sign:
  assumes "show_nat n = c # cs"
  shows "c \<noteq> CHR ''-''" and "c \<noteq> CHR ''+''"
proof -
  have "48 \<le> (of_char c :: nat)" using show_nat_digits [of c n] assms by simp
  then show "c \<noteq> CHR ''-''" and "c \<noteq> CHR ''+''" by auto
qed

lemma show_int_chars:
  "c \<in> set (show_int i) \<Longrightarrow> c = CHR ''-'' \<or> (48 \<le> (of_char c :: nat) \<and> (of_char c :: nat) \<le> 57)"
  by (auto simp: show_int_def dest: show_nat_digits split: if_splits)

lemma show_int_free:
  assumes "c \<noteq> CHR ''-''" and "(of_char c :: nat) < 48 \<or> 57 < (of_char c :: nat)"
  shows "c \<notin> set (show_int i)"
proof
  assume "c \<in> set (show_int i)"
  then consider "c = CHR ''-''" | "48 \<le> (of_char c :: nat)" "(of_char c :: nat) \<le> 57"
    using show_int_chars by blast
  then show False
  proof cases
    case 1
    with assms show False by simp
  next
    case 2
    with assms show False by linarith
  qed
qed

theorem ParseInt64_show_int:
  assumes "int64_ok i"
  shows "ParseInt64 (show_int i) = Some i"
proof (cases "i < 0")
  case True
  with assms show ?thesis
    by (simp add: ParseInt64_def show_int_def parse_digits_def parse_nat_acc_show_nat int64_ok_def)
next
  case False
  obtain c cs where ccs: "show_nat (nat i) = c # cs"
    using show_nat_not_Nil by (cases "show_nat (nat i)") blast+
  have "parse_nat_acc 0 (c # cs) = Some (nat i)"
    using parse_nat_acc_show_nat [of "nat i"] ccs by simp
  with False assms ccs show_nat_hd_no_sign [OF ccs] show ?thesis
    by (simp add: ParseInt64_def show_int_def parse_digits_def int64_ok_def)
qed

section \<open>Splitting and trimming\<close>

text \<open>\<open>strings.Split(s, c)\<close> for a separator of one byte.\<close>

fun strings_Split :: "char \<Rightarrow> string \<Rightarrow> string list" where
  "strings_Split c [] = [[]]"
| "strings_Split c (x # xs) =
     (if x = c then [] # strings_Split c xs
      else case strings_Split c xs of [] \<Rightarrow> [[x]] | p # ps \<Rightarrow> (x # p) # ps)"

text \<open>\<open>strings.SplitN(s, c, 2)\<close>: the parts around the first \<open>c\<close>, or \<open>s\<close> alone.\<close>

definition strings_SplitN2 :: "char \<Rightarrow> string \<Rightarrow> string list" where
  "strings_SplitN2 c s =
     (if c \<in> set s then [takeWhile (\<lambda>x. x \<noteq> c) s, tl (dropWhile (\<lambda>x. x \<noteq> c) s)] else [s])"

lemma strings_Split_not_Nil [simp]: "strings_Split c s \<noteq> []"
  by (induction s) (auto split: list.splits)

lemma strings_Split_single: "c \<notin> set s \<Longrightarrow> strings_Split c s = [s]"
  by (induction s) auto

lemma strings_Split_append:
  "c \<notin> set a \<Longrightarrow> strings_Split c (a @ c # b) = a # strings_Split c b"
  by (induction a) auto

lemma strings_SplitN2_append:
  "c \<notin> set a \<Longrightarrow> strings_SplitN2 c (a @ c # b) = [a, b]"
proof -
  assume c: "c \<notin> set a"
  then have "takeWhile (\<lambda>x. x \<noteq> c) (a @ c # b) = a"
    and "dropWhile (\<lambda>x. x \<noteq> c) (a @ c # b) = c # b"
    by (auto simp: takeWhile_append dropWhile_append dest: dropWhile_eq_Nil_conv [THEN iffD2])
  then show ?thesis by (simp add: strings_SplitN2_def)
qed

text \<open>
  \<open>strings.TrimSpace\<close> removes Unicode white space from both ends. The table lists the UTF-8
  encodings of the runes for which \<open>unicode.IsSpace\<close> holds.
\<close>

definition space_runes :: "nat list list" where
  "space_runes =
     [[9], [10], [11], [12], [13], [32], [194, 133], [194, 160], [225, 154, 128],
      [226, 128, 128], [226, 128, 129], [226, 128, 130], [226, 128, 131], [226, 128, 132],
      [226, 128, 133], [226, 128, 134], [226, 128, 135], [226, 128, 136], [226, 128, 137],
      [226, 128, 138], [226, 128, 168], [226, 128, 169], [226, 128, 175], [226, 129, 159],
      [227, 128, 128]]"

fun strip_prefix :: "'a list \<Rightarrow> 'a list \<Rightarrow> 'a list option" where
  "strip_prefix [] s = Some s"
| "strip_prefix (p # ps) [] = None"
| "strip_prefix (p # ps) (x # xs) = (if p = x then strip_prefix ps xs else None)"

fun strip_any :: "'a list list \<Rightarrow> 'a list \<Rightarrow> 'a list option" where
  "strip_any [] s = None"
| "strip_any (p # ps) s = (case strip_prefix p s of Some t \<Rightarrow> Some t | None \<Rightarrow> strip_any ps s)"

text \<open>At most one rune per byte can be removed, so \<open>length s\<close> rounds are enough.\<close>

fun trim_runes :: "nat \<Rightarrow> 'a list list \<Rightarrow> 'a list \<Rightarrow> 'a list" where
  "trim_runes 0 ps s = s"
| "trim_runes (Suc n) ps s = (case strip_any ps s of Some t \<Rightarrow> trim_runes n ps t | None \<Rightarrow> s)"

definition TrimSpace :: "string \<Rightarrow> string" where
  "TrimSpace s =
     (let enc = map (map char_of) space_runes;
          l = trim_runes (length s) enc s
      in rev (trim_runes (length l) (map rev enc) (rev l)))"

lemma strip_any_None:
  "\<forall>p \<in> set ps. p \<noteq> [] \<and> hd p \<noteq> x \<Longrightarrow> strip_any ps (x # xs) = None"
proof (induction ps)
  case (Cons p ps)
  then show ?case by (cases p) auto
qed simp

lemma trim_runes_id:
  "\<forall>p \<in> set ps. p \<noteq> [] \<and> hd p \<noteq> hd s \<Longrightarrow> trim_runes n ps s = s"
proof (cases n)
  case (Suc m)
  assume ps: "\<forall>p \<in> set ps. p \<noteq> [] \<and> hd p \<noteq> hd s"
  show ?thesis
  proof (cases s)
    case Nil
    have "strip_any ps [] = None" using ps
    proof (induction ps)
      case (Cons p ps)
      then show ?case by (cases p) auto
    qed simp
    with Nil Suc show ?thesis by simp
  next
    case (Cons x xs)
    with ps Suc show ?thesis by (simp add: strip_any_None)
  qed
qed simp

text \<open>A string whose bytes are printable ASCII is unchanged.\<close>

definition printable :: "char \<Rightarrow> bool" where
  "printable c \<longleftrightarrow> 33 \<le> (of_char c :: nat) \<and> (of_char c :: nat) < 127"

lemma space_heads:
  assumes "printable x" and "p \<in> set (map (map char_of) space_runes) \<union> set (map rev (map (map char_of) space_runes))"
  shows "p \<noteq> [] \<and> hd p \<noteq> x"
proof -
  have "\<forall>p \<in> set (map (map char_of) space_runes :: string list) \<union>
            set (map rev (map (map char_of) space_runes)).
          p \<noteq> [] \<and> ((of_char (hd p) :: nat) < 33 \<or> 127 \<le> (of_char (hd p) :: nat))"
    by (simp add: space_runes_def)
  from bspec [OF this assms(2)] assms(1) show ?thesis
    by (auto simp: printable_def)
qed

lemma trim_runes_Nil: "\<forall>p \<in> set ps. p \<noteq> [] \<Longrightarrow> trim_runes n ps [] = []"
proof (cases n)
  case (Suc m)
  assume ps: "\<forall>p \<in> set ps. p \<noteq> []"
  then have "strip_any ps [] = None"
  proof (induction ps)
    case (Cons p ps)
    then show ?case by (cases p) auto
  qed simp
  with Suc show ?thesis by simp
qed simp

lemma TrimSpace_printable:
  assumes "\<forall>x \<in> set s. printable x"
  shows "TrimSpace s = s"
proof (cases s)
  case Nil
  then show ?thesis by (simp add: TrimSpace_def)
next
  case (Cons x xs)
  have "printable (hd s)" and "printable (hd (rev s))"
    using assms Cons hd_in_set [of "rev s"] by auto
  then have "trim_runes n (map (map char_of) space_runes) s = s"
    and "trim_runes n (map rev (map (map char_of) space_runes)) (rev s) = rev s" for n
    by (blast intro: trim_runes_id dest: space_heads)+
  then show ?thesis by (simp add: TrimSpace_def)
qed

text \<open>
  \<open>strings.ToLower\<close> on the ASCII letters. Its action on the bytes of other runes never yields
  an ASCII hexadecimal digit, so comparisons with hexadecimal text are unaffected by it.
\<close>

definition lower_char :: "char \<Rightarrow> char" where
  "lower_char c =
     (let n = of_char c :: nat in if 65 \<le> n \<and> n \<le> 90 then char_of (n + 32) else c)"

definition ToLower :: "string \<Rightarrow> string" where
  "ToLower s = map lower_char s"

section \<open>Hexadecimal encoding\<close>

definition hex_digit :: "nat \<Rightarrow> char" where
  "hex_digit d = (if d < 10 then char_of (48 + d) else char_of (87 + d))"

definition hex_EncodeToString :: "string \<Rightarrow> string" where
  "hex_EncodeToString bs =
     concat (map (\<lambda>b. let n = of_char b :: nat in [hex_digit (n div 16), hex_digit (n mod 16)]) bs)"

definition is_hex :: "char \<Rightarrow> bool" where
  "is_hex c \<longleftrightarrow> (let n = of_char c :: nat in (48 \<le> n \<and> n \<le> 57) \<or> (97 \<le> n \<and> n \<le> 102))"

lemma of_char_hex_digit:
  "d < 16 \<Longrightarrow> (of_char (hex_digit d) :: nat) = (if d < 10 then 48 + d else 87 + d)"
  by (simp add: hex_digit_def)

lemma of_char_less_256: "(of_char c :: nat) < 256"
  by (cases c) (simp add: of_char_def horner_sum_simps split: bool.split)

lemma is_hex_hex_digit: "d < 16 \<Longrightarrow> is_hex (hex_digit d)"
  by (auto simp: is_hex_def of_char_hex_digit Let_def)

lemma hex_EncodeToString_is_hex: "c \<in> set (hex_EncodeToString bs) \<Longrightarrow> is_hex c"
proof -
  assume "c \<in> set (hex_EncodeToString bs)"
  then obtain b where "c = hex_digit ((of_char b :: nat) div 16) \<or> c = hex_digit ((of_char b :: nat) mod 16)"
    by (auto simp: hex_EncodeToString_def Let_def)
  moreover have "(of_char b :: nat) div 16 < 16"
    using of_char_less_256 [of b] by (simp add: less_mult_imp_div_less)
  ultimately show ?thesis by (auto intro: is_hex_hex_digit)
qed

lemma length_hex_EncodeToString: "length (hex_EncodeToString bs) = 2 * length bs"
  by (induction bs) (auto simp: hex_EncodeToString_def Let_def)

lemma hex_digit_inject:
  assumes "a < 16" and "b < 16"
  shows "hex_digit a = hex_digit b \<longleftrightarrow> a = b"
proof
  assume "hex_digit a = hex_digit b"
  then have "(of_char (hex_digit a) :: nat) = of_char (hex_digit b)" by simp
  with assms show "a = b" by (simp add: of_char_hex_digit split: if_splits)
qed simp

lemma hex_EncodeToString_inject [simp]:
  "hex_EncodeToString xs = hex_EncodeToString ys \<longleftrightarrow> xs = ys"
proof
  assume "hex_EncodeToString xs = hex_EncodeToString ys"
  then show "xs = ys"
  proof (induction xs arbitrary: ys)
    case Nil
    then show ?case by (cases ys) (auto simp: hex_EncodeToString_def Let_def)
  next
    case (Cons x xs)
    then obtain y ys' where ys: "ys = y # ys'"
      by (cases ys) (auto simp: hex_EncodeToString_def Let_def)
    let ?x = "of_char x :: nat" and ?y = "of_char y :: nat"
    have "?x div 16 < 16" and "?y div 16 < 16"
      using of_char_less_256 [of x] of_char_less_256 [of y] by (simp_all add: less_mult_imp_div_less)
    with Cons.prems ys have "?x div 16 = ?y div 16" and "?x mod 16 = ?y mod 16"
      and "hex_EncodeToString xs = hex_EncodeToString ys'"
      by (auto simp: hex_EncodeToString_def Let_def hex_digit_inject)
    then have "?x = ?y" by (metis div_mult_mod_eq)
    moreover have "xs = ys'" using Cons.IH \<open>hex_EncodeToString xs = hex_EncodeToString ys'\<close> by blast
    ultimately show ?case by (simp add: ys)
  qed
qed simp

lemma is_hex_printable: "is_hex c \<Longrightarrow> printable c"
  by (auto simp: is_hex_def printable_def Let_def)

lemma lower_is_hex: "is_hex c \<Longrightarrow> lower_char c = c"
  by (auto simp: is_hex_def lower_char_def Let_def)

lemma ToLower_hex [simp]: "ToLower (hex_EncodeToString bs) = hex_EncodeToString bs"
  unfolding ToLower_def by (rule map_idI) (blast intro: lower_is_hex hex_EncodeToString_is_hex)

lemma TrimSpace_hex [simp]: "TrimSpace (hex_EncodeToString bs) = hex_EncodeToString bs"
  by (rule TrimSpace_printable) (blast intro: is_hex_printable hex_EncodeToString_is_hex)

lemma TrimSpace_show_int [simp]: "TrimSpace (show_int i) = show_int i"
  by (rule TrimSpace_printable) (auto simp: printable_def dest!: show_int_chars)

lemma hex_free: "\<not> is_hex c \<Longrightarrow> c \<notin> set (hex_EncodeToString bs)"
  by (blast dest: hex_EncodeToString_is_hex)

end
