(* ===== verification/Ssrf.thy ===== *)
theory Ssrf
  imports Go_Strings "HOL-Library.Word"
begin

unbundle bit_operations_syntax

text \<open>
  The SSRF guard of \<open>internal/dispatcher/ssrf.go\<close>: the table of restricted CIDR blocks, the
  address test \<open>IsRestrictedIP\<close> and the two places that apply it, the transport's
  \<open>DialContext\<close> and the dialer's \<open>Control\<close> hook. The parts of Go's \<open>net\<close> package the guard
  uses (\<open>ParseIP\<close>, \<open>To4\<close>, the address predicates, \<open>IPNet.Contains\<close>, \<open>SplitHostPort\<close>)
  are modelled as they are documented and implemented; the resolver and the operating system's
  dialer are parameters. The main facts: the test is membership in an explicit list of
  address intervals, and no connection reaches a restricted address even when the name
  resolves differently between the check and the dial.
\<close>

section \<open>Addresses\<close>

type_synonym u8 = "8 word"
type_synonym IP = "u8 list"

definition To4 :: "IP \<Rightarrow> IP option" where
  "To4 ip =
     (if length ip = 4 then Some ip
      else if length ip = 16 \<and> take 10 ip = replicate 10 0 \<and> ip ! 10 = 0xff \<and> ip ! 11 = 0xff
      then Some (drop 12 ip)
      else None)"

definition v4_mapped :: "IP \<Rightarrow> IP" where
  "v4_mapped ip = replicate 10 0 @ [0xff, 0xff] @ ip"

definition IP_Equal :: "IP \<Rightarrow> IP \<Rightarrow> bool" where
  "IP_Equal ip x =
     (if length ip = length x then ip = x
      else if length ip = 4 \<and> length x = 16 then x = v4_mapped ip
      else if length ip = 16 \<and> length x = 4 then ip = v4_mapped x
      else False)"

definition IPv6loopback :: IP where "IPv6loopback = replicate 15 0 @ [1]"
definition IPv6unspecified :: IP where "IPv6unspecified = replicate 16 0"
definition IPv4zero :: IP where "IPv4zero = v4_mapped [0, 0, 0, 0]"

definition IsLoopback :: "IP \<Rightarrow> bool" where
  "IsLoopback ip =
     (case To4 ip of Some ip4 \<Rightarrow> ip4 ! 0 = 127 | None \<Rightarrow> IP_Equal ip IPv6loopback)"

definition IsUnspecified :: "IP \<Rightarrow> bool" where
  "IsUnspecified ip = (IP_Equal ip IPv4zero \<or> IP_Equal ip IPv6unspecified)"

definition IsPrivate :: "IP \<Rightarrow> bool" where
  "IsPrivate ip =
     (case To4 ip of
        Some ip4 \<Rightarrow> ip4 ! 0 = 10 \<or> (ip4 ! 0 = 172 \<and> ip4 ! 1 AND 0xf0 = 16)
          \<or> (ip4 ! 0 = 192 \<and> ip4 ! 1 = 168)
      | None \<Rightarrow> length ip = 16 \<and> ip ! 0 AND 0xfe = 0xfc)"

definition IsMulticast :: "IP \<Rightarrow> bool" where
  "IsMulticast ip =
     (case To4 ip of
        Some ip4 \<Rightarrow> ip4 ! 0 AND 0xf0 = 0xe0
      | None \<Rightarrow> length ip = 16 \<and> ip ! 0 = 0xff)"

definition IsLinkLocalMulticast :: "IP \<Rightarrow> bool" where
  "IsLinkLocalMulticast ip =
     (case To4 ip of
        Some ip4 \<Rightarrow> ip4 ! 0 = 224 \<and> ip4 ! 1 = 0 \<and> ip4 ! 2 = 0
      | None \<Rightarrow> length ip = 16 \<and> ip ! 0 = 0xff \<and> ip ! 1 AND 0x0f = 0x02)"

definition IsLinkLocalUnicast :: "IP \<Rightarrow> bool" where
  "IsLinkLocalUnicast ip =
     (case To4 ip of
        Some ip4 \<Rightarrow> ip4 ! 0 = 169 \<and> ip4 ! 1 = 254
      | None \<Rightarrow> length ip = 16 \<and> ip ! 0 = 0xfe \<and> ip ! 1 AND 0xc0 = 0x80)"

lemmas ip_predicates =
  IsLoopback_def IsUnspecified_def IsPrivate_def IsMulticast_def IsLinkLocalMulticast_def
  IsLinkLocalUnicast_def

section \<open>Parsing addresses\<close>

definition octet :: "string \<Rightarrow> u8 option" where
  "octet s =
     (if s = [] \<or> (length s \<ge> 2 \<and> hd s = CHR ''0'') then None
      else case parse_nat_acc 0 s of
        None \<Rightarrow> None
      | Some n \<Rightarrow> if n > 255 then None else Some (of_nat n))"

fun all_some :: "'a option list \<Rightarrow> 'a list option" where
  "all_some [] = Some []"
| "all_some (None # xs) = None"
| "all_some (Some x # xs) = map_option ((#) x) (all_some xs)"

definition parseIPv4Fields :: "string \<Rightarrow> IP option" where
  "parseIPv4Fields s =
     (let parts = strings_Split (CHR ''.'') s in
      if length parts \<noteq> 4 then None else all_some (map octet parts))"

definition hex_val :: "char \<Rightarrow> int option" where
  "hex_val c =
     (let n = of_char c :: int in
      if 48 \<le> n \<and> n \<le> 57 then Some (n - 48)
      else if 97 \<le> n \<and> n \<le> 102 then Some (n - 87)
      else if 65 \<le> n \<and> n \<le> 70 then Some (n - 55)
      else None)"

text \<open>The hexadecimal digits at the front of a string, and the rest.\<close>

definition hex_span :: "string \<Rightarrow> string \<times> string" where
  "hex_span s =
     (takeWhile (\<lambda>c. hex_val c \<noteq> None) s, dropWhile (\<lambda>c. hex_val c \<noteq> None) s)"

definition hex_number :: "string \<Rightarrow> int" where
  "hex_number ds = foldl (\<lambda>a c. a * 16 + the (hex_val c)) 0 ds"

text \<open>
  The loop over the groups of an IPv6 address: the bytes read so far, the position of the
  ellipsis, and the rest of the text. Every round but the last reads two bytes, so the fuel
  8 covers all the rounds of \<open>for i < 16\<close>.
\<close>

fun v6_groups :: "nat \<Rightarrow> IP \<Rightarrow> nat option \<Rightarrow> string \<Rightarrow> (IP \<times> nat option \<times> string) option" where
  "v6_groups 0 bs ell s = Some (bs, ell, s)"
| "v6_groups (Suc fuel) bs ell s =
     (let (ds, rest) = hex_span s in
      if length ds > 4 \<or> ds = [] then None
      else if rest \<noteq> [] \<and> hd rest = CHR ''.'' then
        (if ell = None \<and> length bs \<noteq> 12 then None
         else if length bs + 4 > 16 then None
         else case parseIPv4Fields s of None \<Rightarrow> None | Some f \<Rightarrow> Some (bs @ f, ell, []))
      else
        let n = hex_number ds; bs' = bs @ [of_int (n div 256), of_int (n mod 256)] in
        case rest of
          [] \<Rightarrow> Some (bs', ell, [])
        | [c] \<Rightarrow> None
        | c # d # r \<Rightarrow>
            if c \<noteq> CHR '':'' then None
            else if d = CHR '':'' then
              (if ell \<noteq> None then None
               else if r = [] then Some (bs', Some (length bs'), [])
               else v6_groups fuel bs' (Some (length bs')) r)
            else v6_groups fuel bs' ell (d # r))"

definition parseIPv6 :: "string \<Rightarrow> IP option" where
  "parseIPv6 s =
     (let (ell, s1) = (if take 2 s = ''::'' then (Some 0, drop 2 s) else (None, s)) in
      if ell = Some 0 \<and> s1 = [] then Some IPv6unspecified
      else case v6_groups 8 [] ell s1 of
        None \<Rightarrow> None
      | Some (bs, ell', rest) \<Rightarrow>
          if rest \<noteq> [] then None
          else if length bs < 16 then
            (case ell' of None \<Rightarrow> None
             | Some e \<Rightarrow> Some (take e bs @ replicate (16 - length bs) 0 @ drop e bs))
          else if ell' \<noteq> None then None
          else Some bs)"

text \<open>
  \<open>net.ParseIP\<close>: the first \<open>.\<close> or \<open>:\<close> decides the family, an address with a zone
  (\<open>%\<close>) is refused, and the result has 16 bytes.
\<close>

definition ParseIP :: "string \<Rightarrow> IP option" where
  "ParseIP s =
     (case filter (\<lambda>c. c = CHR ''.'' \<or> c = CHR '':'' \<or> c = CHR ''%'') s of
        [] \<Rightarrow> None
      | c # _ \<Rightarrow>
          if c = CHR ''.'' then map_option v4_mapped (parseIPv4Fields s)
          else if c = CHR '':'' \<and> CHR ''%'' \<notin> set s then parseIPv6 s
          else None)"

section \<open>CIDR blocks\<close>

record IPNet =
  net_IP :: IP
  net_Mask :: IP

definition CIDRMask :: "nat \<Rightarrow> nat \<Rightarrow> IP" where
  "CIDRMask ones n =
     map (\<lambda>i. let k = min 8 (ones - 8 * i) in of_int (256 - 2 ^ (8 - k))) [0..<n]"

definition parse_small :: "string \<Rightarrow> nat option" where
  "parse_small s = parse_digits s"

definition ParseCIDR :: "string \<Rightarrow> IPNet option" where
  "ParseCIDR s =
     (case strings_SplitN2 (CHR ''/'') s of
        [addr, ones] \<Rightarrow>
          (case (ParseIP addr, parse_small ones) of
             (Some ip, Some n) \<Rightarrow>
               (let ip' = (if CHR '':'' \<in> set addr then ip else drop 12 ip) in
                if n > 8 * length ip' then None
                else let m = CIDRMask n (length ip')
                     in Some \<lparr>net_IP = map2 (AND) ip' m, net_Mask = m\<rparr>)
           | _ \<Rightarrow> None)
      | _ \<Rightarrow> None)"

definition Contains :: "IPNet \<Rightarrow> IP \<Rightarrow> bool" where
  "Contains n ip =
     (let x = (case To4 ip of Some ip4 \<Rightarrow> ip4 | None \<Rightarrow> ip) in
      length x = length (net_IP n) \<and>
      map2 (AND) (net_IP n) (net_Mask n) = map2 (AND) x (net_Mask n))"

section \<open>The guard\<close>

definition restrictedCIDRs :: "string list" where
  "restrictedCIDRs =
     [''127.0.0.0/8'', ''10.0.0.0/8'', ''172.16.0.0/12'', ''192.168.0.0/16'', ''169.254.0.0/16'',
      ''0.0.0.0/8'', ''100.64.0.0/10'', ''192.0.0.0/24'', ''192.0.2.0/24'', ''198.18.0.0/15'',
      ''198.51.100.0/24'', ''203.0.113.0/24'', ''224.0.0.0/4'', ''240.0.0.0/4'',
      ''255.255.255.255/32'', ''::1/128'', ''::/128'', ''fe80::/10'', ''fc00::/7'', ''ff00::/8'',
      ''2001:db8::/32'']"

definition privateIPBlocks :: "IPNet list" where
  "privateIPBlocks = List.map_filter ParseCIDR restrictedCIDRs"

definition IsRestrictedIP :: "IP option \<Rightarrow> bool" where
  "IsRestrictedIP mip =
     (case mip of
        None \<Rightarrow> True
      | Some ip0 \<Rightarrow>
          let ip = (case To4 ip0 of Some ip4 \<Rightarrow> ip4 | None \<Rightarrow> ip0) in
          if IsLoopback ip \<or> IsLinkLocalUnicast ip \<or> IsLinkLocalMulticast ip \<or> IsMulticast ip
             \<or> IsUnspecified ip \<or> IsPrivate ip
          then True
          else list_ex (\<lambda>block. Contains block ip) privateIPBlocks)"

section \<open>The test as a list of address ranges\<close>

text \<open>Bytes are few: a fact about one byte is checked on all 256.\<close>

lemma u8_all: "(\<forall>n\<in>set (map word_of_int [0..255]). P n) \<Longrightarrow> P (x::u8)"
proof -
  assume h: "\<forall>n\<in>set (map word_of_int [0..255]). P n"
  have "x \<in> set (map word_of_int [0..255])"
    using uint_lt2p [of x] uint_ge_0 [of x] by (auto simp: image_iff intro!: bexI [of _ "uint x"])
  with h show ?thesis by blast
qed

lemma u8_mask_255: "(x::u8) AND 255 = x"
  by (rule u8_all [of "\<lambda>x. x AND 255 = x"]) code_simp

lemma u8_mask_240_16: "(x::u8) AND 240 = 16 \<longleftrightarrow> 16 \<le> x \<and> x < 32"
  by (rule u8_all [of "\<lambda>x. x AND 240 = 16 \<longleftrightarrow> 16 \<le> x \<and> x < 32"]) code_simp

lemma u8_mask_240_224: "(x::u8) AND 240 = 224 \<longleftrightarrow> 224 \<le> x \<and> x < 240"
  by (rule u8_all [of "\<lambda>x. x AND 240 = 224 \<longleftrightarrow> 224 \<le> x \<and> x < 240"]) code_simp

lemma u8_mask_240_240: "(x::u8) AND 240 = 240 \<longleftrightarrow> 240 \<le> x"
  by (rule u8_all [of "\<lambda>x. x AND 240 = 240 \<longleftrightarrow> 240 \<le> x"]) code_simp

lemma u8_mask_192_64: "(x::u8) AND 192 = 64 \<longleftrightarrow> 64 \<le> x \<and> x < 128"
  by (rule u8_all [of "\<lambda>x. x AND 192 = 64 \<longleftrightarrow> 64 \<le> x \<and> x < 128"]) code_simp

lemma u8_mask_192_128: "(x::u8) AND 192 = 128 \<longleftrightarrow> 128 \<le> x \<and> x < 192"
  by (rule u8_all [of "\<lambda>x. x AND 192 = 128 \<longleftrightarrow> 128 \<le> x \<and> x < 192"]) code_simp

lemma u8_mask_254_18: "(x::u8) AND 254 = 18 \<longleftrightarrow> x = 18 \<or> x = 19"
  by (rule u8_all [of "\<lambda>x. x AND 254 = 18 \<longleftrightarrow> x = 18 \<or> x = 19"]) code_simp

lemma u8_mask_254_252: "(x::u8) AND 254 = 252 \<longleftrightarrow> x = 252 \<or> x = 253"
  by (rule u8_all [of "\<lambda>x. x AND 254 = 252 \<longleftrightarrow> x = 252 \<or> x = 253"]) code_simp

lemma u8_high: "(224::u8) \<le> x \<longleftrightarrow> 224 \<le> x \<and> x < 240 \<or> 240 \<le> x"
  by (rule u8_all [of "\<lambda>x. 224 \<le> x \<longleftrightarrow> 224 \<le> x \<and> x < 240 \<or> 240 \<le> x"]) code_simp

lemmas u8_masks = u8_mask_255 u8_mask_240_16 u8_mask_240_224 u8_mask_240_240
  u8_mask_192_64 u8_mask_192_128 u8_mask_254_18 u8_mask_254_252

lemma u8_masks_sym:
  "16 = (x::u8) AND 240 \<longleftrightarrow> 16 \<le> x \<and> x < 32"
  "224 = (x::u8) AND 240 \<longleftrightarrow> 224 \<le> x \<and> x < 240"
  "240 = (x::u8) AND 240 \<longleftrightarrow> 240 \<le> x"
  "64 = (x::u8) AND 192 \<longleftrightarrow> 64 \<le> x \<and> x < 128"
  "128 = (x::u8) AND 192 \<longleftrightarrow> 128 \<le> x \<and> x < 192"
  "18 = (x::u8) AND 254 \<longleftrightarrow> x = 18 \<or> x = 19"
  "252 = (x::u8) AND 254 \<longleftrightarrow> x = 252 \<or> x = 253"
  using u8_masks [of x] by (metis (lifting))+

lemma privateIPBlocks_eq:
  "privateIPBlocks =
     map (\<lambda>(i, m). \<lparr>net_IP = i, net_Mask = m\<rparr>)
      [([127, 0, 0, 0], [255, 0, 0, 0]), ([10, 0, 0, 0], [255, 0, 0, 0]),
       ([172, 16, 0, 0], [255, 240, 0, 0]), ([192, 168, 0, 0], [255, 255, 0, 0]),
       ([169, 254, 0, 0], [255, 255, 0, 0]), ([0, 0, 0, 0], [255, 0, 0, 0]),
       ([100, 64, 0, 0], [255, 192, 0, 0]), ([192, 0, 0, 0], [255, 255, 255, 0]),
       ([192, 0, 2, 0], [255, 255, 255, 0]), ([198, 18, 0, 0], [255, 254, 0, 0]),
       ([198, 51, 100, 0], [255, 255, 255, 0]), ([203, 0, 113, 0], [255, 255, 255, 0]),
       ([224, 0, 0, 0], [240, 0, 0, 0]), ([240, 0, 0, 0], [240, 0, 0, 0]),
       ([255, 255, 255, 255], [255, 255, 255, 255]),
       ([0, 0, 0, 0, 0, 0, 0, 0, 0, 0, 0, 0, 0, 0, 0, 1],
        [255, 255, 255, 255, 255, 255, 255, 255, 255, 255, 255, 255, 255, 255, 255, 255]),
       ([0, 0, 0, 0, 0, 0, 0, 0, 0, 0, 0, 0, 0, 0, 0, 0],
        [255, 255, 255, 255, 255, 255, 255, 255, 255, 255, 255, 255, 255, 255, 255, 255]),
       ([254, 128, 0, 0, 0, 0, 0, 0, 0, 0, 0, 0, 0, 0, 0, 0],
        [255, 192, 0, 0, 0, 0, 0, 0, 0, 0, 0, 0, 0, 0, 0, 0]),
       ([252, 0, 0, 0, 0, 0, 0, 0, 0, 0, 0, 0, 0, 0, 0, 0],
        [254, 0, 0, 0, 0, 0, 0, 0, 0, 0, 0, 0, 0, 0, 0, 0]),
       ([255, 0, 0, 0, 0, 0, 0, 0, 0, 0, 0, 0, 0, 0, 0, 0],
        [255, 0, 0, 0, 0, 0, 0, 0, 0, 0, 0, 0, 0, 0, 0, 0]),
       ([32, 1, 13, 184, 0, 0, 0, 0, 0, 0, 0, 0, 0, 0, 0, 0],
        [255, 255, 255, 255, 0, 0, 0, 0, 0, 0, 0, 0, 0, 0, 0, 0])]"
  by code_simp

text \<open>The specification: which addresses a webhook must not reach, octet by octet.\<close>

fun restricted_v4 :: "u8 list \<Rightarrow> bool" where
  "restricted_v4 [a, b, c, d] =
     (a = 0 \<or> a = 10 \<or> a = 127 \<or> 224 \<le> a \<or>
      (a = 100 \<and> 64 \<le> b \<and> b < 128) \<or>
      (a = 169 \<and> b = 254) \<or>
      (a = 172 \<and> 16 \<le> b \<and> b < 32) \<or>
      (a = 192 \<and> (b = 168 \<or> (b = 0 \<and> (c = 0 \<or> c = 2)))) \<or>
      (a = 198 \<and> (b = 18 \<or> b = 19 \<or> (b = 51 \<and> c = 100))) \<or>
      (a = 203 \<and> b = 0 \<and> c = 113))"
| "restricted_v4 _ = False"

definition restricted_v6 :: "u8 list \<Rightarrow> bool" where
  "restricted_v6 ip \<longleftrightarrow>
     ip = replicate 15 0 @ [1] \<or> ip = replicate 16 0 \<or>
     (ip ! 0 = 0xfe \<and> 0x80 \<le> ip ! 1 \<and> ip ! 1 < 0xc0) \<or>
     ip ! 0 = 0xfc \<or> ip ! 0 = 0xfd \<or> ip ! 0 = 0xff \<or>
     take 4 ip = [0x20, 0x01, 0x0d, 0xb8]"

lemma To4_length: "To4 ip = Some ip4 \<Longrightarrow> length ip4 = 4"
  by (auto simp: To4_def split: if_splits)

lemma length4: "length xs = 4 \<Longrightarrow> \<exists>a b c d. xs = [a, b, c, d]"
  by (auto simp: numeral_eq_Suc length_Suc_conv)

lemma length16E:
  assumes "length xs = 16"
  obtains a b c d e f g h i j k l m n p q
    where "xs = [a, b, c, d, e, f, g, h, i, j, k, l, m, n, p, q]"
  using assms by (auto simp: numeral_eq_Suc length_Suc_conv)

lemma address_lists:
  "v4_mapped xs = [0, 0, 0, 0, 0, 0, 0, 0, 0, 0, 0xff, 0xff] @ xs"
  "IPv6unspecified = [0, 0, 0, 0, 0, 0, 0, 0, 0, 0, 0, 0, 0, 0, 0, 0]"
  "IPv6loopback = [0, 0, 0, 0, 0, 0, 0, 0, 0, 0, 0, 0, 0, 0, 0, 1]"
  by (simp_all add: v4_mapped_def IPv6unspecified_def IPv6loopback_def eval_nat_numeral)

lemma To4_mapped [simp]: "length xs = 4 \<Longrightarrow> To4 (v4_mapped xs) = Some xs"
  by (simp add: To4_def v4_mapped_def nth_append)

lemmas u8_flip = eq_commute [of "0 :: u8"] eq_commute [of "2 :: u8"] eq_commute [of "10 :: u8"]
  eq_commute [of "51 :: u8"] eq_commute [of "100 :: u8"] eq_commute [of "113 :: u8"]
  eq_commute [of "127 :: u8"] eq_commute [of "168 :: u8"] eq_commute [of "169 :: u8"]
  eq_commute [of "172 :: u8"] eq_commute [of "192 :: u8"] eq_commute [of "198 :: u8"]
  eq_commute [of "203 :: u8"] eq_commute [of "254 :: u8"] eq_commute [of "255 :: u8"]

lemma predicates_v4:
  "IsLoopback [a, b, c, d] \<longleftrightarrow> a = 127"
  "IsLinkLocalUnicast [a, b, c, d] \<longleftrightarrow> a = 169 \<and> b = 254"
  "IsLinkLocalMulticast [a, b, c, d] \<longleftrightarrow> a = 224 \<and> b = 0 \<and> c = 0"
  "IsMulticast [a, b, c, d] \<longleftrightarrow> 224 \<le> a \<and> a < 240"
  "IsUnspecified [a, b, c, d] \<longleftrightarrow> a = 0 \<and> b = 0 \<and> c = 0 \<and> d = 0"
  "IsPrivate [a, b, c, d] \<longleftrightarrow>
     a = 10 \<or> (a = 172 \<and> 16 \<le> b \<and> b < 32) \<or> (a = 192 \<and> b = 168)"
  by (simp_all add: To4_def ip_predicates IP_Equal_def IPv4zero_def address_lists u8_masks u8_flip)

lemma blocks_v4:
  "list_ex (\<lambda>block. Contains block [a, b, c, d]) privateIPBlocks \<longleftrightarrow>
     a = 127 \<or> a = 10 \<or> (a = 172 \<and> 16 \<le> b \<and> b < 32) \<or> (a = 192 \<and> b = 168) \<or>
     (a = 169 \<and> b = 254) \<or> a = 0 \<or> (a = 100 \<and> 64 \<le> b \<and> b < 128) \<or>
     (a = 192 \<and> b = 0 \<and> c = 0) \<or> (a = 192 \<and> b = 0 \<and> c = 2) \<or>
     (a = 198 \<and> (b = 18 \<or> b = 19)) \<or> (a = 198 \<and> b = 51 \<and> c = 100) \<or>
     (a = 203 \<and> b = 0 \<and> c = 113) \<or> (224 \<le> a \<and> a < 240) \<or> 240 \<le> a \<or>
     (a = 255 \<and> b = 255 \<and> c = 255 \<and> d = 255)"
  by (simp add: privateIPBlocks_eq Contains_def To4_def u8_masks u8_masks_sym u8_flip)

lemma restricted_v4_iff:
  "IsLoopback [a, b, c, d] \<or> IsLinkLocalUnicast [a, b, c, d] \<or> IsLinkLocalMulticast [a, b, c, d]
   \<or> IsMulticast [a, b, c, d] \<or> IsUnspecified [a, b, c, d] \<or> IsPrivate [a, b, c, d]
   \<or> list_ex (\<lambda>block. Contains block [a, b, c, d]) privateIPBlocks
   \<longleftrightarrow> restricted_v4 [a, b, c, d]"
proof -
  have "a = 224 \<longrightarrow> 224 \<le> a" and "a = 255 \<longrightarrow> 240 \<le> a" by auto
  then show ?thesis
    unfolding predicates_v4 blocks_v4 restricted_v4.simps
    using u8_high [of a] by satx
qed

text \<open>The same for addresses that are not IPv4.\<close>

lemma restricted_v6_iff:
  assumes "To4 ip = None"
  shows "IsLoopback ip \<or> IsLinkLocalUnicast ip \<or> IsLinkLocalMulticast ip
     \<or> IsMulticast ip \<or> IsUnspecified ip \<or> IsPrivate ip
     \<or> list_ex (\<lambda>block. Contains block ip) privateIPBlocks
     \<longleftrightarrow> length ip = 16 \<and> restricted_v6 ip"
proof (cases "length ip = 16")
  case True
  obtain a b c d e f g h i j k l m n p q
    where ip: "ip = [a, b, c, d, e, f, g, h, i, j, k, l, m, n, p, q]"
    using True by (rule length16E)
  have "ip \<noteq> IPv4zero" using assms by (auto simp: IPv4zero_def)
  then have unspec: "IsUnspecified ip \<longleftrightarrow> ip = IPv6unspecified"
    using True by (simp add: IsUnspecified_def IP_Equal_def IPv4zero_def v4_mapped_def IPv6unspecified_def)
  show ?thesis
    using assms unspec
    by (auto simp: ip IsLoopback_def IsLinkLocalUnicast_def IsLinkLocalMulticast_def IsMulticast_def
        IsPrivate_def IP_Equal_def address_lists restricted_v6_def privateIPBlocks_eq Contains_def
        u8_masks u8_masks_sym u8_flip eval_nat_numeral)
next
  case False
  moreover have "length ip \<noteq> 4" using assms by (auto simp: To4_def)
  ultimately show ?thesis using assms
    by (simp add: ip_predicates IP_Equal_def IPv4zero_def address_lists privateIPBlocks_eq Contains_def)
qed

section \<open>Dialling\<close>

text \<open>\<open>net.SplitHostPort\<close> and \<open>net.JoinHostPort\<close>.\<close>

definition last_colon :: "string \<Rightarrow> nat option" where
  "last_colon s =
     (if CHR '':'' \<in> set s then Some (length s - 1 - length (takeWhile (\<lambda>c. c \<noteq> CHR '':'') (rev s)))
      else None)"

definition addr_error :: "string \<Rightarrow> goerr" where
  "addr_error m = ErrorsNew m"

definition SplitHostPort :: "string \<Rightarrow> goerr + (string \<times> string)" where
  "SplitHostPort hp =
     (case last_colon hp of
        None \<Rightarrow> Inl (addr_error ''missing port in address'')
      | Some i \<Rightarrow>
          if hd hp = CHR ''['' then
            (if CHR '']'' \<notin> set hp then Inl (addr_error ''missing ']' in address'')
             else
               let e = length (takeWhile (\<lambda>c. c \<noteq> CHR '']'') hp) in
               if e + 1 = length hp then Inl (addr_error ''missing port in address'')
               else if e + 1 \<noteq> i then
                 (if hp ! (e + 1) = CHR '':'' then Inl (addr_error ''too many colons in address'')
                  else Inl (addr_error ''missing port in address''))
               else if CHR ''['' \<in> set (drop 1 hp) then Inl (addr_error ''unexpected '[' in address'')
               else if CHR '']'' \<in> set (drop (e + 1) hp) then Inl (addr_error ''unexpected ']' in address'')
               else Inr (take (e - 1) (drop 1 hp), drop (i + 1) hp))
          else
            let host = take i hp in
            if CHR '':'' \<in> set host then Inl (addr_error ''too many colons in address'')
            else if CHR ''['' \<in> set hp then Inl (addr_error ''unexpected '[' in address'')
            else if CHR '']'' \<in> set hp then Inl (addr_error ''unexpected ']' in address'')
            else Inr (host, drop (i + 1) hp))"

definition JoinHostPort :: "string \<Rightarrow> string \<Rightarrow> string" where
  "JoinHostPort host port =
     (if CHR '':'' \<in> set host then ''['' @ host @ '']:'' @ port else host @ '':'' @ port)"

text \<open>
  The dialer's \<open>Control\<close> hook, called by the operating-system dialer with each address it is
  about to connect to.
\<close>

definition dialer_Control :: "bool \<Rightarrow> string \<Rightarrow> goerr option" where
  "dialer_Control allowPrivate address =
     (if allowPrivate then None
      else case SplitHostPort address of
        Inl err \<Rightarrow> Some err
      | Inr (host, _) \<Rightarrow>
          (case ParseIP host of
             None \<Rightarrow> None
           | Some ip \<Rightarrow> if IsRestrictedIP (Some ip) then Some ErrRestrictedDestination else None))"

text \<open>
  \<open>net.Dialer.DialContext\<close>: it resolves the address again on its own (\<open>resolve\<close>, which need not
  agree with the lookup the guard made), and tries the results in turn (\<open>connects\<close>); each try goes
  through \<open>Control\<close> first. The result is the address connected to, or the first error.
\<close>

definition first_error :: "goerr option \<Rightarrow> goerr \<Rightarrow> goerr option" where
  "first_error firstErr e = (case firstErr of None \<Rightarrow> Some e | Some e' \<Rightarrow> Some e')"

fun dial_serial ::
    "bool \<Rightarrow> (string \<Rightarrow> goerr option) \<Rightarrow> goerr option \<Rightarrow> string list \<Rightarrow> goerr + string" where
  "dial_serial allowPrivate connects firstErr [] =
     (case firstErr of None \<Rightarrow> Inl (addr_error ''missing address'') | Some e \<Rightarrow> Inl e)"
| "dial_serial allowPrivate connects firstErr (a # as) =
     (case dialer_Control allowPrivate a of
        Some e \<Rightarrow> dial_serial allowPrivate connects (first_error firstErr e) as
      | None \<Rightarrow>
          (case connects a of
             None \<Rightarrow> Inr a
           | Some e \<Rightarrow> dial_serial allowPrivate connects (first_error firstErr e) as))"

text \<open>
  The transport's \<open>DialContext\<close>: literal addresses are tested at once, names are looked up and
  every result is tested, and the dial goes to the original host and port.
\<close>

definition transport_DialContext ::
    "bool \<Rightarrow> (string \<Rightarrow> goerr + IP list) \<Rightarrow> (string \<Rightarrow> string list) \<Rightarrow> (string \<Rightarrow> goerr option) \<Rightarrow>
     string \<Rightarrow> goerr + string" where
  "transport_DialContext allowPrivate lookup resolve connects addr =
     (case SplitHostPort addr of
        Inl err \<Rightarrow> Inl err
      | Inr (host, port) \<Rightarrow>
          (case ParseIP host of
             Some ip \<Rightarrow>
               if \<not> allowPrivate \<and> IsRestrictedIP (Some ip) then Inl ErrRestrictedDestination
               else dial_serial allowPrivate connects None (resolve addr)
           | None \<Rightarrow>
               if allowPrivate
               then dial_serial allowPrivate connects None (resolve (JoinHostPort host port))
               else
                 (case lookup host of
                    Inl err \<Rightarrow> Inl err
                  | Inr ips \<Rightarrow>
                      if length ips = 0
                      then Inl (ErrorsNew ''no IP addresses found for destination host'')
                      else if list_ex (\<lambda>ip. IsRestrictedIP (Some ip)) ips
                      then Inl ErrRestrictedDestination
                      else dial_serial allowPrivate connects None
                             (resolve (JoinHostPort host port)))))"

lemma dial_serial_control:
  "dial_serial allowPrivate connects e as = Inr a \<Longrightarrow> dialer_Control allowPrivate a = None \<and> a \<in> set as"
  by (induction allowPrivate connects e as rule: dial_serial.induct) (auto split: option.splits)

lemma DialContext_control:
  "transport_DialContext allowPrivate lookup resolve connects addr = Inr a \<Longrightarrow>
     dialer_Control allowPrivate a = None"
  by (auto simp: transport_DialContext_def dest: dial_serial_control
      split: sum.splits prod.splits option.splits if_splits)

text \<open>An address whose host is the text of a restricted IP address.\<close>

definition restricted_address :: "string \<Rightarrow> bool" where
  "restricted_address a =
     (case SplitHostPort a of
        Inl err \<Rightarrow> False
      | Inr (host, port) \<Rightarrow> (case ParseIP host of None \<Rightarrow> False | Some ip \<Rightarrow> IsRestrictedIP (Some ip)))"

lemma control_restricted: "dialer_Control False a = None \<Longrightarrow> \<not> restricted_address a"
  by (auto simp: dialer_Control_def restricted_address_def split: sum.splits option.splits if_splits)

text \<open>The dialer does not try a restricted address: what such an address would answer does not matter.\<close>

lemma dial_serial_agree:
  assumes "\<forall>a. \<not> restricted_address a \<longrightarrow> connects' a = connects a"
  shows "dial_serial False connects' err as = dial_serial False connects err as"
proof (induction as arbitrary: err)
  case (Cons a as)
  show ?case
  proof (cases "dialer_Control False a")
    case None
    then have "connects' a = connects a" using assms control_restricted by blast
    then show ?thesis using Cons None by (simp split: option.split)
  qed (simp add: Cons)
qed simp

lemma DialContext_agree:
  assumes "\<forall>a. \<not> restricted_address a \<longrightarrow> connects' a = connects a"
  shows "transport_DialContext False lookup resolve connects' addr = transport_DialContext False lookup resolve connects addr"
  unfolding transport_DialContext_def dial_serial_agree [OF assms] ..

lemma DialContext_from:
  assumes "transport_DialContext allowPrivate lookup resolve connects addr = Inr a"
  shows "\<exists>x. a \<in> set (resolve x)"
  using assms
  by (auto simp: transport_DialContext_def dest!: dial_serial_control split: sum.splits prod.splits option.splits if_splits)

text \<open>
  The hook reads the address with \<open>net.ParseIP\<close>, which refuses a zone: a zoned link-local address
  passes it although the address without the zone does not.
\<close>

lemma zoned_address_passes:
  "dialer_Control False ''[fe80::1%eth0]:80'' = None"
  "dialer_Control False ''[fe80::1]:80'' = Some ErrRestrictedDestination"
  by code_simp+

section \<open>Properties\<close>

text \<open>
  C29: \<open>IsRestrictedIP\<close> is exactly membership in the documented ranges: loopback, the RFC 1918
  and carrier-grade private networks, link-local and cloud metadata, the documentation,
  benchmark and protocol blocks, multicast, reserved and broadcast for an IPv4 address in either
  of its two byte forms (4 bytes, or 16 bytes with the \<open>::ffff:\<close> prefix), and loopback,
  unspecified, link-local, unique-local, multicast and documentation for the other 16-byte
  addresses; a nil address is restricted, and a slice of any other length is not.
\<close>

theorem is_restricted_ip_exact:
  "IsRestrictedIP mip \<longleftrightarrow>
     (case mip of
        None \<Rightarrow> True
      | Some ip \<Rightarrow>
          (case To4 ip of
             Some ip4 \<Rightarrow> restricted_v4 ip4
           | None \<Rightarrow> length ip = 16 \<and> restricted_v6 ip))"
proof (cases mip)
  case None
  then show ?thesis by (simp add: IsRestrictedIP_def)
next
  case (Some ip)
  show ?thesis
  proof (cases "To4 ip")
    case None
    with Some restricted_v6_iff [OF None] show ?thesis by (simp add: IsRestrictedIP_def Let_def) satx
  next
    case (Some ip4)
    obtain a b c d where "ip4 = [a, b, c, d]"
      using length4 [OF To4_length [OF Some]] by blast
    with \<open>mip = Some ip\<close> Some restricted_v4_iff [of a b c d] show ?thesis
      by (simp add: IsRestrictedIP_def Let_def del: restricted_v4.simps) satx
  qed
qed

text \<open>
  C30: Unless private networks are allowed by configuration (\<open>allowPrivate\<close>), no webhook connection
  reaches a restricted address, provided that the addresses the dialer resolves are texts of IP
  addresses without a zone: whatever the guard's lookup answered and whatever the dialer resolved
  afterwards (DNS rebinding included), the address a connection was made to is one whose host is the text
  of an IP address that is not restricted, and no restricted address is even tried, so that the
  outcome does not depend on whether one would accept.
\<close>

theorem dial_never_restricted:
  assumes "\<forall>x. \<forall>a \<in> set (resolve x). \<exists>host port ip. SplitHostPort a = Inr (host, port) \<and> ParseIP host = Some ip"
  shows "(\<forall>a. transport_DialContext False lookup resolve connects addr = Inr a \<longrightarrow>
      (\<exists>host port ip. SplitHostPort a = Inr (host, port) \<and> ParseIP host = Some ip \<and> \<not> IsRestrictedIP (Some ip))) \<and>
    ((\<forall>a. \<not> restricted_address a \<longrightarrow> connects' a = connects a) \<longrightarrow>
      transport_DialContext False lookup resolve connects' addr = transport_DialContext False lookup resolve connects addr)"
proof (intro conjI allI impI)
  fix a assume d: "transport_DialContext False lookup resolve connects addr = Inr a"
  obtain host port ip where h: "SplitHostPort a = Inr (host, port)" "ParseIP host = Some ip"
    using DialContext_from [OF d] assms by blast
  then have "\<not> IsRestrictedIP (Some ip)"
    using control_restricted [OF DialContext_control [OF d]] by (simp add: restricted_address_def)
  with h show "\<exists>host port ip. SplitHostPort a = Inr (host, port) \<and> ParseIP host = Some ip \<and> \<not> IsRestrictedIP (Some ip)"
    by blast
qed (rule DialContext_agree)

text \<open>
  The witness is a rebinding attack: the guard's lookup sees a public address, the dialer's
  own resolution starts with the loopback address, which is skipped.
\<close>

theorem dial_never_restricted_witness:
  "transport_DialContext False (\<lambda>_. Inr [[8, 8, 8, 8]])
     (\<lambda>_. [''127.0.0.1:80'', ''8.8.8.8:80'']) (\<lambda>_. None) ''evil.test:80'' = Inr ''8.8.8.8:80'' \<and>
   (\<exists>host port ip. SplitHostPort ''8.8.8.8:80'' = Inr (host, port) \<and> ParseIP host = Some ip \<and> \<not> IsRestrictedIP (Some ip))"
proof -
  let ?resolve = "\<lambda>_ :: string. [''127.0.0.1:80'', ''8.8.8.8:80'']"
  have run: "transport_DialContext False (\<lambda>_. Inr [[8, 8, 8, 8]]) ?resolve (\<lambda>_. None) ''evil.test:80'' = Inr ''8.8.8.8:80''"
    by code_simp
  have "SplitHostPort ''127.0.0.1:80'' = Inr (''127.0.0.1'', ''80'')" "ParseIP ''127.0.0.1'' = Some (v4_mapped [127, 0, 0, 1])"
    "SplitHostPort ''8.8.8.8:80'' = Inr (''8.8.8.8'', ''80'')" "ParseIP ''8.8.8.8'' = Some (v4_mapped [8, 8, 8, 8])"
    by code_simp+
  then have "\<forall>x. \<forall>a \<in> set (?resolve x). \<exists>host port ip. SplitHostPort a = Inr (host, port) \<and> ParseIP host = Some ip"
    by simp
  from dial_never_restricted [OF this, of "\<lambda>_. Inr [[8, 8, 8, 8]]" "\<lambda>_. None" "''evil.test:80''" "\<lambda>_. None"] run
  show ?thesis by blast
qed

end
