(* ===== verification/Domain.thy ===== *)
theory Domain
  imports Go_Prelude
begin

text \<open>
  The entities of \<open>internal/domain\<close>: tenants, endpoints, events, outbox records and
  delivery attempts, with their status types and their \<open>Validate\<close> methods. A Go status is
  a string with named constants; the last constructor of each status type stands for any
  other string, the zero value \<open>""\<close> included.
\<close>

section \<open>Statuses\<close>

datatype EventStatus =
    EventStatusPending | EventStatusDelivered | EventStatusFailed | EventStatusDLQ
  | EventStatusOther string

datatype OutboxStatus =
    OutboxStatusPending | OutboxStatusPublished | OutboxStatusFailed
  | OutboxStatusOther string

datatype DeliveryStatus =
    DeliveryStatusSuccess | DeliveryStatusRetrying | DeliveryStatusFailed

text \<open>The text of a status, as it is written to JSON and to the database, and back.\<close>

fun EventStatus_string :: "EventStatus \<Rightarrow> string" where
  "EventStatus_string EventStatusPending = ''PENDING''"
| "EventStatus_string EventStatusDelivered = ''DELIVERED''"
| "EventStatus_string EventStatusFailed = ''FAILED''"
| "EventStatus_string EventStatusDLQ = ''DLQ''"
| "EventStatus_string (EventStatusOther s) = s"

definition EventStatus_of_string :: "string \<Rightarrow> EventStatus" where
  "EventStatus_of_string s =
     (if s = ''PENDING'' then EventStatusPending
      else if s = ''DELIVERED'' then EventStatusDelivered
      else if s = ''FAILED'' then EventStatusFailed
      else if s = ''DLQ'' then EventStatusDLQ
      else EventStatusOther s)"

fun OutboxStatus_string :: "OutboxStatus \<Rightarrow> string" where
  "OutboxStatus_string OutboxStatusPending = ''PENDING''"
| "OutboxStatus_string OutboxStatusPublished = ''PUBLISHED''"
| "OutboxStatus_string OutboxStatusFailed = ''FAILED''"
| "OutboxStatus_string (OutboxStatusOther s) = s"

definition OutboxStatus_of_string :: "string \<Rightarrow> OutboxStatus" where
  "OutboxStatus_of_string s =
     (if s = ''PENDING'' then OutboxStatusPending
      else if s = ''PUBLISHED'' then OutboxStatusPublished
      else if s = ''FAILED'' then OutboxStatusFailed
      else OutboxStatusOther s)"

lemma EventStatus_string_of_string [simp]: "EventStatus_string (EventStatus_of_string s) = s"
  by (simp add: EventStatus_of_string_def)

lemma OutboxStatus_string_of_string [simp]: "OutboxStatus_string (OutboxStatus_of_string s) = s"
  by (simp add: OutboxStatus_of_string_def)

fun DeliveryStatus_string :: "DeliveryStatus \<Rightarrow> string" where
  "DeliveryStatus_string DeliveryStatusSuccess = ''SUCCESS''"
| "DeliveryStatus_string DeliveryStatusRetrying = ''RETRYING''"
| "DeliveryStatus_string DeliveryStatusFailed = ''FAILED''"

section \<open>Entities\<close>

record Tenant =
  tn_ID :: string
  tn_Name :: string
  tn_CreatedAt :: gotime

record Endpoint =
  ep_ID :: string
  ep_TenantID :: string
  ep_URL :: string
  ep_Secret :: string
  ep_RateLimit :: int
  ep_IsActive :: bool
  ep_CreatedAt :: gotime
  ep_UpdatedAt :: gotime

record Event =
  ev_ID :: string
  ev_TenantID :: string
  ev_EventType :: string
  ev_IdempotencyKey :: string
  ev_Payload :: string
  ev_Status :: EventStatus
  ev_CreatedAt :: gotime

record OutboxEvent =
  ob_ID :: int
  ob_EventID :: string
  ob_Status :: OutboxStatus
  ob_RetryCount :: int
  ob_CreatedAt :: gotime
  ob_ProcessedAt :: "gotime option"

record DeliveryAttempt =
  at_ID :: string
  at_EventID :: string
  at_EndpointID :: string
  at_AttemptNumber :: int
  at_ResponseStatus :: int
  at_ResponseBody :: string
  at_DurationMs :: int
  at_Status :: DeliveryStatus
  at_ErrorMessage :: string
  at_ExecutedAt :: gotime

section \<open>Validation\<close>

definition Tenant_Validate :: "Tenant \<Rightarrow> goerr option" where
  "Tenant_Validate t =
     (if tn_ID t = '''' then Some (ErrorsNew ''id is required'')
      else if tn_Name t = '''' then Some (ErrorsNew ''name is required'')
      else None)"

text \<open>
  \<open>url.ParseRequestURI\<close> belongs to \<open>net/url\<close>; the code reads the scheme of its result.
  It is a parameter: the scheme of a request URI, or \<open>None\<close> for one that does not parse.
\<close>

definition Endpoint_Validate :: "(string \<Rightarrow> string option) \<Rightarrow> Endpoint \<Rightarrow> goerr option" where
  "Endpoint_Validate uri_scheme e =
     (if ep_TenantID e = '''' then Some (ErrorsNew ''tenant_id is required'')
      else if ep_URL e = '''' then Some (ErrorsNew ''url is required'')
      else case uri_scheme (ep_URL e) of
        None \<Rightarrow> Some (ErrorsNew ''invalid url: must have http or https scheme'')
      | Some sch \<Rightarrow>
          if sch \<noteq> ''http'' \<and> sch \<noteq> ''https''
          then Some (ErrorsNew ''invalid url: must have http or https scheme'')
          else if ep_Secret e = '''' then Some (ErrorsNew ''secret is required'')
          else None)"

definition Event_Validate :: "Event \<Rightarrow> goerr option" where
  "Event_Validate e =
     (if ev_TenantID e = '''' then Some (ErrorsNew ''tenant_id is required'')
      else if ev_EventType e = '''' then Some (ErrorsNew ''event_type is required'')
      else if length (ev_Payload e) = 0 then Some (ErrorsNew ''payload cannot be empty'')
      else None)"

lemma Endpoint_Validate_ok:
  "Endpoint_Validate uri_scheme e = None \<longleftrightarrow>
     ep_TenantID e \<noteq> '''' \<and> ep_URL e \<noteq> '''' \<and> ep_Secret e \<noteq> '''' \<and>
     (uri_scheme (ep_URL e) = Some ''http'' \<or> uri_scheme (ep_URL e) = Some ''https'')"
  by (auto simp: Endpoint_Validate_def split: option.splits if_splits)

end
