(* ===== verification/Repository.thy ===== *)
theory Repository
  imports Domain
begin

text \<open>
  The storage interface of \<open>internal/storage/repository.go\<close>. A value of the Go interface type
  is a record of operations over some state type \<open>'r\<close>; a client (relay, dispatcher, worker,
  API handler) takes such a record. A call reads its environment (context, clock, map order)
  and the state. The locales are the contract the clients rely on: what an operation may
  do to the events and to the outbox whether it succeeds or fails (an operation that gives an error may
  have taken effect all the same, when only its answer was lost); that creation stores exactly what
  it returns, and nothing when it fails; and, for a repository that answers whenever the context is
  live, that it does succeed.
\<close>

record 'r repository =
  rp_CreateTenant :: "env \<Rightarrow> Tenant \<Rightarrow> 'r \<Rightarrow> goerr option \<times> 'r"
  rp_GetTenant :: "env \<Rightarrow> string \<Rightarrow> 'r \<Rightarrow> goerr + Tenant"
  rp_CreateEndpoint :: "env \<Rightarrow> Endpoint \<Rightarrow> 'r \<Rightarrow> goerr option \<times> 'r"
  rp_GetEndpoint :: "env \<Rightarrow> string \<Rightarrow> 'r \<Rightarrow> goerr + Endpoint"
  rp_GetEndpointsByTenant :: "env \<Rightarrow> string \<Rightarrow> 'r \<Rightarrow> goerr + Endpoint list"
  rp_CreateEventWithOutbox ::
    "env \<Rightarrow> Event \<Rightarrow> OutboxEvent \<Rightarrow> 'r \<Rightarrow> (goerr + Event \<times> OutboxEvent) \<times> 'r"
  rp_FetchAndLockPendingOutbox :: "env \<Rightarrow> int \<Rightarrow> 'r \<Rightarrow> goerr + OutboxEvent list"
  rp_MarkOutboxPublished :: "env \<Rightarrow> int \<Rightarrow> 'r \<Rightarrow> goerr option \<times> 'r"
  rp_RecordDeliveryAttempt :: "env \<Rightarrow> DeliveryAttempt \<Rightarrow> 'r \<Rightarrow> goerr option \<times> 'r"
  rp_UpdateEventStatus :: "env \<Rightarrow> string \<Rightarrow> EventStatus \<Rightarrow> 'r \<Rightarrow> goerr option \<times> 'r"
  rp_GetEvent :: "env \<Rightarrow> string \<Rightarrow> 'r \<Rightarrow> goerr + Event"
  rp_GetDLQEvents :: "env \<Rightarrow> string \<Rightarrow> int \<Rightarrow> int \<Rightarrow> 'r \<Rightarrow> goerr + Event list"
  rp_ReplayDLQEvents :: "env \<Rightarrow> string \<Rightarrow> string list \<Rightarrow> 'r \<Rightarrow> (goerr + int) \<times> 'r"

text \<open>
  A context that is not done; an environment whose map order is a permutation and whose
  \<open>ctx.Err()\<close> is one of the values the package \<open>context\<close> returns.
\<close>

abbreviation live :: "env \<Rightarrow> bool" where
  "live e \<equiv> e_ctx e = None"

abbreviation env_ok :: "env \<Rightarrow> bool" where
  "env_ok e \<equiv> range_order_ok (e_ord e) \<and> e_ctx e \<in> {None, Some CtxCanceled, Some CtxDeadlineExceeded}"

locale repository_contract =
  fixes R :: "'r repository"
    and evs :: "'r \<Rightarrow> string \<Rightarrow> Event option"
    and obs :: "'r \<Rightarrow> int \<Rightarrow> OutboxEvent option"
    and inv :: "'r \<Rightarrow> bool"
  assumes fetch_pending:
      "\<lbrakk>inv s; env_ok e; rp_FetchAndLockPendingOutbox R e limit s = Inr batch; ob \<in> set batch\<rbrakk>
         \<Longrightarrow> obs s (ob_ID ob) = Some ob \<and> ob_Status ob = OutboxStatusPending"
    and fetch_distinct:
      "\<lbrakk>inv s; env_ok e; rp_FetchAndLockPendingOutbox R e limit s = Inr batch\<rbrakk>
         \<Longrightarrow> distinct (map ob_ID batch)"
    and fetch_limit:
      "\<lbrakk>inv s; rp_FetchAndLockPendingOutbox R e limit s = Inr batch; 0 < limit\<rbrakk>
         \<Longrightarrow> int (length batch) \<le> limit"
    and get_some: "\<lbrakk>inv s; rp_GetEvent R e i s = Inr v\<rbrakk> \<Longrightarrow> evs s i = Some v \<and> ev_ID v = i"
    and get_none: "\<lbrakk>inv s; env_ok e; rp_GetEvent R e i s = Inl err; errors_is err ErrNotFound\<rbrakk> \<Longrightarrow> evs s i = None"
    and endpoints_tenant:
      "\<lbrakk>inv s; env_ok e; rp_GetEndpointsByTenant R e t s = Inr eps; ep \<in> set eps\<rbrakk>
         \<Longrightarrow> ep_TenantID ep = t"
    and mark_ok:
      "\<lbrakk>inv s; rp_MarkOutboxPublished R e n s = (None, s')\<rbrakk>
         \<Longrightarrow> inv s' \<and> evs s' = evs s \<and>
             (\<exists>ob t. obs s n = Some ob \<and>
                obs s' = (obs s)(n \<mapsto> ob\<lparr>ob_Status := OutboxStatusPublished, ob_ProcessedAt := t\<rparr>))"
    and mark_error:
      "\<lbrakk>inv s; rp_MarkOutboxPublished R e n s = (Some err, s')\<rbrakk>
         \<Longrightarrow> inv s' \<and> evs s' = evs s \<and>
             (obs s' = obs s \<or>
              (\<exists>ob t. obs s n = Some ob \<and>
                 obs s' = (obs s)(n \<mapsto> ob\<lparr>ob_Status := OutboxStatusPublished, ob_ProcessedAt := t\<rparr>)))"
    and record_frame:
      "\<lbrakk>inv s; rp_RecordDeliveryAttempt R e a s = (r, s')\<rbrakk>
         \<Longrightarrow> inv s' \<and> evs s' = evs s \<and> obs s' = obs s"
    and update_ok:
      "\<lbrakk>inv s; rp_UpdateEventStatus R e i st s = (None, s')\<rbrakk>
         \<Longrightarrow> inv s' \<and> obs s' = obs s \<and>
             (\<exists>v. evs s i = Some v \<and> evs s' = (evs s)(i \<mapsto> v\<lparr>ev_Status := st\<rparr>))"
    and update_error:
      "\<lbrakk>inv s; rp_UpdateEventStatus R e i st s = (Some err, s')\<rbrakk>
         \<Longrightarrow> inv s' \<and> obs s' = obs s \<and>
             (evs s' = evs s \<or> (\<exists>v. evs s i = Some v \<and> evs s' = (evs s)(i \<mapsto> v\<lparr>ev_Status := st\<rparr>)))"
    and create_extends:
      "\<lbrakk>inv s; rp_CreateEventWithOutbox R e v ob s = (res, s')\<rbrakk>
         \<Longrightarrow> inv s' \<and> (\<forall>i x. evs s i = Some x \<longrightarrow> evs s' i = Some x) \<and>
             (\<forall>n x. obs s n = Some x \<longrightarrow> obs s' n = Some x)"

text \<open>
  A repository that keeps what it is given unchanged: the stored event and row are the returned ones,
  and a creation that fails stores nothing.
\<close>

locale exact_repository = repository_contract +
  assumes create_ok:
      "\<lbrakk>inv s; rp_CreateEventWithOutbox R e v ob s = (Inr (v', ob'), s')\<rbrakk>
         \<Longrightarrow> inv s' \<and> evs s (ev_ID v) = None \<and> obs s (ob_ID ob') = None \<and>
             evs s' = (evs s)(ev_ID v \<mapsto> v') \<and> obs s' = (obs s)(ob_ID ob' \<mapsto> ob') \<and>
             (\<exists>t. v' = v\<lparr>ev_CreatedAt := t\<rparr>) \<and> (\<exists>t. ob' = ob\<lparr>ob_ID := ob_ID ob', ob_CreatedAt := t\<rparr>)"
    and create_error:
      "\<lbrakk>inv s; rp_CreateEventWithOutbox R e v ob s = (Inl err, s')\<rbrakk>
         \<Longrightarrow> inv s' \<and> evs s' = evs s \<and> obs s' = obs s"

text \<open>
  A repository in which every event comes with an outbox row, also one whose creation seems to have
  failed: the operations of the API keep all events and rows, and change no event but its status.
\<close>

locale outbox_repository = repository_contract +
  assumes create_row:
      "\<lbrakk>inv s; rp_CreateEventWithOutbox R e v ob s = (res, s'); ob_EventID ob = ev_ID v;
        ob_Status ob = OutboxStatusPending\<rbrakk>
         \<Longrightarrow> (\<exists>err. res = Inl err) \<and> evs s' = evs s \<and> obs s' = obs s \<or>
             (\<exists>w n row. evs s (ev_ID w) = None \<and> evs s' = (evs s)(ev_ID w \<mapsto> w) \<and> obs s n = None \<and>
               obs s' = (obs s)(n \<mapsto> row) \<and> ob_EventID row = ev_ID w \<and> ob_Status row = OutboxStatusPending)"
    and endpoint_frame:
      "\<lbrakk>inv s; rp_CreateEndpoint R e ep s = (er, s')\<rbrakk> \<Longrightarrow> inv s' \<and> evs s' = evs s \<and> obs s' = obs s"
    and replay_frame:
      "\<lbrakk>inv s; rp_ReplayDLQEvents R e t ids s = (r, s')\<rbrakk>
         \<Longrightarrow> inv s' \<and> (\<forall>i. \<exists>st. evs s' i = map_option (\<lambda>v. v\<lparr>ev_Status := st\<rparr>) (evs s i)) \<and>
             (\<forall>n ob. obs s n = Some ob \<longrightarrow> obs s' n = Some ob)"

text \<open>A repository that answers every call whose context is live.\<close>

locale reliable_repository = exact_repository +
  assumes fetch_live: "\<lbrakk>inv s; live e\<rbrakk> \<Longrightarrow> \<exists>batch. rp_FetchAndLockPendingOutbox R e limit s = Inr batch"
    and fetch_all:
      "\<lbrakk>inv s; env_ok e; rp_FetchAndLockPendingOutbox R e limit s = Inr batch; int (length batch) < limit;
        obs s n = Some ob; ob_Status ob = OutboxStatusPending\<rbrakk> \<Longrightarrow> ob \<in> set batch"
    and get_live: "\<lbrakk>inv s; live e; evs s i = Some v\<rbrakk> \<Longrightarrow> rp_GetEvent R e i s = Inr v"
    and get_live_none: "\<lbrakk>inv s; live e; evs s i = None\<rbrakk> \<Longrightarrow> rp_GetEvent R e i s = Inl ErrNotFound"
    and mark_live:
      "\<lbrakk>inv s; live e; obs s n = Some ob\<rbrakk> \<Longrightarrow> \<exists>s'. rp_MarkOutboxPublished R e n s = (None, s')"
    and update_live:
      "\<lbrakk>inv s; live e; evs s i = Some v\<rbrakk> \<Longrightarrow> \<exists>s'. rp_UpdateEventStatus R e i st s = (None, s')"

end
