(* ===== verification/StreamQueue.thy ===== *)
theory StreamQueue
  imports Repository
begin

text \<open>
  The message queue interface of \<open>internal/queue/stream.go\<close>: a value of the Go interface type
  \<open>StreamQueue\<close> is a record of operations over a state type \<open>'q\<close>. The locale is the contract
  its clients (the relay and the workers) rely on, stated over two views of the state: the log
  of a stream and the pending entries of a consumer group.
\<close>

record QueueMessage =
  qm_ID :: string
  qm_EventID :: string
  qm_TenantID :: string
  qm_EventType :: string
  qm_Payload :: string
  qm_CreatedAt :: gotime

record 'q stream_queue =
  sq_PublishEvent :: "env \<Rightarrow> string \<Rightarrow> Event option \<Rightarrow> 'q \<Rightarrow> (goerr + string) \<times> 'q"
  sq_CreateConsumerGroup :: "env \<Rightarrow> string \<Rightarrow> string \<Rightarrow> string \<Rightarrow> 'q \<Rightarrow> goerr option \<times> 'q"
  sq_ReadEvents ::
    "env \<Rightarrow> string \<Rightarrow> string \<Rightarrow> string \<Rightarrow> int \<Rightarrow> duration \<Rightarrow> 'q \<Rightarrow> (goerr + QueueMessage list) \<times> 'q"
  sq_AckEvent :: "env \<Rightarrow> string \<Rightarrow> string \<Rightarrow> string list \<Rightarrow> 'q \<Rightarrow> goerr option \<times> 'q"
  sq_AutoClaim ::
    "env \<Rightarrow> string \<Rightarrow> string \<Rightarrow> string \<Rightarrow> duration \<Rightarrow> string \<Rightarrow> int \<Rightarrow> 'q \<Rightarrow>
       (goerr + QueueMessage list \<times> string) \<times> 'q"

text \<open>
  At-least-once: an operation that fails may have taken effect, and one that succeeds may have taken
  effect before, so a log may have got further messages.
\<close>

locale queue_contract =
  fixes Q :: "'q stream_queue"
    and log :: "'q \<Rightarrow> string \<Rightarrow> QueueMessage list"
    and pend :: "'q \<Rightarrow> string \<Rightarrow> string \<Rightarrow> string \<Rightarrow> QueueMessage option"
    and qinv :: "'q \<Rightarrow> bool"
  assumes publish_ok:
      "\<lbrakk>qinv q; sq_PublishEvent Q e st (Some v) q = (Inr i, q')\<rbrakk> \<Longrightarrow>
         qinv q' \<and> pend q' = pend q \<and>
         (\<exists>pre msg. log q' = (log q)(st := log q st @ pre @ [msg]) \<and> qm_ID msg = i \<and> qm_EventID msg = ev_ID v \<and>
            qm_TenantID msg = ev_TenantID v \<and> qm_EventType msg = ev_EventType v \<and> qm_Payload msg = ev_Payload v)"
    and publish_error:
      "\<lbrakk>qinv q; sq_PublishEvent Q e st vo q = (Inl err, q')\<rbrakk> \<Longrightarrow>
         qinv q' \<and> pend q' = pend q \<and> (\<exists>pre. log q' = (log q)(st := log q st @ pre))"
    and read_ok:
      "\<lbrakk>qinv q; sq_ReadEvents Q e st g c n block q = (Inr ms, q')\<rbrakk> \<Longrightarrow>
         qinv q' \<and> log q' = log q \<and> set ms \<subseteq> set (log q st) \<and>
         (\<forall>msg \<in> set ms. pend q' st g (qm_ID msg) = Some msg) \<and>
         (\<forall>st' g' i. pend q st' g' i \<noteq> None \<longrightarrow> pend q' st' g' i \<noteq> None)"
    and read_error:
      "\<lbrakk>qinv q; sq_ReadEvents Q e st g c n block q = (Inl err, q')\<rbrakk> \<Longrightarrow>
         qinv q' \<and> log q' = log q \<and> (\<forall>st' g' i. pend q st' g' i \<noteq> None \<longrightarrow> pend q' st' g' i \<noteq> None)"
    and ack_frame:
      "\<lbrakk>qinv q; sq_AckEvent Q e st g ids q = (r, q')\<rbrakk> \<Longrightarrow>
         qinv q' \<and> log q' = log q \<and>
         (\<forall>st' g' i. st' \<noteq> st \<or> g' \<noteq> g \<or> i \<notin> set ids \<longrightarrow> pend q' st' g' i = pend q st' g' i)"
    and ack_ok:
      "\<lbrakk>qinv q; sq_AckEvent Q e st g ids q = (None, q'); i \<in> set ids\<rbrakk> \<Longrightarrow> pend q' st g i = None"
    and claim_ok:
      "\<lbrakk>qinv q; env_ok e; sq_AutoClaim Q e st g c idle i0 n q = (Inr (ms, i1), q')\<rbrakk> \<Longrightarrow>
         qinv q' \<and> log q' = log q \<and> (\<forall>msg \<in> set ms. pend q st g (qm_ID msg) = Some msg)"
    and claim_error:
      "\<lbrakk>qinv q; env_ok e; sq_AutoClaim Q e st g c idle i0 n q = (Inl err, q')\<rbrakk> \<Longrightarrow> qinv q' \<and> log q' = log q"
    and create_frame:
      "\<lbrakk>qinv q; sq_CreateConsumerGroup Q e st g i0 q = (r, q')\<rbrakk> \<Longrightarrow>
         qinv q' \<and> log q' = log q \<and> pend q' = pend q"

text \<open>A queue in one place: each operation takes effect once, or not at all when it fails.\<close>

locale exact_queue = queue_contract +
  assumes publish_once:
      "\<lbrakk>qinv q; sq_PublishEvent Q e st (Some v) q = (Inr i, q')\<rbrakk> \<Longrightarrow> \<exists>msg. log q' = (log q)(st := log q st @ [msg])"
    and publish_not: "\<lbrakk>qinv q; sq_PublishEvent Q e st vo q = (Inl err, q')\<rbrakk> \<Longrightarrow> log q' = log q"
    and read_not: "\<lbrakk>qinv q; sq_ReadEvents Q e st g c n block q = (Inl err, q')\<rbrakk> \<Longrightarrow> pend q' = pend q"
    and claim_keeps: "\<lbrakk>qinv q; env_ok e; sq_AutoClaim Q e st g c idle i0 n q = (r, q')\<rbrakk> \<Longrightarrow> log q' = log q \<and> pend q' = pend q"

end
