(* ===== verification/MemoryQueue.thy ===== *)
theory MemoryQueue
  imports StreamQueue Go_Strings
begin

text \<open>
  The in-memory stream queue of \<open>internal/queue/stream.go\<close>. Each operation holds the mutex for
  its whole body; a blocking \<open>ReadEvents\<close> takes it once per round of its loop, with other
  operations before each round and while it waits. \<open>ms_chans\<close> holds the notification channels made
  for a stream and says which are closed, \<open>ms_notifyCh\<close> is the current one: publishing installs a new
  channel and closes the old one, and a waiting reader goes on when the channel it took under the lock
  is closed. Lemmas: the invariant of cursors, pending entries, message identifiers and channels (the
  current one is open, so closing it never panics); ordered delivery without gaps; what
  acknowledging and claiming do. The sequence number is an \<open>int\<close> without the wrap-around of
  \<open>int64\<close>, which \<open>seq\<close> reaches only after \<open>2 ^ 63\<close> publications.
\<close>

section \<open>State\<close>

record memPendingEntry =
  pe_msg :: QueueMessage
  pe_deliveryTime :: gotime
  pe_consumer :: string

record memGroup =
  mg_lastDeliveredIdx :: int
  mg_pending :: "(string, memPendingEntry) gomap"

record memStream =
  ms_messages :: "QueueMessage list"
  ms_groups :: "(string, memGroup) gomap"
  ms_notifyCh :: nat
  ms_chans :: "bool list"

record mem_queue =
  mq_streams :: "(string, memStream) gomap"
  mq_seq :: int

definition NewMemoryStreamQueue :: mem_queue where
  "NewMemoryStreamQueue = \<lparr>mq_streams = [], mq_seq = 0\<rparr>"

definition empty_stream :: memStream where
  "empty_stream = \<lparr>ms_messages = [], ms_groups = [], ms_notifyCh = 0, ms_chans = [False]\<rparr>"

section \<open>Operations\<close>

text \<open>The stream is installed by the caller, which always writes it back.\<close>

definition getOrCreateStreamLocked :: "string \<Rightarrow> mem_queue \<Rightarrow> memStream" where
  "getOrCreateStreamLocked streamName q =
     (case map_of (mq_streams q) streamName of None \<Rightarrow> empty_stream | Some st \<Rightarrow> st)"

definition put_stream :: "string \<Rightarrow> memStream \<Rightarrow> mem_queue \<Rightarrow> mem_queue" where
  "put_stream streamName st q = q\<lparr>mq_streams := AList.update streamName st (mq_streams q)\<rparr>"

definition queue_message :: "gotime \<Rightarrow> int \<Rightarrow> Event \<Rightarrow> QueueMessage" where
  "queue_message now sq event =
     \<lparr>qm_ID = show_int (time_UnixMilli now) @ ''-'' @ show_int sq,
      qm_EventID = ev_ID event, qm_TenantID = ev_TenantID event, qm_EventType = ev_EventType event,
      qm_Payload = ev_Payload event,
      qm_CreatedAt = (if IsZero (ev_CreatedAt event) then now else ev_CreatedAt event)\<rparr>"

definition mq_PublishEvent ::
    "env \<Rightarrow> string \<Rightarrow> Event option \<Rightarrow> mem_queue \<Rightarrow> (goerr + string) \<times> mem_queue" where
  "mq_PublishEvent e streamName event_opt q =
     (case event_opt of
        None \<Rightarrow> (Inl ErrNilEvent, q)
      | Some event \<Rightarrow>
          if streamName = '''' then (Inl ErrEmptyStream, q)
          else case e_ctx e of
            Some err \<Rightarrow> (Inl err, q)
          | None \<Rightarrow>
              let sq = mq_seq q + 1;
                  qm = queue_message (e_now e) sq event;
                  st = getOrCreateStreamLocked streamName q;
                  st1 = st\<lparr>ms_messages := ms_messages st @ [qm]\<rparr>;
                  oldNotify = ms_notifyCh st1;
                  st2 = st1\<lparr>ms_notifyCh := length (ms_chans st1), ms_chans := ms_chans st1 @ [False]\<rparr>;
                  st3 = st2\<lparr>ms_chans := (ms_chans st2)[oldNotify := True]\<rparr>
              in (Inr (qm_ID qm), put_stream streamName st3 (q\<lparr>mq_seq := sq\<rparr>)))"

definition mq_CreateConsumerGroup ::
    "env \<Rightarrow> string \<Rightarrow> string \<Rightarrow> string \<Rightarrow> mem_queue \<Rightarrow> goerr option \<times> mem_queue" where
  "mq_CreateConsumerGroup e streamName groupName startID q =
     (if streamName = '''' then (Some ErrEmptyStream, q)
      else if groupName = '''' then (Some ErrEmptyGroup, q)
      else case e_ctx e of
        Some err \<Rightarrow> (Some err, q)
      | None \<Rightarrow>
          let st = getOrCreateStreamLocked streamName q in
          if map_of (ms_groups st) groupName \<noteq> None then (None, put_stream streamName st q)
          else
            let lastIdx = (if startID = ''$'' \<or> startID = '''' then int (length (ms_messages st)) - 1
                           else if startID = ''0'' \<or> startID = ''0-0'' then - 1
                           else - 1);
                grp = \<lparr>mg_lastDeliveredIdx = lastIdx, mg_pending = []\<rparr>
            in (None, put_stream streamName (st\<lparr>ms_groups := AList.update groupName grp (ms_groups st)\<rparr>) q))"

text \<open>
  The body of one round of \<open>ReadEvents\<close>, under the lock. The result is the batch, or \<open>None\<close> when
  the group has nothing left to read. An \<open>end\<close> that wraps around to a number below \<open>start\<close>
  makes \<open>make\<close> panic.
\<close>

definition deliver_pending ::
    "gotime \<Rightarrow> string \<Rightarrow> QueueMessage list \<Rightarrow> (string, memPendingEntry) gomap \<Rightarrow> (string, memPendingEntry) gomap" where
  "deliver_pending now consumer msgs pending =
     fold (\<lambda>msg p. AList.update (qm_ID msg)
             \<lparr>pe_msg = msg, pe_deliveryTime = now, pe_consumer = consumer\<rparr> p) msgs pending"

definition mq_read_locked ::
    "gotime \<Rightarrow> string \<Rightarrow> string \<Rightarrow> string \<Rightarrow> int \<Rightarrow> mem_queue \<Rightarrow>
       (goerr + QueueMessage list option) \<times> mem_queue" where
  "mq_read_locked now streamName groupName consumerName cnt q =
     (let st = getOrCreateStreamLocked streamName q;
          grp = (case map_of (ms_groups st) groupName of
                   None \<Rightarrow> \<lparr>mg_lastDeliveredIdx = - 1, mg_pending = []\<rparr>
                 | Some g \<Rightarrow> g);
          put = (\<lambda>g. put_stream streamName (st\<lparr>ms_groups := AList.update groupName g (ms_groups st)\<rparr>) q);
          start = mg_lastDeliveredIdx grp + 1
      in if start < int (length (ms_messages st)) then
           let end0 = wrap64 (start + cnt);
               end1 = (if end0 > int (length (ms_messages st)) then int (length (ms_messages st)) else end0)
           in if end1 < start then (Inl (GoPanic ''makeslice: cap out of range''), put grp)
              else
                let result = take (nat (end1 - start)) (drop (nat start) (ms_messages st))
                in (Inr (Some result),
                    put (grp\<lparr>mg_pending := deliver_pending now consumerName result (mg_pending grp),
                            mg_lastDeliveredIdx := end1 - 1\<rparr>))
         else (Inr None, put grp))"

text \<open>
  A round of a blocking read: the environment at the head of the loop, what the other
  operations have done to the queue before the round takes the lock, the time at which the
  round computes what is left of the block, what the other operations do while it waits, and the case
  of the \<open>select\<close> that ends the wait. The channel is the one seen under the lock; its case is ready only
  when that channel is closed.
\<close>

definition channel_closed :: "mem_queue \<Rightarrow> string \<Rightarrow> nat \<Rightarrow> bool" where
  "channel_closed q streamName ch =
     (let chans = ms_chans (getOrCreateStreamLocked streamName q) in ch < length chans \<and> chans ! ch)"

datatype wake = WakeDone goerr | WakeTimer | WakeNotify

record read_round =
  rr_env :: env
  rr_others :: "mem_queue \<Rightarrow> mem_queue"
  rr_until :: gotime
  rr_waits :: "mem_queue \<Rightarrow> mem_queue"
  rr_wake :: wake

text \<open>\<open>None\<close> when the rounds are used up or the channel is not closed: the read is still waiting.\<close>

fun mq_read_rounds ::
    "read_round list \<Rightarrow> gotime \<Rightarrow> string \<Rightarrow> string \<Rightarrow> string \<Rightarrow> int \<Rightarrow> duration \<Rightarrow> mem_queue \<Rightarrow>
       (goerr + QueueMessage list) option \<times> mem_queue" where
  "mq_read_rounds [] deadline streamName groupName consumerName cnt block q = (None, q)"
| "mq_read_rounds (r # rs) deadline streamName groupName consumerName cnt block q0 =
     (let q = rr_others r q0 in
      case e_ctx (rr_env r) of
        Some err \<Rightarrow> (Some (Inl err), q)
      | None \<Rightarrow>
          (case mq_read_locked (e_now (rr_env r)) streamName groupName consumerName cnt q of
             (Inl err, q') \<Rightarrow> (Some (Inl err), q')
           | (Inr (Some result), q') \<Rightarrow> (Some (Inr result), q')
           | (Inr None, q') \<Rightarrow>
               if block \<le> 0 then (Some (Inr []), q')
               else
                 let notifyCh = ms_notifyCh (getOrCreateStreamLocked streamName q') in
                 if deadline - rr_until r \<le> 0 then (Some (Inr []), q')
                 else
                   let q'' = rr_waits r q' in
                   (case rr_wake r of
                      WakeDone err \<Rightarrow> (Some (Inl err), q'')
                    | WakeTimer \<Rightarrow> (Some (Inr []), q'')
                    | WakeNotify \<Rightarrow>
                        if channel_closed q'' streamName notifyCh
                        then mq_read_rounds rs deadline streamName groupName consumerName cnt block q''
                        else (None, q''))))"

definition mq_ReadEvents ::
    "read_round list \<Rightarrow> env \<Rightarrow> string \<Rightarrow> string \<Rightarrow> string \<Rightarrow> int \<Rightarrow> duration \<Rightarrow> mem_queue \<Rightarrow>
       (goerr + QueueMessage list) option \<times> mem_queue" where
  "mq_ReadEvents rounds e streamName groupName consumerName cnt0 block q =
     (if streamName = '''' then (Some (Inl ErrEmptyStream), q)
      else if groupName = '''' then (Some (Inl ErrEmptyGroup), q)
      else
        let cnt = (if cnt0 \<le> 0 then 10 else cnt0);
            deadline = (if block > 0 then e_now e + block else 0)
        in mq_read_rounds rounds deadline streamName groupName consumerName cnt block q)"

text \<open>A read during which nothing else happens: one round, ended by its timer.\<close>

definition mq_ReadEvents_quiet ::
    "env \<Rightarrow> string \<Rightarrow> string \<Rightarrow> string \<Rightarrow> int \<Rightarrow> duration \<Rightarrow> mem_queue \<Rightarrow>
       (goerr + QueueMessage list) \<times> mem_queue" where
  "mq_ReadEvents_quiet e streamName groupName consumerName cnt block q =
     (case mq_ReadEvents [\<lparr>rr_env = e, rr_others = id, rr_until = e_now e, rr_waits = id, rr_wake = WakeTimer\<rparr>]
             e streamName groupName consumerName cnt block q of
        (None, q') \<Rightarrow> (Inr [], q')
      | (Some r, q') \<Rightarrow> (r, q'))"

definition mq_AckEvent ::
    "env \<Rightarrow> string \<Rightarrow> string \<Rightarrow> string list \<Rightarrow> mem_queue \<Rightarrow> goerr option \<times> mem_queue" where
  "mq_AckEvent e streamName groupName messageIDs q =
     (if length messageIDs = 0 then (None, q)
      else if streamName = '''' then (Some ErrEmptyStream, q)
      else if groupName = '''' then (Some ErrEmptyGroup, q)
      else case e_ctx e of
        Some err \<Rightarrow> (Some err, q)
      | None \<Rightarrow>
          (case map_of (mq_streams q) streamName of
             None \<Rightarrow> (None, q)
           | Some st \<Rightarrow>
               (case map_of (ms_groups st) groupName of
                  None \<Rightarrow> (None, q)
                | Some grp \<Rightarrow>
                    let grp' = grp\<lparr>mg_pending := fold AList.delete messageIDs (mg_pending grp)\<rparr>
                    in (None, put_stream streamName
                          (st\<lparr>ms_groups := AList.update groupName grp' (ms_groups st)\<rparr>) q))))"

text \<open>
  The loop of \<open>AutoClaim\<close> over the pending entries, in the order \<open>range\<close> visits them; the map
  is rewritten while it is visited, at keys it already has.
\<close>

fun mq_claim_loop ::
    "gotime \<Rightarrow> string \<Rightarrow> duration \<Rightarrow> int \<Rightarrow> (string \<times> memPendingEntry) list \<Rightarrow> QueueMessage list \<Rightarrow>
       (string, memPendingEntry) gomap \<Rightarrow> QueueMessage list \<times> (string, memPendingEntry) gomap" where
  "mq_claim_loop now consumerName minIdle cnt [] claimed pending = (claimed, pending)"
| "mq_claim_loop now consumerName minIdle cnt ((i, entry) # rest) claimed pending =
     (if now - pe_deliveryTime entry \<ge> minIdle then
        let claimed' = claimed @ [pe_msg entry];
            pending' = AList.update i
              \<lparr>pe_msg = pe_msg entry, pe_deliveryTime = now, pe_consumer = consumerName\<rparr> pending
        in if int (length claimed') \<ge> cnt then (claimed', pending')
           else mq_claim_loop now consumerName minIdle cnt rest claimed' pending'
      else mq_claim_loop now consumerName minIdle cnt rest claimed pending)"

definition mq_AutoClaim ::
    "env \<Rightarrow> string \<Rightarrow> string \<Rightarrow> string \<Rightarrow> duration \<Rightarrow> string \<Rightarrow> int \<Rightarrow> mem_queue \<Rightarrow>
       (goerr + QueueMessage list \<times> string) \<times> mem_queue" where
  "mq_AutoClaim e streamName groupName consumerName minIdle startID cnt0 q =
     (if streamName = '''' then (Inl ErrEmptyStream, q)
      else if groupName = '''' then (Inl ErrEmptyGroup, q)
      else case e_ctx e of
        Some err \<Rightarrow> (Inl err, q)
      | None \<Rightarrow>
          let cnt = (if cnt0 \<le> 0 then 10 else cnt0) in
          (case map_of (mq_streams q) streamName of
             None \<Rightarrow> (Inr ([], ''0-0''), q)
           | Some st \<Rightarrow>
               (case map_of (ms_groups st) groupName of
                  None \<Rightarrow> (Inr ([], ''0-0''), q)
                | Some grp \<Rightarrow>
                    (case mq_claim_loop (e_now e) consumerName minIdle cnt
                            (go_range (e_ord e) (mg_pending grp)) [] (mg_pending grp) of
                       (claimed, pending') \<Rightarrow>
                         (Inr (claimed, ''0-0''),
                          put_stream streamName
                            (st\<lparr>ms_groups := AList.update groupName (grp\<lparr>mg_pending := pending'\<rparr>) (ms_groups st)\<rparr>)
                            q)))))"

definition memory_stream_queue :: "mem_queue stream_queue" where
  "memory_stream_queue =
     \<lparr>sq_PublishEvent = mq_PublishEvent, sq_CreateConsumerGroup = mq_CreateConsumerGroup,
      sq_ReadEvents = mq_ReadEvents_quiet, sq_AckEvent = mq_AckEvent, sq_AutoClaim = mq_AutoClaim\<rparr>"

section \<open>Views of the state\<close>

definition mq_log :: "mem_queue \<Rightarrow> string \<Rightarrow> QueueMessage list" where
  "mq_log q s = ms_messages (getOrCreateStreamLocked s q)"

definition mq_grp :: "mem_queue \<Rightarrow> string \<Rightarrow> string \<Rightarrow> memGroup option" where
  "mq_grp q s g = map_of (ms_groups (getOrCreateStreamLocked s q)) g"

definition mq_pend :: "mem_queue \<Rightarrow> string \<Rightarrow> string \<Rightarrow> string \<Rightarrow> QueueMessage option" where
  "mq_pend q s g i =
     (case mq_grp q s g of None \<Rightarrow> None | Some grp \<Rightarrow> map_option pe_msg (map_of (mg_pending grp) i))"

text \<open>How many messages of the stream the group has been given.\<close>

definition mq_delivered :: "mem_queue \<Rightarrow> string \<Rightarrow> string \<Rightarrow> nat" where
  "mq_delivered q s g =
     (case mq_grp q s g of None \<Rightarrow> 0 | Some grp \<Rightarrow> nat (mg_lastDeliveredIdx grp + 1))"

lemmas mq_views = mq_log_def mq_grp_def mq_pend_def mq_delivered_def

lemma stream_put [simp]:
  "getOrCreateStreamLocked s' (put_stream s st q) = (if s' = s then st else getOrCreateStreamLocked s' q)"
  by (simp add: getOrCreateStreamLocked_def put_stream_def)

lemma stream_put_seq [simp]: "mq_seq (put_stream s st q) = mq_seq q"
  by (simp add: put_stream_def)

lemma stream_put_ok [simp]:
  "gomap_ok (mq_streams q) \<Longrightarrow> gomap_ok (mq_streams (put_stream s st q))"
  by (simp add: put_stream_def)

lemma stream_seq [simp]: "getOrCreateStreamLocked s (q\<lparr>mq_seq := k\<rparr>) = getOrCreateStreamLocked s q"
  by (simp add: getOrCreateStreamLocked_def)

lemma stream_Some: "map_of (mq_streams q) s = Some st \<Longrightarrow> getOrCreateStreamLocked s q = st"
  by (simp add: getOrCreateStreamLocked_def)

lemma empty_stream_simps [simp]: "ms_messages empty_stream = []" "ms_groups empty_stream = []"
  by (simp_all add: empty_stream_def)

section \<open>The invariant\<close>

text \<open>The sequence number of a message identifier is what follows its last dash.\<close>

definition id_seq :: "string \<Rightarrow> string" where
  "id_seq i = rev (takeWhile (\<lambda>c. c \<noteq> CHR ''-'') (rev i))"

lemma show_int_no_dash: "0 \<le> k \<Longrightarrow> CHR ''-'' \<notin> set (show_int k)"
  using show_nat_digits [of "CHR ''-''" "nat k"] by (auto simp: show_int_def)

lemma show_int_inj: "0 \<le> j \<Longrightarrow> 0 \<le> k \<Longrightarrow> show_int j = show_int k \<longleftrightarrow> j = k"
  using parse_nat_acc_show_nat by (auto simp: show_int_def) (metis int_nat_eq option.inject)

lemma id_seq_show: "0 \<le> k \<Longrightarrow> id_seq (x @ ''-'' @ show_int k) = show_int k"
  using show_int_no_dash [of k]
  by (simp add: id_seq_def takeWhile_append2) (subst takeWhile_append2; auto)

definition grp_ok :: "QueueMessage list \<Rightarrow> memGroup \<Rightarrow> bool" where
  "grp_ok msgs grp \<longleftrightarrow>
     gomap_ok (mg_pending grp) \<and>
     - 1 \<le> mg_lastDeliveredIdx grp \<and> mg_lastDeliveredIdx grp < int (length msgs) \<and>
     (\<forall>i pe. map_of (mg_pending grp) i = Some pe \<longrightarrow>
        qm_ID (pe_msg pe) = i \<and> pe_msg pe \<in> set (take (nat (mg_lastDeliveredIdx grp + 1)) msgs))"

definition stream_ok :: "int \<Rightarrow> memStream \<Rightarrow> bool" where
  "stream_ok sq st \<longleftrightarrow>
     gomap_ok (ms_groups st) \<and> distinct (map qm_ID (ms_messages st)) \<and>
     ms_notifyCh st < length (ms_chans st) \<and> \<not> ms_chans st ! ms_notifyCh st \<and>
     (\<forall>g grp. map_of (ms_groups st) g = Some grp \<longrightarrow> grp_ok (ms_messages st) grp) \<and>
     (\<forall>msg \<in> set (ms_messages st). \<exists>k. 1 \<le> k \<and> k \<le> sq \<and> id_seq (qm_ID msg) = show_int k)"

definition mq_inv :: "mem_queue \<Rightarrow> bool" where
  "mq_inv q \<longleftrightarrow> 0 \<le> mq_seq q \<and> gomap_ok (mq_streams q) \<and>
     (\<forall>s. stream_ok (mq_seq q) (getOrCreateStreamLocked s q))"

lemma mq_inv_new [simp]: "mq_inv NewMemoryStreamQueue"
  by (simp add: mq_inv_def NewMemoryStreamQueue_def getOrCreateStreamLocked_def stream_ok_def empty_stream_def)

lemma mq_inv_put:
  "mq_inv q \<Longrightarrow> stream_ok (mq_seq q) st \<Longrightarrow> mq_inv (put_stream s st q)"
  by (simp add: mq_inv_def)

lemma mq_inv_stream: "mq_inv q \<Longrightarrow> stream_ok (mq_seq q) (getOrCreateStreamLocked s q)"
  by (simp add: mq_inv_def)

lemma mq_inv_group:
  "mq_inv q \<Longrightarrow> mq_grp q s g = Some grp \<Longrightarrow> grp_ok (mq_log q s) grp"
  using mq_inv_stream [of q s] by (simp add: stream_ok_def mq_views)

lemma stream_ok_set_group:
  "\<lbrakk>stream_ok sq st; grp_ok (ms_messages st) grp\<rbrakk> \<Longrightarrow>
     stream_ok sq (st\<lparr>ms_groups := AList.update g grp (ms_groups st)\<rparr>)"
  by (simp add: stream_ok_def)

lemma grp_ok_fresh [simp]:
  "grp_ok msgs \<lparr>mg_lastDeliveredIdx = - 1, mg_pending = []\<rparr>"
  "grp_ok msgs \<lparr>mg_lastDeliveredIdx = int (length msgs) - 1, mg_pending = []\<rparr>"
  by (simp_all add: grp_ok_def)

lemma grp_ok_append: "grp_ok msgs grp \<Longrightarrow> grp_ok (msgs @ [msg]) grp"
  by (auto simp: grp_ok_def)

subsection \<open>Publishing and groups\<close>

text \<open>The stream after a publication.\<close>

definition published_stream :: "QueueMessage \<Rightarrow> memStream \<Rightarrow> memStream" where
  "published_stream qm st = st\<lparr>ms_messages := ms_messages st @ [qm], ms_notifyCh := length (ms_chans st),
     ms_chans := (ms_chans st @ [False])[ms_notifyCh st := True]\<rparr>"

lemma published_stream_simps [simp]:
  "ms_messages (published_stream qm st) = ms_messages st @ [qm]" "ms_groups (published_stream qm st) = ms_groups st"
  by (simp_all add: published_stream_def)

lemma mq_publish_ok:
  assumes "mq_PublishEvent e s vo q = (Inr i, q')"
  obtains v where "vo = Some v" "s \<noteq> ''''" "live e" "i = qm_ID (queue_message (e_now e) (mq_seq q + 1) v)"
    "q' = put_stream s (published_stream (queue_message (e_now e) (mq_seq q + 1) v) (getOrCreateStreamLocked s q))
            (q\<lparr>mq_seq := mq_seq q + 1\<rparr>)"
  using assms by (auto simp: mq_PublishEvent_def published_stream_def Let_def split: option.splits if_splits)

lemma mq_publish_error: "mq_PublishEvent e s vo q = (Inl err, q') \<Longrightarrow> q' = q"
  by (auto simp: mq_PublishEvent_def Let_def split: option.splits if_splits)

lemma fresh_id:
  assumes "mq_inv q" "msg \<in> set (mq_log q s)"
  shows "qm_ID msg \<noteq> qm_ID (queue_message now (mq_seq q + 1) v)"
proof -
  obtain k where k: "1 \<le> k" "k \<le> mq_seq q" "id_seq (qm_ID msg) = show_int k"
    using assms mq_inv_stream [OF assms(1), of s] by (auto simp: stream_ok_def mq_log_def)
  have "id_seq (qm_ID (queue_message now (mq_seq q + 1) v)) = show_int (mq_seq q + 1)"
    using k by (simp add: queue_message_def id_seq_show [simplified])
  moreover have "show_int k \<noteq> show_int (mq_seq q + 1)"
    using k by (simp add: show_int_inj)
  ultimately show ?thesis using k(3) by metis
qed

lemma stream_ok_mono: "stream_ok sq st \<Longrightarrow> sq \<le> sq' \<Longrightarrow> stream_ok sq' st"
  by (force simp: stream_ok_def)

lemma mq_inv_publish:
  assumes "mq_inv q" shows "mq_inv (snd (mq_PublishEvent e s vo q))"
proof (cases "mq_PublishEvent e s vo q")
  case (Pair r q')
  show ?thesis
  proof (cases r)
    case (Inl err)
    with Pair mq_publish_error [of e s vo q err q'] show ?thesis using assms by simp
  next
    case (Inr i)
    let ?st = "getOrCreateStreamLocked s q"
    obtain v where v: "q' = put_stream s (published_stream (queue_message (e_now e) (mq_seq q + 1) v) ?st)
        (q\<lparr>mq_seq := mq_seq q + 1\<rparr>)"
      using mq_publish_ok Pair Inr by metis
    have "mq_inv (q\<lparr>mq_seq := mq_seq q + 1\<rparr>)"
      using assms by (auto simp: mq_inv_def intro: stream_ok_mono)
    moreover have "stream_ok (mq_seq q + 1) (published_stream (queue_message (e_now e) (mq_seq q + 1) v) ?st)"
    proof -
      have s: "stream_ok (mq_seq q + 1) ?st" using mq_inv_stream [OF assms, of s] by (rule stream_ok_mono) simp
      moreover have "id_seq (qm_ID (queue_message (e_now e) (mq_seq q + 1) v)) = show_int (mq_seq q + 1)"
        using assms by (simp add: queue_message_def id_seq_show [simplified] mq_inv_def)
      moreover have "1 \<le> mq_seq q + 1" using assms by (simp add: mq_inv_def)
      ultimately show ?thesis
        using fresh_id [OF assms, of _ s "e_now e" v, symmetric]
        by (fastforce simp: stream_ok_def mq_log_def grp_ok_append published_stream_def nth_append nth_list_update
            intro!: exI [of _ "mq_seq q + 1"])
    qed
    ultimately show ?thesis using v Pair by (simp add: mq_inv_put)
  qed
qed

lemma mq_inv_create_group:
  "mq_inv q \<Longrightarrow> mq_inv (snd (mq_CreateConsumerGroup e s g i q))"
  using mq_inv_stream [of q s]
  by (auto simp: mq_CreateConsumerGroup_def Let_def intro!: mq_inv_put stream_ok_set_group split: option.splits)

subsection \<open>Reading\<close>

lemma map_of_deliver_pending:
  "map_of (deliver_pending now c msgs p) i =
     (case find (\<lambda>msg. qm_ID msg = i) (rev msgs) of
        None \<Rightarrow> map_of p i
      | Some msg \<Rightarrow> Some \<lparr>pe_msg = msg, pe_deliveryTime = now, pe_consumer = c\<rparr>)"
  unfolding deliver_pending_def
  by (induction msgs rule: rev_induct) auto

lemma gomap_ok_deliver_pending [simp]: "gomap_ok p \<Longrightarrow> gomap_ok (deliver_pending now c msgs p)"
  unfolding deliver_pending_def by (induction msgs rule: rev_induct) auto

lemma find_SomeD: "find P xs = Some x \<Longrightarrow> x \<in> set xs \<and> P x"
  by (induction xs) (auto split: if_splits)

lemma find_distinct_id:
  "distinct (map qm_ID msgs) \<Longrightarrow> msg \<in> set msgs \<Longrightarrow> find (\<lambda>m. qm_ID m = qm_ID msg) msgs = Some msg"
  by (induction msgs) auto

definition group_or_new :: "mem_queue \<Rightarrow> string \<Rightarrow> string \<Rightarrow> memGroup" where
  "group_or_new q s g =
     (case mq_grp q s g of None \<Rightarrow> \<lparr>mg_lastDeliveredIdx = - 1, mg_pending = []\<rparr> | Some grp \<Rightarrow> grp)"

lemma group_or_new_ok: "mq_inv q \<Longrightarrow> grp_ok (mq_log q s) (group_or_new q s g)"
  by (cases "mq_grp q s g") (simp_all add: group_or_new_def mq_inv_group)

lemma delivered_group: "mq_delivered q s g = nat (mg_lastDeliveredIdx (group_or_new q s g) + 1)"
  by (cases "mq_grp q s g") (simp_all add: mq_delivered_def group_or_new_def)

lemma pend_group: "mq_pend q s g i = map_option pe_msg (map_of (mg_pending (group_or_new q s g)) i)"
  by (cases "mq_grp q s g") (simp_all add: mq_pend_def group_or_new_def)

lemma delivered_le: "mq_inv q \<Longrightarrow> mq_delivered q s g \<le> length (mq_log q s)"
  using group_or_new_ok [of q s g] unfolding delivered_group grp_ok_def by linarith

text \<open>Writing one group back changes nothing else.\<close>

definition put_group :: "string \<Rightarrow> string \<Rightarrow> memGroup \<Rightarrow> mem_queue \<Rightarrow> mem_queue" where
  "put_group s g grp q =
     (let st = getOrCreateStreamLocked s q
      in put_stream s (st\<lparr>ms_groups := AList.update g grp (ms_groups st)\<rparr>) q)"

lemma put_group_views [simp]:
  "mq_log (put_group s g grp q) = mq_log q"
  "mq_grp (put_group s g grp q) s' g' = (if s' = s \<and> g' = g then Some grp else mq_grp q s' g')"
  "mq_seq (put_group s g grp q) = mq_seq q"
  by (auto simp: put_group_def mq_views Let_def fun_eq_iff)

lemma put_group_inv: "mq_inv q \<Longrightarrow> grp_ok (mq_log q s) grp \<Longrightarrow> mq_inv (put_group s g grp q)"
  by (simp add: put_group_def Let_def mq_log_def mq_inv_put mq_inv_stream stream_ok_set_group)

lemma put_group_pend:
  "mq_pend (put_group s g grp q) s' g' i =
     (if s' = s \<and> g' = g then map_option pe_msg (map_of (mg_pending grp) i) else mq_pend q s' g' i)"
  by (simp add: mq_pend_def)

lemma put_group_delivered:
  "mq_delivered (put_group s g grp q) s' g' =
     (if s' = s \<and> g' = g then nat (mg_lastDeliveredIdx grp + 1) else mq_delivered q s' g')"
  by (simp add: mq_delivered_def)

lemma read_locked_cases:
  assumes "mq_inv q" "mq_read_locked now s g c cnt q = (r, q')"
  obtains
    (Nothing) "r = Inr None" "q' = put_group s g (group_or_new q s g) q"
      "mq_delivered q s g = length (mq_log q s)"
  | (Panic) err where "r = Inl err" "q' = put_group s g (group_or_new q s g) q"
  | (Batch) ms k where "r = Inr (Some ms)" "ms = take k (drop (mq_delivered q s g) (mq_log q s))"
      "k \<le> length (mq_log q s) - mq_delivered q s g"
      "k = nat (min (int (length (mq_log q s))) (wrap64 (int (mq_delivered q s g) + cnt)) - int (mq_delivered q s g))"
      "mq_delivered q s g < length (mq_log q s)"
      "q' = put_group s g \<lparr>mg_lastDeliveredIdx = int (mq_delivered q s g) + int k - 1,
               mg_pending = deliver_pending now c ms (mg_pending (group_or_new q s g))\<rparr> q"
proof -
  let ?grp = "group_or_new q s g"
  let ?L = "mq_log q s"
  let ?start = "mg_lastDeliveredIdx ?grp + 1"
  let ?end0 = "wrap64 (?start + cnt)"
  let ?end1 = "if ?end0 > int (length ?L) then int (length ?L) else ?end0"
  let ?res = "take (nat (?end1 - ?start)) (drop (nat ?start) ?L)"
  have s0: "0 \<le> ?start" using group_or_new_ok [OF assms(1), of s g] by (simp add: grp_ok_def)
  have d: "int (mq_delivered q s g) = ?start" using s0 by (simp add: delivered_group)
  have eq: "mq_read_locked now s g c cnt q =
     (if ?start < int (length ?L) then
        (if ?end1 < ?start then (Inl (GoPanic ''makeslice: cap out of range''), put_group s g ?grp q)
         else (Inr (Some ?res), put_group s g (?grp\<lparr>mg_pending := deliver_pending now c ?res (mg_pending ?grp),
                            mg_lastDeliveredIdx := ?end1 - 1\<rparr>) q))
      else (Inr None, put_group s g ?grp q))"
    unfolding mq_read_locked_def put_group_def group_or_new_def mq_grp_def mq_log_def by (simp add: Let_def)
  have le: "mq_delivered q s g \<le> length ?L" by (rule delivered_le [OF assms(1)])
  consider (a) "\<not> ?start < int (length ?L)" | (b) "?start < int (length ?L)" "?end1 < ?start"
    | (c) "?start < int (length ?L)" "?start \<le> ?end1" by linarith
  then show ?thesis
  proof cases
    case a
    then have "mq_delivered q s g = length ?L" using d le by linarith
    with Nothing a assms(2) eq show ?thesis by simp
  next
    case b
    then show ?thesis using Panic assms(2) unfolding eq by (auto split: if_splits)
  next
    case c
    let ?k = "nat (?end1 - ?start)"
    have k: "int ?k = ?end1 - ?start" using c by simp
    have grp: "?grp\<lparr>mg_pending := deliver_pending now c ?res (mg_pending ?grp), mg_lastDeliveredIdx := ?end1 - 1\<rparr>
        = \<lparr>mg_lastDeliveredIdx = int (mq_delivered q s g) + int ?k - 1,
           mg_pending = deliver_pending now c ?res (mg_pending ?grp)\<rparr>"
      using d k by simp
    have r: "(r, q') = (Inr (Some ?res), put_group s g (?grp\<lparr>mg_pending := deliver_pending now c ?res (mg_pending ?grp),
                            mg_lastDeliveredIdx := ?end1 - 1\<rparr>) q)"
      using assms(2) c unfolding eq by (simp only: if_True not_less [symmetric] if_False)
    show ?thesis
    proof (rule Batch)
      show "r = Inr (Some ?res)" using r by (simp only: prod.inject)
      show "?res = take ?k (drop (mq_delivered q s g) ?L)" by (simp only: delivered_group)
      show "?k \<le> length ?L - mq_delivered q s g" using k d le by (auto split: if_splits)
      show "?k = nat (min (int (length ?L)) (wrap64 (int (mq_delivered q s g) + cnt)) - int (mq_delivered q s g))"
        unfolding d by (simp add: min_def)
      show "mq_delivered q s g < length ?L" using c d by simp
      show "q' = put_group s g \<lparr>mg_lastDeliveredIdx = int (mq_delivered q s g) + int ?k - 1,
           mg_pending = deliver_pending now c ?res (mg_pending ?grp)\<rparr> q"
        using r by (simp only: prod.inject grp)
    qed
  qed
qed

lemma batch_group_ok:
  assumes "mq_inv q" "ms = take k (drop (mq_delivered q s g) (mq_log q s))"
    and "k \<le> length (mq_log q s) - mq_delivered q s g"
  shows "grp_ok (mq_log q s) \<lparr>mg_lastDeliveredIdx = int (mq_delivered q s g) + int k - 1,
           mg_pending = deliver_pending now c ms (mg_pending (group_or_new q s g))\<rparr>"
proof -
  let ?d = "mq_delivered q s g" and ?L = "mq_log q s"
  have ok: "grp_ok ?L (group_or_new q s g)" by (rule group_or_new_ok [OF assms(1)])
  have t: "take (?d + k) ?L = take ?d ?L @ ms" using assms(2) by (simp add: take_add)
  have n: "nat (int ?d + int k) = ?d + k" by simp
  have "qm_ID (pe_msg pe) = i \<and> pe_msg pe \<in> set (take (?d + k) ?L)"
    if "map_of (deliver_pending now c ms (mg_pending (group_or_new q s g))) i = Some pe" for i pe
  proof (cases "find (\<lambda>msg. qm_ID msg = i) (rev ms)")
    case None
    then have "map_of (mg_pending (group_or_new q s g)) i = Some pe"
      using that by (simp add: map_of_deliver_pending)
    then show ?thesis using ok t by (simp add: grp_ok_def delivered_group)
  next
    case (Some msg)
    then have "qm_ID msg = i" "msg \<in> set ms" by (auto dest: find_SomeD)
    then show ?thesis using that Some t by (auto simp: map_of_deliver_pending)
  qed
  then show ?thesis
    using ok assms(3) delivered_le [OF assms(1), of s g] n
    by (simp add: grp_ok_def)
qed

lemma mq_inv_read_locked:
  assumes "mq_inv q" shows "mq_inv (snd (mq_read_locked now s g c cnt q))"
proof (cases "mq_read_locked now s g c cnt q")
  case (Pair r q')
  have "mq_inv q'"
  proof (rule read_locked_cases [OF assms Pair])
    fix ms k
    assume "ms = take k (drop (mq_delivered q s g) (mq_log q s))"
      "k \<le> length (mq_log q s) - mq_delivered q s g"
      "q' = put_group s g \<lparr>mg_lastDeliveredIdx = int (mq_delivered q s g) + int k - 1,
               mg_pending = deliver_pending now c ms (mg_pending (group_or_new q s g))\<rparr> q"
    then show ?thesis using batch_group_ok [OF assms] put_group_inv [OF assms] by metis
  qed (use put_group_inv group_or_new_ok assms in metis)+
  then show ?thesis using Pair by simp
qed

lemma batch_pending:
  assumes "mq_inv q" "ms = take k (drop d (mq_log q s))" "msg \<in> set ms"
  shows "map_of (deliver_pending now c ms p) (qm_ID msg) =
           Some \<lparr>pe_msg = msg, pe_deliveryTime = now, pe_consumer = c\<rparr>"
proof -
  have "distinct (map qm_ID (mq_log q s))"
    using mq_inv_stream [OF assms(1), of s] by (simp add: stream_ok_def mq_log_def)
  then have "distinct (map qm_ID ms)"
    using assms(2) by (simp add: distinct_drop distinct_take flip: take_map drop_map)
  then have "find (\<lambda>m. qm_ID m = qm_ID msg) (rev ms) = Some msg"
    using assms(3) by (intro find_distinct_id) (simp_all flip: rev_map)
  then show ?thesis by (simp add: map_of_deliver_pending)
qed

subsection \<open>Acknowledging and claiming\<close>

lemma grp_ok_sub:
  assumes "grp_ok msgs grp" "gomap_ok p"
    and "\<And>i pe. map_of p i = Some pe \<Longrightarrow> \<exists>pe0. map_of (mg_pending grp) i = Some pe0 \<and> pe_msg pe0 = pe_msg pe"
  shows "grp_ok msgs (grp\<lparr>mg_pending := p\<rparr>)"
  using assms unfolding grp_ok_def by simp metis

lemma map_of_fold_delete:
  "map_of (fold AList.delete ids p) i = (if i \<in> set ids then None else map_of p i)"
  by (induction ids arbitrary: p) auto

lemma gomap_ok_fold_delete [simp]: "gomap_ok p \<Longrightarrow> gomap_ok (fold AList.delete ids p)"
  by (induction ids arbitrary: p) auto

lemma stream_split:
  "(case map_of (mq_streams q) s of None \<Rightarrow> x
    | Some st \<Rightarrow> (case map_of (ms_groups st) g of None \<Rightarrow> x | Some grp \<Rightarrow> f st grp)) =
   (case mq_grp q s g of None \<Rightarrow> x | Some grp \<Rightarrow> f (getOrCreateStreamLocked s q) grp)"
  by (simp add: mq_grp_def getOrCreateStreamLocked_def split: option.split)

lemma mq_AckEvent_eq:
  "mq_AckEvent e s g ids q =
     (if length ids = 0 then (None, q)
      else if s = '''' then (Some ErrEmptyStream, q)
      else if g = '''' then (Some ErrEmptyGroup, q)
      else case e_ctx e of
        Some err \<Rightarrow> (Some err, q)
      | None \<Rightarrow>
          (case mq_grp q s g of
             None \<Rightarrow> (None, q)
           | Some grp \<Rightarrow> (None, put_group s g (grp\<lparr>mg_pending := fold AList.delete ids (mg_pending grp)\<rparr>) q)))"
  unfolding mq_AckEvent_def Let_def put_group_def stream_split ..

lemma ack_cases:
  assumes "mq_AckEvent e s g ids q = (r, q')"
  obtains (Same) "q' = q" "r = None \<Longrightarrow> ids = [] \<or> mq_grp q s g = None"
  | (Acked) grp where "r = None" "mq_grp q s g = Some grp" "live e"
      "q' = put_group s g (grp\<lparr>mg_pending := fold AList.delete ids (mg_pending grp)\<rparr>) q"
proof -
  have "q' = q \<and> (r = None \<longrightarrow> ids = [] \<or> mq_grp q s g = None) \<or>
    (\<exists>grp. r = None \<and> mq_grp q s g = Some grp \<and> live e \<and>
      q' = put_group s g (grp\<lparr>mg_pending := fold AList.delete ids (mg_pending grp)\<rparr>) q)"
    using assms by (auto simp: mq_AckEvent_eq split: if_splits option.splits)
  then show ?thesis using Same Acked by blast
qed

lemma claim_loop_spec:
  assumes "mq_claim_loop now c idle cnt es acc p = (cl, p')" "int (length acc) < cnt"
  shows "\<exists>picked. picked = take (nat cnt - length acc) (filter (\<lambda>(i, pe). now - pe_deliveryTime pe \<ge> idle) es) \<and>
      cl = acc @ map (pe_msg \<circ> snd) picked \<and>
      p' = fold (\<lambda>(i, pe). AList.update i \<lparr>pe_msg = pe_msg pe, pe_deliveryTime = now, pe_consumer = c\<rparr>) picked p"
  using assms
proof (induction es arbitrary: acc p)
  case (Cons x es)
  obtain i pe where x: "x = (i, pe)" by force
  show ?case
  proof (cases "now - pe_deliveryTime pe \<ge> idle")
    case False
    with Cons x show ?thesis by simp
  next
    case True
    let ?acc = "acc @ [pe_msg pe]"
    let ?p = "AList.update i \<lparr>pe_msg = pe_msg pe, pe_deliveryTime = now, pe_consumer = c\<rparr> p"
    have n: "nat cnt - length acc = Suc (nat cnt - length ?acc)" using Cons.prems(2) by simp
    show ?thesis
    proof (cases "int (length ?acc) \<ge> cnt")
      case full: True
      have "(cl, p') = (?acc, ?p)"
        using Cons.prems(1) x True full by (simp add: Let_def)
      moreover have "nat cnt - length ?acc = 0" using full by simp
      ultimately show ?thesis using x True n by simp
    next
      case False
      then have "mq_claim_loop now c idle cnt es ?acc ?p = (cl, p')"
        using Cons.prems(1) x True by (simp add: Let_def)
      from Cons.IH [OF this] False x True n show ?thesis by simp
    qed
  qed
qed simp

lemma map_of_fold_touch:
  "distinct (map fst es) \<Longrightarrow>
   map_of (fold (\<lambda>(i, pe). AList.update i \<lparr>pe_msg = pe_msg pe, pe_deliveryTime = now, pe_consumer = c\<rparr>) es p) j =
     (case map_of es j of
        Some pe \<Rightarrow> Some \<lparr>pe_msg = pe_msg pe, pe_deliveryTime = now, pe_consumer = c\<rparr>
      | None \<Rightarrow> map_of p j)"
proof (induction es arbitrary: p)
  case (Cons x es)
  have "fst x = j \<Longrightarrow> map_of es j = None" using Cons.prems by (auto simp: map_of_eq_None_iff)
  with Cons show ?case by (cases x) (auto split: option.splits)
qed simp

lemma gomap_ok_fold_touch [simp]:
  "gomap_ok p \<Longrightarrow> gomap_ok (fold (\<lambda>(i, pe). AList.update i (f pe)) es p)"
  by (induction es arbitrary: p) auto

lemma mq_AutoClaim_eq:
  "mq_AutoClaim e s g c idle i0 cnt0 q =
     (if s = '''' then (Inl ErrEmptyStream, q)
      else if g = '''' then (Inl ErrEmptyGroup, q)
      else case e_ctx e of
        Some err \<Rightarrow> (Inl err, q)
      | None \<Rightarrow>
          (case mq_grp q s g of
             None \<Rightarrow> (Inr ([], ''0-0''), q)
           | Some grp \<Rightarrow>
               (case mq_claim_loop (e_now e) c idle (if cnt0 \<le> 0 then 10 else cnt0)
                       (go_range (e_ord e) (mg_pending grp)) [] (mg_pending grp) of
                  (cl, p') \<Rightarrow> (Inr (cl, ''0-0''), put_group s g (grp\<lparr>mg_pending := p'\<rparr>) q))))"
  unfolding mq_AutoClaim_def Let_def put_group_def stream_split ..

lemma claim_cases:
  assumes "mq_inv q" "range_order_ok (e_ord e)" "mq_AutoClaim e s g c idle i0 cnt0 q = (r, q')"
  obtains (Error) err where "r = Inl err" "q' = q"
  | (NoGroup) "r = Inr ([], ''0-0'')" "q' = q" "mq_grp q s g = None"
  | (Claimed) grp es picked p' where "mq_grp q s g = Some grp" "mset es = mset (mg_pending grp)"
      "picked = take (nat (if cnt0 \<le> 0 then 10 else cnt0))
         (filter (\<lambda>(i, pe). e_now e - pe_deliveryTime pe \<ge> idle) es)"
      "r = Inr (map (pe_msg \<circ> snd) picked, ''0-0'')"
      "\<And>j. map_of p' j = (case map_of picked j of
          Some pe \<Rightarrow> Some \<lparr>pe_msg = pe_msg pe, pe_deliveryTime = e_now e, pe_consumer = c\<rparr>
        | None \<Rightarrow> map_of (mg_pending grp) j)" "gomap_ok p'" "set picked \<subseteq> set (mg_pending grp)"
      "distinct (map fst picked)"
      "q' = put_group s g (grp\<lparr>mg_pending := p'\<rparr>) q"
proof -
  let ?cnt = "if cnt0 \<le> 0 then 10 else cnt0"
  note eq = assms(3) [unfolded mq_AutoClaim_eq]
  consider (bad) "s = [] \<or> g = [] \<or> e_ctx e \<noteq> None"
    | (no) "s \<noteq> []" "g \<noteq> []" "e_ctx e = None" "mq_grp q s g = None"
    | (yes) grp where "s \<noteq> []" "g \<noteq> []" "e_ctx e = None" "mq_grp q s g = Some grp"
    by (cases "mq_grp q s g") auto
  then show ?thesis
  proof cases
    case bad
    then have "\<exists>err. r = Inl err \<and> q' = q" using eq by (cases "e_ctx e") (auto split: if_splits)
    then show ?thesis using Error by blast
  next
    case no
    then have "r = Inr ([], ''0-0'') \<and> q' = q" using eq by simp
    then show ?thesis using NoGroup no(4) by blast
  next
    case (yes grp)
    obtain cl p' where loop:
      "mq_claim_loop (e_now e) c idle ?cnt (go_range (e_ord e) (mg_pending grp)) [] (mg_pending grp) = (cl, p')"
      by fastforce
    then have r: "r = Inr (cl, ''0-0'')" "q' = put_group s g (grp\<lparr>mg_pending := p'\<rparr>) q"
      using eq yes by simp_all
    note c = yes(4) loop r
    let ?es = "go_range (e_ord e) (mg_pending grp)"
    let ?picked = "take (nat ?cnt) (filter (\<lambda>(i, pe). e_now e - pe_deliveryTime pe \<ge> idle) ?es)"
    have ok: "gomap_ok (mg_pending grp)" using mq_inv_group [OF assms(1) c(1)] by (simp add: grp_ok_def)
    have cl: "cl = map (pe_msg \<circ> snd) ?picked"
      "p' = fold (\<lambda>(i, pe). AList.update i \<lparr>pe_msg = pe_msg pe, pe_deliveryTime = e_now e, pe_consumer = c\<rparr>)
              ?picked (mg_pending grp)"
      using claim_loop_spec [OF c(2)] by auto
    have sub: "set ?picked \<subseteq> set (mg_pending grp)"
      using set_take_subset [of "nat ?cnt"] set_go_range [OF assms(2)] by fastforce
    have "distinct (map fst ?es)" using ok assms(2) by (simp add: distinct_go_range gomap_ok_def)
    then have dist: "distinct (map fst ?picked)"
      by (simp add: distinct_map_filter distinct_take flip: take_map)
    show ?thesis
    proof (rule Claimed [OF c(1) mset_go_range [OF assms(2)] refl _ _ _ sub dist c(4)])
      show "r = Inr (map (pe_msg \<circ> snd) ?picked, ''0-0'')" using c(3) cl(1) by simp
      show "gomap_ok p'" unfolding cl(2) using ok by (rule gomap_ok_fold_touch)
    qed (simp only: cl(2) map_of_fold_touch [OF dist])
  qed
qed

lemma claim_pend_same:
  assumes "gomap_ok (mg_pending grp)" "set picked \<subseteq> set (mg_pending grp)"
    and "map_of p' j = (case map_of picked j of
          Some pe \<Rightarrow> Some \<lparr>pe_msg = pe_msg pe, pe_deliveryTime = now, pe_consumer = c\<rparr>
        | None \<Rightarrow> map_of (mg_pending grp) j)"
  shows "map_option pe_msg (map_of p' j) = map_option pe_msg (map_of (mg_pending grp) j)"
proof (cases "map_of picked j")
  case (Some pe)
  then have "(j, pe) \<in> set (mg_pending grp)" using assms(2) map_of_SomeD by fastforce
  then have "map_of (mg_pending grp) j = Some pe" using assms(1) by (simp add: gomap_in_set)
  then show ?thesis using Some assms(3) by simp
qed (use assms(3) in simp)

lemma mq_ack_frame:
  assumes "mq_inv q" "mq_AckEvent e s g ids q = (r, q')"
  shows "mq_inv q' \<and> mq_log q' = mq_log q \<and> (\<forall>s' g'. mq_delivered q' s' g' = mq_delivered q s' g') \<and>
         (\<forall>s' g' i. s' \<noteq> s \<or> g' \<noteq> g \<or> i \<notin> set ids \<longrightarrow> mq_pend q' s' g' i = mq_pend q s' g' i) \<and>
         (r = None \<longrightarrow> (\<forall>i \<in> set ids. mq_pend q' s g i = None))"
  using assms(2)
proof (cases rule: ack_cases)
  case Same
  then show ?thesis using assms(1) by (cases "mq_grp q s g") (auto simp: mq_pend_def)
next
  case (Acked grp)
  have ok: "grp_ok (mq_log q s) grp" using mq_inv_group [OF assms(1) Acked(2)] .
  then have "grp_ok (mq_log q s) (grp\<lparr>mg_pending := fold AList.delete ids (mg_pending grp)\<rparr>)"
    by (intro grp_ok_sub) (auto simp: map_of_fold_delete grp_ok_def split: if_splits)
  then show ?thesis
    using Acked(2,4) assms(1)
    by (auto simp: put_group_inv put_group_pend put_group_delivered map_of_fold_delete
        mq_pend_def mq_delivered_def)
qed

lemma mq_inv_ack: "mq_inv q \<Longrightarrow> mq_inv (snd (mq_AckEvent e s g ids q))"
  using mq_ack_frame by (metis prod.collapse)

lemma mq_claim_frame:
  assumes "mq_inv q" "range_order_ok (e_ord e)" "mq_AutoClaim e s g c idle i0 cnt0 q = (r, q')"
  shows "mq_inv q' \<and> mq_log q' = mq_log q \<and> mq_pend q' = mq_pend q \<and>
         (\<forall>s' g'. mq_delivered q' s' g' = mq_delivered q s' g')"
  using assms
proof (cases rule: claim_cases)
  case (Claimed grp es picked p')
  have ok: "grp_ok (mq_log q s) grp" using mq_inv_group [OF assms(1) Claimed(1)] .
  have same: "map_option pe_msg (map_of p' j) = map_option pe_msg (map_of (mg_pending grp) j)" for j
    using ok Claimed(7) Claimed(5) by (intro claim_pend_same) (auto simp: grp_ok_def)
  have "grp_ok (mq_log q s) (grp\<lparr>mg_pending := p'\<rparr>)"
  proof (rule grp_ok_sub [OF ok Claimed(6)])
    fix i pe assume "map_of p' i = Some pe"
    then show "\<exists>pe0. map_of (mg_pending grp) i = Some pe0 \<and> pe_msg pe0 = pe_msg pe"
      using same [of i] by (cases "map_of (mg_pending grp) i") auto
  qed
  then show ?thesis
    using Claimed(1,9) same assms(1)
    by (auto simp: put_group_inv put_group_pend put_group_delivered fun_eq_iff mq_pend_def mq_delivered_def)
qed (use assms(1) in auto)

subsection \<open>The contract\<close>

lemma mq_publish_frame:
  assumes "mq_inv q" "mq_PublishEvent e s vo q = (Inr i, q')"
  shows "\<exists>v. vo = Some v \<and> live e \<and> mq_inv q' \<and> mq_pend q' = mq_pend q \<and> mq_grp q' = mq_grp q \<and>
     mq_log q' = (mq_log q)(s := mq_log q s @ [queue_message (e_now e) (mq_seq q + 1) v]) \<and>
     i = qm_ID (queue_message (e_now e) (mq_seq q + 1) v) \<and>
     (\<forall>s' g'. mq_delivered q' s' g' = mq_delivered q s' g')"
proof -
  let ?st = "getOrCreateStreamLocked s q"
  obtain v where v: "vo = Some v" "live e" "i = qm_ID (queue_message (e_now e) (mq_seq q + 1) v)"
    and q': "q' = put_stream s (published_stream (queue_message (e_now e) (mq_seq q + 1) v) ?st)
        (q\<lparr>mq_seq := mq_seq q + 1\<rparr>)"
    by (rule mq_publish_ok [OF assms(2)])
  have grp: "mq_grp q' = mq_grp q"
    by (intro ext) (simp add: mq_grp_def q')
  then have "mq_pend q' = mq_pend q" "\<forall>s' g'. mq_delivered q' s' g' = mq_delivered q s' g'"
    by (simp_all add: mq_pend_def mq_delivered_def fun_eq_iff)
  moreover have "mq_log q' = (mq_log q)(s := mq_log q s @ [queue_message (e_now e) (mq_seq q + 1) v])"
    by (intro ext) (simp add: mq_log_def q')
  moreover have "mq_inv q'" using mq_inv_publish [OF assms(1), of e s vo] assms(2) by simp
  ultimately show ?thesis using v grp by blast
qed

lemma mq_create_frame:
  assumes "mq_inv q" "mq_CreateConsumerGroup e s g i q = (r, q')"
  shows "mq_inv q' \<and> mq_log q' = mq_log q \<and> mq_pend q' = mq_pend q \<and>
     (\<forall>s' g'. mq_grp q s' g' \<noteq> None \<longrightarrow> mq_grp q' s' g' = mq_grp q s' g')"
proof -
  have "mq_inv q'" using mq_inv_create_group [OF assms(1), of e s g i] assms(2) by simp
  then show ?thesis
    using assms(2)
    by (auto simp: mq_CreateConsumerGroup_def Let_def mq_views fun_eq_iff split: if_splits option.splits)
qed

lemma group_or_new_put:
  "group_or_new (put_group s g grp q) s' g' = (if s' = s \<and> g' = g then grp else group_or_new q s' g')"
  by (simp add: group_or_new_def)

lemma put_same:
  "mq_pend (put_group s g (group_or_new q s g) q) = mq_pend q"
  "mq_delivered (put_group s g (group_or_new q s g) q) s g = mq_delivered q s g"
  by (auto simp: fun_eq_iff pend_group delivered_group group_or_new_put)

lemma mq_read_locked_frame:
  assumes "mq_inv q" "mq_read_locked now s g c cnt q = (r, q')"
  shows "mq_inv q' \<and> mq_log q' = mq_log q \<and>
     (\<forall>s' g'. s' \<noteq> s \<or> g' \<noteq> g \<longrightarrow> mq_grp q' s' g' = mq_grp q s' g') \<and>
     (\<forall>s' g' i. mq_pend q s' g' i \<noteq> None \<longrightarrow> mq_pend q' s' g' i \<noteq> None) \<and>
     (case r of
        Inr (Some ms) \<Rightarrow> (\<exists>k. ms = take k (drop (mq_delivered q s g) (mq_log q s)) \<and>
            mq_delivered q' s g = mq_delivered q s g + k \<and> k \<le> length (mq_log q s) - mq_delivered q s g) \<and>
          (\<forall>msg \<in> set ms. mq_pend q' s g (qm_ID msg) = Some msg) \<and>
          (\<forall>i. i \<notin> qm_ID ` set ms \<longrightarrow> mq_pend q' s g i = mq_pend q s g i)
      | _ \<Rightarrow> mq_pend q' = mq_pend q \<and> mq_delivered q' s g = mq_delivered q s g)"
proof -
  have inv: "mq_inv q'" using mq_inv_read_locked [OF assms(1), of now s g c cnt] assms(2) by simp
  show ?thesis
  proof (rule read_locked_cases [OF assms])
    fix ms k
    assume r: "r = Inr (Some ms)" and ms: "ms = take k (drop (mq_delivered q s g) (mq_log q s))"
      and k: "k \<le> length (mq_log q s) - mq_delivered q s g"
      and q': "q' = put_group s g \<lparr>mg_lastDeliveredIdx = int (mq_delivered q s g) + int k - 1,
               mg_pending = deliver_pending now c ms (mg_pending (group_or_new q s g))\<rparr> q"
    have p: "mq_pend q' s g i = (case find (\<lambda>msg. qm_ID msg = i) (rev ms) of
                 None \<Rightarrow> mq_pend q s g i | Some msg \<Rightarrow> Some msg)" for i
      by (simp add: q' pend_group group_or_new_put map_of_deliver_pending split: option.split)
    have "\<forall>msg \<in> set ms. mq_pend q' s g (qm_ID msg) = Some msg"
      using batch_pending [OF assms(1) ms] by (simp add: q' put_group_pend)
    moreover have "mq_pend q' s g i = mq_pend q s g i" if "i \<notin> qm_ID ` set ms" for i
    proof -
      have "find (\<lambda>msg. qm_ID msg = i) (rev ms) = None" using that by (auto simp: find_None_iff)
      then show ?thesis using p by simp
    qed
    moreover have "mq_delivered q' s g = mq_delivered q s g + k"
      by (simp add: q' put_group_delivered)
    moreover have "mq_pend q' s' g' i \<noteq> None" if "mq_pend q s' g' i \<noteq> None" for s' g' i
      using that p [of i] by (cases "s' = s \<and> g' = g") (auto simp: q' put_group_pend split: option.split)
    ultimately show ?thesis using inv r ms k q' by auto
  next
    assume "r = Inr None" "q' = put_group s g (group_or_new q s g) q"
    with inv show ?thesis by (simp add: put_same)
  next
    fix err assume "r = Inl err" "q' = put_group s g (group_or_new q s g) q"
    with inv show ?thesis by (simp add: put_same)
  qed
qed

lemma mq_read_quiet_cases:
  assumes "mq_ReadEvents_quiet e s g c cnt0 block q = (r, q')"
  obtains (Err) err where "r = Inl err" "q' = q"
  | (Round) r1 where "mq_read_locked (e_now e) s g c (if cnt0 \<le> 0 then 10 else cnt0) q = (r1, q')"
      "r = (case r1 of Inl err \<Rightarrow> Inl err | Inr None \<Rightarrow> Inr [] | Inr (Some ms) \<Rightarrow> Inr ms)"
proof -
  let ?cnt = "if cnt0 \<le> 0 then 10 else cnt0"
  obtain r1 q1 where r1: "mq_read_locked (e_now e) s g c ?cnt q = (r1, q1)" by fastforce
  have "(\<exists>err. r = Inl err \<and> q' = q) \<or>
    q' = q1 \<and> r = (case r1 of Inl err \<Rightarrow> Inl err | Inr None \<Rightarrow> Inr [] | Inr (Some ms) \<Rightarrow> Inr ms)"
    using assms r1
    by (simp add: mq_ReadEvents_quiet_def mq_ReadEvents_def Let_def
        split: if_splits option.splits sum.splits)
      (auto split: sum.splits option.splits)
  then show ?thesis using Err Round r1 by blast
qed

lemma mq_read_quiet_error:
  assumes "mq_inv q" "mq_ReadEvents_quiet e st g c n block q = (Inl err, q')"
  shows "mq_inv q' \<and> mq_log q' = mq_log q \<and> mq_pend q' = mq_pend q"
  using assms mq_read_locked_frame [OF assms(1)]
  by (elim mq_read_quiet_cases) (fastforce split: sum.splits option.splits)+

interpretation mq: exact_queue memory_stream_queue mq_log mq_pend mq_inv
proof (unfold_locales, unfold memory_stream_queue_def stream_queue.simps)
  fix q e st v i q'
  assume "mq_inv q" "mq_PublishEvent e st (Some v) q = (Inr i, q')"
  from mq_publish_frame [OF this]
  show "mq_inv q' \<and> mq_pend q' = mq_pend q \<and>
         (\<exists>pre msg. mq_log q' = (mq_log q)(st := mq_log q st @ pre @ [msg]) \<and> qm_ID msg = i \<and> qm_EventID msg = ev_ID v \<and>
            qm_TenantID msg = ev_TenantID v \<and> qm_EventType msg = ev_EventType v \<and> qm_Payload msg = ev_Payload v)"
    by (auto simp: queue_message_def intro!: exI [of _ "[]"])
next
  fix q e st vo err q'
  assume "mq_inv q" "mq_PublishEvent e st vo q = (Inl err, q')"
  then have "mq_inv q'" "mq_pend q' = mq_pend q" "mq_log q' = mq_log q" using mq_publish_error by metis+
  then show "mq_inv q' \<and> mq_pend q' = mq_pend q \<and> (\<exists>pre. mq_log q' = (mq_log q)(st := mq_log q st @ pre))"
    by (auto intro!: exI [of _ "[]"])
next
  fix q e st g c n block ms q'
  assume inv: "mq_inv q" and "mq_ReadEvents_quiet e st g c n block q = (Inr ms, q')"
  then obtain r1 where r1: "mq_read_locked (e_now e) st g c (if n \<le> 0 then 10 else n) q = (r1, q')"
    "Inr ms = (case r1 of Inl err \<Rightarrow> Inl err | Inr None \<Rightarrow> Inr [] | Inr (Some ms) \<Rightarrow> Inr ms)"
    using mq_read_quiet_cases by (metis sum.distinct(1))
  show "mq_inv q' \<and> mq_log q' = mq_log q \<and> set ms \<subseteq> set (mq_log q st) \<and>
         (\<forall>msg \<in> set ms. mq_pend q' st g (qm_ID msg) = Some msg) \<and>
         (\<forall>st' g' i. mq_pend q st' g' i \<noteq> None \<longrightarrow> mq_pend q' st' g' i \<noteq> None)"
    using mq_read_locked_frame [OF inv r1(1)] r1(2)
    by (auto split: sum.splits option.splits dest!: in_set_takeD in_set_dropD)
next
  fix q e st g c n block err q'
  assume "mq_inv q" "mq_ReadEvents_quiet e st g c n block q = (Inl err, q')"
  from mq_read_quiet_error [OF this]
  show "mq_inv q' \<and> mq_log q' = mq_log q \<and>
      (\<forall>st' g' i. mq_pend q st' g' i \<noteq> None \<longrightarrow> mq_pend q' st' g' i \<noteq> None)" by simp
next
  fix q e st g ids r q'
  assume "mq_inv q" "mq_AckEvent e st g ids q = (r, q')"
  from mq_ack_frame [OF this]
  show "mq_inv q' \<and> mq_log q' = mq_log q \<and>
         (\<forall>st' g' i. st' \<noteq> st \<or> g' \<noteq> g \<or> i \<notin> set ids \<longrightarrow> mq_pend q' st' g' i = mq_pend q st' g' i)"
    by blast
next
  fix q e st g ids q' i
  assume "mq_inv q" "mq_AckEvent e st g ids q = (None, q')" "i \<in> set ids"
  then show "mq_pend q' st g i = None" using mq_ack_frame by blast
next
  fix q e st g c idle i0 n ms i1 q'
  assume inv: "mq_inv q" and "env_ok e" and claim: "mq_AutoClaim e st g c idle i0 n q = (Inr (ms, i1), q')"
  then have ord: "range_order_ok (e_ord e)" by simp
  have "\<forall>msg \<in> set ms. mq_pend q st g (qm_ID msg) = Some msg"
  proof (rule claim_cases [OF inv ord claim])
    fix grp picked
    assume g: "mq_grp q st g = Some grp" and r: "Inr (ms, i1) = Inr (map (pe_msg \<circ> snd) picked, ''0-0'')"
      and sub: "set picked \<subseteq> set (mg_pending grp)"
    have ok: "grp_ok (mq_log q st) grp" by (rule mq_inv_group [OF inv g])
    show ?thesis
    proof
      fix msg assume "msg \<in> set ms"
      then obtain j pe where "(j, pe) \<in> set (mg_pending grp)" "msg = pe_msg pe" using r sub by auto
      moreover from this have m: "map_of (mg_pending grp) j = Some pe"
        using ok by (simp add: grp_ok_def gomap_in_set [symmetric])
      moreover have "qm_ID (pe_msg pe) = j" using ok m by (simp add: grp_ok_def)
      ultimately show "mq_pend q st g (qm_ID msg) = Some msg" using g by (simp add: mq_pend_def)
    qed
  qed simp_all
  then show "mq_inv q' \<and> mq_log q' = mq_log q \<and> (\<forall>msg \<in> set ms. mq_pend q st g (qm_ID msg) = Some msg)"
    using mq_claim_frame [OF inv ord claim] by blast
next
  fix q e st g c idle i0 n err q'
  assume inv: "mq_inv q" and "env_ok e" and claim: "mq_AutoClaim e st g c idle i0 n q = (Inl err, q')"
  then have "range_order_ok (e_ord e)" by simp
  from mq_claim_frame [OF inv this claim] show "mq_inv q' \<and> mq_log q' = mq_log q" by blast
next
  fix q e st g i0 r q'
  assume "mq_inv q" "mq_CreateConsumerGroup e st g i0 q = (r, q')"
  from mq_create_frame [OF this]
  show "mq_inv q' \<and> mq_log q' = mq_log q \<and> mq_pend q' = mq_pend q" by blast
next
  fix q e st v i q'
  assume "mq_inv q" "mq_PublishEvent e st (Some v) q = (Inr i, q')"
  from mq_publish_frame [OF this] show "\<exists>msg. mq_log q' = (mq_log q)(st := mq_log q st @ [msg])" by blast
next
  fix q e st vo err q'
  assume "mq_inv q" "mq_PublishEvent e st vo q = (Inl err, q')"
  then show "mq_log q' = mq_log q" using mq_publish_error by metis
next
  fix q e st g c n block err q'
  assume "mq_inv q" "mq_ReadEvents_quiet e st g c n block q = (Inl err, q')"
  from mq_read_quiet_error [OF this] show "mq_pend q' = mq_pend q" by simp
next
  fix q e st g c idle i0 n r q'
  assume inv: "mq_inv q" and "env_ok e" and claim: "mq_AutoClaim e st g c idle i0 n q = (r, q')"
  then have "range_order_ok (e_ord e)" by simp
  from mq_claim_frame [OF inv this claim] show "mq_log q' = mq_log q \<and> mq_pend q' = mq_pend q" by blast
qed

end
