(* ===== verification/MemoryRepo.thy ===== *)
theory MemoryRepo
  imports Repository
begin

text \<open>
  The in-memory repository, \<open>internal/storage/memory.go\<close>. Every method takes the lock for its
  whole body, so a call is one atomic step on the record of the six maps and the counter. The
  copies the code makes of events and payloads are what makes values immutable here. Map
  iteration goes through \<open>go_range\<close>. The outbox counter is an integer that does not wrap around, as
  the \<open>int64\<close> of the code would after \<open>2 ^ 63\<close> rows. Lemmas: the well-formedness invariant and its
  preservation, uniqueness of idempotency keys, what listing and replaying the dead-letter
  queue do, and the interpretation of the repository contract.
\<close>

section \<open>State\<close>

record memory_repo =
  mr_tenants :: "(string, Tenant) gomap"
  mr_endpoints :: "(string, Endpoint) gomap"
  mr_events :: "(string, Event) gomap"
  mr_outboxEvents :: "(int, OutboxEvent) gomap"
  mr_attempts :: "(string, DeliveryAttempt) gomap"
  mr_idempotencyIndex :: "(string, string) gomap"
  mr_nextOutboxID :: int

definition NewMemoryRepository :: memory_repo where
  "NewMemoryRepository =
     \<lparr>mr_tenants = [], mr_endpoints = [], mr_events = [], mr_outboxEvents = [], mr_attempts = [],
      mr_idempotencyIndex = [], mr_nextOutboxID = 0\<rparr>"

section \<open>Operations\<close>

definition mr_CreateTenant :: "env \<Rightarrow> Tenant \<Rightarrow> memory_repo \<Rightarrow> goerr option \<times> memory_repo" where
  "mr_CreateTenant e tenant m =
     (case e_ctx e of
        Some err \<Rightarrow> (Some err, m)
      | None \<Rightarrow>
          if map_of (mr_tenants m) (tn_ID tenant) \<noteq> None then (Some ErrDuplicateKey, m)
          else
            let tCopy = (if IsZero (tn_CreatedAt tenant) then tenant\<lparr>tn_CreatedAt := e_now e\<rparr> else tenant)
            in (None, m\<lparr>mr_tenants := AList.update (tn_ID tenant) tCopy (mr_tenants m)\<rparr>))"

definition mr_GetTenant :: "env \<Rightarrow> string \<Rightarrow> memory_repo \<Rightarrow> goerr + Tenant" where
  "mr_GetTenant e i m =
     (case e_ctx e of
        Some err \<Rightarrow> Inl err
      | None \<Rightarrow> (case map_of (mr_tenants m) i of None \<Rightarrow> Inl ErrNotFound | Some t \<Rightarrow> Inr t))"

definition mr_CreateEndpoint :: "env \<Rightarrow> Endpoint \<Rightarrow> memory_repo \<Rightarrow> goerr option \<times> memory_repo" where
  "mr_CreateEndpoint e endpoint m =
     (case e_ctx e of
        Some err \<Rightarrow> (Some err, m)
      | None \<Rightarrow>
          if map_of (mr_endpoints m) (ep_ID endpoint) \<noteq> None then (Some ErrDuplicateKey, m)
          else
            let now = e_now e;
                ep1 = (if IsZero (ep_CreatedAt endpoint) then endpoint\<lparr>ep_CreatedAt := now\<rparr> else endpoint);
                ep2 = (if IsZero (ep_UpdatedAt ep1) then ep1\<lparr>ep_UpdatedAt := now\<rparr> else ep1)
            in (None, m\<lparr>mr_endpoints := AList.update (ep_ID endpoint) ep2 (mr_endpoints m)\<rparr>))"

definition mr_GetEndpoint :: "env \<Rightarrow> string \<Rightarrow> memory_repo \<Rightarrow> goerr + Endpoint" where
  "mr_GetEndpoint e i m =
     (case e_ctx e of
        Some err \<Rightarrow> Inl err
      | None \<Rightarrow> (case map_of (mr_endpoints m) i of None \<Rightarrow> Inl ErrNotFound | Some ep \<Rightarrow> Inr ep))"

definition mr_GetEndpointsByTenant :: "env \<Rightarrow> string \<Rightarrow> memory_repo \<Rightarrow> goerr + Endpoint list" where
  "mr_GetEndpointsByTenant e tenantID m =
     (case e_ctx e of
        Some err \<Rightarrow> Inl err
      | None \<Rightarrow>
          Inr (filter (\<lambda>ep. ep_TenantID ep = tenantID)
                 (map snd (go_range (e_ord e) (mr_endpoints m)))))"

definition idempKey :: "string \<Rightarrow> string \<Rightarrow> string" where
  "idempKey tenantID key = tenantID @ '':'' @ key"

definition mr_CreateEventWithOutbox ::
    "env \<Rightarrow> Event \<Rightarrow> OutboxEvent \<Rightarrow> memory_repo \<Rightarrow> (goerr + Event \<times> OutboxEvent) \<times> memory_repo" where
  "mr_CreateEventWithOutbox e event outbox m =
     (case e_ctx e of
        Some err \<Rightarrow> (Inl err, m)
      | None \<Rightarrow>
          let k = idempKey (ev_TenantID event) (ev_IdempotencyKey event) in
          if ev_IdempotencyKey event \<noteq> '''' \<and> map_of (mr_idempotencyIndex m) k \<noteq> None
          then (Inl ErrDuplicateKey, m)
          else
            let m1 = (if ev_IdempotencyKey event \<noteq> ''''
                      then m\<lparr>mr_idempotencyIndex := AList.update k (ev_ID event) (mr_idempotencyIndex m)\<rparr>
                      else m)
            in if map_of (mr_events m1) (ev_ID event) \<noteq> None then (Inl ErrDuplicateKey, m1)
               else
                 let n = mr_nextOutboxID m1 + 1;
                     now = e_now e;
                     event' = (if IsZero (ev_CreatedAt event) then event\<lparr>ev_CreatedAt := now\<rparr> else event);
                     ob1 = outbox\<lparr>ob_ID := n\<rparr>;
                     outbox' = (if IsZero (ob_CreatedAt ob1) then ob1\<lparr>ob_CreatedAt := now\<rparr> else ob1)
                 in (Inr (event', outbox'),
                     m1\<lparr>mr_nextOutboxID := n,
                        mr_events := AList.update (ev_ID event) event' (mr_events m1),
                        mr_outboxEvents := AList.update n outbox' (mr_outboxEvents m1)\<rparr>))"

definition mr_FetchAndLockPendingOutbox :: "env \<Rightarrow> int \<Rightarrow> memory_repo \<Rightarrow> goerr + OutboxEvent list" where
  "mr_FetchAndLockPendingOutbox e limit m =
     (case e_ctx e of
        Some err \<Rightarrow> Inl err
      | None \<Rightarrow>
          let pending = sort_key ob_ID
                (filter (\<lambda>ob. ob_Status ob = OutboxStatusPending)
                   (map snd (go_range (e_ord e) (mr_outboxEvents m))))
          in if limit > 0 \<and> int (length pending) > limit then Inr (take (nat limit) pending)
             else Inr pending)"

definition mr_MarkOutboxPublished :: "env \<Rightarrow> int \<Rightarrow> memory_repo \<Rightarrow> goerr option \<times> memory_repo" where
  "mr_MarkOutboxPublished e outboxID m =
     (case e_ctx e of
        Some err \<Rightarrow> (Some err, m)
      | None \<Rightarrow>
          (case map_of (mr_outboxEvents m) outboxID of
             None \<Rightarrow> (Some ErrNotFound, m)
           | Some ob \<Rightarrow>
               (None, m\<lparr>mr_outboxEvents :=
                  AList.update outboxID
                    (ob\<lparr>ob_Status := OutboxStatusPublished, ob_ProcessedAt := Some (e_now e)\<rparr>)
                    (mr_outboxEvents m)\<rparr>)))"

definition mr_RecordDeliveryAttempt ::
    "env \<Rightarrow> DeliveryAttempt \<Rightarrow> memory_repo \<Rightarrow> goerr option \<times> memory_repo" where
  "mr_RecordDeliveryAttempt e attempt m =
     (case e_ctx e of
        Some err \<Rightarrow> (Some err, m)
      | None \<Rightarrow>
          if map_of (mr_attempts m) (at_ID attempt) \<noteq> None then (Some ErrDuplicateKey, m)
          else
            let aCopy = (if IsZero (at_ExecutedAt attempt) then attempt\<lparr>at_ExecutedAt := e_now e\<rparr> else attempt)
            in (None, m\<lparr>mr_attempts := AList.update (at_ID attempt) aCopy (mr_attempts m)\<rparr>))"

definition mr_UpdateEventStatus ::
    "env \<Rightarrow> string \<Rightarrow> EventStatus \<Rightarrow> memory_repo \<Rightarrow> goerr option \<times> memory_repo" where
  "mr_UpdateEventStatus e eventID status m =
     (case e_ctx e of
        Some err \<Rightarrow> (Some err, m)
      | None \<Rightarrow>
          (case map_of (mr_events m) eventID of
             None \<Rightarrow> (Some ErrNotFound, m)
           | Some evt \<Rightarrow>
               (None, m\<lparr>mr_events := AList.update eventID (evt\<lparr>ev_Status := status\<rparr>) (mr_events m)\<rparr>)))"

definition mr_GetEvent :: "env \<Rightarrow> string \<Rightarrow> memory_repo \<Rightarrow> goerr + Event" where
  "mr_GetEvent e i m =
     (case e_ctx e of
        Some err \<Rightarrow> Inl err
      | None \<Rightarrow> (case map_of (mr_events m) i of None \<Rightarrow> Inl ErrNotFound | Some evt \<Rightarrow> Inr evt))"

definition mr_GetDLQEvents :: "env \<Rightarrow> string \<Rightarrow> int \<Rightarrow> int \<Rightarrow> memory_repo \<Rightarrow> goerr + Event list" where
  "mr_GetDLQEvents e tenantID limit offset m =
     (case e_ctx e of
        Some err \<Rightarrow> Inl err
      | None \<Rightarrow>
          let dlqEvents = sort_key (\<lambda>evt. - ev_CreatedAt evt)
                (filter (\<lambda>evt. ev_TenantID evt = tenantID \<and> ev_Status evt = EventStatusDLQ)
                   (map snd (go_range (e_ord e) (mr_events m))))
          in if offset > 0 \<and> offset \<ge> int (length dlqEvents) then Inr []
             else
               let page = (if offset > 0 then drop (nat offset) dlqEvents else dlqEvents)
               in if limit > 0 \<and> int (length page) > limit then Inr (take (nat limit) page)
                  else Inr page)"

text \<open>The loop of \<open>ReplayDLQEvents\<close> over the requested identifiers.\<close>

fun mr_replay_loop ::
    "gotime \<Rightarrow> string \<Rightarrow> string list \<Rightarrow> int \<Rightarrow> memory_repo \<Rightarrow> int \<times> memory_repo" where
  "mr_replay_loop now tenantID [] replayedCount m = (replayedCount, m)"
| "mr_replay_loop now tenantID (i # ids) replayedCount m =
     (case map_of (mr_events m) i of
        None \<Rightarrow> mr_replay_loop now tenantID ids replayedCount m
      | Some evt \<Rightarrow>
          if ev_TenantID evt \<noteq> tenantID \<or> ev_Status evt \<noteq> EventStatusDLQ
          then mr_replay_loop now tenantID ids replayedCount m
          else
            let n = mr_nextOutboxID m + 1;
                ob = \<lparr>ob_ID = n, ob_EventID = ev_ID evt, ob_Status = OutboxStatusPending,
                      ob_RetryCount = 0, ob_CreatedAt = now, ob_ProcessedAt = None\<rparr>
            in mr_replay_loop now tenantID ids (replayedCount + 1)
                 (m\<lparr>mr_events := AList.update i (evt\<lparr>ev_Status := EventStatusPending\<rparr>) (mr_events m),
                    mr_nextOutboxID := n,
                    mr_outboxEvents := AList.update n ob (mr_outboxEvents m)\<rparr>))"

definition mr_ReplayDLQEvents ::
    "env \<Rightarrow> string \<Rightarrow> string list \<Rightarrow> memory_repo \<Rightarrow> (goerr + int) \<times> memory_repo" where
  "mr_ReplayDLQEvents e tenantID eventIDs m =
     (case e_ctx e of
        Some err \<Rightarrow> (Inl err, m)
      | None \<Rightarrow>
          (case mr_replay_loop (e_now e) tenantID eventIDs 0 m of (n, m') \<Rightarrow> (Inr n, m')))"

definition memory_repository :: "memory_repo repository" where
  "memory_repository =
     \<lparr>rp_CreateTenant = mr_CreateTenant, rp_GetTenant = mr_GetTenant,
      rp_CreateEndpoint = mr_CreateEndpoint, rp_GetEndpoint = mr_GetEndpoint,
      rp_GetEndpointsByTenant = mr_GetEndpointsByTenant,
      rp_CreateEventWithOutbox = mr_CreateEventWithOutbox,
      rp_FetchAndLockPendingOutbox = mr_FetchAndLockPendingOutbox,
      rp_MarkOutboxPublished = mr_MarkOutboxPublished,
      rp_RecordDeliveryAttempt = mr_RecordDeliveryAttempt,
      rp_UpdateEventStatus = mr_UpdateEventStatus, rp_GetEvent = mr_GetEvent,
      rp_GetDLQEvents = mr_GetDLQEvents, rp_ReplayDLQEvents = mr_ReplayDLQEvents\<rparr>"

lemmas mr_defs = mr_CreateTenant_def mr_GetTenant_def mr_CreateEndpoint_def mr_GetEndpoint_def
  mr_GetEndpointsByTenant_def mr_CreateEventWithOutbox_def mr_FetchAndLockPendingOutbox_def
  mr_MarkOutboxPublished_def mr_RecordDeliveryAttempt_def mr_UpdateEventStatus_def mr_GetEvent_def
  mr_GetDLQEvents_def mr_ReplayDLQEvents_def

section \<open>The invariant\<close>

definition mr_inv :: "memory_repo \<Rightarrow> bool" where
  "mr_inv m \<longleftrightarrow>
     gomap_ok (mr_tenants m) \<and> gomap_ok (mr_endpoints m) \<and> gomap_ok (mr_events m) \<and>
     gomap_ok (mr_outboxEvents m) \<and> gomap_ok (mr_attempts m) \<and> gomap_ok (mr_idempotencyIndex m) \<and>
     (\<forall>i ep. map_of (mr_endpoints m) i = Some ep \<longrightarrow> ep_ID ep = i) \<and>
     (\<forall>i v. map_of (mr_events m) i = Some v \<longrightarrow> ev_ID v = i) \<and>
     (\<forall>i ob. map_of (mr_outboxEvents m) i = Some ob \<longrightarrow> ob_ID ob = i \<and> 1 \<le> i \<and> i \<le> mr_nextOutboxID m) \<and>
     0 \<le> mr_nextOutboxID m \<and>
     (\<forall>i v. map_of (mr_events m) i = Some v \<longrightarrow> ev_IdempotencyKey v \<noteq> '''' \<longrightarrow>
        map_of (mr_idempotencyIndex m) (idempKey (ev_TenantID v) (ev_IdempotencyKey v)) = Some i)"

lemma mr_inv_new [simp]: "mr_inv NewMemoryRepository"
  by (simp add: mr_inv_def NewMemoryRepository_def)

lemma mr_inv_CreateTenant: "mr_inv m \<Longrightarrow> mr_inv (snd (mr_CreateTenant e t m))"
  by (auto simp: mr_inv_def mr_CreateTenant_def Let_def split: option.splits)

lemma mr_inv_CreateEndpoint: "mr_inv m \<Longrightarrow> mr_inv (snd (mr_CreateEndpoint e ep m))"
  by (auto simp: mr_inv_def mr_CreateEndpoint_def Let_def split: option.splits)

lemma mr_inv_RecordDeliveryAttempt: "mr_inv m \<Longrightarrow> mr_inv (snd (mr_RecordDeliveryAttempt e a m))"
  by (auto simp: mr_inv_def mr_RecordDeliveryAttempt_def Let_def split: option.splits)

lemma mr_inv_MarkOutboxPublished: "mr_inv m \<Longrightarrow> mr_inv (snd (mr_MarkOutboxPublished e i m))"
  by (auto simp: mr_inv_def mr_MarkOutboxPublished_def split: option.splits)

lemma mr_inv_UpdateEventStatus: "mr_inv m \<Longrightarrow> mr_inv (snd (mr_UpdateEventStatus e i st m))"
  by (auto simp: mr_inv_def mr_UpdateEventStatus_def split: option.splits)

lemma mr_inv_index:
  "mr_inv m \<Longrightarrow> map_of (mr_idempotencyIndex m) k = None \<Longrightarrow>
     mr_inv (m\<lparr>mr_idempotencyIndex := AList.update k i (mr_idempotencyIndex m)\<rparr>)"
  by (fastforce simp: mr_inv_def)

lemma mr_inv_set_event:
  "\<lbrakk>mr_inv m; ev_ID v = i;
    ev_IdempotencyKey v \<noteq> '''' \<Longrightarrow>
      map_of (mr_idempotencyIndex m) (idempKey (ev_TenantID v) (ev_IdempotencyKey v)) = Some i\<rbrakk>
   \<Longrightarrow> mr_inv (m\<lparr>mr_events := AList.update i v (mr_events m)\<rparr>)"
  by (simp add: mr_inv_def)

lemma mr_inv_add_outbox:
  "\<lbrakk>mr_inv m; n = mr_nextOutboxID m + 1; ob_ID ob = n\<rbrakk>
   \<Longrightarrow> mr_inv (m\<lparr>mr_nextOutboxID := n, mr_outboxEvents := AList.update n ob (mr_outboxEvents m)\<rparr>)"
  by (fastforce simp: mr_inv_def)

lemma mr_inv_index_of:
  "\<lbrakk>mr_inv m; map_of (mr_events m) i = Some v; ev_IdempotencyKey v \<noteq> ''''\<rbrakk>
   \<Longrightarrow> map_of (mr_idempotencyIndex m) (idempKey (ev_TenantID v) (ev_IdempotencyKey v)) = Some i"
  by (simp add: mr_inv_def)

lemma mr_inv_event_id: "mr_inv m \<Longrightarrow> map_of (mr_events m) i = Some v \<Longrightarrow> ev_ID v = i"
  by (simp add: mr_inv_def)

lemma mr_inv_outbox_id:
  "mr_inv m \<Longrightarrow> map_of (mr_outboxEvents m) n = Some ob \<Longrightarrow> ob_ID ob = n \<and> 1 \<le> n \<and> n \<le> mr_nextOutboxID m"
  by (simp add: mr_inv_def)

lemma mr_inv_fresh: "mr_inv m \<Longrightarrow> map_of (mr_outboxEvents m) (mr_nextOutboxID m + 1) = None"
  by (cases "map_of (mr_outboxEvents m) (mr_nextOutboxID m + 1)") (auto dest: mr_inv_outbox_id)

lemma mr_inv_insert:
  assumes "mr_inv m" "ev_ID v = i" "n = mr_nextOutboxID m + 1" "ob_ID ob = n"
    and "ev_IdempotencyKey v \<noteq> '''' \<Longrightarrow>
      map_of (mr_idempotencyIndex m) (idempKey (ev_TenantID v) (ev_IdempotencyKey v)) = Some i"
  shows "mr_inv (m\<lparr>mr_nextOutboxID := n, mr_events := AList.update i v (mr_events m),
                   mr_outboxEvents := AList.update n ob (mr_outboxEvents m)\<rparr>)"
    (is "mr_inv ?m")
proof -
  have "mr_inv (m\<lparr>mr_events := AList.update i v (mr_events m)\<rparr>)"
    using assms by (intro mr_inv_set_event)
  from mr_inv_add_outbox [OF this, of n ob] assms
  have "mr_inv (m\<lparr>mr_events := AList.update i v (mr_events m), mr_nextOutboxID := n,
                 mr_outboxEvents := AList.update n ob (mr_outboxEvents m)\<rparr>)" (is "mr_inv ?m'")
    by simp
  moreover have "?m' = ?m" by simp
  ultimately show ?thesis by simp
qed

lemma mr_inv_insert_indexed:
  assumes "mr_inv m" "ev_ID v = i" "n = mr_nextOutboxID m + 1" "ob_ID ob = n"
    and "k = idempKey (ev_TenantID v) (ev_IdempotencyKey v)" "map_of (mr_idempotencyIndex m) k = None"
  shows "mr_inv (m\<lparr>mr_idempotencyIndex := AList.update k i (mr_idempotencyIndex m),
                   mr_nextOutboxID := n, mr_events := AList.update i v (mr_events m),
                   mr_outboxEvents := AList.update n ob (mr_outboxEvents m)\<rparr>)"
  using mr_inv_insert [OF mr_inv_index [OF assms(1,6)], where v = v and i = i and n = n and ob = ob] assms by simp

lemma mr_inv_CreateEventWithOutbox: "mr_inv m \<Longrightarrow> mr_inv (snd (mr_CreateEventWithOutbox e v ob m))"
  unfolding mr_CreateEventWithOutbox_def Let_def
  by (auto intro!: mr_inv_insert mr_inv_insert_indexed simp: mr_inv_index split: option.splits)

lemma mr_inv_replay_step:
  "\<lbrakk>mr_inv m; map_of (mr_events m) i = Some evt; n = mr_nextOutboxID m + 1; ob_ID ob = n\<rbrakk> \<Longrightarrow>
   mr_inv (m\<lparr>mr_events := AList.update i (evt\<lparr>ev_Status := st\<rparr>) (mr_events m),
             mr_nextOutboxID := n,
             mr_outboxEvents := AList.update n ob (mr_outboxEvents m)\<rparr>)"
  using mr_inv_add_outbox [OF mr_inv_set_event [of m "evt\<lparr>ev_Status := st\<rparr>" i], of n ob]
  by (simp add: mr_inv_event_id mr_inv_index_of)

lemma mr_inv_replay_loop: "mr_inv m \<Longrightarrow> mr_inv (snd (mr_replay_loop now t ids n m))"
  by (induction now t ids n m rule: mr_replay_loop.induct)
    (auto simp: Let_def mr_inv_replay_step split: option.splits)

lemma mr_inv_ReplayDLQEvents: "mr_inv m \<Longrightarrow> mr_inv (snd (mr_ReplayDLQEvents e t ids m))"
  using mr_inv_replay_loop [of m "e_now e" t ids 0]
  by (auto simp: mr_ReplayDLQEvents_def split: option.splits prod.splits)

lemmas mr_inv_ops [simp] = mr_inv_CreateTenant mr_inv_CreateEndpoint mr_inv_RecordDeliveryAttempt
  mr_inv_MarkOutboxPublished mr_inv_UpdateEventStatus mr_inv_CreateEventWithOutbox mr_inv_ReplayDLQEvents

section \<open>The contract\<close>

lemma pending_set:
  assumes "mr_inv m" "env_ok e"
  shows "set (filter P (map snd (go_range (e_ord e) (mr_outboxEvents m)))) =
         {ob. map_of (mr_outboxEvents m) (ob_ID ob) = Some ob \<and> P ob}"
proof -
  have "ob \<in> snd ` set (mr_outboxEvents m) \<longleftrightarrow> map_of (mr_outboxEvents m) (ob_ID ob) = Some ob" for ob
    using assms(1) by (subst gomap_values) (auto simp: mr_inv_def)
  then show ?thesis using assms(2) by (auto simp: set_go_range)
qed

lemma events_set:
  assumes "mr_inv m" "env_ok e"
  shows "set (filter P (map snd (go_range (e_ord e) (mr_events m)))) =
         {v. map_of (mr_events m) (ev_ID v) = Some v \<and> P v}"
proof -
  have "v \<in> snd ` set (mr_events m) \<longleftrightarrow> map_of (mr_events m) (ev_ID v) = Some v" for v
    using assms(1) by (subst gomap_values) (auto simp: mr_inv_def)
  then show ?thesis using assms(2) by (auto simp: set_go_range)
qed

lemma distinct_ranged:
  assumes "gomap_ok xs" "range_order_ok ord" "\<And>k v. map_of xs k = Some v \<Longrightarrow> f v = k"
  shows "distinct (map f (filter P (map snd (go_range ord xs))))"
proof -
  have "map (f \<circ> snd) xs = map fst xs"
    using assms(1,3) by (auto simp: gomap_in_set)
  then have "distinct (map (f \<circ> snd) xs)"
    using assms(1) by (simp only: gomap_ok_def)
  then have "distinct (map (f \<circ> snd) (go_range ord xs))"
    using assms(2) by (simp only: distinct_go_range)
  then show ?thesis by (simp add: distinct_map_filter)
qed

lemma distinct_map_sort_key: "distinct (map f (sort_key g xs)) = distinct (map f xs)"
  by (metis mset_sort mset_map mset_eq_imp_distinct_iff)

lemma fetch_spec:
  assumes "mr_inv m" "env_ok e" "mr_FetchAndLockPendingOutbox e limit m = Inr batch"
  obtains pending where
    "set pending = {ob. map_of (mr_outboxEvents m) (ob_ID ob) = Some ob \<and> ob_Status ob = OutboxStatusPending}"
    "distinct (map ob_ID pending)" "sorted (map ob_ID pending)"
    "batch = (if 0 < limit then take (nat limit) pending else pending)"
proof
  let ?p = "sort_key ob_ID (filter (\<lambda>ob. ob_Status ob = OutboxStatusPending)
              (map snd (go_range (e_ord e) (mr_outboxEvents m))))"
  show "set ?p = {ob. map_of (mr_outboxEvents m) (ob_ID ob) = Some ob \<and> ob_Status ob = OutboxStatusPending}"
    using pending_set [OF assms(1,2)] by simp
  show "distinct (map ob_ID ?p)"
    unfolding distinct_map_sort_key
    using assms(1,2) by (intro distinct_ranged) (auto simp: mr_inv_def)
  show "sorted (map ob_ID ?p)" by simp
  show "batch = (if 0 < limit then take (nat limit) ?p else ?p)"
    using assms(3) by (auto simp: mr_FetchAndLockPendingOutbox_def Let_def split: option.splits if_splits)
qed

lemma mr_fetch_contract:
  assumes "mr_inv m" "env_ok e" "mr_FetchAndLockPendingOutbox e limit m = Inr batch"
  shows "ob \<in> set batch \<Longrightarrow> map_of (mr_outboxEvents m) (ob_ID ob) = Some ob \<and> ob_Status ob = OutboxStatusPending"
    and "distinct (map ob_ID batch)"
    and "\<lbrakk>int (length batch) < limit; map_of (mr_outboxEvents m) n = Some ob; ob_Status ob = OutboxStatusPending\<rbrakk>
           \<Longrightarrow> ob \<in> set batch"
proof -
  obtain p where p:
    "set p = {ob. map_of (mr_outboxEvents m) (ob_ID ob) = Some ob \<and> ob_Status ob = OutboxStatusPending}"
    "distinct (map ob_ID p)" "batch = (if 0 < limit then take (nat limit) p else p)"
    by (rule fetch_spec [OF assms])
  show "ob \<in> set batch \<Longrightarrow> map_of (mr_outboxEvents m) (ob_ID ob) = Some ob \<and> ob_Status ob = OutboxStatusPending"
    using p(1,3) by (auto dest: in_set_takeD split: if_splits)
  show "distinct (map ob_ID batch)"
    using p(2,3) by (simp flip: take_map)
  show "ob \<in> set batch" if "int (length batch) < limit" "map_of (mr_outboxEvents m) n = Some ob"
    "ob_Status ob = OutboxStatusPending"
  proof -
    have "batch = p" using p(3) that(1) by (auto split: if_splits)
    moreover have "map_of (mr_outboxEvents m) (ob_ID ob) = Some ob"
      using that(2) mr_inv_outbox_id [OF assms(1)] by metis
    ultimately show ?thesis using p(1) that(3) by simp
  qed
qed

lemma mr_fetch_limit:
  "mr_FetchAndLockPendingOutbox e limit m = Inr batch \<Longrightarrow> 0 < limit \<Longrightarrow> int (length batch) \<le> limit"
  by (auto simp: mr_FetchAndLockPendingOutbox_def Let_def split: option.splits if_splits)

lemma mr_create_ok:
  assumes "mr_inv m" "mr_CreateEventWithOutbox e v ob m = (Inr (v', ob'), m')"
  shows "mr_inv m' \<and> map_of (mr_events m) (ev_ID v) = None \<and> map_of (mr_outboxEvents m) (ob_ID ob') = None \<and>
         map_of (mr_events m') = (map_of (mr_events m))(ev_ID v \<mapsto> v') \<and>
         map_of (mr_outboxEvents m') = (map_of (mr_outboxEvents m))(ob_ID ob' \<mapsto> ob') \<and>
         (\<exists>t. v' = v\<lparr>ev_CreatedAt := t\<rparr>) \<and> (\<exists>t. ob' = ob\<lparr>ob_ID := ob_ID ob', ob_CreatedAt := t\<rparr>)"
proof (intro conjI)
  show "mr_inv m'" using mr_inv_CreateEventWithOutbox [OF assms(1), of e v ob] assms(2) by simp
  show "\<exists>t. v' = v\<lparr>ev_CreatedAt := t\<rparr>"
    using assms(2)
    by (auto simp: mr_CreateEventWithOutbox_def Let_def split: option.splits if_splits
        intro: exI [of _ "ev_CreatedAt v"] exI [of _ "e_now e"])
  show "\<exists>t. ob' = ob\<lparr>ob_ID := ob_ID ob', ob_CreatedAt := t\<rparr>"
    using assms(2)
    by (auto simp: mr_CreateEventWithOutbox_def Let_def split: option.splits if_splits
        intro: exI [of _ "ob_CreatedAt ob"] exI [of _ "e_now e"])
  show "map_of (mr_outboxEvents m) (ob_ID ob') = None"
    using assms(2) mr_inv_fresh [OF assms(1)]
    by (auto simp: mr_CreateEventWithOutbox_def Let_def split: option.splits if_splits)
qed (use assms(2) in \<open>auto simp: mr_CreateEventWithOutbox_def Let_def split: option.splits if_splits\<close>)

lemma mr_create_error:
  "mr_CreateEventWithOutbox e v ob m = (Inl err, m') \<Longrightarrow>
     mr_events m' = mr_events m \<and> mr_outboxEvents m' = mr_outboxEvents m"
  by (auto simp: mr_CreateEventWithOutbox_def Let_def split: option.splits if_splits)

lemma mr_mark_ok:
  "mr_MarkOutboxPublished e n m = (None, m') \<Longrightarrow>
     mr_events m' = mr_events m \<and>
     (\<exists>ob t. map_of (mr_outboxEvents m) n = Some ob \<and>
        map_of (mr_outboxEvents m') =
          (map_of (mr_outboxEvents m))(n \<mapsto> ob\<lparr>ob_Status := OutboxStatusPublished, ob_ProcessedAt := t\<rparr>))"
  by (auto simp: mr_MarkOutboxPublished_def split: option.splits)

lemma mr_update_ok:
  "mr_UpdateEventStatus e i st m = (None, m') \<Longrightarrow>
     mr_outboxEvents m' = mr_outboxEvents m \<and>
     (\<exists>v. map_of (mr_events m) i = Some v \<and> map_of (mr_events m') = (map_of (mr_events m))(i \<mapsto> v\<lparr>ev_Status := st\<rparr>))"
  by (auto simp: mr_UpdateEventStatus_def split: option.splits)

abbreviation mr_evs :: "memory_repo \<Rightarrow> string \<Rightarrow> Event option" where
  "mr_evs m \<equiv> map_of (mr_events m)"

abbreviation mr_obs :: "memory_repo \<Rightarrow> int \<Rightarrow> OutboxEvent option" where
  "mr_obs m \<equiv> map_of (mr_outboxEvents m)"

lemma mr_base_contract: "repository_contract memory_repository mr_evs mr_obs mr_inv"
proof (unfold_locales, unfold memory_repository_def repository.simps)
  fix s e limit batch ob
  assume a: "mr_inv s" "env_ok e" "mr_FetchAndLockPendingOutbox e limit s = Inr batch"
  show "distinct (map ob_ID batch)" by (rule mr_fetch_contract(2) [OF a])
  assume "ob \<in> set batch"
  then show "mr_obs s (ob_ID ob) = Some ob \<and> ob_Status ob = OutboxStatusPending"
    by (rule mr_fetch_contract(1) [OF a])
next
  fix s e limit batch
  assume "mr_FetchAndLockPendingOutbox e limit s = Inr batch" "0 < limit"
  then show "int (length batch) \<le> limit" by (rule mr_fetch_limit)
next
  fix s e i v
  assume "mr_inv s" "mr_GetEvent e i s = Inr v"
  then show "mr_evs s i = Some v \<and> ev_ID v = i"
    by (auto simp: mr_GetEvent_def mr_inv_event_id split: option.splits)
next
  fix s e i err
  assume "env_ok e" "mr_GetEvent e i s = Inl err" "errors_is err ErrNotFound"
  then show "mr_evs s i = None"
    by (auto simp: mr_GetEvent_def split: option.splits)
next
  fix s e t eps ep
  assume "env_ok e" "mr_GetEndpointsByTenant e t s = Inr eps" "ep \<in> set eps"
  then show "ep_TenantID ep = t"
    by (auto simp: mr_GetEndpointsByTenant_def split: option.splits)
next
  fix s e n s'
  assume "mr_inv s" "mr_MarkOutboxPublished e n s = (None, s')"
  then show "mr_inv s' \<and> mr_evs s' = mr_evs s \<and>
     (\<exists>ob t. mr_obs s n = Some ob \<and>
        mr_obs s' = (mr_obs s)(n \<mapsto> ob\<lparr>ob_Status := OutboxStatusPublished, ob_ProcessedAt := t\<rparr>))"
    using mr_mark_ok mr_inv_MarkOutboxPublished by (metis snd_conv)
next
  fix s e n err s'
  assume "mr_inv s" "mr_MarkOutboxPublished e n s = (Some err, s')"
  then have "s' = s"
    by (auto simp: mr_MarkOutboxPublished_def split: option.splits)
  then show "mr_inv s' \<and> mr_evs s' = mr_evs s \<and> (mr_obs s' = mr_obs s \<or>
     (\<exists>ob t. mr_obs s n = Some ob \<and>
        mr_obs s' = (mr_obs s)(n \<mapsto> ob\<lparr>ob_Status := OutboxStatusPublished, ob_ProcessedAt := t\<rparr>)))"
    using \<open>mr_inv s\<close> by simp
next
  fix s e a r s'
  assume "mr_inv s" "mr_RecordDeliveryAttempt e a s = (r, s')"
  then show "mr_inv s' \<and> mr_evs s' = mr_evs s \<and> mr_obs s' = mr_obs s"
    using mr_inv_RecordDeliveryAttempt [of s e a]
    by (auto simp: mr_RecordDeliveryAttempt_def Let_def split: option.splits if_splits)
next
  fix s e i st s'
  assume "mr_inv s" "mr_UpdateEventStatus e i st s = (None, s')"
  then show "mr_inv s' \<and> mr_obs s' = mr_obs s \<and>
      (\<exists>v. mr_evs s i = Some v \<and> mr_evs s' = (mr_evs s)(i \<mapsto> v\<lparr>ev_Status := st\<rparr>))"
    using mr_update_ok mr_inv_UpdateEventStatus by (metis snd_conv)
next
  fix s e i st err s'
  assume "mr_inv s" "mr_UpdateEventStatus e i st s = (Some err, s')"
  then show "mr_inv s' \<and> mr_obs s' = mr_obs s \<and>
      (mr_evs s' = mr_evs s \<or> (\<exists>v. mr_evs s i = Some v \<and> mr_evs s' = (mr_evs s)(i \<mapsto> v\<lparr>ev_Status := st\<rparr>)))"
    by (auto simp: mr_UpdateEventStatus_def split: option.splits)
next
  fix s e v ob res s'
  assume a: "mr_inv s" "mr_CreateEventWithOutbox e v ob s = (res, s')"
  show "mr_inv s' \<and> (\<forall>i x. mr_evs s i = Some x \<longrightarrow> mr_evs s' i = Some x) \<and>
             (\<forall>n x. mr_obs s n = Some x \<longrightarrow> mr_obs s' n = Some x)"
  proof (cases res)
    case (Inl err)
    then show ?thesis using a mr_create_error mr_inv_CreateEventWithOutbox [OF a(1), of e v ob] by force
  next
    case (Inr p)
    obtain v' ob' where "p = (v', ob')" by fastforce
    from mr_create_ok [OF a(1) a(2) [unfolded Inr this]] show ?thesis by auto
  qed
qed

lemma mr_contract: "exact_repository memory_repository mr_evs mr_obs mr_inv"
proof (rule exact_repository.intro [OF mr_base_contract], unfold_locales,
      unfold memory_repository_def repository.simps)
  fix s e v ob err s'
  assume "mr_inv s" "mr_CreateEventWithOutbox e v ob s = (Inl err, s')"
  then show "mr_inv s' \<and> mr_evs s' = mr_evs s \<and> mr_obs s' = mr_obs s"
    using mr_inv_CreateEventWithOutbox [of s e v ob] mr_create_error by (metis snd_conv)
qed (rule mr_create_ok)

interpretation mr: reliable_repository memory_repository mr_evs mr_obs mr_inv
proof (rule reliable_repository.intro [OF mr_contract],
    unfold_locales, unfold memory_repository_def repository.simps)
  fix s e limit batch n ob
  assume "mr_inv s" "env_ok e" "mr_FetchAndLockPendingOutbox e limit s = Inr batch"
    "int (length batch) < limit" "mr_obs s n = Some ob" "ob_Status ob = OutboxStatusPending"
  then show "ob \<in> set batch" by (rule mr_fetch_contract(3))
next
  fix s e n ob
  assume "live e" "mr_obs s n = Some ob"
  then show "\<exists>s'. mr_MarkOutboxPublished e n s = (None, s')"
    by (simp add: mr_MarkOutboxPublished_def)
next
  fix s e i v st
  assume "live e" "mr_evs s i = Some v"
  then show "\<exists>s'. mr_UpdateEventStatus e i st s = (None, s')"
    by (simp add: mr_UpdateEventStatus_def)
qed (simp_all add: mr_FetchAndLockPendingOutbox_def mr_GetEvent_def Let_def)

lemma same_status: "\<exists>st. x = map_option (\<lambda>v. v\<lparr>ev_Status := st\<rparr>) x" for x :: "Event option"
  by (cases x) (auto intro!: exI [of _ "ev_Status (the x)"])

lemma mr_replay_keeps:
  assumes "mr_inv m" "mr_replay_loop now t ids n m = (n', m')"
  shows "(\<forall>i. \<exists>st. mr_evs m' i = map_option (\<lambda>v. v\<lparr>ev_Status := st\<rparr>) (mr_evs m i)) \<and>
    (\<forall>k ob. mr_obs m k = Some ob \<longrightarrow> mr_obs m' k = Some ob)"
  using assms
proof (induction ids arbitrary: n m)
  case Nil
  then show ?case using same_status by simp
next
  case (Cons i ids)
  show ?case
  proof (cases "\<exists>v. mr_evs m i = Some v \<and> ev_TenantID v = t \<and> ev_Status v = EventStatusDLQ")
    case False
    then have "mr_replay_loop now t (i # ids) n m = mr_replay_loop now t ids n m" by (auto split: option.splits)
    then show ?thesis using Cons by simp
  next
    case True
    then obtain v where v: "mr_evs m i = Some v" "ev_TenantID v = t" "ev_Status v = EventStatusDLQ" by blast
    have vid: "ev_ID v = i" using mr_inv_event_id [OF Cons.prems(1) v(1)] .
    define nid where "nid = mr_nextOutboxID m + 1"
    define ob where "ob = \<lparr>ob_ID = nid, ob_EventID = i, ob_Status = OutboxStatusPending, ob_RetryCount = 0,
        ob_CreatedAt = now, ob_ProcessedAt = None\<rparr>"
    define m1 where "m1 = m\<lparr>mr_events := AList.update i (v\<lparr>ev_Status := EventStatusPending\<rparr>) (mr_events m),
        mr_nextOutboxID := nid, mr_outboxEvents := AList.update nid ob (mr_outboxEvents m)\<rparr>"
    have "mr_replay_loop now t (i # ids) n m = mr_replay_loop now t ids (n + 1) m1"
      using v vid by (simp add: m1_def ob_def nid_def Let_def)
    then have l: "mr_replay_loop now t ids (n + 1) m1 = (n', m')" using Cons.prems(2) by simp
    have inv1: "mr_inv m1"
      using mr_inv_replay_step [OF Cons.prems(1) v(1), of nid ob] by (simp add: m1_def nid_def ob_def)
    have e: "mr_evs m1 = (mr_evs m)(i \<mapsto> v\<lparr>ev_Status := EventStatusPending\<rparr>)" by (simp add: m1_def)
    have o: "mr_obs m k = Some x \<Longrightarrow> mr_obs m1 k = Some x" for k x
      using mr_inv_fresh [OF Cons.prems(1)] by (auto simp: m1_def nid_def)
    note ih = Cons.IH [OF inv1 l]
    have "\<exists>st. mr_evs m' j = map_option (\<lambda>v. v\<lparr>ev_Status := st\<rparr>) (mr_evs m j)" for j
    proof -
      obtain st where "mr_evs m' j = map_option (\<lambda>v. v\<lparr>ev_Status := st\<rparr>) (mr_evs m1 j)" using ih by blast
      then show ?thesis using v(1) by (auto simp: e)
    qed
    then show ?thesis using ih o by blast
  qed
qed

interpretation mrx: outbox_repository memory_repository mr_evs mr_obs mr_inv
proof (unfold_locales, unfold memory_repository_def repository.simps)
  fix s e v ob res s'
  assume inv: "mr_inv s" and c: "mr_CreateEventWithOutbox e v ob s = (res, s')"
    and ob: "ob_EventID ob = ev_ID v" "ob_Status ob = OutboxStatusPending"
  show "(\<exists>err. res = Inl err) \<and> mr_evs s' = mr_evs s \<and> mr_obs s' = mr_obs s \<or>
      (\<exists>w n row. mr_evs s (ev_ID w) = None \<and> mr_evs s' = (mr_evs s)(ev_ID w \<mapsto> w) \<and> mr_obs s n = None \<and>
      mr_obs s' = (mr_obs s)(n \<mapsto> row) \<and> ob_EventID row = ev_ID w \<and> ob_Status row = OutboxStatusPending)"
  proof (cases res)
    case (Inl err)
    then show ?thesis using c mr_create_error by auto
  next
    case (Inr p)
    obtain v' ob' where p: "p = (v', ob')" by fastforce
    note c = mr_create_ok [OF inv c [unfolded Inr p]]
    then obtain t t' where v': "v' = v\<lparr>ev_CreatedAt := t\<rparr>" and ob': "ob' = ob\<lparr>ob_ID := ob_ID ob', ob_CreatedAt := t'\<rparr>" by blast
    have "ob_EventID ob' = ev_ID v' \<and> ob_Status ob' = OutboxStatusPending"
      by (subst (1 2) ob') (simp add: v' ob)
    moreover have "ev_ID v' = ev_ID v" by (simp add: v')
    ultimately show ?thesis
      using c by (intro disjI2 exI [of _ v'] exI [of _ "ob_ID ob'"] exI [of _ ob']) simp
  qed
next
  fix s e ep r s'
  assume "mr_inv s" "mr_CreateEndpoint e ep s = (r, s')"
  then show "mr_inv s' \<and> mr_evs s' = mr_evs s \<and> mr_obs s' = mr_obs s"
    using mr_inv_CreateEndpoint [of s e ep] by (auto simp: mr_CreateEndpoint_def Let_def split: option.splits if_splits)
next
  fix s e t ids r s'
  assume inv: "mr_inv s" and r: "mr_ReplayDLQEvents e t ids s = (r, s')"
  have same: "\<forall>i. \<exists>st. mr_evs s i = map_option (\<lambda>v. v\<lparr>ev_Status := st\<rparr>) (mr_evs s i)"
    using mr_replay_keeps [OF inv, of 0 t "[]"] by simp
  obtain n m' where l: "mr_replay_loop (e_now e) t ids 0 s = (n, m')" by fastforce
  have "s' = s \<or> s' = m'" using r l by (auto simp: mr_ReplayDLQEvents_def split: option.splits if_splits)
  then show "mr_inv s' \<and> (\<forall>i. \<exists>st. mr_evs s' i = map_option (\<lambda>v. v\<lparr>ev_Status := st\<rparr>) (mr_evs s i)) \<and>
      (\<forall>n ob. mr_obs s n = Some ob \<longrightarrow> mr_obs s' n = Some ob)"
    using mr_inv_ReplayDLQEvents [OF inv, of e t ids] mr_replay_keeps [OF inv l] same r by auto
qed

section \<open>Reachable repositories\<close>

inductive mr_step :: "memory_repo \<Rightarrow> memory_repo \<Rightarrow> bool" where
  step_tenant: "mr_step m (snd (mr_CreateTenant e t m))"
| step_endpoint: "mr_step m (snd (mr_CreateEndpoint e ep m))"
| step_event: "mr_step m (snd (mr_CreateEventWithOutbox e v ob m))"
| step_mark: "mr_step m (snd (mr_MarkOutboxPublished e n m))"
| step_attempt: "mr_step m (snd (mr_RecordDeliveryAttempt e a m))"
| step_status: "mr_step m (snd (mr_UpdateEventStatus e i st m))"
| step_replay: "mr_step m (snd (mr_ReplayDLQEvents e t ids m))"

inductive mr_reachable :: "memory_repo \<Rightarrow> bool" where
  reach_new: "mr_reachable NewMemoryRepository"
| reach_step: "mr_reachable m \<Longrightarrow> mr_step m m' \<Longrightarrow> mr_reachable m'"

inductive_cases mr_stepE: "mr_step m m'"

lemma mr_step_inv: "mr_step m m' \<Longrightarrow> mr_inv m \<Longrightarrow> mr_inv m'"
  by (elim mr_stepE) simp_all

lemma mr_reachable_inv: "mr_reachable m \<Longrightarrow> mr_inv m"
  by (induction rule: mr_reachable.induct) (simp_all add: mr_step_inv)

text \<open>A small repository for the examples: a tenant's event is created, and then ends in the DLQ.\<close>

definition env0 :: env where
  "env0 = \<lparr>e_ctx = None, e_now = 1000, e_ord = (\<lambda>n. [0..<n])\<rparr>"

definition event0 :: Event where
  "event0 = \<lparr>ev_ID = ''ev1'', ev_TenantID = ''acme'', ev_EventType = ''order'', ev_IdempotencyKey = ''k1'',
     ev_Payload = ''{}'', ev_Status = EventStatusPending, ev_CreatedAt = 0\<rparr>"

definition outbox0 :: OutboxEvent where
  "outbox0 = \<lparr>ob_ID = 0, ob_EventID = ''ev1'', ob_Status = OutboxStatusPending, ob_RetryCount = 0,
     ob_CreatedAt = 0, ob_ProcessedAt = None\<rparr>"

definition repo1 :: memory_repo where
  "repo1 = snd (mr_CreateEventWithOutbox env0 event0 outbox0 NewMemoryRepository)"

definition repo2 :: memory_repo where
  "repo2 = snd (mr_UpdateEventStatus env0 ''ev1'' EventStatusDLQ repo1)"

lemmas example_defs = env0_def event0_def outbox0_def repo1_def repo2_def

lemma env0_ok [simp]: "env_ok env0"
  by (simp add: env0_def)

lemma repo1_reachable: "mr_reachable repo1"
  unfolding repo1_def by (rule reach_step [OF reach_new step_event])

lemma repo2_reachable: "mr_reachable repo2"
  unfolding repo2_def by (rule reach_step [OF repo1_reachable step_status])

lemma repo1_eval:
  "repo1 = NewMemoryRepository\<lparr>mr_events := [(''ev1'', event0\<lparr>ev_CreatedAt := 1000\<rparr>)],
     mr_outboxEvents := [(1, outbox0\<lparr>ob_ID := 1, ob_CreatedAt := 1000\<rparr>)],
     mr_idempotencyIndex := [(''acme:k1'', ''ev1'')], mr_nextOutboxID := 1\<rparr>"
  by (simp add: example_defs NewMemoryRepository_def mr_CreateEventWithOutbox_def idempKey_def Let_def)

lemma repo2_eval:
  "repo2 = repo1\<lparr>mr_events := [(''ev1'', event0\<lparr>ev_CreatedAt := 1000, ev_Status := EventStatusDLQ\<rparr>)]\<rparr>"
  by (simp add: repo2_def repo1_eval mr_UpdateEventStatus_def env0_def)

definition repo3 :: memory_repo where
  "repo3 = snd (mr_CreateEventWithOutbox env0
     (event0\<lparr>ev_ID := ''ev3'', ev_IdempotencyKey := ''k3''\<rparr>) outbox0 repo1)"

lemma repo3_reachable: "mr_reachable repo3"
  unfolding repo3_def by (rule reach_step [OF repo1_reachable step_event])

lemma repo3_eval:
  "mr_events repo3 = [(''ev1'', event0\<lparr>ev_CreatedAt := 1000\<rparr>),
     (''ev3'', event0\<lparr>ev_ID := ''ev3'', ev_IdempotencyKey := ''k3'', ev_CreatedAt := 1000\<rparr>)]"
  by (simp add: repo3_def repo1_eval mr_CreateEventWithOutbox_def idempKey_def event0_def env0_def
      NewMemoryRepository_def Let_def)

section \<open>Properties\<close>

text \<open>C12: at every reachable repository, two different stored events of one tenant carry different
  idempotency keys, unless the key is empty.\<close>

theorem repo_idempotency_unique:
  assumes "mr_reachable m" "mr_evs m i = Some v" "mr_evs m j = Some w" "i \<noteq> j"
    and "ev_TenantID v = ev_TenantID w" "ev_IdempotencyKey v \<noteq> ''''"
  shows "ev_IdempotencyKey v \<noteq> ev_IdempotencyKey w"
  using assms mr_inv_index_of [OF mr_reachable_inv] by (metis option.inject)

theorem repo_idempotency_unique_witness:
  "\<exists>v w. mr_evs repo3 ''ev1'' = Some v \<and> mr_evs repo3 ''ev3'' = Some w \<and> ev_TenantID v = ev_TenantID w \<and>
     ev_IdempotencyKey v \<noteq> ev_IdempotencyKey w"
proof -
  have e: "mr_evs repo3 ''ev1'' = Some (event0\<lparr>ev_CreatedAt := 1000\<rparr>)"
    "mr_evs repo3 ''ev3'' = Some (event0\<lparr>ev_ID := ''ev3'', ev_IdempotencyKey := ''k3'', ev_CreatedAt := 1000\<rparr>)"
    by (simp_all add: repo3_eval)
  show ?thesis
    using repo_idempotency_unique [OF repo3_reachable e] e by (simp add: event0_def)
qed

text \<open>A created event is stored with exactly one new pending outbox row under a fresh identifier,
  and a later creation with the same tenant and key is refused without changing the repository,
  whatever its event identifier.\<close>

theorem create_then_duplicate:
  assumes "mr_inv m" "mr_CreateEventWithOutbox e v ob m = (Inr (v', ob'), m')"
    and "ev_TenantID w = ev_TenantID v" "ev_IdempotencyKey w = ev_IdempotencyKey v"
    and "ev_IdempotencyKey v \<noteq> ''''" "live e'"
  shows "mr_GetEvent e' (ev_ID v) m' = Inr v' \<and>
         mr_obs m (ob_ID ob') = None \<and> mr_obs m' = (mr_obs m)(ob_ID ob' \<mapsto> ob') \<and>
         mr_CreateEventWithOutbox e' w ob2 m' = (Inl ErrDuplicateKey, m')"
proof -
  have c: "mr_obs m (ob_ID ob') = None" "mr_obs m' = (mr_obs m)(ob_ID ob' \<mapsto> ob')"
    "mr_evs m' (ev_ID v) = Some v'"
    using mr_create_ok [OF assms(1,2)] by simp_all
  have "map_of (mr_idempotencyIndex m') (idempKey (ev_TenantID v) (ev_IdempotencyKey v)) = Some (ev_ID v)"
    using assms(2,5)
    by (auto simp: mr_CreateEventWithOutbox_def Let_def split: option.splits if_splits)
  then show ?thesis
    using c assms(3-6) by (simp add: mr_GetEvent_def mr_CreateEventWithOutbox_def)
qed

theorem create_then_duplicate_witness:
  "mr_CreateEventWithOutbox env0 (event0\<lparr>ev_ID := ''ev2''\<rparr>) outbox0 repo1 = (Inl ErrDuplicateKey, repo1)"
proof -
  obtain v' ob' where c:
    "mr_CreateEventWithOutbox env0 event0 outbox0 NewMemoryRepository = (Inr (v', ob'), repo1)"
    unfolding repo1_def
    by (simp add: example_defs NewMemoryRepository_def mr_CreateEventWithOutbox_def Let_def)
  show ?thesis
    using create_then_duplicate [OF mr_inv_new c, of "event0\<lparr>ev_ID := ''ev2''\<rparr>" env0]
    by (simp add: event0_def env0_def)
qed

text \<open>The idempotency index is written before the identifier is checked: a creation refused because
  its event identifier exists leaves its key taken, so that a later creation with that key and a
  fresh identifier is refused although no event carries the key.\<close>

theorem refused_create_burns_key:
  assumes "mr_evs m (ev_ID v) = Some x" "ev_IdempotencyKey v \<noteq> ''''" "live e" "live e'"
    and "mr_CreateEventWithOutbox e v ob m = (r, m')"
    and "ev_TenantID w = ev_TenantID v" "ev_IdempotencyKey w = ev_IdempotencyKey v"
  shows "r = Inl ErrDuplicateKey \<and> mr_events m' = mr_events m \<and>
         fst (mr_CreateEventWithOutbox e' w ob2 m') = Inl ErrDuplicateKey"
  using assms by (auto simp: mr_CreateEventWithOutbox_def Let_def split: if_splits)

theorem refused_create_burns_key_witness:
  "\<exists>m'. mr_CreateEventWithOutbox env0 (event0\<lparr>ev_IdempotencyKey := ''k2''\<rparr>) outbox0 repo1
          = (Inl ErrDuplicateKey, m') \<and>
        fst (mr_CreateEventWithOutbox env0 (event0\<lparr>ev_ID := ''ev2'', ev_IdempotencyKey := ''k2''\<rparr>) outbox0 m')
          = Inl ErrDuplicateKey"
proof -
  have "mr_evs repo1 (ev_ID (event0\<lparr>ev_IdempotencyKey := ''k2''\<rparr>)) = Some (event0\<lparr>ev_CreatedAt := 1000\<rparr>)"
    by (simp add: repo1_eval event0_def)
  from refused_create_burns_key [OF this, of env0 env0 outbox0 _ _
      "event0\<lparr>ev_ID := ''ev2'', ev_IdempotencyKey := ''k2''\<rparr>" outbox0]
  show ?thesis
    by (cases "mr_CreateEventWithOutbox env0 (event0\<lparr>ev_IdempotencyKey := ''k2''\<rparr>) outbox0 repo1")
      (simp add: event0_def env0_def)
qed

text \<open>The slicing of the listing, on any list.\<close>

lemma slice_page:
  "(if offset > 0 \<and> offset \<ge> int (length xs) then Inr []
    else let page = (if offset > 0 then drop (nat offset) xs else xs)
         in if limit > 0 \<and> int (length page) > limit then Inr (take (nat limit) page) else Inr page)
   = Inr (if 0 < limit then take (nat limit) (drop (nat offset) xs) else drop (nat offset) xs)"
  by (cases "offset > 0") (auto simp: Let_def)

text \<open>Listing the dead-letter queue returns one page of the tenant's DLQ events and of nothing else,
  each once, the most recently created first; an offset or a limit that is not positive is ignored.\<close>

theorem dlq_listing:
  assumes "mr_inv m" "env_ok e" "live e"
  shows "\<exists>dlq. set dlq = {v. mr_evs m (ev_ID v) = Some v \<and> ev_TenantID v = t \<and> ev_Status v = EventStatusDLQ} \<and>
           distinct (map ev_ID dlq) \<and> sorted_wrt (\<lambda>v w. ev_CreatedAt w \<le> ev_CreatedAt v) dlq \<and>
           mr_GetDLQEvents e t limit offset m =
             Inr (if 0 < limit then take (nat limit) (drop (nat offset) dlq) else drop (nat offset) dlq)"
proof (intro exI conjI)
  let ?f = "filter (\<lambda>v. ev_TenantID v = t \<and> ev_Status v = EventStatusDLQ)
              (map snd (go_range (e_ord e) (mr_events m)))"
  let ?dlq = "sort_key (\<lambda>v. - ev_CreatedAt v) ?f"
  show "set ?dlq = {v. mr_evs m (ev_ID v) = Some v \<and> ev_TenantID v = t \<and> ev_Status v = EventStatusDLQ}"
    using events_set [OF assms(1,2)] by simp
  show "distinct (map ev_ID ?dlq)"
    unfolding distinct_map_sort_key
    using assms(1,2) by (intro distinct_ranged) (auto simp: mr_inv_def)
  have "sorted (map (\<lambda>v. - ev_CreatedAt v) ?dlq)" by simp
  then show "sorted_wrt (\<lambda>v w. ev_CreatedAt w \<le> ev_CreatedAt v) ?dlq"
    by (simp only: sorted_wrt_map neg_le_iff_le)
  show "mr_GetDLQEvents e t limit offset m =
          Inr (if 0 < limit then take (nat limit) (drop (nat offset) ?dlq) else drop (nat offset) ?dlq)"
    using assms(3) unfolding mr_GetDLQEvents_def by (simp only: slice_page Let_def [of ?dlq] option.case)
qed

theorem dlq_listing_witness:
  "\<exists>dlq. set dlq = {v. mr_evs repo2 (ev_ID v) = Some v \<and> ev_TenantID v = ''acme'' \<and>
       ev_Status v = EventStatusDLQ} \<and> mr_GetDLQEvents env0 ''acme'' 10 0 repo2 = Inr (take 10 dlq)"
  using dlq_listing [OF mr_reachable_inv [OF repo2_reachable] env0_ok, of "''acme''" 10 0]
  by (auto simp: env0_def)

lemma replay_loop_spec:
  assumes "mr_inv m" "mr_replay_loop now t ids c m = (c', m')"
  shows "\<exists>sel. distinct sel \<and>
     set sel = {i \<in> set ids. \<exists>v. mr_evs m i = Some v \<and> ev_TenantID v = t \<and> ev_Status v = EventStatusDLQ} \<and>
     c' = c + int (length sel) \<and> mr_nextOutboxID m' = mr_nextOutboxID m + int (length sel) \<and>
     mr_evs m' = (\<lambda>i. if i \<in> set sel then map_option (ev_Status_update (\<lambda>_. EventStatusPending)) (mr_evs m i)
                      else mr_evs m i) \<and>
     (\<forall>k \<le> mr_nextOutboxID m. mr_obs m' k = mr_obs m k) \<and>
     (\<forall>k < length sel. mr_obs m' (mr_nextOutboxID m + 1 + int k) =
        Some \<lparr>ob_ID = mr_nextOutboxID m + 1 + int k, ob_EventID = sel ! k, ob_Status = OutboxStatusPending,
              ob_RetryCount = 0, ob_CreatedAt = now, ob_ProcessedAt = None\<rparr>)"
  using assms
proof (induction now t ids c m rule: mr_replay_loop.induct)
  case (1 now t c m)
  then show ?case by (intro exI [of _ "[]"]) auto
next
  case (2 now t i ids c m)
  show ?case
  proof (cases "\<exists>v. mr_evs m i = Some v \<and> ev_TenantID v = t \<and> ev_Status v = EventStatusDLQ")
    case False
    then have "mr_replay_loop now t ids c m = (c', m')"
      using 2(5) by (auto split: option.splits)
    moreover have "{j \<in> set (i # ids). \<exists>v. mr_evs m j = Some v \<and> ev_TenantID v = t \<and> ev_Status v = EventStatusDLQ}
        = {j \<in> set ids. \<exists>v. mr_evs m j = Some v \<and> ev_TenantID v = t \<and> ev_Status v = EventStatusDLQ}"
      using False by auto
    ultimately show ?thesis
      using False 2(1) [OF _ 2(4)] 2(2) [OF _ _ 2(4)] by (cases "mr_evs m i") auto
  next
    case True
    then obtain v where v: "mr_evs m i = Some v" "ev_TenantID v = t" "ev_Status v = EventStatusDLQ"
      by blast
    let ?n = "mr_nextOutboxID m + 1"
    let ?ob = "\<lparr>ob_ID = ?n, ob_EventID = ev_ID v, ob_Status = OutboxStatusPending,
                ob_RetryCount = 0, ob_CreatedAt = now, ob_ProcessedAt = None\<rparr>"
    let ?m1 = "m\<lparr>mr_events := AList.update i (v\<lparr>ev_Status := EventStatusPending\<rparr>) (mr_events m),
                 mr_nextOutboxID := ?n, mr_outboxEvents := AList.update ?n ?ob (mr_outboxEvents m)\<rparr>"
    have i: "ev_ID v = i" using mr_inv_event_id [OF 2(4) v(1)] .
    have inv: "mr_inv ?m1" using mr_inv_replay_step [OF 2(4) v(1)] by simp
    have "mr_replay_loop now t ids (c + 1) ?m1 = (c', m')"
      using 2(5) v by (simp add: Let_def)
    from 2(3) [OF v(1) _ refl refl inv this] v obtain sel where sel:
      "distinct sel"
      "set sel = {j \<in> set ids. \<exists>v. mr_evs ?m1 j = Some v \<and> ev_TenantID v = t \<and> ev_Status v = EventStatusDLQ}"
      "c' = c + 1 + int (length sel)" "mr_nextOutboxID m' = ?n + int (length sel)"
      "mr_evs m' = (\<lambda>i. if i \<in> set sel then map_option (ev_Status_update (\<lambda>_. EventStatusPending)) (mr_evs ?m1 i)
                      else mr_evs ?m1 i)"
      "\<forall>k \<le> ?n. mr_obs m' k = mr_obs ?m1 k"
      "\<forall>k < length sel. mr_obs m' (?n + 1 + int k) =
        Some \<lparr>ob_ID = ?n + 1 + int k, ob_EventID = sel ! k, ob_Status = OutboxStatusPending,
              ob_RetryCount = 0, ob_CreatedAt = now, ob_ProcessedAt = None\<rparr>"
      by auto
    have isel: "i \<notin> set sel" using sel(2) by simp
    show ?thesis
    proof (intro exI [of _ "i # sel"] conjI)
      show "set (i # sel) = {j \<in> set (i # ids). \<exists>v. mr_evs m j = Some v \<and> ev_TenantID v = t \<and> ev_Status v = EventStatusDLQ}"
        using sel(2) v by (auto split: if_splits)
      show "mr_evs m' = (\<lambda>j. if j \<in> set (i # sel)
          then map_option (ev_Status_update (\<lambda>_. EventStatusPending)) (mr_evs m j) else mr_evs m j)"
        using sel(5) v isel by (auto simp: fun_eq_iff)
      show "\<forall>k < length (i # sel). mr_obs m' (mr_nextOutboxID m + 1 + int k) =
        Some \<lparr>ob_ID = mr_nextOutboxID m + 1 + int k, ob_EventID = (i # sel) ! k, ob_Status = OutboxStatusPending,
              ob_RetryCount = 0, ob_CreatedAt = now, ob_ProcessedAt = None\<rparr>"
      proof (intro allI impI)
        fix k assume "k < length (i # sel)"
        then show "mr_obs m' (mr_nextOutboxID m + 1 + int k) =
          Some \<lparr>ob_ID = mr_nextOutboxID m + 1 + int k, ob_EventID = (i # sel) ! k, ob_Status = OutboxStatusPending,
              ob_RetryCount = 0, ob_CreatedAt = now, ob_ProcessedAt = None\<rparr>"
          using sel(6) sel(7) [rule_format, of "k - 1"] i by (cases k) (auto simp: algebra_simps)
      qed
    qed (use sel(1,3,4,6) isel in auto)
  qed
qed

text \<open>C20: replaying returns the number of distinct requested events that are in this tenant's DLQ,
  makes exactly those pending with one fresh pending outbox row each, and changes no other event
  and no existing outbox row; replaying the same identifiers again replays nothing.\<close>

theorem replay_dlq_spec:
  assumes "mr_inv m" "mr_ReplayDLQEvents e t ids m = (Inr c, m')"
  shows "\<exists>sel. distinct sel \<and>
     set sel = {i \<in> set ids. \<exists>v. mr_evs m i = Some v \<and> ev_TenantID v = t \<and> ev_Status v = EventStatusDLQ} \<and>
     c = int (length sel) \<and>
     mr_evs m' = (\<lambda>i. if i \<in> set sel then map_option (ev_Status_update (\<lambda>_. EventStatusPending)) (mr_evs m i)
                      else mr_evs m i) \<and>
     (\<forall>k \<le> mr_nextOutboxID m. mr_obs m' k = mr_obs m k) \<and>
     (\<forall>k < length sel. \<exists>ob. mr_obs m' (mr_nextOutboxID m + 1 + int k) = Some ob \<and>
        ob_EventID ob = sel ! k \<and> ob_Status ob = OutboxStatusPending) \<and>
     fst (mr_ReplayDLQEvents e t ids m') = Inr 0"
proof -
  have l: "live e" and r: "mr_replay_loop (e_now e) t ids 0 m = (c, m')"
    using assms(2) by (auto simp: mr_ReplayDLQEvents_def split: option.splits prod.splits)
  obtain sel where sel: "distinct sel"
     "set sel = {i \<in> set ids. \<exists>v. mr_evs m i = Some v \<and> ev_TenantID v = t \<and> ev_Status v = EventStatusDLQ}"
     "c = int (length sel)"
     "mr_evs m' = (\<lambda>i. if i \<in> set sel then map_option (ev_Status_update (\<lambda>_. EventStatusPending)) (mr_evs m i)
                      else mr_evs m i)"
     "\<forall>k \<le> mr_nextOutboxID m. mr_obs m' k = mr_obs m k"
     "\<forall>k < length sel. \<exists>ob. mr_obs m' (mr_nextOutboxID m + 1 + int k) = Some ob \<and>
        ob_EventID ob = sel ! k \<and> ob_Status ob = OutboxStatusPending"
    using replay_loop_spec [OF assms(1) r] by auto
  obtain c2 m2 where r2: "mr_replay_loop (e_now e) t ids 0 m' = (c2, m2)" by fastforce
  have inv': "mr_inv m'" using mr_inv_ReplayDLQEvents [OF assms(1), of e t ids] assms(2) by simp
  obtain sel2 where "c2 = int (length sel2)"
     "set sel2 = {i \<in> set ids. \<exists>v. mr_evs m' i = Some v \<and> ev_TenantID v = t \<and> ev_Status v = EventStatusDLQ}"
    using replay_loop_spec [OF inv' r2] by auto
  moreover have "{i \<in> set ids. \<exists>v. mr_evs m' i = Some v \<and> ev_TenantID v = t \<and> ev_Status v = EventStatusDLQ} = {}"
    using sel(2,4) by auto
  ultimately have "fst (mr_ReplayDLQEvents e t ids m') = Inr 0"
    using l r2 by (simp add: mr_ReplayDLQEvents_def)
  with sel show ?thesis by blast
qed

theorem replay_dlq_spec_witness:
  "\<exists>m'. mr_ReplayDLQEvents env0 ''acme'' [''ev1'', ''nope'', ''ev1''] repo2 = (Inr 1, m') \<and>
        fst (mr_ReplayDLQEvents env0 ''acme'' [''ev1'', ''nope'', ''ev1''] m') = Inr 0"
proof -
  obtain m' where "mr_ReplayDLQEvents env0 ''acme'' [''ev1'', ''nope'', ''ev1''] repo2 = (Inr 1, m')"
    by (simp add: repo2_eval repo1_eval mr_ReplayDLQEvents_def env0_def event0_def Let_def)
  with replay_dlq_spec [OF mr_reachable_inv [OF repo2_reachable] this] show ?thesis by auto
qed

text \<open>Fetching a batch returns the pending outbox rows with the smallest identifiers, each once
  and in increasing order, at most \<open>limit\<close> of them, and every row it leaves out has a larger
  identifier than every row it returns.\<close>

theorem fetch_pending_spec:
  assumes "mr_inv m" "env_ok e" "0 < limit" "mr_FetchAndLockPendingOutbox e limit m = Inr batch"
  shows "sorted_wrt (\<lambda>a b. ob_ID a < ob_ID b) batch \<and> int (length batch) \<le> limit \<and>
     (\<forall>ob \<in> set batch. mr_obs m (ob_ID ob) = Some ob \<and> ob_Status ob = OutboxStatusPending) \<and>
     (\<forall>n x. mr_obs m n = Some x \<longrightarrow> ob_Status x = OutboxStatusPending \<longrightarrow> x \<notin> set batch \<longrightarrow>
        int (length batch) = limit \<and> (\<forall>ob \<in> set batch. ob_ID ob < n))"
proof -
  obtain p where p:
    "set p = {ob. mr_obs m (ob_ID ob) = Some ob \<and> ob_Status ob = OutboxStatusPending}"
    "distinct (map ob_ID p)" "sorted (map ob_ID p)" "batch = (if 0 < limit then take (nat limit) p else p)"
    by (rule fetch_spec [OF assms(1,2,4)])
  have b: "batch = take (nat limit) p" using p(4) assms(3) by simp
  have s: "sorted_wrt (\<lambda>a b. ob_ID a < ob_ID b) p"
    using p(2,3) by (simp add: strict_sorted_iff flip: sorted_wrt_map)
  have "int (length batch) = limit \<and> (\<forall>ob \<in> set batch. ob_ID ob < n)"
    if x: "mr_obs m n = Some x" "ob_Status x = OutboxStatusPending" "x \<notin> set batch" for n x
  proof -
    have n: "ob_ID x = n" using mr_inv_outbox_id [OF assms(1) x(1)] by simp
    have "x \<in> set p" using p(1) x n by auto
    then have d: "x \<in> set (drop (nat limit) p)"
      using x(3) b by (metis append_take_drop_id Un_iff set_append)
    then have "length batch = nat limit" using b by (cases "length p \<le> nat limit") auto
    moreover have "sorted_wrt (\<lambda>a b. ob_ID a < ob_ID b) (take (nat limit) p @ drop (nat limit) p)"
      using s by simp
    then have "\<forall>ob \<in> set batch. ob_ID ob < ob_ID x"
      unfolding sorted_wrt_append using b d by blast
    ultimately show ?thesis using n assms(3) by simp
  qed
  then show ?thesis
    using b s p(1) assms(3) by (auto simp: sorted_wrt_take dest: in_set_takeD)
qed

theorem fetch_pending_spec_witness:
  "\<exists>ob. mr_FetchAndLockPendingOutbox env0 5 repo1 = Inr [ob] \<and> ob_Status ob = OutboxStatusPending \<and> ob_ID ob = 1"
proof -
  obtain ob where ob: "mr_FetchAndLockPendingOutbox env0 5 repo1 = Inr [ob]" "ob_ID ob = 1"
    by (simp add: repo1_eval NewMemoryRepository_def mr_FetchAndLockPendingOutbox_def env0_def outbox0_def)
  with fetch_pending_spec [OF mr_reachable_inv [OF repo1_reachable] env0_ok _ ob(1)] show ?thesis
    by simp
qed

end
