(* ===== verification/QueueRuns.thy ===== *)
theory QueueRuns
  imports MemoryQueue MemoryRepo
begin

text \<open>
  Properties of the in-memory stream queue over any interleaving of its operations: a message
  stays owed to its group until it is acknowledged, reads deliver in order and without gaps,
  claiming returns exactly the entries that are idle, published identifiers are unique, and a
  waiting reader is woken by the next publication.
\<close>

section \<open>Runs\<close>

text \<open>
  One atomic step of the queue with what it did: a read is one locked round. A run is any
  interleaving of such steps by any number of publishers and consumers.
\<close>

datatype mq_label =
    LPublish env string "Event option"
  | LCreate env string string string
  | LRead gotime string string string int
  | LAck env string string "string list"
  | LClaim env string string string duration string int

fun mq_exec :: "mq_label \<Rightarrow> mem_queue \<Rightarrow> mem_queue" where
  "mq_exec (LPublish e s vo) q = snd (mq_PublishEvent e s vo q)"
| "mq_exec (LCreate e s g i) q = snd (mq_CreateConsumerGroup e s g i q)"
| "mq_exec (LRead now s g c cnt) q = snd (mq_read_locked now s g c cnt q)"
| "mq_exec (LAck e s g ids) q = snd (mq_AckEvent e s g ids q)"
| "mq_exec (LClaim e s g c idle i cnt) q = snd (mq_AutoClaim e s g c idle i cnt q)"

fun mq_label_ok :: "mq_label \<Rightarrow> bool" where
  "mq_label_ok (LClaim e s g c idle i cnt) = range_order_ok (e_ord e)"
| "mq_label_ok _ = True"

fun mq_acks :: "mq_label \<Rightarrow> string \<Rightarrow> string \<Rightarrow> string \<Rightarrow> bool" where
  "mq_acks (LAck e s' g' ids) s g i = (s' = s \<and> g' = g \<and> i \<in> set ids)"
| "mq_acks _ s g i = False"

abbreviation mq_run :: "mq_label list \<Rightarrow> mem_queue \<Rightarrow> mem_queue" where
  "mq_run ls q \<equiv> fold mq_exec ls q"

text \<open>A message the group still owes its consumers: not given out yet, or given out and pending.\<close>

definition mq_owed :: "mem_queue \<Rightarrow> string \<Rightarrow> string \<Rightarrow> QueueMessage \<Rightarrow> bool" where
  "mq_owed q s g msg \<longleftrightarrow>
     msg \<in> set (drop (mq_delivered q s g) (mq_log q s)) \<or> mq_pend q s g (qm_ID msg) = Some msg"

lemma mq_inv_exec: "mq_inv q \<Longrightarrow> mq_label_ok l \<Longrightarrow> mq_inv (mq_exec l q)"
  by (cases l) (auto simp: mq_inv_publish mq_inv_create_group mq_inv_read_locked mq_inv_ack
      dest: mq_claim_frame [OF _ _ surjective_pairing])

lemma mq_inv_run: "mq_inv q \<Longrightarrow> list_all mq_label_ok ls \<Longrightarrow> mq_inv (mq_run ls q)"
  by (induction ls arbitrary: q) (simp_all add: mq_inv_exec)

lemma put_group_grp_keeps: "mq_grp q s g \<noteq> None \<Longrightarrow> mq_grp (put_group s' g' grp q) s g \<noteq> None"
  by simp

lemma grp_exec: "mq_grp q s g \<noteq> None \<Longrightarrow> mq_inv q \<Longrightarrow> mq_label_ok l \<Longrightarrow> mq_grp (mq_exec l q) s g \<noteq> None"
proof (cases l)
  case (LPublish e s' vo)
  assume "mq_grp q s g \<noteq> None" "mq_inv q"
  then show ?thesis
    using mq_publish_frame [of q e s' vo] mq_publish_error [of e s' vo q] LPublish
    by (cases "mq_PublishEvent e s' vo q"; cases "fst (mq_PublishEvent e s' vo q)") auto
next
  case (LCreate e s' g' i)
  assume "mq_grp q s g \<noteq> None" "mq_inv q"
  then show ?thesis
    using mq_create_frame [OF _ surjective_pairing] LCreate by simp
next
  case (LRead now s' g' c cnt)
  assume "mq_grp q s g \<noteq> None" "mq_inv q"
  then show ?thesis
    using read_locked_cases [OF _ surjective_pairing, of q now s' g' c cnt] LRead
    by (metis mq_exec.simps(3) put_group_grp_keeps)
next
  case (LAck e s' g' ids)
  assume "mq_grp q s g \<noteq> None"
  then show ?thesis
    using ack_cases [OF surjective_pairing, of e s' g' ids q] LAck
    by (metis mq_exec.simps(4) put_group_grp_keeps)
next
  case (LClaim e s' g' c idle i cnt)
  assume "mq_grp q s g \<noteq> None" "mq_inv q" "mq_label_ok l"
  then show ?thesis
    using claim_cases [OF _ _ surjective_pairing, of q e s' g' c idle i cnt] LClaim
    by (metis mq_exec.simps(5) mq_label_ok.simps(1) put_group_grp_keeps)
qed

lemma pend_in_log:
  assumes "mq_inv q" "mq_pend q s g i = Some msg"
  shows "msg \<in> set (mq_log q s) \<and> qm_ID msg = i"
proof -
  obtain grp pe where grp: "mq_grp q s g = Some grp" "map_of (mg_pending grp) i = Some pe" "pe_msg pe = msg"
    using assms(2) by (auto simp: mq_pend_def split: option.splits)
  have "grp_ok (mq_log q s) grp" by (rule mq_inv_group [OF assms(1) grp(1)])
  then have "qm_ID (pe_msg pe) = i \<and> pe_msg pe \<in> set (take (nat (mg_lastDeliveredIdx grp + 1)) (mq_log q s))"
    using grp(2) by (simp only: grp_ok_def)
  then show ?thesis using grp(3) in_set_takeD by metis
qed

lemma owed_exec:
  assumes "mq_inv q" "mq_label_ok l" "mq_grp q s g \<noteq> None" "mq_owed q s g msg" "\<not> mq_acks l s g (qm_ID msg)"
  shows "mq_owed (mq_exec l q) s g msg"
proof (cases l)
  case (LPublish e s' vo)
  obtain r q' where p: "mq_PublishEvent e s' vo q = (r, q')" by fastforce
  show ?thesis
  proof (cases r)
    case (Inl err)
    with p mq_publish_error have "q' = q" by blast
    then show ?thesis using p LPublish assms(4) by simp
  next
    case (Inr i)
    with mq_publish_frame [OF assms(1)] p obtain m where
      "mq_pend q' = mq_pend q" "mq_log q' = (mq_log q)(s' := mq_log q s' @ [m])"
      "mq_delivered q' s g = mq_delivered q s g" by metis
    then show ?thesis using p LPublish assms(4) by (auto simp: mq_owed_def)
  qed
next
  case (LCreate e s' g' i)
  have "mq_log (mq_exec l q) = mq_log q" "mq_pend (mq_exec l q) = mq_pend q"
    "mq_grp (mq_exec l q) s g = mq_grp q s g"
    using mq_create_frame [OF assms(1) surjective_pairing, of e s' g' i] assms(3) LCreate by auto
  then show ?thesis using assms(4) by (simp add: mq_owed_def mq_delivered_def)
next
  case (LRead now s' g' c cnt)
  obtain r q' where p: "mq_read_locked now s' g' c cnt q = (r, q')" by fastforce
  note f = mq_read_locked_frame [OF assms(1) p]
  show ?thesis
  proof (cases "s' = s \<and> g' = g")
    case False
    then have "mq_grp q' s g = mq_grp q s g" "mq_log q' = mq_log q" using f by metis+
    then have "mq_owed q' s g msg = mq_owed q s g msg"
      by (simp only: mq_owed_def mq_delivered_def mq_pend_def)
    then show ?thesis using assms(4) p LRead by simp
  next
    case same: True
    show ?thesis
    proof (cases "\<exists>ms. r = Inr (Some ms)")
      case False
      then have "mq_pend q' = mq_pend q" "mq_delivered q' s g = mq_delivered q s g" "mq_log q' = mq_log q"
        using f same by (auto split: sum.splits option.splits)
      then show ?thesis using assms(4) p LRead by (simp add: mq_owed_def)
    next
      case True
      then obtain ms k where ms: "ms = take k (drop (mq_delivered q s g) (mq_log q s))"
        "mq_delivered q' s g = mq_delivered q s g + k" "mq_log q' = mq_log q"
        "\<forall>msg \<in> set ms. mq_pend q' s g (qm_ID msg) = Some msg"
        "\<forall>i. i \<notin> qm_ID ` set ms \<longrightarrow> mq_pend q' s g i = mq_pend q s g i"
        using f same by auto
      let ?L = "mq_log q s" and ?d = "mq_delivered q s g"
      have dist: "distinct (map qm_ID ?L)"
        using mq_inv_stream [OF assms(1), of s] by (simp add: stream_ok_def mq_log_def)
      have split: "set (drop ?d ?L) = set ms \<union> set (drop (?d + k) ?L)"
        using ms(1) by (metis add.commute append_take_drop_id drop_drop set_append)
      have kept: "mq_pend q' s g (qm_ID msg) = Some msg" if "mq_pend q s g (qm_ID msg) = Some msg"
      proof (cases "qm_ID msg \<in> qm_ID ` set ms")
        case True
        then obtain m where m: "m \<in> set ms" "qm_ID m = qm_ID msg" by auto
        have "msg \<in> set ?L"
          using pend_in_log [OF assms(1) that] by simp
        moreover have "m \<in> set ?L" using m(1) ms(1) by (meson in_set_dropD in_set_takeD)
        ultimately have "m = msg" using dist m(2) by (auto simp: distinct_map dest: inj_onD)
        then show ?thesis using ms(4) m(1) by blast
      qed (use ms(5) that in simp)
      have "mq_owed q' s g msg"
        using assms(4) split ms(2-4) kept unfolding mq_owed_def by (metis Un_iff)
      then show ?thesis using p LRead by simp
    qed
  qed
next
  case (LAck e s' g' ids)
  have f: "mq_log (mq_exec l q) = mq_log q" "mq_delivered (mq_exec l q) s g = mq_delivered q s g"
    "mq_pend (mq_exec l q) s g (qm_ID msg) = mq_pend q s g (qm_ID msg)"
    using mq_ack_frame [OF assms(1) surjective_pairing, of e s' g' ids] assms(5) LAck by auto
  then show ?thesis using assms(4) by (simp add: mq_owed_def)
next
  case (LClaim e s' g' c idle i cnt)
  have "mq_log (mq_exec l q) = mq_log q" "mq_delivered (mq_exec l q) s g = mq_delivered q s g"
    "mq_pend (mq_exec l q) = mq_pend q"
    using mq_claim_frame [OF assms(1) _ surjective_pairing, of e s' g' c idle i cnt] assms(2) LClaim by auto
  then show ?thesis using assms(4) by (simp add: mq_owed_def)
qed

text \<open>The queues of the examples: one published event, read by a consumer of the group.\<close>

definition qenv :: "int \<Rightarrow> env" where
  "qenv now = \<lparr>e_ctx = None, e_now = now, e_ord = (\<lambda>n. [0..<n])\<rparr>"

definition queue1 :: mem_queue where
  "queue1 = mq_run [LCreate (qenv 0) ''st'' ''gr'' ''0'', LPublish (qenv 0) ''st'' (Some event0),
     LPublish (qenv 0) ''st'' (Some event0)] NewMemoryStreamQueue"

definition queue2 :: mem_queue where
  "queue2 = mq_exec (LRead 5 ''st'' ''gr'' ''c1'' 1) queue1"

lemma queue1_inv: "mq_inv queue1"
  unfolding queue1_def by (rule mq_inv_run) simp_all

lemma queue2_inv: "mq_inv queue2"
  unfolding queue2_def using queue1_inv by (simp add: mq_inv_read_locked)

lemmas queue_run_eval = queue1_def queue2_def qenv_def NewMemoryStreamQueue_def mq_PublishEvent_def
  mq_CreateConsumerGroup_def mq_read_locked_def getOrCreateStreamLocked_def put_stream_def
  empty_stream_def Let_def deliver_pending_def mq_views wrap64_def mq_AutoClaim_def mq_AckEvent_def

lemmas queue_eval = queue_run_eval queue_message_def event0_def show_int_def show_nat.simps
  time_UnixMilli_def digit_char_def

section \<open>Waking up\<close>

text \<open>
  The channels of a stream are never reopened, and the current one is replaced only by a publication,
  which closes it.
\<close>

definition chans_move :: "memStream \<Rightarrow> memStream \<Rightarrow> bool" where
  "chans_move st st' \<longleftrightarrow>
     length (ms_chans st) \<le> length (ms_chans st') \<and>
     (\<forall>ch < length (ms_chans st). ms_chans st ! ch \<longrightarrow> ms_chans st' ! ch)"

lemma chans_move_same: "ms_chans st' = ms_chans st \<Longrightarrow> chans_move st st'"
  by (simp add: chans_move_def)

lemma chans_put_group:
  "ms_chans (getOrCreateStreamLocked s (put_group s' g grp q)) = ms_chans (getOrCreateStreamLocked s q)"
  "ms_notifyCh (getOrCreateStreamLocked s (put_group s' g grp q)) = ms_notifyCh (getOrCreateStreamLocked s q)"
  by (simp_all add: put_group_def Let_def)

lemma chans_published: "chans_move st (published_stream qm st)"
proof -
  have "(ms_chans st @ [False])[ms_notifyCh st := True] ! ch" if "ch < length (ms_chans st)" "ms_chans st ! ch" for ch
    using that by (cases "ms_notifyCh st = ch") (simp_all add: nth_append)
  then show ?thesis by (simp add: chans_move_def published_stream_def)
qed

lemma chans_exec:
  assumes "mq_inv q" "mq_label_ok l"
  shows "chans_move (getOrCreateStreamLocked s q) (getOrCreateStreamLocked s (mq_exec l q))"
proof (cases l)
  case (LPublish e s' vo)
  obtain r q' where p: "mq_PublishEvent e s' vo q = (r, q')" by fastforce
  show ?thesis
  proof (cases r)
    case (Inl err)
    with p mq_publish_error have "q' = q" by blast
    then show ?thesis using p LPublish by (simp add: chans_move_same)
  next
    case (Inr i)
    then obtain v where "q' = put_stream s' (published_stream (queue_message (e_now e) (mq_seq q + 1) v)
        (getOrCreateStreamLocked s' q)) (q\<lparr>mq_seq := mq_seq q + 1\<rparr>)"
      using mq_publish_ok p by metis
    then show ?thesis using p LPublish by (simp add: chans_published chans_move_same)
  qed
next
  case (LCreate e s' g' i)
  show ?thesis
    unfolding LCreate
    by (rule chans_move_same) (auto simp: mq_CreateConsumerGroup_def Let_def split: option.split)
next
  case (LRead now s' g' c cnt)
  then show ?thesis
    using read_locked_cases [OF assms(1) surjective_pairing, of now s' g' c cnt]
    by (metis chans_move_same chans_put_group(1) mq_exec.simps(3))
next
  case (LAck e s' g' ids)
  then show ?thesis
    using ack_cases [OF surjective_pairing, of e s' g' ids q]
    by (metis chans_move_same chans_put_group(1) mq_exec.simps(4))
next
  case (LClaim e s' g' c idle i cnt)
  then have ord: "range_order_ok (e_ord e)" using assms(2) by simp
  show ?thesis
    using claim_cases [OF assms(1) ord surjective_pairing, of s' g' c idle i cnt] LClaim
    by (metis chans_move_same chans_put_group(1) mq_exec.simps(5))
qed

lemma closed_stays:
  assumes "mq_inv q" "list_all mq_label_ok ls" "channel_closed q s ch"
  shows "channel_closed (mq_run ls q) s ch"
  using assms
proof (induction ls arbitrary: q)
  case (Cons l ls)
  have "channel_closed (mq_exec l q) s ch"
    using chans_exec [OF Cons.prems(1), of l s] Cons.prems(2,3)
    by (auto simp: chans_move_def channel_closed_def Let_def)
  then show ?case using Cons.IH Cons.prems(1,2) mq_inv_exec by simp
qed simp

text \<open>A publication closes the channel that was current.\<close>

lemma publish_closes:
  assumes "mq_inv q" "live e" "s \<noteq> ''''"
  shows "channel_closed (mq_exec (LPublish e s (Some v)) q) s (ms_notifyCh (getOrCreateStreamLocked s q))"
proof -
  have "ms_notifyCh (getOrCreateStreamLocked s q) < length (ms_chans (getOrCreateStreamLocked s q))"
    using mq_inv_stream [OF assms(1), of s] by (simp add: stream_ok_def)
  then show ?thesis
    using assms(2,3) by (simp add: mq_PublishEvent_def channel_closed_def Let_def nth_append)
qed

text \<open>Nothing but a publication to the stream replaces its current channel.\<close>

fun publishes :: "string \<Rightarrow> mq_label \<Rightarrow> bool" where
  "publishes s (LPublish e s' vo) = (s' = s \<and> vo \<noteq> None \<and> live e)"
| "publishes s l = False"

lemma notify_exec:
  assumes "mq_inv q" "mq_label_ok l" "\<not> publishes s l"
  shows "ms_notifyCh (getOrCreateStreamLocked s (mq_exec l q)) = ms_notifyCh (getOrCreateStreamLocked s q)"
proof (cases l)
  case (LPublish e s' vo)
  then show ?thesis
    using assms(3) by (auto simp: mq_PublishEvent_def Let_def split: option.split)
next
  case (LCreate e s' g' i)
  then show ?thesis by (auto simp: mq_CreateConsumerGroup_def Let_def split: option.split)
next
  case (LRead now s' g' c cnt)
  then show ?thesis
    using read_locked_cases [OF assms(1) surjective_pairing, of now s' g' c cnt]
    by (metis chans_put_group(2) mq_exec.simps(3))
next
  case (LAck e s' g' ids)
  then show ?thesis
    using ack_cases [OF surjective_pairing, of e s' g' ids q] by (metis chans_put_group(2) mq_exec.simps(4))
next
  case (LClaim e s' g' c idle i cnt)
  then have ord: "range_order_ok (e_ord e)" using assms(2) by simp
  show ?thesis
    using claim_cases [OF assms(1) ord surjective_pairing, of s' g' c idle i cnt] LClaim
    by (metis chans_put_group(2) mq_exec.simps(5))
qed

lemma run_closes:
  assumes "mq_inv q" "list_all mq_label_ok ls" "\<exists>l \<in> set ls. publishes s l" "s \<noteq> ''''"
  shows "channel_closed (mq_run ls q) s (ms_notifyCh (getOrCreateStreamLocked s q))"
  using assms
proof (induction ls arbitrary: q)
  case (Cons l ls)
  have q1: "mq_inv (mq_exec l q)" using Cons.prems by (simp add: mq_inv_exec)
  show ?case
  proof (cases "publishes s l")
    case True
    then obtain e v where "l = LPublish e s (Some v)" "live e" by (cases l) auto
    then have "channel_closed (mq_exec l q) s (ms_notifyCh (getOrCreateStreamLocked s q))"
      using publish_closes [OF Cons.prems(1) _ Cons.prems(4)] by metis
    then show ?thesis using closed_stays [OF q1] Cons.prems(2) by simp
  next
    case False
    then have "ms_notifyCh (getOrCreateStreamLocked s (mq_exec l q)) = ms_notifyCh (getOrCreateStreamLocked s q)"
      using notify_exec [OF Cons.prems(1)] Cons.prems(2) by simp
    then show ?thesis using Cons.IH [OF q1] Cons.prems False by simp
  qed
qed simp

text \<open>Without a publication to the stream the current channel stays, and stays open.\<close>

lemma run_stays_open:
  assumes "mq_inv q" "list_all mq_label_ok ls" "\<forall>l \<in> set ls. \<not> publishes s l"
  shows "ms_notifyCh (getOrCreateStreamLocked s (mq_run ls q)) = ms_notifyCh (getOrCreateStreamLocked s q) \<and>
    \<not> channel_closed (mq_run ls q) s (ms_notifyCh (getOrCreateStreamLocked s q))"
proof -
  have "ms_notifyCh (getOrCreateStreamLocked s (mq_run ls q)) = ms_notifyCh (getOrCreateStreamLocked s q)"
    using assms
  proof (induction ls arbitrary: q)
    case (Cons l ls)
    then show ?case using mq_inv_exec notify_exec by simp
  qed simp
  moreover have "\<not> channel_closed q' s (ms_notifyCh (getOrCreateStreamLocked s q'))" if "mq_inv q'" for q'
    using mq_inv_stream [OF that, of s] by (simp add: stream_ok_def channel_closed_def Let_def)
  ultimately show ?thesis using mq_inv_run [OF assms(1,2)] by metis
qed

text \<open>A blocking reader that finds nothing and waits for the channel.\<close>

lemma reader_waits:
  assumes "mq_inv q" "rr_others r q0 = q" "live (rr_env r)" "s \<noteq> ''''" "g \<noteq> ''''"
    and "mq_delivered q s g = length (mq_log q s)" "0 < block" "rr_until r < e_now e + block" "rr_wake r = WakeNotify"
    and "mq_read_locked (e_now (rr_env r)) s g c (if cnt \<le> 0 then 10 else cnt) q = (r1, q1)"
  shows "mq_inv q1 \<and> mq_log q1 = mq_log q \<and> mq_delivered q1 s g = mq_delivered q s g \<and>
    mq_ReadEvents (r # rs) e s g c cnt block q0 =
      (if channel_closed (rr_waits r q1) s (ms_notifyCh (getOrCreateStreamLocked s q1))
       then mq_ReadEvents rs e s g c cnt block (rr_waits r q1) else (None, rr_waits r q1))"
proof (cases rule: read_locked_cases [OF assms(1,10)])
  case 1
  have f: "mq_inv q1 \<and> mq_log q1 = mq_log q \<and> mq_delivered q1 s g = mq_delivered q s g"
    using mq_read_locked_frame [OF assms(1,10)] 1 by simp
  show ?thesis using f 1 assms(2-5,7-10) by (simp add: mq_ReadEvents_def Let_def)
next
  case (2 err)
  then show ?thesis using assms(6,10) group_or_new_ok [OF assms(1), of s g]
    by (auto simp: mq_read_locked_def Let_def group_or_new_def delivered_group grp_ok_def mq_log_def mq_grp_def
        split: if_splits)
next
  case (3 ms k)
  then show ?thesis using assms(6) by simp
qed

lemma read_next_batch:
  assumes "mq_inv q" "rr_others r q0 = q" "live (rr_env r)" "s \<noteq> ''''" "g \<noteq> ''''"
    and "mq_delivered q s g < length (mq_log q s)" "0 < cnt" "int (length (mq_log q s)) + cnt < 2 ^ 63"
    and "mq_ReadEvents (r # rs) e s g c cnt block q0 = (res, q')"
  shows "\<exists>ms. res = Some (Inr ms) \<and> ms \<noteq> [] \<and>
     ms = take (nat cnt) (drop (mq_delivered q s g) (mq_log q s)) \<and>
     mq_delivered q' s g = mq_delivered q s g + length ms \<and> mq_log q' = mq_log q \<and>
     (\<forall>msg \<in> set ms. mq_pend q' s g (qm_ID msg) = Some msg)"
proof -
  let ?d = "mq_delivered q s g" and ?L = "mq_log q s"
  obtain r1 q1 where r1: "mq_read_locked (e_now (rr_env r)) s g c cnt q = (r1, q1)" by fastforce
  have w: "wrap64 (int ?d + cnt) = int ?d + cnt"
    using assms(6-8) by (intro wrap64_id) (simp add: int64_ok_def)
  obtain ms k where ms: "r1 = Inr (Some ms)" "ms = take k (drop ?d ?L)"
    and k: "k = nat (min (int (length ?L)) (int ?d + cnt) - int ?d)"
  proof (rule read_locked_cases [OF assms(1) r1])
    fix err assume "r1 = Inl err"
    moreover have "\<not> (min (int (length ?L)) (int ?d + cnt) < int ?d)" using assms(6,7) by auto
    ultimately show thesis
      using r1 w assms(6,7) group_or_new_ok [OF assms(1), of s g]
      by (simp add: mq_read_locked_def Let_def group_or_new_def delivered_group grp_ok_def
          mq_log_def mq_grp_def split: if_splits)
  next
    fix ms k
    assume "r1 = Inr (Some ms)" "ms = take k (drop ?d ?L)"
      "k = nat (min (int (length ?L)) (wrap64 (int ?d + cnt)) - int ?d)"
    then show thesis using that w by simp
  qed (use assms(6) in simp)
  have res: "res = Some (Inr ms)" "q' = q1"
    using assms(2-5,7,9) r1 ms(1) by (simp_all add: mq_ReadEvents_def Let_def)
  have take: "ms = take (nat cnt) (drop ?d ?L)" and len: "length ms = k"
  proof -
    show "length ms = k" using ms(2) k by auto
    show "ms = take (nat cnt) (drop ?d ?L)"
      using ms(2) k assms(6,7) by (cases "int (length ?L) \<le> int ?d + cnt") (auto simp: min_def nat_le_iff)
  qed
  have "ms \<noteq> []" using take assms(6,7) by simp
  moreover obtain k' where "ms = take k' (drop ?d ?L)" "mq_delivered q1 s g = ?d + k'" "k' \<le> length ?L - ?d"
    and frame: "mq_log q1 = mq_log q" "\<forall>msg \<in> set ms. mq_pend q1 s g (qm_ID msg) = Some msg"
    using mq_read_locked_frame [OF assms(1) r1] ms(1) by auto
  then have "mq_delivered q1 s g = ?d + length ms" by simp
  ultimately show ?thesis using res take frame by blast
qed

section \<open>Properties\<close>

text \<open>C10: a message that a consumer group owes, undelivered or pending, stays owed through any
  interleaving of publications, group creations, reads, claims and acknowledgements by any number
  of clients, as long as no acknowledgement in that group names it.\<close>

theorem owed_until_acked:
  assumes "mq_inv q" "list_all mq_label_ok ls" "mq_grp q s g \<noteq> None" "mq_owed q s g msg"
    and "list_all (\<lambda>l. \<not> mq_acks l s g (qm_ID msg)) ls"
  shows "mq_owed (mq_run ls q) s g msg"
  using assms
proof (induction ls arbitrary: q)
  case (Cons l ls)
  then have l: "mq_label_ok l" "\<not> mq_acks l s g (qm_ID msg)" by simp_all
  have "mq_owed (mq_run ls (mq_exec l q)) s g msg"
    using Cons.prems l
    by (intro Cons.IH mq_inv_exec grp_exec owed_exec) simp_all
  then show ?case by simp
qed simp

theorem owed_until_acked_witness:
  "mq_owed (mq_run [LRead 7 ''st'' ''gr'' ''c2'' 10, LAck (qenv 8) ''st'' ''gr'' [''-62135596800000-2'']] queue2)
     ''st'' ''gr'' (queue_message 0 1 event0)"
proof (rule owed_until_acked [OF queue2_inv])
  show "mq_grp queue2 ''st'' ''gr'' \<noteq> None"
    by (simp add: queue_eval)
  show "mq_owed queue2 ''st'' ''gr'' (queue_message 0 1 event0)"
    by (simp add: mq_owed_def queue_eval)
  show "list_all (\<lambda>l. \<not> mq_acks l ''st'' ''gr'' (qm_ID (queue_message 0 1 event0)))
     [LRead 7 ''st'' ''gr'' ''c2'' 10, LAck (qenv 8) ''st'' ''gr'' [''-62135596800000-2'']]"
    by (simp add: queue_eval)
qed simp

text \<open>C24: when a group has messages left, a read returns at once, whatever its block, with the next
  \<open>count\<close> messages of the log in publication order, moves the group's cursor past exactly those, and
  leaves them all pending: no message is skipped and none is given out twice.\<close>

theorem read_next_in_order:
  assumes "mq_inv q" "rr_others r q0 = q" "live (rr_env r)" "s \<noteq> ''''" "g \<noteq> ''''"
    and "mq_delivered q s g < length (mq_log q s)" "0 < cnt" "int (length (mq_log q s)) + cnt < 2 ^ 63"
    and "mq_ReadEvents (r # rs) e s g c cnt block q0 = (res, q')"
  shows "\<exists>ms. res = Some (Inr ms) \<and> ms \<noteq> [] \<and>
     ms = take (nat cnt) (drop (mq_delivered q s g) (mq_log q s)) \<and>
     mq_delivered q' s g = mq_delivered q s g + length ms \<and> mq_log q' = mq_log q \<and>
     (\<forall>msg \<in> set ms. mq_pend q' s g (qm_ID msg) = Some msg)"
  by (rule read_next_batch [OF assms])

theorem read_next_in_order_witness:
  "\<exists>ms q'. mq_ReadEvents [\<lparr>rr_env = qenv 9, rr_others = id, rr_until = 9, rr_waits = id, rr_wake = WakeTimer\<rparr>] (qenv 9)
       ''st'' ''gr'' ''c1'' 10 0 queue2 = (Some (Inr ms), q') \<and>
     ms = take 10 (drop 1 (mq_log queue2 ''st'')) \<and> ms \<noteq> []"
proof -
  let ?r = "\<lparr>rr_env = qenv 9, rr_others = id, rr_until = 9, rr_waits = id, rr_wake = WakeTimer\<rparr>"
  obtain res q' where p: "mq_ReadEvents [?r] (qenv 9) ''st'' ''gr'' ''c1'' 10 0 queue2 = (res, q')"
    by fastforce
  have "mq_delivered queue2 ''st'' ''gr'' = 1" "length (mq_log queue2 ''st'') = 2"
    by (simp_all add: queue_eval)
  with read_next_in_order [OF queue2_inv _ _ _ _ _ _ _ p] show ?thesis
    using p by (auto simp: qenv_def)
qed

text \<open>At every reachable queue the messages of a stream have pairwise different identifiers.\<close>

theorem message_ids_unique:
  assumes "list_all mq_label_ok ls"
  shows "distinct (map qm_ID (mq_log (mq_run ls NewMemoryStreamQueue) s))"
  using mq_inv_stream [OF mq_inv_run [OF mq_inv_new assms], of s] by (simp add: stream_ok_def mq_log_def)

theorem message_ids_unique_witness:
  "distinct (map qm_ID (mq_log queue1 ''st'')) \<and> length (mq_log queue1 ''st'') = 2"
  unfolding queue1_def
  using message_ids_unique [of "[LCreate (qenv 0) ''st'' ''gr'' ''0'', LPublish (qenv 0) ''st'' (Some event0),
     LPublish (qenv 0) ''st'' (Some event0)]" "''st''"]
  by (simp add: queue_eval)

text \<open>The entry of a pending message, with its delivery time and consumer.\<close>

definition mq_entry :: "mem_queue \<Rightarrow> string \<Rightarrow> string \<Rightarrow> string \<Rightarrow> memPendingEntry option" where
  "mq_entry q s g i = (case mq_grp q s g of None \<Rightarrow> None | Some grp \<Rightarrow> map_of (mg_pending grp) i)"

lemma claim_facts:
  assumes "mq_inv q" "env_ok e" "mq_AutoClaim e s g c idle i0 cnt q = (Inr (ms, i1), q')"
  shows "distinct (map qm_ID ms) \<and> length ms \<le> nat (if cnt \<le> 0 then 10 else cnt) \<and>
     (\<forall>msg \<in> set ms. \<exists>pe. mq_entry q s g (qm_ID msg) = Some pe \<and> pe_msg pe = msg \<and>
        idle \<le> e_now e - pe_deliveryTime pe) \<and>
     (length ms < nat (if cnt \<le> 0 then 10 else cnt) \<longrightarrow>
        (\<forall>i pe. mq_entry q s g i = Some pe \<longrightarrow> idle \<le> e_now e - pe_deliveryTime pe \<longrightarrow> pe_msg pe \<in> set ms)) \<and>
     (\<forall>i. mq_entry q' s g i = (if i \<in> qm_ID ` set ms
        then map_option (\<lambda>pe. pe\<lparr>pe_deliveryTime := e_now e, pe_consumer := c\<rparr>) (mq_entry q s g i)
        else mq_entry q s g i))"
proof (rule claim_cases [OF assms(1) _ assms(3)])
  show "range_order_ok (e_ord e)" using assms(2) by simp
next
  fix grp es picked p'
  assume g: "mq_grp q s g = Some grp" and es: "mset es = mset (mg_pending grp)"
    and picked: "picked = take (nat (if cnt \<le> 0 then 10 else cnt))
         (filter (\<lambda>(i, pe). e_now e - pe_deliveryTime pe \<ge> idle) es)"
    and r: "Inr (ms, i1) = Inr (map (pe_msg \<circ> snd) picked, ''0-0'')"
    and p': "\<And>j. map_of p' j = (case map_of picked j of
          Some pe \<Rightarrow> Some \<lparr>pe_msg = pe_msg pe, pe_deliveryTime = e_now e, pe_consumer = c\<rparr>
        | None \<Rightarrow> map_of (mg_pending grp) j)"
    and sub: "set picked \<subseteq> set (mg_pending grp)" and dist: "distinct (map fst picked)"
    and q': "q' = put_group s g (grp\<lparr>mg_pending := p'\<rparr>) q"
  let ?n = "nat (if cnt \<le> 0 then 10 else cnt)"
  let ?f = "filter (\<lambda>(i, pe). e_now e - pe_deliveryTime pe \<ge> idle) es"
  have ok: "grp_ok (mq_log q s) grp" by (rule mq_inv_group [OF assms(1) g])
  have ms: "ms = map (pe_msg \<circ> snd) picked" using r by simp
  have entry: "mq_entry q s g i = Some pe \<longleftrightarrow> (i, pe) \<in> set (mg_pending grp)" for i pe
    using ok g by (simp add: mq_entry_def grp_ok_def gomap_in_set)
  have key: "qm_ID (pe_msg pe) = i" if "(i, pe) \<in> set (mg_pending grp)" for i pe
    using that ok by (simp add: grp_ok_def gomap_in_set)
  have setes: "set es = set (mg_pending grp)" using es by (metis set_mset_mset)
  have keys: "map qm_ID ms = map fst picked"
    unfolding ms using key sub by (auto simp: comp_def)
  have idle: "idle \<le> e_now e - pe_deliveryTime pe" if "(i, pe) \<in> set picked" for i pe
    using that unfolding picked by (auto dest!: in_set_takeD)
  have "length ms \<le> ?n" unfolding ms picked by simp
  moreover have "\<exists>pe. mq_entry q s g (qm_ID msg) = Some pe \<and> pe_msg pe = msg \<and>
        idle \<le> e_now e - pe_deliveryTime pe" if "msg \<in> set ms" for msg
  proof -
    have "msg \<in> (pe_msg \<circ> snd) ` set picked" using that ms by simp
    then obtain i pe where m: "(i, pe) \<in> set picked" "msg = pe_msg pe" by auto
    then have "(i, pe) \<in> set (mg_pending grp)" "qm_ID msg = i" using sub key by auto
    then show ?thesis using m idle entry by blast
  qed
  moreover have "pe_msg pe \<in> set ms"
    if "length ms < ?n" "mq_entry q s g i = Some pe" "idle \<le> e_now e - pe_deliveryTime pe" for i pe
  proof -
    have "length ?f < ?n" using that(1) unfolding ms picked by simp
    then have "picked = ?f" unfolding picked by simp
    moreover have "(i, pe) \<in> set ?f" using that(2,3) entry setes by simp
    ultimately show ?thesis unfolding ms by force
  qed
  moreover have "mq_entry q' s g i = (if i \<in> qm_ID ` set ms
        then map_option (\<lambda>pe. pe\<lparr>pe_deliveryTime := e_now e, pe_consumer := c\<rparr>) (mq_entry q s g i)
        else mq_entry q s g i)" for i
  proof -
    have e': "mq_entry q' s g i = map_of p' i" by (simp add: mq_entry_def q')
    have dom: "i \<in> qm_ID ` set ms \<longleftrightarrow> map_of picked i \<noteq> None"
      by (metis keys map_of_eq_None_iff set_map)
    show ?thesis
    proof (cases "map_of picked i")
      case (Some pe)
      then have "mq_entry q s g i = Some pe" using entry sub map_of_SomeD by fastforce
      then show ?thesis using Some dom e' p' [of i] by (cases pe) simp
    next
      case None
      then show ?thesis using dom e' p' [of i] g by (simp add: mq_entry_def)
    qed
  qed
  ultimately show ?thesis using dist keys by simp
qed (auto simp: mq_entry_def)

text \<open>C25: claiming returns only messages that have been pending for at least the given time, each
  once and at most \<open>count\<close> (10 when it is not positive), and all of those when fewer than \<open>count\<close> are
  returned; the claimed entries pass to the claiming consumer with the clock reset, every other
  entry is unchanged.\<close>

theorem auto_claim_spec:
  assumes "mq_inv q" "env_ok e" "mq_AutoClaim e s g c idle i0 cnt q = (Inr (ms, i1), q')"
  shows "distinct (map qm_ID ms) \<and> length ms \<le> nat (if cnt \<le> 0 then 10 else cnt) \<and>
     (\<forall>msg \<in> set ms. \<exists>pe. mq_entry q s g (qm_ID msg) = Some pe \<and> pe_msg pe = msg \<and>
        idle \<le> e_now e - pe_deliveryTime pe) \<and>
     (length ms < nat (if cnt \<le> 0 then 10 else cnt) \<longrightarrow>
        (\<forall>i pe. mq_entry q s g i = Some pe \<longrightarrow> idle \<le> e_now e - pe_deliveryTime pe \<longrightarrow> pe_msg pe \<in> set ms)) \<and>
     (\<forall>i. mq_entry q' s g i = (if i \<in> qm_ID ` set ms
        then map_option (\<lambda>pe. pe\<lparr>pe_deliveryTime := e_now e, pe_consumer := c\<rparr>) (mq_entry q s g i)
        else mq_entry q s g i))"
  by (rule claim_facts [OF assms])

theorem auto_claim_spec_witness:
  "\<exists>ms i1 q' pe. mq_AutoClaim (qenv 100) ''st'' ''gr'' ''c2'' 50 ''0'' 10 queue2 = (Inr (ms, i1), q') \<and>
     length ms = 1 \<and> mq_entry q' ''st'' ''gr'' (qm_ID (queue_message 0 1 event0)) = Some pe \<and>
     pe_consumer pe = ''c2'' \<and> pe_deliveryTime pe = 100"
proof -
  obtain ms i1 q' where p: "mq_AutoClaim (qenv 100) ''st'' ''gr'' ''c2'' 50 ''0'' 10 queue2 = (Inr (ms, i1), q')"
    and m: "ms = [queue_message 0 1 event0]"
    by (simp add: queue_run_eval queue_message_def)
  have "mq_entry queue2 ''st'' ''gr'' (qm_ID (queue_message 0 1 event0)) \<noteq> None"
    by (simp add: queue_run_eval mq_entry_def queue_message_def)
  then show ?thesis
    using auto_claim_spec [OF queue2_inv _ p] p m by (auto simp: qenv_def)
qed

text \<open>C26: no lost wake-up. A blocking read that finds nothing waits on the channel it took under the lock,
  while any number of other clients publish, read, acknowledge, claim and create groups. If one of them
  publishes to its stream, the read wakes up: when messages of its group are left as its next round
  takes the lock, it returns the next \<open>count\<close> of them and leaves them pending. If nobody does, it is still
  waiting.\<close>

theorem no_lost_wakeup:
  assumes "mq_inv q" "rr_others r q0 = q" "live (rr_env r)" "s \<noteq> ''''" "g \<noteq> ''''"
    and "mq_delivered q s g = length (mq_log q s)" "0 < block" "rr_until r < e_now e + block" "rr_wake r = WakeNotify"
    and "mq_read_locked (e_now (rr_env r)) s g c cnt q = (r1, q1)"
    and "rr_waits r = mq_run ls" "list_all mq_label_ok ls"
    and "rr_others r2 = mq_run ls2" "list_all mq_label_ok ls2" "live (rr_env r2)" "mq_run ls2 (mq_run ls q1) = q2"
    and "0 < cnt" "int (length (mq_log q2 s)) + cnt < 2 ^ 63"
    and "mq_ReadEvents (r # r2 # rs) e s g c cnt block q0 = (res, q')"
  shows "if \<exists>l \<in> set ls. publishes s l
    then mq_delivered q2 s g < length (mq_log q2 s) \<longrightarrow>
      (\<exists>ms. res = Some (Inr ms) \<and> ms \<noteq> [] \<and> ms = take (nat cnt) (drop (mq_delivered q2 s g) (mq_log q2 s)) \<and>
         (\<forall>msg \<in> set ms. mq_pend q' s g (qm_ID msg) = Some msg))
    else res = None"
proof -
  have "mq_read_locked (e_now (rr_env r)) s g c (if cnt \<le> 0 then 10 else cnt) q = (r1, q1)" using assms(10,17) by simp
  note w = reader_waits [OF assms(1-9) this, of "r2 # rs", unfolded assms(11,19)]
  show ?thesis
  proof (cases "\<exists>l \<in> set ls. publishes s l")
    case True
    then have "channel_closed (mq_run ls q1) s (ms_notifyCh (getOrCreateStreamLocked s q1))"
      using run_closes w assms(4,12) by blast
    then have again: "mq_ReadEvents (r2 # rs) e s g c cnt block (mq_run ls q1) = (res, q')" using w by simp
    have inv: "mq_inv q2" using mq_inv_run w assms(12,14,16) by metis
    have "\<exists>ms. res = Some (Inr ms) \<and> ms \<noteq> [] \<and> ms = take (nat cnt) (drop (mq_delivered q2 s g) (mq_log q2 s)) \<and>
         (\<forall>msg \<in> set ms. mq_pend q' s g (qm_ID msg) = Some msg)" if "mq_delivered q2 s g < length (mq_log q2 s)"
      using read_next_batch [OF inv _ assms(15,4,5) that assms(17,18) again] assms(13,16) by auto
    then show ?thesis using True by simp
  next
    case False
    then have "\<not> channel_closed (mq_run ls q1) s (ms_notifyCh (getOrCreateStreamLocked s q1))"
      using run_stays_open w assms(12) by blast
    then show ?thesis using False w by auto
  qed
qed

theorem no_lost_wakeup_witness:
  "\<exists>ms q'. mq_ReadEvents
     [\<lparr>rr_env = qenv 9, rr_others = mq_exec (LRead 6 ''st'' ''gr'' ''c1'' 10), rr_until = 9,
       rr_waits = mq_run [LAck (qenv 9) ''st'' ''gr'' [''x''], LPublish (qenv 9) ''st'' (Some event0)], rr_wake = WakeNotify\<rparr>,
      \<lparr>rr_env = qenv 10, rr_others = mq_run [], rr_until = 10, rr_waits = id, rr_wake = WakeTimer\<rparr>]
     (qenv 8) ''st'' ''gr'' ''c2'' 10 5 queue2 = (Some (Inr ms), q') \<and> ms \<noteq> []"
proof -
  let ?r = "\<lparr>rr_env = qenv 9, rr_others = mq_exec (LRead 6 ''st'' ''gr'' ''c1'' 10), rr_until = 9,
       rr_waits = mq_run [LAck (qenv 9) ''st'' ''gr'' [''x''], LPublish (qenv 9) ''st'' (Some event0)], rr_wake = WakeNotify\<rparr>"
  let ?r2 = "\<lparr>rr_env = qenv 10, rr_others = mq_run [], rr_until = 10, rr_waits = id, rr_wake = WakeTimer\<rparr>"
  let ?q = "mq_exec (LRead 6 ''st'' ''gr'' ''c1'' 10) queue2"
  obtain r1 q1 where l: "mq_read_locked (e_now (rr_env ?r)) ''st'' ''gr'' ''c2'' 10 ?q = (r1, q1)" by fastforce
  obtain res q' where m: "mq_ReadEvents [?r, ?r2] (qenv 8) ''st'' ''gr'' ''c2'' 10 5 queue2 = (res, q')" by fastforce
  let ?ls = "[LAck (qenv 9) ''st'' ''gr'' [''x''], LPublish (qenv 9) ''st'' (Some event0)]"
  let ?q2 = "mq_run [] (mq_run ?ls q1)"
  have q: "mq_inv ?q" by (rule mq_inv_exec [OF queue2_inv]) simp
  have d: "mq_delivered ?q ''st'' ''gr'' = length (mq_log ?q ''st'')" by (simp add: queue_eval)
  have d2: "mq_delivered ?q2 ''st'' ''gr'' = 2" "length (mq_log ?q2 ''st'') = 3"
    using l by (auto simp: queue_eval)
  have "\<exists>l \<in> set ?ls. publishes ''st'' l" by (simp add: qenv_def)
  with no_lost_wakeup [OF q, of ?r queue2 "''st''" "''gr''" 5 "qenv 8" "''c2''" 10 r1 q1 ?ls ?r2 "[]" ?q2 "[]" res q'] d d2 l m
  show ?thesis by (auto simp: qenv_def)
qed

end
