(* ===== verification/Guard.thy ===== *)
theory Guard
  imports Repository
begin

text \<open>
  The interface of \<open>internal/idempotency/guard.go\<close>: a lock and a response cache per tenant and
  idempotency key. A value of the Go interface type is a record of operations over a state type.
  The contract is stated over one view of the state: what a key holds at a given time, where two
  pairs share one entry when the storage key \<open>kf\<close> the guard builds from them is the same.
\<close>

record CachedResponse =
  cr_StatusCode :: int
  cr_Body :: string
  cr_CompletedAt :: gotime

record 'g guard =
  gd_AcquireLock ::
    "env \<Rightarrow> string \<Rightarrow> string \<Rightarrow> duration \<Rightarrow> 'g \<Rightarrow> (goerr + bool \<times> CachedResponse option) \<times> 'g"
  gd_SetResponse :: "env \<Rightarrow> string \<Rightarrow> string \<Rightarrow> int \<Rightarrow> string \<Rightarrow> duration \<Rightarrow> 'g \<Rightarrow> goerr option \<times> 'g"
  gd_ReleaseLock :: "env \<Rightarrow> string \<Rightarrow> string \<Rightarrow> 'g \<Rightarrow> goerr option \<times> 'g"

datatype slot = Free | InFlight | Done CachedResponse

locale guard_contract =
  fixes G :: "'g guard"
    and kf :: "string \<Rightarrow> string \<Rightarrow> string"
    and slot_at :: "'g \<Rightarrow> string \<Rightarrow> gotime \<Rightarrow> slot"
    and ginv :: "'g \<Rightarrow> bool"
  assumes acquire_inv: "\<lbrakk>ginv g; gd_AcquireLock G e t k ttl g = (r, g')\<rbrakk> \<Longrightarrow> ginv g'"
    and set_inv: "\<lbrakk>ginv g; gd_SetResponse G e t k status body ttl g = (ro, g')\<rbrakk> \<Longrightarrow> ginv g'"
    and release_inv: "\<lbrakk>ginv g; gd_ReleaseLock G e t k g = (ro, g')\<rbrakk> \<Longrightarrow> ginv g'"
    and acquire_free:
      "\<lbrakk>live e; t \<noteq> ''''; k \<noteq> ''''; slot_at g (kf t k) (e_now e) = Free; gd_AcquireLock G e t k ttl g = (r, g')\<rbrakk>
         \<Longrightarrow> r = Inr (True, None) \<and>
             slot_at g' (kf t k) = (\<lambda>n. if n < e_now e + ttl then InFlight else Free)"
    and acquire_busy:
      "\<lbrakk>live e; t \<noteq> ''''; k \<noteq> ''''; slot_at g (kf t k) (e_now e) = InFlight; gd_AcquireLock G e t k ttl g = (r, g')\<rbrakk>
         \<Longrightarrow> r = Inr (False, None) \<and> g' = g"
    and acquire_done:
      "\<lbrakk>live e; t \<noteq> ''''; k \<noteq> ''''; slot_at g (kf t k) (e_now e) = Done c; gd_AcquireLock G e t k ttl g = (r, g')\<rbrakk>
         \<Longrightarrow> r = Inr (False, Some c) \<and> g' = g"
    and set_ok:
      "\<lbrakk>live e; t \<noteq> ''''; k \<noteq> ''''; gd_SetResponse G e t k status body ttl g = (ro, g')\<rbrakk>
         \<Longrightarrow> ro = None \<and>
             slot_at g' (kf t k) = (\<lambda>n. if n < e_now e + ttl
                then Done \<lparr>cr_StatusCode = status, cr_Body = body, cr_CompletedAt = e_now e\<rparr> else Free)"
    and release_ok:
      "\<lbrakk>ginv g; live e; t \<noteq> ''''; k \<noteq> ''''; gd_ReleaseLock G e t k g = (ro, g')\<rbrakk>
         \<Longrightarrow> ro = None \<and>
             slot_at g' (kf t k) = (\<lambda>n. if slot_at g (kf t k) n = InFlight then Free else slot_at g (kf t k) n)"
    and acquire_frame:
      "\<lbrakk>gd_AcquireLock G e t k ttl g = (r, g'); k' \<noteq> kf t k\<rbrakk> \<Longrightarrow> slot_at g' k' = slot_at g k'"
    and set_frame:
      "\<lbrakk>gd_SetResponse G e t k status body ttl g = (ro, g'); k' \<noteq> kf t k\<rbrakk> \<Longrightarrow> slot_at g' k' = slot_at g k'"
    and release_frame:
      "\<lbrakk>gd_ReleaseLock G e t k g = (ro, g'); k' \<noteq> kf t k\<rbrakk> \<Longrightarrow> slot_at g' k' = slot_at g k'"
    and acquire_dead: "e_ctx e = Some err \<Longrightarrow> gd_AcquireLock G e t k ttl g = (Inl err, g)"
    and set_dead: "e_ctx e = Some err \<Longrightarrow> gd_SetResponse G e t k status body ttl g = (Some err, g)"
    and release_dead: "e_ctx e = Some err \<Longrightarrow> gd_ReleaseLock G e t k g = (Some err, g)"
    and acquire_empty:
      "live e \<Longrightarrow> t = '''' \<or> k = '''' \<Longrightarrow> gd_AcquireLock G e t k ttl g = (Inl ErrInvalidParameters, g)"
    and set_empty:
      "live e \<Longrightarrow> t = '''' \<or> k = '''' \<Longrightarrow> gd_SetResponse G e t k status body ttl g = (Some ErrInvalidParameters, g)"
    and release_empty:
      "live e \<Longrightarrow> t = '''' \<or> k = '''' \<Longrightarrow> gd_ReleaseLock G e t k g = (Some ErrInvalidParameters, g)"
begin

text \<open>What an acquisition says of a key is what the key holds, and nothing else changes it.\<close>

lemma acquire_result:
  assumes "live e" "t \<noteq> ''''" "k \<noteq> ''''" "gd_AcquireLock G e t k ttl g = (r, g')"
  shows "r = Inr (case slot_at g (kf t k) (e_now e) of
      Free \<Rightarrow> (True, None) | InFlight \<Rightarrow> (False, None) | Done c \<Rightarrow> (False, Some c))"
proof (cases "slot_at g (kf t k) (e_now e)")
  case Free
  then show ?thesis using acquire_free [OF assms(1-3) _ assms(4)] by simp
next
  case InFlight
  then show ?thesis using acquire_busy [OF assms(1-3) _ assms(4)] by simp
next
  case (Done c)
  then show ?thesis using acquire_done [OF assms(1-3) _ assms(4)] by simp
qed

text \<open>A key that holds something at a time keeps it under every acquisition at that time.\<close>

lemma acquire_keeps:
  assumes "gd_AcquireLock G e t k ttl g = (r, g')" "slot_at g k' (e_now e) \<noteq> Free"
  shows "slot_at g' k' = slot_at g k'"
proof (cases "live e \<and> t \<noteq> '''' \<and> k \<noteq> '''' \<and> k' = kf t k")
  case True
  then show ?thesis
    using acquire_busy [OF _ _ _ _ assms(1)] acquire_done [OF _ _ _ _ assms(1)] assms(2)
    by (cases "slot_at g k' (e_now e)") auto
next
  case False
  then show ?thesis
    using acquire_frame [OF assms(1)] acquire_dead [of e] acquire_empty [of e t k ttl g] assms(1)
    by (cases "e_ctx e") auto
qed

end

end
