(* ===== verification/MemoryGuard.thy ===== *)
theory MemoryGuard
  imports Guard
begin

text \<open>
  The in-memory idempotency guard of \<open>internal/idempotency/guard.go\<close>, its interpretation of the
  guard contract, and its properties over any interleaving of calls: the lock excludes every
  other holder until it expires, a stored response is replayed until it expires, releasing
  frees the lock, and the collisions of the storage key.
\<close>

record memoryEntry =
  me_inFlight :: bool
  me_cached :: "CachedResponse option"
  me_expiresAt :: gotime

record memory_guard =
  gm_entries :: "(string, memoryEntry) gomap"

definition NewMemoryGuard :: memory_guard where
  "NewMemoryGuard = \<lparr>gm_entries = []\<rparr>"

definition memoryKey :: "string \<Rightarrow> string \<Rightarrow> string" where
  "memoryKey tenantID key = tenantID @ '':'' @ key"

definition gm_AcquireLock ::
    "env \<Rightarrow> string \<Rightarrow> string \<Rightarrow> duration \<Rightarrow> memory_guard \<Rightarrow>
       (goerr + bool \<times> CachedResponse option) \<times> memory_guard" where
  "gm_AcquireLock e tenantID key ttl m =
     (case e_ctx e of
        Some err \<Rightarrow> (Inl err, m)
      | None \<Rightarrow>
          if tenantID = '''' \<or> key = '''' then (Inl ErrInvalidParameters, m)
          else
            let k = memoryKey tenantID key;
                now = e_now e;
                acquire = (Inr (True, None),
                  m\<lparr>gm_entries := AList.update k
                      \<lparr>me_inFlight = True, me_cached = None, me_expiresAt = now + ttl\<rparr> (gm_entries m)\<rparr>)
            in (case map_of (gm_entries m) k of
                  None \<Rightarrow> acquire
                | Some entry \<Rightarrow>
                    if now < me_expiresAt entry then
                      (case me_cached entry of
                         Some cached \<Rightarrow> (Inr (False, Some cached), m)
                       | None \<Rightarrow> if me_inFlight entry then (Inr (False, None), m) else acquire)
                    else acquire))"

definition gm_SetResponse ::
    "env \<Rightarrow> string \<Rightarrow> string \<Rightarrow> int \<Rightarrow> string \<Rightarrow> duration \<Rightarrow> memory_guard \<Rightarrow> goerr option \<times> memory_guard" where
  "gm_SetResponse e tenantID key statusCode responseBody ttl m =
     (case e_ctx e of
        Some err \<Rightarrow> (Some err, m)
      | None \<Rightarrow>
          if tenantID = '''' \<or> key = '''' then (Some ErrInvalidParameters, m)
          else
            let k = memoryKey tenantID key;
                now = e_now e;
                cached = \<lparr>cr_StatusCode = statusCode, cr_Body = responseBody, cr_CompletedAt = now\<rparr>
            in (None, m\<lparr>gm_entries := AList.update k
                  \<lparr>me_inFlight = False, me_cached = Some cached, me_expiresAt = now + ttl\<rparr> (gm_entries m)\<rparr>))"

definition gm_ReleaseLock ::
    "env \<Rightarrow> string \<Rightarrow> string \<Rightarrow> memory_guard \<Rightarrow> goerr option \<times> memory_guard" where
  "gm_ReleaseLock e tenantID key m =
     (case e_ctx e of
        Some err \<Rightarrow> (Some err, m)
      | None \<Rightarrow>
          if tenantID = '''' \<or> key = '''' then (Some ErrInvalidParameters, m)
          else
            let k = memoryKey tenantID key in
            (case map_of (gm_entries m) k of
               None \<Rightarrow> (None, m)
             | Some entry \<Rightarrow>
                 if me_inFlight entry then (None, m\<lparr>gm_entries := AList.delete k (gm_entries m)\<rparr>)
                 else (None, m)))"

definition memory_guard_ops :: "memory_guard guard" where
  "memory_guard_ops =
     \<lparr>gd_AcquireLock = gm_AcquireLock, gd_SetResponse = gm_SetResponse, gd_ReleaseLock = gm_ReleaseLock\<rparr>"

section \<open>The contract\<close>

text \<open>
  What a storage key holds: an entry that has not expired, with its response or its lock.
\<close>

definition gm_slot :: "memory_guard \<Rightarrow> string \<Rightarrow> gotime \<Rightarrow> slot" where
  "gm_slot m k now =
     (case map_of (gm_entries m) k of
        None \<Rightarrow> Free
      | Some en \<Rightarrow>
          if now < me_expiresAt en
          then (case me_cached en of Some c \<Rightarrow> Done c | None \<Rightarrow> if me_inFlight en then InFlight else Free)
          else Free)"

text \<open>An entry in flight holds no response.\<close>

definition gm_inv :: "memory_guard \<Rightarrow> bool" where
  "gm_inv m \<longleftrightarrow> (\<forall>k en. map_of (gm_entries m) k = Some en \<longrightarrow> me_inFlight en \<longrightarrow> me_cached en = None)"

lemma gm_inv_new [simp]: "gm_inv NewMemoryGuard"
  by (simp add: gm_inv_def NewMemoryGuard_def)

lemma gm_inv_acquire: "gm_inv m \<Longrightarrow> gm_inv (snd (gm_AcquireLock e t k ttl m))"
  by (auto simp: gm_inv_def gm_AcquireLock_def Let_def split: option.splits)

lemma gm_inv_set: "gm_inv m \<Longrightarrow> gm_inv (snd (gm_SetResponse e t k st b ttl m))"
  by (auto simp: gm_inv_def gm_SetResponse_def Let_def split: option.splits)

lemma gm_inv_release: "gm_inv m \<Longrightarrow> gm_inv (snd (gm_ReleaseLock e t k m))"
  by (auto simp: gm_inv_def gm_ReleaseLock_def Let_def split: option.splits)

interpretation gm: guard_contract memory_guard_ops memoryKey gm_slot gm_inv
proof (unfold_locales, unfold memory_guard_ops_def guard.simps)
  fix g e t k ttl r g'
  assume "gm_inv g" "gm_AcquireLock e t k ttl g = (r, g')"
  then show "gm_inv g'" using gm_inv_acquire [of g e t k ttl] by simp
next
  fix g e t k status body ttl ro g'
  assume "gm_inv g" "gm_SetResponse e t k status body ttl g = (ro, g')"
  then show "gm_inv g'" using gm_inv_set [of g e t k status body ttl] by simp
next
  fix g e t k ro g'
  assume "gm_inv g" "gm_ReleaseLock e t k g = (ro, g')"
  then show "gm_inv g'" using gm_inv_release [of g e t k] by simp
next
  fix e t k g ttl r g'
  assume "live e" "t \<noteq> ''''" "k \<noteq> ''''" "gm_slot g (memoryKey t k) (e_now e) = Free"
    "gm_AcquireLock e t k ttl g = (r, g')"
  then show "r = Inr (True, None) \<and> gm_slot g' (memoryKey t k) = (\<lambda>n. if n < e_now e + ttl then InFlight else Free)"
    by (auto simp: gm_AcquireLock_def gm_slot_def Let_def fun_eq_iff split: option.splits if_splits)
next
  fix e t k g ttl r g'
  assume "live e" "t \<noteq> ''''" "k \<noteq> ''''" "gm_slot g (memoryKey t k) (e_now e) = InFlight"
    "gm_AcquireLock e t k ttl g = (r, g')"
  then show "r = Inr (False, None) \<and> g' = g"
    by (auto simp: gm_AcquireLock_def gm_slot_def Let_def split: option.splits if_splits)
next
  fix e t k g c ttl r g'
  assume "live e" "t \<noteq> ''''" "k \<noteq> ''''" "gm_slot g (memoryKey t k) (e_now e) = Done c"
    "gm_AcquireLock e t k ttl g = (r, g')"
  then show "r = Inr (False, Some c) \<and> g' = g"
    by (auto simp: gm_AcquireLock_def gm_slot_def Let_def split: option.splits if_splits)
next
  fix e t k status body ttl g ro g'
  assume "live e" "t \<noteq> ''''" "k \<noteq> ''''" "gm_SetResponse e t k status body ttl g = (ro, g')"
  then show "ro = None \<and> gm_slot g' (memoryKey t k) = (\<lambda>n. if n < e_now e + ttl
                then Done \<lparr>cr_StatusCode = status, cr_Body = body, cr_CompletedAt = e_now e\<rparr> else Free)"
    by (auto simp: gm_SetResponse_def gm_slot_def Let_def)
next
  fix g e t k ro g'
  assume inv: "gm_inv g" and "live e" "t \<noteq> ''''" "k \<noteq> ''''" and r: "gm_ReleaseLock e t k g = (ro, g')"
  then have r: "(ro, g') = (case map_of (gm_entries g) (memoryKey t k) of
               None \<Rightarrow> (None, g)
             | Some entry \<Rightarrow>
                 if me_inFlight entry then (None, g\<lparr>gm_entries := AList.delete (memoryKey t k) (gm_entries g)\<rparr>)
                 else (None, g))"
    by (simp add: gm_ReleaseLock_def Let_def)
  show "ro = None \<and> gm_slot g' (memoryKey t k) =
      (\<lambda>n. if gm_slot g (memoryKey t k) n = InFlight then Free else gm_slot g (memoryKey t k) n)"
  proof (cases "map_of (gm_entries g) (memoryKey t k)")
    case None
    then show ?thesis using r by (simp add: gm_slot_def fun_eq_iff)
  next
    case (Some en)
    have "me_inFlight en \<Longrightarrow> me_cached en = None" using inv Some by (simp add: gm_inv_def)
    then show ?thesis
      using r Some by (auto simp: gm_slot_def fun_eq_iff split: option.splits if_splits)
  qed
qed (auto simp: gm_AcquireLock_def gm_SetResponse_def gm_ReleaseLock_def gm_slot_def Let_def fun_eq_iff
      split: option.splits if_splits)

section \<open>Runs\<close>

datatype guard_label =
    GAcquire env string string duration
  | GSet env string string int string duration
  | GRelease env string string

fun gm_exec :: "guard_label \<Rightarrow> memory_guard \<Rightarrow> memory_guard" where
  "gm_exec (GAcquire e t k ttl) g = snd (gm_AcquireLock e t k ttl g)"
| "gm_exec (GSet e t k st b ttl) g = snd (gm_SetResponse e t k st b ttl g)"
| "gm_exec (GRelease e t k) g = snd (gm_ReleaseLock e t k g)"

abbreviation gm_run :: "guard_label list \<Rightarrow> memory_guard \<Rightarrow> memory_guard" where
  "gm_run ls g \<equiv> fold gm_exec ls g"

fun label_now :: "guard_label \<Rightarrow> gotime" where
  "label_now (GAcquire e t k ttl) = e_now e"
| "label_now (GSet e t k st b ttl) = e_now e"
| "label_now (GRelease e t k) = e_now e"

fun label_sets :: "string \<Rightarrow> guard_label \<Rightarrow> bool" where
  "label_sets sk (GSet e t k st b ttl) = (memoryKey t k = sk)"
| "label_sets sk _ = False"

fun label_releases :: "string \<Rightarrow> guard_label \<Rightarrow> bool" where
  "label_releases sk (GRelease e t k) = (memoryKey t k = sk)"
| "label_releases sk _ = False"

lemma gm_inv_run: "gm_inv g \<Longrightarrow> gm_inv (gm_run ls g)"
proof (induction ls arbitrary: g)
  case (Cons l ls)
  have "gm_inv (gm_exec l g)"
    using Cons.prems by (cases l) (simp_all add: gm_inv_acquire gm_inv_set gm_inv_release)
  with Cons.IH show ?case by simp
qed simp

lemma slot_exec_keeps:
  assumes "gm_inv g" "gm_slot g sk (label_now l) \<noteq> Free" "\<not> label_sets sk l"
    and "label_releases sk l \<Longrightarrow> gm_slot g sk (label_now l) \<noteq> InFlight"
  shows "gm_slot (gm_exec l g) sk = gm_slot g sk"
proof (cases l)
  case (GAcquire e t k ttl)
  then show ?thesis
    using gm.acquire_keeps [of e t k ttl g _ _ sk] assms(2)
    by (cases "gm_AcquireLock e t k ttl g") (simp add: memory_guard_ops_def)
next
  case (GSet e t k st b ttl)
  then show ?thesis
    using gm.set_frame [of e t k st b ttl g _ _ sk] assms(3)
    by (cases "gm_SetResponse e t k st b ttl g") (simp add: memory_guard_ops_def)
next
  case (GRelease e t k)
  show ?thesis
  proof (cases "memoryKey t k = sk")
    case False
    then show ?thesis
      using GRelease gm.release_frame [of e t k g _ _ sk]
      by (cases "gm_ReleaseLock e t k g") (auto simp: memory_guard_ops_def)
  next
    case True
    then obtain c where "gm_slot g sk (e_now e) = Done c"
      using assms(2,4) GRelease by (cases "gm_slot g sk (e_now e)") auto
    then have "map_of (gm_entries g) sk = None \<or>
        (\<exists>en. map_of (gm_entries g) sk = Some en \<and> \<not> me_inFlight en)"
      using assms(1) by (fastforce simp: gm_slot_def gm_inv_def split: option.splits if_splits)
    then have "gm_exec l g = g"
      using GRelease True by (auto simp: gm_ReleaseLock_def Let_def split: option.splits)
    then show ?thesis by simp
  qed
qed

lemma slot_run_keeps:
  assumes "gm_inv g" "gm_slot g sk = (\<lambda>n. if n < bound then x else Free)" "x \<noteq> Free"
    and "list_all (\<lambda>l. label_now l < bound \<and> \<not> label_sets sk l \<and> (x = InFlight \<longrightarrow> \<not> label_releases sk l)) ls"
  shows "gm_slot (gm_run ls g) sk = (\<lambda>n. if n < bound then x else Free)"
  using assms
proof (induction ls arbitrary: g)
  case (Cons l ls)
  have s: "gm_slot (gm_exec l g) sk = gm_slot g sk"
    using Cons.prems by (intro slot_exec_keeps) auto
  have i: "gm_inv (gm_exec l g)" using gm_inv_run [of g "[l]"] Cons.prems(1) by simp
  show ?case
    using Cons.IH [OF i] s Cons.prems by simp
qed simp

section \<open>Properties\<close>

text \<open>C15: mutual exclusion: after an acquisition that succeeds, and before its lock expires, every live
  acquisition of the same tenant and key is refused as in flight, as long as nobody has set a response or
  released the lock under their storage key: any number of acquisitions of any key, and of responses and
  releases under other storage keys, may come in between.\<close>

theorem lock_excludes:
  assumes "gm_inv g" "gm_AcquireLock e t k ttl g = (Inr (True, None), g')"
    and "list_all (\<lambda>l. label_now l < e_now e + ttl \<and> \<not> label_sets (memoryKey t k) l \<and>
           \<not> label_releases (memoryKey t k) l) ls"
    and "live e'" "e_now e' < e_now e + ttl"
  shows "fst (gm_AcquireLock e' t k ttl' (gm_run ls g')) = Inr (False, None)"
proof -
  have a: "gd_AcquireLock memory_guard_ops e t k ttl g = (Inr (True, None), g')"
    using assms(2) by (simp add: memory_guard_ops_def)
  have ne: "live e" "t \<noteq> ''''" "k \<noteq> ''''"
    using assms(2) by (auto simp: gm_AcquireLock_def split: option.splits if_splits)
  have "gm_slot g (memoryKey t k) (e_now e) = Free"
    using gm.acquire_result [OF ne a] by (cases "gm_slot g (memoryKey t k) (e_now e)") auto
  then have "gm_slot g' (memoryKey t k) = (\<lambda>n. if n < e_now e + ttl then InFlight else Free)"
    using gm.acquire_free [OF ne _ a] by blast
  moreover have "gm_inv g'" using gm.acquire_inv [OF assms(1) a] .
  ultimately have "gm_slot (gm_run ls g') (memoryKey t k) = (\<lambda>n. if n < e_now e + ttl then InFlight else Free)"
    using assms(3) by (intro slot_run_keeps) (auto simp: list_all_iff)
  then show ?thesis
    using gm.acquire_result [OF assms(4) ne(2,3), of ttl' "gm_run ls g'"] assms(5)
    by (cases "gm_AcquireLock e' t k ttl' (gm_run ls g')") (simp add: memory_guard_ops_def)
qed

definition genv :: "int \<Rightarrow> env" where
  "genv now = \<lparr>e_ctx = None, e_now = now, e_ord = (\<lambda>n. [0..<n])\<rparr>"

theorem lock_excludes_witness:
  "fst (gm_AcquireLock (genv 50) ''acme'' ''k1'' 60
     (gm_run [GAcquire (genv 20) ''acme'' ''k2'' 5, GRelease (genv 30) ''acme'' ''k2'']
       (snd (gm_AcquireLock (genv 10) ''acme'' ''k1'' 60 NewMemoryGuard)))) = Inr (False, None)"
  by (rule lock_excludes [OF gm_inv_new, of "genv 10" "''acme''" "''k1''" 60])
    (simp_all add: gm_AcquireLock_def genv_def NewMemoryGuard_def memoryKey_def)

text \<open>A stored response is replayed: from the moment it is set until it expires, every acquisition
  of the same tenant and key returns that status and body and acquires nothing, whatever other
  calls are made, releases of that key included, as long as no other response is set.\<close>

theorem response_replayed:
  assumes "gm_inv g" "live e" "t \<noteq> ''''" "k \<noteq> ''''"
    and "list_all (\<lambda>l. label_now l < e_now e + ttl \<and> \<not> label_sets (memoryKey t k) l) ls"
    and "live e'" "e_now e' < e_now e + ttl"
  shows "fst (gm_AcquireLock e' t k ttl' (gm_run ls (snd (gm_SetResponse e t k status body ttl g)))) =
     Inr (False, Some \<lparr>cr_StatusCode = status, cr_Body = body, cr_CompletedAt = e_now e\<rparr>)"
proof -
  obtain ro g' where g': "gm_SetResponse e t k status body ttl g = (ro, g')" by fastforce
  then have s: "gd_SetResponse memory_guard_ops e t k status body ttl g = (ro, g')"
    by (simp add: memory_guard_ops_def)
  let ?c = "\<lparr>cr_StatusCode = status, cr_Body = body, cr_CompletedAt = e_now e\<rparr>"
  have "gm_slot g' (memoryKey t k) = (\<lambda>n. if n < e_now e + ttl then Done ?c else Free)"
    using gm.set_ok [OF assms(2-4) s] by blast
  moreover have "gm_inv g'" using gm.set_inv [OF assms(1) s] .
  ultimately have "gm_slot (gm_run ls g') (memoryKey t k) = (\<lambda>n. if n < e_now e + ttl then Done ?c else Free)"
    using assms(5) by (intro slot_run_keeps) (auto simp: list_all_iff)
  then show ?thesis
    using gm.acquire_result [OF assms(6,3,4), of ttl' "gm_run ls g'"] assms(7) g'
    by (cases "gm_AcquireLock e' t k ttl' (gm_run ls g')") (simp add: memory_guard_ops_def)
qed

theorem response_replayed_witness:
  "fst (gm_AcquireLock (genv 50) ''acme'' ''k1'' 60
     (gm_run [GAcquire (genv 20) ''acme'' ''k1'' 5, GRelease (genv 30) ''acme'' ''k1'']
       (snd (gm_SetResponse (genv 10) ''acme'' ''k1'' 201 ''ok'' 60 NewMemoryGuard)))) =
   Inr (False, Some \<lparr>cr_StatusCode = 201, cr_Body = ''ok'', cr_CompletedAt = 10\<rparr>)"
  using response_replayed [OF gm_inv_new, of "genv 10" "''acme''" "''k1''" 60
      "[GAcquire (genv 20) ''acme'' ''k1'' 5, GRelease (genv 30) ''acme'' ''k1'']" "genv 50" 60 201 "''ok''"]
  by (simp add: genv_def)

text \<open>Tenants without a colon are kept apart.\<close>

lemma memoryKey_inj:
  assumes "CHR '':'' \<notin> set t" "CHR '':'' \<notin> set t'" "memoryKey t k = memoryKey t' k'"
  shows "t = t' \<and> k = k'"
proof -
  have "takeWhile (\<lambda>c. c \<noteq> CHR '':'') (t @ CHR '':'' # k) = takeWhile (\<lambda>c. c \<noteq> CHR '':'') (t' @ CHR '':'' # k')"
    using assms(3) by (simp add: memoryKey_def)
  then have "t = t'" using assms(1,2) by (subst (asm) (1 2) takeWhile_append2) auto
  then show ?thesis using assms(3) by (simp add: memoryKey_def)
qed

text \<open>The storage key does not separate tenants whose names contain a colon: a response set for one
  tenant and key is returned to another tenant.\<close>

theorem storage_key_collision:
  "\<exists>t t' k k'. t \<noteq> t' \<and> fst (gm_AcquireLock (genv 50) t' k' 60
      (snd (gm_SetResponse (genv 10) t k 201 body 60 NewMemoryGuard))) =
      Inr (False, Some \<lparr>cr_StatusCode = 201, cr_Body = body, cr_CompletedAt = 10\<rparr>)"
  by (rule exI [of _ "''a''"], rule exI [of _ "''a:b''"], rule exI [of _ "''b:c''"], rule exI [of _ "''c''"])
    (simp add: gm_AcquireLock_def gm_SetResponse_def genv_def NewMemoryGuard_def memoryKey_def)

end
