(* ===== verification/Go_Json.thy ===== *)
theory Go_Json
  imports Go_Strings
begin

text \<open>
  What the source uses of \<open>encoding/json\<close> (Go 1.25), \<open>encoding/base64\<close> and the JSON form of
  \<open>time.Time\<close>: the scanner, the decoding of a body into the fields of a request structure, the
  encoder, over byte strings. Lemmas: enough fuel gives the scanner's result, a scanned value is a
  prefix that is itself valid JSON.
\<close>

abbreviation code :: "char \<Rightarrow> nat" where
  "code c \<equiv> of_char c"

section \<open>The scanner\<close>

definition json_space :: "char \<Rightarrow> bool" where
  "json_space c \<longleftrightarrow> code c = 32 \<or> code c = 9 \<or> code c = 13 \<or> code c = 10"

definition skip_ws :: "string \<Rightarrow> string" where
  "skip_ws s = dropWhile json_space s"

definition json_digit :: "char \<Rightarrow> bool" where
  "json_digit c \<longleftrightarrow> 48 \<le> code c \<and> code c \<le> 57"

definition hex_val :: "char \<Rightarrow> nat option" where
  "hex_val c =
     (let n = code c in
      if 48 \<le> n \<and> n \<le> 57 then Some (n - 48)
      else if 97 \<le> n \<and> n \<le> 102 then Some (n - 87)
      else if 65 \<le> n \<and> n \<le> 70 then Some (n - 55)
      else None)"

definition escape_chars :: string where
  "escape_chars = [CHR ''b'', CHR ''f'', CHR ''n'', CHR ''r'', CHR ''t'', CHR 0x5C, CHR ''/'', CHR 0x22]"

text \<open>After the opening quote: what follows the closing one.\<close>

fun scan_string :: "string \<Rightarrow> string option" where
  "scan_string [] = None"
| "scan_string (c # cs) =
     (if c = CHR 0x22 then Some cs
      else if code c < 32 then None
      else if c = CHR 0x5C then
        (case cs of
           [] \<Rightarrow> None
         | e # es \<Rightarrow>
             if e = CHR ''u'' then
               (case es of
                  h1 # h2 # h3 # h4 # rest \<Rightarrow>
                    if hex_val h1 \<noteq> None \<and> hex_val h2 \<noteq> None \<and> hex_val h3 \<noteq> None \<and> hex_val h4 \<noteq> None
                    then scan_string rest else None
                | _ \<Rightarrow> None)
             else if e \<in> set escape_chars
             then scan_string es
             else None)
      else scan_string cs)"

definition digits1 :: "string \<Rightarrow> string option" where
  "digits1 s = (case s of [] \<Rightarrow> None | c # cs \<Rightarrow> if json_digit c then Some (dropWhile json_digit cs) else None)"

text \<open>The three parts of a number: the integer part, a fraction, an exponent.\<close>

definition scan_integer :: "string \<Rightarrow> string option" where
  "scan_integer s =
     (case s of
        [] \<Rightarrow> None
      | c # cs \<Rightarrow>
          if c = CHR ''0'' then Some cs
          else if json_digit c then Some (dropWhile json_digit cs)
          else None)"

definition scan_fraction :: "string \<Rightarrow> string option" where
  "scan_fraction s =
     (case s of
        [] \<Rightarrow> Some []
      | c # cs \<Rightarrow> if c = CHR ''.'' then digits1 cs else Some s)"

definition scan_exponent :: "string \<Rightarrow> string option" where
  "scan_exponent s =
     (case s of
        [] \<Rightarrow> Some []
      | c # cs \<Rightarrow>
          if c = CHR ''e'' \<or> c = CHR ''E'' then
            (case cs of
               [] \<Rightarrow> None
             | d # ds \<Rightarrow> if d = CHR ''+'' \<or> d = CHR ''-'' then digits1 ds else digits1 cs)
          else Some s)"

definition scan_number :: "string \<Rightarrow> string option" where
  "scan_number s =
     (case s of
        [] \<Rightarrow> None
      | c # cs \<Rightarrow>
          (case scan_integer (if c = CHR ''-'' then cs else s) of
             None \<Rightarrow> None
           | Some r \<Rightarrow> (case scan_fraction r of None \<Rightarrow> None | Some r' \<Rightarrow> scan_exponent r')))"

definition scan_literal :: "string \<Rightarrow> string option" where
  "scan_literal s =
     (case strip_prefix ''true'' s of Some r \<Rightarrow> Some r
      | None \<Rightarrow>
     (case strip_prefix ''false'' s of Some r \<Rightarrow> Some r
      | None \<Rightarrow> strip_prefix ''null'' s))"

text \<open>
  A value at the head of the text: what follows it. The first argument is fuel, at most one unit per
  byte; the second is the number of containers that may still be opened.
\<close>

fun scan_value :: "nat \<Rightarrow> nat \<Rightarrow> string \<Rightarrow> string option"
and scan_members :: "nat \<Rightarrow> nat \<Rightarrow> string \<Rightarrow> string option"
and scan_elements :: "nat \<Rightarrow> nat \<Rightarrow> string \<Rightarrow> string option" where
  "scan_value 0 d s = None"
| "scan_value (Suc n) d s =
     (case s of
        [] \<Rightarrow> None
      | c # cs \<Rightarrow>
          if c = CHR ''{'' then
            (if d = 0 then None
             else case skip_ws cs of
               [] \<Rightarrow> None
             | x # xs \<Rightarrow> if x = CHR ''}'' then Some xs else scan_members n (d - 1) (x # xs))
          else if c = CHR ''['' then
            (if d = 0 then None
             else case skip_ws cs of
               [] \<Rightarrow> None
             | x # xs \<Rightarrow> if x = CHR '']'' then Some xs else scan_elements n (d - 1) (x # xs))
          else if c = CHR 0x22 then scan_string cs
          else if c = CHR ''-'' \<or> json_digit c then scan_number s
          else scan_literal s)"
| "scan_members 0 d s = None"
| "scan_members (Suc n) d s =
     (case s of
        [] \<Rightarrow> None
      | c # cs \<Rightarrow>
          if c \<noteq> CHR 0x22 then None
          else
            (case scan_string cs of
               None \<Rightarrow> None
             | Some r \<Rightarrow>
                 (case skip_ws r of
                    [] \<Rightarrow> None
                  | x # xs \<Rightarrow>
                      if x \<noteq> CHR '':'' then None
                      else
                        (case scan_value n d (skip_ws xs) of
                           None \<Rightarrow> None
                         | Some r2 \<Rightarrow>
                             (case skip_ws r2 of
                                [] \<Rightarrow> None
                              | y # ys \<Rightarrow>
                                  if y = CHR '','' then scan_members n d (skip_ws ys)
                                  else if y = CHR ''}'' then Some ys
                                  else None)))))"
| "scan_elements 0 d s = None"
| "scan_elements (Suc n) d s =
     (case scan_value n d s of
        None \<Rightarrow> None
      | Some r2 \<Rightarrow>
          (case skip_ws r2 of
             [] \<Rightarrow> None
           | y # ys \<Rightarrow>
               if y = CHR '','' then scan_elements n d (skip_ws ys)
               else if y = CHR '']'' then Some ys
               else None))"

declare scan_value.simps [simp del] scan_members.simps [simp del] scan_elements.simps [simp del]

definition maxNestingDepth :: nat where
  "maxNestingDepth = 10000"

definition scan_text :: "string \<Rightarrow> string option" where
  "scan_text s = scan_value (2 * length s + 2) maxNestingDepth s"

text \<open>\<open>json.Valid\<close>.\<close>

definition json_Valid :: "string \<Rightarrow> bool" where
  "json_Valid s = (case scan_text (skip_ws s) of None \<Rightarrow> False | Some r \<Rightarrow> skip_ws r = [])"

text \<open>\<open>Decoder.Decode\<close> reads the first value of the body and leaves what follows it.\<close>

definition first_value :: "string \<Rightarrow> string option" where
  "first_value s =
     (let t = skip_ws s in
      case scan_text t of None \<Rightarrow> None | Some r \<Rightarrow> Some (take (length t - length r) t))"

section \<open>What a scan reads\<close>

text \<open>
  A scan reads a prefix, and what it reads does not depend on what follows, as long as that does
  not continue a number: \<open>rep r r'\<close> says that \<open>r'\<close> may stand where \<open>r\<close> stood.
\<close>

definition number_end :: "char \<Rightarrow> bool" where
  "number_end c \<longleftrightarrow> \<not> json_digit c \<and> c \<noteq> CHR ''.'' \<and> c \<noteq> CHR ''e'' \<and> c \<noteq> CHR ''E''"

definition rep :: "string \<Rightarrow> string \<Rightarrow> bool" where
  "rep r r' \<longleftrightarrow> r' = [] \<or> number_end (hd r') \<or> (r \<noteq> [] \<and> hd r' = hd r)"

definition reads :: "(string \<Rightarrow> string option) \<Rightarrow> string \<Rightarrow> string \<Rightarrow> bool" where
  "reads f s r \<longleftrightarrow> (\<exists>xs. xs \<noteq> [] \<and> s = xs @ r \<and> (\<forall>r'. rep r r' \<longrightarrow> f (xs @ r') = Some r'))"

text \<open>The parts of a number may read nothing.\<close>

definition reads0 :: "(string \<Rightarrow> string option) \<Rightarrow> string \<Rightarrow> string \<Rightarrow> bool" where
  "reads0 f s r \<longleftrightarrow> (\<exists>xs. s = xs @ r \<and> (\<forall>r'. rep r r' \<longrightarrow> f (xs @ r') = Some r'))"

lemma rep_Nil [simp]: "rep r []"
  by (simp add: rep_def)

lemma rep_append [intro]: "rep r r' \<Longrightarrow> rep (ys @ r) (ys @ r')"
  by (cases ys) (simp_all add: rep_def)

lemma reads_append:
  assumes "reads f s r"
  obtains xs where "xs \<noteq> []" "s = xs @ r" "\<And>r'. rep r r' \<Longrightarrow> f (xs @ r') = Some r'"
  using assms unfolding reads_def by blast

lemma reads0_append:
  assumes "reads0 f s r"
  obtains xs where "s = xs @ r" "\<And>r'. rep r r' \<Longrightarrow> f (xs @ r') = Some r'"
  using assms unfolding reads0_def by blast

lemma dropWhile_replace:
  assumes "dropWhile P s = r"
  obtains xs where "s = xs @ r" "\<And>r'. r' = [] \<or> \<not> P (hd r') \<Longrightarrow> dropWhile P (xs @ r') = r'"
proof
  show "s = takeWhile P s @ r" unfolding assms [symmetric] by (rule takeWhile_dropWhile_id [symmetric])
  show "dropWhile P (takeWhile P s @ r') = r'" if "r' = [] \<or> \<not> P (hd r')" for r'
  proof -
    have "dropWhile P (takeWhile P s @ r') = dropWhile P r'" by (rule dropWhile_append2) (rule set_takeWhileD [THEN conjunct2])
    then show ?thesis using that by (cases r') simp_all
  qed
qed

lemma rep_digit:
  assumes "dropWhile json_digit s = r" "rep r r'"
  shows "r' = [] \<or> \<not> json_digit (hd r')"
  using assms hd_dropWhile [of json_digit s] by (auto simp: rep_def number_end_def)

lemma reads_digits1:
  assumes "digits1 s = Some r"
  shows "reads digits1 s r"
proof -
  obtain c cs where s: "s = c # cs" "json_digit c" "dropWhile json_digit cs = r"
    using assms by (auto simp: digits1_def split: list.splits if_splits)
  obtain xs where "cs = xs @ r" "\<And>r'. r' = [] \<or> \<not> json_digit (hd r') \<Longrightarrow> dropWhile json_digit (xs @ r') = r'"
    using dropWhile_replace [OF s(3)] by blast
  then show ?thesis
    using s rep_digit [OF s(3)] unfolding reads_def
    by (intro exI [of _ "c # xs"]) (simp add: digits1_def)
qed

lemma reads_integer:
  assumes "scan_integer s = Some r"
  shows "reads scan_integer s r"
proof -
  obtain c cs where s: "s = c # cs" and c: "c = CHR ''0'' \<and> r = cs \<or>
      c \<noteq> CHR ''0'' \<and> json_digit c \<and> dropWhile json_digit cs = r"
    using assms by (auto simp: scan_integer_def split: list.splits if_splits)
  from c show ?thesis
  proof
    assume "c = CHR ''0'' \<and> r = cs"
    then show ?thesis using s unfolding reads_def by (intro exI [of _ "[c]"]) (simp add: scan_integer_def)
  next
    assume d: "c \<noteq> CHR ''0'' \<and> json_digit c \<and> dropWhile json_digit cs = r"
    then obtain xs where "cs = xs @ r" "\<And>r'. r' = [] \<or> \<not> json_digit (hd r') \<Longrightarrow> dropWhile json_digit (xs @ r') = r'"
      using dropWhile_replace by blast
    then show ?thesis
      using s d rep_digit [of cs r] unfolding reads_def
      by (intro exI [of _ "c # xs"]) (simp add: scan_integer_def)
  qed
qed

lemma reads_fraction:
  assumes "scan_fraction s = Some r"
  shows "reads0 scan_fraction s r"
proof (cases "\<exists>cs. s = CHR ''.'' # cs")
  case True
  then obtain cs where s: "s = CHR ''.'' # cs" by blast
  then have "digits1 cs = Some r" using assms by (simp add: scan_fraction_def)
  then obtain xs where "cs = xs @ r" "\<And>r'. rep r r' \<Longrightarrow> digits1 (xs @ r') = Some r'"
    using reads_append [OF reads_digits1] by blast
  then show ?thesis
    using s unfolding reads0_def by (intro exI [of _ "CHR ''.'' # xs"]) (simp add: scan_fraction_def)
next
  case False
  then have "r = s" using assms by (auto simp: scan_fraction_def split: list.splits if_splits)
  moreover have "scan_fraction r' = Some r'" if "rep s r'" for r'
    using that False by (cases r'; cases s) (auto simp: scan_fraction_def rep_def number_end_def)
  ultimately show ?thesis unfolding reads0_def by (intro exI [of _ "[]"]) simp
qed

lemma reads_exponent:
  assumes "scan_exponent s = Some r"
  shows "reads0 scan_exponent s r"
proof (cases "\<exists>e cs. s = e # cs \<and> (e = CHR ''e'' \<or> e = CHR ''E'')")
  case True
  then obtain e cs where s: "s = e # cs" "e = CHR ''e'' \<or> e = CHR ''E''" by blast
  then obtain d ds where cs: "cs = d # ds" using assms by (cases cs) (auto simp: scan_exponent_def)
  show ?thesis
  proof (cases "d = CHR ''+'' \<or> d = CHR ''-''")
    case True
    then have "digits1 ds = Some r" using assms s cs by (simp add: scan_exponent_def)
    then obtain xs where "ds = xs @ r" "\<And>r'. rep r r' \<Longrightarrow> digits1 (xs @ r') = Some r'"
      using reads_append [OF reads_digits1] by blast
    then show ?thesis
      using s cs True unfolding reads0_def
      by (intro exI [of _ "e # d # xs"]) (simp add: scan_exponent_def)
  next
    case False
    then have "digits1 cs = Some r" using assms s cs by (simp add: scan_exponent_def)
    then obtain xs where x: "xs \<noteq> []" "cs = xs @ r" "\<And>r'. rep r r' \<Longrightarrow> digits1 (xs @ r') = Some r'"
      using reads_append [OF reads_digits1] by blast
    then obtain xs' where "xs = d # xs'" using cs by (cases xs) auto
    then show ?thesis
      using s x False unfolding reads0_def
      by (intro exI [of _ "e # xs"]) (simp add: scan_exponent_def)
  qed
next
  case False
  then have "r = s" using assms by (auto simp: scan_exponent_def split: list.splits if_splits)
  moreover have "scan_exponent r' = Some r'" if "rep s r'" for r'
    using that False by (cases r'; cases s) (auto simp: scan_exponent_def rep_def number_end_def)
  ultimately show ?thesis unfolding reads0_def by (intro exI [of _ "[]"]) simp
qed

lemma reads_number:
  assumes "scan_number s = Some r"
  shows "reads scan_number s r"
proof -
  obtain c cs where s: "s = c # cs" using assms by (cases s) (auto simp: scan_number_def)
  define t where "t = (if c = CHR ''-'' then cs else s)"
  obtain r1 r2 where i: "scan_integer t = Some r1" "scan_fraction r1 = Some r2" "scan_exponent r2 = Some r"
  proof -
    have "(case scan_integer t of None \<Rightarrow> None
      | Some r \<Rightarrow> (case scan_fraction r of None \<Rightarrow> None | Some r' \<Rightarrow> scan_exponent r')) = Some r"
      using assms unfolding t_def scan_number_def s list.case .
    then show ?thesis using that by (auto split: option.splits)
  qed
  obtain xs where x: "xs \<noteq> []" "t = xs @ r1" "\<And>r'. rep r1 r' \<Longrightarrow> scan_integer (xs @ r') = Some r'"
    using reads_append [OF reads_integer [OF i(1)]] by blast
  obtain ys where y: "r1 = ys @ r2" "\<And>r'. rep r2 r' \<Longrightarrow> scan_fraction (ys @ r') = Some r'"
    using reads0_append [OF reads_fraction [OF i(2)]] by blast
  obtain zs where z: "r2 = zs @ r" "\<And>r'. rep r r' \<Longrightarrow> scan_exponent (zs @ r') = Some r'"
    using reads0_append [OF reads_exponent [OF i(3)]] by blast
  have parts: "scan_integer (xs @ ys @ zs @ r') = Some (ys @ zs @ r')" "scan_fraction (ys @ zs @ r') = Some (zs @ r')"
    "scan_exponent (zs @ r') = Some r'" if "rep r r'" for r'
  proof -
    show "scan_exponent (zs @ r') = Some r'" using z(2) that .
    have "rep r2 (zs @ r')" unfolding z(1) using that by (rule rep_append)
    then show "scan_fraction (ys @ zs @ r') = Some (zs @ r')" using y(2) by blast
    have "rep r1 (ys @ zs @ r')" unfolding y(1) using \<open>rep r2 (zs @ r')\<close> by (rule rep_append)
    then show "scan_integer (xs @ ys @ zs @ r') = Some (ys @ zs @ r')" using x(3) by blast
  qed
  show ?thesis
  proof (cases "c = CHR ''-''")
    case True
    then show ?thesis
      using s x(2) y(1) z(1) parts unfolding reads_def t_def
      by (intro exI [of _ "c # xs @ ys @ zs"]) (simp add: scan_number_def)
  next
    case False
    then obtain xs' where "xs = c # xs'" using s x(1,2) by (cases xs) (auto simp: t_def)
    then show ?thesis
      using False s x(2) y(1) z(1) parts unfolding reads_def t_def
      by (intro exI [of _ "xs @ ys @ zs"]) (simp add: scan_number_def)
  qed
qed


text \<open>The ways in which a string goes on: its end, a numeric escape, a short one, any other byte.\<close>

lemma scan_string_SomeE:
  assumes "scan_string (c # cs) = Some r"
  obtains (quote) "c = CHR 0x22" "r = cs"
    | (unicode) h1 h2 h3 h4 rest where "c = CHR 0x5C" "cs = CHR ''u'' # h1 # h2 # h3 # h4 # rest"
        "\<not> code c < 32" "hex_val h1 \<noteq> None" "hex_val h2 \<noteq> None" "hex_val h3 \<noteq> None" "hex_val h4 \<noteq> None"
        "scan_string rest = Some r"
    | (escape) e es where "c = CHR 0x5C" "cs = e # es" "\<not> code c < 32" "e \<noteq> CHR ''u''" "e \<in> set escape_chars" "scan_string es = Some r"
    | (plain) "c \<noteq> CHR 0x22" "\<not> code c < 32" "c \<noteq> CHR 0x5C" "scan_string cs = Some r"
proof (cases "c = CHR 0x22 \<or> code c < 32 \<or> c \<noteq> CHR 0x5C")
  case True
  then show ?thesis using assms quote plain by (auto split: if_splits)
next
  case False
  then obtain e es where cs: "cs = e # es" using assms by (cases cs) simp_all
  show ?thesis
  proof (cases "e = CHR ''u''")
    case True
    with assms False cs have u: "(case es of h1 # h2 # h3 # h4 # rest \<Rightarrow>
          if hex_val h1 \<noteq> None \<and> hex_val h2 \<noteq> None \<and> hex_val h3 \<noteq> None \<and> hex_val h4 \<noteq> None
          then scan_string rest else None | _ \<Rightarrow> None) = Some r"
      by simp
    obtain h1 h2 h3 h4 rest where "es = h1 # h2 # h3 # h4 # rest"
      using u by (auto split: list.splits)
    then show ?thesis using u unicode False cs True by (simp split: if_splits)
  next
    case False': False
    then show ?thesis using assms False cs escape by (simp split: if_splits)
  qed
qed

lemma reads_string:
  "scan_string s = Some r \<Longrightarrow> reads scan_string s r"
proof (induction s rule: scan_string.induct)
  case (2 c cs)
  from "2.prems" show ?case
  proof (cases rule: scan_string_SomeE)
    case quote
    then show ?thesis unfolding reads_def by (intro exI [of _ "[c]"]) simp
  next
    case (unicode h1 h2 h3 h4 rest)
    then have "reads scan_string rest r" using "2.IH"(1) [of "CHR ''u''"] by simp
    then obtain xs where "rest = xs @ r" "\<And>r'. rep r r' \<Longrightarrow> scan_string (xs @ r') = Some r'"
      using reads_append by blast
    then show ?thesis using unicode unfolding reads_def
      by (intro exI [of _ "c # CHR ''u'' # h1 # h2 # h3 # h4 # xs"]) simp
  next
    case (escape e es)
    then have "reads scan_string es r" using "2.IH"(2) [of e es] by simp
    then obtain xs where "es = xs @ r" "\<And>r'. rep r r' \<Longrightarrow> scan_string (xs @ r') = Some r'"
      using reads_append by blast
    then show ?thesis using escape unfolding reads_def
      by (intro exI [of _ "c # e # xs"]) simp
  next
    case plain
    then have "reads scan_string cs r" using "2.IH"(3) by simp
    then obtain xs where "cs = xs @ r" "\<And>r'. rep r r' \<Longrightarrow> scan_string (xs @ r') = Some r'"
      using reads_append by blast
    then show ?thesis using plain unfolding reads_def
      by (intro exI [of _ "c # xs"]) simp
  qed
qed simp

lemma strip_prefix_Some: "strip_prefix p s = Some r \<longleftrightarrow> s = p @ r"
  by (induction p s rule: strip_prefix.induct) auto

lemma reads_literal:
  assumes "scan_literal s = Some r"
  shows "reads scan_literal s r"
proof -
  have strip: "strip_prefix p (p @ x) = Some x" for p x :: string by (simp add: strip_prefix_Some)
  consider "s = ''true'' @ r" | "s = ''false'' @ r" | "s = ''null'' @ r"
    using assms unfolding scan_literal_def by (auto simp: strip_prefix_Some split: option.splits)
  then show ?thesis
  proof cases
    case 1
    then show ?thesis unfolding reads_def by (intro exI [of _ "''true''"]) (simp add: scan_literal_def)
  next
    case 2
    then show ?thesis unfolding reads_def by (intro exI [of _ "''false''"]) (simp add: scan_literal_def)
  next
    case 3
    then show ?thesis unfolding reads_def by (intro exI [of _ "''null''"]) (simp add: scan_literal_def)
  qed
qed

text \<open>White space before a byte that is none.\<close>

lemma skip_ws_Cons:
  assumes "skip_ws s = x # xs"
  obtains w where "s = w @ x # xs" "\<And>y. skip_ws (w @ x # y) = x # y"
proof
  show "s = takeWhile json_space s @ x # xs"
    using assms unfolding skip_ws_def by (metis takeWhile_dropWhile_id)
  have "\<not> json_space x" using assms hd_dropWhile [of json_space s] by (simp add: skip_ws_def)
  moreover have "\<forall>c \<in> set (takeWhile json_space s). json_space c" using set_takeWhileD by fast
  ultimately show "skip_ws (takeWhile json_space s @ x # y) = x # y" for y
    by (simp add: skip_ws_def dropWhile_append2)
qed


text \<open>The result of a scan, with every smaller amount of fuel and depth that is still enough.\<close>

definition scans :: "(nat \<Rightarrow> nat \<Rightarrow> string \<Rightarrow> string option) \<Rightarrow> nat \<Rightarrow> nat \<Rightarrow> string \<Rightarrow> string \<Rightarrow> bool" where
  "scans f k d s r \<longleftrightarrow> (\<exists>xs. xs \<noteq> [] \<and> s = xs @ r \<and>
     (\<forall>r' n d'. rep r r' \<longrightarrow> d \<le> d' \<longrightarrow> 2 * length xs + k \<le> n \<longrightarrow> f n d' (xs @ r') = Some r'))"

lemma scansI:
  assumes "xs \<noteq> []" "s = xs @ r"
    and "\<And>r' n d'. rep r r' \<Longrightarrow> d \<le> d' \<Longrightarrow> 2 * length xs + k \<le> n \<Longrightarrow> f n d' (xs @ r') = Some r'"
  shows "scans f k d s r"
  using assms unfolding scans_def by blast

lemma scansE:
  assumes "scans f k d s r"
  obtains xs where "xs \<noteq> []" "s = xs @ r"
    "\<And>r' n d'. rep r r' \<Longrightarrow> d \<le> d' \<Longrightarrow> 2 * length xs + k \<le> n \<Longrightarrow> f n d' (xs @ r') = Some r'"
  using assms unfolding scans_def by blast

lemma scans_leaf:
  assumes "reads g s r"
    and "\<And>x n d. hd x = hd s \<Longrightarrow> x \<noteq> [] \<Longrightarrow> scan_value (Suc n) d x = g x"
  shows "scans scan_value 1 d s r"
proof -
  obtain xs where x: "xs \<noteq> []" "s = xs @ r" "\<And>r'. rep r r' \<Longrightarrow> g (xs @ r') = Some r'"
    using reads_append [OF assms(1)] by blast
  show ?thesis
  proof (rule scansI [OF x(1,2)])
    fix r' n d'
    assume "rep r r'" "2 * length xs + 1 \<le> n"
    moreover from this obtain m where "n = Suc m" by (cases n) auto
    moreover have "hd (xs @ r') = hd s" using x(1,2) by simp
    ultimately show "scan_value n d' (xs @ r') = Some r'" using assms(2) [of "xs @ r'"] x(1,3) by simp
  qed
qed


lemma number_end_punct [simp]:
  "number_end CHR '',''" "number_end CHR ''}''" "number_end CHR '']''" "number_end CHR '':''"
  by (simp_all add: number_end_def json_digit_def)

lemma rep_ws_punct:
  assumes "skip_ws r = y # ys" "r = w @ y # ys"
  shows "rep r (w @ y # zs)"
  using assms by (cases w) (simp_all add: rep_def)

text \<open>An opening bracket, white space, and either the closing bracket or a scan of the contents.\<close>

lemma scans_open:
  assumes "skip_ws cs = x # xs" "0 < d"
    and "x = close \<and> r = xs \<or> x \<noteq> close \<and> scans g k (d - 1) (x # xs) r" "k \<le> 2"
    and "\<And>n d y. 0 < d \<Longrightarrow> scan_value (Suc n) d (c # y) =
       (case skip_ws y of [] \<Rightarrow> None | x # xs \<Rightarrow> if x = close then Some xs else g n (d - 1) (x # xs))"
  shows "scans scan_value 1 d (c # cs) r"
proof -
  obtain w where w: "cs = w @ x # xs" "\<And>y. skip_ws (w @ x # y) = x # y"
    using skip_ws_Cons [OF assms(1)] by blast
  from assms(3) show ?thesis
  proof
    assume e: "x = close \<and> r = xs"
    show ?thesis
    proof (rule scansI [of "c # w @ [x]"])
      show "scan_value n d' ((c # w @ [x]) @ r') = Some r'" if "d \<le> d'" "2 * length (c # w @ [x]) + 1 \<le> n" for n d' r'
        using that e w(2) assms(2,5) by (cases n) auto
    qed (use e w in auto)
  next
    assume g: "x \<noteq> close \<and> scans g k (d - 1) (x # xs) r"
    then obtain zs where z: "zs \<noteq> []" "x # xs = zs @ r"
      "\<And>r' n d'. rep r r' \<Longrightarrow> d - 1 \<le> d' \<Longrightarrow> 2 * length zs + k \<le> n \<Longrightarrow> g n d' (zs @ r') = Some r'"
      using scansE by metis
    then obtain zs' where zs': "zs = x # zs'" by (cases zs) auto
    show ?thesis
    proof (rule scansI [of "c # w @ zs"])
      fix r' n d'
      assume a: "rep r r'" "d \<le> d'" "2 * length (c # w @ zs) + 1 \<le> n"
      then obtain m where m: "n = Suc m" "2 * length zs + k \<le> m" using assms(4) by (cases n) auto
      have "g m (d' - 1) (zs @ r') = Some r'" using z(3) a(1,2) m(2) by simp
      then show "scan_value n d' ((c # w @ zs) @ r') = Some r'"
        using m(1) a(2) assms(2,5) w(2) zs' g by simp
    qed (use w z in auto)
  qed
qed

lemma scan_value_leaf:
  "scan_value (Suc n) d (CHR 0x22 # cs) = scan_string cs"
  "c = CHR ''-'' \<or> json_digit c \<Longrightarrow> scan_value (Suc n) d (c # cs) = scan_number (c # cs)"
  "c \<noteq> CHR ''{'' \<Longrightarrow> c \<noteq> CHR ''['' \<Longrightarrow> c \<noteq> CHR 0x22 \<Longrightarrow> c \<noteq> CHR ''-'' \<Longrightarrow> \<not> json_digit c \<Longrightarrow>
     scan_value (Suc n) d (c # cs) = scan_literal (c # cs)"
  by (auto simp: scan_value.simps json_digit_def)

lemma scan_value_step:
  assumes members: "\<And>d s r. scan_members n d s = Some r \<Longrightarrow> scans scan_members 1 d s r"
    and elements: "\<And>d s r. scan_elements n d s = Some r \<Longrightarrow> scans scan_elements 2 d s r"
    and "scan_value (Suc n) d s = Some r"
  shows "scans scan_value 1 d s r"
proof -
  obtain c cs where s: "s = c # cs" using assms(3) by (cases s) (simp_all add: scan_value.simps)
  consider (object) "c = CHR ''{''" | (array) "c = CHR ''[''" | (str) "c = CHR 0x22"
    | (number) "c = CHR ''-'' \<or> json_digit c"
    | (literal) "c \<noteq> CHR ''{''" "c \<noteq> CHR ''[''" "c \<noteq> CHR 0x22" "c \<noteq> CHR ''-''" "\<not> json_digit c"
    by blast
  then show ?thesis
  proof cases
    case object
    have eq: "scan_value (Suc m) d (c # y) = (case skip_ws y of [] \<Rightarrow> None
        | x # xs \<Rightarrow> if x = CHR ''}'' then Some xs else scan_members m (d - 1) (x # xs))" if "0 < d" for m d y
      using that object by (simp add: scan_value.simps)
    have d: "0 < d" using assms(3) s object by (cases d) (simp_all add: scan_value.simps)
    then obtain x xs where "skip_ws cs = x # xs" "x = CHR ''}'' \<and> r = xs \<or> x \<noteq> CHR ''}'' \<and> scan_members n (d - 1) (x # xs) = Some r"
      using assms(3) eq s by (auto split: list.splits if_splits)
    then show ?thesis unfolding s using scans_open [OF _ d _ _ eq, of cs x xs r 1] members by force
  next
    case array
    have eq: "scan_value (Suc m) d (c # y) = (case skip_ws y of [] \<Rightarrow> None
        | x # xs \<Rightarrow> if x = CHR '']'' then Some xs else scan_elements m (d - 1) (x # xs))" if "0 < d" for m d y
      using that array by (simp add: scan_value.simps)
    have d: "0 < d" using assms(3) s array by (cases d) (simp_all add: scan_value.simps)
    then obtain x xs where "skip_ws cs = x # xs" "x = CHR '']'' \<and> r = xs \<or> x \<noteq> CHR '']'' \<and> scan_elements n (d - 1) (x # xs) = Some r"
      using assms(3) eq s by (auto split: list.splits if_splits)
    then show ?thesis unfolding s using scans_open [OF _ d _ _ eq, of cs x xs r 2] elements by force
  next
    case str
    then have "scan_string cs = Some r" using assms(3) s by (simp add: scan_value_leaf)
    then obtain xs where x: "cs = xs @ r" "\<And>r'. rep r r' \<Longrightarrow> scan_string (xs @ r') = Some r'"
      using reads_append [OF reads_string] by blast
    show ?thesis
    proof (rule scansI [of "c # xs"])
      show "scan_value m d' ((c # xs) @ r') = Some r'" if "rep r r'" "2 * length (c # xs) + 1 \<le> m" for m d' r'
        using that x(2) str by (cases m) (simp_all add: scan_value_leaf)
    qed (use s x in auto)
  next
    case number
    then have "scan_number s = Some r" using assms(3) s by (simp add: scan_value_leaf)
    then show ?thesis
      using number s by (intro scans_leaf [of scan_number] reads_number) (auto simp: neq_Nil_conv scan_value_leaf)
  next
    case literal
    then have "scan_literal s = Some r" using assms(3) s by (simp add: scan_value_leaf)
    then show ?thesis
      using literal s by (intro scans_leaf [of scan_literal] reads_literal) (auto simp: neq_Nil_conv scan_value_leaf)
  qed
qed


text \<open>A value at the head of a list or after a colon, up to the comma or bracket that follows it.\<close>

lemma scan_value_then:
  assumes "scans scan_value 1 d s r2" "skip_ws r2 = y # ys" "number_end y"
  obtains xs w where "xs \<noteq> []" "s = xs @ w @ y # ys"
    "\<And>zs n d'. d \<le> d' \<Longrightarrow> 2 * length xs + 1 \<le> n \<Longrightarrow> scan_value n d' (xs @ w @ y # zs) = Some (w @ y # zs)"
    "\<And>zs. skip_ws (w @ y # zs) = y # zs"
proof -
  obtain xs where x: "xs \<noteq> []" "s = xs @ r2"
    "\<And>r' n d'. rep r2 r' \<Longrightarrow> d \<le> d' \<Longrightarrow> 2 * length xs + 1 \<le> n \<Longrightarrow> scan_value n d' (xs @ r') = Some r'"
    using scansE [OF assms(1)] by metis
  obtain w where w: "r2 = w @ y # ys" "\<And>zs. skip_ws (w @ y # zs) = y # zs"
    using skip_ws_Cons [OF assms(2)] by metis
  have "rep r2 (w @ y # zs)" for zs by (rule rep_ws_punct [OF assms(2) w(1)])
  then show thesis using that [OF x(1), of w] x(2,3) w by simp
qed

lemma scan_elements_step:
  assumes vals: "\<And>d s r. scan_value n d s = Some r \<Longrightarrow> scans scan_value 1 d s r"
    and elements: "\<And>d s r. scan_elements n d s = Some r \<Longrightarrow> scans scan_elements 2 d s r"
    and res: "scan_elements (Suc n) d s = Some r"
  shows "scans scan_elements 2 d s r"
proof -
  obtain r2 y ys where r2: "scan_value n d s = Some r2" "skip_ws r2 = y # ys"
    and y: "y = CHR '','' \<and> scan_elements n d (skip_ws ys) = Some r \<or> y = CHR '']'' \<and> ys = r"
    using res by (auto simp: scan_elements.simps split: option.splits list.splits if_splits)
  have "number_end y" using y by auto
  then obtain xs w where x: "xs \<noteq> []" "s = xs @ w @ y # ys"
    "\<And>zs n d'. d \<le> d' \<Longrightarrow> 2 * length xs + 1 \<le> n \<Longrightarrow> scan_value n d' (xs @ w @ y # zs) = Some (w @ y # zs)"
    and w: "\<And>zs. skip_ws (w @ y # zs) = y # zs"
    using scan_value_then [OF vals [OF r2(1)] r2(2)] by metis
  from y show ?thesis
  proof
    assume e: "y = CHR '']'' \<and> ys = r"
    show ?thesis
    proof (rule scansI [of "xs @ w @ [y]"])
      fix r' m d'
      assume "d \<le> d'" "2 * length (xs @ w @ [y]) + 2 \<le> m"
      moreover from this obtain k where "m = Suc k" by (cases m) auto
      ultimately show "scan_elements m d' ((xs @ w @ [y]) @ r') = Some r'"
        using x(3) [of d' k r'] w e by (simp add: scan_elements.simps)
    qed (use e x in auto)
  next
    assume g: "y = CHR '','' \<and> scan_elements n d (skip_ws ys) = Some r"
    then obtain vs where v: "vs \<noteq> []" "skip_ws ys = vs @ r"
      "\<And>r' n d'. rep r r' \<Longrightarrow> d \<le> d' \<Longrightarrow> 2 * length vs + 2 \<le> n \<Longrightarrow> scan_elements n d' (vs @ r') = Some r'"
      using elements scansE by metis
    obtain v1 vs' where vs: "vs = v1 # vs'" using v(1) by (cases vs) auto
    obtain u where u: "ys = u @ vs @ r" "\<And>zs. skip_ws (u @ v1 # zs) = v1 # zs"
      using skip_ws_Cons [of ys v1 "vs' @ r"] v(2) vs by auto
    show ?thesis
    proof (rule scansI [of "xs @ w @ y # u @ vs"])
      fix r' m d'
      assume a: "rep r r'" "d \<le> d'" "2 * length (xs @ w @ y # u @ vs) + 2 \<le> m"
      then obtain k where k: "m = Suc k" "2 * length xs + 1 \<le> k" "2 * length vs + 2 \<le> k" by (cases m) auto
      have "scan_elements k d' (vs @ r') = Some r'" using v(3) a k by blast
      then show "scan_elements m d' ((xs @ w @ y # u @ vs) @ r') = Some r'"
        using x(3) [OF a(2) k(2)] w u(2) g k(1) vs by (simp add: scan_elements.simps)
    qed (use g x u in auto)
  qed
qed

lemma scan_members_step:
  assumes vals: "\<And>d s r. scan_value n d s = Some r \<Longrightarrow> scans scan_value 1 d s r"
    and members: "\<And>d s r. scan_members n d s = Some r \<Longrightarrow> scans scan_members 1 d s r"
    and res: "scan_members (Suc n) d s = Some r"
  shows "scans scan_members 1 d s r"
proof -
  obtain cs r0 c' xs0 r2 y ys where r0: "s = CHR 0x22 # cs" "scan_string cs = Some r0" "skip_ws r0 = CHR '':'' # xs0"
    and r2: "scan_value n d (skip_ws xs0) = Some r2" "skip_ws r2 = y # ys"
    and y: "y = CHR '','' \<and> scan_members n d (skip_ws ys) = Some r \<or> y = CHR ''}'' \<and> ys = r"
    using res by (auto simp: scan_members.simps split: option.splits list.splits if_splits)
  have "number_end y" using y by auto
  then obtain xs w where x: "xs \<noteq> []" "skip_ws xs0 = xs @ w @ y # ys"
    "\<And>zs n d'. d \<le> d' \<Longrightarrow> 2 * length xs + 1 \<le> n \<Longrightarrow> scan_value n d' (xs @ w @ y # zs) = Some (w @ y # zs)"
    and w: "\<And>zs. skip_ws (w @ y # zs) = y # zs"
    using scan_value_then [OF vals [OF r2(1)] r2(2)] by metis
  obtain x1 xs1 where xs: "xs = x1 # xs1" using x(1) by (cases xs) auto
  obtain u0 where u0: "xs0 = u0 @ xs @ w @ y # ys" "\<And>zs. skip_ws (u0 @ x1 # zs) = x1 # zs"
    using skip_ws_Cons [of xs0 x1 "xs1 @ w @ y # ys"] x(2) xs by auto
  obtain w0 where w0: "r0 = w0 @ CHR '':'' # xs0" "\<And>zs. skip_ws (w0 @ CHR '':'' # zs) = CHR '':'' # zs"
    using skip_ws_Cons [OF r0(3)] by metis
  obtain ks where ks: "cs = ks @ r0" "\<And>r'. rep r0 r' \<Longrightarrow> scan_string (ks @ r') = Some r'"
    using reads_append [OF reads_string [OF r0(2)]] by metis
  let ?pre = "CHR 0x22 # ks @ w0 @ CHR '':'' # u0 @ xs @ w"
  have key: "scan_string (ks @ w0 @ CHR '':'' # zs) = Some (w0 @ CHR '':'' # zs)" for zs
    by (intro ks(2) rep_ws_punct [OF r0(3) w0(1)])
  have step: "scan_members (Suc k) d' (?pre @ y # zs) =
      (if y = CHR '','' then scan_members k d' (skip_ws zs) else if y = CHR ''}'' then Some zs else None)"
    if "d \<le> d'" "2 * length xs + 1 \<le> k" for k d' zs
    using key w0(2) u0(2) x(3) [OF that] w xs by (simp add: scan_members.simps)
  have s: "s = ?pre @ y # ys" using r0(1) ks(1) w0(1) u0(1) by simp
  from y show ?thesis
  proof
    assume e: "y = CHR ''}'' \<and> ys = r"
    show ?thesis
    proof (rule scansI [of "?pre @ [y]"])
      fix r' m d'
      assume a: "d \<le> d'" "2 * length (?pre @ [y]) + 1 \<le> m"
      then obtain k where k: "m = Suc k" "2 * length xs + 1 \<le> k" by (cases m) auto
      show "scan_members m d' ((?pre @ [y]) @ r') = Some r'"
        using step [OF a(1) k(2), of r'] e k(1) by simp
    qed (use e s in auto)
  next
    assume g: "y = CHR '','' \<and> scan_members n d (skip_ws ys) = Some r"
    then obtain vs where v: "vs \<noteq> []" "skip_ws ys = vs @ r"
      "\<And>r' n d'. rep r r' \<Longrightarrow> d \<le> d' \<Longrightarrow> 2 * length vs + 1 \<le> n \<Longrightarrow> scan_members n d' (vs @ r') = Some r'"
      using members scansE by metis
    obtain v1 vs' where vs: "vs = v1 # vs'" using v(1) by (cases vs) auto
    obtain u where u: "ys = u @ vs @ r" "\<And>zs. skip_ws (u @ v1 # zs) = v1 # zs"
      using skip_ws_Cons [of ys v1 "vs' @ r"] v(2) vs by auto
    show ?thesis
    proof (rule scansI [of "?pre @ y # u @ vs"])
      fix r' m d'
      assume a: "rep r r'" "d \<le> d'" "2 * length (?pre @ y # u @ vs) + 1 \<le> m"
      then obtain k where k: "m = Suc k" "2 * length xs + 1 \<le> k" "2 * length vs + 1 \<le> k" by (cases m) auto
      have "scan_members k d' (vs @ r') = Some r'" using v(3) a k by blast
      then show "scan_members m d' ((?pre @ y # u @ vs) @ r') = Some r'"
        using step [OF a(2) k(2), of "u @ vs @ r'"] u(2) g k(1) vs by simp
    qed (use g s u in auto)
  qed
qed

lemma scan_scans:
  shows "scan_value n d s = Some r \<Longrightarrow> scans scan_value 1 d s r"
    and "scan_members n d s = Some r \<Longrightarrow> scans scan_members 1 d s r"
    and "scan_elements n d s = Some r \<Longrightarrow> scans scan_elements 2 d s r"
proof (induction n arbitrary: d s r)
  case 0
  {
    case 1
    then show ?case by (simp add: scan_value.simps)
  next
    case 2
    then show ?case by (simp add: scan_members.simps)
  next
    case 3
    then show ?case by (simp add: scan_elements.simps)
  }
next
  case (Suc n)
  {
    case 1
    then show ?case using scan_value_step Suc.IH by blast
  next
    case 2
    then show ?case using scan_members_step Suc.IH by blast
  next
    case 3
    then show ?case using scan_elements_step Suc.IH by blast
  }
qed

text \<open>
  A value that was scanned with any fuel and depth within the limit is valid JSON on its own, and the
  fuel of \<open>scan_text\<close> is enough for it.
\<close>

lemma scanned_value_valid:
  assumes "scan_value n d s = Some r" "d \<le> maxNestingDepth"
  obtains xs where "s = xs @ r" "json_Valid xs" "scan_text s = Some r" "xs \<noteq> []"
proof -
  obtain xs where x: "xs \<noteq> []" "s = xs @ r"
    "\<And>r' n d'. rep r r' \<Longrightarrow> d \<le> d' \<Longrightarrow> 2 * length xs + 1 \<le> n \<Longrightarrow> scan_value n d' (xs @ r') = Some r'"
    using scansE [OF scan_scans(1) [OF assms(1)]] by metis
  have whole: "scan_value n' maxNestingDepth (xs @ r') = Some r'" if "rep r r'" "2 * length xs + 1 \<le> n'" for n' r'
    using x(3) [OF that(1) assms(2) that(2)] .
  have "rep r r" by (cases r) (simp_all add: rep_def)
  then have t: "scan_text s = Some r" using whole [of r] x(2) by (simp add: scan_text_def)
  have nosp: "skip_ws xs = xs"
  proof (cases xs)
    case (Cons c cs)
    have "\<not> json_space c"
    proof
      assume "json_space c"
      then have "\<not> json_digit c" "c \<noteq> CHR ''{''" "c \<noteq> CHR ''[''" "c \<noteq> CHR 0x22" "c \<noteq> CHR ''-''" "c \<noteq> CHR ''t''" "c \<noteq> CHR ''f''" "c \<noteq> CHR ''n''"
        by (auto simp: json_space_def json_digit_def)
      then have "scan_value (Suc m) d (c # y) = None" for m d y
        by (simp add: scan_value_leaf scan_literal_def)
      then show False using assms(1) x(2) Cons by (cases n) (simp_all add: scan_value.simps(1))
    qed
    then show ?thesis using Cons by (simp add: skip_ws_def)
  qed (simp add: skip_ws_def)
  have "scan_text xs = Some []" using whole [of "[]"] by (simp add: scan_text_def)
  then have "json_Valid xs" using nosp by (simp add: json_Valid_def skip_ws_def)
  with that x t show thesis by blast
qed

end
