(* ===== verification/Go_JsonCodec.thy ===== *)
theory Go_JsonCodec
  imports Go_Json
begin

text \<open>
  Decoding the fields of a JSON body and encoding responses, as \<open>encoding/json\<close> does it: unquoting
  with surrogate pairs and replacement of malformed UTF-8, case folding of field names, the rules
  of the targets the source decodes into (\<open>string\<close>, \<open>int\<close>, \<open>json.RawMessage\<close>, \<open>[]string\<close>), the
  escaping encoder, base64 and RFC 3339 times. Lemmas: decoded raw values are valid JSON.
\<close>

section \<open>UTF-8\<close>

definition cont_byte :: "char \<Rightarrow> bool" where
  "cont_byte c \<longleftrightarrow> 128 \<le> code c \<and> code c \<le> 191"

text \<open>\<open>utf8.DecodeRune\<close>: the number of bytes of the rune at the head, 0 for a malformed one.\<close>

definition rune_width :: "string \<Rightarrow> nat" where
  "rune_width s =
     (case s of
        [] \<Rightarrow> 0
      | c # cs \<Rightarrow>
          let b = code c; ok = (\<lambda>i. i < length cs \<and> cont_byte (cs ! i)) in
          if b < 128 then 1
          else if 194 \<le> b \<and> b \<le> 223 then (if ok 0 then 2 else 0)
          else if 224 \<le> b \<and> b \<le> 239 then
            (if ok 0 \<and> ok 1 \<and> (b = 224 \<longrightarrow> 160 \<le> code (cs ! 0)) \<and> (b = 237 \<longrightarrow> code (cs ! 0) \<le> 159) then 3 else 0)
          else if 240 \<le> b \<and> b \<le> 244 then
            (if ok 0 \<and> ok 1 \<and> ok 2 \<and> (b = 240 \<longrightarrow> 144 \<le> code (cs ! 0)) \<and> (b = 244 \<longrightarrow> code (cs ! 0) \<le> 143)
             then 4 else 0)
          else 0)"

text \<open>\<open>utf8.EncodeRune\<close>; the code of the replacement character is 65533.\<close>

definition encode_rune :: "nat \<Rightarrow> string" where
  "encode_rune r =
     (if r < 128 then [char_of r]
      else if r < 2048 then [char_of (192 + r div 64), char_of (128 + r mod 64)]
      else if r < 65536 then
        [char_of (224 + r div 4096), char_of (128 + r div 64 mod 64), char_of (128 + r mod 64)]
      else
        [char_of (240 + r div 262144), char_of (128 + r div 4096 mod 64), char_of (128 + r div 64 mod 64),
         char_of (128 + r mod 64)])"

definition replacement :: string where
  "replacement = encode_rune 65533"

section \<open>Unquoting\<close>

text \<open>\<open>getu4\<close> on a backslash, a \<open>u\<close> and four digits.\<close>

definition getu4 :: "string \<Rightarrow> nat option" where
  "getu4 s =
     (case s of
        b # u # h1 # h2 # h3 # h4 # rest \<Rightarrow>
          if b = CHR 0x5C \<and> u = CHR ''u'' then
            (case (hex_val h1, hex_val h2, hex_val h3, hex_val h4) of
               (Some v1, Some v2, Some v3, Some v4) \<Rightarrow> Some (((v1 * 16 + v2) * 16 + v3) * 16 + v4)
             | _ \<Rightarrow> None)
          else None
      | _ \<Rightarrow> None)"

text \<open>\<open>utf16.DecodeRune\<close> of a surrogate pair.\<close>

definition surrogate_pair :: "nat \<Rightarrow> nat \<Rightarrow> nat option" where
  "surrogate_pair r1 r2 =
     (if 55296 \<le> r1 \<and> r1 < 56320 \<and> 56320 \<le> r2 \<and> r2 < 57344
      then Some ((r1 - 55296) * 1024 + (r2 - 56320) + 65536) else None)"

definition simple_escape :: "char \<Rightarrow> char" where
  "simple_escape e =
     (if e = CHR ''b'' then CHR 0x08 else if e = CHR ''f'' then CHR 0x0C
      else if e = CHR ''n'' then CHR 0x0A else if e = CHR ''r'' then CHR 0x0D
      else if e = CHR ''t'' then CHR 0x09 else e)"

text \<open>The text between the quotes of a scanned string.\<close>

function unquote :: "string \<Rightarrow> string" where
  "unquote s =
     (case s of
        [] \<Rightarrow> []
      | c # cs \<Rightarrow>
          if c = CHR 0x5C then
            (case getu4 s of
               Some r1 \<Rightarrow>
                 let rest = drop 6 s in
                 if 55296 \<le> r1 \<and> r1 < 57344 then
                   (case getu4 rest of
                      Some r2 \<Rightarrow>
                        (case surrogate_pair r1 r2 of
                           Some r \<Rightarrow> encode_rune r @ unquote (drop 6 rest)
                         | None \<Rightarrow> replacement @ unquote rest)
                    | None \<Rightarrow> replacement @ unquote rest)
                 else encode_rune r1 @ unquote rest
             | None \<Rightarrow> (case cs of [] \<Rightarrow> [] | e # es \<Rightarrow> simple_escape e # unquote es))
          else if rune_width s = 0 then replacement @ unquote cs
          else take (rune_width s) s @ unquote (drop (rune_width s) s))"
  by pat_completeness auto
termination
  by (relation "measure length") auto

declare unquote.simps [simp del]

section \<open>Fields\<close>

text \<open>The members of an object from its first key on: the key between its quotes, the raw value.\<close>

fun object_members :: "nat \<Rightarrow> string \<Rightarrow> (string \<times> string) list" where
  "object_members 0 s = []"
| "object_members (Suc n) s =
     (case s of
        [] \<Rightarrow> []
      | c # cs \<Rightarrow>
          (case scan_string cs of
             None \<Rightarrow> []
           | Some r \<Rightarrow>
               let key = take (length cs - length r - 1) cs; t = skip_ws (tl (skip_ws r)) in
               (case scan_text t of
                  None \<Rightarrow> []
                | Some r2 \<Rightarrow>
                    (key, take (length t - length r2) t) #
                    (case skip_ws r2 of
                       [] \<Rightarrow> []
                     | y # ys \<Rightarrow> if y = CHR '','' then object_members n (skip_ws ys) else []))))"

fun array_items :: "nat \<Rightarrow> string \<Rightarrow> string list" where
  "array_items 0 s = []"
| "array_items (Suc n) s =
     (case scan_text s of
        None \<Rightarrow> []
      | Some r2 \<Rightarrow>
          take (length s - length r2) s #
          (case skip_ws r2 of
             [] \<Rightarrow> []
           | y # ys \<Rightarrow> if y = CHR '','' then array_items n (skip_ws ys) else []))"

text \<open>The members of an object text and the items of an array text.\<close>

definition members_of :: "string \<Rightarrow> (string \<times> string) list" where
  "members_of v =
     (let s = skip_ws (tl v) in if s = [] \<or> hd s = CHR ''}'' then [] else object_members (length s) s)"

definition items_of :: "string \<Rightarrow> string list" where
  "items_of v =
     (let s = skip_ws (tl v) in if s = [] \<or> hd s = CHR '']'' then [] else array_items (length s) s)"

definition json_string :: "string \<Rightarrow> bool" where
  "json_string v \<longleftrightarrow> v \<noteq> [] \<and> hd v = CHR 0x22"

definition json_object :: "string \<Rightarrow> bool" where
  "json_object v \<longleftrightarrow> v \<noteq> [] \<and> hd v = CHR ''{''"

definition json_array :: "string \<Rightarrow> bool" where
  "json_array v \<longleftrightarrow> v \<noteq> [] \<and> hd v = CHR ''[''"

definition json_numeral :: "string \<Rightarrow> bool" where
  "json_numeral v \<longleftrightarrow> v \<noteq> [] \<and> (hd v = CHR ''-'' \<or> json_digit (hd v))"

text \<open>
  \<open>foldName\<close>: letters to upper case, and the two runes whose case folding is an ASCII letter (the
  long s and the Kelvin sign).
\<close>

definition fold_upper :: "char \<Rightarrow> char" where
  "fold_upper c = (if 97 \<le> code c \<and> code c \<le> 122 then char_of (code c - 32) else c)"

fun fold_name :: "string \<Rightarrow> string" where
  "fold_name (a # b # c # s) =
     (if a = CHR 0xC5 \<and> b = CHR 0xBF then CHR ''S'' # fold_name (c # s)
      else if a = CHR 0xE2 \<and> b = CHR 0x84 \<and> c = CHR 0xAA then CHR ''K'' # fold_name s
      else fold_upper a # fold_name (b # c # s))"
| "fold_name [a, b] =
     (if a = CHR 0xC5 \<and> b = CHR 0xBF then [CHR ''S''] else [fold_upper a, fold_upper b])"
| "fold_name [a] = [fold_upper a]"
| "fold_name [] = []"

definition is_field :: "string \<Rightarrow> string \<Rightarrow> bool" where
  "is_field name rawkey \<longleftrightarrow> fold_name (unquote rawkey) = fold_name name"

text \<open>
  Decoding one value into a target that holds a value already: \<open>None\<close> is an \<open>UnmarshalTypeError\<close>.
\<close>

definition decode_string :: "string \<Rightarrow> string \<Rightarrow> string option" where
  "decode_string v old =
     (if v = ''null'' then Some old
      else if json_string v then Some (unquote (butlast (tl v)))
      else None)"

definition decode_int :: "string \<Rightarrow> int \<Rightarrow> int option" where
  "decode_int v old =
     (if v = ''null'' then Some old
      else if json_numeral v then ParseInt64 v
      else None)"

text \<open>
  A slice of strings is its backing array (the slots ever written, later ones being empty) and its
  length: decoding \<open>null\<close> into a slot leaves it, and a new empty array has no slots.
\<close>

fun decode_slots :: "string list \<Rightarrow> string list \<Rightarrow> string list option" where
  "decode_slots [] slots = Some slots"
| "decode_slots (v # vs) slots =
     (case decode_string v (case slots of [] \<Rightarrow> [] | x # xs \<Rightarrow> x) of
        None \<Rightarrow> None
      | Some x' \<Rightarrow> map_option (Cons x') (decode_slots vs (tl slots)))"

definition decode_strings :: "string \<Rightarrow> string list \<times> nat \<Rightarrow> (string list \<times> nat) option" where
  "decode_strings v old =
     (if v = ''null'' then Some ([], 0)
      else if json_array v then
        (if items_of v = [] then Some ([], 0)
         else map_option (\<lambda>slots. (slots, length (items_of v))) (decode_slots (items_of v) (fst old)))
      else None)"

text \<open>
  Decoding a body into a structure: its first value must be an object or \<open>null\<close>; each member is
  stored by \<open>f\<close>, and a type error in any of them is reported at the end.
\<close>

fun store_members :: "(string \<Rightarrow> string \<Rightarrow> 'a \<Rightarrow> 'a option) \<Rightarrow> (string \<times> string) list \<Rightarrow> 'a \<Rightarrow> 'a option" where
  "store_members f [] x = Some x"
| "store_members f ((k, v) # kvs) x = (case f k v x of None \<Rightarrow> None | Some x' \<Rightarrow> store_members f kvs x')"

definition decode_struct :: "(string \<Rightarrow> string \<Rightarrow> 'a \<Rightarrow> 'a option) \<Rightarrow> 'a \<Rightarrow> string \<Rightarrow> 'a option" where
  "decode_struct f x body =
     (case first_value body of
        None \<Rightarrow> None
      | Some v \<Rightarrow>
          if v = ''null'' then Some x
          else if json_object v then store_members f (members_of v) x
          else None)"

section \<open>Encoding\<close>

definition u00 :: "nat \<Rightarrow> string" where
  "u00 n = CHR 0x5C # ''u00'' @ [hex_digit (n div 16), hex_digit (n mod 16)]"

text \<open>\<open>appendString\<close> with HTML escaping, on the bytes between the quotes.\<close>

function escape :: "string \<Rightarrow> string" where
  "escape s =
     (case s of
        [] \<Rightarrow> []
      | c # cs \<Rightarrow>
          if code c < 128 then
            (if c = CHR 0x22 \<or> c = CHR 0x5C then [CHR 0x5C, c]
             else if c = CHR 0x08 then [CHR 0x5C, CHR ''b''] else if c = CHR 0x0C then [CHR 0x5C, CHR ''f'']
             else if c = CHR 0x0A then [CHR 0x5C, CHR ''n''] else if c = CHR 0x0D then [CHR 0x5C, CHR ''r'']
             else if c = CHR 0x09 then [CHR 0x5C, CHR ''t'']
             else if code c < 32 \<or> c = CHR ''<'' \<or> c = CHR ''>'' \<or> c = CHR ''&'' then u00 (code c)
             else [c]) @ escape cs
          else if rune_width s = 0 then CHR 0x5C # ''ufffd'' @ escape cs
          else
            let w = rune_width s; r = take w s in
            (if r = encode_rune 8232 then CHR 0x5C # ''u2028''
             else if r = encode_rune 8233 then CHR 0x5C # ''u2029''
             else r) @ escape (drop w s))"
  by pat_completeness auto
termination
  by (relation "measure length") auto

declare escape.simps [simp del]

definition json_quote :: "string \<Rightarrow> string" where
  "json_quote s = CHR 0x22 # escape s @ [CHR 0x22]"

text \<open>
  \<open>appendCompact\<close> with HTML escaping, which the encoder runs on a \<open>json.RawMessage\<close>: outside strings
  it drops the spaces, inside strings (the first argument) it escapes what the encoder escapes.
\<close>

fun compact :: "bool \<Rightarrow> string \<Rightarrow> string" where
  "compact b [] = []"
| "compact False (c # cs) =
     (if json_space c then compact False cs
      else c # compact (c = CHR 0x22) cs)"
| "compact True (c # cs) =
     (if c = CHR 0x22 then c # compact False cs
      else if c = CHR 0x5C then c # (case cs of [] \<Rightarrow> [] | e # es \<Rightarrow> e # compact True es)
      else if c = CHR ''<'' \<or> c = CHR ''>'' \<or> c = CHR ''&'' then u00 (code c) @ compact True cs
      else if take 2 cs = [CHR 0x80, CHR 0xA8] \<and> c = CHR 0xE2 then CHR 0x5C # ''u2028'' @ compact True (drop 2 cs)
      else if take 2 cs = [CHR 0x80, CHR 0xA9] \<and> c = CHR 0xE2 then CHR 0x5C # ''u2029'' @ compact True (drop 2 cs)
      else c # compact True cs)"

text \<open>A JSON document; an array may be the \<open>null\<close> of a nil slice, \<open>JRaw\<close> is a raw message.\<close>

datatype json =
    JNull
  | JBool bool
  | JInt int
  | JString string
  | JArray "json list"
  | JObject "(string \<times> json) list"
  | JRaw string

fun commas :: "string list \<Rightarrow> string" where
  "commas [] = []"
| "commas [x] = x"
| "commas (x # y # zs) = x @ CHR '','' # commas (y # zs)"

fun encode :: "json \<Rightarrow> string" where
  "encode JNull = ''null''"
| "encode (JBool b) = (if b then ''true'' else ''false'')"
| "encode (JInt i) = show_int i"
| "encode (JString s) = json_quote s"
| "encode (JArray xs) = CHR ''['' # commas (map encode xs) @ [CHR '']'']"
| "encode (JObject kvs) =
     CHR ''{'' # commas (map (\<lambda>(k, v). json_quote k @ CHR '':'' # encode v) kvs) @ [CHR ''}'']"
| "encode (JRaw v) = compact False v"

text \<open>\<open>base64.StdEncoding\<close>, the form of a byte slice.\<close>

definition base64_digit :: "nat \<Rightarrow> char" where
  "base64_digit n =
     (if n < 26 then char_of (65 + n) else if n < 52 then char_of (71 + n)
      else if n < 62 then char_of (n - 4) else if n = 62 then CHR ''+'' else CHR ''/'')"

fun base64 :: "string \<Rightarrow> string" where
  "base64 [] = []"
| "base64 [a] =
     (let n = code a * 16 in [base64_digit (n div 64), base64_digit (n mod 64), CHR ''='', CHR ''=''])"
| "base64 [a, b] =
     (let n = (code a * 256 + code b) * 4 in
      [base64_digit (n div 4096), base64_digit (n div 64 mod 64), base64_digit (n mod 64), CHR ''=''])"
| "base64 (a # b # c # s) =
     (let n = (code a * 256 + code b) * 256 + code c in
      [base64_digit (n div 262144), base64_digit (n div 4096 mod 64), base64_digit (n div 64 mod 64),
       base64_digit (n mod 64)] @ base64 s)"

section \<open>Times\<close>

text \<open>
  The date of a day, counted from 1 January of the year 1: year, month and day of the month in the
  Gregorian calendar.
\<close>

definition leap_year :: "int \<Rightarrow> bool" where
  "leap_year y \<longleftrightarrow> y mod 4 = 0 \<and> (y mod 100 \<noteq> 0 \<or> y mod 400 = 0)"

definition year_day :: "int \<Rightarrow> int \<times> int" where
  "year_day d =
     (let n400 = d div 146097; r400 = d mod 146097;
          n100 = min 3 (r400 div 36524); r100 = r400 - n100 * 36524;
          n4 = r100 div 1461; r4 = r100 mod 1461;
          n1 = min 3 (r4 div 365)
      in (400 * n400 + 100 * n100 + 4 * n4 + n1 + 1, r4 - n1 * 365))"

fun month_day :: "int list \<Rightarrow> int \<Rightarrow> int \<Rightarrow> int \<times> int" where
  "month_day [] m d = (m, d + 1)"
| "month_day (n # ns) m d = (if d < n then (m, d + 1) else month_day ns (m + 1) (d - n))"

definition civil :: "int \<Rightarrow> int \<times> int \<times> int" where
  "civil day =
     (let (y, yd) = year_day day;
          (m, d) = month_day [31, if leap_year y then 29 else 28, 31, 30, 31, 30, 31, 31, 30, 31, 30] 1 yd
      in (y, m, d))"

definition pad :: "nat \<Rightarrow> int \<Rightarrow> string" where
  "pad w i = (let s = show_int i in replicate (w - length s) CHR ''0'' @ s)"

text \<open>
  A UTC time in the layout \<open>time.RFC3339Nano\<close>, with as many fractional digits as needed, and
  \<open>Time.MarshalJSON\<close>, which fails for a year beyond 9999.
\<close>

definition fraction :: "int \<Rightarrow> string" where
  "fraction ns =
     (if ns = 0 then [] else CHR ''.'' # rev (dropWhile (\<lambda>c. c = CHR ''0'') (rev (pad 9 ns))))"

definition rfc3339nano :: "gotime \<Rightarrow> string" where
  "rfc3339nano t =
     (let secs = t div 1000000000; (y, m, d) = civil (secs div 86400); sd = secs mod 86400 in
      pad 4 y @ CHR ''-'' # pad 2 m @ CHR ''-'' # pad 2 d @ CHR ''T'' # pad 2 (sd div 3600) @
        CHR '':'' # pad 2 (sd div 60 mod 60) @ CHR '':'' # pad 2 (sd mod 60) @ fraction (t mod 1000000000) @ ''Z'')"

definition time_json :: "gotime \<Rightarrow> string option" where
  "time_json t = (if fst (civil (t div 1000000000 div 86400)) > 9999 then None else Some (rfc3339nano t))"

section \<open>Decoded values are valid JSON\<close>

lemma scan_text_value:
  assumes "scan_text t = Some r"
  shows "json_Valid (take (length t - length r) t) \<and> take (length t - length r) t \<noteq> []"
  using scanned_value_valid [of "2 * length t + 2" maxNestingDepth t r] assms
  by (fastforce simp: scan_text_def)

lemma object_members_valid:
  "(k, v) \<in> set (object_members n s) \<Longrightarrow> json_Valid v \<and> v \<noteq> []"
proof (induction n s rule: object_members.induct)
  case (2 n s)
  obtain c cs where s1: "s = c # cs" using "2.prems" by (cases s) simp_all
  obtain r where s2: "scan_string cs = Some r" using "2.prems" s1 by (cases "scan_string cs") simp_all
  note s = s1 s2
  define t where "t = skip_ws (tl (skip_ws r))"
  obtain r2 where r2: "scan_text t = Some r2"
    using "2.prems" s by (cases "scan_text t") (simp_all add: t_def [symmetric])
  have "(k, v) = (take (length cs - length r - 1) cs, take (length t - length r2) t) \<or>
      (\<exists>ys. skip_ws r2 = CHR '','' # ys \<and> (k, v) \<in> set (object_members n (skip_ws ys)))"
    using "2.prems" s r2 by (auto simp: t_def Let_def split: list.splits if_splits)
  then show ?case
  proof
    assume "\<exists>ys. skip_ws r2 = CHR '','' # ys \<and> (k, v) \<in> set (object_members n (skip_ws ys))"
    then show ?thesis using "2.IH" [OF s(1,2) refl] t_def r2 by blast
  qed (use scan_text_value [OF r2] in simp)
qed simp

lemma members_of_valid: "(k, v) \<in> set (members_of x) \<Longrightarrow> json_Valid v \<and> v \<noteq> []"
  by (auto simp: members_of_def Let_def split: if_splits dest: object_members_valid)

lemma store_members_inv:
  assumes "store_members f kvs x = Some y" "P x" "\<forall>(k, v) \<in> set kvs. json_Valid v \<and> v \<noteq> []"
    and "\<And>k v z z'. f k v z = Some z' \<Longrightarrow> json_Valid v \<Longrightarrow> v \<noteq> [] \<Longrightarrow> P z \<Longrightarrow> P z'"
  shows "P y"
  using assms(1-3)
proof (induction kvs arbitrary: x)
  case (Cons kv kvs)
  obtain k v where kv: "kv = (k, v)" by fastforce
  obtain x' where x': "f k v x = Some x'" "store_members f kvs x' = Some y"
    using Cons.prems(1) kv by (auto split: option.splits)
  have "P x'" using assms(4) [OF x'(1)] Cons.prems(2,3) kv by simp
  then show ?case using Cons.IH [OF x'(2)] Cons.prems(3) by simp
qed simp

lemma decode_struct_inv:
  assumes "decode_struct f x body = Some y" "P x"
    and "\<And>k v z z'. f k v z = Some z' \<Longrightarrow> json_Valid v \<Longrightarrow> v \<noteq> [] \<Longrightarrow> P z \<Longrightarrow> P z'"
  shows "P y"
proof -
  obtain v where v: "first_value body = Some v" "v = ''null'' \<and> y = x \<or> store_members f (members_of v) x = Some y"
    using assms(1) by (auto simp: decode_struct_def split: option.splits if_splits)
  from v(2) show ?thesis
  proof
    assume "store_members f (members_of v) x = Some y"
    then show ?thesis
    proof (rule store_members_inv [where P = P and x = x])
      show "\<forall>(k, v) \<in> set (members_of v). json_Valid v \<and> v \<noteq> []" using members_of_valid by blast
    qed (use assms(2,3) in blast)+
  qed (use assms(2) in simp)
qed

end
