(* ===== verification/Go_JsonRound.thy ===== *)
theory Go_JsonRound
  imports Go_JsonCodec
begin

text \<open>
  What the encoder of \<open>encoding/json\<close> writes, its scanner and its decoder read back: a string comes
  back with its malformed bytes replaced, a document scans as one value, the members of an object
  are those that were encoded, and a compacted raw message is still a value.
\<close>

section \<open>Strings\<close>

text \<open>A string as the encoder makes it valid UTF-8: every byte of a malformed rune is replaced.\<close>

function to_valid :: "string \<Rightarrow> string" where
  "to_valid s =
     (case s of
        [] \<Rightarrow> []
      | c # cs \<Rightarrow>
          if rune_width s = 0 then replacement @ to_valid cs
          else take (rune_width s) s @ to_valid (drop (rune_width s) s))"
  by pat_completeness auto
termination
  by (relation "measure length") auto

declare to_valid.simps [simp del]

definition valid_utf8 :: "string \<Rightarrow> bool" where
  "valid_utf8 s \<longleftrightarrow> to_valid s = s"

lemma to_valid_Nil [simp]: "to_valid [] = []"
  by (simp add: to_valid.simps)

lemma escape_Nil [simp]: "escape [] = []"
  by (simp add: escape.simps)

lemma unquote_Nil [simp]: "unquote [] = []"
  by (simp add: unquote.simps)

lemma rune_width_ascii [simp]: "code c < 128 \<Longrightarrow> rune_width (c # cs) = 1"
  by (simp add: rune_width_def Let_def)

lemma to_valid_ascii:
  assumes "\<forall>c \<in> set s. code c < 128"
  shows "to_valid s = s"
  using assms by (induction s) (simp_all add: to_valid.simps [of "_ # _"])

lemma rune_width_le: "rune_width s \<le> length s"
  by (auto simp: rune_width_def Let_def Suc_le_eq length_greater_0_conv [symmetric] simp del: length_greater_0_conv split: list.splits)

text \<open>The width of a rune depends on its own bytes only, and the bytes after the first are not ASCII.\<close>

lemma rune_width_prefix:
  assumes "rune_width s \<noteq> 0"
  shows "rune_width (take (rune_width s) s @ t) = rune_width s"
proof (cases s)
  case (Cons c cs)
  show ?thesis
    using assms unfolding Cons rune_width_def
    by (cases cs; cases "tl cs"; cases "tl (tl cs)")
      (auto simp: Let_def nth_Cons' split: if_splits)
qed (use assms in \<open>simp add: rune_width_def\<close>)

lemma rune_cont:
  assumes "rune_width (c # cs) = Suc k" "128 \<le> code c" "i < k"
  shows "i < length cs \<and> 128 \<le> code (cs ! i)"
proof -
  define ok where "ok = (\<lambda>i. i < length cs \<and> cont_byte (cs ! i))"
  have "(k = 1 \<and> ok 0) \<or> (k = 2 \<and> ok 0 \<and> ok 1) \<or> (k = 3 \<and> ok 0 \<and> ok 1 \<and> ok 2)"
    using assms(1,2) unfolding rune_width_def Let_def ok_def by (auto split: if_splits)
  then have "ok i" using assms(3) by (auto simp: less_Suc_eq numeral_eq_Suc)
  then show ?thesis by (simp add: ok_def cont_byte_def)
qed

lemma rune_bytes:
  assumes "rune_width (c # cs) \<noteq> 0" "128 \<le> code c" "b \<in> set (take (rune_width (c # cs)) (c # cs))"
  shows "128 \<le> code b"
proof -
  obtain k where k: "rune_width (c # cs) = Suc k" using assms(1) by (cases "rune_width (c # cs)") simp_all
  then have "b = c \<or> (\<exists>i < k. i < length cs \<and> b = cs ! i)" using assms(3) by (auto simp: in_set_conv_nth)
  then show ?thesis using rune_cont [OF k assms(2)] assms(2) by blast
qed

definition plain_byte :: "char \<Rightarrow> bool" where
  "plain_byte c \<longleftrightarrow> c \<noteq> CHR 0x22 \<and> c \<noteq> CHR 0x5C \<and> 32 \<le> code c"

lemma scan_string_plain:
  "\<forall>c \<in> set xs. plain_byte c \<Longrightarrow> scan_string (xs @ t) = scan_string t"
  by (induction xs) (simp_all add: plain_byte_def)

lemma hex_val_hex_digit [simp]: "d < 16 \<Longrightarrow> hex_val (hex_digit d) = Some d"
  by (auto simp: hex_val_def hex_digit_def)

lemma scan_string_u4:
  assumes "hex_val a \<noteq> None" "hex_val b \<noteq> None" "hex_val c \<noteq> None" "hex_val d \<noteq> None"
  shows "scan_string (CHR 0x5C # CHR ''u'' # a # b # c # d # t) = scan_string t"
  using assms by simp

lemma unquote_u4:
  assumes "hex_val a = Some v1" "hex_val b = Some v2" "hex_val c = Some v3" "hex_val d = Some v4"
    and "r = ((v1 * 16 + v2) * 16 + v3) * 16 + v4" "r < 55296 \<or> 57344 \<le> r"
  shows "unquote (CHR 0x5C # CHR ''u'' # a # b # c # d # t) = encode_rune r @ unquote t"
proof -
  have "getu4 (CHR 0x5C # CHR ''u'' # a # b # c # d # t) = Some r"
    by (simp add: getu4_def assms(1-5))
  then show ?thesis using assms(6) by (subst unquote.simps) auto
qed

lemma unquote_rune:
  assumes "rune_width (c # cs) \<noteq> 0" "c \<noteq> CHR 0x5C"
  shows "unquote (take (rune_width (c # cs)) (c # cs) @ t) = take (rune_width (c # cs)) (c # cs) @ unquote t"
proof -
  let ?w = "rune_width (c # cs)"
  obtain k where k: "?w = Suc k" using assms(1) by (cases ?w) simp_all
  have w: "rune_width (c # take k cs @ t) = Suc k" using rune_width_prefix [of "c # cs" t] assms(1) k by simp
  have l: "length (take k cs) = k" using rune_width_le [of "c # cs"] k by simp
  show ?thesis using assms(2) w l k by (subst unquote.simps) simp
qed

lemma unquote_simple:
  assumes "e \<in> {CHR 0x22, CHR 0x5C, CHR ''b'', CHR ''f'', CHR ''n'', CHR ''r'', CHR ''t''}"
  shows "unquote (CHR 0x5C # e # t) = simple_escape e # unquote t"
  using assms by (subst unquote.simps) (auto simp: getu4_def split: list.splits)


text \<open>One rune of a string: what the encoder writes for it, and what is read back.\<close>

lemma escape_step:
  assumes "s \<noteq> []"
  obtains rest out val where "length rest < length s" "escape s = out @ escape rest" "to_valid s = val @ to_valid rest"
    "\<And>t. scan_string (out @ t) = scan_string t" "\<And>t. unquote (out @ t) = val @ unquote t" "out \<noteq> []"
proof -
  obtain c cs where s: "s = c # cs" using assms by (cases s) simp_all
  consider (simple) e where "code c < 128" "escape s = CHR 0x5C # e # escape cs" "simple_escape e = c"
      "e \<in> {CHR 0x22, CHR 0x5C, CHR ''b'', CHR ''f'', CHR ''n'', CHR ''r'', CHR ''t''}"
    | (u00) "code c < 128" "escape s = u00 (code c) @ escape cs"
    | (plain) "code c < 128" "escape s = c # escape cs" "plain_byte c"
    | (bad) "128 \<le> code c" "rune_width s = 0"
    | (rune) "128 \<le> code c" "rune_width s \<noteq> 0"
  proof (cases "code c < 128")
    case True
    then have e: "escape s = (if c = CHR 0x22 \<or> c = CHR 0x5C then [CHR 0x5C, c]
         else if c = CHR 0x08 then [CHR 0x5C, CHR ''b''] else if c = CHR 0x0C then [CHR 0x5C, CHR ''f'']
         else if c = CHR 0x0A then [CHR 0x5C, CHR ''n''] else if c = CHR 0x0D then [CHR 0x5C, CHR ''r'']
         else if c = CHR 0x09 then [CHR 0x5C, CHR ''t'']
         else if code c < 32 \<or> c = CHR ''<'' \<or> c = CHR ''>'' \<or> c = CHR ''&'' then u00 (code c) else [c]) @ escape cs"
      by (simp add: s escape.simps [of "c # cs"])
    have simple: "thesis" if "escape s = CHR 0x5C # e # escape cs" "simple_escape e = c"
        "e \<in> {CHR 0x22, CHR 0x5C, CHR ''b'', CHR ''f'', CHR ''n'', CHR ''r'', CHR ''t''}" for e
      using \<open>\<And>e. code c < 128 \<Longrightarrow> escape s = CHR 0x5C # e # escape cs \<Longrightarrow> simple_escape e = c \<Longrightarrow>
        e \<in> {CHR 0x22, CHR 0x5C, CHR ''b'', CHR ''f'', CHR ''n'', CHR ''r'', CHR ''t''} \<Longrightarrow> thesis\<close> True that by blast
    consider "c = CHR 0x22 \<or> c = CHR 0x5C" | "c = CHR 0x08" | "c = CHR 0x0C" | "c = CHR 0x0A" | "c = CHR 0x0D" | "c = CHR 0x09"
      | "escape s = u00 (code c) @ escape cs" | "escape s = c # escape cs" "plain_byte c"
      using e by (auto simp: plain_byte_def split: if_splits)
    then show thesis
    proof cases
      case 1
      then show thesis using simple [of c] e by (auto simp: simple_escape_def)
    next
      case 2
      then show thesis using simple [of "CHR ''b''"] e by (simp add: simple_escape_def)
    next
      case 3
      then show thesis using simple [of "CHR ''f''"] e by (simp add: simple_escape_def)
    next
      case 4
      then show thesis using simple [of "CHR ''n''"] e by (simp add: simple_escape_def)
    next
      case 5
      then show thesis using simple [of "CHR ''r''"] e by (simp add: simple_escape_def)
    next
      case 6
      then show thesis using simple [of "CHR ''t''"] e by (simp add: simple_escape_def)
    qed (use True that(2,3) in blast)+
  next
    case False
    then show ?thesis using that(4,5) by linarith
  qed
  then show thesis
  proof cases
    case simple
    show ?thesis
      by (rule that [of cs "[CHR 0x5C, e]" "[c]"])
        (use simple in \<open>auto simp: s to_valid.simps [of "c # cs"] unquote_simple escape_chars_def\<close>)
  next
    case u00
    show ?thesis
    proof (rule that [of cs "u00 (code c)" "[c]"])
      have d: "code c div 16 < 16" "code c mod 16 < 16" using u00(1) by auto
      show "scan_string (u00 (code c) @ t) = scan_string t" for t
        using d by (simp add: u00_def hex_val_def [of "CHR ''0''"])
      show "unquote (u00 (code c) @ t) = [c] @ unquote t" for t
        using unquote_u4 [of "CHR ''0''" 0 "CHR ''0''" 0 "hex_digit (code c div 16)" "code c div 16" "hex_digit (code c mod 16)"
            "code c mod 16" "code c" t] d u00(1)
        by (simp add: u00_def hex_val_def [of "CHR ''0''"] encode_rune_def)
    qed (use u00 in \<open>simp_all add: s to_valid.simps [of "c # cs"] u00_def\<close>)
  next
    case plain
    show ?thesis
    proof (rule that [of cs "[c]" "[c]"])
      show "unquote ([c] @ t) = [c] @ unquote t" for t
        using unquote_rune [of c cs t] plain(1,3) by (simp add: plain_byte_def)
    qed (use plain scan_string_plain [of "[c]"] in \<open>simp_all add: s to_valid.simps [of "c # cs"] del: scan_string.simps\<close>)
  next
    case bad
    have u: "unquote (CHR 0x5C # ''ufffd'' @ t) = replacement @ unquote t" for t
      using unquote_u4 [of "CHR ''f''" 15 "CHR ''f''" 15 "CHR ''f''" 15 "CHR ''d''" 13 65533 t]
      by (simp add: hex_val_def replacement_def)
    show ?thesis
      by (rule that [of cs "CHR 0x5C # ''ufffd''" replacement])
        (use bad u in \<open>auto simp: s escape.simps [of "c # cs"] to_valid.simps [of "c # cs"] hex_val_def\<close>)
  next
    case rune
    define w where "w = rune_width s"
    define r where "r = take w s"
    have e: "escape s = (if r = encode_rune 8232 then CHR 0x5C # ''u2028''
             else if r = encode_rune 8233 then CHR 0x5C # ''u2029'' else r) @ escape (drop w s)"
      using rune by (simp add: s escape.simps [of "c # cs"] w_def r_def Let_def)
    have v: "to_valid s = r @ to_valid (drop w s)"
      using rune by (simp add: s to_valid.simps [of "c # cs"] w_def r_def)
    have l: "length (drop w s) < length s" using rune s by (simp add: w_def)
    have u: "unquote (CHR 0x5C # ''u2028'' @ t) = encode_rune 8232 @ unquote t"
        "unquote (CHR 0x5C # ''u2029'' @ t) = encode_rune 8233 @ unquote t" for t
      using unquote_u4 [of "CHR ''2''" 2 "CHR ''0''" 0 "CHR ''2''" 2 "CHR ''8''" 8 8232 t]
        unquote_u4 [of "CHR ''2''" 2 "CHR ''0''" 0 "CHR ''2''" 2 "CHR ''9''" 9 8233 t]
      by (simp_all add: hex_val_def)
    consider "r = encode_rune 8232" | "r = encode_rune 8233" "r \<noteq> encode_rune 8232"
      | "r \<noteq> encode_rune 8232" "r \<noteq> encode_rune 8233" by blast
    then show ?thesis
    proof cases
      case 1
      show ?thesis
        by (rule that [of "drop w s" "CHR 0x5C # ''u2028''" r]) (use 1 e v l u in \<open>auto simp: hex_val_def\<close>)
    next
      case 2
      show ?thesis
        by (rule that [of "drop w s" "CHR 0x5C # ''u2029''" r]) (use 2 e v l u in \<open>auto simp: hex_val_def\<close>)
    next
      case 3
      have "plain_byte b" if "b \<in> set r" for b
        using rune_bytes [of c cs b] rune that unfolding r_def w_def s plain_byte_def by fastforce
      then have "scan_string (r @ t) = scan_string t" for t using scan_string_plain by blast
      moreover have "unquote (r @ t) = r @ unquote t" for t
        using unquote_rune [of c cs t] rune unfolding r_def w_def s by force
      moreover have "r \<noteq> []" using rune s by (simp add: r_def w_def)
      ultimately show ?thesis using 3 e v l that [of "drop w s" r r] by simp
    qed
  qed
qed

lemma scan_string_escape: "scan_string (escape s @ CHR 0x22 # t) = Some t"
proof (induction s rule: length_induct)
  case (1 s)
  show ?case
  proof (cases "s = []")
    case False
    then show ?thesis using escape_step [OF False] 1 by (metis append_assoc)
  qed simp
qed

theorem unquote_escape: "unquote (escape s) = to_valid s"
proof (induction s rule: length_induct)
  case (1 s)
  show ?case
  proof (cases "s = []")
    case False
    then show ?thesis using escape_step [OF False] 1 by metis
  qed simp
qed

section \<open>Compacted values\<close>

lemma skip_ws_hd: "skip_ws s = x # xs \<Longrightarrow> \<not> json_space x"
  using hd_dropWhile [of json_space s] by (simp add: skip_ws_def)

lemma skip_ws_nonspace [simp]: "\<not> json_space c \<Longrightarrow> skip_ws (c # cs) = c # cs"
  by (simp add: skip_ws_def)

lemma compact_skip_ws: "compact False (skip_ws s) = compact False s"
  by (induction s) (simp_all add: skip_ws_def)

lemma compact_Cons:
  assumes "skip_ws s = x # xs"
  shows "compact False s = x # compact (x = CHR 0x22) xs"
  using assms skip_ws_hd [OF assms] by (simp add: compact_skip_ws [of s, symmetric])

lemma skip_ws_compact:
  assumes "skip_ws s = x # xs"
  shows "skip_ws (compact False s @ z) = compact False (x # xs) @ z"
  using skip_ws_hd [OF assms] by (simp add: compact_Cons [OF assms])

text \<open>Tokens hold no white space and no quote, so that compacting leaves them.\<close>

definition token :: "string \<Rightarrow> string \<Rightarrow> bool" where
  "token s r \<longleftrightarrow> (\<exists>xs. s = xs @ r \<and> (\<forall>c \<in> set xs. \<not> json_space c \<and> c \<noteq> CHR 0x22))"

lemma token_refl: "token s s"
  by (simp add: token_def)

lemma token_Cons: "\<not> json_space c \<Longrightarrow> c \<noteq> CHR 0x22 \<Longrightarrow> token s r \<Longrightarrow> token (c # s) r"
  unfolding token_def by (metis append_Cons set_ConsD)

lemma token_trans: "token s r \<Longrightarrow> token r r' \<Longrightarrow> token s r'"
  unfolding token_def by (metis append.assoc Un_iff set_append)

lemma digit_token: "json_digit c \<Longrightarrow> \<not> json_space c \<and> c \<noteq> CHR 0x22"
  by (auto simp: json_digit_def json_space_def)

lemma token_digits: "token s (dropWhile json_digit s)"
  unfolding token_def
  by (rule exI [of _ "takeWhile json_digit s"]) (auto dest: set_takeWhileD digit_token)

lemma token_digit: "json_digit c \<Longrightarrow> token s r \<Longrightarrow> token (c # s) r"
  using digit_token token_Cons by blast

lemma token_digits1: "digits1 s = Some r \<Longrightarrow> token s r"
  by (auto simp: digits1_def intro: token_digit token_digits split: list.splits if_splits)

lemma not_space_punct [simp]:
  "\<not> json_space CHR ''0''" "\<not> json_space CHR ''.''" "\<not> json_space CHR ''e''" "\<not> json_space CHR ''E''" "\<not> json_space CHR ''+''"
  "\<not> json_space CHR ''-''" "\<not> json_space CHR ''{''" "\<not> json_space CHR ''[''" "\<not> json_space CHR ''}''" "\<not> json_space CHR '']''"
  "\<not> json_space CHR '',''" "\<not> json_space CHR '':''" "\<not> json_space CHR 0x22"
  by (simp_all add: json_space_def)

lemma token_integer: "scan_integer s = Some r \<Longrightarrow> token s r"
  by (auto simp: scan_integer_def intro: token_digit token_digits token_refl token_Cons split: list.splits if_splits)

lemma token_fraction: "scan_fraction s = Some r \<Longrightarrow> token s r"
  by (cases s) (auto simp: scan_fraction_def token_refl intro!: token_Cons dest: token_digits1 split: if_splits)

lemma token_exponent:
  assumes "scan_exponent s = Some r"
  shows "token s r"
proof (cases "\<exists>c cs. s = c # cs \<and> (c = CHR ''e'' \<or> c = CHR ''E'')")
  case True
  then obtain c cs where s: "s = c # cs" "c = CHR ''e'' \<or> c = CHR ''E''" by blast
  then have "token cs r"
    using assms by (auto simp: scan_exponent_def token_digits1 intro: token_Cons split: list.splits if_splits)
  then show ?thesis using s by (auto intro: token_Cons)
qed (use assms in \<open>auto simp: scan_exponent_def token_refl split: list.splits if_splits\<close>)

lemma token_number:
  assumes "scan_number s = Some r"
  shows "token s r"
proof -
  obtain c cs where s: "s = c # cs" using assms by (cases s) (simp_all add: scan_number_def)
  obtain r1 r2 where "scan_integer (if c = CHR ''-'' then cs else s) = Some r1" "scan_fraction r1 = Some r2" "scan_exponent r2 = Some r"
    using assms s by (auto simp: scan_number_def split: option.splits)
  then have "token (if c = CHR ''-'' then cs else s) r"
    using token_integer token_fraction token_exponent token_trans by blast
  then show ?thesis using s by (auto intro: token_Cons split: if_splits)
qed

lemma token_literal:
  assumes "scan_literal s = Some r"
  shows "token s r"
proof -
  consider "s = ''true'' @ r" | "s = ''false'' @ r" | "s = ''null'' @ r"
    using assms unfolding scan_literal_def by (auto simp: strip_prefix_Some split: option.splits)
  then show ?thesis unfolding token_def by cases (force simp: json_space_def)+
qed

lemma compact_token:
  assumes "token s r"
  obtains xs where "s = xs @ r" "compact False s = xs @ compact False r"
proof -
  obtain xs where x: "s = xs @ r" "\<forall>c \<in> set xs. \<not> json_space c \<and> c \<noteq> CHR 0x22" using assms by (auto simp: token_def)
  then have "compact False (xs @ r) = xs @ compact False r" by (induction xs arbitrary: s) simp_all
  then show thesis using that x(1) by simp
qed

text \<open>What may follow a value that is compacted in front of \<open>z\<close>.\<close>

definition stops :: "string \<Rightarrow> string \<Rightarrow> bool" where
  "stops r z \<longleftrightarrow> skip_ws r @ z = [] \<or> number_end (hd (skip_ws r @ z))"

lemma rep_compact:
  assumes "stops r z"
  shows "rep r (compact False r @ z)"
proof (cases "skip_ws r")
  case Nil
  then have "compact False r = []" using compact_skip_ws [of r] by simp
  then show ?thesis using assms Nil by (auto simp: stops_def rep_def)
next
  case (Cons x xs)
  then show ?thesis using assms compact_Cons [OF Cons] by (simp add: stops_def rep_def)
qed

lemma compact_reads:
  assumes "token s r" "reads f s r" "stops r z"
  shows "f (compact False s @ z) = Some (compact False r @ z)"
proof -
  obtain xs where x: "s = xs @ r" "compact False s = xs @ compact False r" using compact_token [OF assms(1)] .
  obtain ys where "s = ys @ r" "\<And>r'. rep r r' \<Longrightarrow> f (ys @ r') = Some r'" using reads_append [OF assms(2)] by metis
  then show ?thesis using x rep_compact [OF assms(3)] by simp
qed

lemma scan_string_compact:
  "scan_string s = Some r \<Longrightarrow> scan_string (compact True s @ z) = Some (compact False r @ z)"
proof (induction s rule: length_induct)
  case (1 s)
  then obtain c cs where s: "s = c # cs" by (cases s) simp_all
  have IH: "scan_string t = Some r \<Longrightarrow> length t < length s \<Longrightarrow> scan_string (compact True t @ z) = Some (compact False r @ z)" for t
    using 1 by blast
  from 1(2) [unfolded s] show ?case
  proof (cases rule: scan_string_SomeE)
    case (unicode h1 h2 h3 h4 rest)
    have h: "compact True (h # t) = h # compact True t" if "hex_val h \<noteq> None" for h t
    proof -
      have "hex_val CHR 0x22 = None \<and> hex_val CHR 0x5C = None \<and> hex_val CHR ''<'' = None \<and> hex_val CHR ''>'' = None \<and>
          hex_val CHR ''&'' = None \<and> hex_val CHR 0xE2 = None"
        by (simp add: hex_val_def)
      then have "h \<noteq> CHR 0x22 \<and> h \<noteq> CHR 0x5C \<and> h \<noteq> CHR ''<'' \<and> h \<noteq> CHR ''>'' \<and> h \<noteq> CHR ''&'' \<and> h \<noteq> CHR 0xE2"
        using that by metis
      then show ?thesis by simp
    qed
    have "compact True (c # cs) = CHR 0x5C # CHR ''u'' # h1 # h2 # h3 # h4 # compact True rest"
      unfolding unicode(1,2) using h [OF unicode(4)] h [OF unicode(5)] h [OF unicode(6)] h [OF unicode(7)] by simp
    moreover have "scan_string (compact True rest @ z) = Some (compact False r @ z)" using IH unicode s by simp
    ultimately show ?thesis using scan_string_u4 [OF unicode(4-7)] by (simp add: s del: scan_string.simps compact.simps)
  next
    case (escape e es)
    then show ?thesis using IH [of es] by (simp add: s)
  next
    case plain
    have step: "scan_string (compact True (c # cs) @ z) = scan_string (compact True t @ z)"
      if "compact True (c # cs) = out @ compact True t" "\<And>y. scan_string (out @ y) = scan_string y" for t out
      using that by simp
    have E2: "scan_string cs = scan_string (drop 2 cs)" if "take 2 cs = [CHR 0x80, x]" "x = CHR 0xA8 \<or> x = CHR 0xA9" for x
      using that by (cases cs; cases "tl cs") auto
    consider (html) "c = CHR ''<'' \<or> c = CHR ''>'' \<or> c = CHR ''&''"
      | (sep) x where "c = CHR 0xE2" "take 2 cs = [CHR 0x80, x]" "x = CHR 0xA8 \<or> x = CHR 0xA9"
      | (byte) "\<not> (c = CHR ''<'' \<or> c = CHR ''>'' \<or> c = CHR ''&'')" "c = CHR 0xE2 \<longrightarrow> take 2 cs \<notin> {[CHR 0x80, CHR 0xA8], [CHR 0x80, CHR 0xA9]}"
      by blast
    then show ?thesis
    proof cases
      case html
      then have "compact True (c # cs) = u00 (code c) @ compact True cs" by auto
      moreover have "scan_string (u00 (code c) @ y) = scan_string y" for y
        using html by (auto simp: u00_def hex_val_def hex_digit_def)
      ultimately show ?thesis using IH [of cs] plain by (simp add: s)
    next
      case sep
      have "scan_string (drop 2 cs) = Some r" using E2 sep plain by simp
      then have "scan_string (compact True (drop 2 cs) @ z) = Some (compact False r @ z)" using IH [of "drop 2 cs"] by (simp add: s)
      then show ?thesis using sep by (auto simp: hex_val_def s)
    next
      case byte
      then have "compact True (c # cs) = c # compact True cs" using plain by auto
      then show ?thesis using plain IH [of cs] by (simp add: s del: compact.simps)
    qed
  qed (simp add: s)
qed

lemma stops_punct: "skip_ws r = y # ys \<Longrightarrow> number_end y \<Longrightarrow> stops r z"
  by (simp add: stops_def)

lemma scan_value_nonspace:
  assumes "scan_value n d s = Some r"
  shows "\<exists>x xs. s = x # xs \<and> \<not> json_space x"
proof -
  obtain m x xs where s: "n = Suc m" "s = x # xs" using assms by (cases n; cases s) (simp_all add: scan_value.simps)
  have "\<not> json_space x"
  proof
    assume "json_space x"
    then have "\<not> json_digit x" "x \<noteq> CHR ''{''" "x \<noteq> CHR ''[''" "x \<noteq> CHR 0x22" "x \<noteq> CHR ''-''" "x \<noteq> CHR ''t''" "x \<noteq> CHR ''f''" "x \<noteq> CHR ''n''"
      by (auto simp: json_space_def json_digit_def)
    then show False using assms s by (simp add: scan_value_leaf scan_literal_def)
  qed
  then show ?thesis using s by simp
qed

lemma scan_members_nonempty: "scan_members n d s = Some r \<Longrightarrow> s \<noteq> []"
  by (cases n) (auto simp: scan_members.simps)

lemma scan_elements_nonempty: "scan_elements n d s = Some r \<Longrightarrow> s \<noteq> []"
  by (cases n) (auto simp: scan_elements.simps dest!: scan_value_nonspace split: option.splits)

lemma compact_value_step:
  assumes members: "\<And>d s r z. scan_members n d s = Some r \<Longrightarrow> scan_members n d (compact False s @ z) = Some (compact False r @ z)"
    and elements: "\<And>d s r z. scan_elements n d s = Some r \<Longrightarrow> scan_elements n d (compact False s @ z) = Some (compact False r @ z)"
    and res: "scan_value (Suc n) d s = Some r" and stop: "stops r z"
  shows "scan_value (Suc n) d (compact False s @ z) = Some (compact False r @ z)"
proof -
  obtain c cs where s: "s = c # cs" using res by (cases s) (simp_all add: scan_value.simps)
  consider (bracket) k where "c = CHR ''{'' \<and> k = CHR ''}'' \<or> c = CHR ''['' \<and> k = CHR '']''" | (str) "c = CHR 0x22"
    | (number) "c = CHR ''-'' \<or> json_digit c"
    | (literal) "c \<noteq> CHR ''{''" "c \<noteq> CHR ''[''" "c \<noteq> CHR 0x22" "c \<noteq> CHR ''-''" "\<not> json_digit c"
    by blast
  then show ?thesis
  proof cases
    case (bracket k)
    define g where "g = (if c = CHR ''{'' then scan_members else scan_elements)"
    have g: "g n d s = Some r \<Longrightarrow> g n d (compact False s @ z) = Some (compact False r @ z)" for d s r
      using members elements by (simp add: g_def split: if_splits)
    have d: "0 < d" using res s bracket by (cases d) (auto simp: scan_value.simps)
    have eq: "scan_value (Suc n) d (c # y) = (case skip_ws y of [] \<Rightarrow> None
        | x # xs \<Rightarrow> if x = k then Some xs else g n (d - 1) (x # xs))" for y
      using bracket
    proof
      assume "c = CHR ''{'' \<and> k = CHR ''}''"
      then show ?thesis using d by (simp add: scan_value.simps g_def split: list.split)
    next
      assume "c = CHR ''['' \<and> k = CHR '']''"
      then show ?thesis using d by (simp add: scan_value.simps g_def split: list.split)
    qed
    obtain x xs where x: "skip_ws cs = x # xs" "x = k \<and> r = xs \<or> x \<noteq> k \<and> g n (d - 1) (x # xs) = Some r"
      using res eq s by (auto split: list.splits if_splits)
    have c: "compact False s = c # compact False cs" using s bracket by auto
    have sk: "skip_ws (compact False cs @ z) = x # compact (x = CHR 0x22) xs @ z"
      using skip_ws_compact [OF x(1), of z] skip_ws_hd [OF x(1)] by simp
    have xx: "compact False (x # xs) = x # compact (x = CHR 0x22) xs" using skip_ws_hd [OF x(1)] by simp
    have k: "k \<noteq> CHR 0x22" using bracket by auto
    show ?thesis
      using x(2) g [of "d - 1" "x # xs" r] k unfolding c append_Cons eq sk xx by auto
  next
    case str
    then have "scan_string cs = Some r" using res s by (simp add: scan_value_leaf)
    then show ?thesis using scan_string_compact [of cs r z] str by (simp add: s scan_value_leaf)
  next
    case number
    then have r: "scan_number s = Some r" using res s by (simp add: scan_value_leaf)
    have "compact False s = c # compact False cs" using number by (auto simp: s digit_token)
    then show ?thesis
      using compact_reads [OF token_number [OF r] reads_number [OF r] stop] number by (simp add: scan_value_leaf)
  next
    case literal
    then have r: "scan_literal s = Some r" using res s by (simp add: scan_value_leaf)
    have "c \<in> {CHR ''t'', CHR ''f'', CHR ''n''}" using r s by (auto simp: scan_literal_def strip_prefix_Some split: option.splits if_splits)
    then have "compact False s = c # compact False cs" by (auto simp: s json_space_def)
    then show ?thesis
      using compact_reads [OF token_literal [OF r] reads_literal [OF r] stop] literal by (simp add: scan_value_leaf)
  qed
qed

lemma compact_elements_step:
  assumes vals: "\<And>d s r z. scan_value n d s = Some r \<Longrightarrow> stops r z \<Longrightarrow> scan_value n d (compact False s @ z) = Some (compact False r @ z)"
    and elements: "\<And>d s r z. scan_elements n d s = Some r \<Longrightarrow> scan_elements n d (compact False s @ z) = Some (compact False r @ z)"
    and res: "scan_elements (Suc n) d s = Some r"
  shows "scan_elements (Suc n) d (compact False s @ z) = Some (compact False r @ z)"
proof -
  obtain r2 y ys where r2: "scan_value n d s = Some r2" "skip_ws r2 = y # ys"
    and y: "y = CHR '','' \<and> scan_elements n d (skip_ws ys) = Some r \<or> y = CHR '']'' \<and> ys = r"
    using res by (auto simp: scan_elements.simps split: option.splits list.splits if_splits)
  have v: "scan_value n d (compact False s @ z) = Some (compact False r2 @ z)"
    using vals [OF r2(1) stops_punct [OF r2(2)]] y by auto
  have sk: "skip_ws (compact False r2 @ z) = y # compact False ys @ z"
    using skip_ws_compact [OF r2(2), of z] skip_ws_hd [OF r2(2)] y by auto
  have "scan_elements n d (skip_ws (compact False ys @ z)) = Some (compact False r @ z)" if "y = CHR '',''"
  proof -
    have e: "scan_elements n d (skip_ws ys) = Some r" using that y by auto
    then obtain x xs where "skip_ws ys = x # xs" using scan_elements_nonempty by (cases "skip_ws ys") auto
    then show ?thesis using elements [OF e, of z] skip_ws_compact [of ys x xs z] by (simp add: compact_skip_ws)
  qed
  then show ?thesis using v sk y by (auto simp: scan_elements.simps)
qed

lemma compact_members_step:
  assumes vals: "\<And>d s r z. scan_value n d s = Some r \<Longrightarrow> stops r z \<Longrightarrow> scan_value n d (compact False s @ z) = Some (compact False r @ z)"
    and members: "\<And>d s r z. scan_members n d s = Some r \<Longrightarrow> scan_members n d (compact False s @ z) = Some (compact False r @ z)"
    and res: "scan_members (Suc n) d s = Some r"
  shows "scan_members (Suc n) d (compact False s @ z) = Some (compact False r @ z)"
proof -
  obtain cs r0 xs0 r2 y ys where r0: "s = CHR 0x22 # cs" "scan_string cs = Some r0" "skip_ws r0 = CHR '':'' # xs0"
    and r2: "scan_value n d (skip_ws xs0) = Some r2" "skip_ws r2 = y # ys"
    and y: "y = CHR '','' \<and> scan_members n d (skip_ws ys) = Some r \<or> y = CHR ''}'' \<and> ys = r"
    using res by (auto simp: scan_members.simps split: option.splits list.splits if_splits)
  have k: "scan_string (compact True cs @ z) = Some (compact False r0 @ z)" by (rule scan_string_compact [OF r0(2)])
  have sk0: "skip_ws (compact False r0 @ z) = CHR '':'' # compact False xs0 @ z"
    using skip_ws_compact [OF r0(3), of z] by simp
  obtain x xs where x: "skip_ws xs0 = x # xs" using scan_value_nonspace [OF r2(1)] by auto
  have v: "scan_value n d (skip_ws (compact False xs0 @ z)) = Some (compact False r2 @ z)"
    using vals [OF r2(1) stops_punct [OF r2(2)], of z] y skip_ws_compact [OF x, of z] x by (auto simp: compact_skip_ws)
  have sk: "skip_ws (compact False r2 @ z) = y # compact False ys @ z"
    using skip_ws_compact [OF r2(2), of z] skip_ws_hd [OF r2(2)] y by auto
  have "scan_members n d (skip_ws (compact False ys @ z)) = Some (compact False r @ z)" if "y = CHR '',''"
  proof -
    have e: "scan_members n d (skip_ws ys) = Some r" using that y by auto
    then obtain x xs where "skip_ws ys = x # xs" using scan_members_nonempty by (cases "skip_ws ys") auto
    then show ?thesis using members [OF e, of z] skip_ws_compact [of ys x xs z] by (simp add: compact_skip_ws)
  qed
  then show ?thesis using r0(1) k sk0 v sk y by (auto simp: scan_members.simps)
qed

lemma scan_compact:
  shows "scan_value n d s = Some r \<Longrightarrow> stops r z \<Longrightarrow> scan_value n d (compact False s @ z) = Some (compact False r @ z)"
    and "scan_members n d s = Some r \<Longrightarrow> scan_members n d (compact False s @ z) = Some (compact False r @ z)"
    and "scan_elements n d s = Some r \<Longrightarrow> scan_elements n d (compact False s @ z) = Some (compact False r @ z)"
proof (induction n arbitrary: d s r z)
  case 0
  {
    case 1
    then show ?case by (simp add: scan_value.simps)
  next
    case 2
    then show ?case by (simp add: scan_members.simps)
  next
    case 3
    then show ?case by (simp add: scan_elements.simps)
  }
next
  case (Suc n)
  {
    case 1
    then show ?case using compact_value_step Suc.IH by blast
  next
    case 2
    then show ?case using compact_members_step Suc.IH by blast
  next
    case 3
    then show ?case using compact_elements_step Suc.IH by blast
  }
qed

section \<open>Documents\<close>

text \<open>A text that scans as one value within a depth, whatever byte that ends a number follows it.\<close>

definition value_text :: "nat \<Rightarrow> string \<Rightarrow> bool" where
  "value_text d e \<longleftrightarrow> e \<noteq> [] \<and> (\<forall>z n d'. d \<le> d' \<longrightarrow> 2 * length e + 1 \<le> n \<longrightarrow> rep [] z \<longrightarrow> scan_value n d' (e @ z) = Some z)"

lemma value_text_scan:
  "value_text d e \<Longrightarrow> d \<le> d' \<Longrightarrow> 2 * length e + 1 \<le> n \<Longrightarrow> rep [] z \<Longrightarrow> scan_value n d' (e @ z) = Some z"
  by (simp add: value_text_def)

lemma rep_Nil_left: "rep [] z \<longleftrightarrow> z = [] \<or> number_end (hd z)"
  by (simp add: rep_def)

lemma value_textI:
  assumes "\<And>z n d'. d \<le> d' \<Longrightarrow> 2 * length e \<le> n \<Longrightarrow> rep [] z \<Longrightarrow> scan_value (Suc n) d' (e @ z) = Some z" "e \<noteq> []"
  shows "value_text d e"
  unfolding value_text_def
proof (intro conjI allI impI)
  fix z n d'
  assume a: "d \<le> d'" "2 * length e + 1 \<le> n" "rep [] z"
  then obtain m where "n = Suc m" by (cases n) auto
  then show "scan_value n d' (e @ z) = Some z" using assms(1) [of d' m z] a by simp
qed (rule assms(2))

lemma value_text_nonspace:
  assumes "value_text d e"
  obtains x xs where "e = x # xs" "\<not> json_space x"
  using scan_value_nonspace [OF value_text_scan [OF assms order_refl order_refl rep_Nil]] by auto

lemma value_text_skip [simp]: "value_text d e \<Longrightarrow> skip_ws (e @ z) = e @ z"
  by (erule value_text_nonspace) simp

lemma value_text_scan_text:
  assumes "value_text d e" "d \<le> maxNestingDepth" "rep [] z"
  shows "scan_text (e @ z) = Some z"
  unfolding scan_text_def by (rule value_text_scan [OF assms(1,2) _ assms(3)]) simp

subsection \<open>Numbers\<close>

lemma hd_show_nat: "10 \<le> n \<Longrightarrow> hd (show_nat n) \<noteq> CHR ''0''"
proof (induction n rule: show_nat.induct)
  case (1 n)
  have s: "show_nat n = show_nat (n div 10) @ [digit_char (n mod 10)]" using 1(2) by (simp add: show_nat.simps [of n])
  show ?case
  proof (cases "10 \<le> n div 10")
    case True
    then show ?thesis using 1 s by (simp add: hd_append)
  next
    case False
    then have "show_nat (n div 10) = [digit_char (n div 10)]" by (simp add: show_nat.simps [of "n div 10"])
    moreover have "digit_char (n div 10) \<noteq> CHR ''0''"
    proof
      assume "digit_char (n div 10) = CHR ''0''"
      then have "code (digit_char (n div 10)) = 48" by simp
      then show False using 1(2) False by simp
    qed
    ultimately show ?thesis using s by simp
  qed
qed

lemma scan_integer_show_nat:
  assumes "rep [] z"
  shows "scan_integer (show_nat n @ z) = Some z"
proof -
  have d: "\<forall>c \<in> set (show_nat n). json_digit c" using show_nat_digits by (auto simp: json_digit_def)
  have z: "dropWhile json_digit z = z" using assms by (cases z) (auto simp: rep_Nil_left number_end_def)
  obtain c cs where c: "show_nat n = c # cs" using show_nat_not_Nil by (cases "show_nat n") blast+
  have "dropWhile json_digit (cs @ z) = z" using d c z by simp
  moreover have "cs = []" if "c = CHR ''0''"
  proof (rule ccontr)
    assume "cs \<noteq> []"
    then have "10 \<le> n" using c by (cases "n < 10") (simp_all add: show_nat.simps [of n])
    then show False using hd_show_nat [of n] c that by simp
  qed
  ultimately show ?thesis using c d by (simp add: scan_integer_def)
qed

lemma scan_number_show_int:
  assumes "rep [] z"
  shows "scan_number (show_int i @ z) = Some z"
proof -
  have fe: "scan_fraction z = Some z" "scan_exponent z = Some z"
    using assms by (cases z; auto simp: scan_fraction_def scan_exponent_def rep_Nil_left number_end_def)+
  obtain c cs where c: "show_nat (nat i) = c # cs" using show_nat_not_Nil by (cases "show_nat (nat i)") blast+
  show ?thesis
  proof (cases "i < 0")
    case True
    then show ?thesis using scan_integer_show_nat [OF assms] fe by (simp add: show_int_def scan_number_def)
  next
    case False
    then show ?thesis
      using scan_integer_show_nat [OF assms, of "nat i"] show_nat_hd_no_sign(1) [OF c] fe
      by (simp add: show_int_def scan_number_def c)
  qed
qed

lemma value_text_int: "value_text d (show_int i)"
proof (rule value_textI)
  fix z :: string and n d'
  assume "rep [] z"
  obtain c cs where c: "show_int i = c # cs" using show_int_not_Nil by (cases "show_int i") blast+
  have "c = CHR ''-'' \<or> json_digit c" using show_int_chars [of c i] c by (auto simp: json_digit_def)
  then show "scan_value (Suc n) d' (show_int i @ z) = Some z"
    using scan_number_show_int [OF \<open>rep [] z\<close>, of i] by (simp add: c scan_value_leaf)
qed simp

subsection \<open>Strings and raw messages\<close>

lemma value_text_string: "value_text d (json_quote s)"
proof (rule value_textI)
  fix z :: string and n d'
  show "scan_value (Suc n) d' (json_quote s @ z) = Some z"
    using scan_string_escape [of s z] by (simp add: json_quote_def scan_value_leaf)
qed (simp add: json_quote_def)

text \<open>A raw message that is valid JSON with containers nested at most \<open>d\<close> deep.\<close>

definition raw_fits :: "nat \<Rightarrow> string \<Rightarrow> bool" where
  "raw_fits d v \<longleftrightarrow>
     (case scan_value (2 * length v + 2) d (skip_ws v) of None \<Rightarrow> False | Some r \<Rightarrow> skip_ws r = [])"

lemma value_text_raw:
  assumes "raw_fits d v"
  shows "value_text d (compact False v)"
proof -
  obtain r where r: "scan_value (2 * length v + 2) d (skip_ws v) = Some r" "skip_ws r = []"
    using assms by (auto simp: raw_fits_def split: option.splits)
  have "compact False r = []" using compact_skip_ws [of r] r(2) by simp
  then have "scan_value (2 * length v + 2) d (compact False v) = Some []"
    using scan_compact(1) [OF r(1), of "[]"] r(2) by (simp add: stops_def compact_skip_ws)
  then have "scans scan_value 1 d (compact False v) []" by (rule scan_scans)
  then show ?thesis unfolding value_text_def scans_def by auto
qed

subsection \<open>Arrays and objects\<close>

lemma commas_Cons: "commas (e # es) = e @ (if es = [] then [] else CHR '','' # commas es)"
  by (cases es) simp_all

lemma commas_hd: "es \<noteq> [] \<Longrightarrow> hd es = x # xs \<Longrightarrow> \<exists>ys. commas es = x # ys"
  by (cases es) (simp_all add: commas_Cons)

lemma scan_elements_commas:
  assumes "es \<noteq> []" "\<forall>e \<in> set es. value_text d e" "d \<le> d'" "2 * length (commas es) + 2 \<le> n"
  shows "scan_elements n d' (commas es @ CHR '']'' # z) = Some z"
  using assms
proof (induction es arbitrary: n)
  case (Cons e es)
  obtain m where n: "n = Suc m" "2 * length e + 1 \<le> m" using Cons.prems(4) by (cases n) (auto simp: commas_Cons)
  have v: "scan_value m d' (e @ y # ys) = Some (y # ys)" if "number_end y" for y ys
    using value_text_scan [OF _ Cons.prems(3) n(2)] Cons.prems(2) that by (simp add: rep_Nil_left)
  show ?case
  proof (cases "es = []")
    case True
    then show ?thesis using v [of "CHR '']''" z] by (simp add: n(1) scan_elements.simps)
  next
    case False
    have "e \<noteq> []" using Cons.prems(2) by (simp add: value_text_def)
    then have "2 * length (commas es) + 2 \<le> m" using Cons.prems(4) n(1) False by (cases e) (simp_all add: commas_Cons)
    then have IH: "scan_elements m d' (commas es @ CHR '']'' # z) = Some z" using Cons False by simp
    obtain x xs where "hd es = x # xs" "\<not> json_space x"
      using Cons.prems(2) False value_text_nonspace by (metis hd_in_set list.set_intros(2))
    then have "skip_ws (commas es @ CHR '']'' # z) = commas es @ CHR '']'' # z" using commas_hd [OF False] by fastforce
    then show ?thesis
      using v [of "CHR '',''" "commas es @ CHR '']'' # z"] IH False by (simp add: n(1) scan_elements.simps commas_Cons)
  qed
qed simp

lemma value_text_array:
  assumes "0 < d" "\<forall>e \<in> set es. value_text (d - 1) e"
  shows "value_text d (CHR ''['' # commas es @ [CHR '']''])"
proof (rule value_textI)
  fix z :: string and n d'
  assume a: "d \<le> d'" "2 * length (CHR ''['' # commas es @ [CHR '']'']) \<le> n"
  show "scan_value (Suc n) d' ((CHR ''['' # commas es @ [CHR '']'']) @ z) = Some z"
  proof (cases "es = []")
    case False
    obtain x xs where x: "hd es = x # xs" "\<not> json_space x"
      using assms(2) False value_text_nonspace by (metis hd_in_set)
    have "x \<noteq> CHR '']''"
    proof
      assume "x = CHR '']''"
      moreover have "scan_value (2 * length (hd es) + 1) (d - 1) (hd es @ []) = Some []"
        using value_text_scan [OF _ order_refl order_refl rep_Nil] assms(2) False by simp
      ultimately show False using x(1) by (simp add: scan_value_leaf json_digit_def scan_literal_def)
    qed
    moreover obtain ys where "commas es = x # ys" using commas_hd [OF False x(1)] by blast
    moreover have "scan_elements n (d' - 1) (commas es @ CHR '']'' # z) = Some z"
      using scan_elements_commas [OF False assms(2), of "d' - 1" n z] a by simp
    ultimately show ?thesis using a(1) assms(1) x(2) by (simp add: scan_value.simps)
  qed (use a(1) assms(1) in \<open>simp add: scan_value.simps\<close>)
qed simp

definition member :: "string \<times> string \<Rightarrow> string" where
  "member m = json_quote (fst m) @ CHR '':'' # snd m"

lemma member_scan: "scan_string (tl (member (k, e)) @ z) = Some (CHR '':'' # e @ z)" "hd (member (k, e)) = CHR 0x22" "member (k, e) \<noteq> []"
  using scan_string_escape [of k "CHR '':'' # e @ z"] by (simp_all add: member_def json_quote_def)

lemma scan_members_commas:
  assumes "ms \<noteq> []" "\<forall>m \<in> set ms. value_text d (snd m)" "d \<le> d'" "2 * length (commas (map member ms)) + 1 \<le> n"
  shows "scan_members n d' (commas (map member ms) @ CHR ''}'' # z) = Some z"
  using assms
proof (induction ms arbitrary: n)
  case (Cons m ms)
  obtain k e where m: "m = (k, e)" by (cases m)
  have v0: "value_text d e" using Cons.prems(2) m by simp
  obtain j where n: "n = Suc j" "2 * length e + 1 \<le> j"
    using Cons.prems(4) m by (cases n) (auto simp: commas_Cons member_def json_quote_def)
  have step: "scan_members n d' (member m @ y # ys) =
      (if y = CHR '','' then scan_members j d' (skip_ws ys) else if y = CHR ''}'' then Some ys else None)"
    if "number_end y" "\<not> json_space y" for y ys
    using value_text_scan [OF v0 Cons.prems(3) n(2), of "y # ys"] scan_string_escape [of k "CHR '':'' # e @ y # ys"] v0 that
    by (simp add: n(1) m member_def json_quote_def scan_members.simps rep_Nil_left)
  show ?case
  proof (cases "ms = []")
    case True
    then show ?thesis using step [of "CHR ''}''" z] by (simp add: commas_Cons)
  next
    case False
    have "2 * length (commas (map member ms)) + 1 \<le> j" using Cons.prems(4) n(1) False by (simp add: commas_Cons)
    then have IH: "scan_members j d' (commas (map member ms) @ CHR ''}'' # z) = Some z" using Cons False by simp
    have "hd (map member ms) = CHR 0x22 # tl (member (hd ms))"
      using member_scan(2,3) [of "fst (hd ms)" "snd (hd ms)"] False by (cases "member (hd ms)") (simp_all add: hd_map)
    then have "skip_ws (commas (map member ms) @ CHR ''}'' # z) = commas (map member ms) @ CHR ''}'' # z"
      using commas_hd [of "map member ms"] False by fastforce
    then show ?thesis using step [of "CHR '',''" "commas (map member ms) @ CHR ''}'' # z"] IH False by (simp add: commas_Cons)
  qed
qed simp

lemma commas_member_hd: "ms \<noteq> [] \<Longrightarrow> \<exists>ys. commas (map member ms) = CHR 0x22 # ys"
  by (cases ms) (simp_all add: commas_Cons member_def json_quote_def)

lemma value_text_object:
  assumes "0 < d" "\<forall>m \<in> set ms. value_text (d - 1) (snd m)"
  shows "value_text d (CHR ''{'' # commas (map member ms) @ [CHR ''}''])"
proof (rule value_textI)
  fix z :: string and n d'
  assume a: "d \<le> d'" "2 * length (CHR ''{'' # commas (map member ms) @ [CHR ''}'']) \<le> n"
  show "scan_value (Suc n) d' ((CHR ''{'' # commas (map member ms) @ [CHR ''}'']) @ z) = Some z"
  proof (cases "ms = []")
    case False
    then obtain ys where "commas (map member ms) = CHR 0x22 # ys" using commas_member_hd by blast
    moreover have "scan_members n (d' - 1) (commas (map member ms) @ CHR ''}'' # z) = Some z"
      using scan_members_commas [OF False assms(2), of "d' - 1" n z] a by simp
    ultimately show ?thesis using a(1) assms(1) by (simp add: scan_value.simps)
  qed (use a(1) assms(1) in \<open>simp add: scan_value.simps\<close>)
qed simp

text \<open>A document whose raw messages are valid and whose containers are nested at most \<open>d\<close> deep.\<close>

fun fits :: "nat \<Rightarrow> json \<Rightarrow> bool" where
  "fits d (JArray xs) \<longleftrightarrow> 0 < d \<and> (\<forall>x \<in> set xs. fits (d - 1) x)"
| "fits d (JObject kvs) \<longleftrightarrow> 0 < d \<and> (\<forall>kv \<in> set kvs. fits (d - 1) (snd kv))"
| "fits d (JRaw v) \<longleftrightarrow> raw_fits d v"
| "fits d doc \<longleftrightarrow> True"

lemma encode_object: "encode (JObject kvs) = CHR ''{'' # commas (map member (map (\<lambda>(k, v). (k, encode v)) kvs)) @ [CHR ''}'']"
  by (simp add: member_def case_prod_unfold comp_def)

lemma value_text_literal: "value_text d ''null''" "value_text d ''true''" "value_text d ''false''"
  by (rule value_textI; simp add: scan_value_leaf json_digit_def scan_literal_def)+

lemma encode_value_text: "fits d doc \<Longrightarrow> value_text d (encode doc)"
proof (induction d doc rule: fits.induct)
  case (1 d xs)
  then show ?case using value_text_array [of d "map encode xs"] by simp
next
  case (2 d kvs)
  then have "\<forall>m \<in> set (map (\<lambda>(k, v). (k, encode v)) kvs). value_text (d - 1) (snd m)" by auto
  moreover have "0 < d" using 2(2) by simp
  ultimately show ?case unfolding encode_object by (intro value_text_object)
qed (simp_all add: value_text_raw value_text_int value_text_string value_text_literal)

section \<open>Decoding what was encoded\<close>

lemma object_members_commas:
  assumes "ms \<noteq> []" "\<forall>m \<in> set ms. value_text d (snd m)" "d \<le> maxNestingDepth" "length ms \<le> n"
  shows "object_members n (commas (map member ms) @ CHR ''}'' # z) = map (\<lambda>(k, e). (escape k, e)) ms"
  using assms
proof (induction ms arbitrary: n)
  case (Cons m ms)
  obtain k e where m: "m = (k, e)" by (cases m)
  have v: "value_text d e" using Cons.prems(2) m by simp
  obtain j where n: "n = Suc j" "length ms \<le> j" using Cons.prems(4) by (cases n) auto
  have step: "object_members n (member m @ y # ys) = (escape k, e) # (if y = CHR '','' then object_members j (skip_ws ys) else [])"
    if "number_end y" "\<not> json_space y" for y ys
  proof -
    have "scan_text (e @ y # ys) = Some (y # ys)" using value_text_scan_text [OF v Cons.prems(3)] that(1) by (simp add: rep_Nil_left)
    then show ?thesis
      using scan_string_escape [of k "CHR '':'' # e @ y # ys"] v that(2) by (simp add: n(1) m member_def json_quote_def Let_def)
  qed
  show ?case
  proof (cases "ms = []")
    case True
    then show ?thesis using step [of "CHR ''}''" z] by (simp add: m commas_Cons)
  next
    case False
    have IH: "object_members j (commas (map member ms) @ CHR ''}'' # z) = map (\<lambda>(k, e). (escape k, e)) ms"
      using Cons False n(2) by simp
    have "skip_ws (commas (map member ms) @ CHR ''}'' # z) = commas (map member ms) @ CHR ''}'' # z"
      using commas_member_hd [OF False] by force
    then show ?thesis
      using step [of "CHR '',''" "commas (map member ms) @ CHR ''}'' # z"] IH False by (simp add: m commas_Cons)
  qed
qed simp

lemma length_commas: "\<forall>e \<in> set es. e \<noteq> [] \<Longrightarrow> length es \<le> length (commas es)"
  by (induction es) (auto simp: commas_Cons Suc_le_eq)

theorem members_of_encode:
  assumes "fits d (JObject kvs)" "d \<le> maxNestingDepth"
  shows "members_of (encode (JObject kvs)) = map (\<lambda>(k, v). (escape k, encode v)) kvs"
proof (cases "kvs = []")
  case False
  define ms where "ms = map (\<lambda>(k, v). (k, encode v)) kvs"
  have v: "\<forall>m \<in> set ms. value_text (d - 1) (snd m)"
    using assms(1) encode_value_text by (fastforce simp: ms_def)
  have ne: "ms \<noteq> []" using False by (simp add: ms_def)
  obtain ys where y: "commas (map member ms) = CHR 0x22 # ys" using commas_member_hd [OF ne] by blast
  have "length ms \<le> length (commas (map member ms))" using length_commas [of "map member ms"] by (auto simp: member_def json_quote_def)
  then have "object_members (length (commas (map member ms) @ [CHR ''}''])) (commas (map member ms) @ [CHR ''}'']) =
      map (\<lambda>(k, e). (escape k, e)) ms"
    using object_members_commas [OF ne v, of _ "[]"] assms(2) by (simp del: object_members.simps)
  moreover have "map (\<lambda>(k, e). (escape k, e)) ms = map (\<lambda>(k, v). (escape k, encode v)) kvs"
    by (simp add: ms_def case_prod_unfold)
  ultimately show ?thesis unfolding members_of_def encode_object ms_def [symmetric] by (simp add: y del: object_members.simps)
qed (simp add: members_of_def)

lemma array_items_commas:
  assumes "es \<noteq> []" "\<forall>e \<in> set es. value_text d e" "d \<le> maxNestingDepth" "length es \<le> n"
  shows "array_items n (commas es @ CHR '']'' # z) = es"
  using assms
proof (induction es arbitrary: n)
  case (Cons e es)
  have v: "value_text d e" using Cons.prems(2) by simp
  obtain j where n: "n = Suc j" "length es \<le> j" using Cons.prems(4) by (cases n) auto
  have step: "array_items n (e @ y # ys) = e # (if y = CHR '','' then array_items j (skip_ws ys) else [])"
    if "number_end y" "\<not> json_space y" for y ys
    using value_text_scan_text [OF v Cons.prems(3), of "y # ys"] that by (simp add: n(1) rep_Nil_left)
  show ?case
  proof (cases "es = []")
    case True
    then show ?thesis using step [of "CHR '']''" z] by simp
  next
    case False
    have IH: "array_items j (commas es @ CHR '']'' # z) = es" using Cons False n(2) by simp
    obtain x xs where "hd es = x # xs" "\<not> json_space x"
      using Cons.prems(2) False value_text_nonspace by (metis hd_in_set list.set_intros(2))
    then have "skip_ws (commas es @ CHR '']'' # z) = commas es @ CHR '']'' # z" using commas_hd [OF False] by fastforce
    then show ?thesis using step [of "CHR '',''" "commas es @ CHR '']'' # z"] IH False by (simp add: commas_Cons)
  qed
qed simp

theorem items_of_encode:
  assumes "fits d (JArray xs)" "d \<le> maxNestingDepth"
  shows "items_of (encode (JArray xs)) = map encode xs"
proof (cases "xs = []")
  case False
  have v: "\<forall>e \<in> set (map encode xs). value_text (d - 1) e" using assms(1) by (auto intro: encode_value_text)
  obtain x ys where x: "encode (hd xs) = x # ys" "\<not> json_space x"
    using v False value_text_nonspace [of "d - 1" "encode (hd xs)"] by auto
  have "x \<noteq> CHR '']''"
  proof
    assume "x = CHR '']''"
    moreover have "scan_value (2 * length (x # ys) + 1) (d - 1) ((x # ys) @ []) = Some []"
      using v False x(1) by (intro value_text_scan [of "d - 1"]) (auto simp flip: x(1))
    ultimately show False by (simp add: scan_value_leaf json_digit_def scan_literal_def)
  qed
  moreover obtain zs where "commas (map encode xs) = x # zs" using commas_hd [of "map encode xs" x ys] False x(1) by (auto simp: hd_map)
  moreover have "length xs \<le> length (commas (map encode xs))"
    using length_commas [of "map encode xs"] v by (auto simp: value_text_def)
  moreover have "array_items n (commas (map encode xs) @ [CHR '']'']) = map encode xs" if "length xs \<le> n" for n
    using array_items_commas [OF _ v, of n "[]"] assms(2) False that by simp
  ultimately show ?thesis using x(2) by (simp add: items_of_def del: array_items.simps)
qed (simp add: items_of_def)

lemma first_value_text:
  assumes "value_text d e" "d \<le> maxNestingDepth" "rep [] z"
  shows "first_value (e @ z) = Some e"
  using value_text_scan_text [OF assms] assms(1) by (simp add: first_value_def Let_def)

lemma json_Valid_text:
  assumes "value_text d e" "d \<le> maxNestingDepth" "skip_ws z = []"
  shows "json_Valid (e @ z)"
proof -
  have "rep [] z" using assms(3) by (cases z) (auto simp: rep_Nil_left number_end_def json_digit_def json_space_def skip_ws_def split: if_splits)
  then show ?thesis using value_text_scan_text [OF assms(1,2)] assms by (simp add: json_Valid_def)
qed

theorem decode_struct_encode:
  assumes "fits maxNestingDepth (JObject kvs)" "rep [] z"
  shows "decode_struct f x (encode (JObject kvs) @ z) = store_members f (map (\<lambda>(k, v). (escape k, encode v)) kvs) x"
  using first_value_text [OF encode_value_text [OF assms(1)] order_refl assms(2)] members_of_encode [OF assms(1) order_refl]
  by (simp add: decode_struct_def json_object_def del: encode.simps) (simp add: encode.simps)

lemma is_field_escape: "is_field name (escape k) \<longleftrightarrow> fold_name (to_valid k) = fold_name name"
  by (simp add: is_field_def unquote_escape)

lemma decode_string_quote [simp]: "decode_string (json_quote s) old = Some (to_valid s)"
  by (simp add: decode_string_def json_quote_def json_string_def butlast_append unquote_escape)

lemma decode_int_show_int [simp]: "int64_ok i \<Longrightarrow> decode_int (show_int i) old = Some i"
proof -
  assume i: "int64_ok i"
  obtain c cs where c: "show_int i = c # cs" using show_int_not_Nil by (cases "show_int i") blast+
  then have "c = CHR ''-'' \<or> json_digit c" using show_int_chars [of c i] by (auto simp: json_digit_def)
  moreover from this have "show_int i \<noteq> ''null''" using c by (auto simp: json_digit_def)
  ultimately show ?thesis using c ParseInt64_show_int [OF i] by (auto simp: decode_int_def json_numeral_def)
qed

lemma decode_slots_quote: "decode_slots (map json_quote ss) slots = Some (map to_valid ss @ drop (length ss) slots)"
  by (induction ss arbitrary: slots) (simp_all add: drop_Suc)

section \<open>Names of fields\<close>

text \<open>Between the names of fields, lower-case letters and underscores, folding case is injective.\<close>

definition snake :: "string \<Rightarrow> bool" where
  "snake s \<longleftrightarrow> (\<forall>c \<in> set s. (97 \<le> code c \<and> code c \<le> 122) \<or> c = CHR 0x5F)"

lemma fold_name_ascii: "\<forall>c \<in> set s. code c < 128 \<Longrightarrow> fold_name s = map fold_upper s"
  by (induction s rule: fold_name.induct) auto

lemma fold_upper_inj:
  assumes "97 \<le> code c \<and> code c \<le> 122 \<or> c = CHR 0x5F" "97 \<le> code d \<and> code d \<le> 122 \<or> d = CHR 0x5F"
  shows "fold_upper c = fold_upper d \<longleftrightarrow> c = d"
proof -
  have f: "code (fold_upper c) = code c - (if code c = 95 then 0 else 32) \<and> (code c = 95 \<or> 97 \<le> code c \<and> code c \<le> 122)"
    if "97 \<le> code c \<and> code c \<le> 122 \<or> c = CHR 0x5F" for c
    using that by (auto simp: fold_upper_def)
  have n: "x = y" if "x - (if x = 95 then 0 else 32) = y - (if y = 95 then 0 else 32)" "x = 95 \<or> 97 \<le> x \<and> x \<le> 122"
      "y = 95 \<or> 97 \<le> y \<and> y \<le> 122" for x y :: nat
    using that by (auto split: if_splits)
  have "code c = code d" if "fold_upper c = fold_upper d"
    using f [OF assms(1)] f [OF assms(2)] unfolding that by (metis n)
  then show ?thesis by auto
qed

lemma is_field_snake [simp]:
  assumes "snake n" "snake k"
  shows "is_field n (escape k) \<longleftrightarrow> n = k"
proof -
  have a: "\<forall>c \<in> set s. code c < 128" if "snake s" for s using that by (auto simp: snake_def)
  have "map fold_upper k = map fold_upper n \<longleftrightarrow> k = n"
    using assms by (intro inj_on_map_eq_map inj_onI) (auto simp: snake_def fold_upper_inj)
  then show ?thesis
    using a [OF assms(1)] a [OF assms(2)] by (auto simp: is_field_escape to_valid_ascii fold_name_ascii)
qed

lemma snake_names [simp]:
  "snake ''id''" "snake ''status''" "snake ''created_at''" "snake ''event_type''" "snake ''payload''" "snake ''tenant_id''"
  "snake ''idempotency_key''" "snake ''updated_at''" "snake ''event_ids''" "snake ''replayed_count''" "snake ''status_code''"
  "snake ''body''" "snake ''completed_at''"
  by (simp_all add: snake_def)

end
