(* ===== verification/Go_Time.thy ===== *)
theory Go_Time
  imports Go_JsonRound Go_Prelude
begin

text \<open>
  Reading RFC 3339 times, as \<open>time.Time.UnmarshalJSON\<close> and \<open>time.Parse\<close> do it for the forms the
  program writes, decoding base64, and \<open>json.Unmarshal\<close>. Lemmas: the day number of a date is the inverse of the
  calendar of \<open>Go_JsonCodec\<close>, a printed time and an encoded byte slice are read back.
\<close>

section \<open>Dates\<close>

definition month_lengths :: "int \<Rightarrow> int list" where
  "month_lengths y = [31, if leap_year y then 29 else 28, 31, 30, 31, 30, 31, 31, 30, 31, 30, 31]"

definition year_start :: "int \<Rightarrow> int" where
  "year_start y = 365 * (y - 1) + (y - 1) div 4 - (y - 1) div 100 + (y - 1) div 400"

text \<open>The number of a day, counted from 1 January of the year 1.\<close>

definition day_number :: "int \<Rightarrow> int \<Rightarrow> int \<Rightarrow> int" where
  "day_number y m d = year_start y + sum_list (take (nat (m - 1)) (month_lengths y)) + d - 1"

lemma year_day_inverse:
  assumes "year_day D = (y, yd)"
  shows "D = year_start y + yd" "0 \<le> yd" "yd < (if leap_year y then 366 else 365)" "0 \<le> D \<Longrightarrow> 1 \<le> y"
proof -
  define a r where "a = D div 146097" and "r = D mod 146097"
  define b r1 where "b = min 3 (r div 36524)" and "r1 = r - b * 36524"
  define c r4 where "c = r1 div 1461" and "r4 = r1 mod 1461"
  define e where "e = min 3 (r4 div 365)"
  have y: "y = 400 * a + 100 * b + 4 * c + e + 1" "yd = r4 - e * 365"
    using assms
    unfolding year_day_def Let_def a_def [symmetric] r_def [symmetric] b_def [symmetric] r1_def [symmetric]
      c_def [symmetric] r4_def [symmetric] e_def [symmetric]
    by simp_all
  have r: "0 \<le> r" "r < 146097" "D = 146097 * a + r" by (simp_all add: a_def r_def)
  have b: "0 \<le> b" "b \<le> 3" "b * 36524 \<le> r" "r < 36524 * b + 36525" "b < 3 \<Longrightarrow> r < 36524 * b + 36524"
  proof -
    define q where "q = r div 36524"
    have q: "36524 * q \<le> r" "r < 36524 * q + 36524" unfolding q_def by auto
    show "0 \<le> b" "b \<le> 3" "b * 36524 \<le> r" "r < 36524 * b + 36525" "b < 3 \<Longrightarrow> r < 36524 * b + 36524"
      using q r unfolding b_def q_def [symmetric] by (cases "3 \<le> q"; simp)+
  qed
  have r1: "0 \<le> r1" "r1 \<le> 36524" "b < 3 \<Longrightarrow> r1 < 36524" using b by (simp_all add: r1_def)
  have c: "0 \<le> c" "c \<le> 24" "0 \<le> r4" "r4 < 1461" "r1 = 1461 * c + r4"
    using r1 unfolding c_def r4_def by auto
  have e: "0 \<le> e" "e \<le> 3" "e * 365 \<le> r4" "r4 \<le> 365 * e + 365" "e < 3 \<Longrightarrow> r4 < 365 * e + 365"
  proof -
    define q where "q = r4 div 365"
    have q: "365 * q \<le> r4" "r4 < 365 * q + 365" unfolding q_def by auto
    show "0 \<le> e" "e \<le> 3" "e * 365 \<le> r4" "r4 \<le> 365 * e + 365" "e < 3 \<Longrightarrow> r4 < 365 * e + 365"
      using q c(3,4) unfolding e_def q_def [symmetric] by (cases "3 \<le> q"; simp)+
  qed
  have q: "(y - 1) div 4 = 100 * a + 25 * b + c" "(y - 1) div 100 = 4 * a + b" "(y - 1) div 400 = a"
    using b(1,2) c(1,2) e(1,2) y(1)
    by (auto intro!: int_div_pos_eq [where r = e] int_div_pos_eq [where r = "4 * c + e"] int_div_pos_eq [where r = "100 * b + 4 * c + e"])
  show "D = year_start y + yd"
    unfolding year_start_def q using r(3) c(5) y by (simp add: r1_def)
  show "0 \<le> yd" using e y by simp
  have "leap_year y" if "r4 = 365 * e + 365"
  proof -
    have e3: "e = 3" using that e(2,5) by linarith
    then have r4: "r4 = 1460" using that by simp
    have "c = 24 \<Longrightarrow> b = 3" using r1 c(5) r4 b(2) by linarith
    have "y = 4 * (100 * a + 25 * b + c + 1)" using y e3 by simp
    then have m4: "y mod 4 = 0" by simp
    show ?thesis
    proof (cases "c = 24")
      case True
      then have "y = 400 * (a + 1)" using y(1) e3 \<open>c = 24 \<Longrightarrow> b = 3\<close> by simp
      then show ?thesis using m4 by (simp add: leap_year_def)
    next
      case False
      have "y = (4 * c + 4) + 100 * (4 * a + b)" using y(1) e3 by simp
      then have "y mod 100 = (4 * c + 4) mod 100" by (simp only: mod_mult_self2)
      also have "\<dots> = 4 * c + 4" using c(1,2) False by (intro mod_pos_pos_trivial) auto
      finally show ?thesis using m4 c(1) by (simp add: leap_year_def)
    qed
  qed
  then have "yd < 365 \<or> yd = 365 \<and> leap_year y" using y(2) e(4) by (cases "r4 = 365 * e + 365") simp_all
  then show "yd < (if leap_year y then 366 else 365)" by auto
  show "1 \<le> y" if "0 \<le> D"
  proof -
    have "0 \<le> a" using that by (simp add: a_def pos_imp_zdiv_nonneg_iff)
    then show ?thesis using y b c e by simp
  qed
qed

lemma month_day_inverse:
  assumes "month_day ns m d = (m', d')" "0 \<le> d"
  shows "\<exists>i \<le> length ns. m' = m + int i \<and> d = sum_list (take i ns) + d' - 1 \<and> 1 \<le> d' \<and>
    (if i < length ns then d' \<le> ns ! i else d' = d - sum_list ns + 1)"
  using assms
proof (induction ns m d rule: month_day.induct)
  case (1 m d)
  then show ?case by auto
next
  case (2 n ns m d)
  show ?case
  proof (cases "d < n")
    case True
    then show ?thesis using 2 by (intro exI [of _ 0]) auto
  next
    case False
    have "month_day ns (m + 1) (d - n) = (m', d')" "0 \<le> d - n" using 2(2) False by simp_all
    then obtain i where i: "i \<le> length ns" "m' = m + 1 + int i" "d - n = sum_list (take i ns) + d' - 1" "1 \<le> d'"
        "if i < length ns then d' \<le> ns ! i else d' = d - n - sum_list ns + 1"
      using "2.IH" [OF False] by blast
    have "d = sum_list (take (Suc i) (n # ns)) + d' - 1" using i(3) by simp
    moreover have "if Suc i < length (n # ns) then d' \<le> (n # ns) ! Suc i else d' = d - sum_list (n # ns) + 1"
      using i(5) by (cases "i < length ns") simp_all
    ultimately show ?thesis using i(1,2,4) by (intro exI [of _ "Suc i"] conjI) simp_all
  qed
qed

theorem civil_inverse:
  assumes "civil D = (y, m, d)"
  shows "day_number y m d = D" "1 \<le> m" "m \<le> 12" "1 \<le> d" "d \<le> month_lengths y ! nat (m - 1)" "0 \<le> D \<Longrightarrow> 1 \<le> y"
proof -
  define ns where "ns = [31, if leap_year y then 29 else 28, 31, 30, 31, 30, 31, 31, 30, 31, 30 :: int]"
  define y0 yd m0 d0 where "y0 = fst (year_day D)" and "yd = snd (year_day D)"
    and "m0 = fst (month_day [31, if leap_year y0 then 29 else 28, 31, 30, 31, 30, 31, 31, 30, 31, 30] 1 yd)"
    and "d0 = snd (month_day [31, if leap_year y0 then 29 else 28, 31, 30, 31, 30, 31, 31, 30, 31, 30] 1 yd)"
  have "civil D = (y0, m0, d0)"
    unfolding civil_def Let_def case_prod_beta y0_def yd_def m0_def d0_def by (simp only: prod.collapse)
  then have "y = y0" "m = m0" "d = d0" using assms by simp_all
  then have yd: "year_day D = (y, yd)" "month_day ns 1 yd = (m, d)"
    unfolding y0_def yd_def m0_def d0_def ns_def by (simp_all only: prod.collapse)
  note Y = year_day_inverse [OF yd(1)]
  have ml: "month_lengths y = ns @ [31]" and l: "length ns = 11" by (simp_all add: month_lengths_def ns_def)
  obtain i where i: "i \<le> 11" "m = 1 + int i" "yd = sum_list (take i ns) + d - 1" "1 \<le> d"
      "if i < 11 then d \<le> ns ! i else d = yd - sum_list ns + 1"
    using month_day_inverse [OF yd(2) Y(2)] unfolding l by blast
  have n: "nat (m - 1) = i" using i(2) by simp
  have t: "take i (month_lengths y) = take i ns" using i(1) l unfolding ml take_append by simp
  show "day_number y m d = D" unfolding day_number_def n t using Y(1) i(3) by simp
  show "1 \<le> m" "m \<le> 12" "1 \<le> d" using i by simp_all
  show "d \<le> month_lengths y ! nat (m - 1)"
  proof (cases "i < 11")
    case True
    then show ?thesis using i(5) l unfolding n ml nth_append by simp
  next
    case False
    then have i11: "i = 11" using i(1) by simp
    have "sum_list ns = (if leap_year y then 335 else 334)" by (simp add: ns_def)
    then have "d \<le> 31" using i(5) i11 Y(3) by (simp split: if_splits)
    then show ?thesis using l unfolding n i11 ml nth_append by simp
  qed
  show "0 \<le> D \<Longrightarrow> 1 \<le> y" by (rule Y(4))
qed

section \<open>Reading a time\<close>

definition parse_uint :: "string \<Rightarrow> int \<Rightarrow> int \<Rightarrow> int option" where
  "parse_uint s lo hi =
     (case parse_digits s of
        None \<Rightarrow> None
      | Some n \<Rightarrow> if lo \<le> int n \<and> int n \<le> hi then Some (int n) else None)"

text \<open>Two digits after a given byte: the value and what follows.\<close>

definition two_digits :: "char \<Rightarrow> int \<Rightarrow> int \<Rightarrow> string \<Rightarrow> (int \<times> string) option" where
  "two_digits sep lo hi s =
     (case s of
        c # a # b # rest \<Rightarrow> if c = sep then map_option (\<lambda>n. (n, rest)) (parse_uint [a, b] lo hi) else None
      | _ \<Rightarrow> None)"

text \<open>The nanoseconds of a fraction, of which nine digits count.\<close>

definition parse_fraction :: "string \<Rightarrow> int \<times> string" where
  "parse_fraction s =
     (let ds = takeWhile json_digit (tl s) in
      if s \<noteq> [] \<and> hd s = CHR ''.'' \<and> ds \<noteq> [] then
        (case parse_digits (take 9 ds) of
           None \<Rightarrow> (0, s)
         | Some n \<Rightarrow> (int n * 10 ^ (9 - length (take 9 ds)), dropWhile json_digit (tl s)))
      else (0, s))"

text \<open>The offset of the zone in seconds.\<close>

definition parse_zone :: "string \<Rightarrow> int option" where
  "parse_zone s =
     (if s = ''Z'' then Some 0
      else
        (case s of
           sign # _ \<Rightarrow>
             if sign = CHR ''+'' \<or> sign = CHR ''-'' then
               (case two_digits sign 0 23 s of
                  None \<Rightarrow> None
                | Some (hr, rest) \<Rightarrow>
                    (case two_digits CHR '':'' 0 59 rest of
                       Some (mm, []) \<Rightarrow> Some ((if sign = CHR ''-'' then -1 else 1) * ((hr * 60 + mm) * 60))
                     | _ \<Rightarrow> None))
             else None
         | [] \<Rightarrow> None))"

definition parseRFC3339 :: "string \<Rightarrow> gotime option" where
  "parseRFC3339 s =
     (case parse_uint (take 4 s) 0 9999 of None \<Rightarrow> None | Some y \<Rightarrow>
     (case two_digits CHR ''-'' 1 12 (drop 4 s) of None \<Rightarrow> None | Some (m, s1) \<Rightarrow>
     (case two_digits CHR ''-'' 1 (month_lengths y ! nat (m - 1)) s1 of None \<Rightarrow> None | Some (d, s2) \<Rightarrow>
     (case two_digits CHR ''T'' 0 23 s2 of None \<Rightarrow> None | Some (h, s3) \<Rightarrow>
     (case two_digits CHR '':'' 0 59 s3 of None \<Rightarrow> None | Some (mi, s4) \<Rightarrow>
     (case two_digits CHR '':'' 0 59 s4 of None \<Rightarrow> None | Some (se, s5) \<Rightarrow>
     (case parse_fraction s5 of (ns, s6) \<Rightarrow>
     (case parse_zone s6 of None \<Rightarrow> None | Some off \<Rightarrow>
        Some ((day_number y m d * 86400 + h * 3600 + mi * 60 + se - off) * 1000000000 + ns)))))))))"

text \<open>
  \<open>Time.UnmarshalJSON\<close>: \<open>null\<close> leaves the time, a string is parsed; what the fast parser refuses goes
  to the general layout parser, the parameter \<open>lenient\<close>.
\<close>

definition decode_time :: "(string \<Rightarrow> gotime option) \<Rightarrow> string \<Rightarrow> gotime \<Rightarrow> gotime option" where
  "decode_time lenient v old =
     (if v = ''null'' then Some old
      else if 2 \<le> length v \<and> hd v = CHR 0x22 \<and> last v = CHR 0x22 then
        (case parseRFC3339 (butlast (tl v)) of Some t \<Rightarrow> Some t | None \<Rightarrow> lenient (butlast (tl v)))
      else None)"

subsection \<open>Printed times are read back\<close>

lemma length_show_nat: "0 < w \<Longrightarrow> n < 10 ^ w \<Longrightarrow> length (show_nat n) \<le> w"
proof (induction n arbitrary: w rule: show_nat.induct)
  case (1 n)
  show ?case
  proof (cases "n < 10")
    case False
    then obtain v where w: "w = Suc v" "0 < v" using 1(2,3) by (cases w; cases "w - 1") auto
    have "n div 10 < 10 ^ v" using 1(3) w by (simp add: less_mult_imp_div_less mult.commute)
    then show ?thesis using 1(1) [OF False w(2)] False w(1) by (simp add: show_nat.simps [of n])
  qed (use 1(2) in \<open>simp add: show_nat.simps [of n]\<close>)
qed

lemma pad_nonneg: "0 \<le> i \<Longrightarrow> pad w i = replicate (w - length (show_nat (nat i))) CHR ''0'' @ show_nat (nat i)"
  by (simp add: pad_def show_int_def Let_def)

lemma length_pad: "0 < w \<Longrightarrow> 0 \<le> i \<Longrightarrow> i < 10 ^ w \<Longrightarrow> length (pad w i) = w"
  using length_show_nat [of w "nat i"] by (simp add: pad_nonneg nat_less_iff)

lemma parse_zeros: "parse_nat_acc 0 (replicate k CHR ''0'' @ s) = parse_nat_acc 0 s"
  by (induction k) (simp_all add: digit_val_def)

lemma parse_digits_pad: "0 \<le> i \<Longrightarrow> parse_digits (pad w i) = Some (nat i)"
  by (simp add: parse_digits_def pad_nonneg parse_zeros parse_nat_acc_show_nat)

lemma parse_uint_pad: "0 \<le> i \<Longrightarrow> lo \<le> i \<Longrightarrow> i \<le> hi \<Longrightarrow> parse_uint (pad w i) lo hi = Some i"
  by (simp add: parse_uint_def parse_digits_pad)

lemma two_digits_pad:
  assumes "0 \<le> i" "lo \<le> i" "i \<le> hi" "i < 100"
  shows "two_digits sep lo hi (sep # pad 2 i @ s) = Some (i, s)"
proof -
  have "length (pad 2 i) = 2" using assms by (intro length_pad) simp_all
  then obtain a b where "pad 2 i = [a, b]" by (auto simp: length_Suc_conv numeral_2_eq_2)
  then show ?thesis using parse_uint_pad [OF assms(1-3), of 2] by (simp add: two_digits_def)
qed

lemma parse_zeros_right: "parse_nat_acc acc s = Some n \<Longrightarrow> parse_nat_acc acc (s @ replicate k CHR ''0'') = Some (n * 10 ^ k)"
proof (induction k arbitrary: acc s n)
  case (Suc k)
  have "parse_nat_acc acc (s @ [CHR ''0'']) = Some (10 * n)" using Suc.prems by (simp add: parse_nat_acc_append digit_val_def)
  then show ?case using Suc.IH [of acc "s @ [CHR ''0'']" "10 * n"] by (simp add: replicate_append_same [symmetric])
qed simp

lemma pad_digits: "0 \<le> i \<Longrightarrow> c \<in> set (pad w i) \<Longrightarrow> json_digit c"
  using show_nat_digits by (auto simp: pad_nonneg json_digit_def)

lemma parse_fraction_printed:
  assumes "0 \<le> ns" "ns < 10 ^ 9"
  shows "parse_fraction (fraction ns @ ''Z'') = (ns, ''Z'')"
proof (cases "ns = 0")
  case False
  define ds where "ds = rev (dropWhile (\<lambda>c. c = CHR ''0'') (rev (pad 9 ns)))"
  obtain k where k: "pad 9 ns = ds @ replicate k CHR ''0''"
  proof -
    have "pad 9 ns = rev (takeWhile (\<lambda>c. c = CHR ''0'') (rev (pad 9 ns)) @ dropWhile (\<lambda>c. c = CHR ''0'') (rev (pad 9 ns)))"
      by simp
    then have "pad 9 ns = ds @ rev (takeWhile (\<lambda>c. c = CHR ''0'') (rev (pad 9 ns)))" unfolding ds_def by (simp only: rev_append)
    moreover have "takeWhile (\<lambda>c. c = CHR ''0'') (rev (pad 9 ns)) =
        replicate (length (takeWhile (\<lambda>c. c = CHR ''0'') (rev (pad 9 ns)))) CHR ''0''"
      by (rule replicate_eqI) (auto dest: set_takeWhileD)
    ultimately show thesis using that by (metis rev_replicate)
  qed
  have l: "length ds + k = 9" using length_pad [of 9 ns] assms k by simp
  have p: "parse_nat_acc 0 (ds @ replicate k CHR ''0'') = Some (nat ns)"
    using parse_digits_pad [OF assms(1), of 9] k by (simp add: parse_digits_def split: if_splits)
  obtain n where n: "parse_nat_acc 0 ds = Some n" using p by (simp add: parse_nat_acc_append split: option.splits)
  have v: "nat ns = n * 10 ^ k" using parse_zeros_right [OF n, of k] p by simp
  have ne: "ds \<noteq> []" using n v False assms(1) by auto
  have d: "\<forall>c \<in> set ds. json_digit c" using pad_digits [OF assms(1)] k by (metis Un_iff set_append)
  have tw: "takeWhile json_digit (ds @ ''Z'') = ds" "dropWhile json_digit (ds @ ''Z'') = ''Z''"
    using d by (simp_all add: json_digit_def)
  have "int n * 10 ^ (9 - length ds) = ns" using v l assms(1) by (metis add_diff_cancel_left' int_nat_eq of_nat_mult of_nat_numeral of_nat_power)
  moreover have "take 9 ds = ds" "parse_digits ds = Some n" using l n ne by (simp_all add: parse_digits_def)
  moreover have "fraction ns = CHR ''.'' # ds" using False by (simp add: fraction_def ds_def)
  ultimately show ?thesis using tw ne by (simp add: parse_fraction_def Let_def)
qed (simp add: fraction_def parse_fraction_def)

theorem parseRFC3339_printed:
  assumes "time_json t = Some s" "0 \<le> t"
  shows "parseRFC3339 s = Some t"
proof -
  define secs where "secs = t div 1000000000"
  define sd where "sd = secs mod 86400"
  obtain y m d where c: "civil (secs div 86400) = (y, m, d)" by (metis prod.exhaust)
  have D: "0 \<le> secs div 86400" using assms(2) by (simp add: secs_def pos_imp_zdiv_nonneg_iff)
  note C = civil_inverse(1-5) [OF c] civil_inverse(6) [OF c D]
  have y: "y \<le> 9999" and s: "s = rfc3339nano t"
    using assms(1) c by (auto simp: time_json_def secs_def split: if_splits)
  have "\<forall>n \<in> set (month_lengths y). n \<le> 31" by (simp add: month_lengths_def)
  moreover have "nat (m - 1) < length (month_lengths y)" using C(2,3) by (simp add: month_lengths_def)
  ultimately have d31: "d \<le> 31" using C(5) by (meson nth_mem order_trans)
  have sd: "0 \<le> sd" "sd < 86400" by (simp_all add: sd_def)
  define h mi se where "h = sd div 3600" and "mi = sd div 60 mod 60" and "se = sd mod 60"
  have r: "0 \<le> h" "h \<le> 23" "0 \<le> mi" "mi \<le> 59" "0 \<le> se" "se \<le> 59" and sum: "h * 3600 + mi * 60 + se = sd"
  proof -
    have h: "h = sd div 60 div 60" by (simp add: h_def flip: zdiv_zmult2_eq)
    have m60: "h * 60 + mi = sd div 60" unfolding h mi_def by simp
    moreover have "sd div 60 * 60 + se = sd" unfolding se_def by simp
    ultimately show "h * 3600 + mi * 60 + se = sd" by linarith
    show "0 \<le> h" "h \<le> 23" using sd zdiv_mono1 [of sd 86399 3600] by (simp_all add: h_def pos_imp_zdiv_nonneg_iff)
  qed (simp_all add: mi_def se_def)
  have t: "(secs div 86400 * 86400 + sd) * 1000000000 + t mod 1000000000 = t" by (simp add: sd_def secs_def)
  have s': "s = pad 4 y @ CHR ''-'' # pad 2 m @ CHR ''-'' # pad 2 d @ CHR ''T'' # pad 2 h @ CHR '':'' # pad 2 mi @
      CHR '':'' # pad 2 se @ fraction (t mod 1000000000) @ ''Z''"
    unfolding s rfc3339nano_def Let_def secs_def [symmetric] sd_def [symmetric] c case_prod_conv h_def mi_def se_def by simp
  have y4: "length (pad 4 y) = 4" using C(6) y by (intro length_pad) simp_all
  have steps: "parse_uint (pad 4 y) 0 9999 = Some y"
    "two_digits CHR ''-'' 1 12 (CHR ''-'' # pad 2 m @ z) = Some (m, z)"
    "two_digits CHR ''-'' 1 (month_lengths y ! nat (m - 1)) (CHR ''-'' # pad 2 d @ z) = Some (d, z)"
    "two_digits CHR ''T'' 0 23 (CHR ''T'' # pad 2 h @ z) = Some (h, z)"
    "two_digits CHR '':'' 0 59 (CHR '':'' # pad 2 mi @ z) = Some (mi, z)"
    "two_digits CHR '':'' 0 59 (CHR '':'' # pad 2 se @ z) = Some (se, z)" for z
    using C y d31 r by (simp_all add: two_digits_pad parse_uint_pad)
  have f: "parse_fraction (fraction (t mod 1000000000) @ ''Z'') = (t mod 1000000000, ''Z'')"
    by (rule parse_fraction_printed) simp_all
  have "parseRFC3339 s = Some ((day_number y m d * 86400 + h * 3600 + mi * 60 + se - 0) * 1000000000 + t mod 1000000000)"
    unfolding parseRFC3339_def s' using y4 by (simp add: steps f parse_zone_def)
  also have "day_number y m d * 86400 + h * 3600 + mi * 60 + se - 0 = secs div 86400 * 86400 + sd"
    using sum C(1) by simp
  finally show ?thesis using t by simp
qed

text \<open>Bytes that the encoder writes as they are.\<close>

definition verbatim :: "char \<Rightarrow> bool" where
  "verbatim c \<longleftrightarrow> 32 \<le> code c \<and> code c < 128 \<and> c \<notin> {CHR 0x22, CHR 0x5C, CHR ''<'', CHR ''>'', CHR ''&''}"

lemma escape_verbatim: "\<forall>c \<in> set s. verbatim c \<Longrightarrow> escape s = s"
proof (induction s)
  case (Cons c s)
  have v: "verbatim c" using Cons.prems by simp
  have "32 \<le> code c" using v by (simp add: verbatim_def)
  then have "c \<noteq> CHR 0x08 \<and> c \<noteq> CHR 0x0C \<and> c \<noteq> CHR 0x0A \<and> c \<noteq> CHR 0x0D \<and> c \<noteq> CHR 0x09" by auto
  moreover have "code c < 128" "\<not> code c < 32" "c \<noteq> CHR 0x22" "c \<noteq> CHR 0x5C" "c \<noteq> CHR ''<''" "c \<noteq> CHR ''>''" "c \<noteq> CHR ''&''"
    using v by (simp_all add: verbatim_def)
  ultimately have "escape (c # s) = c # escape s" by (subst escape.simps) simp
  then show ?case using Cons by simp
qed simp

lemma digit_verbatim: "json_digit c \<Longrightarrow> verbatim c"
  unfolding verbatim_def json_digit_def insert_iff empty_iff by (intro conjI) auto

lemma rfc3339nano_verbatim:
  assumes "time_json t = Some s" "0 \<le> t"
  shows "\<forall>c \<in> set s. verbatim c"
proof -
  define secs where "secs = t div 1000000000"
  obtain y m d where c: "civil (secs div 86400) = (y, m, d)" by (metis prod.exhaust)
  have D: "0 \<le> secs div 86400" using assms(2) by (simp add: secs_def pos_imp_zdiv_nonneg_iff)
  note C = civil_inverse(2,4) [OF c] civil_inverse(6) [OF c D]
  have s: "s = rfc3339nano t" using assms(1) by (auto simp: time_json_def split: if_splits)
  have p: "\<forall>c \<in> set (pad w i). verbatim c" if "0 \<le> i" for w i using pad_digits [OF that] digit_verbatim by blast
  have "verbatim c" if "c \<in> set (rev (dropWhile P (rev (pad 9 (t mod 1000000000)))))" for P c
    using that pad_digits [of "t mod 1000000000" c 9] digit_verbatim by (auto dest!: set_dropWhileD)
  then have f: "\<forall>c \<in> set (fraction (t mod 1000000000)). verbatim c" by (auto simp: fraction_def) (simp add: verbatim_def)
  define sd where "sd = secs mod 86400"
  have pos: "0 \<le> sd div 3600" "0 \<le> sd div 60 mod 60" "0 \<le> sd mod 60"
    by (simp_all add: sd_def pos_imp_zdiv_nonneg_iff)
  have punct: "verbatim CHR ''-''" "verbatim CHR ''T''" "verbatim CHR '':''" "verbatim CHR ''Z''" by (simp_all add: verbatim_def)
  have "0 \<le> y" "0 \<le> m" "0 \<le> d" using C by simp_all
  then show ?thesis
    unfolding s rfc3339nano_def Let_def secs_def [symmetric] c case_prod_conv sd_def [symmetric]
    using p f pos punct by (auto simp only: set_append set_simps Un_iff insert_iff empty_iff)
qed

lemma escape_time: "time_json t = Some s \<Longrightarrow> 0 \<le> t \<Longrightarrow> escape s = s"
  using rfc3339nano_verbatim escape_verbatim by blast

lemma decode_time_printed:
  assumes "time_json t = Some s" "0 \<le> t"
  shows "decode_time lenient (json_quote s) old = Some t"
  using parseRFC3339_printed [OF assms] by (simp add: decode_time_def json_quote_def butlast_append escape_time [OF assms])

section \<open>Base64\<close>

definition base64_val :: "char \<Rightarrow> nat option" where
  "base64_val c =
     (let n = code c in
      if 65 \<le> n \<and> n \<le> 90 then Some (n - 65)
      else if 97 \<le> n \<and> n \<le> 122 then Some (n - 71)
      else if 48 \<le> n \<and> n \<le> 57 then Some (n + 4)
      else if c = CHR ''+'' then Some 62
      else if c = CHR ''/'' then Some 63
      else None)"

text \<open>\<open>StdEncoding.Decode\<close>, which skips line breaks and does not look at the bits that are left over.\<close>

fun base64_quads :: "string \<Rightarrow> string option" where
  "base64_quads [] = Some []"
| "base64_quads (a # b # c # d # s) =
     (case (base64_val a, base64_val b) of
        (Some x, Some y) \<Rightarrow>
          if c = CHR ''='' then
            (if d = CHR ''='' \<and> s = [] then Some [char_of ((x * 64 + y) div 16)] else None)
          else
            (case base64_val c of
               None \<Rightarrow> None
             | Some z \<Rightarrow>
                 if d = CHR ''='' then
                   (if s = [] then
                      (let n = (x * 64 + y) * 64 + z in Some [char_of (n div 1024), char_of (n div 4 mod 256)])
                    else None)
                 else
                   (case base64_val d of
                      None \<Rightarrow> None
                    | Some w \<Rightarrow>
                        (let n = ((x * 64 + y) * 64 + z) * 64 + w in
                         map_option (append [char_of (n div 65536), char_of (n div 256 mod 256), char_of (n mod 256)])
                           (base64_quads s))))
      | _ \<Rightarrow> None)"
| "base64_quads s = None"

definition base64_decode :: "string \<Rightarrow> string option" where
  "base64_decode s = base64_quads (filter (\<lambda>c. c \<noteq> CHR 0x0D \<and> c \<noteq> CHR 0x0A) s)"

text \<open>Decoding into a byte slice, of which \<open>null\<close> makes a nil one.\<close>

definition decode_bytes :: "string \<Rightarrow> string option" where
  "decode_bytes v =
     (if v = ''null'' then Some []
      else if json_string v then base64_decode (unquote (butlast (tl v)))
      else None)"

lemma code_lt: "code c < 256"
  by simp

lemma base64_digit_cases:
  assumes "n < 64"
  obtains (upper) "n < 26" "code (base64_digit n) = 65 + n" | (lower) "26 \<le> n" "n < 52" "code (base64_digit n) = 71 + n"
    | (digit) "52 \<le> n" "n < 62" "code (base64_digit n) = n - 4" | (plus) "n = 62" "base64_digit n = CHR ''+''"
    | (slash) "n = 63" "base64_digit n = CHR ''/''"
proof -
  have c: "code (char_of m) = m" if "m < 256" for m using that by simp
  consider "n < 26" | "26 \<le> n \<and> n < 52" | "52 \<le> n \<and> n < 62" | "n = 62" | "n = 63" using assms by linarith
  then show thesis
  proof cases
    case 1
    then show thesis using upper c [of "65 + n"] by (simp add: base64_digit_def)
  next
    case 2
    then show thesis using lower c [of "71 + n"] by (simp add: base64_digit_def)
  next
    case 3
    then have "code (char_of (n - 4)) = n - 4" by (intro c) arith
    then show thesis using digit 3 by (simp add: base64_digit_def)
  qed (use plus slash in \<open>simp_all add: base64_digit_def\<close>)
qed

lemma base64_val_digit [simp]: "n < 64 \<Longrightarrow> base64_val (base64_digit n) = Some n"
  by (erule base64_digit_cases) (auto simp: base64_val_def Let_def)

lemma base64_digit_verbatim:
  assumes "n < 64"
  shows "verbatim (base64_digit n)" "base64_digit n \<noteq> CHR ''=''"
proof -
  have "code (base64_digit n) \<in> {43, 47} \<union> {48..57} \<union> {65..90} \<union> {97..122}"
    using assms by (cases rule: base64_digit_cases) auto
  then have "\<forall>c \<in> {CHR 0x22, CHR 0x5C, CHR ''<'', CHR ''>'', CHR ''&'', CHR ''=''}. base64_digit n \<noteq> c"
      "32 \<le> code (base64_digit n) \<and> code (base64_digit n) < 128"
    by auto
  then show "verbatim (base64_digit n)" "base64_digit n \<noteq> CHR ''=''" by (auto simp: verbatim_def)
qed

lemma base64_bytes:
  assumes "a < 256" "b < 256" "c < (256 :: nat)"
  shows "(a * 16 div 64 * 64 + a * 16 mod 64) div 16 = a"
    and "n = (a * 256 + b) * 4 \<Longrightarrow> n div 1024 = a \<and> n div 4 mod 256 = b \<and> n div 4096 < 64"
    and "n = (a * 256 + b) * 256 + c \<Longrightarrow> n div 65536 = a \<and> n div 256 mod 256 = b \<and> n mod 256 = c \<and> n div 262144 < 64"
proof -
  show "(a * 16 div 64 * 64 + a * 16 mod 64) div 16 = a" by (simp only: div_mult_mod_eq)
  show "n div 1024 = a \<and> n div 4 mod 256 = b \<and> n div 4096 < 64" if n: "n = (a * 256 + b) * 4" 
  proof (intro conjI)
    show "n div 1024 = a" using assms n by (intro div_nat_eqI) simp_all
    show "n div 4 mod 256 = b" using assms n by simp
    show "n div 4096 < 64" using assms n by (intro less_mult_imp_div_less) simp
  qed
  show "n div 65536 = a \<and> n div 256 mod 256 = b \<and> n mod 256 = c \<and> n div 262144 < 64" if n: "n = (a * 256 + b) * 256 + c"
  proof (intro conjI)
    show "n div 65536 = a" using assms n by (intro div_nat_eqI) simp_all
    have "n div 256 = a * 256 + b" using assms n by (intro div_nat_eqI) simp_all
    then show "n div 256 mod 256 = b" using assms by simp
    have "n mod 256 = c mod 256" unfolding n by (rule mod_mult_self3)
    then show "n mod 256 = c" using assms(3) by simp
    show "n div 262144 < 64" using assms n by (intro less_mult_imp_div_less) simp
  qed
qed

lemma base64_verbatim: "c \<in> set (base64 s) \<Longrightarrow> verbatim c"
proof (induction s rule: base64.induct)
  case (4 a b c' s)
  have "((code a * 256 + code b) * 256 + code c') div 262144 < 64"
    using base64_bytes(3) [OF code_lt code_lt code_lt refl] by blast
  then show ?case using 4 by (auto simp: Let_def base64_digit_verbatim)
next
  case (3 a b)
  have "(code a * 256 + code b) * 4 div 4096 < 64"
    using base64_bytes(2) [OF code_lt code_lt _ refl, of 0] by simp
  then show ?case using 3 by (auto simp: Let_def base64_digit_verbatim verbatim_def [of "CHR ''=''"])
next
  case (2 a)
  have "code a * 16 div 64 < 64" using code_lt [of a] by (intro less_mult_imp_div_less) simp
  then show ?case using 2 by (auto simp: Let_def base64_digit_verbatim verbatim_def [of "CHR ''=''"])
qed simp

lemma quad_value: "n div 262144 * 64 + n div 4096 mod 64 = n div 4096" "n div 4096 * 64 + n div 64 mod 64 = n div 64"
  "n div 64 * 64 + n mod 64 = n" for n :: nat
  using div_mult_mod_eq [of "n div 4096" 64] div_mult_mod_eq [of "n div 64" 64] by (simp_all add: div_mult2_eq [symmetric])

lemma quad_normal:
  fixes x :: nat
  shows "(x * 64 + y) * 64 + z = 4096 * x + y * 64 + z" "((x * 64 + y) * 64 + z) * 64 + w = 262144 * x + 4096 * y + z * 64 + w"
  by simp_all

lemma base64_quads_base64: "base64_quads (base64 s) = Some s"
proof (induction s rule: base64.induct)
  case (2 a)
  define n where "n = code a * 16"
  have n: "n div 64 < 64" "(n div 64 * 64 + n mod 64) div 16 = code a"
    using code_lt [of a] base64_bytes(1) [of "code a" 0 0] unfolding n_def by (auto intro: less_mult_imp_div_less)
  show ?case unfolding base64.simps Let_def n_def [symmetric] using n by (simp del: div_mult_mod_eq)
next
  case (3 a b)
  define n where "n = (code a * 256 + code b) * 4"
  have n: "n div 1024 = code a" "n div 4 mod 256 = code b" "n div 4096 < 64"
    using base64_bytes(2) [OF code_lt code_lt, of 0 n a b] n_def by simp_all
  have v: "4096 * (n div 4096) + n div 64 mod 64 * 64 + n mod 64 = n"
    using quad_value(2,3) [of n] quad_normal(1) [of "n div 4096" "n div 64 mod 64" "n mod 64"] by (simp only:)
  have b: "char_of (n div 4) = b" using n(2) by (metis char_of_mod_256 char_of_char)
  show ?case unfolding base64.simps Let_def n_def [symmetric]
    using n(3) by (simp add: Let_def base64_digit_verbatim v n(1) b)
next
  case (4 a b c s)
  define n where "n = (code a * 256 + code b) * 256 + code c"
  have n: "n div 65536 = code a" "n div 256 mod 256 = code b" "n mod 256 = code c" "n div 262144 < 64"
    using base64_bytes(3) [OF code_lt code_lt code_lt, of n a b c] n_def by simp_all
  have v: "262144 * (n div 262144) + 4096 * (n div 4096 mod 64) + n div 64 mod 64 * 64 + n mod 64 = n"
    using quad_value [of n] quad_normal(2) [of "n div 262144" "n div 4096 mod 64" "n div 64 mod 64" "n mod 64"] by (simp only:)
  have b: "char_of (n div 256) = b" "char_of n = c" using n(2,3) by (metis char_of_mod_256 char_of_char)+
  show ?case unfolding base64.simps Let_def n_def [symmetric]
    using n(4) 4 by (simp add: Let_def base64_digit_verbatim v n(1) b)
qed simp

theorem base64_decode_base64: "base64_decode (base64 s) = Some s"
proof -
  have "filter (\<lambda>c. c \<noteq> CHR 0x0D \<and> c \<noteq> CHR 0x0A) (base64 s) = base64 s"
  proof (intro filter_True ballI)
    fix c
    assume "c \<in> set (base64 s)"
    then have "32 \<le> code c" using base64_verbatim by (auto simp: verbatim_def)
    then show "c \<noteq> CHR 0x0D \<and> c \<noteq> CHR 0x0A" by auto
  qed
  then show ?thesis by (simp add: base64_decode_def base64_quads_base64)
qed

lemma decode_bytes_base64 [simp]: "decode_bytes (json_quote (base64 s)) = Some s"
proof -
  have "escape (base64 s) = base64 s" using base64_verbatim by (intro escape_verbatim) blast
  moreover have "to_valid (base64 s) = base64 s"
    using base64_verbatim by (intro to_valid_ascii) (auto simp: verbatim_def)
  ultimately show ?thesis
    using unquote_escape [of "base64 s"] base64_decode_base64 [of s]
    by (simp add: decode_bytes_def json_quote_def json_string_def butlast_append)
qed

section \<open>\<open>json.Unmarshal\<close>\<close>

text \<open>The text of JSON errors is not modelled.\<close>

definition json_error :: goerr where
  "json_error = ErrorsNew ''json''"

text \<open>\<open>json.Unmarshal\<close>: the whole text must be valid.\<close>

definition Unmarshal_struct :: "(string \<Rightarrow> string \<Rightarrow> 'a \<Rightarrow> 'a option) \<Rightarrow> 'a \<Rightarrow> string \<Rightarrow> 'a option" where
  "Unmarshal_struct f x body = (if json_Valid body then decode_struct f x body else None)"

fun decode_each :: "(string \<Rightarrow> string \<Rightarrow> 'a \<Rightarrow> 'a option) \<Rightarrow> 'a \<Rightarrow> string list \<Rightarrow> 'a list option" where
  "decode_each f x [] = Some []"
| "decode_each f x (v # vs) =
     (case decode_struct f x v of None \<Rightarrow> None | Some y \<Rightarrow> map_option (Cons y) (decode_each f x vs))"

definition Unmarshal_slice :: "(string \<Rightarrow> string \<Rightarrow> 'a \<Rightarrow> 'a option) \<Rightarrow> 'a \<Rightarrow> string \<Rightarrow> 'a list option" where
  "Unmarshal_slice f x body =
     (if \<not> json_Valid body then None
      else
        (case first_value body of
           None \<Rightarrow> None
         | Some v \<Rightarrow>
             if v = ''null'' then Some []
             else if json_array v then decode_each f x (items_of v)
             else None))"

end
