(* ===== verification/RedisClient.thy ===== *)
theory RedisClient
  imports Go_Prelude
begin

text \<open>
  The client of \<open>github.com/redis/go-redis\<close>, a parameter of the Redis guard and the Redis queue, as far as
  they rely on it: a command is a function on the server's state, and what becomes of a call is the
  \<open>delivery\<close>. The client repeats calls after network errors, so a command may have been executed before
  its reply arrives, and it may have been executed although the caller gets an error.
\<close>

text \<open>A call is executed \<open>n + 1\<close> times and the last reply arrives, or \<open>n\<close> times and the caller gets an error.\<close>

datatype delivery = Delivered nat | Lost nat goerr

fun repeated :: "delivery \<Rightarrow> bool" where
  "repeated (Delivered n) = True"
| "repeated (Lost n err) = False"

lemma repeatedE:
  assumes "repeated d"
  obtains n where "d = Delivered n"
  using assms by (cases d) auto

text \<open>\<open>redis.Nil\<close>, the error of a nil reply.\<close>

definition redis_Nil :: goerr where
  "redis_Nil = ErrorsNew ''redis: nil''"

fun client_call :: "delivery \<Rightarrow> ('r \<Rightarrow> (goerr + 'a) \<times> 'r) \<Rightarrow> 'r \<Rightarrow> (goerr + 'a) \<times> 'r" where
  "client_call (Delivered n) f r = f (((snd \<circ> f) ^^ n) r)"
| "client_call (Lost n err) f r = (Inl err, ((snd \<circ> f) ^^ n) r)"

text \<open>What every execution keeps is kept by the call, and a result is the result of one execution.\<close>

lemma client_call_inv:
  assumes "client_call d f r = (x, r')" "P r" "\<forall>s. P s \<longrightarrow> P (snd (f s))"
  shows "P r'" "\<And>y. x = Inr y \<Longrightarrow> \<exists>s. P s \<and> f s = (Inr y, r')"
proof -
  have pow: "P (((snd \<circ> f) ^^ n) r)" for n using assms(2,3) by (induction n) auto
  show "P r'"
  proof (cases d)
    case (Delivered n)
    then show ?thesis using assms(1,3) pow [of n] by (metis client_call.simps(1) snd_conv)
  next
    case (Lost n err)
    then show ?thesis using assms(1) pow [of n] by simp
  qed
  show "\<exists>s. P s \<and> f s = (Inr y, r')" if "x = Inr y" for y
    using assms(1) that pow by (cases d) auto
qed

end
