(* ===== verification/RedisGuard.thy ===== *)
theory RedisGuard
  imports MemoryGuard Go_Time RedisClient
begin

text \<open>
  The Redis guard of \<open>internal/idempotency/guard.go\<close>: its two Lua scripts, its operations and the
  JSON of a cached response. The Redis server and the client library are parameters: the commands the
  scripts and the client issue, and what becomes of a call, which the client may repeat and whose reply
  may be lost. Properties: over a server with the documented behaviour the Redis guard returns what the
  in-memory guard returns, call by call; when the reply of an acquisition is lost and the client repeats
  the call, the lock is taken and nobody owns it.
\<close>

section \<open>The Redis commands\<close>

datatype redis_reply = RNil | RString string | RInt int

record 'r redis_client =
  rd_GET :: "env \<Rightarrow> string \<Rightarrow> 'r \<Rightarrow> string option"
  rd_SET_NX_PX :: "env \<Rightarrow> string \<Rightarrow> string \<Rightarrow> string \<Rightarrow> 'r \<Rightarrow> bool \<times> 'r"
  rd_DEL :: "env \<Rightarrow> string \<Rightarrow> 'r \<Rightarrow> int \<times> 'r"
  rd_SET :: "env \<Rightarrow> string \<Rightarrow> string \<Rightarrow> duration \<Rightarrow> 'r \<Rightarrow> 'r"
  rd_delivery :: "env \<Rightarrow> delivery"

text \<open>The result of a script: a nil reply is the error \<open>redis.Nil\<close>.\<close>

definition script_result :: "redis_reply \<Rightarrow> goerr + redis_reply" where
  "script_result reply = (if reply = RNil then Inl redis_Nil else Inr reply)"

definition script_call :: "delivery \<Rightarrow> ('r \<Rightarrow> redis_reply \<times> 'r) \<Rightarrow> 'r \<Rightarrow> (goerr + redis_reply) \<times> 'r" where
  "script_call d f = client_call d (\<lambda>r. case f r of (reply, r') \<Rightarrow> (script_result reply, r'))"

lemma script_call_simps [simp]:
  "script_call (Delivered n) f r =
     (case f (((snd \<circ> f) ^^ n) r) of (reply, r') \<Rightarrow> (if reply = RNil then Inl redis_Nil else Inr reply, r'))"
  "script_call (Lost n err) f r = (Inl err, ((snd \<circ> f) ^^ n) r)"
proof -
  have "snd \<circ> (\<lambda>r. case f r of (reply, r') \<Rightarrow> (script_result reply, r')) = snd \<circ> f" by (auto simp: split: prod.splits)
  then show "script_call (Delivered n) f r =
     (case f (((snd \<circ> f) ^^ n) r) of (reply, r') \<Rightarrow> (if reply = RNil then Inl redis_Nil else Inr reply, r'))"
    "script_call (Lost n err) f r = (Inl err, ((snd \<circ> f) ^^ n) r)"
    by (simp_all add: script_call_def script_result_def)
qed

section \<open>The guard\<close>

definition inFlightMarker :: string where
  "inFlightMarker = ''IN_FLIGHT''"

definition acquireLockLua :: "'r redis_client \<Rightarrow> env \<Rightarrow> string \<Rightarrow> string \<Rightarrow> 'r \<Rightarrow> redis_reply \<times> 'r" where
  "acquireLockLua R e key arg r =
     (case rd_GET R e key r of
        Some v \<Rightarrow> (RString v, r)
      | None \<Rightarrow>
          (case rd_SET_NX_PX R e key ''IN_FLIGHT'' arg r of (ok, r') \<Rightarrow>
             if ok then (RString ''ACQUIRED'', r')
             else (case rd_GET R e key r' of Some v \<Rightarrow> RString v | None \<Rightarrow> RNil, r')))"

definition releaseLockLua :: "'r redis_client \<Rightarrow> env \<Rightarrow> string \<Rightarrow> 'r \<Rightarrow> redis_reply \<times> 'r" where
  "releaseLockLua R e key r =
     (if rd_GET R e key r = Some ''IN_FLIGHT'' then (case rd_DEL R e key r of (n, r') \<Rightarrow> (RInt n, r'))
      else (RInt 0, r))"

definition redisKey :: "string \<Rightarrow> string \<Rightarrow> string" where
  "redisKey tenantID key = ''idemp:'' @ tenantID @ '':'' @ key"

text \<open>\<open>Duration.Milliseconds\<close> drops the fraction.\<close>

definition Milliseconds :: "duration \<Rightarrow> int" where
  "Milliseconds d = sgn d * (\<bar>d\<bar> div Millisecond)"

definition lock_ttl :: "duration \<Rightarrow> int" where
  "lock_ttl ttl = (let ttlMs = Milliseconds ttl in if ttlMs \<le> 0 then Milliseconds (24 * Hour) else ttlMs)"

text \<open>
  The JSON of a cached response. A nil body is not told from an empty one: it is written \<open>null\<close>, which
  is read back as the same empty body.
\<close>

definition CachedResponse_json :: "CachedResponse \<Rightarrow> json option" where
  "CachedResponse_json c =
     map_option (\<lambda>t. JObject [(''status_code'', JInt (cr_StatusCode c)), (''body'', JString (base64 (cr_Body c))),
        (''completed_at'', JString t)]) (time_json (cr_CompletedAt c))"

definition store_cached :: "(string \<Rightarrow> gotime option) \<Rightarrow> string \<Rightarrow> string \<Rightarrow> CachedResponse \<Rightarrow> CachedResponse option" where
  "store_cached lenient name v c =
     (if is_field ''status_code'' name then map_option (\<lambda>i. c\<lparr>cr_StatusCode := i\<rparr>) (decode_int v (cr_StatusCode c))
      else if is_field ''body'' name then map_option (\<lambda>b. c\<lparr>cr_Body := b\<rparr>) (decode_bytes v)
      else if is_field ''completed_at'' name then
        map_option (\<lambda>t. c\<lparr>cr_CompletedAt := t\<rparr>) (decode_time lenient v (cr_CompletedAt c))
      else Some c)"

definition rg_AcquireLock ::
    "(string \<Rightarrow> gotime option) \<Rightarrow> 'r redis_client \<Rightarrow> env \<Rightarrow> string \<Rightarrow> string \<Rightarrow> duration \<Rightarrow> 'r \<Rightarrow>
       (goerr + bool \<times> CachedResponse option) \<times> 'r" where
  "rg_AcquireLock lenient R e tenantID key ttl r =
     (if tenantID = '''' \<or> key = '''' then (Inl ErrInvalidParameters, r)
      else
        (case script_call (rd_delivery R e) (acquireLockLua R e (redisKey tenantID key) (show_int (lock_ttl ttl))) r of (res, r') \<Rightarrow>
          ((case res of
              Inl err \<Rightarrow> Inl (Errorf ''redis acquire lock error'' err)
            | Inr (RString s) \<Rightarrow>
                if s = ''ACQUIRED'' then Inr (True, None)
                else if s = inFlightMarker then Inr (False, None)
                else
                  (case Unmarshal_struct (store_cached lenient) \<lparr>cr_StatusCode = 0, cr_Body = '''', cr_CompletedAt = 0\<rparr> s of
                     None \<Rightarrow> Inl (Errorf ''failed to unmarshal cached response'' json_error)
                   | Some cached \<Rightarrow> Inr (False, Some cached))
            | Inr (RInt _) \<Rightarrow> Inl (ErrorsNew ''unexpected redis result type: int64'')
            | Inr RNil \<Rightarrow> Inl (ErrorsNew ''unexpected redis result type: <nil>'')), r')))"

definition rg_SetResponse ::
    "'r redis_client \<Rightarrow> env \<Rightarrow> string \<Rightarrow> string \<Rightarrow> int \<Rightarrow> string \<Rightarrow> duration \<Rightarrow> 'r \<Rightarrow> goerr option \<times> 'r" where
  "rg_SetResponse R e tenantID key statusCode responseBody ttl r =
     (if tenantID = '''' \<or> key = '''' then (Some ErrInvalidParameters, r)
      else
        (case CachedResponse_json \<lparr>cr_StatusCode = statusCode, cr_Body = responseBody, cr_CompletedAt = e_now e\<rparr> of
           None \<Rightarrow> (Some (Errorf ''failed to marshal cached response'' json_error), r)
         | Some doc \<Rightarrow>
             (case script_call (rd_delivery R e)
                 (\<lambda>r. (RString ''OK'', rd_SET R e (redisKey tenantID key) (encode doc) ttl r)) r of (res, r') \<Rightarrow>
               (case res of
                  Inl err \<Rightarrow> (Some (Errorf ''redis set response error'' err), r')
                | Inr _ \<Rightarrow> (None, r')))))"

definition rg_ReleaseLock :: "'r redis_client \<Rightarrow> env \<Rightarrow> string \<Rightarrow> string \<Rightarrow> 'r \<Rightarrow> goerr option \<times> 'r" where
  "rg_ReleaseLock R e tenantID key r =
     (if tenantID = '''' \<or> key = '''' then (Some ErrInvalidParameters, r)
      else
        (case script_call (rd_delivery R e) (releaseLockLua R e (redisKey tenantID key)) r of (res, r') \<Rightarrow>
          (case res of
             Inl err \<Rightarrow> (if errors_is err redis_Nil then None else Some (Errorf ''redis release lock error'' err), r')
           | Inr _ \<Rightarrow> (None, r'))))"

definition redis_guard_ops :: "(string \<Rightarrow> gotime option) \<Rightarrow> 'r redis_client \<Rightarrow> 'r guard" where
  "redis_guard_ops lenient R =
     \<lparr>gd_AcquireLock = rg_AcquireLock lenient R, gd_SetResponse = rg_SetResponse R, gd_ReleaseLock = rg_ReleaseLock R\<rparr>"

section \<open>A documented server\<close>

text \<open>
  What the commands do, in terms of what \<open>GET\<close> answers at any later time: a value with a time to live
  is there for that long and gone a millisecond later, the accuracy that Redis documents; \<open>SET NX\<close> writes
  only when there is no value; a write and \<open>DEL\<close> touch no other key.
\<close>

definition kept_for :: "(gotime \<Rightarrow> string option) \<Rightarrow> string \<Rightarrow> gotime \<Rightarrow> bool" where
  "kept_for h v expiry \<longleftrightarrow> (\<forall>n. (n < expiry \<longrightarrow> h n = Some v) \<and> (expiry + Millisecond \<le> n \<longrightarrow> h n = None))"

definition GET_documented :: "'r redis_client \<Rightarrow> ('r \<Rightarrow> string \<Rightarrow> gotime \<Rightarrow> string option) \<Rightarrow> bool" where
  "GET_documented R holds \<longleftrightarrow> (\<forall>e k r. rd_GET R e k r = holds r k (e_now e))"

definition SET_NX_documented :: "'r redis_client \<Rightarrow> ('r \<Rightarrow> string \<Rightarrow> gotime \<Rightarrow> string option) \<Rightarrow> bool" where
  "SET_NX_documented R holds \<longleftrightarrow>
     (\<forall>e k v ms r. 0 < ms \<longrightarrow> int64_ok ms \<longrightarrow> holds r k (e_now e) = None \<longrightarrow>
        (case rd_SET_NX_PX R e k v (show_int ms) r of (ok, r') \<Rightarrow>
           ok \<and> kept_for (holds r' k) v (e_now e + ms * Millisecond) \<and> (\<forall>k'. k' \<noteq> k \<longrightarrow> holds r' k' = holds r k')))"

definition DEL_documented :: "'r redis_client \<Rightarrow> ('r \<Rightarrow> string \<Rightarrow> gotime \<Rightarrow> string option) \<Rightarrow> bool" where
  "DEL_documented R holds \<longleftrightarrow>
     (\<forall>e k r k'. holds (snd (rd_DEL R e k r)) k' = (if k' = k then (\<lambda>n. None) else holds r k'))"

definition SET_documented :: "'r redis_client \<Rightarrow> ('r \<Rightarrow> string \<Rightarrow> gotime \<Rightarrow> string option) \<Rightarrow> bool" where
  "SET_documented R holds \<longleftrightarrow>
     (\<forall>e k v d r. 0 < d \<longrightarrow> d mod Millisecond = 0 \<longrightarrow>
        kept_for (holds (rd_SET R e k v d r) k) v (e_now e + d) \<and>
        (\<forall>k'. k' \<noteq> k \<longrightarrow> holds (rd_SET R e k v d r) k' = holds r k'))"

definition redis_documented :: "'r redis_client \<Rightarrow> ('r \<Rightarrow> string \<Rightarrow> gotime \<Rightarrow> string option) \<Rightarrow> bool" where
  "redis_documented R holds \<longleftrightarrow>
     GET_documented R holds \<and> SET_NX_documented R holds \<and> DEL_documented R holds \<and> SET_documented R holds"

lemma redis_GET: "redis_documented R holds \<Longrightarrow> rd_GET R e k r = holds r k (e_now e)"
  by (simp add: redis_documented_def GET_documented_def)

lemma redis_SET_NX:
  assumes "redis_documented R holds" "holds r k (e_now e) = None" "0 < ms" "int64_ok ms"
  obtains r' where "rd_SET_NX_PX R e k v (show_int ms) r = (True, r')"
    "kept_for (holds r' k) v (e_now e + ms * Millisecond)" "\<And>k'. k' \<noteq> k \<Longrightarrow> holds r' k' = holds r k'"
proof -
  have "SET_NX_documented R holds" using assms(1) by (simp add: redis_documented_def)
  note this [unfolded SET_NX_documented_def, rule_format, OF assms(3,4,2), of v]
  then show thesis using that by (auto split: prod.splits)
qed

lemma redis_DEL:
  "redis_documented R holds \<Longrightarrow> holds (snd (rd_DEL R e k r)) k' = (if k' = k then (\<lambda>n. None) else holds r k')"
  by (simp add: redis_documented_def DEL_documented_def)

lemma redis_SET:
  assumes "redis_documented R holds" "0 < d" "d mod Millisecond = 0"
  shows "kept_for (holds (rd_SET R e k v d r) k) v (e_now e + d)"
    "k' \<noteq> k \<Longrightarrow> holds (rd_SET R e k v d r) k' = holds r k'"
proof -
  have "SET_documented R holds" using assms(1) by (simp add: redis_documented_def)
  note x = this [unfolded SET_documented_def, rule_format, OF assms(2,3)]
  show "kept_for (holds (rd_SET R e k v d r) k) v (e_now e + d)" using x by blast
  show "k' \<noteq> k \<Longrightarrow> holds (rd_SET R e k v d r) k' = holds r k'" using x by blast
qed

section \<open>The text of a cached response\<close>

definition cached_ok :: "CachedResponse \<Rightarrow> bool" where
  "cached_ok c \<longleftrightarrow> int64_ok (cr_StatusCode c) \<and> 0 \<le> cr_CompletedAt c \<and> time_json (cr_CompletedAt c) \<noteq> None"

definition cached_text :: "CachedResponse \<Rightarrow> string" where
  "cached_text c = (case CachedResponse_json c of None \<Rightarrow> [] | Some doc \<Rightarrow> encode doc)"

lemma cached_text_decoded:
  assumes "cached_ok c"
  shows "Unmarshal_struct (store_cached lenient) z (cached_text c) = Some c" "\<exists>s. cached_text c = CHR 0x7B # s"
proof -
  obtain t where t: "time_json (cr_CompletedAt c) = Some t" using assms by (auto simp: cached_ok_def)
  define kvs where "kvs = [(''status_code'', JInt (cr_StatusCode c)), (''body'', JString (base64 (cr_Body c))), (''completed_at'', JString t)]"
  have x: "cached_text c = encode (JObject kvs)" by (simp add: cached_text_def CachedResponse_json_def t kvs_def del: encode.simps)
  have f: "fits maxNestingDepth (JObject kvs)" by (simp add: maxNestingDepth_def kvs_def)
  have "json_Valid (encode (JObject kvs))"
    using json_Valid_text [OF encode_value_text [OF f] order_refl, of "[]"] by (simp add: skip_ws_def del: encode.simps)
  then show "Unmarshal_struct (store_cached lenient) z (cached_text c) = Some c"
    using decode_struct_encode [OF f rep_Nil, of "store_cached lenient" z] decode_time_printed [OF t] assms
    unfolding x Unmarshal_struct_def
    by (simp add: kvs_def store_cached_def cached_ok_def del: encode.simps(6))
  show "\<exists>s. cached_text c = CHR 0x7B # s" unfolding x by simp
qed

section \<open>The two guards, call by call\<close>

datatype guard_result = RAcquired "goerr + bool \<times> CachedResponse option" | RDone "goerr option"

fun guard_call :: "'g guard \<Rightarrow> guard_label \<Rightarrow> 'g \<Rightarrow> guard_result \<times> 'g" where
  "guard_call G (GAcquire e t k ttl) g = map_prod RAcquired id (gd_AcquireLock G e t k ttl g)"
| "guard_call G (GSet e t k st b ttl) g = map_prod RDone id (gd_SetResponse G e t k st b ttl g)"
| "guard_call G (GRelease e t k) g = map_prod RDone id (gd_ReleaseLock G e t k g)"

fun guard_trace :: "'g guard \<Rightarrow> guard_label list \<Rightarrow> 'g \<Rightarrow> guard_result list" where
  "guard_trace G [] g = []"
| "guard_trace G (l # ls) g = (case guard_call G l g of (res, g') \<Rightarrow> res # guard_trace G ls g')"

text \<open>Calls that reach the server, an acquisition once, with times to live of whole milliseconds.\<close>

fun label_ok :: "(env \<Rightarrow> delivery) \<Rightarrow> guard_label \<Rightarrow> bool" where
  "label_ok dl (GAcquire e t k ttl) \<longleftrightarrow> live e \<and> dl e = Delivered 0 \<and> 0 < ttl \<and> ttl mod Millisecond = 0 \<and> int64_ok ttl"
| "label_ok dl (GSet e t k st b ttl) \<longleftrightarrow> live e \<and> repeated (dl e) \<and> 0 < ttl \<and> ttl mod Millisecond = 0 \<and>
     int64_ok st \<and> 0 \<le> e_now e \<and> time_json (e_now e) \<noteq> None"
| "label_ok dl (GRelease e t k) \<longleftrightarrow> live e \<and> repeated (dl e)"

fun label_key :: "guard_label \<Rightarrow> string" where
  "label_key (GAcquire e t k ttl) = memoryKey t k"
| "label_key (GSet e t k st b ttl) = memoryKey t k"
| "label_key (GRelease e t k) = memoryKey t k"

text \<open>Calls in the order of time, none in the millisecond in which its entry expires.\<close>

definition settled :: "string \<Rightarrow> gotime \<Rightarrow> memory_guard \<Rightarrow> bool" where
  "settled sk now m \<longleftrightarrow>
     (case map_of (gm_entries m) sk of
        None \<Rightarrow> True
      | Some en \<Rightarrow> now < me_expiresAt en \<or> me_expiresAt en + Millisecond \<le> now)"

fun timely :: "gotime \<Rightarrow> guard_label list \<Rightarrow> memory_guard \<Rightarrow> bool" where
  "timely now [] m = True"
| "timely now (l # ls) m \<longleftrightarrow> now \<le> label_now l \<and> settled (label_key l) (label_now l) m \<and> timely (label_now l) ls (gm_exec l m)"

text \<open>The entry of a storage key, and what the server holds under it from now on.\<close>

definition entry_text :: "memoryEntry \<Rightarrow> string" where
  "entry_text en = (case me_cached en of Some c \<Rightarrow> cached_text c | None \<Rightarrow> inFlightMarker)"

definition slot_rel :: "gotime \<Rightarrow> memoryEntry option \<Rightarrow> (gotime \<Rightarrow> string option) \<Rightarrow> bool" where
  "slot_rel now x h \<longleftrightarrow>
     (case x of
        None \<Rightarrow> \<forall>n\<ge>now. h n = None
      | Some en \<Rightarrow>
          (me_inFlight en \<longleftrightarrow> me_cached en = None) \<and> (\<forall>c. me_cached en = Some c \<longrightarrow> cached_ok c) \<and>
          (\<forall>n\<ge>now. (n < me_expiresAt en \<longrightarrow> h n = Some (entry_text en)) \<and> (me_expiresAt en + Millisecond \<le> n \<longrightarrow> h n = None)))"

definition stored_under :: "string \<Rightarrow> string" where
  "stored_under sk = ''idemp:'' @ sk"

lemma stored_under_inject [simp]: "stored_under sk = stored_under sk' \<longleftrightarrow> sk = sk'"
  by (simp add: stored_under_def)

definition guard_rel :: "gotime \<Rightarrow> memory_guard \<Rightarrow> (string \<Rightarrow> gotime \<Rightarrow> string option) \<Rightarrow> bool" where
  "guard_rel now m h \<longleftrightarrow> (\<forall>sk. slot_rel now (map_of (gm_entries m) sk) (h (stored_under sk)))"

lemma redisKey_memoryKey: "redisKey t k = stored_under (memoryKey t k)"
  by (simp add: stored_under_def redisKey_def memoryKey_def)

lemma slot_rel_later: "slot_rel now x h \<Longrightarrow> now \<le> now' \<Longrightarrow> slot_rel now' x h"
  by (auto simp: slot_rel_def split: option.splits)

lemma guard_rel_later: "guard_rel now m h \<Longrightarrow> now \<le> now' \<Longrightarrow> guard_rel now' m h"
  unfolding guard_rel_def by (blast intro: slot_rel_later)

lemma guard_rel_frame:
  assumes "guard_rel now m h" "now \<le> now'" "slot_rel now' (map_of (gm_entries m') sk) (h' (stored_under sk))"
    and "\<And>sk'. sk' \<noteq> sk \<Longrightarrow> map_of (gm_entries m') sk' = map_of (gm_entries m) sk' \<and> h' (stored_under sk') = h (stored_under sk')"
  shows "guard_rel now' m' h'"
  unfolding guard_rel_def
proof
  fix sk'
  show "slot_rel now' (map_of (gm_entries m') sk') (h' (stored_under sk'))"
  proof (cases "sk' = sk")
    case False
    have "slot_rel now (map_of (gm_entries m) sk') (h (stored_under sk'))" using assms(1) by (simp add: guard_rel_def)
    then show ?thesis using assms(4) [OF False] slot_rel_later [OF _ assms(2)] by simp
  qed (simp add: assms(3))
qed

lemma Milliseconds_whole: "0 < ttl \<Longrightarrow> ttl mod Millisecond = 0 \<Longrightarrow> lock_ttl ttl * Millisecond = ttl \<and> 0 < lock_ttl ttl"
proof -
  assume a: "0 < ttl" "ttl mod Millisecond = 0"
  have "Millisecond dvd ttl" using a(2) by (simp add: mod_eq_0_iff_dvd)
  then obtain q where q: "ttl = q * Millisecond" by (metis dvdE mult.commute)
  have "0 < Millisecond" by (simp add: Millisecond_def)
  then have "0 < q" using a(1) q by (simp add: zero_less_mult_iff)
  then have "lock_ttl ttl = q" using \<open>0 < Millisecond\<close> a(1) by (simp add: lock_ttl_def Milliseconds_def Let_def q)
  then show ?thesis using q \<open>0 < q\<close> by simp
qed


lemma acquire_step:
  assumes doc: "redis_documented R holds" and rel: "guard_rel now m (holds r)"
    and l: "label_ok (rd_delivery R) (GAcquire e t k ttl)" "now \<le> e_now e" "settled (memoryKey t k) (e_now e) m"
    and a: "rg_AcquireLock lenient R e t k ttl r = (x, r')" "gm_AcquireLock e t k ttl m = (y, m')"
  shows "x = y \<and> guard_rel (e_now e) m' (holds r')"
proof (cases "t = '''' \<or> k = ''''")
  case True
  then have "x = y \<and> m' = m \<and> r' = r" using a l(1) by (auto simp: rg_AcquireLock_def gm_AcquireLock_def)
  then show ?thesis using guard_rel_later [OF rel l(2)] by simp
next
  case False
  let ?sk = "memoryKey t k" and ?now = "e_now e"
  define h where "h = holds r (stored_under ?sk)"
  have s: "slot_rel ?now (map_of (gm_entries m) ?sk) h"
    using rel slot_rel_later [OF _ l(2)] by (simp add: guard_rel_def h_def)
  have same: "guard_rel ?now m (holds r)"
    by (rule guard_rel_later [OF rel l(2)])
  have get: "rd_GET R e (redisKey t k) r = h ?now" using redis_GET [OF doc] by (simp add: redisKey_memoryKey h_def)
  have ttl: "lock_ttl ttl * Millisecond = ttl" "0 < lock_ttl ttl" "int64_ok (lock_ttl ttl)"
  proof -
    show m: "lock_ttl ttl * Millisecond = ttl" "0 < lock_ttl ttl" using Milliseconds_whole l(1) by auto
    then show "int64_ok (lock_ttl ttl)" using l(1) by (auto simp: int64_ok_def Millisecond_def)
  qed
  note unfold_calls = rg_AcquireLock_def gm_AcquireLock_def acquireLockLua_def Let_def
  show ?thesis
  proof (cases "h ?now")
    case None
    obtain r2 where r2: "rd_SET_NX_PX R e (redisKey t k) ''IN_FLIGHT'' (show_int (lock_ttl ttl)) r = (True, r2)"
      "kept_for (holds r2 (redisKey t k)) ''IN_FLIGHT'' (?now + ttl)" "\<And>k'. k' \<noteq> redisKey t k \<Longrightarrow> holds r2 k' = holds r k'"
      using redis_SET_NX [OF doc, of r "redisKey t k" e "lock_ttl ttl" "''IN_FLIGHT''"] None ttl
      by (metis h_def redisKey_memoryKey)
    have x: "x = Inr (True, None)" "r' = r2"
      using a(1) l(1) False get None r2(1) by (simp_all add: unfold_calls)
    have y: "y = Inr (True, None)" "m' = m\<lparr>gm_entries := AList.update ?sk
        \<lparr>me_inFlight = True, me_cached = None, me_expiresAt = ?now + ttl\<rparr> (gm_entries m)\<rparr>"
      using a(2) l(1) False None s by (auto simp: unfold_calls slot_rel_def split: option.splits if_splits)
    have "guard_rel ?now m' (holds r')"
      by (rule guard_rel_frame [OF rel l(2), where sk = ?sk])
        (use r2(2,3) in \<open>simp_all add: x(2) y(2) slot_rel_def entry_text_def inFlightMarker_def kept_for_def redisKey_memoryKey\<close>)
    then show ?thesis using x y by simp
  next
    case (Some v)
    then obtain en where en: "map_of (gm_entries m) ?sk = Some en" "?now < me_expiresAt en" "v = entry_text en"
      "me_inFlight en \<longleftrightarrow> me_cached en = None" "\<And>c. me_cached en = Some c \<Longrightarrow> cached_ok c"
      using s l(3) unfolding slot_rel_def settled_def by (cases "map_of (gm_entries m) ?sk") force+
    show ?thesis
    proof (cases "me_cached en")
      case None
      then show ?thesis
        using a l(1) False get Some en same by (auto simp: unfold_calls entry_text_def inFlightMarker_def)
    next
      case (Some c)
      note c = cached_text_decoded [OF en(5) [OF Some]]
      then have "cached_text c \<noteq> ''ACQUIRED''" "cached_text c \<noteq> ''IN_FLIGHT''" by auto
      then show ?thesis
        using a l(1) False get \<open>h ?now = Some v\<close> en Some same c(1) by (auto simp: unfold_calls entry_text_def inFlightMarker_def)
    qed
  qed
qed

lemma set_step:
  assumes doc: "redis_documented R holds" and rel: "guard_rel now m (holds r)"
    and l: "label_ok (rd_delivery R) (GSet e t k st b ttl)" "now \<le> e_now e"
    and a: "rg_SetResponse R e t k st b ttl r = (x, r')" "gm_SetResponse e t k st b ttl m = (y, m')"
  shows "x = y \<and> guard_rel (e_now e) m' (holds r')"
proof (cases "t = [] \<or> k = []")
  case True
  then have "x = y \<and> m' = m \<and> r' = r" using a l(1) by (auto simp: rg_SetResponse_def gm_SetResponse_def)
  then show ?thesis using guard_rel_later [OF rel l(2)] by simp
next
  case False
  let ?sk = "memoryKey t k" and ?now = "e_now e"
  define c where "c = \<lparr>cr_StatusCode = st, cr_Body = b, cr_CompletedAt = ?now\<rparr>"
  have c: "cached_ok c" using l(1) by (simp add: cached_ok_def c_def)
  then obtain d where d: "CachedResponse_json c = Some d" by (auto simp: cached_ok_def CachedResponse_json_def)
  define f where "f = rd_SET R e (redisKey t k) (encode d) ttl"
  obtain n where n: "rd_delivery R e = Delivered n" using l(1) by (auto elim: repeatedE)
  have set: "kept_for (holds (f r) (redisKey t k)) (encode d) (?now + ttl)" "k' \<noteq> redisKey t k \<Longrightarrow> holds (f r) k' = holds r k'" for r k'
    using redis_SET [OF doc, of ttl] l(1) by (simp_all add: f_def)
  have frame: "k' \<noteq> redisKey t k \<Longrightarrow> holds ((f ^^ n) r) k' = holds r k'" for n k'
    by (induction n) (simp_all add: set(2))
  have "snd \<circ> (\<lambda>r. (RString ''OK'', f r)) = f" by (simp add: fun_eq_iff)
  then have x: "x = None" "r' = f ((f ^^ n) r)"
    using a(1) False n d by (auto simp: rg_SetResponse_def f_def c_def)
  have y: "y = None" "m' = m\<lparr>gm_entries := AList.update ?sk
        \<lparr>me_inFlight = False, me_cached = Some c, me_expiresAt = ?now + ttl\<rparr> (gm_entries m)\<rparr>"
    using a(2) l(1) False by (auto simp: gm_SetResponse_def Let_def c_def)
  have "entry_text \<lparr>me_inFlight = False, me_cached = Some c, me_expiresAt = ?now + ttl\<rparr> = encode d"
    using d by (simp add: entry_text_def cached_text_def)
  then have "guard_rel ?now m' (holds r')"
    by (intro guard_rel_frame [OF rel l(2), where sk = ?sk])
      (use set(1) [of "(f ^^ n) r"] c in \<open>simp_all add: x(2) y(2) set(2) frame slot_rel_def kept_for_def redisKey_memoryKey\<close>)
  then show ?thesis using x y by simp
qed

lemma release_step:
  assumes doc: "redis_documented R holds" and rel: "guard_rel now m (holds r)"
    and l: "label_ok (rd_delivery R) (GRelease e t k)" "now \<le> e_now e" "settled (memoryKey t k) (e_now e) m"
    and a: "rg_ReleaseLock R e t k r = (x, r')" "gm_ReleaseLock e t k m = (y, m')"
  shows "x = y \<and> guard_rel (e_now e) m' (holds r')"
proof (cases "t = [] \<or> k = []")
  case True
  then have "x = y \<and> m' = m \<and> r' = r" using a l(1) by (auto simp: rg_ReleaseLock_def gm_ReleaseLock_def)
  then show ?thesis using guard_rel_later [OF rel l(2)] by simp
next
  case False
  let ?sk = "memoryKey t k" and ?now = "e_now e"
  define f where "f = snd \<circ> releaseLockLua R e (redisKey t k)"
  define h where "h = holds r (redisKey t k)"
  obtain n where n: "rd_delivery R e = Delivered n" using l(1) by (auto elim: repeatedE)
  have f: "holds (f r) k' = (if k' = redisKey t k \<and> holds r (redisKey t k) ?now = Some ''IN_FLIGHT'' then (\<lambda>n. None) else holds r k')" for r k'
    using redis_DEL [OF doc, of e "redisKey t k" r k'] redis_GET [OF doc, of e "redisKey t k" r]
    by (auto simp: f_def releaseLockLua_def split: prod.splits)
  have fs: "holds (f ((f ^^ n) r)) k' = (if k' = redisKey t k \<and> h ?now = Some ''IN_FLIGHT'' then (\<lambda>n. None) else holds r k')" for n k'
    by (induction n arbitrary: k') (auto simp: f [of r] f [of "f _"] h_def)
  obtain z where z: "releaseLockLua R e (redisKey t k) ((f ^^ n) r) = (RInt z, f ((f ^^ n) r))"
    by (cases "releaseLockLua R e (redisKey t k) ((f ^^ n) r)") (auto simp: f_def releaseLockLua_def split: prod.splits if_splits)
  then have x: "x = None" "r' = f ((f ^^ n) r)"
    using a(1) False n by (simp_all add: rg_ReleaseLock_def f_def [symmetric])
  have y: "y = None" "m' = (case map_of (gm_entries m) ?sk of None \<Rightarrow> m
      | Some en \<Rightarrow> if me_inFlight en then m\<lparr>gm_entries := AList.delete ?sk (gm_entries m)\<rparr> else m)"
    using a(2) l(1) False by (auto simp: gm_ReleaseLock_def Let_def split: option.splits if_splits)
  have s: "slot_rel ?now (map_of (gm_entries m) ?sk) h"
    using rel slot_rel_later [OF _ l(2)] by (simp add: guard_rel_def h_def redisKey_memoryKey)
  have "slot_rel ?now (map_of (gm_entries m') ?sk) (if h ?now = Some ''IN_FLIGHT'' then (\<lambda>n. None) else h)"
  proof (cases "map_of (gm_entries m) ?sk")
    case None
    then show ?thesis using s by (simp add: y(2) slot_rel_def)
  next
    case (Some en)
    have t: "?now < me_expiresAt en \<and> h ?now = Some (entry_text en) \<or> me_expiresAt en + Millisecond \<le> ?now \<and> (\<forall>n \<ge> ?now. h n = None)"
      using s l(3) Some by (auto simp: slot_rel_def settled_def)
    show ?thesis
    proof (cases "me_cached en")
      case None
      then show ?thesis using s t Some by (auto simp: y(2) slot_rel_def entry_text_def inFlightMarker_def)
    next
      case (Some c)
      then have "entry_text en \<noteq> ''IN_FLIGHT''"
        using s \<open>map_of (gm_entries m) ?sk = Some en\<close> cached_text_decoded(2) [of c] by (auto simp: slot_rel_def entry_text_def)
      then show ?thesis using s t Some \<open>map_of (gm_entries m) ?sk = Some en\<close> by (auto simp: y(2) slot_rel_def)
    qed
  qed
  then have "guard_rel ?now m' (holds r')"
    by (intro guard_rel_frame [OF rel l(2), where sk = ?sk])
      (auto simp: x(2) fs h_def redisKey_memoryKey y(2) split: option.splits)
  then show ?thesis using x y by simp
qed

lemma guard_step:
  assumes "redis_documented R holds" "guard_rel now m (holds r)" "label_ok (rd_delivery R) l" "now \<le> label_now l"
    "settled (label_key l) (label_now l) m"
    and "guard_call (redis_guard_ops lenient R) l r = (x, r')" "guard_call memory_guard_ops l m = (y, m')"
  shows "x = y \<and> guard_rel (label_now l) m' (holds r') \<and> m' = gm_exec l m"
proof (cases l)
  case (GAcquire e t k ttl)
  then show ?thesis
    using assms acquire_step [OF assms(1,2), of e t k ttl lenient]
    by (auto simp: redis_guard_ops_def memory_guard_ops_def map_prod_def split: prod.splits)
next
  case (GSet e t k st b ttl)
  then show ?thesis
    using assms set_step [OF assms(1,2), of e t k st b ttl]
    by (auto simp: redis_guard_ops_def memory_guard_ops_def map_prod_def split: prod.splits)
next
  case (GRelease e t k)
  then show ?thesis
    using assms release_step [OF assms(1,2), of e t k]
    by (auto simp: redis_guard_ops_def memory_guard_ops_def map_prod_def split: prod.splits)
qed

section \<open>Properties\<close>

text \<open>C23: over a server whose commands do what Redis documents, the Redis guard returns exactly what the
  in-memory guard returns, for every sequence of acquisitions, responses and releases in the order of time
  that starts with no guard key on the server and in which every context is live, every acquisition is
  executed once and answered (the client may repeat the other calls), every time to live is a positive
  whole number of milliseconds, a response has a status of 64 bits and a time that JSON can write, and no
  call falls in the millisecond in which the entry of its key expires.\<close>

theorem redis_refines_memory:
  assumes "redis_documented R holds" "\<forall>k n. holds r (''idemp:'' @ k) n = None"
    and "\<forall>l \<in> set ls. label_ok (rd_delivery R) l" "timely now ls NewMemoryGuard"
  shows "guard_trace (redis_guard_ops lenient R) ls r = guard_trace memory_guard_ops ls NewMemoryGuard"
proof -
  have "guard_rel now m (holds r) \<Longrightarrow> \<forall>l \<in> set ls. label_ok (rd_delivery R) l \<Longrightarrow> timely now ls m \<Longrightarrow>
      guard_trace (redis_guard_ops lenient R) ls r = guard_trace memory_guard_ops ls m" for m
  proof (induction ls arbitrary: now m r)
    case (Cons l ls)
    obtain x r' y m' where c: "guard_call (redis_guard_ops lenient R) l r = (x, r')" "guard_call memory_guard_ops l m = (y, m')"
      by fastforce
    then show ?case
      using guard_step [OF assms(1) Cons.prems(1) _ _ _ c] Cons.IH [of "label_now l" m' r'] Cons.prems(2,3) by auto
  qed simp
  moreover have "guard_rel now NewMemoryGuard (holds r)"
    using assms(2) by (simp add: guard_rel_def slot_rel_def NewMemoryGuard_def stored_under_def)
  ultimately show ?thesis using assms(3,4) by blast
qed

text \<open>A keyspace with times to live, which behaves as documented.\<close>

type_synonym keyspace = "(string, string \<times> gotime option) gomap"

definition ks_holds :: "keyspace \<Rightarrow> string \<Rightarrow> gotime \<Rightarrow> string option" where
  "ks_holds r k n =
     (case map_of r k of
        None \<Rightarrow> None
      | Some (v, x) \<Rightarrow> (case x of None \<Rightarrow> Some v | Some expiry \<Rightarrow> if n < expiry then Some v else None))"

definition keyspace_client :: "(env \<Rightarrow> delivery) \<Rightarrow> keyspace redis_client" where
  "keyspace_client dl =
     \<lparr>rd_GET = (\<lambda>e k r. ks_holds r k (e_now e)),
      rd_SET_NX_PX = (\<lambda>e k v arg r.
        if ks_holds r k (e_now e) = None
        then (True, AList.update k (v, map_option (\<lambda>ms. e_now e + ms * Millisecond) (ParseInt64 arg)) r) else (False, r)),
      rd_DEL = (\<lambda>e k r. (if ks_holds r k (e_now e) = None then 0 else 1, AList.delete k r)),
      rd_SET = (\<lambda>e k v d r. AList.update k (v, if d = 0 then None else Some (e_now e + d)) r),
      rd_delivery = dl\<rparr>"

lemma keyspace_documented: "redis_documented (keyspace_client dl) ks_holds"
proof -
  have "0 < Millisecond" by (simp add: Millisecond_def)
  then show ?thesis
    by (auto simp: redis_documented_def GET_documented_def SET_NX_documented_def DEL_documented_def SET_documented_def
        keyspace_client_def ks_holds_def kept_for_def ParseInt64_show_int fun_eq_iff)
qed

theorem redis_refines_memory_witness:
  "guard_trace (redis_guard_ops (\<lambda>s. None) (keyspace_client (\<lambda>e. if e_now e = 30 then Delivered 2 else Delivered 0)))
     [GAcquire (genv 10) ''acme'' ''k1'' 5000000, GSet (genv 30) ''acme'' ''k1'' 202 ''{}'' 7000000, GAcquire (genv 40) ''acme'' ''k1'' 5000000] [] =
   guard_trace memory_guard_ops
     [GAcquire (genv 10) ''acme'' ''k1'' 5000000, GSet (genv 30) ''acme'' ''k1'' 202 ''{}'' 7000000, GAcquire (genv 40) ''acme'' ''k1'' 5000000]
     NewMemoryGuard"
proof (rule redis_refines_memory [OF keyspace_documented, where now = 0])
  have t: "time_json 30 \<noteq> None" by code_simp
  show "\<forall>l \<in> set [GAcquire (genv 10) ''acme'' ''k1'' 5000000, GSet (genv 30) ''acme'' ''k1'' 202 ''{}'' 7000000,
      GAcquire (genv 40) ''acme'' ''k1'' 5000000].
    label_ok (rd_delivery (keyspace_client (\<lambda>e. if e_now e = 30 then Delivered 2 else Delivered 0))) l"
    using t by (simp add: keyspace_client_def genv_def Millisecond_def int64_ok_def)
qed (simp_all add: ks_holds_def genv_def settled_def NewMemoryGuard_def memoryKey_def gm_AcquireLock_def gm_SetResponse_def)

text \<open>An acquisition carries no owner: when it finds the key free and its reply is lost, the lock is
  taken and no caller has it. A client that repeats the call is told that another request is in flight,
  one that does not gets an error, and in both cases every acquisition of the key is refused as in flight
  until the time to live ends.\<close>

theorem lost_reply_locks:
  assumes "redis_documented R holds" "t \<noteq> []" "k \<noteq> []" "0 < ttl" "ttl mod Millisecond = 0" "int64_ok ttl"
    and "holds r (redisKey t k) (e_now e) = None"
    and "rd_delivery R e = Delivered (Suc n) \<or> rd_delivery R e = Lost (Suc n) err"
    and "rg_AcquireLock lenient R e t k ttl r = (x, r')"
    and "rd_delivery R e' = Delivered n'" "e_now e' < e_now e + ttl"
  shows "x = (case rd_delivery R e of Delivered _ \<Rightarrow> Inr (False, None) | Lost _ err \<Rightarrow> Inl (Errorf ''redis acquire lock error'' err)) \<and>
    fst (rg_AcquireLock lenient R e' t k ttl' r') = Inr (False, None)"
proof -
  let ?key = "redisKey t k" and ?arg = "show_int (lock_ttl ttl)"
  have ttl: "lock_ttl ttl * Millisecond = ttl" "0 < lock_ttl ttl" using Milliseconds_whole [OF assms(4,5)] by auto
  then have "int64_ok (lock_ttl ttl)" using assms(6) by (auto simp: int64_ok_def Millisecond_def)
  then obtain r2 where r2: "rd_SET_NX_PX R e ?key ''IN_FLIGHT'' ?arg r = (True, r2)"
      "kept_for (holds r2 ?key) ''IN_FLIGHT'' (e_now e + ttl)"
    using redis_SET_NX [OF assms(1,7) ttl(2), of "''IN_FLIGHT''"] ttl(1) by metis
  have held: "holds r2 ?key n = Some ''IN_FLIGHT''" if "n < e_now e + ttl" for n using r2(2) that by (simp add: kept_for_def)
  note get = redis_GET [OF assms(1)]
  have again: "acquireLockLua R e0 ?key arg r2 = (RString ''IN_FLIGHT'', r2)" if "e_now e0 < e_now e + ttl" for e0 arg
    using held [OF that] by (simp add: acquireLockLua_def get)
  have first: "acquireLockLua R e ?key ?arg r = (RString ''ACQUIRED'', r2)"
    using assms(7) r2(1) by (simp add: acquireLockLua_def get)
  have pow: "((snd \<circ> acquireLockLua R e0 ?key arg) ^^ n) r2 = r2" if "e_now e0 < e_now e + ttl" for e0 arg n
    by (induction n) (simp_all add: again [OF that])
  have pow1: "((snd \<circ> acquireLockLua R e ?key ?arg) ^^ Suc n) r = r2"
    using pow [of e n ?arg] first assms(4) by (simp add: funpow_swap1)
  have x: "r' = r2 \<and> x = (case rd_delivery R e of Delivered _ \<Rightarrow> Inr (False, None) | Lost _ err \<Rightarrow> Inl (Errorf ''redis acquire lock error'' err))"
    using assms(2-4,8,9) pow1 again [of e ?arg] by (auto simp: rg_AcquireLock_def inFlightMarker_def)
  then show ?thesis
    using assms(2,3,10) again [OF assms(11)] pow [OF assms(11)] by (simp add: rg_AcquireLock_def inFlightMarker_def)
qed

theorem lost_reply_locks_witness:
  "\<exists>r'. rg_AcquireLock (\<lambda>s. None) (keyspace_client (\<lambda>e. Delivered (if e_now e = 10 then 1 else 0))) (genv 10) ''acme'' ''k1'' 5000000 [] =
      (Inr (False, None), r') \<and>
    fst (rg_AcquireLock (\<lambda>s. None) (keyspace_client (\<lambda>e. Delivered (if e_now e = 10 then 1 else 0))) (genv 4000000) ''acme'' ''k1'' 5000000 r') =
      Inr (False, None)"
proof -
  let ?R = "keyspace_client (\<lambda>e. Delivered (if e_now e = 10 then 1 else 0))"
  obtain x r' where r: "rg_AcquireLock (\<lambda>s. None) ?R (genv 10) ''acme'' ''k1'' 5000000 [] = (x, r')" by fastforce
  have d: "rd_delivery ?R (genv 10) = Delivered (Suc 0)" "rd_delivery ?R (genv 4000000) = Delivered 0"
    by (simp_all add: keyspace_client_def genv_def)
  have "x = Inr (False, None) \<and> fst (rg_AcquireLock (\<lambda>s. None) ?R (genv 4000000) ''acme'' ''k1'' 5000000 r') = Inr (False, None)"
    using lost_reply_locks [OF keyspace_documented _ _ _ _ _ _ _ r d(2), of 0 CtxCanceled 5000000] d(1)
    by (simp add: Millisecond_def int64_ok_def ks_holds_def genv_def)
  then show ?thesis using r by blast
qed

end
