(* ===== verification/Postgres.thy ===== *)
theory Postgres
  imports Repository Go_JsonCodec
begin

text \<open>
  The PostgreSQL repository of \<open>internal/storage/postgres.go\<close> over the schema of
  \<open>migrations/000001_init_schema.up.sql\<close>. The statements the methods send are functions on the
  tables: constraints, defaults and conditions as the schema and the statement texts have them. What
  the program cannot see of the driver and of the server is the parameter \<open>sql_driver\<close>. A method
  that opens a transaction works on a copy of the tables and either commits it or leaves the tables
  as they were; only the sequence of the outbox identifiers is never rolled back. Lemmas: the
  integrity constraints are invariant, the repository contract, and what creating and replaying do,
  also when the answer to a statement or to a \<open>COMMIT\<close> that took effect is lost.
\<close>

section \<open>The driver and the server\<close>

text \<open>
  \<open>sd_fail e n\<close> is the message of the error that the \<open>n\<close>th statement of a call gives instead of its
  result (a lost connection, a timeout); such an error is none of the program's sentinels. The
  statement may have reached the server all the same: with \<open>sd_applied e n\<close> it took effect, or was
  committed, before its answer was lost.
  \<open>sd_locked\<close> says which outbox rows other transactions hold locked, \<open>sd_jsonb\<close> is the text a
  \<open>JSONB\<close> value is read back with, \<open>None\<close> when it is refused, and \<open>sd_time\<close> what a \<open>TIMESTAMPTZ\<close>
  keeps of a time.
\<close>

record sql_driver =
  sd_fail :: "env \<Rightarrow> nat \<Rightarrow> string option"
  sd_applied :: "env \<Rightarrow> nat \<Rightarrow> bool"
  sd_locked :: "env \<Rightarrow> int \<Rightarrow> bool"
  sd_jsonb :: "string \<Rightarrow> string option"
  sd_time :: "gotime \<Rightarrow> gotime"

definition stmt_error :: "sql_driver \<Rightarrow> env \<Rightarrow> nat \<Rightarrow> goerr option" where
  "stmt_error D e n = (case e_ctx e of Some err \<Rightarrow> Some err | None \<Rightarrow> map_option ErrorsNew (sd_fail D e n))"

text \<open>An error the server reports, by its SQLSTATE.\<close>

definition sqlstate :: "string \<Rightarrow> goerr" where
  "sqlstate c = ErrorsNew (''SQLSTATE '' @ c)"

definition unique_violation :: goerr where "unique_violation = sqlstate ''23505''"
definition foreign_key_violation :: goerr where "foreign_key_violation = sqlstate ''23503''"
definition string_too_long :: goerr where "string_too_long = sqlstate ''22001''"
definition invalid_byte_sequence :: goerr where "invalid_byte_sequence = sqlstate ''22021''"
definition invalid_json :: goerr where "invalid_json = sqlstate ''22P02''"
definition numeric_out_of_range :: goerr where "numeric_out_of_range = sqlstate ''22003''"

lemmas sqlstate_defs = unique_violation_def foreign_key_violation_def string_too_long_def
  invalid_byte_sequence_def invalid_json_def numeric_out_of_range_def sqlstate_def

lemma errors_is_sqlstate [simp]: "errors_is (sqlstate c) ErrNotFound = False" "errors_is (sqlstate c) ErrDuplicateKey = False"
  by (simp_all add: sqlstate_def)

section \<open>Values of the columns\<close>

text \<open>The number of characters of a text; \<open>None\<close> for one that is not UTF-8 or holds a NUL.\<close>

function char_length :: "string \<Rightarrow> nat option" where
  "char_length s =
     (if s = [] then Some 0
      else if rune_width s = 0 \<or> hd s = CHR 0x00 then None
      else map_option Suc (char_length (drop (rune_width s) s)))"
  by pat_completeness auto
termination
  by (relation "measure length") auto

declare char_length.simps [simp del]

definition sql_text :: "string \<Rightarrow> goerr + string" where
  "sql_text s = (case char_length s of None \<Rightarrow> Inl invalid_byte_sequence | Some n \<Rightarrow> Inr s)"

text \<open>\<open>VARCHAR(n)\<close>: a text that is too long is cut when all that exceeds is spaces, else refused.\<close>

function cut_chars :: "nat \<Rightarrow> string \<Rightarrow> string \<times> string" where
  "cut_chars n s =
     (if n = 0 \<or> s = [] then ([], s)
      else (case cut_chars (n - 1) (drop (max 1 (rune_width s)) s) of
              (a, b) \<Rightarrow> (take (max 1 (rune_width s)) s @ a, b)))"
  by pat_completeness auto
termination
  by (relation "measure fst") auto

declare cut_chars.simps [simp del]

definition varchar :: "nat \<Rightarrow> string \<Rightarrow> goerr + string" where
  "varchar n s =
     (case char_length s of
        None \<Rightarrow> Inl invalid_byte_sequence
      | Some k \<Rightarrow>
          if k \<le> n then Inr s
          else if (\<forall>c \<in> set (snd (cut_chars n s)). c = CHR '' '') then Inr (fst (cut_chars n s))
          else Inl string_too_long)"

definition int4 :: "int \<Rightarrow> goerr + int" where
  "int4 x = (if - (2 ^ 31) \<le> x \<and> x < 2 ^ 31 then Inr x else Inl numeric_out_of_range)"

definition jsonb :: "sql_driver \<Rightarrow> string \<Rightarrow> goerr + string" where
  "jsonb D s = (case sd_jsonb D s of None \<Rightarrow> Inl invalid_json | Some t \<Rightarrow> Inr t)"

text \<open>A nullable column.\<close>

definition nullable :: "('a \<Rightarrow> goerr + 'b) \<Rightarrow> 'a option \<Rightarrow> goerr + 'b option" where
  "nullable f x = (case x of None \<Rightarrow> Inr None | Some a \<Rightarrow> map_sum id Some (f a))"

definition and_then :: "goerr + 'a \<Rightarrow> ('a \<Rightarrow> goerr + 'b) \<Rightarrow> goerr + 'b" where
  "and_then x f = (case x of Inl err \<Rightarrow> Inl err | Inr a \<Rightarrow> f a)"

lemma and_then_simps [simp]: "and_then (Inl err) f = Inl err" "and_then (Inr a) f = f a"
  by (simp_all add: and_then_def)

lemma and_then_Inr: "and_then x f = Inr y \<longleftrightarrow> (\<exists>a. x = Inr a \<and> f a = Inr y)"
  by (cases x) simp_all

section \<open>Tables\<close>

record event_row =
  er_id :: string
  er_tenant_id :: string
  er_event_type :: string
  er_idempotency_key :: "string option"
  er_payload :: string
  er_status :: EventStatus
  er_created_at :: gotime

record attempt_row =
  ar_id :: string
  ar_event_id :: string
  ar_endpoint_id :: string
  ar_attempt_number :: int
  ar_response_status :: "int option"
  ar_response_body :: "string option"
  ar_duration_ms :: int
  ar_status :: DeliveryStatus
  ar_error_message :: "string option"
  ar_executed_at :: gotime

text \<open>
  A table is the map from its primary key to its row; \<open>pd_outbox_seq\<close> is the last number of the
  sequence of \<open>outbox_events.id\<close>. Rows of \<open>tenants\<close>, \<open>endpoints\<close> and \<open>outbox_events\<close> have the columns of
  the entities. A status column holds the text of a status.
\<close>

record postgres_db =
  pd_tenants :: "(string, Tenant) gomap"
  pd_endpoints :: "(string, Endpoint) gomap"
  pd_events :: "(string, event_row) gomap"
  pd_outbox_events :: "(int, OutboxEvent) gomap"
  pd_outbox_seq :: int
  pd_delivery_attempts :: "(string, attempt_row) gomap"

definition seed_tenant :: "gotime \<Rightarrow> string \<Rightarrow> string \<Rightarrow> string \<times> Tenant" where
  "seed_tenant now i name = (i, \<lparr>tn_ID = i, tn_Name = name, tn_CreatedAt = now\<rparr>)"

text \<open>The tables after the first migration, which ran at the time \<open>now\<close>.\<close>

definition init_schema :: "gotime \<Rightarrow> postgres_db" where
  "init_schema now =
     \<lparr>pd_tenants =
        [seed_tenant now ''tenant_alpha'' ''Tenant Alpha'', seed_tenant now ''tenant_beta'' ''Tenant Beta'',
         seed_tenant now ''tenant_prod'' ''Tenant Production'', seed_tenant now ''tenant_demo'' ''Tenant Demo''],
      pd_endpoints = [], pd_events = [], pd_outbox_events = [], pd_outbox_seq = 0, pd_delivery_attempts = []\<rparr>"

section \<open>Statements\<close>

text \<open>
  A statement gives the server's error, or a result and the new tables. \<open>exec_stmt\<close> sends the \<open>n\<close>th
  statement of a call.
\<close>

type_synonym 'a stmt = "postgres_db \<Rightarrow> goerr + 'a \<times> postgres_db"

definition exec_stmt :: "sql_driver \<Rightarrow> env \<Rightarrow> nat \<Rightarrow> 'a stmt \<Rightarrow> postgres_db \<Rightarrow> (goerr + 'a) \<times> postgres_db" where
  "exec_stmt D e n f db =
     (case stmt_error D e n of
        Some err \<Rightarrow>
          (Inl err, if sd_applied D e n then (case f db of Inl _ \<Rightarrow> db | Inr (x, db') \<Rightarrow> db') else db)
      | None \<Rightarrow> (case f db of Inl err \<Rightarrow> (Inl err, db) | Inr (x, db') \<Rightarrow> (Inr x, db')))"

definition query_stmt :: "sql_driver \<Rightarrow> env \<Rightarrow> nat \<Rightarrow> (postgres_db \<Rightarrow> goerr + 'a) \<Rightarrow> postgres_db \<Rightarrow> goerr + 'a" where
  "query_stmt D e n f db = (case stmt_error D e n of Some err \<Rightarrow> Inl err | None \<Rightarrow> f db)"

definition tenant_row :: "sql_driver \<Rightarrow> Tenant \<Rightarrow> goerr + Tenant" where
  "tenant_row D t =
     and_then (varchar 64 (tn_ID t)) (\<lambda>i.
     and_then (varchar 255 (tn_Name t)) (\<lambda>name.
     Inr \<lparr>tn_ID = i, tn_Name = name, tn_CreatedAt = sd_time D (tn_CreatedAt t)\<rparr>))"

definition insert_tenant :: "sql_driver \<Rightarrow> Tenant \<Rightarrow> unit stmt" where
  "insert_tenant D t db =
     and_then (tenant_row D t) (\<lambda>row.
     if map_of (pd_tenants db) (tn_ID row) \<noteq> None then Inl unique_violation
     else Inr ((), db\<lparr>pd_tenants := AList.update (tn_ID row) row (pd_tenants db)\<rparr>))"

text \<open>The provisioning of a tenant: its identifier is also its name.\<close>

definition insert_tenant_or_nothing :: "sql_driver \<Rightarrow> string \<Rightarrow> gotime \<Rightarrow> unit stmt" where
  "insert_tenant_or_nothing D i createdAt db =
     and_then (tenant_row D \<lparr>tn_ID = i, tn_Name = i, tn_CreatedAt = createdAt\<rparr>) (\<lambda>row.
     if map_of (pd_tenants db) (tn_ID row) \<noteq> None then Inr ((), db)
     else Inr ((), db\<lparr>pd_tenants := AList.update (tn_ID row) row (pd_tenants db)\<rparr>))"

definition endpoint_row :: "sql_driver \<Rightarrow> Endpoint \<Rightarrow> goerr + Endpoint" where
  "endpoint_row D ep =
     and_then (varchar 64 (ep_ID ep)) (\<lambda>i.
     and_then (varchar 64 (ep_TenantID ep)) (\<lambda>t.
     and_then (sql_text (ep_URL ep)) (\<lambda>url.
     and_then (varchar 255 (ep_Secret ep)) (\<lambda>secret.
     and_then (int4 (ep_RateLimit ep)) (\<lambda>limit.
     Inr \<lparr>ep_ID = i, ep_TenantID = t, ep_URL = url, ep_Secret = secret, ep_RateLimit = limit,
          ep_IsActive = ep_IsActive ep, ep_CreatedAt = sd_time D (ep_CreatedAt ep),
          ep_UpdatedAt = sd_time D (ep_UpdatedAt ep)\<rparr>)))))"

definition insert_endpoint :: "sql_driver \<Rightarrow> Endpoint \<Rightarrow> unit stmt" where
  "insert_endpoint D ep db =
     and_then (endpoint_row D ep) (\<lambda>row.
     if map_of (pd_endpoints db) (ep_ID row) \<noteq> None then Inl unique_violation
     else if map_of (pd_tenants db) (ep_TenantID row) = None then Inl foreign_key_violation
     else Inr ((), db\<lparr>pd_endpoints := AList.update (ep_ID row) row (pd_endpoints db)\<rparr>))"

definition mk_event_row :: "sql_driver \<Rightarrow> Event \<Rightarrow> string option \<Rightarrow> goerr + event_row" where
  "mk_event_row D v key =
     and_then (varchar 64 (ev_ID v)) (\<lambda>i.
     and_then (varchar 64 (ev_TenantID v)) (\<lambda>t.
     and_then (varchar 100 (ev_EventType v)) (\<lambda>ty.
     and_then (nullable (varchar 128) key) (\<lambda>k.
     and_then (jsonb D (ev_Payload v)) (\<lambda>p.
     Inr \<lparr>er_id = i, er_tenant_id = t, er_event_type = ty, er_idempotency_key = k, er_payload = p,
          er_status = ev_Status v, er_created_at = sd_time D (ev_CreatedAt v)\<rparr>)))))"

text \<open>The constraint \<open>uq_tenant_idempotency\<close>: null keys are all different.\<close>

definition key_taken :: "postgres_db \<Rightarrow> event_row \<Rightarrow> bool" where
  "key_taken db row =
     (er_idempotency_key row \<noteq> None \<and>
      (\<exists>r \<in> snd ` set (pd_events db).
         er_tenant_id r = er_tenant_id row \<and> er_idempotency_key r = er_idempotency_key row))"

definition insert_event :: "sql_driver \<Rightarrow> Event \<Rightarrow> string option \<Rightarrow> unit stmt" where
  "insert_event D v key db =
     and_then (mk_event_row D v key) (\<lambda>row.
     if map_of (pd_events db) (er_id row) \<noteq> None \<or> key_taken db row then Inl unique_violation
     else if map_of (pd_tenants db) (er_tenant_id row) = None then Inl foreign_key_violation
     else Inr ((), db\<lparr>pd_events := AList.update (er_id row) row (pd_events db)\<rparr>))"

text \<open>The insertion into \<open>outbox_events\<close> with \<open>RETURNING id\<close>: the identifier is the next of the sequence.\<close>

definition insert_outbox :: "sql_driver \<Rightarrow> string \<Rightarrow> OutboxStatus \<Rightarrow> int \<Rightarrow> gotime \<Rightarrow> int stmt" where
  "insert_outbox D eventID status retryCount createdAt db =
     and_then (varchar 64 eventID) (\<lambda>i.
     and_then (int4 retryCount) (\<lambda>rc.
     let n = pd_outbox_seq db + 1 in
     if map_of (pd_outbox_events db) n \<noteq> None then Inl unique_violation
     else if map_of (pd_events db) i = None then Inl foreign_key_violation
     else Inr (n, db\<lparr>pd_outbox_seq := n,
            pd_outbox_events := AList.update n
              \<lparr>ob_ID = n, ob_EventID = i, ob_Status = status, ob_RetryCount = rc,
               ob_CreatedAt = sd_time D createdAt, ob_ProcessedAt = None\<rparr> (pd_outbox_events db)\<rparr>)))"

definition mk_attempt_row ::
    "sql_driver \<Rightarrow> DeliveryAttempt \<Rightarrow> int option \<Rightarrow> string option \<Rightarrow> string option \<Rightarrow> gotime \<Rightarrow> goerr + attempt_row" where
  "mk_attempt_row D a respStatus respBody errMsg executedAt =
     and_then (varchar 64 (at_ID a)) (\<lambda>i.
     and_then (varchar 64 (at_EventID a)) (\<lambda>ev.
     and_then (varchar 64 (at_EndpointID a)) (\<lambda>ep.
     and_then (int4 (at_AttemptNumber a)) (\<lambda>n.
     and_then (nullable int4 respStatus) (\<lambda>rs.
     and_then (nullable sql_text respBody) (\<lambda>body.
     and_then (int4 (at_DurationMs a)) (\<lambda>ms.
     and_then (nullable sql_text errMsg) (\<lambda>msg.
     Inr \<lparr>ar_id = i, ar_event_id = ev, ar_endpoint_id = ep, ar_attempt_number = n, ar_response_status = rs,
          ar_response_body = body, ar_duration_ms = ms, ar_status = at_Status a, ar_error_message = msg,
          ar_executed_at = sd_time D executedAt\<rparr>))))))))"

definition insert_attempt ::
    "sql_driver \<Rightarrow> DeliveryAttempt \<Rightarrow> int option \<Rightarrow> string option \<Rightarrow> string option \<Rightarrow> gotime \<Rightarrow> unit stmt" where
  "insert_attempt D a respStatus respBody errMsg executedAt db =
     and_then (mk_attempt_row D a respStatus respBody errMsg executedAt) (\<lambda>row.
     if map_of (pd_delivery_attempts db) (ar_id row) \<noteq> None then Inl unique_violation
     else if map_of (pd_events db) (ar_event_id row) = None \<or> map_of (pd_endpoints db) (ar_endpoint_id row) = None
     then Inl foreign_key_violation
     else Inr ((), db\<lparr>pd_delivery_attempts := AList.update (ar_id row) row (pd_delivery_attempts db)\<rparr>))"

text \<open>The updates by primary key give the number of rows they changed.\<close>

definition update_event_status :: "(event_row \<Rightarrow> bool) \<Rightarrow> EventStatus \<Rightarrow> string \<Rightarrow> nat stmt" where
  "update_event_status cond status i db =
     and_then (sql_text i) (\<lambda>i.
     case map_of (pd_events db) i of
       None \<Rightarrow> Inr (0, db)
     | Some row \<Rightarrow>
         if cond row
         then Inr (1, db\<lparr>pd_events := AList.update i (row\<lparr>er_status := status\<rparr>) (pd_events db)\<rparr>)
         else Inr (0, db))"

definition update_outbox_published :: "sql_driver \<Rightarrow> gotime \<Rightarrow> int \<Rightarrow> nat stmt" where
  "update_outbox_published D now n db =
     (case map_of (pd_outbox_events db) n of
        None \<Rightarrow> Inr (0, db)
      | Some ob \<Rightarrow>
          Inr (1, db\<lparr>pd_outbox_events := AList.update n
            (ob\<lparr>ob_Status := OutboxStatusPublished, ob_ProcessedAt := Some (sd_time D now)\<rparr>)
            (pd_outbox_events db)\<rparr>))"

section \<open>Methods\<close>

definition err_of :: "goerr + 'a \<Rightarrow> goerr option" where
  "err_of r = (case r of Inl err \<Rightarrow> Some err | Inr x \<Rightarrow> None)"

definition or_now :: "env \<Rightarrow> gotime \<Rightarrow> gotime" where
  "or_now e t = (if IsZero t then e_now e else t)"

definition pg_CreateTenant :: "sql_driver \<Rightarrow> env \<Rightarrow> Tenant \<Rightarrow> postgres_db \<Rightarrow> goerr option \<times> postgres_db" where
  "pg_CreateTenant D e tenant db =
     (case exec_stmt D e 0 (insert_tenant D (tenant\<lparr>tn_CreatedAt := or_now e (tn_CreatedAt tenant)\<rparr>)) db of
        (r, db') \<Rightarrow> (err_of r, db'))"

text \<open>\<open>QueryRow\<close> on a primary key: no row is \<open>sql.ErrNoRows\<close>, which becomes \<open>ErrNotFound\<close>.\<close>

definition select_by_key :: "('k \<Rightarrow> goerr + 'k) \<Rightarrow> (postgres_db \<Rightarrow> ('k, 'v) gomap) \<Rightarrow> 'k \<Rightarrow> postgres_db \<Rightarrow> goerr + 'v" where
  "select_by_key param tab i db =
     and_then (param i) (\<lambda>i. case map_of (tab db) i of None \<Rightarrow> Inl ErrNotFound | Some x \<Rightarrow> Inr x)"

definition pg_GetTenant :: "sql_driver \<Rightarrow> env \<Rightarrow> string \<Rightarrow> postgres_db \<Rightarrow> goerr + Tenant" where
  "pg_GetTenant D e i db = query_stmt D e 0 (select_by_key sql_text pd_tenants i) db"

definition pg_CreateEndpoint :: "sql_driver \<Rightarrow> env \<Rightarrow> Endpoint \<Rightarrow> postgres_db \<Rightarrow> goerr option \<times> postgres_db" where
  "pg_CreateEndpoint D e endpoint db =
     (let createdAt = or_now e (ep_CreatedAt endpoint); updatedAt = or_now e (ep_UpdatedAt endpoint) in
      case exec_stmt D e 0 (insert_tenant_or_nothing D (ep_TenantID endpoint) createdAt) db of
        (Inl err, db1) \<Rightarrow> (Some err, db1)
      | (Inr _, db1) \<Rightarrow>
          (case exec_stmt D e 1 (insert_endpoint D
                  (endpoint\<lparr>ep_CreatedAt := createdAt, ep_UpdatedAt := updatedAt\<rparr>)) db1 of
             (r, db2) \<Rightarrow> (err_of r, db2)))"

definition pg_GetEndpoint :: "sql_driver \<Rightarrow> env \<Rightarrow> string \<Rightarrow> postgres_db \<Rightarrow> goerr + Endpoint" where
  "pg_GetEndpoint D e i db = query_stmt D e 0 (select_by_key sql_text pd_endpoints i) db"

text \<open>Rows with equal \<open>created_at\<close> come in the order in which the server visits the table.\<close>

definition pg_GetEndpointsByTenant :: "sql_driver \<Rightarrow> env \<Rightarrow> string \<Rightarrow> postgres_db \<Rightarrow> goerr + Endpoint list" where
  "pg_GetEndpointsByTenant D e tenantID db =
     query_stmt D e 0 (\<lambda>db.
       and_then (sql_text tenantID) (\<lambda>t.
       Inr (sort_key ep_CreatedAt
              (filter (\<lambda>ep. ep_TenantID ep = t) (map snd (go_range (e_ord e) (pd_endpoints db))))))) db"

text \<open>The end of a transaction that is not committed.\<close>

definition rolled_back :: "postgres_db \<Rightarrow> postgres_db \<Rightarrow> postgres_db" where
  "rolled_back db tx = db\<lparr>pd_outbox_seq := pd_outbox_seq tx\<rparr>"

definition commit_or :: "sql_driver \<Rightarrow> env \<Rightarrow> nat \<Rightarrow> postgres_db \<Rightarrow> 'a \<Rightarrow> postgres_db \<Rightarrow> (goerr + 'a) \<times> postgres_db" where
  "commit_or D e n db result tx =
     (case stmt_error D e n of
        Some err \<Rightarrow> (Inl err, if sd_applied D e n then tx else rolled_back db tx)
      | None \<Rightarrow> (Inr result, tx))"

definition pg_CreateEventWithOutbox ::
    "sql_driver \<Rightarrow> env \<Rightarrow> Event \<Rightarrow> OutboxEvent \<Rightarrow> postgres_db \<Rightarrow> (goerr + Event \<times> OutboxEvent) \<times> postgres_db" where
  "pg_CreateEventWithOutbox D e event0 outbox0 db =
     (case stmt_error D e 0 of
        Some err \<Rightarrow> (Inl err, db)
      | None \<Rightarrow>
          let event = event0\<lparr>ev_CreatedAt := or_now e (ev_CreatedAt event0)\<rparr>;
              outbox = outbox0\<lparr>ob_CreatedAt := or_now e (ob_CreatedAt outbox0)\<rparr>;
              idempKey = (if ev_IdempotencyKey event \<noteq> '''' then Some (ev_IdempotencyKey event) else None)
          in (case exec_stmt D e 1 (insert_tenant_or_nothing D (ev_TenantID event) (ev_CreatedAt event)) db of
                (Inl err, tx) \<Rightarrow> (Inl err, rolled_back db tx)
              | (Inr _, tx1) \<Rightarrow>
             (case exec_stmt D e 2 (insert_event D event idempKey) tx1 of
                (Inl err, tx) \<Rightarrow> (Inl err, rolled_back db tx)
              | (Inr _, tx2) \<Rightarrow>
             (case exec_stmt D e 3 (insert_outbox D (ev_ID event) (ob_Status outbox) (ob_RetryCount outbox)
                     (ob_CreatedAt outbox)) tx2 of
                (Inl err, tx) \<Rightarrow> (Inl err, rolled_back db tx)
              | (Inr n, tx3) \<Rightarrow> commit_or D e 4 db (event, outbox\<lparr>ob_ID := n\<rparr>) tx3))))"

definition pg_FetchAndLockPendingOutbox :: "sql_driver \<Rightarrow> env \<Rightarrow> int \<Rightarrow> postgres_db \<Rightarrow> goerr + OutboxEvent list" where
  "pg_FetchAndLockPendingOutbox D e limit0 db =
     (let limit = (if limit0 \<le> 0 then 100 else limit0) in
      query_stmt D e 0 (\<lambda>db.
        Inr (take (nat limit) (sort_key ob_ID
              (filter (\<lambda>ob. ob_Status ob = OutboxStatusPending \<and> \<not> sd_locked D e (ob_ID ob))
                 (map snd (go_range (e_ord e) (pd_outbox_events db))))))) db)"

text \<open>No row changed is \<open>ErrNotFound\<close>; the driver of this program always knows the number of rows.\<close>

definition not_found_if_none :: "(goerr + nat) \<times> postgres_db \<Rightarrow> goerr option \<times> postgres_db" where
  "not_found_if_none r =
     (case r of
        (Inl err, db) \<Rightarrow> (Some err, db)
      | (Inr rowsAffected, db) \<Rightarrow> (if rowsAffected = 0 then Some ErrNotFound else None, db))"

definition pg_MarkOutboxPublished :: "sql_driver \<Rightarrow> env \<Rightarrow> int \<Rightarrow> postgres_db \<Rightarrow> goerr option \<times> postgres_db" where
  "pg_MarkOutboxPublished D e outboxID db =
     not_found_if_none (exec_stmt D e 0 (update_outbox_published D (e_now e) outboxID) db)"

definition pg_RecordDeliveryAttempt ::
    "sql_driver \<Rightarrow> env \<Rightarrow> DeliveryAttempt \<Rightarrow> postgres_db \<Rightarrow> goerr option \<times> postgres_db" where
  "pg_RecordDeliveryAttempt D e attempt db =
     (let executedAt = or_now e (at_ExecutedAt attempt);
          respStatus = (if at_ResponseStatus attempt \<noteq> 0 then Some (at_ResponseStatus attempt) else None);
          respBody = (if at_ResponseBody attempt \<noteq> '''' then Some (at_ResponseBody attempt) else None);
          errMsg = (if at_ErrorMessage attempt \<noteq> '''' then Some (at_ErrorMessage attempt) else None)
      in case exec_stmt D e 0 (insert_attempt D attempt respStatus respBody errMsg executedAt) db of
           (r, db') \<Rightarrow> (err_of r, db'))"

definition pg_UpdateEventStatus ::
    "sql_driver \<Rightarrow> env \<Rightarrow> string \<Rightarrow> EventStatus \<Rightarrow> postgres_db \<Rightarrow> goerr option \<times> postgres_db" where
  "pg_UpdateEventStatus D e eventID status db =
     not_found_if_none (exec_stmt D e 0 (update_event_status (\<lambda>_. True) status eventID) db)"

text \<open>The scan of an event: a null key is the empty string.\<close>

definition event_of_row :: "event_row \<Rightarrow> Event" where
  "event_of_row r =
     \<lparr>ev_ID = er_id r, ev_TenantID = er_tenant_id r, ev_EventType = er_event_type r,
      ev_IdempotencyKey = (case er_idempotency_key r of None \<Rightarrow> '''' | Some k \<Rightarrow> k),
      ev_Payload = er_payload r, ev_Status = er_status r, ev_CreatedAt = er_created_at r\<rparr>"

definition pg_GetEvent :: "sql_driver \<Rightarrow> env \<Rightarrow> string \<Rightarrow> postgres_db \<Rightarrow> goerr + Event" where
  "pg_GetEvent D e i db = map_sum id event_of_row (query_stmt D e 0 (select_by_key sql_text pd_events i) db)"

definition pg_GetDLQEvents :: "sql_driver \<Rightarrow> env \<Rightarrow> string \<Rightarrow> int \<Rightarrow> int \<Rightarrow> postgres_db \<Rightarrow> goerr + Event list" where
  "pg_GetDLQEvents D e tenantID limit0 offset0 db =
     (let limit1 = (if limit0 \<le> 0 then 50 else limit0);
          limit = (if limit1 > 100 then 100 else limit1);
          offset = (if offset0 < 0 then 0 else offset0)
      in query_stmt D e 0 (\<lambda>db.
           and_then (sql_text tenantID) (\<lambda>t.
           Inr (map event_of_row (take (nat limit) (drop (nat offset)
             (sort_key (\<lambda>r. - er_created_at r)
               (filter (\<lambda>r. er_tenant_id r = t \<and> er_status r = EventStatusDLQ)
                 (map snd (go_range (e_ord e) (pd_events db)))))))))) db)"

text \<open>The loop of \<open>ReplayDLQEvents\<close>; the result of a failed statement is the error and the transaction.\<close>

fun pg_replay_loop ::
    "sql_driver \<Rightarrow> env \<Rightarrow> nat \<Rightarrow> string \<Rightarrow> string list \<Rightarrow> int \<Rightarrow> postgres_db \<Rightarrow> (goerr + int) \<times> postgres_db" where
  "pg_replay_loop D e n tenantID [] replayedCount tx = (Inr replayedCount, tx)"
| "pg_replay_loop D e n tenantID (i # ids) replayedCount tx =
     (case exec_stmt D e n (\<lambda>db. and_then (sql_text tenantID) (\<lambda>t.
             update_event_status (\<lambda>r. er_tenant_id r = t \<and> er_status r = EventStatusDLQ) EventStatusPending i db)) tx of
        (Inl err, tx1) \<Rightarrow> (Inl err, tx1)
      | (Inr rowsAffected, tx1) \<Rightarrow>
          if rowsAffected > 0 then
            (case exec_stmt D e (n + 1) (insert_outbox D i OutboxStatusPending 0 (e_now e)) tx1 of
               (Inl err, tx2) \<Rightarrow> (Inl err, tx2)
             | (Inr _, tx2) \<Rightarrow> pg_replay_loop D e (n + 2) tenantID ids (replayedCount + 1) tx2)
          else pg_replay_loop D e (n + 2) tenantID ids replayedCount tx1)"

definition pg_ReplayDLQEvents ::
    "sql_driver \<Rightarrow> env \<Rightarrow> string \<Rightarrow> string list \<Rightarrow> postgres_db \<Rightarrow> (goerr + int) \<times> postgres_db" where
  "pg_ReplayDLQEvents D e tenantID eventIDs db =
     (if length eventIDs = 0 then (Inr 0, db)
      else
        (case stmt_error D e 0 of
           Some err \<Rightarrow> (Inl err, db)
         | None \<Rightarrow>
             (case pg_replay_loop D e 1 tenantID eventIDs 0 db of
                (Inl err, tx) \<Rightarrow> (Inl err, rolled_back db tx)
              | (Inr replayedCount, tx) \<Rightarrow> commit_or D e (1 + 2 * length eventIDs) db replayedCount tx)))"

definition postgres_repository :: "sql_driver \<Rightarrow> postgres_db repository" where
  "postgres_repository D =
     \<lparr>rp_CreateTenant = pg_CreateTenant D, rp_GetTenant = pg_GetTenant D,
      rp_CreateEndpoint = pg_CreateEndpoint D, rp_GetEndpoint = pg_GetEndpoint D,
      rp_GetEndpointsByTenant = pg_GetEndpointsByTenant D,
      rp_CreateEventWithOutbox = pg_CreateEventWithOutbox D,
      rp_FetchAndLockPendingOutbox = pg_FetchAndLockPendingOutbox D,
      rp_MarkOutboxPublished = pg_MarkOutboxPublished D,
      rp_RecordDeliveryAttempt = pg_RecordDeliveryAttempt D,
      rp_UpdateEventStatus = pg_UpdateEventStatus D, rp_GetEvent = pg_GetEvent D,
      rp_GetDLQEvents = pg_GetDLQEvents D, rp_ReplayDLQEvents = pg_ReplayDLQEvents D\<rparr>"

section \<open>The invariant\<close>

text \<open>Primary keys, foreign keys, the uniqueness of idempotency keys, and the sequence.\<close>

definition rows_ok :: "(string \<Rightarrow> Tenant option) \<Rightarrow> (string \<Rightarrow> event_row option) \<Rightarrow> bool" where
  "rows_ok tenants rows \<longleftrightarrow>
     (\<forall>i r. rows i = Some r \<longrightarrow> er_id r = i \<and> tenants (er_tenant_id r) \<noteq> None) \<and>
     (\<forall>i j r s. rows i = Some r \<longrightarrow> rows j = Some s \<longrightarrow> er_idempotency_key r \<noteq> None \<longrightarrow>
        er_idempotency_key s = er_idempotency_key r \<longrightarrow> er_tenant_id s = er_tenant_id r \<longrightarrow> i = j)"

definition outbox_ok :: "int \<Rightarrow> (int \<Rightarrow> OutboxEvent option) \<Rightarrow> (string \<Rightarrow> event_row option) \<Rightarrow> bool" where
  "outbox_ok sq outbox rows \<longleftrightarrow> 0 \<le> sq \<and>
     (\<forall>n ob. outbox n = Some ob \<longrightarrow> ob_ID ob = n \<and> 1 \<le> n \<and> n \<le> sq \<and> rows (ob_EventID ob) \<noteq> None)"

definition pg_inv :: "postgres_db \<Rightarrow> bool" where
  "pg_inv db \<longleftrightarrow>
     gomap_ok (pd_tenants db) \<and> gomap_ok (pd_endpoints db) \<and> gomap_ok (pd_events db) \<and>
     gomap_ok (pd_outbox_events db) \<and> gomap_ok (pd_delivery_attempts db) \<and>
     (\<forall>i ep. map_of (pd_endpoints db) i = Some ep \<longrightarrow>
        ep_ID ep = i \<and> map_of (pd_tenants db) (ep_TenantID ep) \<noteq> None) \<and>
     rows_ok (map_of (pd_tenants db)) (map_of (pd_events db)) \<and>
     outbox_ok (pd_outbox_seq db) (map_of (pd_outbox_events db)) (map_of (pd_events db)) \<and>
     (\<forall>i a. map_of (pd_delivery_attempts db) i = Some a \<longrightarrow>
        ar_id a = i \<and> map_of (pd_events db) (ar_event_id a) \<noteq> None \<and>
        map_of (pd_endpoints db) (ar_endpoint_id a) \<noteq> None)"

abbreviation pg_rows :: "postgres_db \<Rightarrow> string \<Rightarrow> event_row option" where
  "pg_rows db \<equiv> map_of (pd_events db)"

definition pg_evs :: "postgres_db \<Rightarrow> string \<Rightarrow> Event option" where
  "pg_evs db i = map_option event_of_row (pg_rows db i)"

abbreviation pg_obs :: "postgres_db \<Rightarrow> int \<Rightarrow> OutboxEvent option" where
  "pg_obs db \<equiv> map_of (pd_outbox_events db)"

lemma pg_inv_init: "pg_inv (init_schema now)"
  by (simp add: pg_inv_def rows_ok_def outbox_ok_def init_schema_def gomap_ok_def seed_tenant_def)

lemma rows_ok_tenant: "rows_ok tenants rows \<Longrightarrow> rows_ok (tenants(i \<mapsto> t)) rows"
  unfolding rows_ok_def by (simp only: fun_upd_apply split: if_split) blast

lemma pg_inv_tenant:
  "pg_inv db \<Longrightarrow> pg_inv (db\<lparr>pd_tenants := AList.update i t (pd_tenants db)\<rparr>)"
  by (simp add: pg_inv_def rows_ok_tenant)

lemma pg_inv_endpoint:
  "\<lbrakk>pg_inv db; ep_ID ep = i; map_of (pd_tenants db) (ep_TenantID ep) \<noteq> None\<rbrakk>
   \<Longrightarrow> pg_inv (db\<lparr>pd_endpoints := AList.update i ep (pd_endpoints db)\<rparr>)"
  by (simp add: pg_inv_def)

lemma pg_inv_attempt:
  "\<lbrakk>pg_inv db; ar_id a = i; map_of (pd_events db) (ar_event_id a) \<noteq> None;
    map_of (pd_endpoints db) (ar_endpoint_id a) \<noteq> None\<rbrakk>
   \<Longrightarrow> pg_inv (db\<lparr>pd_delivery_attempts := AList.update i a (pd_delivery_attempts db)\<rparr>)"
  by (simp add: pg_inv_def)

lemma outbox_ok_new:
  "\<lbrakk>outbox_ok sq outbox rows; ob_ID ob = sq + 1; rows (ob_EventID ob) \<noteq> None\<rbrakk>
   \<Longrightarrow> outbox_ok (sq + 1) (outbox(sq + 1 \<mapsto> ob)) rows"
  unfolding outbox_ok_def by (simp only: fun_upd_apply split: if_split) force

lemma outbox_ok_row:
  "\<lbrakk>outbox_ok sq outbox rows; outbox n = Some ob; ob_ID ob' = ob_ID ob; ob_EventID ob' = ob_EventID ob\<rbrakk>
   \<Longrightarrow> outbox_ok sq (outbox(n \<mapsto> ob')) rows"
  unfolding outbox_ok_def by (simp only: fun_upd_apply split: if_split) force

lemma outbox_ok_event: "outbox_ok sq outbox rows \<Longrightarrow> outbox_ok sq outbox (rows(i \<mapsto> r))"
  unfolding outbox_ok_def by (simp only: fun_upd_apply split: if_split) blast

lemma outbox_ok_seq: "outbox_ok sq outbox rows \<Longrightarrow> sq \<le> n \<Longrightarrow> outbox_ok n outbox rows"
  unfolding outbox_ok_def by force

lemma pg_inv_outbox_new:
  assumes "pg_inv db" "ob_ID ob = pd_outbox_seq db + 1" "pg_rows db (ob_EventID ob) \<noteq> None"
  shows "pg_inv (db\<lparr>pd_outbox_seq := pd_outbox_seq db + 1,
           pd_outbox_events := AList.update (pd_outbox_seq db + 1) ob (pd_outbox_events db)\<rparr>)"
  using assms by (simp add: pg_inv_def outbox_ok_new)

lemma pg_inv_outbox_row:
  assumes "pg_inv db" "pg_obs db n = Some ob" "ob_ID ob' = ob_ID ob" "ob_EventID ob' = ob_EventID ob"
  shows "pg_inv (db\<lparr>pd_outbox_events := AList.update n ob' (pd_outbox_events db)\<rparr>)"
proof -
  have "outbox_ok (pd_outbox_seq db) (pg_obs db) (pg_rows db)" using assms(1) by (simp add: pg_inv_def)
  then have "outbox_ok (pd_outbox_seq db) ((pg_obs db)(n \<mapsto> ob')) (pg_rows db)"
    by (rule outbox_ok_row) (use assms(2-4) in simp_all)
  then show ?thesis using assms(1) by (simp add: pg_inv_def)
qed

lemma pg_inv_seq: "pg_inv db \<Longrightarrow> pd_outbox_seq db \<le> n \<Longrightarrow> pg_inv (db\<lparr>pd_outbox_seq := n\<rparr>)"
  by (auto simp: pg_inv_def elim: outbox_ok_seq)

lemma pg_inv_gomap:
  "pg_inv db \<Longrightarrow> gomap_ok (pd_events db)" "pg_inv db \<Longrightarrow> gomap_ok (pd_outbox_events db)"
  "pg_inv db \<Longrightarrow> gomap_ok (pd_endpoints db)"
  by (simp_all add: pg_inv_def)

lemma pg_inv_event_id: "pg_inv db \<Longrightarrow> pg_rows db i = Some r \<Longrightarrow> er_id r = i"
  unfolding pg_inv_def rows_ok_def by blast

lemma pg_inv_event_tenant:
  "pg_inv db \<Longrightarrow> pg_rows db i = Some r \<Longrightarrow> map_of (pd_tenants db) (er_tenant_id r) \<noteq> None"
  unfolding pg_inv_def rows_ok_def by blast

lemma pg_inv_outbox_id: "pg_inv db \<Longrightarrow> pg_obs db n = Some ob \<Longrightarrow> ob_ID ob = n \<and> 1 \<le> n \<and> n \<le> pd_outbox_seq db"
  unfolding pg_inv_def outbox_ok_def by blast

lemma key_taken_iff:
  assumes "pg_inv db"
  shows "key_taken db row \<longleftrightarrow> er_idempotency_key row \<noteq> None \<and>
    (\<exists>i r. pg_rows db i = Some r \<and> er_tenant_id r = er_tenant_id row \<and> er_idempotency_key r = er_idempotency_key row)"
  using gomap_values [OF pg_inv_gomap(1) [OF assms]] unfolding key_taken_def by metis

lemma pg_inv_unique:
  "\<lbrakk>pg_inv db; pg_rows db i = Some r; pg_rows db j = Some s; er_idempotency_key r \<noteq> None;
    er_idempotency_key s = er_idempotency_key r; er_tenant_id s = er_tenant_id r\<rbrakk> \<Longrightarrow> i = j"
  unfolding pg_inv_def rows_ok_def by blast

lemma pg_inv_events:
  assumes "pg_inv db" "er_id r = i" "map_of (pd_tenants db) (er_tenant_id r) \<noteq> None"
    and "\<And>j s. \<lbrakk>j \<noteq> i; pg_rows db j = Some s; er_idempotency_key r \<noteq> None;
           er_idempotency_key s = er_idempotency_key r\<rbrakk> \<Longrightarrow> er_tenant_id s \<noteq> er_tenant_id r"
  shows "pg_inv (db\<lparr>pd_events := AList.update i r (pd_events db)\<rparr>)"
proof -
  have "er_id x = j \<and> map_of (pd_tenants db) (er_tenant_id x) \<noteq> None"
    if "((pg_rows db)(i \<mapsto> r)) j = Some x" for j x
    using that assms(2,3) pg_inv_event_id [OF assms(1), of j x] pg_inv_event_tenant [OF assms(1), of j x]
    by (cases "j = i") simp_all
  moreover have "k = j" if that: "((pg_rows db)(i \<mapsto> r)) k = Some x" "((pg_rows db)(i \<mapsto> r)) j = Some s"
    "er_idempotency_key x \<noteq> None" "er_idempotency_key s = er_idempotency_key x" "er_tenant_id s = er_tenant_id x" for k j x s
  proof (rule ccontr)
    assume neq: "k \<noteq> j"
    consider "k = i" | "j = i" | "k \<noteq> i" "j \<noteq> i" by blast
    then show False
    proof cases
      case 1
      then have "x = r" "j \<noteq> i" "pg_rows db j = Some s" using neq that(1,2) by simp_all
      then show False using assms(4) that(3-5) by metis
    next
      case 2
      then have "s = r" "k \<noteq> i" "pg_rows db k = Some x" using neq that(1,2) by simp_all
      then show False using assms(4) that(3-5) by metis
    next
      case 3
      then have "pg_rows db k = Some x" "pg_rows db j = Some s" using that(1,2) by simp_all
      then show False using pg_inv_unique [OF assms(1) _ _ that(3-5)] neq by blast
    qed
  qed
  ultimately have "rows_ok (map_of (pd_tenants db)) ((pg_rows db)(i \<mapsto> r))"
    unfolding rows_ok_def by blast
  then show ?thesis using assms(1) by (simp add: pg_inv_def outbox_ok_event)
qed

lemma pg_inv_event_new:
  assumes "pg_inv db" "er_id r = i" "\<not> key_taken db r" "map_of (pd_tenants db) (er_tenant_id r) \<noteq> None"
  shows "pg_inv (db\<lparr>pd_events := AList.update i r (pd_events db)\<rparr>)"
  using pg_inv_events [OF assms(1,2,4)] key_taken_iff [OF assms(1), of r] assms(3) by metis

lemma pg_inv_event_status:
  assumes "pg_inv db" "pg_rows db i = Some r"
  shows "pg_inv (db\<lparr>pd_events := AList.update i (r\<lparr>er_status := st\<rparr>) (pd_events db)\<rparr>)"
proof (rule pg_inv_events [OF assms(1)])
  show "map_of (pd_tenants db) (er_tenant_id (r\<lparr>er_status := st\<rparr>)) \<noteq> None"
    using pg_inv_event_tenant [OF assms] by simp
  show "er_id (r\<lparr>er_status := st\<rparr>) = i" using pg_inv_event_id [OF assms] by simp
  show "er_tenant_id s \<noteq> er_tenant_id (r\<lparr>er_status := st\<rparr>)"
    if "j \<noteq> i" "pg_rows db j = Some s" "er_idempotency_key (r\<lparr>er_status := st\<rparr>) \<noteq> None"
      "er_idempotency_key s = er_idempotency_key (r\<lparr>er_status := st\<rparr>)" for j s
    using pg_inv_unique [OF assms that(2)] that by auto
qed

section \<open>What a statement does\<close>

text \<open>
  The statements preserve the invariant; a transaction keeps every event and outbox row it does not
  mean to change, and only moves the sequence forward.
\<close>

lemma exec_stmt_cases:
  assumes "exec_stmt D e n f db = (r, db')"
  obtains err where "r = Inl err" "db' = db" "stmt_error D e n = Some err \<or> stmt_error D e n = None \<and> f db = Inl err"
  | err x where "r = Inl err" "f db = Inr (x, db')" "stmt_error D e n = Some err" "sd_applied D e n"
  | x where "r = Inr x" "f db = Inr (x, db')" "stmt_error D e n = None"
  using assms by (auto simp: exec_stmt_def split: option.splits sum.splits if_splits)

text \<open>A statement leaves the tables alone or does what it means to, whatever it answers.\<close>

lemma exec_stmt_keeps:
  assumes "exec_stmt D e n f db = (r, db')" "P db" "\<And>x t. f db = Inr (x, t) \<Longrightarrow> P t"
  shows "P db'"
  using assms(1) by (cases rule: exec_stmt_cases) (use assms(2,3) in auto)

lemma exec_stmt_Inr:
  "exec_stmt D e n f db = (Inr x, db') \<longleftrightarrow> stmt_error D e n = None \<and> f db = Inr (x, db')"
  by (auto simp: exec_stmt_def split: option.splits sum.splits)

lemma exec_stmt_Inl: "exec_stmt D e n f db = (Inl err, db') \<Longrightarrow> db' = db \<or> (\<exists>x. f db = Inr (x, db'))"
  by (auto simp: exec_stmt_def split: option.splits sum.splits if_splits)

lemma tenant_stmts:
  "insert_tenant D t db = Inr (x, db') \<Longrightarrow> pg_inv db \<Longrightarrow>
     pg_inv db' \<and> (\<exists>tab. db' = db\<lparr>pd_tenants := tab\<rparr>)"
  "insert_tenant_or_nothing D i c db = Inr (x, db') \<Longrightarrow> pg_inv db \<Longrightarrow>
     pg_inv db' \<and> (\<exists>tab. db' = db\<lparr>pd_tenants := tab\<rparr>)"
  by (auto simp: insert_tenant_def insert_tenant_or_nothing_def and_then_Inr pg_inv_tenant split: if_splits
      intro: exI [of _ "pd_tenants db"])

lemma endpoint_stmt:
  assumes "insert_endpoint D ep db = Inr (x, db')" "pg_inv db"
  shows "pg_inv db' \<and> (\<exists>tab. db' = db\<lparr>pd_endpoints := tab\<rparr>)"
  using assms by (auto simp: insert_endpoint_def and_then_Inr pg_inv_endpoint split: if_splits)

lemma attempt_stmt:
  assumes "insert_attempt D a rs body msg t db = Inr (x, db')" "pg_inv db"
  shows "pg_inv db' \<and> (\<exists>tab. db' = db\<lparr>pd_delivery_attempts := tab\<rparr>)"
  using assms by (auto simp: insert_attempt_def and_then_Inr pg_inv_attempt split: if_splits)

lemma event_stmt:
  assumes "insert_event D v key db = Inr (x, db')" "pg_inv db"
  shows "pg_inv db' \<and> (\<exists>row. mk_event_row D v key = Inr row \<and> pg_rows db (er_id row) = None \<and>
    \<not> key_taken db row \<and> db' = db\<lparr>pd_events := AList.update (er_id row) row (pd_events db)\<rparr>)"
  using assms by (auto simp: insert_event_def and_then_Inr pg_inv_event_new split: if_splits)

lemma outbox_stmt:
  assumes "insert_outbox D i st rc t db = Inr (n, db')" "pg_inv db"
  shows "pg_inv db' \<and> n = pd_outbox_seq db + 1 \<and> pg_obs db n = None \<and>
    (\<exists>j c. varchar 64 i = Inr j \<and> int4 rc = Inr c \<and> pg_rows db j \<noteq> None \<and>
       db' = db\<lparr>pd_outbox_seq := n, pd_outbox_events := AList.update n
         \<lparr>ob_ID = n, ob_EventID = j, ob_Status = st, ob_RetryCount = c, ob_CreatedAt = sd_time D t,
          ob_ProcessedAt = None\<rparr> (pd_outbox_events db)\<rparr>)"
  using assms pg_inv_outbox_new [OF assms(2)]
  by (auto simp: insert_outbox_def and_then_Inr Let_def split: if_splits)

lemma sql_text_Inr [simp]: "sql_text s = Inr t \<longleftrightarrow> char_length s \<noteq> None \<and> t = s"
  by (auto simp: sql_text_def split: option.splits)

lemma status_stmt:
  assumes "update_event_status cond st i db = Inr (n, db')" "pg_inv db"
  shows "pg_inv db' \<and> (n = 0 \<and> db' = db \<and> (\<forall>row. pg_rows db i = Some row \<longrightarrow> \<not> cond row) \<or>
    n = 1 \<and> (\<exists>row. pg_rows db i = Some row \<and> cond row \<and>
       db' = db\<lparr>pd_events := AList.update i (row\<lparr>er_status := st\<rparr>) (pd_events db)\<rparr>))"
  using assms by (auto simp: update_event_status_def and_then_Inr pg_inv_event_status split: option.splits if_splits)

lemma published_stmt:
  assumes "update_outbox_published D now n db = Inr (k, db')" "pg_inv db"
  shows "pg_inv db' \<and> (k = 0 \<and> db' = db \<and> pg_obs db n = None \<or>
    k = 1 \<and> (\<exists>ob. pg_obs db n = Some ob \<and> db' = db\<lparr>pd_outbox_events := AList.update n
      (ob\<lparr>ob_Status := OutboxStatusPublished, ob_ProcessedAt := Some (sd_time D now)\<rparr>) (pd_outbox_events db)\<rparr>))"
  using assms pg_inv_outbox_row [OF assms(2)]
  by (auto simp: update_outbox_published_def split: option.splits)

lemma rolled_back_facts:
  assumes "pg_inv db" "pd_outbox_seq db \<le> pd_outbox_seq tx"
  shows "pg_inv (rolled_back db tx) \<and> pg_rows (rolled_back db tx) = pg_rows db \<and>
    pg_evs (rolled_back db tx) = pg_evs db \<and> pg_obs (rolled_back db tx) = pg_obs db"
  using pg_inv_seq [OF assms] by (simp add: rolled_back_def pg_evs_def fun_eq_iff)

lemma commit_cases:
  assumes "commit_or D e n db x tx = (r, db')"
  obtains err where "r = Inl err" "db' = rolled_back db tx"
  | err where "r = Inl err" "db' = tx" "stmt_error D e n = Some err" "sd_applied D e n"
  | "r = Inr x" "db' = tx"
  using assms by (auto simp: commit_or_def split: option.splits if_splits)

section \<open>Creating an event\<close>

text \<open>
  A creation that succeeds stores the row of the event and an outbox row under the next number of the
  sequence, naming the event; one that fails changes at most the sequence, unless the answer to a
  \<open>COMMIT\<close> that took effect was lost: then both rows are stored.
\<close>

definition pg_created :: "sql_driver \<Rightarrow> env \<Rightarrow> Event \<Rightarrow> OutboxEvent \<Rightarrow> postgres_db \<Rightarrow> postgres_db \<Rightarrow> bool" where
  "pg_created D e v ob db db' \<longleftrightarrow>
     (\<exists>row c j. mk_event_row D (v\<lparr>ev_CreatedAt := or_now e (ev_CreatedAt v)\<rparr>)
          (if ev_IdempotencyKey v = '''' then None else Some (ev_IdempotencyKey v)) = Inr row \<and>
        pg_rows db (er_id row) = None \<and> \<not> key_taken db row \<and> varchar 64 (ev_ID v) = Inr j \<and>
        pg_rows db' = (pg_rows db)(er_id row \<mapsto> row) \<and> pg_obs db (pd_outbox_seq db + 1) = None \<and>
        pg_obs db' = (pg_obs db)(pd_outbox_seq db + 1 \<mapsto>
          \<lparr>ob_ID = pd_outbox_seq db + 1, ob_EventID = j, ob_Status = ob_Status ob, ob_RetryCount = c,
           ob_CreatedAt = sd_time D (or_now e (ob_CreatedAt ob)), ob_ProcessedAt = None\<rparr>))"

lemma pg_create_spec:
  assumes "pg_inv db" "pg_CreateEventWithOutbox D e v ob db = (r, db')"
  shows "pg_inv db' \<and>
    (case r of
       Inl err \<Rightarrow> (\<exists>n \<ge> pd_outbox_seq db. db' = db\<lparr>pd_outbox_seq := n\<rparr>) \<or>
         stmt_error D e 0 = None \<and> stmt_error D e 4 = Some err \<and> sd_applied D e 4 \<and> pg_created D e v ob db db'
     | Inr (v', ob') \<Rightarrow>
         v' = v\<lparr>ev_CreatedAt := or_now e (ev_CreatedAt v)\<rparr> \<and>
         ob' = ob\<lparr>ob_CreatedAt := or_now e (ob_CreatedAt ob), ob_ID := pd_outbox_seq db + 1\<rparr> \<and>
         pg_created D e v ob db db')"
proof -
  define w where "w = v\<lparr>ev_CreatedAt := or_now e (ev_CreatedAt v)\<rparr>"
  define key where "key = (if ev_IdempotencyKey v = '''' then None else Some (ev_IdempotencyKey v))"
  have same: ?thesis if "r = Inl err" "db' = rolled_back db tx" "pd_outbox_seq db \<le> pd_outbox_seq tx" for err tx
    using that pg_inv_seq [OF assms(1)] by (auto simp: rolled_back_def)
  have stay: "db = rolled_back db db" by (simp add: rolled_back_def)
  show ?thesis
  proof (cases "stmt_error D e 0")
    case (Some err)
    then show ?thesis using assms(2) stay by (intro same [of err db]) (simp_all add: pg_CreateEventWithOutbox_def)
  next
    case None
    obtain r1 tx1 where s1: "exec_stmt D e 1 (insert_tenant_or_nothing D (ev_TenantID v) (ev_CreatedAt w)) db = (r1, tx1)"
      by fastforce
    obtain r2 tx2 where s2: "exec_stmt D e 2 (insert_event D w key) tx1 = (r2, tx2)" by fastforce
    obtain r3 tx3 where s3: "exec_stmt D e 3 (insert_outbox D (ev_ID v) (ob_Status ob) (ob_RetryCount ob)
        (or_now e (ob_CreatedAt ob))) tx2 = (r3, tx3)" by fastforce
    have res: "(r, db') = (case r1 of Inl err \<Rightarrow> (Inl err, rolled_back db tx1) | Inr _ \<Rightarrow>
       (case r2 of Inl err \<Rightarrow> (Inl err, rolled_back db tx2) | Inr _ \<Rightarrow>
       (case r3 of Inl err \<Rightarrow> (Inl err, rolled_back db tx3) | Inr n \<Rightarrow>
          commit_or D e 4 db (w, ob\<lparr>ob_CreatedAt := or_now e (ob_CreatedAt ob), ob_ID := n\<rparr>) tx3)))"
      using assms(2) None s1 s2 s3
      by (simp add: pg_CreateEventWithOutbox_def Let_def w_def key_def split: sum.splits if_splits)
    show ?thesis
    proof (cases r1)
      case (Inl err)
      have "pd_outbox_seq db \<le> pd_outbox_seq tx1"
        using s1 by (rule exec_stmt_keeps) (use tenant_stmts(2) assms(1) in force)+
      then show ?thesis using res Inl by (intro same [of err tx1]) simp_all
    next
      case r1: (Inr x1)
      have t1: "pg_inv tx1" "pd_events tx1 = pd_events db" "pd_outbox_events tx1 = pd_outbox_events db"
        "pd_outbox_seq tx1 = pd_outbox_seq db"
        using tenant_stmts(2) [OF conjunct2 [OF s1 [unfolded r1 exec_stmt_Inr]] assms(1)] by auto
      show ?thesis
      proof (cases r2)
        case (Inl err)
        have "pd_outbox_seq tx1 \<le> pd_outbox_seq tx2"
          using s2 by (rule exec_stmt_keeps) (use event_stmt t1(1) in force)+
        then show ?thesis using res r1 Inl t1 by (intro same [of err tx2]) simp_all
      next
        case r2: (Inr x2)
        obtain row where t2: "pg_inv tx2" "mk_event_row D w key = Inr row" "pg_rows tx1 (er_id row) = None"
          "\<not> key_taken tx1 row" "tx2 = tx1\<lparr>pd_events := AList.update (er_id row) row (pd_events tx1)\<rparr>"
          using event_stmt [OF conjunct2 [OF s2 [unfolded r2 exec_stmt_Inr]] t1(1)] by blast
        have kt: "\<not> key_taken db row" using t2(4) t1(2) by (simp add: key_taken_def)
        show ?thesis
        proof (cases r3)
          case (Inl err)
          have "pd_outbox_seq tx2 \<le> pd_outbox_seq tx3"
            using s3 by (rule exec_stmt_keeps) (use outbox_stmt t2(1) in force)+
          then show ?thesis using res r1 r2 Inl t1 t2 by (intro same [of err tx3]) simp_all
        next
          case r3: (Inr n)
          obtain j c where t3: "pg_inv tx3" "n = pd_outbox_seq tx2 + 1" "pg_obs tx2 n = None" "varchar 64 (ev_ID v) = Inr j"
            "tx3 = tx2\<lparr>pd_outbox_seq := n, pd_outbox_events := AList.update n
               \<lparr>ob_ID = n, ob_EventID = j, ob_Status = ob_Status ob, ob_RetryCount = c,
                ob_CreatedAt = sd_time D (or_now e (ob_CreatedAt ob)), ob_ProcessedAt = None\<rparr> (pd_outbox_events tx2)\<rparr>"
            using outbox_stmt [OF conjunct2 [OF s3 [unfolded r3 exec_stmt_Inr]] t2(1)] by blast
          from res r1 r2 r3 have "commit_or D e 4 db (w, ob\<lparr>ob_CreatedAt := or_now e (ob_CreatedAt ob), ob_ID := n\<rparr>) tx3 = (r, db')"
            by simp
          moreover have "pg_created D e v ob db tx3"
            unfolding pg_created_def by (rule exI [of _ row], rule exI [of _ c], rule exI [of _ j])
              (use t1 t2 t3 kt in \<open>simp add: w_def key_def\<close>)
          ultimately show ?thesis
          proof (cases rule: commit_cases)
            case (1 err)
            then show ?thesis using t1 t2 t3 by (intro same [of err tx3]) auto
          next
            case (2 err)
            then show ?thesis using t1 t2 t3 None \<open>pg_created D e v ob db tx3\<close> by simp
          next
            case 3
            then show ?thesis using t1 t2 t3 \<open>pg_created D e v ob db tx3\<close> unfolding w_def by simp
          qed
        qed
      qed
    qed
  qed
qed

section \<open>The contract\<close>

lemma stmt_error_other:
  assumes "stmt_error D e n = Some err" "env_ok e"
  shows "\<not> errors_is err ErrNotFound"
  using assms by (auto simp: stmt_error_def split: option.splits)

lemma query_stmt_Inr: "query_stmt D e n f db = Inr x \<longleftrightarrow> stmt_error D e n = None \<and> f db = Inr x"
  by (simp add: query_stmt_def split: option.splits)

lemma errors_is_states [simp]:
  "errors_is unique_violation ErrNotFound = False" "errors_is foreign_key_violation ErrNotFound = False"
  "errors_is string_too_long ErrNotFound = False" "errors_is invalid_byte_sequence ErrNotFound = False"
  by (simp_all add: unique_violation_def foreign_key_violation_def string_too_long_def invalid_byte_sequence_def)

lemma distinct_sort_filter:
  assumes "distinct (map f xs)"
  shows "distinct (map f (sort_key f (filter P xs)))"
proof -
  have "mset (map f (sort_key f (filter P xs))) = mset (map f (filter P xs))" by simp
  then show ?thesis using distinct_map_filter [OF assms] mset_eq_imp_distinct_iff by blast
qed

text \<open>What a fetch returns.\<close>

lemma pg_fetch_spec:
  assumes "pg_inv db" "env_ok e" "pg_FetchAndLockPendingOutbox D e limit db = Inr batch"
  shows "distinct (map ob_ID batch) \<and> (\<forall>ob \<in> set batch. pg_obs db (ob_ID ob) = Some ob \<and> ob_Status ob = OutboxStatusPending)"
proof -
  let ?vs = "map snd (go_range (e_ord e) (pd_outbox_events db))"
  let ?p = "sort_key ob_ID (filter (\<lambda>ob. ob_Status ob = OutboxStatusPending \<and> \<not> sd_locked D e (ob_ID ob)) ?vs)"
  obtain k where b: "batch = take k ?p"
    using assms(3) by (auto simp: pg_FetchAndLockPendingOutbox_def query_stmt_Inr Let_def)
  have ok: "gomap_ok (pd_outbox_events db)" using pg_inv_gomap(2) [OF assms(1)] .
  have r: "range_order_ok (e_ord e)" using assms(2) by simp
  have id: "ob_ID ob = n \<and> pg_obs db n = Some ob" if "(n, ob) \<in> set (pd_outbox_events db)" for n ob
    using that pg_inv_outbox_id [OF assms(1)] gomap_in_set [OF ok] by blast
  have "map (ob_ID \<circ> snd) (pd_outbox_events db) = map fst (pd_outbox_events db)"
    using id by (intro map_cong) auto
  then have "distinct (map (ob_ID \<circ> snd) (pd_outbox_events db))"
    using ok by (simp only: gomap_ok_def)
  then have "distinct (map ob_ID ?vs)"
    by (simp add: distinct_go_range [OF r])
  then have "distinct (map ob_ID ?p)"
    by (rule distinct_sort_filter)
  then have d: "distinct (map ob_ID batch)" by (simp add: b distinct_take flip: take_map)
  have "pg_obs db (ob_ID ob) = Some ob \<and> ob_Status ob = OutboxStatusPending" if "ob \<in> set batch" for ob
    using that id by (auto simp: b set_go_range [OF r] dest!: in_set_takeD)
  then show ?thesis using d by blast
qed

interpretation pg: repository_contract "postgres_repository D" pg_evs pg_obs pg_inv for D
proof (unfold_locales, unfold postgres_repository_def repository.simps)
  fix s e limit batch ob
  assume a: "pg_inv s" "env_ok e" "pg_FetchAndLockPendingOutbox D e limit s = Inr batch"
  show "distinct (map ob_ID batch)" using pg_fetch_spec [OF a] by blast
  assume "ob \<in> set batch"
  then show "pg_obs s (ob_ID ob) = Some ob \<and> ob_Status ob = OutboxStatusPending"
    using pg_fetch_spec [OF a] by blast
next
  fix s e limit batch
  assume "pg_FetchAndLockPendingOutbox D e limit s = Inr batch" "0 < limit"
  then show "int (length batch) \<le> limit"
    by (auto simp: pg_FetchAndLockPendingOutbox_def query_stmt_Inr Let_def)
next
  fix s e i v
  assume inv: "pg_inv s" and "pg_GetEvent D e i s = Inr v"
  then obtain r where "pg_rows s i = Some r" "v = event_of_row r"
    by (auto simp: pg_GetEvent_def query_stmt_def select_by_key_def and_then_def sql_text_def
        split: option.splits sum.splits)
  then show "pg_evs s i = Some v \<and> ev_ID v = i"
    using pg_inv_event_id [OF inv] by (simp add: pg_evs_def event_of_row_def)
next
  fix s e i err
  assume "env_ok e" "pg_GetEvent D e i s = Inl err" "errors_is err ErrNotFound"
  then show "pg_evs s i = None"
    using stmt_error_other [of D e 0]
    by (auto simp: pg_GetEvent_def query_stmt_def select_by_key_def and_then_def sql_text_def pg_evs_def
        split: option.splits sum.splits)
next
  fix s e t eps ep
  assume "env_ok e" "pg_GetEndpointsByTenant D e t s = Inr eps" "ep \<in> set eps"
  then show "ep_TenantID ep = t"
    by (auto simp: pg_GetEndpointsByTenant_def query_stmt_Inr and_then_Inr)
next
  fix s e n s'
  assume inv: "pg_inv s" and "pg_MarkOutboxPublished D e n s = (None, s')"
  then obtain k where "update_outbox_published D (e_now e) n s = Inr (k, s')" "k \<noteq> 0"
    by (auto simp: pg_MarkOutboxPublished_def not_found_if_none_def exec_stmt_Inr split: sum.splits prod.splits if_splits)
  from published_stmt [OF this(1) inv] this(2)
  show "pg_inv s' \<and> pg_evs s' = pg_evs s \<and>
     (\<exists>ob t. pg_obs s n = Some ob \<and>
        pg_obs s' = (pg_obs s)(n \<mapsto> ob\<lparr>ob_Status := OutboxStatusPublished, ob_ProcessedAt := t\<rparr>))"
    by (auto simp: pg_evs_def fun_eq_iff)
next
  fix s e n err s'
  assume inv: "pg_inv s" and a: "pg_MarkOutboxPublished D e n s = (Some err, s')"
  obtain r t where x: "exec_stmt D e 0 (update_outbox_published D (e_now e) n) s = (r, t)" by fastforce
  have "s' = t" using a x by (auto simp: pg_MarkOutboxPublished_def not_found_if_none_def split: sum.splits)
  let ?P = "\<lambda>t. pg_inv t \<and> pg_evs t = pg_evs s \<and> (pg_obs t = pg_obs s \<or>
     (\<exists>ob u. pg_obs s n = Some ob \<and>
        pg_obs t = (pg_obs s)(n \<mapsto> ob\<lparr>ob_Status := OutboxStatusPublished, ob_ProcessedAt := u\<rparr>)))"
  have "?P t"
  proof (rule exec_stmt_keeps [of D e 0 "update_outbox_published D (e_now e) n" s r t ?P, OF x])
    show "?P t" if u: "update_outbox_published D (e_now e) n s = Inr (k, t)" for k t
      using published_stmt [OF u inv] by (auto simp: pg_evs_def fun_eq_iff)
  qed (simp add: inv)
  then show "?P s'" unfolding \<open>s' = t\<close> .
next
  fix s e a r s'
  assume inv: "pg_inv s" and a: "pg_RecordDeliveryAttempt D e a s = (r, s')"
  define rs body msg where d: "rs = (if at_ResponseStatus a \<noteq> 0 then Some (at_ResponseStatus a) else None)"
    "body = (if at_ResponseBody a \<noteq> [] then Some (at_ResponseBody a) else None)"
    "msg = (if at_ErrorMessage a \<noteq> [] then Some (at_ErrorMessage a) else None)"
  obtain x t where x0: "exec_stmt D e 0 (insert_attempt D a rs body msg (or_now e (at_ExecutedAt a))) s = (x, t)"
    by fastforce
  then have x: "exec_stmt D e 0 (insert_attempt D a rs body msg (or_now e (at_ExecutedAt a))) s = (x, s')"
    using a by (simp add: pg_RecordDeliveryAttempt_def d)
  show "pg_inv s' \<and> pg_evs s' = pg_evs s \<and> pg_obs s' = pg_obs s"
    using x
  proof (rule exec_stmt_keeps)
    show "pg_inv t \<and> pg_evs t = pg_evs s \<and> pg_obs t = pg_obs s"
      if u: "insert_attempt D a rs body msg (or_now e (at_ExecutedAt a)) s = Inr (k, t)" for k t
      using attempt_stmt [OF u inv] by (auto simp: pg_evs_def fun_eq_iff)
  qed (simp add: inv)
next
  fix s e i st s'
  assume inv: "pg_inv s" and "pg_UpdateEventStatus D e i st s = (None, s')"
  then obtain k where "update_event_status (\<lambda>_. True) st i s = Inr (k, s')" "k \<noteq> 0"
    by (auto simp: pg_UpdateEventStatus_def not_found_if_none_def exec_stmt_Inr split: sum.splits prod.splits if_splits)
  from status_stmt [OF this(1) inv] this(2)
  show "pg_inv s' \<and> pg_obs s' = pg_obs s \<and>
      (\<exists>v. pg_evs s i = Some v \<and> pg_evs s' = (pg_evs s)(i \<mapsto> v\<lparr>ev_Status := st\<rparr>))"
    by (auto simp: pg_evs_def fun_eq_iff event_of_row_def)
next
  fix s e i st err s'
  assume inv: "pg_inv s" and a: "pg_UpdateEventStatus D e i st s = (Some err, s')"
  obtain r t where x: "exec_stmt D e 0 (update_event_status (\<lambda>_. True) st i) s = (r, t)" by fastforce
  have "s' = t" using a x by (auto simp: pg_UpdateEventStatus_def not_found_if_none_def split: sum.splits)
  let ?P = "\<lambda>t. pg_inv t \<and> pg_obs t = pg_obs s \<and>
     (pg_evs t = pg_evs s \<or> (\<exists>v. pg_evs s i = Some v \<and> pg_evs t = (pg_evs s)(i \<mapsto> v\<lparr>ev_Status := st\<rparr>)))"
  have "?P t"
  proof (rule exec_stmt_keeps [of D e 0 "update_event_status (\<lambda>_. True) st i" s r t ?P, OF x])
    show "?P t" if u: "update_event_status (\<lambda>_. True) st i s = Inr (k, t)" for k t
      using status_stmt [OF u inv] by (auto simp: pg_evs_def fun_eq_iff event_of_row_def)
  qed (simp add: inv)
  then show "?P s'" unfolding \<open>s' = t\<close> .
next
  fix s e v ob res s'
  assume "pg_inv s" "pg_CreateEventWithOutbox D e v ob s = (res, s')"
  note c = pg_create_spec [OF this]
  have "(\<forall>i x. pg_evs s i = Some x \<longrightarrow> pg_evs s' i = Some x) \<and>
             (\<forall>n x. pg_obs s n = Some x \<longrightarrow> pg_obs s' n = Some x)"
    if "pg_created D e v ob s s'" using that by (auto simp: pg_created_def pg_evs_def)
  then show "pg_inv s' \<and> (\<forall>i x. pg_evs s i = Some x \<longrightarrow> pg_evs s' i = Some x) \<and>
             (\<forall>n x. pg_obs s n = Some x \<longrightarrow> pg_obs s' n = Some x)"
    using c by (auto simp: pg_evs_def split: sum.splits)
qed

end
