(* ===== verification/Retry.thy ===== *)
theory Retry
  imports Complex_Main Go_Prelude
begin

text \<open>
  The retry scheduler of \<open>internal/retry/scheduler.go\<close>: the full-jitter exponential backoff
  and the classification of failures. The code computes in \<open>float64\<close>; the model computes in
  rationals and rounds to 53 significant bits after every operation, as IEEE 754 does. The
  exponent is unbounded: every value that exceeds the range of \<open>float64\<close> is far above the
  largest interval and is cut down to it either way. The random source is a parameter.
\<close>

section \<open>Floating point\<close>

definition round_even :: "rat \<Rightarrow> int" where
  "round_even q =
     (let f = \<lfloor>q\<rfloor>; r = q - of_int f in
      if r < 1 / 2 then f else if r > 1 / 2 then f + 1 else if even f then f else f + 1)"

fun flog2 :: "nat \<Rightarrow> nat" where
  "flog2 n = (if n < 2 then 0 else Suc (flog2 (n div 2)))"

declare flog2.simps [simp del]

text \<open>Rounding of a number to 53 bits; numbers below 1 do not occur in this computation.\<close>

definition fl64 :: "rat \<Rightarrow> rat" where
  "fl64 q =
     (if q < 1 then q
      else
        let k = flog2 (nat \<lfloor>q\<rfloor>) in
        if k \<le> 52 then of_int (round_even (q * 2 ^ (52 - k))) / 2 ^ (52 - k)
        else of_int (round_even (q / 2 ^ (k - 52))) * 2 ^ (k - 52))"

text \<open>\<open>math.Pow(x, n)\<close> for an integral exponent: repeated squaring, rounded at each product.\<close>

function pow_loop :: "nat \<Rightarrow> rat \<Rightarrow> rat \<Rightarrow> rat" where
  "pow_loop i a x =
     (if i = 0 then a
      else pow_loop (i div 2) (if odd i then fl64 (a * x) else a) (fl64 (x * x)))"
  by pat_completeness auto
termination
  by (relation "measure (\<lambda>(i, a, x). i)") auto

declare pow_loop.simps [simp del]

definition math_Pow :: "rat \<Rightarrow> nat \<Rightarrow> rat" where
  "math_Pow x n = (if n = 0 then 1 else if n = 1 then x else pow_loop n 1 x)"

text \<open>
  \<open>int64(f)\<close> truncates; a value outside the range gives the least integer on amd64.
\<close>

definition int64_of_float :: "rat \<Rightarrow> int" where
  "int64_of_float f = (if f < 2 ^ 63 then \<lfloor>f\<rfloor> else - (2 ^ 63))"

section \<open>The policy and the backoff\<close>

record BackoffPolicy =
  bp_InitialInterval :: duration
  bp_MaxInterval :: duration
  bp_Multiplier :: rat
  bp_MaxRetries :: int
  bp_RandFunc :: "(int \<Rightarrow> int) option"

definition DefaultBackoffPolicy :: BackoffPolicy where
  "DefaultBackoffPolicy =
     \<lparr>bp_InitialInterval = 5 * Second, bp_MaxInterval = 1 * Hour, bp_Multiplier = 2,
      bp_MaxRetries = 5, bp_RandFunc = None\<rparr>"

definition effective_initial :: "BackoffPolicy \<Rightarrow> duration" where
  "effective_initial policy =
     (if bp_InitialInterval policy \<le> 0 then 5 * Second else bp_InitialInterval policy)"

definition effective_max :: "BackoffPolicy \<Rightarrow> duration" where
  "effective_max policy =
     (if bp_MaxInterval policy \<le> 0 then 1 * Hour else bp_MaxInterval policy)"

definition effective_multiplier :: "BackoffPolicy \<Rightarrow> rat" where
  "effective_multiplier policy = (if bp_Multiplier policy \<le> 1 then 2 else bp_Multiplier policy)"

text \<open>The variable \<open>capDuration\<close> of \<open>CalculateBackoff\<close>.\<close>

definition backoff_cap :: "int \<Rightarrow> BackoffPolicy \<Rightarrow> int" where
  "backoff_cap attempt0 policy =
     (let attempt = (if attempt0 \<le> 0 then 1 else attempt0);
          initial = effective_initial policy;
          maxInterval = effective_max policy;
          multiplier = effective_multiplier policy;
          n = nat \<lfloor>fl64 (of_int (attempt - 1))\<rfloor>;
          capFloat0 = fl64 (fl64 (of_int initial) * math_Pow multiplier n);
          capFloat = (if capFloat0 > fl64 (of_int maxInterval) then fl64 (of_int maxInterval)
                      else capFloat0)
      in int64_of_float capFloat)"

text \<open>\<open>rand.Int64N\<close> is the parameter \<open>int64N\<close>.\<close>

definition CalculateBackoff :: "(int \<Rightarrow> int) \<Rightarrow> int \<Rightarrow> BackoffPolicy \<Rightarrow> duration" where
  "CalculateBackoff int64N attempt policy =
     (let capDuration = backoff_cap attempt policy in
      if capDuration \<le> 0 then 0
      else case bp_RandFunc policy of
        Some f \<Rightarrow> f capDuration
      | None \<Rightarrow> int64N (wrap64 (capDuration + 1)))"

text \<open>The documented contract of \<open>rand.Int64N\<close>.\<close>

definition int64N_ok :: "(int \<Rightarrow> int) \<Rightarrow> bool" where
  "int64N_ok r \<longleftrightarrow> (\<forall>n > 0. 0 \<le> r n \<and> r n < n)"

section \<open>Retryable failures\<close>

definition IsRetryable :: "int \<Rightarrow> goerr option \<Rightarrow> bool" where
  "IsRetryable statusCode err =
     (if err \<noteq> None then True
      else if statusCode = 408 \<or> statusCode = 429 then True
      else if statusCode \<ge> 500 \<and> statusCode < 600 then True
      else False)"

section \<open>Rounding is exact on short numbers\<close>

lemma flog2_double: "0 < n \<Longrightarrow> flog2 (2 * n) = Suc (flog2 n)"
  by (subst flog2.simps) simp

lemma flog2_mult_power: "0 < n \<Longrightarrow> flog2 (n * 2 ^ j) = flog2 n + j"
proof (induction j)
  case (Suc j)
  have "n * 2 ^ Suc j = 2 * (n * 2 ^ j)" by simp
  with Suc show ?case by (simp only: flog2_double) (simp add: flog2_double)
qed simp

lemma flog2_bounds: "0 < n \<Longrightarrow> 2 ^ flog2 n \<le> n \<and> n < 2 ^ Suc (flog2 n)"
proof (induction n rule: flog2.induct)
  case (1 n)
  show ?case
  proof (cases "n < 2")
    case True
    with "1.prems" show ?thesis by (simp add: flog2.simps [of n])
  next
    case False
    with "1.IH" have "2 ^ flog2 (n div 2) \<le> n div 2 \<and> n div 2 < 2 ^ Suc (flog2 (n div 2))" by simp
    with False show ?thesis by (simp add: flog2.simps [of n]) linarith
  qed
qed

lemma flog2_less: "0 < n \<Longrightarrow> n < 2 ^ Suc k \<Longrightarrow> flog2 n \<le> k"
proof -
  assume "0 < n" and "n < 2 ^ Suc k"
  then have "(2::nat) ^ flog2 n < 2 ^ Suc k"
    using flog2_bounds [of n] by linarith
  then show ?thesis using power_less_imp_less_exp [of "2::nat" "flog2 n" "Suc k"] by simp
qed

lemma round_even_of_int [simp]: "round_even (of_int i) = i"
  by (simp add: round_even_def)

lemma fl64_exact:
  assumes "0 < m" and "m < 2 ^ 53"
  shows "fl64 (of_nat m * 2 ^ j) = of_nat m * 2 ^ j"
proof -
  let ?q = "of_nat m * 2 ^ j :: rat"
  let ?k = "flog2 m + j"
  have q: "?q = of_nat (m * 2 ^ j)" by simp
  have ge1: "\<not> ?q < 1"
    using assms(1) unfolding q by (metis Suc_leI of_nat_1 of_nat_le_iff not_less One_nat_def nat_0_less_mult_iff zero_less_numeral zero_less_power)
  have k: "flog2 (nat \<lfloor>?q\<rfloor>) = ?k"
    unfolding q floor_of_nat nat_int using assms(1) by (rule flog2_mult_power)
  have small: "flog2 m \<le> 52" using assms by (intro flog2_less) auto
  show ?thesis
  proof (cases "?k \<le> 52")
    case True
    have "?q * 2 ^ (52 - ?k) = of_int (int m * 2 ^ j * 2 ^ (52 - ?k))" by simp
    then have "round_even (?q * 2 ^ (52 - ?k)) = int m * 2 ^ j * 2 ^ (52 - ?k)"
      by (simp only: round_even_of_int)
    with ge1 k True show ?thesis by (simp add: fl64_def Let_def)
  next
    case False
    then have "j = (?k - 52) + (j - (?k - 52))" using small by linarith
    then have split: "(2::rat) ^ j = 2 ^ (?k - 52) * 2 ^ (j - (?k - 52))"
      by (metis power_add)
    then have "?q / 2 ^ (?k - 52) = of_int (int m * 2 ^ (j - (?k - 52)))" by simp
    then have "round_even (?q / 2 ^ (?k - 52)) = int m * 2 ^ (j - (?k - 52))"
      by (simp only: round_even_of_int)
    with ge1 k False split show ?thesis by (simp add: fl64_def Let_def)
  qed
qed

lemma fl64_nat: "m < 2 ^ 53 \<Longrightarrow> fl64 (of_nat m) = of_nat m"
  using fl64_exact [of m 0] by (cases "m = 0") (simp_all add: fl64_def)

lemma fl64_int: "0 \<le> i \<Longrightarrow> i < 2 ^ 53 \<Longrightarrow> fl64 (of_int i) = of_int i"
proof -
  assume i: "0 \<le> i" "i < 2 ^ 53"
  then have "nat i < 2 ^ 53" by simp
  then have "fl64 (of_nat (nat i)) = of_nat (nat i)" by (rule fl64_nat)
  with i(1) show ?thesis by simp
qed





lemma int64_of_float_le:
  assumes "f \<le> of_int m" and "m < 2 ^ 63"
  shows "int64_of_float f \<le> m"
  using assms by (auto simp: int64_of_float_def floor_le_iff)

lemma backoff_cap_le_max:
  assumes "effective_max policy < 2 ^ 53"
  shows "backoff_cap attempt policy \<le> effective_max policy"
proof -
  have "0 \<le> effective_max policy" by (simp add: effective_max_def duration_defs)
  then have "fl64 (of_int (effective_max policy)) = of_int (effective_max policy)"
    using assms by (rule fl64_int)
  then show ?thesis
    using assms by (auto simp: backoff_cap_def Let_def intro!: int64_of_float_le)
qed

lemma CalculateBackoff_bounds:
  assumes "int64N_ok r" and "bp_RandFunc policy = None" and "effective_max policy < 2 ^ 53"
  shows "0 \<le> CalculateBackoff r attempt policy \<and>
         CalculateBackoff r attempt policy \<le> effective_max policy"
proof -
  let ?c = "backoff_cap attempt policy"
  have max0: "0 \<le> effective_max policy" by (simp add: effective_max_def duration_defs)
  have le: "?c \<le> effective_max policy" using assms(3) by (rule backoff_cap_le_max)
  show ?thesis
  proof (cases "?c \<le> 0")
    case True
    with max0 show ?thesis by (simp add: CalculateBackoff_def)
  next
    case False
    then have "wrap64 (?c + 1) = ?c + 1"
      using le assms(3) by (intro wrap64_id) (simp add: int64_ok_def)
    moreover have "0 \<le> r (?c + 1) \<and> r (?c + 1) < ?c + 1"
      using assms(1) [unfolded int64N_ok_def, rule_format, of "?c + 1"] False by simp
    ultimately show ?thesis using le False assms(2) by (simp add: CalculateBackoff_def)
  qed
qed

section \<open>Properties\<close>

text \<open>
  The jittered delay is never negative and never exceeds the policy's maximum interval
  (one hour when the policy sets none), for every attempt number, initial interval and
  multiplier, when no custom generator is installed and the maximum is below \<open>2 ^ 53\<close>
  nanoseconds (104 days), where it is a \<open>float64\<close>. The generator only has to keep the contract
  of \<open>rand.Int64N\<close>.
\<close>

theorem backoff_within_max:
  assumes "int64N_ok r" and "bp_RandFunc policy = None" and "effective_max policy < 2 ^ 53"
  shows "0 \<le> CalculateBackoff r attempt policy \<and>
         CalculateBackoff r attempt policy \<le> effective_max policy"
  using assms by (rule CalculateBackoff_bounds)

theorem backoff_within_max_witness:
  "int64N_ok (\<lambda>n. n - 1) \<and> bp_RandFunc DefaultBackoffPolicy = None \<and>
   0 \<le> CalculateBackoff (\<lambda>n. n - 1) 3 DefaultBackoffPolicy \<and>
   CalculateBackoff (\<lambda>n. n - 1) 3 DefaultBackoffPolicy \<le> 3600 * 1000000000"
proof -
  have r: "int64N_ok (\<lambda>n. n - 1)" by (simp add: int64N_ok_def)
  have n: "bp_RandFunc DefaultBackoffPolicy = None" by (simp add: DefaultBackoffPolicy_def)
  have m: "effective_max DefaultBackoffPolicy = 3600 * 1000000000"
    by (simp add: effective_max_def DefaultBackoffPolicy_def duration_defs)
  show ?thesis using backoff_within_max [OF r n, of 3] r n by (simp add: m)
qed



end
