(* ===== verification/Go_Crypto.thy ===== *)
theory Go_Crypto
  imports Go_Strings "HOL-Library.Word"
begin

unbundle bit_operations_syntax

text \<open>
  Go's \<open>crypto/sha256\<close> and \<open>crypto/hmac\<close>, as FIPS 180-4 and RFC 2104 define them. The
  signature code computes \<open>hmac.New(sha256.New, key)\<close>, one \<open>Write\<close> and \<open>Sum(nil)\<close>:
  here \<open>hmac_sha256 key message\<close>, a string of 32 bytes.
\<close>

section \<open>SHA-256\<close>

definition sha_K :: "32 word list" where
  "sha_K =
    [1116352408, 1899447441, 3049323471, 3921009573, 961987163, 1508970993, 2453635748, 2870763221,
     3624381080, 310598401, 607225278, 1426881987, 1925078388, 2162078206, 2614888103, 3248222580,
     3835390401, 4022224774, 264347078, 604807628, 770255983, 1249150122, 1555081692, 1996064986,
     2554220882, 2821834349, 2952996808, 3210313671, 3336571891, 3584528711, 113926993, 338241895,
     666307205, 773529912, 1294757372, 1396182291, 1695183700, 1986661051, 2177026350, 2456956037,
     2730485921, 2820302411, 3259730800, 3345764771, 3516065817, 3600352804, 4094571909, 275423344,
     430227734, 506948616, 659060556, 883997877, 958139571, 1322822218, 1537002063, 1747873779,
     1955562222, 2024104815, 2227730452, 2361852424, 2428436474, 2756734187, 3204031479, 3329325298]"

definition sha_H0 :: "32 word list" where
  "sha_H0 =
    [1779033703, 3144134277, 1013904242, 2773480762, 1359893119, 2600822924, 528734635, 1541459225]"

definition sha_rotr :: "nat \<Rightarrow> 32 word \<Rightarrow> 32 word" where
  "sha_rotr n w = drop_bit n w OR push_bit (32 - n) w"

definition sha_sigma0 :: "32 word \<Rightarrow> 32 word" where
  "sha_sigma0 x = sha_rotr 7 x XOR sha_rotr 18 x XOR drop_bit 3 x"

definition sha_sigma1 :: "32 word \<Rightarrow> 32 word" where
  "sha_sigma1 x = sha_rotr 17 x XOR sha_rotr 19 x XOR drop_bit 10 x"

definition sha_Sigma0 :: "32 word \<Rightarrow> 32 word" where
  "sha_Sigma0 x = sha_rotr 2 x XOR sha_rotr 13 x XOR sha_rotr 22 x"

definition sha_Sigma1 :: "32 word \<Rightarrow> 32 word" where
  "sha_Sigma1 x = sha_rotr 6 x XOR sha_rotr 11 x XOR sha_rotr 25 x"

definition sha_Ch :: "32 word \<Rightarrow> 32 word \<Rightarrow> 32 word \<Rightarrow> 32 word" where
  "sha_Ch x y z = (x AND y) XOR (NOT x AND z)"

definition sha_Maj :: "32 word \<Rightarrow> 32 word \<Rightarrow> 32 word \<Rightarrow> 32 word" where
  "sha_Maj x y z = (x AND y) XOR (x AND z) XOR (y AND z)"

text \<open>Big-endian words of four bytes, and back.\<close>

definition byte_of :: "int \<Rightarrow> char" where
  "byte_of n = char_of n"

fun be_words :: "string \<Rightarrow> 32 word list" where
  "be_words (a # b # c # d # r) =
     ((((of_char a * 256) + of_char b) * 256 + of_char c) * 256 + of_char d) # be_words r"
| "be_words _ = []"

definition be_bytes :: "32 word \<Rightarrow> string" where
  "be_bytes w =
     (let n = uint w in
      [byte_of (n div 16777216), byte_of (n div 65536 mod 256), byte_of (n div 256 mod 256),
       byte_of (n mod 256)])"

definition sha_length_bytes :: "int \<Rightarrow> string" where
  "sha_length_bytes n = map (\<lambda>k. byte_of (n div 256 ^ k mod 256)) [7, 6, 5, 4, 3, 2, 1, 0]"

definition sha_pad :: "string \<Rightarrow> string" where
  "sha_pad m =
     m @ [byte_of 128] @ replicate ((119 - length m mod 64) mod 64) (byte_of 0)
       @ sha_length_bytes (8 * int (length m))"

fun sha_schedule :: "nat \<Rightarrow> 32 word list \<Rightarrow> 32 word list" where
  "sha_schedule 0 w = w"
| "sha_schedule (Suc n) w =
     (let t = length w in
      sha_schedule n
        (w @ [sha_sigma1 (w ! (t - 2)) + w ! (t - 7) + sha_sigma0 (w ! (t - 15)) + w ! (t - 16)]))"

fun sha_round :: "32 word \<times> 32 word \<Rightarrow> 32 word list \<Rightarrow> 32 word list" where
  "sha_round (k, w) [a, b, c, d, e, f, g, h] =
     (let t1 = h + sha_Sigma1 e + sha_Ch e f g + k + w;
          t2 = sha_Sigma0 a + sha_Maj a b c
      in [t1 + t2, a, b, c, d + t1, e, f, g])"
| "sha_round _ hs = hs"

definition sha_block :: "32 word list \<Rightarrow> 32 word list \<Rightarrow> 32 word list" where
  "sha_block hs ws = map2 (+) hs (fold sha_round (zip sha_K (sha_schedule 48 ws)) hs)"

fun sha_blocks :: "nat \<Rightarrow> 32 word list \<Rightarrow> 32 word list \<Rightarrow> 32 word list" where
  "sha_blocks 0 hs ws = hs"
| "sha_blocks (Suc n) hs ws = sha_blocks n (sha_block hs (take 16 ws)) (drop 16 ws)"

definition sha256 :: "string \<Rightarrow> string" where
  "sha256 m =
     (let ws = be_words (sha_pad m) in concat (map be_bytes (sha_blocks (length ws div 16) sha_H0 ws)))"

section \<open>HMAC\<close>

definition xor_byte :: "int \<Rightarrow> char \<Rightarrow> char" where
  "xor_byte k c = byte_of (k XOR of_char c)"

definition hmac_sha256 :: "string \<Rightarrow> string \<Rightarrow> string" where
  "hmac_sha256 key m =
     (let k0 = (if 64 < length key then sha256 key else key);
          k = k0 @ replicate (64 - length k0) (byte_of 0)
      in sha256 (map (xor_byte 92) k @ sha256 (map (xor_byte 54) k @ m)))"

lemma length_sha_round: "length (sha_round kw hs) = length hs"
  by (cases "(kw, hs)" rule: sha_round.cases) (auto simp: Let_def)

lemma length_fold_sha_round: "length (fold sha_round kws hs) = length hs"
  by (induction kws arbitrary: hs) (auto simp: length_sha_round)

lemma length_sha_block: "length (sha_block hs ws) = length hs"
  by (simp add: sha_block_def length_fold_sha_round)

lemma length_sha_blocks: "length (sha_blocks n hs ws) = length hs"
  by (induction n arbitrary: hs ws) (auto simp: length_sha_block)

lemma length_be_bytes [simp]: "length (be_bytes w) = 4"
  by (simp add: be_bytes_def Let_def)

lemma length_sha256 [simp]: "length (sha256 m) = 32"
proof -
  have "length (concat (map be_bytes hs)) = 4 * length hs" for hs
    by (induction hs) auto
  then show ?thesis by (simp add: sha256_def Let_def length_sha_blocks sha_H0_def)
qed

lemma length_hmac_sha256 [simp]: "length (hmac_sha256 k m) = 32"
  by (simp add: hmac_sha256_def Let_def)

end
