(* ===== verification/Signature.thy ===== *)
theory Signature
  imports Go_Crypto
begin

text \<open>
  Payload signing and verification: \<open>internal/dispatcher/hmac.go\<close> and its twin in the Go
  SDK, \<open>sdk/go/webhookclient/signature.go\<close>. \<open>time.Now().Unix()\<close> is the argument \<open>now\<close>;
  \<open>hmac.Equal\<close> is equality of byte strings. The main fact is an exact account of when a
  header that \<open>SignPayload\<close> produced is accepted, for any secret and payload the verifier
  holds, with the 64-bit subtraction of the time check written out.
\<close>

section \<open>The dispatcher's functions\<close>

definition sign_message :: "int \<Rightarrow> string \<Rightarrow> string" where
  "sign_message timestamp payload = show_int timestamp @ ''.'' @ payload"

definition SignPayload :: "string \<Rightarrow> int \<Rightarrow> string \<Rightarrow> string" where
  "SignPayload secret timestamp payload =
     (let toSign = sign_message timestamp payload;
          signature = hex_EncodeToString (hmac_sha256 secret toSign)
      in ''t='' @ show_int timestamp @ '',v1='' @ signature)"

text \<open>One round of the loop over the comma-separated parts: \<open>(timestampStr, expectedSig)\<close>.\<close>

definition scan_part :: "string \<times> string \<Rightarrow> string \<Rightarrow> string \<times> string" where
  "scan_part acc part =
     (let kv = strings_SplitN2 (CHR ''='') part in
      if length kv \<noteq> 2 then acc
      else if kv ! 0 = ''t'' then (kv ! 1, snd acc)
      else if kv ! 0 = ''v1'' then (fst acc, kv ! 1)
      else acc)"

text \<open>The time check: \<open>now - ts\<close> and \<open>-toleranceSeconds\<close> are \<open>int64\<close> expressions.\<close>

definition outside_tolerance :: "int \<Rightarrow> int \<Rightarrow> int \<Rightarrow> bool" where
  "outside_tolerance now ts toleranceSeconds =
     (toleranceSeconds > 0 \<and>
      (let diff = wrap64 (now - ts) in
       diff > toleranceSeconds \<or> diff < wrap64 (- toleranceSeconds)))"

definition VerifySignature :: "int \<Rightarrow> string \<Rightarrow> string \<Rightarrow> string \<Rightarrow> int \<Rightarrow> bool" where
  "VerifySignature now secret header payload toleranceSeconds =
     (if header = '''' then False
      else
        let (timestampStr, expectedSig) =
              foldl scan_part ('''', '''') (strings_Split (CHR '','') header)
        in if timestampStr = '''' \<or> expectedSig = '''' then False
           else case ParseInt64 timestampStr of
             None \<Rightarrow> False
           | Some ts \<Rightarrow>
               if outside_tolerance now ts toleranceSeconds then False
               else hex_EncodeToString (hmac_sha256 secret (sign_message ts payload)) = expectedSig)"

fun VerifySignature_any :: "int \<Rightarrow> string list \<Rightarrow> string \<Rightarrow> string \<Rightarrow> int \<Rightarrow> bool" where
  "VerifySignature_any now [] header payload tol = False"
| "VerifySignature_any now (secret # secrets) header payload tol =
     (if secret \<noteq> '''' \<and> VerifySignature now secret header payload tol then True
      else VerifySignature_any now secrets header payload tol)"

definition VerifySignatureWithSecrets ::
    "int \<Rightarrow> string list \<Rightarrow> string \<Rightarrow> string \<Rightarrow> int \<Rightarrow> bool" where
  "VerifySignatureWithSecrets now secrets header payload tol =
     (if length secrets = 0 \<or> header = '''' then False
      else VerifySignature_any now secrets header payload tol)"

section \<open>The SDK's functions\<close>

text \<open>The SDK signs as the dispatcher does; its verifier trims the parts and ignores case.\<close>

definition sdk_SignPayload :: "string \<Rightarrow> int \<Rightarrow> string \<Rightarrow> string" where
  "sdk_SignPayload secret timestamp payload =
     (let toSign = show_int timestamp @ ''.'' @ payload;
          signature = hex_EncodeToString (hmac_sha256 secret toSign)
      in ''t='' @ show_int timestamp @ '',v1='' @ signature)"

definition sdk_scan_part :: "string \<times> string \<Rightarrow> string \<Rightarrow> string \<times> string" where
  "sdk_scan_part acc part =
     (let kv = strings_SplitN2 (CHR ''='') part in
      if length kv \<noteq> 2 then acc
      else
        let key = TrimSpace (kv ! 0); val = TrimSpace (kv ! 1) in
        if key = ''t'' then (val, snd acc)
        else if key = ''v1'' then (fst acc, val)
        else acc)"

definition sdk_VerifySignature :: "int \<Rightarrow> string \<Rightarrow> string \<Rightarrow> string \<Rightarrow> int \<Rightarrow> bool" where
  "sdk_VerifySignature now secret header payload toleranceSeconds =
     (if secret = '''' \<or> header = '''' then False
      else
        let (timestampStr, expectedSig) =
              foldl sdk_scan_part ('''', '''') (strings_Split (CHR '','') header)
        in if timestampStr = '''' \<or> expectedSig = '''' then False
           else case ParseInt64 timestampStr of
             None \<Rightarrow> False
           | Some ts \<Rightarrow>
               if outside_tolerance now ts toleranceSeconds then False
               else ToLower (hex_EncodeToString (hmac_sha256 secret (show_int ts @ ''.'' @ payload)))
                      = ToLower expectedSig)"

section \<open>Scanning a header\<close>

text \<open>What the loop computes: the value of the last part with a given key.\<close>

definition header_fields :: "string \<Rightarrow> string list list" where
  "header_fields header =
     filter (\<lambda>kv. length kv = 2) (map (strings_SplitN2 (CHR ''='')) (strings_Split (CHR '','') header))"

definition last_value :: "string \<Rightarrow> string list list \<Rightarrow> string \<Rightarrow> string" where
  "last_value k kvs d =
     (case filter (\<lambda>kv. kv ! 0 = k) kvs of [] \<Rightarrow> d | x # xs \<Rightarrow> last (x # xs) ! 1)"

definition header_field :: "string \<Rightarrow> string \<Rightarrow> string" where
  "header_field k header = last_value k (header_fields header) ''''"

lemma last_value_Cons:
  "last_value k (kv # kvs) d = last_value k kvs (if kv ! 0 = k then kv ! 1 else d)"
  by (simp add: last_value_def split: list.split)

lemma foldl_scan_part:
  "foldl scan_part acc parts =
     (let kvs = filter (\<lambda>kv. length kv = 2) (map (strings_SplitN2 (CHR ''='')) parts)
      in (last_value ''t'' kvs (fst acc), last_value ''v1'' kvs (snd acc)))"
proof (induction parts arbitrary: acc)
  case Nil
  then show ?case by (simp add: last_value_def)
next
  case (Cons part parts)
  then show ?case by (simp add: scan_part_def last_value_Cons Let_def)
qed

lemma scan_header:
  "foldl scan_part ('''', '''') (strings_Split (CHR '','') header)
     = (header_field ''t'' header, header_field ''v1'' header)"
  by (simp add: foldl_scan_part header_field_def header_fields_def Let_def)

lemma sign_header_parts:
  "strings_Split (CHR '','') (''t='' @ show_int ts @ '',v1='' @ hex_EncodeToString bs)
     = [''t='' @ show_int ts, ''v1='' @ hex_EncodeToString bs]"
proof -
  have "CHR '','' \<notin> set (''t='' @ show_int ts)"
    using show_int_free [of "CHR '',''" ts] by simp
  moreover have "CHR '','' \<notin> set (''v1='' @ hex_EncodeToString bs)"
    using hex_free [of "CHR '',''" bs] by (simp add: is_hex_def)
  ultimately show ?thesis
    using strings_Split_append [of "CHR '',''" "''t='' @ show_int ts" "''v1='' @ hex_EncodeToString bs"]
    by (simp add: strings_Split_single)
qed

lemma split_key_parts:
  "strings_SplitN2 (CHR ''='') (''t='' @ v) = [''t'', v]"
  "strings_SplitN2 (CHR ''='') (''v1='' @ v) = [''v1'', v]"
  using strings_SplitN2_append [of "CHR ''=''" "''t''" v]
    strings_SplitN2_append [of "CHR ''=''" "''v1''" v] by simp_all

lemma SignPayload_parts:
  "strings_Split (CHR '','') (SignPayload secret ts payload)
     = [''t='' @ show_int ts, ''v1='' @ hex_EncodeToString (hmac_sha256 secret (sign_message ts payload))]"
  by (simp only: SignPayload_def Let_def sign_header_parts)

lemma TrimSpace_keys [simp]: "TrimSpace ''t'' = ''t''" "TrimSpace ''v1'' = ''v1''"
  by (rule TrimSpace_printable, simp add: printable_def)+

lemma SignPayload_scan:
  "foldl scan_part ('''', '''') (strings_Split (CHR '','') (SignPayload secret ts payload))
     = (show_int ts, hex_EncodeToString (hmac_sha256 secret (sign_message ts payload)))"
  "foldl sdk_scan_part ('''', '''') (strings_Split (CHR '','') (SignPayload secret ts payload))
     = (show_int ts, hex_EncodeToString (hmac_sha256 secret (sign_message ts payload)))"
  unfolding SignPayload_parts
  by (simp_all only: foldl.simps scan_part_def sdk_scan_part_def split_key_parts Let_def)
    simp_all

lemma hex_hmac_not_Nil [simp]: "hex_EncodeToString (hmac_sha256 k m) \<noteq> []"
  using length_hex_EncodeToString [of "hmac_sha256 k m"] by auto

lemma SignPayload_not_Nil [simp]: "SignPayload secret ts payload \<noteq> []"
  by (simp add: SignPayload_def Let_def)

text \<open>
  The 64-bit difference decides the tolerance correctly whenever \<open>now + tolerance\<close> is
  itself a 64-bit value, for every timestamp a header can carry.
\<close>

lemma outside_tolerance_exact:
  assumes "0 \<le> now" and "0 < tol" and "now + tol < 2 ^ 63" and "int64_ok ts"
  shows "outside_tolerance now ts tol \<longleftrightarrow> tol < \<bar>now - ts\<bar>"
proof -
  have neg: "wrap64 (- tol) = - tol"
    using assms by (intro wrap64_id) (simp add: int64_ok_def)
  show ?thesis
  proof (cases "now - ts < 2 ^ 63")
    case True
    then have "wrap64 (now - ts) = now - ts"
      using assms by (intro wrap64_id) (simp add: int64_ok_def)
    with neg assms(2) show ?thesis by (auto simp: outside_tolerance_def Let_def)
  next
    case False
    have "(now - ts + 2 ^ 63) mod 2 ^ 64 = (now - ts + 2 ^ 63 - 2 ^ 64) mod 2 ^ 64"
      by (metis diff_add_cancel mod_add_self2)
    also have "\<dots> = now - ts + 2 ^ 63 - 2 ^ 64"
      using False assms by (intro mod_pos_pos_trivial) (auto simp: int64_ok_def)
    finally have "wrap64 (now - ts) = now - ts - 2 ^ 64"
      by (simp add: wrap64_def)
    with False neg assms show ?thesis
      by (auto simp: outside_tolerance_def Let_def int64_ok_def)
  qed
qed

lemma ParseInt64_ok: "ParseInt64 s = Some i \<Longrightarrow> int64_ok i"
  by (auto simp: ParseInt64_def int64_ok_def Let_def split: list.splits option.splits if_splits)

lemma ParseInt64_Nil [simp]: "ParseInt64 [] = None"
  by (simp add: ParseInt64_def)

lemma header_field_Nil [simp]: "header_field k [] = []"
  by (simp add: header_field_def header_fields_def strings_SplitN2_def last_value_def)

lemma VerifySignature_fields:
  "VerifySignature now secret header payload tol \<longleftrightarrow>
     (\<exists>ts. ParseInt64 (header_field ''t'' header) = Some ts \<and> \<not> outside_tolerance now ts tol \<and>
        header_field ''v1'' header = hex_EncodeToString (hmac_sha256 secret (sign_message ts payload)))"
proof (cases "header = '''' \<or> header_field ''t'' header = '''' \<or> header_field ''v1'' header = ''''")
  case True
  then show ?thesis
    by (auto simp: VerifySignature_def scan_header dest: sym)
next
  case False
  then show ?thesis
    by (auto simp: VerifySignature_def scan_header split: option.splits)
qed

lemma VerifySignature_any_iff:
  "VerifySignature_any now secrets header payload tol \<longleftrightarrow>
     (\<exists>secret \<in> set secrets. secret \<noteq> '''' \<and> VerifySignature now secret header payload tol)"
  by (induction secrets) auto

section \<open>Properties\<close>

text \<open>
  A header made by \<open>SignPayload\<close> is accepted by \<open>VerifySignature\<close>, for whatever secret
  and payload the verifier uses, exactly when the timestamp is inside the tolerance and the
  two HMAC values agree. In particular the signer's own secret and payload are accepted, and
  a different payload or secret is accepted only on an HMAC collision.
\<close>

theorem sign_verify_exact:
  assumes "int64_ok ts"
  shows "VerifySignature now secret' (SignPayload secret ts payload) payload' tol \<longleftrightarrow>
           \<not> outside_tolerance now ts tol \<and>
           hmac_sha256 secret' (sign_message ts payload') = hmac_sha256 secret (sign_message ts payload)"
  using assms by (auto simp: VerifySignature_def SignPayload_scan ParseInt64_show_int)

theorem sign_verify_exact_witness:
  "int64_ok 1700000000 \<and>
   VerifySignature 1700000100 ''whsec'' (SignPayload ''whsec'' 1700000000 ''{}'') ''{}'' 300"
proof -
  have ok: "int64_ok 1700000000" by (simp add: int64_ok_def)
  have "\<not> outside_tolerance 1700000100 1700000000 300"
    by (simp add: outside_tolerance_def wrap64_def Let_def)
  with ok show ?thesis using sign_verify_exact [OF ok] by blast
qed

text \<open>
  C28: \<open>VerifySignature\<close> accepts exactly the headers whose last \<open>t\<close> field is a 64-bit integer
  within the tolerance of the clock and whose last \<open>v1\<close> field is the hexadecimal HMAC of that
  timestamp and the payload. The time check is the mathematical one although the code subtracts
  64-bit integers: no timestamp a header can carry wraps around into the tolerance window as
  long as \<open>now + tolerance\<close> is below \<open>2 ^ 63\<close>.
\<close>

theorem verify_signature_spec:
  assumes "0 \<le> now" and "now + tol < 2 ^ 63"
  shows "VerifySignature now secret header payload tol \<longleftrightarrow>
     (\<exists>ts. ParseInt64 (header_field ''t'' header) = Some ts \<and>
        (tol \<le> 0 \<or> \<bar>now - ts\<bar> \<le> tol) \<and>
        header_field ''v1'' header = hex_EncodeToString (hmac_sha256 secret (sign_message ts payload)))"
proof -
  have "\<not> outside_tolerance now ts tol \<longleftrightarrow> tol \<le> 0 \<or> \<bar>now - ts\<bar> \<le> tol" if "int64_ok ts" for ts
  proof (cases "0 < tol")
    case True
    with assms that outside_tolerance_exact [of now tol ts] show ?thesis by auto
  next
    case False
    then show ?thesis by (simp add: outside_tolerance_def)
  qed
  then show ?thesis
    by (auto simp: VerifySignature_fields dest: ParseInt64_ok)
qed

theorem verify_signature_spec_witness:
  "(0 :: int) \<le> 1700000000 \<and> 1700000000 + 300 < (2 ^ 63 :: int) \<and>
   \<not> VerifySignature 1700000000 ''whsec'' ''t=-9223372036854775808,v1=00'' ''{}'' 300"
proof -
  have "header_field ''t'' ''t=-9223372036854775808,v1=00'' = ''-9223372036854775808''"
    by (simp add: header_field_def header_fields_def strings_SplitN2_def last_value_def)
  then have "ParseInt64 (header_field ''t'' ''t=-9223372036854775808,v1=00'') = Some (- (2 ^ 63))"
    by (simp add: ParseInt64_def parse_digits_def digit_val_def Let_def)
  then show ?thesis
    using verify_signature_spec [of 1700000000 300 "''whsec''" "''t=-9223372036854775808,v1=00''" "''{}''"]
    by simp
qed

text \<open>
  Secret rotation. A header is accepted by \<open>VerifySignatureWithSecrets\<close> exactly when
  \<open>VerifySignature\<close> accepts it for one of the non-empty secrets of the list: so while a receiver
  holds the old and the new secret, whatever either of them signs is accepted, and an empty
  secret never authenticates anything.
\<close>

theorem verify_with_secrets_exact:
  "VerifySignatureWithSecrets now secrets header payload tol \<longleftrightarrow>
     (\<exists>s. s \<in> set secrets \<and> s \<noteq> '''' \<and> VerifySignature now s header payload tol)"
  by (auto simp: VerifySignatureWithSecrets_def VerifySignature_any_iff VerifySignature_def)

text \<open>
  The SDK's verifier and the dispatcher's signer agree: a header the dispatcher sends is
  accepted by \<open>webhookclient.VerifySignature\<close> under a non-empty secret exactly when the
  dispatcher's own \<open>VerifySignature\<close> accepts it, trimming and case folding notwithstanding,
  and it is the very header the SDK's own \<open>SignPayload\<close> makes.
\<close>

theorem sdk_verifies_dispatcher_signature:
  assumes "int64_ok ts" and "secret' \<noteq> ''''"
  shows "sdk_SignPayload secret ts payload = SignPayload secret ts payload \<and>
         (sdk_VerifySignature now secret' (SignPayload secret ts payload) payload' tol \<longleftrightarrow>
            VerifySignature now secret' (SignPayload secret ts payload) payload' tol)"
proof
  show "sdk_SignPayload secret ts payload = SignPayload secret ts payload"
    by (simp add: sdk_SignPayload_def SignPayload_def sign_message_def)
  show "sdk_VerifySignature now secret' (SignPayload secret ts payload) payload' tol \<longleftrightarrow>
           VerifySignature now secret' (SignPayload secret ts payload) payload' tol"
    using assms
    by (simp add: sdk_VerifySignature_def VerifySignature_def SignPayload_scan ParseInt64_show_int
          sign_message_def)
qed

theorem sdk_verifies_dispatcher_signature_witness:
  "sdk_VerifySignature 1700000100 ''whsec'' (SignPayload ''whsec'' 1700000000 ''{}'') ''{}'' 300"
proof -
  have ok: "int64_ok 1700000000" by (simp add: int64_ok_def)
  have "VerifySignature 1700000100 ''whsec'' (SignPayload ''whsec'' 1700000000 ''{}'') ''{}'' 300"
    by (simp add: VerifySignature_def SignPayload_scan ParseInt64_show_int [OF ok]
        outside_tolerance_def wrap64_def Let_def)
  then show ?thesis
    using sdk_verifies_dispatcher_signature [OF ok, of "''whsec''" "''whsec''" "''{}''"] by simp
qed

end
