(* ===== verification/Telemetry.thy ===== *)
theory Telemetry
  imports Complex_Main Go_Prelude
begin

text \<open>
  The metrics of \<open>internal/telemetry/metrics.go\<close>. The Prometheus client is third-party code: a
  counter vector and a histogram vector are the types \<open>'c\<close> and \<open>'h\<close>, with what the code calls on
  them as the record \<open>prom_ops\<close>. A metrics pointer is an option, \<open>None\<close> being nil. A duration in
  seconds is the rational number the code's \<open>float64\<close> approximates.
\<close>

record ('c, 'h) prom_ops =
  pm_NewCounterVec :: 'c
  pm_NewHistogramVec :: 'h
  pm_Inc :: "string list \<Rightarrow> 'c \<Rightarrow> 'c"
  pm_Observe :: "string list \<Rightarrow> rat \<Rightarrow> 'h \<Rightarrow> 'h"

record ('c, 'h) Metrics =
  tm_eventsIngestedTotal :: "'c option"
  tm_eventsDeliveredTotal :: "'c option"
  tm_deliveryDurationSeconds :: "'h option"
  tm_dlqEventsTotal :: "'c option"

definition NewMetrics :: "('c, 'h) prom_ops \<Rightarrow> ('c, 'h) Metrics" where
  "NewMetrics P =
     \<lparr>tm_eventsIngestedTotal = Some (pm_NewCounterVec P), tm_eventsDeliveredTotal = Some (pm_NewCounterVec P),
      tm_deliveryDurationSeconds = Some (pm_NewHistogramVec P), tm_dlqEventsTotal = Some (pm_NewCounterVec P)\<rparr>"

definition IncIngested ::
    "('c, 'h) prom_ops \<Rightarrow> string \<Rightarrow> string \<Rightarrow> ('c, 'h) Metrics option \<Rightarrow> ('c, 'h) Metrics option" where
  "IncIngested P tenantID eventType m =
     map_option (\<lambda>t. case tm_eventsIngestedTotal t of
         None \<Rightarrow> t
       | Some c \<Rightarrow> t\<lparr>tm_eventsIngestedTotal := Some (pm_Inc P [tenantID, eventType] c)\<rparr>) m"

definition IncDelivered ::
    "('c, 'h) prom_ops \<Rightarrow> string \<Rightarrow> string \<Rightarrow> string \<Rightarrow> ('c, 'h) Metrics option \<Rightarrow> ('c, 'h) Metrics option" where
  "IncDelivered P tenantID endpointID statusCode m =
     map_option (\<lambda>t. case tm_eventsDeliveredTotal t of
         None \<Rightarrow> t
       | Some c \<Rightarrow> t\<lparr>tm_eventsDeliveredTotal := Some (pm_Inc P [tenantID, endpointID, statusCode] c)\<rparr>) m"

definition ObserveDeliveryDuration ::
    "('c, 'h) prom_ops \<Rightarrow> string \<Rightarrow> string \<Rightarrow> rat \<Rightarrow> ('c, 'h) Metrics option \<Rightarrow> ('c, 'h) Metrics option" where
  "ObserveDeliveryDuration P tenantID endpointID durationSeconds m =
     map_option (\<lambda>t. case tm_deliveryDurationSeconds t of
         None \<Rightarrow> t
       | Some h \<Rightarrow> t\<lparr>tm_deliveryDurationSeconds := Some (pm_Observe P [tenantID, endpointID] durationSeconds h)\<rparr>) m"

definition IncDLQ ::
    "('c, 'h) prom_ops \<Rightarrow> string \<Rightarrow> string \<Rightarrow> string \<Rightarrow> ('c, 'h) Metrics option \<Rightarrow> ('c, 'h) Metrics option" where
  "IncDLQ P tenantID endpointID reason m =
     map_option (\<lambda>t. case tm_dlqEventsTotal t of
         None \<Rightarrow> t
       | Some c \<Rightarrow> t\<lparr>tm_dlqEventsTotal := Some (pm_Inc P [tenantID, endpointID, reason] c)\<rparr>) m"

lemmas metrics_defs = IncIngested_def IncDelivered_def ObserveDeliveryDuration_def IncDLQ_def

text \<open>The counters of the examples: how often each label vector was incremented.\<close>

definition counting_prom :: "(string list \<Rightarrow> nat, nat) prom_ops" where
  "counting_prom =
     \<lparr>pm_NewCounterVec = (\<lambda>_. 0), pm_NewHistogramVec = 0,
      pm_Inc = (\<lambda>ls c. c(ls := c ls + 1)), pm_Observe = (\<lambda>ls d h. h + 1)\<rparr>"

end
