(* ===== verification/Dispatcher.thy ===== *)
theory Dispatcher
  imports MemoryRepo Retry Signature Telemetry
begin

text \<open>
  One delivery attempt, \<open>internal/dispatcher/client.go\<close>. What an attempt reads of the outside is
  the record \<open>dispatch_env\<close>: the contexts and clocks of its repository calls, the clock around
  the request, the request constructor and the HTTP client (whose dialer is the theory \<open>Ssrf\<close>),
  and the fresh UUID. The repository, metrics and the attempt callback are those of the
  dispatcher; nil is \<open>None\<close>. Lemmas: the classification of the outcome and its effect on any
  repository that meets the contract.
\<close>

section \<open>HTTP\<close>

text \<open>\<open>textproto.CanonicalMIMEHeaderKey\<close> for the ASCII names the code uses.\<close>

definition upper_char :: "char \<Rightarrow> char" where
  "upper_char c =
     (let n = (of_char c :: nat) in if 97 \<le> n \<and> n \<le> 122 then char_of (n - 32) else c)"

fun canonical_from :: "bool \<Rightarrow> string \<Rightarrow> string" where
  "canonical_from up [] = []"
| "canonical_from up (c # cs) =
     (if up then upper_char c else lower_char c) # canonical_from (c = CHR ''-'') cs"

definition CanonicalHeaderKey :: "string \<Rightarrow> string" where
  "CanonicalHeaderKey k = canonical_from True k"

text \<open>\<open>http.Header\<close>: a map from the canonical name to its values; \<open>Get\<close> reads the first one.\<close>

type_synonym http_header = "(string, string list) gomap"

definition Header_Set :: "string \<Rightarrow> string \<Rightarrow> http_header \<Rightarrow> http_header" where
  "Header_Set k v h = AList.update (CanonicalHeaderKey k) [v] h"

definition Header_Get :: "http_header \<Rightarrow> string \<Rightarrow> string" where
  "Header_Get h k =
     (case map_of h (CanonicalHeaderKey k) of None \<Rightarrow> '''' | Some vs \<Rightarrow> (case vs of [] \<Rightarrow> '''' | v # _ \<Rightarrow> v))"

lemma Header_Get_Set [simp]:
  "Header_Get (Header_Set k v h) k' = (if CanonicalHeaderKey k' = CanonicalHeaderKey k then v else Header_Get h k')"
  by (simp add: Header_Get_def Header_Set_def)

record http_request =
  rq_Method :: string
  rq_URL :: string
  rq_Header :: http_header
  rq_Body :: string

text \<open>\<open>rs_Body\<close>: the bytes the body yields until its end or an error; \<open>None\<close> for a nil body.\<close>

record http_response =
  rs_StatusCode :: int
  rs_Body :: "string option"

text \<open>The table of \<open>net/http/status.go\<close>.\<close>

definition status_texts :: "(int \<times> string) list" where
  "status_texts =
     [(100, ''Continue''), (101, ''Switching Protocols''), (102, ''Processing''), (103, ''Early Hints''),
      (200, ''OK''), (201, ''Created''), (202, ''Accepted''), (203, ''Non-Authoritative Information''),
      (204, ''No Content''), (205, ''Reset Content''), (206, ''Partial Content''), (207, ''Multi-Status''),
      (208, ''Already Reported''), (226, ''IM Used''),
      (300, ''Multiple Choices''), (301, ''Moved Permanently''), (302, ''Found''), (303, ''See Other''),
      (304, ''Not Modified''), (305, ''Use Proxy''), (307, ''Temporary Redirect''), (308, ''Permanent Redirect''),
      (400, ''Bad Request''), (401, ''Unauthorized''), (402, ''Payment Required''), (403, ''Forbidden''),
      (404, ''Not Found''), (405, ''Method Not Allowed''), (406, ''Not Acceptable''),
      (407, ''Proxy Authentication Required''), (408, ''Request Timeout''), (409, ''Conflict''), (410, ''Gone''),
      (411, ''Length Required''), (412, ''Precondition Failed''), (413, ''Request Entity Too Large''),
      (414, ''Request URI Too Long''), (415, ''Unsupported Media Type''),
      (416, ''Requested Range Not Satisfiable''), (417, ''Expectation Failed''),
      (418, ''I'' @ [CHR 0x27] @ ''m a teapot''), (421, ''Misdirected Request''), (422, ''Unprocessable Entity''),
      (423, ''Locked''), (424, ''Failed Dependency''), (425, ''Too Early''), (426, ''Upgrade Required''),
      (428, ''Precondition Required''), (429, ''Too Many Requests''), (431, ''Request Header Fields Too Large''),
      (451, ''Unavailable For Legal Reasons''),
      (500, ''Internal Server Error''), (501, ''Not Implemented''), (502, ''Bad Gateway''),
      (503, ''Service Unavailable''), (504, ''Gateway Timeout''), (505, ''HTTP Version Not Supported''),
      (506, ''Variant Also Negotiates''), (507, ''Insufficient Storage''), (508, ''Loop Detected''),
      (510, ''Not Extended''), (511, ''Network Authentication Required'')]"

definition StatusText :: "int \<Rightarrow> string" where
  "StatusText code = (case map_of status_texts code of None \<Rightarrow> '''' | Some s \<Rightarrow> s)"

text \<open>Integer division of Go truncates towards zero.\<close>

definition go_quot :: "int \<Rightarrow> int \<Rightarrow> int" where
  "go_quot a b = (if a < 0 then - ((- a) div b) else a div b)"

section \<open>The dispatcher\<close>

record ('r, 'c, 'h, 'b) dispatcher =
  dp_repo :: "'r repository option"
  dp_policy :: BackoffPolicy
  dp_prom :: "('c, 'h) prom_ops"
  dp_onAttempt :: "(DeliveryAttempt \<Rightarrow> 'b \<Rightarrow> 'b) option"

record ('r, 'c, 'h, 'b) dispatch_state =
  ds_repo :: 'r
  ds_metrics :: "('c, 'h) Metrics option"
  ds_sink :: 'b

record dispatch_env =
  de_ts :: gotime
  de_new_request :: "string \<Rightarrow> goerr option"
  de_start :: gotime
  de_do :: "http_request \<Rightarrow> http_response option \<times> goerr option"
  de_end :: gotime
  de_uuid :: string
  de_record :: env
  de_update :: env

text \<open>The client is not part of the record: a nil client becomes the safe one of \<open>ssrf.go\<close>.\<close>

definition NewDispatcher ::
    "'r repository option \<Rightarrow> BackoffPolicy \<Rightarrow> ('c, 'h) prom_ops \<Rightarrow> ('r, 'c, 'h, 'b) dispatcher" where
  "NewDispatcher repo policy P =
     \<lparr>dp_repo = repo,
      dp_policy = (if bp_MaxRetries policy = 0 then DefaultBackoffPolicy else policy),
      dp_prom = P, dp_onAttempt = None\<rparr>"

definition WithAttemptCallback ::
    "(DeliveryAttempt \<Rightarrow> 'b \<Rightarrow> 'b) option \<Rightarrow> ('r, 'c, 'h, 'b) dispatcher \<Rightarrow> ('r, 'c, 'h, 'b) dispatcher" where
  "WithAttemptCallback cb d = d\<lparr>dp_onAttempt := cb\<rparr>"

text \<open>The signed request of an attempt.\<close>

definition dispatch_request :: "gotime \<Rightarrow> Endpoint \<Rightarrow> Event \<Rightarrow> http_request" where
  "dispatch_request ts endpoint event =
     (let sigHeader = SignPayload (ep_Secret endpoint) ts (ev_Payload event) in
      \<lparr>rq_Method = ''POST'', rq_URL = ep_URL endpoint,
       rq_Header =
         Header_Set ''X-Webhook-Signature'' sigHeader
         (Header_Set ''X-Webhook-Timestamp'' (show_int ts)
         (Header_Set ''X-Webhook-ID'' (ev_ID event)
         (Header_Set ''User-Agent'' ''WebhookEngine-Dispatcher/1.0''
         (Header_Set ''Content-Type'' ''application/json'' [])))),
       rq_Body = ev_Payload event\<rparr>)"

text \<open>The status and the error message of an outcome.\<close>

definition classify ::
    "BackoffPolicy \<Rightarrow> int \<Rightarrow> int \<Rightarrow> goerr option \<Rightarrow> DeliveryStatus \<times> string" where
  "classify policy attemptNum statusCode httpErr =
     (if httpErr = None \<and> statusCode \<ge> 200 \<and> statusCode < 300 then (DeliveryStatusSuccess, '''')
      else
        let errMsg = (case httpErr of
              Some err \<Rightarrow> error_msg err
            | None \<Rightarrow> ''HTTP '' @ show_int statusCode @ '': '' @ StatusText statusCode)
        in if IsRetryable statusCode httpErr \<and> attemptNum < bp_MaxRetries policy
           then (DeliveryStatusRetrying, errMsg)
           else (DeliveryStatusFailed, errMsg))"

text \<open>Recording the attempt and the event's status: the error of the recording, if any.\<close>

definition dispatch_store ::
    "'r repository option \<Rightarrow> dispatch_env \<Rightarrow> Event \<Rightarrow> DeliveryAttempt \<Rightarrow> 'r \<Rightarrow> goerr option \<times> 'r" where
  "dispatch_store repo de event attempt r =
     (case repo of
        None \<Rightarrow> (None, r)
      | Some R \<Rightarrow>
          (case rp_RecordDeliveryAttempt R (de_record de) attempt r of
             (Some recErr, r1) \<Rightarrow> (Some (Errorf ''failed to record delivery attempt'' recErr), r1)
           | (None, r1) \<Rightarrow>
               (None,
                if at_Status attempt = DeliveryStatusSuccess
                then snd (rp_UpdateEventStatus R (de_update de) (ev_ID event) EventStatusDelivered r1)
                else if at_Status attempt = DeliveryStatusFailed
                then snd (rp_UpdateEventStatus R (de_update de) (ev_ID event) EventStatusDLQ r1)
                else r1)))"

definition dispatch_metrics ::
    "('c, 'h) prom_ops \<Rightarrow> duration \<Rightarrow> Endpoint \<Rightarrow> DeliveryAttempt \<Rightarrow>
       ('c, 'h) Metrics option \<Rightarrow> ('c, 'h) Metrics option" where
  "dispatch_metrics P d endpoint attempt m =
     (let m1 = ObserveDeliveryDuration P (ep_TenantID endpoint) (ep_ID endpoint) (of_int d / 1000000000) m in
      if at_Status attempt = DeliveryStatusSuccess
      then IncDelivered P (ep_TenantID endpoint) (ep_ID endpoint) (show_int (at_ResponseStatus attempt)) m1
      else if at_Status attempt = DeliveryStatusFailed
      then IncDLQ P (ep_TenantID endpoint) (ep_ID endpoint)
             (if at_ErrorMessage attempt = '''' then ''status_'' @ show_int (at_ResponseStatus attempt)
              else at_ErrorMessage attempt) m1
      else m1)"

definition Dispatch ::
    "('r, 'c, 'h, 'b) dispatcher \<Rightarrow> dispatch_env \<Rightarrow> Endpoint option \<Rightarrow> Event option \<Rightarrow> int \<Rightarrow>
       ('r, 'c, 'h, 'b) dispatch_state \<Rightarrow>
       (DeliveryAttempt option \<times> goerr option) \<times> ('r, 'c, 'h, 'b) dispatch_state" where
  "Dispatch d de endpoint_opt event_opt attemptNum0 s =
     (case endpoint_opt of
        None \<Rightarrow> ((None, Some (ErrorsNew ''endpoint cannot be nil'')), s)
      | Some endpoint \<Rightarrow>
     (case event_opt of
        None \<Rightarrow> ((None, Some (ErrorsNew ''event cannot be nil'')), s)
      | Some event \<Rightarrow>
          let attemptNum = (if attemptNum0 \<le> 0 then 1 else attemptNum0);
              ts = time_Unix (de_ts de)
          in (case de_new_request de (ep_URL endpoint) of
                Some err \<Rightarrow> ((None, Some (Errorf ''failed to create http request'' err)), s)
              | None \<Rightarrow>
                  let (resp, httpErr) = de_do de (dispatch_request ts endpoint event);
                      d_ns = de_end de - de_start de;
                      durationMs = go_quot d_ns 1000000;
                      statusCode = (case resp of None \<Rightarrow> 0 | Some rs \<Rightarrow> rs_StatusCode rs);
                      respBody = (case resp of
                          None \<Rightarrow> ''''
                        | Some rs \<Rightarrow> (case rs_Body rs of None \<Rightarrow> '''' | Some b \<Rightarrow> take 4096 b));
                      (status, errMsg) = classify (dp_policy d) attemptNum statusCode httpErr;
                      attempt = \<lparr>at_ID = ''att_'' @ de_uuid de, at_EventID = ev_ID event,
                        at_EndpointID = ep_ID endpoint, at_AttemptNumber = attemptNum,
                        at_ResponseStatus = statusCode, at_ResponseBody = respBody,
                        at_DurationMs = durationMs, at_Status = status, at_ErrorMessage = errMsg,
                        at_ExecutedAt = de_start de\<rparr>
                  in (case dispatch_store (dp_repo d) de event attempt (ds_repo s) of
                        (Some err, r1) \<Rightarrow> ((Some attempt, Some err), s\<lparr>ds_repo := r1\<rparr>)
                      | (None, r1) \<Rightarrow>
                          ((Some attempt, None),
                           s\<lparr>ds_repo := r1,
                             ds_metrics := dispatch_metrics (dp_prom d) d_ns endpoint attempt (ds_metrics s),
                             ds_sink := (case dp_onAttempt d of
                                 None \<Rightarrow> ds_sink s
                               | Some cb \<Rightarrow> cb attempt (ds_sink s))\<rparr>)))))"

section \<open>What an attempt does\<close>

definition outcome_code :: "http_response option \<Rightarrow> int" where
  "outcome_code resp = (case resp of None \<Rightarrow> 0 | Some rs \<Rightarrow> rs_StatusCode rs)"

definition outcome_body :: "http_response option \<Rightarrow> string" where
  "outcome_body resp =
     (case resp of None \<Rightarrow> '''' | Some rs \<Rightarrow> (case rs_Body rs of None \<Rightarrow> '''' | Some b \<Rightarrow> take 4096 b))"

text \<open>The attempt an outcome gives.\<close>

definition attempt_of :: "BackoffPolicy \<Rightarrow> dispatch_env \<Rightarrow> Endpoint \<Rightarrow> Event \<Rightarrow> int \<Rightarrow> DeliveryAttempt" where
  "attempt_of policy de endpoint event n =
     (let oc = de_do de (dispatch_request (time_Unix (de_ts de)) endpoint event);
          cl = classify policy n (outcome_code (fst oc)) (snd oc)
      in \<lparr>at_ID = ''att_'' @ de_uuid de, at_EventID = ev_ID event, at_EndpointID = ep_ID endpoint,
          at_AttemptNumber = n, at_ResponseStatus = outcome_code (fst oc),
          at_ResponseBody = outcome_body (fst oc), at_DurationMs = go_quot (de_end de - de_start de) 1000000,
          at_Status = fst cl, at_ErrorMessage = snd cl, at_ExecutedAt = de_start de\<rparr>)"

lemma Dispatch_attempt:
  assumes "de_new_request de (ep_URL endpoint) = None"
  shows "Dispatch d de (Some endpoint) (Some event) n s =
    (let a = attempt_of (dp_policy d) de endpoint event (if n \<le> 0 then 1 else n) in
     case dispatch_store (dp_repo d) de event a (ds_repo s) of
       (Some err, r1) \<Rightarrow> ((Some a, Some err), s\<lparr>ds_repo := r1\<rparr>)
     | (None, r1) \<Rightarrow>
         ((Some a, None),
          s\<lparr>ds_repo := r1,
            ds_metrics := dispatch_metrics (dp_prom d) (de_end de - de_start de) endpoint a (ds_metrics s),
            ds_sink := (case dp_onAttempt d of None \<Rightarrow> ds_sink s | Some cb \<Rightarrow> cb a (ds_sink s))\<rparr>))"
  using assms
  by (simp add: Dispatch_def attempt_of_def outcome_code_def outcome_body_def Let_def case_prod_unfold)

text \<open>The status of an event after an attempt that was recorded.\<close>

fun status_after :: "DeliveryStatus \<Rightarrow> EventStatus \<Rightarrow> EventStatus" where
  "status_after DeliveryStatusSuccess st = EventStatusDelivered"
| "status_after DeliveryStatusFailed st = EventStatusDLQ"
| "status_after DeliveryStatusRetrying st = st"

context repository_contract
begin

text \<open>Whatever fails, storing an attempt changes at most the status of its event.\<close>

lemma store_frame:
  assumes "inv r" "dispatch_store (Some R) de event a r = (eo, r')"
  shows "inv r' \<and> obs r' = obs r \<and>
    (evs r' = evs r \<or>
     (\<exists>v. eo = None \<and> at_Status a \<noteq> DeliveryStatusRetrying \<and> evs r (ev_ID event) = Some v \<and>
        evs r' = (evs r)(ev_ID event \<mapsto> v\<lparr>ev_Status := status_after (at_Status a) (ev_Status v)\<rparr>)))"
proof -
  obtain ro r1 where rec: "rp_RecordDeliveryAttempt R (de_record de) a r = (ro, r1)" by fastforce
  have f: "inv r1" "evs r1 = evs r" "obs r1 = obs r" using record_frame [OF assms(1) rec] by auto
  have upd: "inv r2 \<and> obs r2 = obs r \<and>
      (evs r2 = evs r \<or> (\<exists>v. evs r (ev_ID event) = Some v \<and> evs r2 = (evs r)(ev_ID event \<mapsto> v\<lparr>ev_Status := st\<rparr>)))"
    if "rp_UpdateEventStatus R e (ev_ID event) st r1 = (uo, r2)" for e st uo r2
    using that f update_ok [OF f(1)] update_error [OF f(1)] by (cases uo) metis+
  show ?thesis
  proof (cases ro)
    case (Some err)
    then show ?thesis using assms(2) rec f by (auto simp: dispatch_store_def)
  next
    case None
    then have eo: "eo = None" and r': "r' = (if at_Status a = DeliveryStatusSuccess
        then snd (rp_UpdateEventStatus R (de_update de) (ev_ID event) EventStatusDelivered r1)
        else if at_Status a = DeliveryStatusFailed
        then snd (rp_UpdateEventStatus R (de_update de) (ev_ID event) EventStatusDLQ r1)
        else r1)"
      using assms(2) rec by (simp_all add: dispatch_store_def)
    show ?thesis
      using eo r' f upd [OF surjective_pairing] by (cases "at_Status a") auto
  qed
qed

lemma dispatch_frame:
  assumes "inv (ds_repo s)" "dp_repo d = Some R" "Dispatch d de epo evo n s = ((ao, eo), s')"
  shows "inv (ds_repo s') \<and> obs (ds_repo s') = obs (ds_repo s) \<and>
    (\<forall>i. (\<forall>event. evo = Some event \<longrightarrow> ev_ID event \<noteq> i) \<longrightarrow> evs (ds_repo s') i = evs (ds_repo s) i) \<and>
    (\<forall>i. evs (ds_repo s') i = None \<longleftrightarrow> evs (ds_repo s) i = None)"
proof (cases "\<exists>endpoint event. epo = Some endpoint \<and> evo = Some event \<and> de_new_request de (ep_URL endpoint) = None")
  case False
  then have "s' = s"
    using assms(3) by (auto simp: Dispatch_def Let_def split: option.splits)
  then show ?thesis using assms(1) by simp
next
  case True
  then obtain endpoint event where e: "epo = Some endpoint" "evo = Some event"
    "de_new_request de (ep_URL endpoint) = None" by blast
  obtain a so r1 where st: "dispatch_store (Some R) de event a (ds_repo s) = (so, r1)"
    and s': "ds_repo s' = r1"
    using assms(2,3) e
    by (cases "dispatch_store (Some R) de event
          (attempt_of (dp_policy d) de endpoint event (if n \<le> 0 then 1 else n)) (ds_repo s)")
      (auto simp: Dispatch_attempt Let_def split: option.splits)
  from store_frame [OF assms(1) st] s' e(2) show ?thesis by (auto split: if_splits)
qed

end

section \<open>Properties\<close>

lemma classify_status:
  "fst (classify policy n code err) = DeliveryStatusSuccess \<longleftrightarrow> err = None \<and> 200 \<le> code \<and> code < 300"
  "fst (classify policy n code err) = DeliveryStatusRetrying \<longleftrightarrow>
     (err \<noteq> None \<or> code = 408 \<or> code = 429 \<or> 500 \<le> code \<and> code < 600) \<and> n < bp_MaxRetries policy"
  by (auto simp: classify_def IsRetryable_def Let_def)

text \<open>C13: on the in-memory repository, when the contexts of the two repository calls are live, the
  identifier of the attempt is fresh and the event is stored: the attempt is returned without error
  and describes what happened (event, endpoint, number, response status, first 4096 bytes of the
  body, duration, error text); it is recorded under its identifier, a zero time replaced by the
  repository's; and its outcome decides the event's status: a 2xx response without error makes the
  event DELIVERED; a network error, 408, 429 or 5xx leaves the status alone while attempts remain;
  everything else moves the event to the DLQ. Nothing else of the repository changes, the metrics of
  the attempt are counted once, and the callback sees the attempt once.\<close>

theorem dispatch_outcome:
  assumes "dp_repo d = Some memory_repository" "de_new_request de (ep_URL endpoint) = None"
    and "live (de_record de)" "live (de_update de)" "0 < n"
    and "map_of (mr_attempts (ds_repo s)) (''att_'' @ de_uuid de) = None"
    and "mr_evs (ds_repo s) (ev_ID event) = Some v"
    and "de_do de (dispatch_request (time_Unix (de_ts de)) endpoint event) = (resp, err)"
    and "Dispatch d de (Some endpoint) (Some event) n s = (res, s')"
  shows "\<exists>a stored evs'. res = (Some a, None) \<and>
    at_ID a = ''att_'' @ de_uuid de \<and> at_EventID a = ev_ID event \<and> at_EndpointID a = ep_ID endpoint \<and>
    at_AttemptNumber a = n \<and> at_ResponseStatus a = outcome_code resp \<and> at_ResponseBody a = outcome_body resp \<and>
    at_DurationMs a = go_quot (de_end de - de_start de) 1000000 \<and> at_ExecutedAt a = de_start de \<and>
    at_ErrorMessage a =
      (if at_Status a = DeliveryStatusSuccess then ''''
       else case err of Some x \<Rightarrow> error_msg x
         | None \<Rightarrow> ''HTTP '' @ show_int (outcome_code resp) @ '': '' @ StatusText (outcome_code resp)) \<and>
    (at_Status a = DeliveryStatusSuccess \<longleftrightarrow> err = None \<and> 200 \<le> outcome_code resp \<and> outcome_code resp < 300) \<and>
    (at_Status a = DeliveryStatusRetrying \<longleftrightarrow>
       (err \<noteq> None \<or> outcome_code resp = 408 \<or> outcome_code resp = 429 \<or>
        500 \<le> outcome_code resp \<and> outcome_code resp < 600) \<and> n < bp_MaxRetries (dp_policy d)) \<and>
    stored = (if IsZero (de_start de) then a\<lparr>at_ExecutedAt := e_now (de_record de)\<rparr> else a) \<and>
    ds_repo s' = (ds_repo s)\<lparr>mr_attempts := AList.update (at_ID a) stored (mr_attempts (ds_repo s)),
      mr_events := evs'\<rparr> \<and>
    map_of evs' =
      (mr_evs (ds_repo s))(ev_ID event \<mapsto> v\<lparr>ev_Status := status_after (at_Status a) (ev_Status v)\<rparr>) \<and>
    ds_metrics s' = dispatch_metrics (dp_prom d) (de_end de - de_start de) endpoint a (ds_metrics s) \<and>
    ds_sink s' = (case dp_onAttempt d of None \<Rightarrow> ds_sink s | Some cb \<Rightarrow> cb a (ds_sink s))"
proof -
  define a where "a = attempt_of (dp_policy d) de endpoint event n"
  define stored where "stored = (if IsZero (de_start de) then a\<lparr>at_ExecutedAt := e_now (de_record de)\<rparr> else a)"
  define evs' where "evs' = (if at_Status a = DeliveryStatusRetrying then mr_events (ds_repo s)
     else AList.update (ev_ID event) (v\<lparr>ev_Status := status_after (at_Status a) (ev_Status v)\<rparr>) (mr_events (ds_repo s)))"
  define m where "m = (ds_repo s)\<lparr>mr_attempts := AList.update (at_ID a) stored (mr_attempts (ds_repo s))\<rparr>"
  have st: "at_Status a = fst (classify (dp_policy d) n (outcome_code resp) err)"
    "at_ErrorMessage a = snd (classify (dp_policy d) n (outcome_code resp) err)"
    "at_ID a = ''att_'' @ de_uuid de" "at_EventID a = ev_ID event" "at_EndpointID a = ep_ID endpoint"
    "at_AttemptNumber a = n" "at_ResponseStatus a = outcome_code resp" "at_ResponseBody a = outcome_body resp"
    "at_DurationMs a = go_quot (de_end de - de_start de) 1000000" "at_ExecutedAt a = de_start de"
    using assms(8) by (simp_all add: a_def attempt_of_def Let_def)
  note cl = classify_status [of "dp_policy d" n "outcome_code resp" err, folded st(1)]
  have msg: "at_ErrorMessage a =
      (if at_Status a = DeliveryStatusSuccess then ''''
       else case err of Some x \<Rightarrow> error_msg x
         | None \<Rightarrow> ''HTTP '' @ show_int (outcome_code resp) @ '': '' @ StatusText (outcome_code resp))"
    unfolding st(1,2) by (auto simp: classify_def Let_def)
  have rec: "mr_RecordDeliveryAttempt (de_record de) a (ds_repo s) = (None, m)"
    using assms(3,6) st(3,10) by (simp add: mr_RecordDeliveryAttempt_def Let_def m_def stored_def)
  have upd: "mr_UpdateEventStatus (de_update de) (ev_ID event) stt m =
      (None, m\<lparr>mr_events := AList.update (ev_ID event) (v\<lparr>ev_Status := stt\<rparr>) (mr_events (ds_repo s))\<rparr>)" for stt
    using assms(4,7) by (simp add: mr_UpdateEventStatus_def m_def)
  have m: "m\<lparr>mr_events := mr_events (ds_repo s)\<rparr> = m" by (simp add: m_def)
  have store: "dispatch_store (Some memory_repository) de event a (ds_repo s) = (None, m\<lparr>mr_events := evs'\<rparr>)"
    by (cases "at_Status a") (simp_all add: dispatch_store_def memory_repository_def rec upd evs'_def m)
  have evs': "map_of evs' = (mr_evs (ds_repo s))(ev_ID event \<mapsto> v\<lparr>ev_Status := status_after (at_Status a) (ev_Status v)\<rparr>)"
    using assms(7) by (cases "at_Status a") (auto simp: evs'_def update_conv')
  have "res = (Some a, None) \<and> s' = s\<lparr>ds_repo := m\<lparr>mr_events := evs'\<rparr>,
      ds_metrics := dispatch_metrics (dp_prom d) (de_end de - de_start de) endpoint a (ds_metrics s),
      ds_sink := (case dp_onAttempt d of None \<Rightarrow> ds_sink s | Some cb \<Rightarrow> cb a (ds_sink s))\<rparr>"
    using assms(5,9) store unfolding Dispatch_attempt [OF assms(2)] assms(1) Let_def a_def
    by (auto split: option.splits)
  then show ?thesis
    using evs' cl st(3-10) msg by (intro exI [of _ a] exI [of _ stored] exI [of _ evs']) (simp add: stored_def m_def)
qed

lemma status_failed: "st \<noteq> DeliveryStatusSuccess \<Longrightarrow> st \<noteq> DeliveryStatusRetrying \<Longrightarrow> st = DeliveryStatusFailed"
  by (cases st) simp_all

text \<open>The deliveries of the examples.\<close>

definition endpoint0 :: Endpoint where
  "endpoint0 = \<lparr>ep_ID = ''ep1'', ep_TenantID = ''acme'', ep_URL = ''http://x'', ep_Secret = ''whsec'',
     ep_RateLimit = 100, ep_IsActive = True, ep_CreatedAt = 1, ep_UpdatedAt = 1\<rparr>"

definition delivery_env :: "http_response option \<times> goerr option \<Rightarrow> dispatch_env" where
  "delivery_env oc = \<lparr>de_ts = 10, de_new_request = (\<lambda>_. None), de_start = 10, de_do = (\<lambda>_. oc), de_end = 20,
     de_uuid = ''u1'', de_record = env0, de_update = env0\<rparr>"

definition dispatcher0 :: "(memory_repo, string list \<Rightarrow> nat, nat, DeliveryAttempt list) dispatcher" where
  "dispatcher0 = WithAttemptCallback (Some (\<lambda>a log. log @ [a]))
     (NewDispatcher (Some memory_repository) DefaultBackoffPolicy counting_prom)"

definition delivery_state :: "memory_repo \<Rightarrow> (memory_repo, string list \<Rightarrow> nat, nat, DeliveryAttempt list) dispatch_state" where
  "delivery_state m = \<lparr>ds_repo = m, ds_metrics = Some (NewMetrics counting_prom), ds_sink = []\<rparr>"

theorem dispatch_outcome_witness:
  "\<exists>res s'. Dispatch dispatcher0 (delivery_env (Some \<lparr>rs_StatusCode = 503, rs_Body = None\<rparr>, None))
       (Some endpoint0) (Some event0) 5 (delivery_state repo1) = (res, s') \<and>
     (\<exists>w. mr_evs (ds_repo s') ''ev1'' = Some w \<and> ev_Status w = EventStatusDLQ)"
proof -
  let ?oc = "(Some \<lparr>rs_StatusCode = 503, rs_Body = None\<rparr> :: http_response option, None :: goerr option)"
  obtain res s' where D: "Dispatch dispatcher0 (delivery_env ?oc) (Some endpoint0) (Some event0) 5 (delivery_state repo1) = (res, s')"
    by fastforce
  have v: "mr_evs (ds_repo (delivery_state repo1)) (ev_ID event0) = Some (event0\<lparr>ev_CreatedAt := 1000\<rparr>)"
    by (simp add: delivery_state_def repo1_eval event0_def)
  have b: "bp_MaxRetries (dp_policy dispatcher0) = 5" and
    f: "map_of (mr_attempts (ds_repo (delivery_state repo1))) (''att_'' @ de_uuid (delivery_env ?oc)) = None"
    by (simp_all add: dispatcher0_def NewDispatcher_def WithAttemptCallback_def DefaultBackoffPolicy_def
        delivery_state_def repo1_eval NewMemoryRepository_def)
  have p: "dp_repo dispatcher0 = Some memory_repository" "de_new_request (delivery_env ?oc) (ep_URL endpoint0) = None"
    "live (de_record (delivery_env ?oc))" "live (de_update (delivery_env ?oc))" "(0 :: int) < 5"
    "de_do (delivery_env ?oc) (dispatch_request (time_Unix (de_ts (delivery_env ?oc))) endpoint0 event0) = ?oc"
    by (simp_all add: dispatcher0_def NewDispatcher_def WithAttemptCallback_def delivery_env_def env0_def)
  have c: "outcome_code (Some \<lparr>rs_StatusCode = 503, rs_Body = None\<rparr>) = 503"
    by (simp add: outcome_code_def)
  obtain a :: DeliveryAttempt and stored evs' where
    a: "at_Status a \<noteq> DeliveryStatusSuccess" "at_Status a \<noteq> DeliveryStatusRetrying" and
    e: "ds_repo s' = (ds_repo (delivery_state repo1))\<lparr>mr_attempts := AList.update (at_ID a) stored
        (mr_attempts (ds_repo (delivery_state repo1))), mr_events := evs'\<rparr>"
      "map_of evs' = (mr_evs (ds_repo (delivery_state repo1)))(ev_ID event0 \<mapsto>
        event0\<lparr>ev_CreatedAt := 1000, ev_Status := status_after (at_Status a) (ev_Status (event0\<lparr>ev_CreatedAt := 1000\<rparr>))\<rparr>)"
    using dispatch_outcome [OF p(1-5) f v p(6) D, unfolded b c] by auto
  then have m: "mr_evs (ds_repo s') = (mr_evs (ds_repo (delivery_state repo1)))(ev_ID event0 \<mapsto>
       event0\<lparr>ev_CreatedAt := 1000, ev_Status := EventStatusDLQ\<rparr>)"
    using status_failed [OF a] by simp
  have "mr_evs (ds_repo s') ''ev1'' = Some (event0\<lparr>ev_CreatedAt := 1000, ev_Status := EventStatusDLQ\<rparr>)"
    unfolding m by (simp add: event0_def)
  then show ?thesis using D by auto
qed

text \<open>C27: the request of an attempt carries a signature header that the receiver's \<open>VerifySignature\<close>
  accepts for the endpoint's secret and the delivered body, whenever the receiver's clock is
  within its tolerance of the dispatcher's.\<close>

theorem dispatched_request_verifies:
  assumes "int64_ok (time_Unix t)" "0 \<le> now" "now + tol < 2 ^ 63" "\<bar>now - time_Unix t\<bar> \<le> tol"
  shows "VerifySignature now (ep_Secret endpoint)
     (Header_Get (rq_Header (dispatch_request (time_Unix t) endpoint event)) ''X-Webhook-Signature'')
     (rq_Body (dispatch_request (time_Unix t) endpoint event)) tol"
proof -
  have "Header_Get (rq_Header (dispatch_request (time_Unix t) endpoint event)) ''X-Webhook-Signature'' =
      SignPayload (ep_Secret endpoint) (time_Unix t) (ev_Payload event)"
    by (simp add: dispatch_request_def Let_def)
  moreover have "\<not> outside_tolerance now (time_Unix t) tol"
    using outside_tolerance_exact [of now tol "time_Unix t"] assms by (auto simp: outside_tolerance_def)
  ultimately show ?thesis
    using assms(1) by (simp add: dispatch_request_def VerifySignature_def SignPayload_scan ParseInt64_show_int)
qed

theorem dispatched_request_verifies_witness:
  "VerifySignature 1700000100 ''whsec''
     (Header_Get (rq_Header (dispatch_request 1700000000 endpoint0 event0)) ''X-Webhook-Signature'') ''{}'' 300"
  using dispatched_request_verifies [of "(1700000000 + 62135596800) * 1000000000" 1700000100 300 endpoint0 event0]
  by (simp add: time_Unix_def int64_ok_def dispatch_request_def endpoint0_def event0_def)

text \<open>When the attempt cannot be recorded (the context ended during the request) its outcome is
  lost: the attempt is returned with an error, a delivered event keeps its status, and neither the
  metrics nor the callback hear of it.\<close>

theorem unrecorded_attempt_lost:
  assumes "dp_repo d = Some memory_repository" "de_new_request de (ep_URL endpoint) = None"
    and "e_ctx (de_record de) = Some err"
  shows "\<exists>a. Dispatch d de (Some endpoint) (Some event) n s =
     ((Some a, Some (Errorf ''failed to record delivery attempt'' err)), s) \<and>
     at_ResponseStatus a =
       outcome_code (fst (de_do de (dispatch_request (time_Unix (de_ts de)) endpoint event)))"
  using assms
  by (simp add: Dispatch_attempt dispatch_store_def memory_repository_def mr_RecordDeliveryAttempt_def
      attempt_of_def Let_def)

theorem unrecorded_attempt_lost_witness:
  "\<exists>a. Dispatch dispatcher0 ((delivery_env (Some \<lparr>rs_StatusCode = 200, rs_Body = None\<rparr>, None))
         \<lparr>de_record := env0\<lparr>e_ctx := Some CtxCanceled\<rparr>\<rparr>) (Some endpoint0) (Some event0) 1 (delivery_state repo1) =
     ((Some a, Some (Errorf ''failed to record delivery attempt'' CtxCanceled)), delivery_state repo1) \<and>
     at_ResponseStatus a = 200"
  using unrecorded_attempt_lost [of dispatcher0 "(delivery_env (Some \<lparr>rs_StatusCode = 200, rs_Body = None\<rparr>, None))
         \<lparr>de_record := env0\<lparr>e_ctx := Some CtxCanceled\<rparr>\<rparr>" endpoint0 CtxCanceled event0 1 "delivery_state repo1"]
  by (simp add: dispatcher0_def NewDispatcher_def WithAttemptCallback_def delivery_env_def outcome_code_def)

end
