(* ===== verification/Wire.thy ===== *)
theory Wire
  imports Domain Go_JsonCodec
begin

text \<open>
  The JSON form of the entities, as the tags of \<open>internal/domain\<close> give it: field names, their order,
  and the fields left out when they are empty. \<open>None\<close> is an encoding error, which only a time
  beyond the year 9999 causes.
\<close>

definition json_time :: "gotime \<Rightarrow> json option" where
  "json_time t = map_option JString (time_json t)"

text \<open>A field with \<open>omitempty\<close>.\<close>

definition omitempty :: "bool \<Rightarrow> string \<Rightarrow> json \<Rightarrow> (string \<times> json) list" where
  "omitempty isEmpty k v = (if isEmpty then [] else [(k, v)])"

definition Endpoint_json :: "Endpoint \<Rightarrow> json option" where
  "Endpoint_json e =
     (case (json_time (ep_CreatedAt e), json_time (ep_UpdatedAt e)) of
        (Some created, Some updated) \<Rightarrow>
          Some (JObject
            [(''id'', JString (ep_ID e)), (''tenant_id'', JString (ep_TenantID e)),
             (''url'', JString (ep_URL e)), (''secret'', JString (ep_Secret e)),
             (''rate_limit'', JInt (ep_RateLimit e)), (''is_active'', JBool (ep_IsActive e)),
             (''created_at'', created), (''updated_at'', updated)])
      | _ \<Rightarrow> None)"

text \<open>The payload is a byte slice: base64, as every payload of a stored event is not nil.\<close>

definition Event_json :: "Event \<Rightarrow> json option" where
  "Event_json v =
     map_option (\<lambda>created. JObject
       ([(''id'', JString (ev_ID v)), (''tenant_id'', JString (ev_TenantID v)),
         (''event_type'', JString (ev_EventType v))] @
        omitempty (ev_IdempotencyKey v = []) ''idempotency_key'' (JString (ev_IdempotencyKey v)) @
        [(''payload'', JString (base64 (ev_Payload v))),
         (''status'', JString (EventStatus_string (ev_Status v))), (''created_at'', created)]))
       (json_time (ev_CreatedAt v))"

definition DeliveryAttempt_json :: "DeliveryAttempt \<Rightarrow> json option" where
  "DeliveryAttempt_json a =
     map_option (\<lambda>executed. JObject
       ([(''id'', JString (at_ID a)), (''event_id'', JString (at_EventID a)),
         (''endpoint_id'', JString (at_EndpointID a)), (''attempt_number'', JInt (at_AttemptNumber a))] @
        omitempty (at_ResponseStatus a = 0) ''response_status'' (JInt (at_ResponseStatus a)) @
        omitempty (at_ResponseBody a = []) ''response_body'' (JString (at_ResponseBody a)) @
        [(''duration_ms'', JInt (at_DurationMs a)),
         (''status'', JString (DeliveryStatus_string (at_Status a)))] @
        omitempty (at_ErrorMessage a = []) ''error_message'' (JString (at_ErrorMessage a)) @
        [(''executed_at'', executed)]))
       (json_time (at_ExecutedAt a))"

text \<open>A slice, which fails when one of its elements does.\<close>

fun json_list :: "('a \<Rightarrow> json option) \<Rightarrow> 'a list \<Rightarrow> json list option" where
  "json_list f [] = Some []"
| "json_list f (x # xs) =
     (case f x of None \<Rightarrow> None | Some j \<Rightarrow> map_option (Cons j) (json_list f xs))"

end
