(* ===== verification/Sse.thy ===== *)
theory Sse
  imports Dispatcher Wire "HOL-Library.Sublist"
begin

text \<open>
  The live stream of \<open>internal/api/stream.go\<close>: the broker with its registered client channels, the
  non-blocking broadcast, and the connections that \<open>ServeHTTP\<close> serves, as a step function over
  labels that interleave them in any order. Lemmas: bounded buffers, what a client receives, and
  which clients are registered.
\<close>

definition DefaultPingInterval :: duration where
  "DefaultPingInterval = 15 * Second"

definition DefaultClientBufferSize :: nat where
  "DefaultClientBufferSize = 64"

section \<open>The broker\<close>

text \<open>
  A channel is a number; the store of the channels holds what is buffered in each. A channel of
  the broker is buffered with \<open>DefaultClientBufferSize\<close> places, and nobody closes one.
\<close>

type_synonym channels = "nat \<Rightarrow> DeliveryAttempt list"

record sse_broker =
  sb_clients :: "(nat, unit) gomap"
  sb_pingInterval :: duration

definition NewSSEBroker :: sse_broker where
  "NewSSEBroker = \<lparr>sb_clients = [], sb_pingInterval = DefaultPingInterval\<rparr>"

definition NewSSEBrokerWithPingInterval :: "duration \<Rightarrow> sse_broker" where
  "NewSSEBrokerWithPingInterval interval =
     \<lparr>sb_clients = [], sb_pingInterval = (if interval \<le> 0 then DefaultPingInterval else interval)\<rparr>"

definition RegisterClient :: "nat \<Rightarrow> sse_broker \<Rightarrow> sse_broker" where
  "RegisterClient ch b = b\<lparr>sb_clients := AList.update ch () (sb_clients b)\<rparr>"

definition UnregisterClient :: "nat \<Rightarrow> sse_broker \<Rightarrow> sse_broker" where
  "UnregisterClient ch b = b\<lparr>sb_clients := AList.delete ch (sb_clients b)\<rparr>"

definition ClientCount :: "sse_broker \<Rightarrow> nat" where
  "ClientCount b = length (sb_clients b)"

text \<open>The select with a default: a full channel drops the attempt.\<close>

definition try_send :: "DeliveryAttempt \<Rightarrow> channels \<Rightarrow> nat \<Rightarrow> channels" where
  "try_send attempt chans ch =
     (if length (chans ch) < DefaultClientBufferSize then chans(ch := chans ch @ [attempt]) else chans)"

definition Broadcast ::
    "(nat \<Rightarrow> nat list) \<Rightarrow> DeliveryAttempt option \<Rightarrow> sse_broker \<Rightarrow> channels \<Rightarrow> channels" where
  "Broadcast ord attempt b chans =
     (case attempt of
        None \<Rightarrow> chans
      | Some a \<Rightarrow> foldl (try_send a) chans (map fst (go_range ord (sb_clients b))))"

section \<open>Connections\<close>

text \<open>
  What a response writer holds: header, status and the chunks written to the body.
\<close>

record http_writer =
  w_Header :: http_header
  w_Code :: int
  w_Body :: "string list"

definition sse_header :: "http_header \<Rightarrow> http_header" where
  "sse_header h =
     Header_Set ''X-Accel-Buffering'' ''no''
     (Header_Set ''Access-Control-Allow-Origin'' ''*''
     (Header_Set ''Connection'' ''keep-alive''
     (Header_Set ''Cache-Control'' ''no-cache''
     (Header_Set ''Content-Type'' ''text/event-stream'' h))))"

definition ping_chunk :: string where
  "ping_chunk = '': ping'' @ [CHR 0x0A, CHR 0x0A]"

definition data_chunk :: "string \<Rightarrow> string" where
  "data_chunk data = ''data: '' @ data @ [CHR 0x0A, CHR 0x0A]"

text \<open>A connection: its channel, its writer, and whether its handler still runs.\<close>

record connection =
  cn_chan :: nat
  cn_writer :: http_writer
  cn_open :: bool

record sse_state =
  se_broker :: sse_broker
  se_chans :: channels
  se_next :: nat
  se_conns :: "nat \<Rightarrow> connection option"

text \<open>
  The start of \<open>ServeHTTP\<close> on a writer that can flush: a fresh channel is registered. A writer that
  cannot flush is refused with an error page.
\<close>

definition http_Error :: "http_writer \<Rightarrow> string \<Rightarrow> int \<Rightarrow> http_writer" where
  "http_Error w msg status =
     \<lparr>w_Header = Header_Set ''X-Content-Type-Options'' ''nosniff''
        (Header_Set ''Content-Type'' ''text/plain; charset=utf-8'' (w_Header w)),
      w_Code = status, w_Body = w_Body w @ [msg @ [CHR 0x0A]]\<rparr>"

definition serve_start :: "bool \<Rightarrow> http_writer \<Rightarrow> nat \<Rightarrow> sse_state \<Rightarrow> sse_state" where
  "serve_start flusher w cid s =
     (if \<not> flusher then
        s\<lparr>se_conns := (se_conns s)(cid \<mapsto>
            \<lparr>cn_chan = se_next s, cn_writer = http_Error w ''Streaming unsupported'' 500, cn_open = False\<rparr>)\<rparr>
      else
        s\<lparr>se_broker := RegisterClient (se_next s) (se_broker s),
          se_chans := (se_chans s)(se_next s := []),
          se_next := Suc (se_next s),
          se_conns := (se_conns s)(cid \<mapsto>
            \<lparr>cn_chan = se_next s,
             cn_writer = w\<lparr>w_Header := sse_header (w_Header w), w_Code := 200\<rparr>,
             cn_open = True\<rparr>)\<rparr>)"

text \<open>The return of the handler runs its deferred \<open>UnregisterClient\<close>.\<close>

definition serve_return :: "nat \<Rightarrow> connection \<Rightarrow> sse_state \<Rightarrow> sse_state" where
  "serve_return cid c s =
     s\<lparr>se_broker := UnregisterClient (cn_chan c) (se_broker s),
       se_conns := (se_conns s)(cid \<mapsto> c\<lparr>cn_open := False\<rparr>)\<rparr>"

definition serve_write :: "nat \<Rightarrow> connection \<Rightarrow> bool \<Rightarrow> string \<Rightarrow> sse_state \<Rightarrow> sse_state" where
  "serve_write cid c write_ok chunk s =
     (if \<not> write_ok then serve_return cid c s
      else s\<lparr>se_conns := (se_conns s)(cid \<mapsto>
             c\<lparr>cn_writer := (cn_writer c)\<lparr>w_Body := w_Body (cn_writer c) @ [chunk]\<rparr>\<rparr>)\<rparr>)"

text \<open>
  One turn of the select loop: the context ended, the ticker fired, or an attempt was received
  from the channel, which is possible only when one is buffered.
\<close>

datatype turn = CtxDone | Tick bool | Receive bool

definition serve_turn :: "nat \<Rightarrow> turn \<Rightarrow> sse_state \<Rightarrow> sse_state" where
  "serve_turn cid t s =
     (case se_conns s cid of
        None \<Rightarrow> s
      | Some c \<Rightarrow>
          if \<not> cn_open c then s
          else
            (case t of
               CtxDone \<Rightarrow> serve_return cid c s
             | Tick write_ok \<Rightarrow> serve_write cid c write_ok ping_chunk s
             | Receive write_ok \<Rightarrow>
                 (case se_chans s (cn_chan c) of
                    [] \<Rightarrow> s
                  | a # rest \<Rightarrow>
                      let s1 = s\<lparr>se_chans := (se_chans s)(cn_chan c := rest)\<rparr> in
                      (case DeliveryAttempt_json a of
                         None \<Rightarrow> s1
                       | Some doc \<Rightarrow> serve_write cid c write_ok (data_chunk (encode doc)) s1))))"

section \<open>Runs\<close>

text \<open>
  A new connection takes an identifier no connection had; broadcasts come from the workers.
\<close>

datatype sse_label =
    SseConnect nat bool http_writer
  | SseBroadcast "nat \<Rightarrow> nat list" "DeliveryAttempt option"
  | SseTurn nat turn

fun sse_exec :: "sse_label \<Rightarrow> sse_state \<Rightarrow> sse_state" where
  "sse_exec (SseConnect cid flusher w) s =
     (if se_conns s cid \<noteq> None then s else serve_start flusher w cid s)"
| "sse_exec (SseBroadcast ord a) s = s\<lparr>se_chans := Broadcast ord a (se_broker s) (se_chans s)\<rparr>"
| "sse_exec (SseTurn cid t) s = serve_turn cid t s"

abbreviation sse_run :: "sse_label list \<Rightarrow> sse_state \<Rightarrow> sse_state" where
  "sse_run ls s \<equiv> fold sse_exec ls s"

definition sse_new :: "sse_broker \<Rightarrow> sse_state" where
  "sse_new b = \<lparr>se_broker = b, se_chans = (\<lambda>_. []), se_next = 0, se_conns = (\<lambda>_. None)\<rparr>"

section \<open>The state of the broker\<close>

text \<open>The channel a connection reads while its handler runs.\<close>

definition open_chan :: "sse_state \<Rightarrow> nat \<Rightarrow> nat option" where
  "open_chan s cid =
     (case se_conns s cid of None \<Rightarrow> None | Some c \<Rightarrow> if cn_open c then Some (cn_chan c) else None)"

definition sse_inv :: "sse_state \<Rightarrow> bool" where
  "sse_inv s \<longleftrightarrow> gomap_ok (sb_clients (se_broker s)) \<and>
     (\<forall>ch. length (se_chans s ch) \<le> DefaultClientBufferSize) \<and>
     (\<forall>cid ch. open_chan s cid = Some ch \<longrightarrow> ch < se_next s) \<and>
     (\<forall>i j ch. open_chan s i = Some ch \<longrightarrow> open_chan s j = Some ch \<longrightarrow> i = j) \<and>
     fst ` set (sb_clients (se_broker s)) = ran (open_chan s)"

lemma sse_invD:
  assumes "sse_inv s"
  shows "gomap_ok (sb_clients (se_broker s))" "length (se_chans s ch) \<le> DefaultClientBufferSize"
    and "open_chan s cid = Some ch \<Longrightarrow> ch < se_next s"
    and "open_chan s i = Some ch \<Longrightarrow> open_chan s j = Some ch \<Longrightarrow> i = j"
    and "fst ` set (sb_clients (se_broker s)) = ran (open_chan s)"
  using assms unfolding sse_inv_def by blast+

lemma open_chan_Some:
  "open_chan s cid = Some ch \<longleftrightarrow> (\<exists>c. se_conns s cid = Some c \<and> cn_open c \<and> cn_chan c = ch)"
  by (auto simp: open_chan_def split: option.splits)

lemma foldl_try_send:
  "distinct chs \<Longrightarrow> foldl (try_send a) chans chs ch =
     (if ch \<in> set chs \<and> length (chans ch) < DefaultClientBufferSize then chans ch @ [a] else chans ch)"
  by (induction chs arbitrary: chans) (auto simp: try_send_def)

lemma Broadcast_at:
  assumes "gomap_ok (sb_clients b)" "range_order_ok ord"
  shows "Broadcast ord (Some a) b chans ch =
     (if ch \<in> fst ` set (sb_clients b) \<and> length (chans ch) < DefaultClientBufferSize then chans ch @ [a] else chans ch)"
proof -
  have "distinct (map fst (go_range ord (sb_clients b)))"
    using assms by (simp add: distinct_go_range gomap_ok_def)
  moreover have "set (map fst (go_range ord (sb_clients b))) = fst ` set (sb_clients b)"
    using assms(2) by (simp add: set_go_range)
  ultimately show ?thesis by (simp only: Broadcast_def option.case foldl_try_send)
qed

fun label_ok :: "sse_label \<Rightarrow> bool" where
  "label_ok (SseBroadcast ord a) = range_order_ok ord"
| "label_ok _ = True"

lemma client_keys:
  "fst ` set (sb_clients (RegisterClient ch b)) = insert ch (fst ` set (sb_clients b))"
  "gomap_ok (sb_clients b) \<Longrightarrow> fst ` set (sb_clients (UnregisterClient ch b)) = fst ` set (sb_clients b) - {ch}"
  by (auto simp: RegisterClient_def UnregisterClient_def dom_map_of_conv_image_fst [symmetric])

lemma ran_delete_unique:
  assumes "f k = Some x" "\<And>j. f j = Some x \<Longrightarrow> j = k"
  shows "ran (f(k := None)) = ran f - {x}"
proof
  show "ran (f(k := None)) \<subseteq> ran f - {x}"
    unfolding ran_def using assms(2) by (clarsimp split: if_splits) blast
  show "ran f - {x} \<subseteq> ran (f(k := None))"
    unfolding ran_def using assms(1) by (clarsimp) (metis option.inject)
qed

lemma sse_inv_start:
  assumes "sse_inv s" "se_conns s cid = None"
  shows "sse_inv (serve_start flusher w cid s)"
proof (cases flusher)
  case False
  have "open_chan (serve_start flusher w cid s) = open_chan s"
    using False assms(2) by (auto simp: serve_start_def open_chan_def fun_eq_iff)
  then show ?thesis using assms(1) False by (simp add: sse_inv_def serve_start_def)
next
  case True
  have o: "open_chan (serve_start flusher w cid s) = (open_chan s)(cid \<mapsto> se_next s)"
    using True by (auto simp: serve_start_def open_chan_def fun_eq_iff)
  have "open_chan s cid = None" using assms(2) by (simp add: open_chan_def)
  then have "ran (open_chan (serve_start flusher w cid s)) = insert (se_next s) (ran (open_chan s))"
    unfolding o by (rule ran_map_upd)
  then have keys: "fst ` set (sb_clients (se_broker (serve_start flusher w cid s))) =
      ran (open_chan (serve_start flusher w cid s))"
    using True sse_invD(5) [OF assms(1)] by (simp add: serve_start_def client_keys)
  have old: "open_chan s i \<noteq> Some (se_next s)" for i using sse_invD(3) [OF assms(1)] by blast
  show ?thesis
    unfolding sse_inv_def keys
  proof (intro conjI allI impI refl)
    show "gomap_ok (sb_clients (se_broker (serve_start flusher w cid s)))"
      using True sse_invD(1) [OF assms(1)] by (simp add: serve_start_def RegisterClient_def)
    show "length (se_chans (serve_start flusher w cid s) ch) \<le> DefaultClientBufferSize" for ch
      using True sse_invD(2) [OF assms(1)] by (simp add: serve_start_def)
    show "ch < se_next (serve_start flusher w cid s)" if "open_chan (serve_start flusher w cid s) i = Some ch" for i ch
      using that sse_invD(3) [OF assms(1), of i ch] True unfolding o
      by (simp add: serve_start_def less_Suc_eq split: if_splits)
    show "i = j" if "open_chan (serve_start flusher w cid s) i = Some ch"
        "open_chan (serve_start flusher w cid s) j = Some ch" for i j ch
    proof (cases "i = cid \<or> j = cid")
      case True
      then have "ch = se_next s" using that old [of i] old [of j] unfolding o by (auto simp del: not_Some_eq)
      then show ?thesis using that old unfolding o by (metis fun_upd_other)
    next
      case False
      then show ?thesis using that sse_invD(4) [OF assms(1)] unfolding o by simp
    qed
  qed
qed

lemma sse_inv_return:
  assumes "sse_inv s" "se_conns s cid = Some c" "cn_open c"
  shows "sse_inv (serve_return cid c s)"
proof -
  have o: "open_chan (serve_return cid c s) = (open_chan s)(cid := None)"
    by (auto simp: serve_return_def open_chan_def fun_eq_iff)
  have ch: "open_chan s cid = Some (cn_chan c)" using assms by (simp add: open_chan_def)
  have "ran ((open_chan s)(cid := None)) = ran (open_chan s) - {cn_chan c}"
    using ch sse_invD(4) [OF assms(1)] by (intro ran_delete_unique) blast+
  then have keys: "fst ` set (sb_clients (se_broker (serve_return cid c s))) = ran (open_chan (serve_return cid c s))"
    unfolding o using sse_invD(1,5) [OF assms(1)] by (simp add: serve_return_def client_keys)
  show ?thesis
    unfolding sse_inv_def keys
  proof (intro conjI allI impI refl)
    show "gomap_ok (sb_clients (se_broker (serve_return cid c s)))"
      using sse_invD(1) [OF assms(1)] by (simp add: serve_return_def UnregisterClient_def)
    show "length (se_chans (serve_return cid c s) ch) \<le> DefaultClientBufferSize" for ch
      using sse_invD(2) [OF assms(1)] by (simp add: serve_return_def)
    show "ch < se_next (serve_return cid c s)" if "open_chan (serve_return cid c s) i = Some ch" for i ch
      using that sse_invD(3) [OF assms(1), of i ch] unfolding o by (simp add: serve_return_def split: if_splits)
    show "i = j" if "open_chan (serve_return cid c s) i = Some ch" "open_chan (serve_return cid c s) j = Some ch" for i j ch
      using that sse_invD(4) [OF assms(1), of i ch j] unfolding o by (simp split: if_splits)
  qed
qed

lemma sse_inv_chans:
  assumes "sse_inv s" "\<forall>ch. length (chans ch) \<le> DefaultClientBufferSize"
  shows "sse_inv (s\<lparr>se_chans := chans\<rparr>)"
proof -
  have "open_chan (s\<lparr>se_chans := chans\<rparr>) = open_chan s" by (simp add: open_chan_def fun_eq_iff)
  then show ?thesis using assms by (simp add: sse_inv_def)
qed

lemma sse_inv_write:
  assumes "sse_inv s" "se_conns s cid = Some c" "cn_open c"
  shows "sse_inv (serve_write cid c ok chunk s)"
proof (cases ok)
  case True
  have "open_chan (serve_write cid c ok chunk s) = open_chan s"
    using True assms by (auto simp: serve_write_def open_chan_def fun_eq_iff)
  then show ?thesis using assms(1) True by (simp add: sse_inv_def serve_write_def)
qed (simp add: serve_write_def sse_inv_return [OF assms])

lemma sse_inv_turn:
  assumes "sse_inv s"
  shows "sse_inv (serve_turn cid t s)"
proof (cases "\<exists>c. se_conns s cid = Some c \<and> cn_open c")
  case False
  then show ?thesis using assms by (auto simp: serve_turn_def split: option.splits)
next
  case True
  then obtain c where c: "se_conns s cid = Some c" "cn_open c" by blast
  show ?thesis
  proof (cases t)
    case CtxDone
    then show ?thesis using c sse_inv_return [OF assms c] by (simp add: serve_turn_def)
  next
    case (Tick ok)
    then show ?thesis using c sse_inv_write [OF assms c] by (simp add: serve_turn_def)
  next
    case (Receive ok)
    show ?thesis
    proof (cases "se_chans s (cn_chan c)")
      case Nil
      then show ?thesis using Receive c assms by (simp add: serve_turn_def)
    next
      case (Cons a rest)
      let ?s1 = "s\<lparr>se_chans := (se_chans s)(cn_chan c := rest)\<rparr>"
      have "length rest \<le> DefaultClientBufferSize" using sse_invD(2) [OF assms, of "cn_chan c"] Cons by simp
      then have s1: "sse_inv ?s1" using sse_invD(2) [OF assms] by (intro sse_inv_chans assms) simp
      have "sse_inv (serve_write cid c ok chunk ?s1)" for chunk
        by (rule sse_inv_write [OF s1]) (use c in simp_all)
      then show ?thesis using Receive Cons c s1 by (simp add: serve_turn_def Let_def split: option.split)
    qed
  qed
qed

lemma sse_inv_exec:
  assumes "sse_inv s" "label_ok l"
  shows "sse_inv (sse_exec l s)"
proof (cases l)
  case (SseConnect cid flusher w)
  then show ?thesis using sse_inv_start [OF assms(1)] assms(1) by simp
next
  case (SseBroadcast ord a)
  have "length (Broadcast ord a (se_broker s) (se_chans s) ch) \<le> DefaultClientBufferSize" for ch
    using Broadcast_at [OF sse_invD(1) [OF assms(1)], of ord] sse_invD(2) [OF assms(1), of ch] assms(2) SseBroadcast
    by (cases a) (simp_all add: Broadcast_def)
  then show ?thesis using SseBroadcast sse_inv_chans [OF assms(1)] by simp
next
  case (SseTurn cid t)
  then show ?thesis using sse_inv_turn [OF assms(1)] by simp
qed

lemma sse_inv_run: "sse_inv s \<Longrightarrow> list_all label_ok ls \<Longrightarrow> sse_inv (sse_run ls s)"
  by (induction ls arbitrary: s) (simp_all add: sse_inv_exec)

lemma sse_inv_new: "sb_clients b = [] \<Longrightarrow> sse_inv (sse_new b)"
  by (simp add: sse_inv_def sse_new_def open_chan_def ran_def)

section \<open>What a client receives\<close>

text \<open>The frames of attempts, those that cannot be encoded being skipped; the frames of a body.\<close>

definition frames :: "DeliveryAttempt list \<Rightarrow> string list" where
  "frames as = concat (map (\<lambda>a. case DeliveryAttempt_json a of None \<Rightarrow> [] | Some d \<Rightarrow> [data_chunk (encode d)]) as)"

definition data_chunks :: "connection \<Rightarrow> string list" where
  "data_chunks c = filter (\<lambda>x. x \<noteq> ping_chunk) (w_Body (cn_writer c))"

fun broadcast_of :: "sse_label \<Rightarrow> DeliveryAttempt list" where
  "broadcast_of (SseBroadcast ord (Some a)) = [a]"
| "broadcast_of _ = []"

lemma frames_append [simp]: "frames (as @ bs) = frames as @ frames bs"
  by (simp add: frames_def)

lemma frames_Nil [simp]: "frames [] = []"
  by (simp add: frames_def)

lemma data_not_ping [simp]: "data_chunk d \<noteq> ping_chunk"
  by (simp add: data_chunk_def ping_chunk_def)

text \<open>
  One step of any kind: what the client was sent and what is buffered for it grow together by the
  broadcast of the step, or by nothing when the buffer was full.
\<close>

definition streams :: "sse_state \<Rightarrow> connection \<Rightarrow> DeliveryAttempt list \<Rightarrow> sse_state \<Rightarrow> connection \<Rightarrow> bool" where
  "streams s c bs s' c' \<longleftrightarrow> cn_chan c' = cn_chan c \<and>
     data_chunks c' @ frames (se_chans s' (cn_chan c)) = data_chunks c @ frames (se_chans s (cn_chan c)) @ frames bs \<and>
     length (se_chans s' (cn_chan c)) \<le> length (se_chans s (cn_chan c)) + length bs"

lemma streams_refl [simp]: "streams s c [] s c"
  by (simp add: streams_def)

lemma streams_trans:
  assumes "streams s c bs s' c'" "streams s' c' bs' s'' c''"
  shows "streams s c (bs @ bs') s'' c''"
proof -
  have ch: "cn_chan c' = cn_chan c" "cn_chan c'' = cn_chan c" using assms by (simp_all add: streams_def)
  have "data_chunks c'' @ frames (se_chans s'' (cn_chan c)) = (data_chunks c' @ frames (se_chans s' (cn_chan c))) @ frames bs'"
    using assms(2) unfolding streams_def ch by simp
  also have "\<dots> = (data_chunks c @ frames (se_chans s (cn_chan c)) @ frames bs) @ frames bs'"
    using assms(1) unfolding streams_def by simp
  finally have "data_chunks c'' @ frames (se_chans s'' (cn_chan c)) =
      data_chunks c @ frames (se_chans s (cn_chan c)) @ frames (bs @ bs')" by simp
  moreover have "length (se_chans s'' (cn_chan c)) \<le> length (se_chans s (cn_chan c)) + length (bs @ bs')"
    using assms unfolding streams_def ch by simp
  ultimately show ?thesis unfolding streams_def using ch by blast
qed

text \<open>A turn of the connection itself.\<close>

lemma streams_own_turn:
  assumes "se_conns s cid = Some c" "cn_open c" "se_conns (serve_turn cid t s) cid = Some c'" "cn_open c'"
  shows "streams s c [] (serve_turn cid t s) c'"
proof (cases t)
  case CtxDone
  then show ?thesis using assms by (auto simp: serve_turn_def serve_return_def)
next
  case (Tick ok)
  then show ?thesis
    using assms by (cases ok) (auto simp: serve_turn_def serve_write_def serve_return_def streams_def data_chunks_def)
next
  case (Receive ok)
  show ?thesis
  proof (cases "se_chans s (cn_chan c)")
    case Nil
    then have "serve_turn cid t s = s" using Receive assms(1,2) by (simp add: serve_turn_def)
    then show ?thesis using assms(1,3) by simp
  next
    case (Cons a rest)
    let ?s1 = "s\<lparr>se_chans := (se_chans s)(cn_chan c := rest)\<rparr>"
    have turn: "serve_turn cid t s = (case DeliveryAttempt_json a of None \<Rightarrow> ?s1
        | Some doc \<Rightarrow> serve_write cid c ok (data_chunk (encode doc)) ?s1)"
      using Receive Cons assms(1,2) by (simp add: serve_turn_def Let_def)
    show ?thesis
    proof (cases "DeliveryAttempt_json a")
      case None
      then have "c' = c" using turn assms(1,3) by simp
      then show ?thesis using None turn Cons by (simp add: streams_def frames_def)
    next
      case (Some doc)
      have ok using assms(3,4) turn Some by (cases ok) (auto simp: serve_write_def serve_return_def)
      then have "c' = c\<lparr>cn_writer := (cn_writer c)\<lparr>w_Body := w_Body (cn_writer c) @ [data_chunk (encode doc)]\<rparr>\<rparr>"
        "se_chans (serve_turn cid t s) = (se_chans s)(cn_chan c := rest)"
        using turn Some assms(3) by (simp_all add: serve_write_def)
      then show ?thesis using Cons Some by (simp add: streams_def data_chunks_def frames_def)
    qed
  qed
qed

lemma streams_turn:
  assumes "sse_inv s" "se_conns s cid = Some c" "cn_open c"
    and "se_conns (serve_turn i t s) cid = Some c'" "cn_open c'"
  shows "streams s c [] (serve_turn i t s) c'"
proof (cases "\<exists>x. se_conns s i = Some x \<and> cn_open x")
  case False
  then have "serve_turn i t s = s" by (auto simp: serve_turn_def split: option.splits)
  then show ?thesis using assms(2,4) by simp
next
  case True
  then obtain x where x: "se_conns s i = Some x" "cn_open x" by blast
  show ?thesis
  proof (cases "i = cid")
    case True
    then have "x = c" using x assms(2) by simp
    then show ?thesis using True streams_own_turn assms(2-5) by blast
  next
    case False
    have "cn_chan x \<noteq> cn_chan c"
      using sse_invD(4) [OF assms(1), of i "cn_chan x" cid] False x assms(2,3) by (auto simp: open_chan_Some)
    moreover have "se_chans (serve_turn i t s) ch = se_chans s ch" if "ch \<noteq> cn_chan x" for ch
      using x that by (cases t; cases "se_chans s (cn_chan x)")
        (simp_all add: serve_turn_def serve_write_def serve_return_def Let_def split: option.split)
    moreover have "se_conns (serve_turn i t s) cid = se_conns s cid"
      using x False by (cases t; cases "se_chans s (cn_chan x)")
        (simp_all add: serve_turn_def serve_write_def serve_return_def Let_def split: option.split)
    ultimately show ?thesis using assms(2,4) by (simp add: streams_def)
  qed
qed

text \<open>A handler that has returned never runs again, so a connection open at the end was open throughout.\<close>

lemma open_before:
  assumes "se_conns s cid = Some c" "se_conns (sse_exec l s) cid = Some c'" "cn_open c'"
  shows "cn_open c"
proof (cases l)
  case (SseConnect i flusher w)
  then show ?thesis using assms by (auto simp: serve_start_def split: if_splits)
next
  case (SseTurn i t)
  show ?thesis
  proof (cases "i = cid")
    case True
    then show ?thesis using assms SseTurn by (cases "cn_open c") (simp_all add: serve_turn_def)
  next
    case False
    then have "se_conns (serve_turn i t s) cid = se_conns s cid"
      by (simp add: serve_turn_def serve_write_def serve_return_def Let_def split: option.split turn.split list.split)
    then show ?thesis using assms SseTurn by simp
  qed
qed (use assms in simp)

lemma conn_kept: "se_conns s cid \<noteq> None \<Longrightarrow> se_conns (sse_exec l s) cid \<noteq> None"
  by (cases l) (auto simp: serve_start_def serve_turn_def serve_write_def serve_return_def Let_def
      split: option.split turn.split list.split)

lemma streams_exec:
  assumes "sse_inv s" "label_ok l" "se_conns s cid = Some c" "se_conns (sse_exec l s) cid = Some c'" "cn_open c'"
  shows "\<exists>bs. streams s c bs (sse_exec l s) c' \<and> subseq bs (broadcast_of l) \<and>
     (length (se_chans s (cn_chan c)) < DefaultClientBufferSize \<longrightarrow> bs = broadcast_of l)"
proof -
  have oc: "cn_open c" using open_before [OF assms(3-5)] .
  show ?thesis
  proof (cases l)
    case (SseConnect i flusher w)
    have "cn_chan c \<noteq> se_next s" using sse_invD(3) [OF assms(1), of cid "cn_chan c"] assms(3) oc by (simp add: open_chan_def)
    then have "streams s c [] (sse_exec l s) c'"
      using SseConnect assms(3,4) by (auto simp: serve_start_def streams_def split: if_splits)
    then show ?thesis using SseConnect by (intro exI [of _ "[]"]) simp
  next
    case (SseTurn i t)
    then have "streams s c [] (sse_exec l s) c'"
      using streams_turn [OF assms(1,3) oc, of i t c'] assms(4,5) by simp
    then show ?thesis using SseTurn by (intro exI [of _ "[]"]) simp
  next
    case (SseBroadcast ord a)
    have c': "c' = c" using SseBroadcast assms(3,4) by simp
    have reg: "cn_chan c \<in> fst ` set (sb_clients (se_broker s))"
      using assms(3) oc unfolding sse_invD(5) [OF assms(1)] by (auto simp: ran_def open_chan_Some)
    show ?thesis
    proof (cases a)
      case None
      then have "sse_exec l s = s" using SseBroadcast by (simp add: Broadcast_def)
      then show ?thesis using SseBroadcast None c' by (intro exI [of _ "[]"]) simp
    next
      case (Some x)
      let ?bs = "if length (se_chans s (cn_chan c)) < DefaultClientBufferSize then [x] else []"
      have "se_chans (sse_exec l s) (cn_chan c) = se_chans s (cn_chan c) @ ?bs"
        using SseBroadcast Some reg assms(2) Broadcast_at [OF sse_invD(1) [OF assms(1)], of ord x] by simp
      then have "streams s c ?bs (sse_exec l s) c'" using c' by (simp add: streams_def)
      then show ?thesis using SseBroadcast Some by (intro exI [of _ ?bs]) simp
    qed
  qed
qed

lemma streams_run:
  assumes "sse_inv s" "list_all label_ok ls" "se_conns s cid = Some c"
    and "se_conns (sse_run ls s) cid = Some c'" "cn_open c'"
  shows "\<exists>bs. streams s c bs (sse_run ls s) c' \<and> subseq bs (concat (map broadcast_of ls)) \<and>
     (length (se_chans s (cn_chan c)) + length (concat (map broadcast_of ls)) \<le> DefaultClientBufferSize \<longrightarrow>
        bs = concat (map broadcast_of ls))"
  using assms
proof (induction ls arbitrary: s c)
  case Nil
  then show ?case by (intro exI [of _ "[]"]) simp
next
  case (Cons l ls)
  let ?s1 = "sse_exec l s"
  have inv1: "sse_inv ?s1" using sse_inv_exec Cons.prems(1,2) by simp
  obtain c1 where c1: "se_conns ?s1 cid = Some c1" using conn_kept [of s cid l] Cons.prems(3) by auto
  have final: "se_conns (sse_run ls ?s1) cid = Some c'" using Cons.prems(4) by simp
  obtain bs2 where b2: "streams ?s1 c1 bs2 (sse_run ls ?s1) c'" "subseq bs2 (concat (map broadcast_of ls))"
    "length (se_chans ?s1 (cn_chan c1)) + length (concat (map broadcast_of ls)) \<le> DefaultClientBufferSize \<longrightarrow>
       bs2 = concat (map broadcast_of ls)"
    using Cons.IH [OF inv1 _ c1 final Cons.prems(5)] Cons.prems(2) by auto
  have "cn_open c1"
    using c1 final Cons.prems(5)
  proof (induction ls arbitrary: l s c1)
    case (Cons l' ls)
    obtain c2 where "se_conns (sse_exec l' (sse_exec l s)) cid = Some c2"
      using conn_kept [of "sse_exec l s" cid l'] Cons.prems(1) by auto
    moreover from this have "cn_open c2" using Cons.IH [of l' "sse_exec l s" c2] Cons.prems by simp
    ultimately show ?case using open_before Cons.prems(1) by blast
  qed simp
  then obtain bs1 where b1: "streams s c bs1 ?s1 c1" "subseq bs1 (broadcast_of l)"
    "length (se_chans s (cn_chan c)) < DefaultClientBufferSize \<longrightarrow> bs1 = broadcast_of l"
    using streams_exec [OF Cons.prems(1) _ Cons.prems(3) c1] Cons.prems(2) by auto
  have "subseq (bs1 @ bs2) (concat (map broadcast_of (l # ls)))"
    using list_emb_append_mono [OF b1(2) b2(2)] by simp
  moreover have "streams s c (bs1 @ bs2) (sse_run (l # ls) s) c'"
    using streams_trans [OF b1(1) b2(1)] by simp
  moreover have "bs1 @ bs2 = concat (map broadcast_of (l # ls))"
    if room: "length (se_chans s (cn_chan c)) + length (concat (map broadcast_of (l # ls))) \<le> DefaultClientBufferSize"
  proof -
    have "length bs1 \<le> length (broadcast_of l)" using b1(2) by (rule list_emb_length)
    then have "length (se_chans ?s1 (cn_chan c1)) + length (concat (map broadcast_of ls)) \<le> DefaultClientBufferSize"
      using b1(1) room unfolding streams_def by simp
    then have "bs2 = concat (map broadcast_of ls)" using b2(3) by blast
    moreover have "bs1 = broadcast_of l"
    proof (cases "broadcast_of l")
      case Nil
      then show ?thesis using b1(2) by simp
    next
      case (Cons x xs)
      then show ?thesis using b1(3) room by simp
    qed
    ultimately show ?thesis by simp
  qed
  ultimately show ?case by blast
qed

section \<open>Properties\<close>

definition sse_attempt :: "string \<Rightarrow> DeliveryAttempt" where
  "sse_attempt i = \<lparr>at_ID = i, at_EventID = ''ev1'', at_EndpointID = ''ep1'', at_AttemptNumber = 1,
     at_ResponseStatus = 200, at_ResponseBody = '''', at_DurationMs = 5, at_Status = DeliveryStatusSuccess,
     at_ErrorMessage = '''', at_ExecutedAt = 0\<rparr>"

definition writer0 :: http_writer where
  "writer0 = \<lparr>w_Header = [], w_Code = 0, w_Body = []\<rparr>"

definition sse_connected :: sse_state where
  "sse_connected = sse_run [SseConnect 7 True writer0] (sse_new NewSSEBroker)"

definition sse_script :: "sse_label list" where
  "sse_script = [SseBroadcast (\<lambda>n. [0..<n]) (Some (sse_attempt ''a'')), SseTurn 7 (Tick True),
     SseBroadcast (\<lambda>n. [0..<n]) (Some (sse_attempt ''b'')), SseTurn 7 (Receive True)]"

lemma sse_connected_inv: "sse_inv sse_connected"
  unfolding sse_connected_def by (intro sse_inv_run sse_inv_new) (simp_all add: NewSSEBroker_def)

lemma sse_connected_eval:
  "sse_connected = \<lparr>se_broker = RegisterClient 0 NewSSEBroker, se_chans = (\<lambda>_. [])(0 := []), se_next = 1,
     se_conns = [7 \<mapsto> \<lparr>cn_chan = 0, cn_writer = writer0\<lparr>w_Header := sse_header [], w_Code := 200\<rparr>, cn_open = True\<rparr>]\<rparr>"
  by (simp add: sse_connected_def sse_new_def serve_start_def writer0_def)

lemma sse_script_ok: "list_all label_ok sse_script"
  by (simp add: sse_script_def)

lemma sse_script_conn:
  obtains c where "se_conns (sse_run sse_script sse_connected) 7 = Some c" "cn_open c"
    "data_chunks c = frames [sse_attempt ''a'']"
proof -
  have "civil 0 = (1, 1, 1)" by (simp add: civil_def year_day_def)
  then have "time_json 0 \<noteq> None" by (simp add: time_json_def)
  then obtain d where d: "DeliveryAttempt_json (sse_attempt ''a'') = Some d"
    by (auto simp: DeliveryAttempt_json_def json_time_def sse_attempt_def)
  have "Broadcast (\<lambda>n. [0..<n]) (Some a) (RegisterClient 0 NewSSEBroker) ch = ch(0 := ch 0 @ [a])"
    if "length (ch 0) < 64" for a ch
    using that by (simp add: Broadcast_def RegisterClient_def NewSSEBroker_def try_send_def DefaultClientBufferSize_def)
  then have "se_conns (sse_run sse_script sse_connected) 7 = Some \<lparr>cn_chan = 0,
      cn_writer = writer0\<lparr>w_Header := sse_header [], w_Code := 200, w_Body := [ping_chunk, data_chunk (encode d)]\<rparr>,
      cn_open = True\<rparr>"
    using d by (simp add: sse_script_def sse_connected_eval serve_turn_def serve_write_def writer0_def)
  then show thesis using that d by (simp add: data_chunks_def frames_def)
qed

text \<open>C34: over any interleaving of connects, broadcasts and turns of the handlers, no client ever has more
  than 64 attempts buffered; the channels registered at the broker are exactly those of the connections
  whose handler has not returned, each of which has a channel of its own, registered once; and the
  clients counted are as many as these connections.\<close>

theorem sse_clients_exact:
  assumes "list_all label_ok ls" "s = sse_run ls (sse_new (NewSSEBrokerWithPingInterval interval))"
  shows "length (se_chans s ch) \<le> DefaultClientBufferSize \<and>
    distinct (map fst (sb_clients (se_broker s))) \<and>
    (\<forall>ch. ch \<in> fst ` set (sb_clients (se_broker s)) \<longleftrightarrow> (\<exists>cid. open_chan s cid = Some ch)) \<and>
    (\<forall>i j ch. open_chan s i = Some ch \<longrightarrow> open_chan s j = Some ch \<longrightarrow> i = j) \<and>
    finite {cid. open_chan s cid \<noteq> None} \<and> ClientCount (se_broker s) = card {cid. open_chan s cid \<noteq> None}"
proof -
  have inv: "sse_inv s"
    unfolding assms(2) by (intro sse_inv_run sse_inv_new assms(1)) (simp add: NewSSEBrokerWithPingInterval_def)
  have "ClientCount (se_broker s) = card (fst ` set (sb_clients (se_broker s)))"
    using sse_invD(1) [OF inv] distinct_card [of "map fst (sb_clients (se_broker s))"]
    by (simp add: ClientCount_def gomap_ok_def)
  also have "\<dots> = card (ran (open_chan s))" unfolding sse_invD(5) [OF inv] ..
  finally have count: "ClientCount (se_broker s) = card (ran (open_chan s))" .
  have "inj_on (open_chan s) (dom (open_chan s))"
    by (rule inj_onI) (metis domD sse_invD(4) [OF inv])
  then have card: "card (open_chan s ` dom (open_chan s)) = card (dom (open_chan s))" by (rule card_image)
  have im: "open_chan s ` dom (open_chan s) = Some ` ran (open_chan s)"
    by (auto simp: ran_def dom_def image_iff) metis
  have fin: "finite (ran (open_chan s))" using sse_invD(5) [OF inv] by (metis finite_imageI finite_set)
  have "card (dom (open_chan s)) = card (ran (open_chan s))"
    using card unfolding im by (simp add: card_image)
  moreover have "finite (dom (open_chan s))"
    using fin im \<open>inj_on (open_chan s) (dom (open_chan s))\<close> by (metis finite_imageI finite_imageD)
  moreover have "ch \<in> fst ` set (sb_clients (se_broker s)) \<longleftrightarrow> (\<exists>cid. open_chan s cid = Some ch)" for ch
    unfolding sse_invD(5) [OF inv] by (simp add: ran_def)
  moreover have "distinct (map fst (sb_clients (se_broker s)))" using sse_invD(1) [OF inv] by (simp add: gomap_ok_def)
  moreover have "\<forall>i j ch. open_chan s i = Some ch \<longrightarrow> open_chan s j = Some ch \<longrightarrow> i = j"
    using sse_invD(4) [OF inv] by blast
  ultimately show ?thesis
    using count sse_invD(2) [OF inv] by (simp add: dom_def)
qed

theorem sse_clients_exact_witness:
  "\<exists>s. s = sse_run [SseConnect 7 True writer0] (sse_new (NewSSEBrokerWithPingInterval 0)) \<and>
     ClientCount (se_broker s) = card {7 :: nat}"
proof -
  let ?s = "sse_run [SseConnect 7 True writer0] (sse_new (NewSSEBrokerWithPingInterval 0))"
  have "{cid. open_chan ?s cid \<noteq> None} = {7}"
    by (auto simp: open_chan_def serve_start_def sse_new_def split: if_splits)
  then show ?thesis using sse_clients_exact [of "[SseConnect 7 True writer0]" ?s 0] by simp
qed

text \<open>C35: a connected client is sent, in order and without duplicates, a selection of the attempts that
  were broadcast since: what it was sent together with what is buffered for it are the frames of a
  subsequence of the broadcasts, and of all of them when they fit into its buffer. Pings and
  other clients change nothing of that.\<close>

theorem sse_stream_in_order:
  assumes "sse_inv s" "list_all label_ok ls" "se_conns s cid = Some c"
    and "se_conns (sse_run ls s) cid = Some c'" "cn_open c'"
  shows "\<exists>bs. subseq bs (concat (map broadcast_of ls)) \<and>
     data_chunks c' @ frames (se_chans (sse_run ls s) (cn_chan c)) =
       data_chunks c @ frames (se_chans s (cn_chan c)) @ frames bs \<and>
     (length (se_chans s (cn_chan c)) + length (concat (map broadcast_of ls)) \<le> DefaultClientBufferSize \<longrightarrow>
        bs = concat (map broadcast_of ls))"
  using streams_run [OF assms] unfolding streams_def by blast

theorem sse_stream_in_order_witness:
  "\<exists>c'. se_conns (sse_run sse_script sse_connected) 7 = Some c' \<and> data_chunks c' = frames [sse_attempt ''a''] \<and>
     frames (se_chans (sse_run sse_script sse_connected) 0) = frames [sse_attempt ''b'']"
proof -
  obtain c' where c': "se_conns (sse_run sse_script sse_connected) 7 = Some c'" "cn_open c'"
    "data_chunks c' = frames [sse_attempt ''a'']"
    using sse_script_conn .
  let ?c = "\<lparr>cn_chan = 0, cn_writer = writer0\<lparr>w_Header := sse_header [], w_Code := 200\<rparr>, cn_open = True\<rparr>"
  have c: "se_conns sse_connected 7 = Some ?c" by (simp add: sse_connected_eval)
  have bs: "concat (map broadcast_of sse_script) = [sse_attempt ''a'', sse_attempt ''b'']"
    by (simp add: sse_script_def)
  have "data_chunks c' @ frames (se_chans (sse_run sse_script sse_connected) 0) =
      frames [sse_attempt ''a'', sse_attempt ''b'']"
    using sse_stream_in_order [OF sse_connected_inv sse_script_ok c c'(1,2)]
    unfolding bs by (simp add: sse_connected_eval data_chunks_def writer0_def DefaultClientBufferSize_def)
  also have "\<dots> = frames [sse_attempt ''a''] @ frames [sse_attempt ''b'']"
    using frames_append [of "[sse_attempt ''a'']" "[sse_attempt ''b'']"] by simp
  finally show ?thesis using c' by simp
qed

end
