(* ===== verification/Api.thy ===== *)
theory Api
  imports Sse Guard
begin

text \<open>
  The handlers of the HTTP API, \<open>internal/api/handler.go\<close>. A handler takes the request, the writer as the middleware left it and
  the state of the repository, the guard and the metrics; every call it makes has its own
  environment. Lemmas: what an accepted and what a refused ingestion leave behind, and the
  replay of responses.
\<close>

section \<open>Requests and responses\<close>

definition HeaderTenantID :: string where
  "HeaderTenantID = ''X-Tenant-ID''"

definition HeaderIdempotencyKey :: string where
  "HeaderIdempotencyKey = ''X-Idempotency-Key''"

definition DefaultIdempTTL :: duration where
  "DefaultIdempTTL = 24 * Hour"

record IngestEventRequest =
  ir_EventType :: string
  ir_Payload :: string

record CreateEndpointRequest =
  cq_URL :: string
  cq_Secret :: string
  cq_RateLimit :: int

text \<open>The slice of a replay request, with its backing array as the decoder keeps it.\<close>

record ReplayDLQRequest =
  rd_EventIDs :: "string list \<times> nat"

definition store_ingest :: "string \<Rightarrow> string \<Rightarrow> IngestEventRequest \<Rightarrow> IngestEventRequest option" where
  "store_ingest k v req =
     (if is_field ''event_type'' k
      then map_option (\<lambda>x. req\<lparr>ir_EventType := x\<rparr>) (decode_string v (ir_EventType req))
      else if is_field ''payload'' k then Some (req\<lparr>ir_Payload := v\<rparr>)
      else Some req)"

definition decode_ingest :: "string \<Rightarrow> IngestEventRequest option" where
  "decode_ingest body = decode_struct store_ingest \<lparr>ir_EventType = '''', ir_Payload = ''''\<rparr> body"

definition store_create :: "string \<Rightarrow> string \<Rightarrow> CreateEndpointRequest \<Rightarrow> CreateEndpointRequest option" where
  "store_create k v req =
     (if is_field ''url'' k then map_option (\<lambda>x. req\<lparr>cq_URL := x\<rparr>) (decode_string v (cq_URL req))
      else if is_field ''secret'' k then map_option (\<lambda>x. req\<lparr>cq_Secret := x\<rparr>) (decode_string v (cq_Secret req))
      else if is_field ''rate_limit'' k
      then map_option (\<lambda>x. req\<lparr>cq_RateLimit := x\<rparr>) (decode_int v (cq_RateLimit req))
      else Some req)"

definition decode_create :: "string \<Rightarrow> CreateEndpointRequest option" where
  "decode_create body = decode_struct store_create \<lparr>cq_URL = '''', cq_Secret = '''', cq_RateLimit = 0\<rparr> body"

definition store_replay :: "string \<Rightarrow> string \<Rightarrow> ReplayDLQRequest \<Rightarrow> ReplayDLQRequest option" where
  "store_replay k v req =
     (if is_field ''event_ids'' k
      then map_option (\<lambda>x. req\<lparr>rd_EventIDs := x\<rparr>) (decode_strings v (rd_EventIDs req))
      else Some req)"

definition decode_replay :: "string \<Rightarrow> string list option" where
  "decode_replay body =
     map_option (\<lambda>req. take (snd (rd_EventIDs req)) (fst (rd_EventIDs req)))
       (decode_struct store_replay \<lparr>rd_EventIDs = ([], 0)\<rparr> body)"

text \<open>
  \<open>writeJSON\<close> writes the status before it encodes: a document that cannot be encoded leaves the body
  empty. The encoder ends a document with a line feed.
\<close>

definition writeJSON :: "http_writer \<Rightarrow> int \<Rightarrow> json option \<Rightarrow> http_writer" where
  "writeJSON w statusCode data =
     \<lparr>w_Header = Header_Set ''Content-Type'' ''application/json'' (w_Header w), w_Code = statusCode,
      w_Body = w_Body w @ (case data of None \<Rightarrow> [] | Some doc \<Rightarrow> [encode doc @ [CHR 0x0A]])\<rparr>"

definition writeJSONError :: "http_writer \<Rightarrow> int \<Rightarrow> string \<Rightarrow> http_writer" where
  "writeJSONError w statusCode message = writeJSON w statusCode (Some (JObject [(''error'', JString message)]))"

section \<open>The handler\<close>

record ('r, 'g, 'c, 'h) api_handler =
  hd_repo :: "'r repository"
  hd_guard :: "'g guard option"
  hd_idempTTL :: duration
  hd_prom :: "('c, 'h) prom_ops"
  hd_stream :: bool

record ('r, 'g, 'c, 'h) api_state =
  ap_repo :: 'r
  ap_guard :: 'g
  ap_metrics :: "('c, 'h) Metrics option"

text \<open>\<open>hd_stream\<close> says whether a broker is attached; its state is that of \<open>Sse\<close>.\<close>

definition NewHandler :: "'r repository \<Rightarrow> 'g guard option \<Rightarrow> ('c, 'h) prom_ops \<Rightarrow> ('r, 'g, 'c, 'h) api_handler" where
  "NewHandler repo guard P =
     \<lparr>hd_repo = repo, hd_guard = guard, hd_idempTTL = DefaultIdempTTL, hd_prom = P, hd_stream = False\<rparr>"

definition WithSSEBroker :: "bool \<Rightarrow> ('r, 'g, 'c, 'h) api_handler \<Rightarrow> ('r, 'g, 'c, 'h) api_handler" where
  "WithSSEBroker b h = h\<lparr>hd_stream := b\<rparr>"

definition WithMetrics :: "('c, 'h) Metrics option \<Rightarrow> ('r, 'g, 'c, 'h) api_state \<Rightarrow> ('r, 'g, 'c, 'h) api_state" where
  "WithMetrics m s = s\<lparr>ap_metrics := m\<rparr>"

section \<open>Ingestion\<close>

record ingest_env =
  ie_acquire :: env
  ie_now :: gotime
  ie_uuid :: string
  ie_create :: env
  ie_release :: env
  ie_set :: env

definition ingest_event :: "ingest_env \<Rightarrow> string \<Rightarrow> string \<Rightarrow> IngestEventRequest \<Rightarrow> Event" where
  "ingest_event ie tenantID key req =
     \<lparr>ev_ID = ''evt_'' @ ie_uuid ie, ev_TenantID = tenantID, ev_EventType = ir_EventType req,
      ev_IdempotencyKey = key, ev_Payload = ir_Payload req, ev_Status = EventStatusPending,
      ev_CreatedAt = ie_now ie\<rparr>"

definition ingest_outbox :: "ingest_env \<Rightarrow> OutboxEvent" where
  "ingest_outbox ie =
     \<lparr>ob_ID = 0, ob_EventID = ''evt_'' @ ie_uuid ie, ob_Status = OutboxStatusPending, ob_RetryCount = 0,
      ob_CreatedAt = ie_now ie, ob_ProcessedAt = None\<rparr>"

definition ingest_response :: "Event \<Rightarrow> string option" where
  "ingest_response event =
     map_option (\<lambda>created. encode (JObject [(''id'', JString (ev_ID event)),
         (''status'', JString (EventStatus_string (ev_Status event))), (''created_at'', created)]))
       (json_time (ev_CreatedAt event))"

text \<open>An error response, after the lock was released when one was taken.\<close>

definition ingest_reject ::
    "'g guard option \<Rightarrow> ingest_env \<Rightarrow> string \<Rightarrow> string \<Rightarrow> http_writer \<Rightarrow> int \<Rightarrow> string \<Rightarrow>
       ('r, 'g, 'c, 'h) api_state \<Rightarrow> http_writer \<times> ('r, 'g, 'c, 'h) api_state" where
  "ingest_reject lock ie tenantID key w statusCode message s =
     (writeJSONError w statusCode message,
      (case lock of
         None \<Rightarrow> s
       | Some G \<Rightarrow> s\<lparr>ap_guard := snd (gd_ReleaseLock G (ie_release ie) tenantID key (ap_guard s))\<rparr>))"

text \<open>What follows the idempotency check; \<open>lock\<close> is the guard whose lock is held.\<close>

definition ingest_locked ::
    "('r, 'g, 'c, 'h) api_handler \<Rightarrow> 'g guard option \<Rightarrow> ingest_env \<Rightarrow> http_request \<Rightarrow> string \<Rightarrow> string \<Rightarrow>
       http_writer \<Rightarrow> ('r, 'g, 'c, 'h) api_state \<Rightarrow> http_writer \<times> ('r, 'g, 'c, 'h) api_state" where
  "ingest_locked h lock ie r tenantID key w s =
     (case decode_ingest (rq_Body r) of
        None \<Rightarrow> ingest_reject lock ie tenantID key w 400 ''invalid JSON payload'' s
      | Some req \<Rightarrow>
          if ir_EventType req = '''' then
            ingest_reject lock ie tenantID key w 400 ''event_type is required'' s
          else if length (ir_Payload req) = 0 \<or> ir_Payload req = ''null'' then
            ingest_reject lock ie tenantID key w 400 ''payload cannot be empty'' s
          else if \<not> json_Valid (ir_Payload req) then
            ingest_reject lock ie tenantID key w 400 ''payload must be valid JSON'' s
          else
            (case rp_CreateEventWithOutbox (hd_repo h) (ie_create ie) (ingest_event ie tenantID key req)
                    (ingest_outbox ie) (ap_repo s) of
               (Inl err, r1) \<Rightarrow>
                 if errors_is err ErrDuplicateKey
                 then ingest_reject lock ie tenantID key w 409 ''duplicate event or idempotency key violation''
                        (s\<lparr>ap_repo := r1\<rparr>)
                 else ingest_reject lock ie tenantID key w 500 ''failed to persist event and outbox record''
                        (s\<lparr>ap_repo := r1\<rparr>)
             | (Inr (event, outbox), r1) \<Rightarrow>
                 let s1 = s\<lparr>ap_repo := r1,
                            ap_metrics := IncIngested (hd_prom h) tenantID (ir_EventType req) (ap_metrics s)\<rparr>
                 in (case ingest_response event of
                       None \<Rightarrow> (writeJSONError w 500 ''failed to marshal response'', s1)
                     | Some respBytes \<Rightarrow>
                         (\<lparr>w_Header = Header_Set ''Content-Type'' ''application/json'' (w_Header w), w_Code = 202,
                           w_Body = w_Body w @ [respBytes]\<rparr>,
                          (case lock of
                             None \<Rightarrow> s1
                           | Some G \<Rightarrow> s1\<lparr>ap_guard := snd (gd_SetResponse G (ie_set ie) tenantID key 202 respBytes
                               (hd_idempTTL h) (ap_guard s1))\<rparr>)))))"

definition HandleIngestEvent ::
    "('r, 'g, 'c, 'h) api_handler \<Rightarrow> ingest_env \<Rightarrow> http_request \<Rightarrow> http_writer \<Rightarrow>
       ('r, 'g, 'c, 'h) api_state \<Rightarrow> http_writer \<times> ('r, 'g, 'c, 'h) api_state" where
  "HandleIngestEvent h ie r w s =
     (if rq_Method r \<noteq> ''POST'' then (writeJSONError w 405 ''method not allowed'', s)
      else
        let tenantID = Header_Get (rq_Header r) HeaderTenantID in
        if tenantID = '''' then (writeJSONError w 400 ''X-Tenant-ID header is required'', s)
        else
          let key = Header_Get (rq_Header r) HeaderIdempotencyKey in
          (case (if key = '''' then None else hd_guard h) of
             None \<Rightarrow> ingest_locked h None ie r tenantID key w s
           | Some G \<Rightarrow>
               (case gd_AcquireLock G (ie_acquire ie) tenantID key (hd_idempTTL h) (ap_guard s) of
                  (Inl err, g) \<Rightarrow> (writeJSONError w 500 ''idempotency check failed'', s\<lparr>ap_guard := g\<rparr>)
                | (Inr (acquired, Some cached), g) \<Rightarrow>
                    (\<lparr>w_Header = Header_Set ''X-Idempotency-Replay'' ''true''
                        (Header_Set ''Content-Type'' ''application/json'' (w_Header w)),
                      w_Code = cr_StatusCode cached, w_Body = w_Body w @ [cr_Body cached]\<rparr>,
                     s\<lparr>ap_guard := g\<rparr>)
                | (Inr (acquired, None), g) \<Rightarrow>
                    if \<not> acquired then
                      (writeJSONError w 409 ''concurrent request in flight with same idempotency key'',
                       s\<lparr>ap_guard := g\<rparr>)
                    else ingest_locked h (Some G) ie r tenantID key w (s\<lparr>ap_guard := g\<rparr>))))"

section \<open>Endpoints, health and the dead-letter queue\<close>

definition created_endpoint :: "gotime \<Rightarrow> string \<Rightarrow> string \<Rightarrow> CreateEndpointRequest \<Rightarrow> Endpoint" where
  "created_endpoint now uuid tenantID req =
     \<lparr>ep_ID = ''ep_'' @ uuid, ep_TenantID = tenantID, ep_URL = cq_URL req, ep_Secret = cq_Secret req,
      ep_RateLimit = (if cq_RateLimit req \<le> 0 then 100 else cq_RateLimit req), ep_IsActive = True,
      ep_CreatedAt = now, ep_UpdatedAt = now\<rparr>"

text \<open>\<open>url_scheme\<close> is the parser of \<open>Endpoint.Validate\<close>.\<close>

definition HandleCreateEndpoint ::
    "(string \<Rightarrow> string option) \<Rightarrow> ('r, 'g, 'c, 'h) api_handler \<Rightarrow> env \<Rightarrow> string \<Rightarrow> http_request \<Rightarrow> http_writer \<Rightarrow>
       ('r, 'g, 'c, 'h) api_state \<Rightarrow> http_writer \<times> ('r, 'g, 'c, 'h) api_state" where
  "HandleCreateEndpoint uri_scheme h e uuid r w s =
     (if rq_Method r \<noteq> ''POST'' then (writeJSONError w 405 ''method not allowed'', s)
      else
        let tenantID = Header_Get (rq_Header r) HeaderTenantID in
        if tenantID = '''' then (writeJSONError w 400 ''X-Tenant-ID header is required'', s)
        else
          (case decode_create (rq_Body r) of
             None \<Rightarrow> (writeJSONError w 400 ''invalid request body'', s)
           | Some req \<Rightarrow>
               let endpoint = created_endpoint (e_now e) uuid tenantID req in
               (case Endpoint_Validate uri_scheme endpoint of
                  Some err \<Rightarrow> (writeJSONError w 400 (error_msg err), s)
                | None \<Rightarrow>
                    (case rp_CreateEndpoint (hd_repo h) e endpoint (ap_repo s) of
                       (Some err, r1) \<Rightarrow>
                         if errors_is err ErrDuplicateKey
                         then (writeJSONError w 409 ''endpoint already exists'', s\<lparr>ap_repo := r1\<rparr>)
                         else (writeJSONError w 500 ''failed to create endpoint'', s\<lparr>ap_repo := r1\<rparr>)
                     | (None, r1) \<Rightarrow> (writeJSON w 201 (Endpoint_json endpoint), s\<lparr>ap_repo := r1\<rparr>)))))"

definition HandleListEndpoints ::
    "('r, 'g, 'c, 'h) api_handler \<Rightarrow> env \<Rightarrow> http_request \<Rightarrow> http_writer \<Rightarrow> ('r, 'g, 'c, 'h) api_state \<Rightarrow> http_writer" where
  "HandleListEndpoints h e r w s =
     (if rq_Method r \<noteq> ''GET'' then writeJSONError w 405 ''method not allowed''
      else
        let tenantID = Header_Get (rq_Header r) HeaderTenantID in
        if tenantID = '''' then writeJSONError w 400 ''X-Tenant-ID header is required''
        else
          (case rp_GetEndpointsByTenant (hd_repo h) e tenantID (ap_repo s) of
             Inl err \<Rightarrow> writeJSONError w 500 ''failed to retrieve endpoints''
           | Inr endpoints \<Rightarrow> writeJSON w 200 (map_option JArray (json_list Endpoint_json endpoints))))"

definition HandleHealthz :: "gotime \<Rightarrow> http_request \<Rightarrow> http_writer \<Rightarrow> http_writer" where
  "HandleHealthz now r w =
     (if rq_Method r \<noteq> ''GET'' then writeJSONError w 405 ''method not allowed''
      else writeJSON w 200 (map_option (\<lambda>t. JObject [(''status'', JString ''healthy''), (''timestamp'', t)]) (json_time now)))"

definition HandleListDLQ ::
    "('r, 'g, 'c, 'h) api_handler \<Rightarrow> env \<Rightarrow> http_request \<Rightarrow> http_writer \<Rightarrow> ('r, 'g, 'c, 'h) api_state \<Rightarrow> http_writer" where
  "HandleListDLQ h e r w s =
     (if rq_Method r \<noteq> ''GET'' then writeJSONError w 405 ''method not allowed''
      else
        let tenantID = Header_Get (rq_Header r) HeaderTenantID in
        if tenantID = '''' then writeJSONError w 400 ''X-Tenant-ID header is required''
        else
          (case rp_GetDLQEvents (hd_repo h) e tenantID 50 0 (ap_repo s) of
             Inl err \<Rightarrow> writeJSONError w 500 ''failed to retrieve DLQ events''
           | Inr events \<Rightarrow> writeJSON w 200 (map_option JArray (json_list Event_json events))))"

definition HandleReplayDLQ ::
    "('r, 'g, 'c, 'h) api_handler \<Rightarrow> env \<Rightarrow> http_request \<Rightarrow> http_writer \<Rightarrow>
       ('r, 'g, 'c, 'h) api_state \<Rightarrow> http_writer \<times> ('r, 'g, 'c, 'h) api_state" where
  "HandleReplayDLQ h e r w s =
     (if rq_Method r \<noteq> ''POST'' then (writeJSONError w 405 ''method not allowed'', s)
      else
        let tenantID = Header_Get (rq_Header r) HeaderTenantID in
        if tenantID = '''' then (writeJSONError w 400 ''X-Tenant-ID header is required'', s)
        else
          (case decode_replay (rq_Body r) of
             None \<Rightarrow> (writeJSONError w 400 ''invalid request JSON'', s)
           | Some eventIDs \<Rightarrow>
               if length eventIDs = 0 then (writeJSONError w 400 ''event_ids array cannot be empty'', s)
               else if length eventIDs > 100 then
                 (writeJSONError w 400 ''event_ids batch size cannot exceed 100'', s)
               else
                 (case rp_ReplayDLQEvents (hd_repo h) e tenantID eventIDs (ap_repo s) of
                    (Inl err, r1) \<Rightarrow>
                      (writeJSONError w 500 (''failed to replay events: '' @ error_msg err), s\<lparr>ap_repo := r1\<rparr>)
                  | (Inr replayedCount, r1) \<Rightarrow>
                      (writeJSON w 200 (Some (JObject
                         [(''replayed_count'', JInt replayedCount), (''status'', JString ''QUEUED_FOR_RETRY'')])),
                       s\<lparr>ap_repo := r1\<rparr>))))"

text \<open>\<open>None\<close>: the request is handed to the broker (\<open>serve_start\<close> of \<open>Sse\<close>).\<close>

definition HandleEventStream :: "('r, 'g, 'c, 'h) api_handler \<Rightarrow> http_request \<Rightarrow> http_writer \<Rightarrow> http_writer option" where
  "HandleEventStream h r w =
     (if rq_Method r \<noteq> ''GET'' \<and> rq_Method r \<noteq> ''OPTIONS'' then Some (writeJSONError w 405 ''method not allowed'')
      else if hd_stream h then None
      else Some (writeJSONError w 503 ''SSE stream broker not configured''))"

end
