(* ===== verification/Router.thy ===== *)
theory Router
  imports Api MemoryRepo MemoryGuard
begin

text \<open>
  The routes and the CORS middleware of \<open>internal/api/router.go\<close>, with what \<open>http.ServeMux\<close> does
  for them: path cleaning, matching of literal paths by method, and its answers when nothing
  matches. Paths are escaped paths without a query.
\<close>

section \<open>Matching\<close>

datatype handler =
    IngestEvent | CreateEndpoint | ListEndpoints | ListDLQ | ReplayDLQ | EventStream | Healthz | MetricsHandler

definition routes :: "(string \<times> string \<times> handler) list" where
  "routes =
     [(''POST'', ''/api/v1/events'', IngestEvent),
      (''POST'', ''/api/v1/endpoints'', CreateEndpoint),
      (''GET'', ''/api/v1/endpoints'', ListEndpoints),
      (''GET'', ''/api/v1/dlq'', ListDLQ),
      (''POST'', ''/api/v1/dlq/replay'', ReplayDLQ),
      (''GET'', ''/api/v1/events/stream'', EventStream),
      (''GET'', ''/healthz'', Healthz),
      (''GET'', ''/metrics'', MetricsHandler)]"

text \<open>\<open>path.Clean\<close> of a rooted path, on its segments.\<close>

fun clean_segments :: "string list \<Rightarrow> string list \<Rightarrow> string list" where
  "clean_segments acc [] = rev acc"
| "clean_segments acc (s # ss) =
     (if s = '''' \<or> s = ''.'' then clean_segments acc ss
      else if s = ''..'' then clean_segments (tl acc) ss
      else clean_segments (s # acc) ss)"

definition join_segments :: "string list \<Rightarrow> string" where
  "join_segments ss = concat (map (\<lambda>s. CHR ''/'' # s) ss)"

definition cleanPath :: "string \<Rightarrow> string" where
  "cleanPath p =
     (if p = '''' then ''/''
      else
        let q = (if hd p = CHR ''/'' then p else CHR ''/'' # p);
            np = join_segments (clean_segments [] (strings_Split (CHR ''/'') q))
        in if np = '''' then ''/''
           else if last q = CHR ''/'' then np @ ''/''
           else np)"

text \<open>\<open>url.PathUnescape\<close> of a segment; one with a malformed escape stays as it is.\<close>

fun unescape_bytes :: "string \<Rightarrow> string option" where
  "unescape_bytes [] = Some []"
| "unescape_bytes (c # cs) =
     (if c = CHR ''%'' then
        (case cs of
           a # b # rest \<Rightarrow>
             (case (hex_val a, hex_val b) of
                (Some x, Some y) \<Rightarrow> map_option (Cons (char_of (16 * x + y))) (unescape_bytes rest)
              | _ \<Rightarrow> None)
         | _ \<Rightarrow> None)
      else map_option (Cons c) (unescape_bytes cs))"

definition pathUnescape :: "string \<Rightarrow> string" where
  "pathUnescape s = (case unescape_bytes s of None \<Rightarrow> s | Some t \<Rightarrow> t)"

definition path_matches :: "string \<Rightarrow> string \<Rightarrow> bool" where
  "path_matches pattern p \<longleftrightarrow>
     map pathUnescape (strings_Split (CHR ''/'') p) = strings_Split (CHR ''/'') pattern"

text \<open>A pattern for GET also serves HEAD.\<close>

definition route_for :: "string \<Rightarrow> string \<Rightarrow> handler option" where
  "route_for m p =
     map_option (\<lambda>(m', pattern, h). h)
       (List.find (\<lambda>(m', pattern, h). path_matches pattern p \<and> (m' = m \<or> (m' = ''GET'' \<and> m = ''HEAD''))) routes)"

definition allowed_methods :: "string \<Rightarrow> string list" where
  "allowed_methods p =
     (let ms = map fst (filter (\<lambda>(m', pattern, h). path_matches pattern p) routes) in
      filter (\<lambda>m. m \<in> set ms \<or> (m = ''HEAD'' \<and> ''GET'' \<in> set ms)) [''GET'', ''HEAD'', ''POST''])"

fun join_comma :: "string list \<Rightarrow> string" where
  "join_comma [] = ''''"
| "join_comma [x] = x"
| "join_comma (x # y # zs) = x @ '', '' @ join_comma (y # zs)"

section \<open>Serving a request\<close>

record serve_env =
  sv_ingest :: ingest_env
  sv_env :: env
  sv_uuid :: string

text \<open>
  A response of the program, a stream handed to the broker, the page of the Prometheus handler, or
  the redirect of the multiplexer to a cleaned path.
\<close>

datatype served =
    Response http_writer
  | Stream http_writer
  | MetricsPage http_writer
  | Redirect http_writer string

definition call_handler ::
    "(string \<Rightarrow> string option) \<Rightarrow> ('r, 'g, 'c, 'h) api_handler \<Rightarrow> handler \<Rightarrow> serve_env \<Rightarrow> http_request \<Rightarrow>
       http_writer \<Rightarrow> ('r, 'g, 'c, 'h) api_state \<Rightarrow> served \<times> ('r, 'g, 'c, 'h) api_state" where
  "call_handler uri_scheme h route sv r w s =
     (case route of
        IngestEvent \<Rightarrow> (case HandleIngestEvent h (sv_ingest sv) r w s of (w1, s1) \<Rightarrow> (Response w1, s1))
      | CreateEndpoint \<Rightarrow>
          (case HandleCreateEndpoint uri_scheme h (sv_env sv) (sv_uuid sv) r w s of (w1, s1) \<Rightarrow> (Response w1, s1))
      | ListEndpoints \<Rightarrow> (Response (HandleListEndpoints h (sv_env sv) r w s), s)
      | ListDLQ \<Rightarrow> (Response (HandleListDLQ h (sv_env sv) r w s), s)
      | ReplayDLQ \<Rightarrow> (case HandleReplayDLQ h (sv_env sv) r w s of (w1, s1) \<Rightarrow> (Response w1, s1))
      | EventStream \<Rightarrow>
          ((case HandleEventStream h r w of None \<Rightarrow> Stream w | Some w1 \<Rightarrow> Response w1), s)
      | Healthz \<Rightarrow> (Response (HandleHealthz (e_now (sv_env sv)) r w), s)
      | MetricsHandler \<Rightarrow> (MetricsPage w, s))"

definition mux_serve ::
    "(string \<Rightarrow> string option) \<Rightarrow> ('r, 'g, 'c, 'h) api_handler \<Rightarrow> serve_env \<Rightarrow> http_request \<Rightarrow>
       http_writer \<Rightarrow> ('r, 'g, 'c, 'h) api_state \<Rightarrow> served \<times> ('r, 'g, 'c, 'h) api_state" where
  "mux_serve uri_scheme h sv r w s =
     (let path = (if rq_Method r = ''CONNECT'' then rq_URL r else cleanPath (rq_URL r)) in
      if path \<noteq> rq_URL r then (Redirect w path, s)
      else
        (case route_for (rq_Method r) path of
           Some route \<Rightarrow> call_handler uri_scheme h route sv r w s
         | None \<Rightarrow>
             (case allowed_methods path of
                [] \<Rightarrow> (Response (http_Error w ''404 page not found'' 404), s)
              | ms \<Rightarrow>
                  (Response (http_Error (w\<lparr>w_Header := Header_Set ''Allow'' (join_comma ms) (w_Header w)\<rparr>)
                     (StatusText 405) 405), s))))"

definition cors_header :: "string \<Rightarrow> http_header \<Rightarrow> http_header" where
  "cors_header origin hdr =
     Header_Set ''Access-Control-Expose-Headers'' ''Content-Length, X-Idempotency-Replay''
     (Header_Set ''Access-Control-Allow-Headers''
        ''Accept, Authorization, Content-Type, X-Tenant-ID, X-Idempotency-Key, Cache-Control''
     (Header_Set ''Access-Control-Allow-Methods'' ''GET, POST, PUT, PATCH, DELETE, OPTIONS''
     (Header_Set ''Access-Control-Allow-Origin'' (if origin \<noteq> '''' then origin else ''*'') hdr)))"

definition corsMiddleware ::
    "(http_request \<Rightarrow> http_writer \<Rightarrow> 's \<Rightarrow> served \<times> 's) \<Rightarrow> http_request \<Rightarrow> http_writer \<Rightarrow> 's \<Rightarrow> served \<times> 's" where
  "corsMiddleware nxt r w s =
     (let w1 = w\<lparr>w_Header := cors_header (Header_Get (rq_Header r) ''Origin'') (w_Header w)\<rparr> in
      if rq_Method r = ''OPTIONS'' then (Response (w1\<lparr>w_Code := 204\<rparr>), s)
      else nxt r w1 s)"

definition NewRouter ::
    "(string \<Rightarrow> string option) \<Rightarrow> ('r, 'g, 'c, 'h) api_handler \<Rightarrow> serve_env \<Rightarrow> http_request \<Rightarrow>
       http_writer \<Rightarrow> ('r, 'g, 'c, 'h) api_state \<Rightarrow> served \<times> ('r, 'g, 'c, 'h) api_state" where
  "NewRouter uri_scheme h sv = corsMiddleware (mux_serve uri_scheme h sv)"

text \<open>The handler of the test router: in-memory storage and guard, and a broker.\<close>

definition SetupTestRouter :: "('c, 'h) prom_ops \<Rightarrow> (memory_repo, memory_guard, 'c, 'h) api_handler" where
  "SetupTestRouter P = WithSSEBroker True (NewHandler memory_repository (Some memory_guard_ops) P)"

end
