(* ===== verification/ApiRuns.thy ===== *)
theory ApiRuns
  imports Router
begin

text \<open>
  Properties of the HTTP API: an ingestion stores an event with its outbox row or nothing, its
  response is replayed, a refused one frees its lock unless its context has ended, the tenant
  isolation of the endpoint list, the replay of the dead-letter queue, and the routes.
\<close>

section \<open>What an ingestion does\<close>

lemma decode_ingest_valid:
  "decode_ingest body = Some req \<Longrightarrow> ir_Payload req = [] \<or> json_Valid (ir_Payload req)"
  unfolding decode_ingest_def
  by (erule decode_struct_inv) (auto simp: store_ingest_def split: if_splits)

text \<open>
  The outcomes of the part after the idempotency check: an accepted event, a response that cannot
  be encoded, a refusal.
\<close>

definition release_lock :: "'g guard option \<Rightarrow> ingest_env \<Rightarrow> string \<Rightarrow> string \<Rightarrow> 'g \<Rightarrow> 'g" where
  "release_lock lock ie t k g = (case lock of None \<Rightarrow> g | Some G \<Rightarrow> snd (gd_ReleaseLock G (ie_release ie) t k g))"

definition cache_response ::
    "'g guard option \<Rightarrow> ingest_env \<Rightarrow> duration \<Rightarrow> string \<Rightarrow> string \<Rightarrow> string \<Rightarrow> 'g \<Rightarrow> 'g" where
  "cache_response lock ie ttl t k bytes g =
     (case lock of None \<Rightarrow> g | Some G \<Rightarrow> snd (gd_SetResponse G (ie_set ie) t k 202 bytes ttl g))"

lemma ingest_reject_eq:
  "ingest_reject lock ie t k w sc msg s = (writeJSONError w sc msg, s\<lparr>ap_guard := release_lock lock ie t k (ap_guard s)\<rparr>)"
  by (cases lock) (simp_all add: ingest_reject_def release_lock_def)

lemma w_Code_writeJSONError [simp]: "w_Code (writeJSONError w sc msg) = sc"
  by (simp add: writeJSONError_def writeJSON_def)

lemma ingest_locked_cases:
  assumes "ingest_locked h lock ie r t k w s = (w', s')"
  obtains (Refused) "w_Code w' \<in> {400, 409, 500}" "ap_guard s' = release_lock lock ie t k (ap_guard s)"
      "ap_repo s' = ap_repo s \<or> (\<exists>req err. rp_CreateEventWithOutbox (hd_repo h) (ie_create ie) (ingest_event ie t k req)
          (ingest_outbox ie) (ap_repo s) = (Inl err, ap_repo s'))"
  | (Created) req v ob where "decode_ingest (rq_Body r) = Some req" "ir_EventType req \<noteq> []" "ir_Payload req \<noteq> []"
      "ir_Payload req \<noteq> ''null''"
      "rp_CreateEventWithOutbox (hd_repo h) (ie_create ie) (ingest_event ie t k req) (ingest_outbox ie) (ap_repo s) =
         (Inr (v, ob), ap_repo s')"
      "ingest_response v = None \<and> w_Code w' = 500 \<and> ap_guard s' = ap_guard s \<or>
       (\<exists>bytes. ingest_response v = Some bytes \<and> ap_guard s' = cache_response lock ie (hd_idempTTL h) t k bytes (ap_guard s) \<and>
          w' = \<lparr>w_Header = Header_Set ''Content-Type'' ''application/json'' (w_Header w), w_Code = 202, w_Body = w_Body w @ [bytes]\<rparr>)"
proof -
  have rej: thesis if "ingest_reject lock ie t k w sc msg s = (w', s')" "sc \<in> {400, 409, 500}" for sc msg
    using that Refused unfolding ingest_reject_eq by auto
  show thesis
  proof (cases "decode_ingest (rq_Body r)")
    case None
    then show thesis using assms rej [of 400] by (simp add: ingest_locked_def)
  next
    case (Some req)
    consider (bad) "ir_EventType req = [] \<or> ir_Payload req = [] \<or> ir_Payload req = ''null'' \<or> \<not> json_Valid (ir_Payload req)"
      | (good) "ir_EventType req \<noteq> []" "ir_Payload req \<noteq> []" "ir_Payload req \<noteq> ''null''" "json_Valid (ir_Payload req)"
      by blast
    then show thesis
    proof cases
      case bad
      then show thesis using assms Some rej [of 400] by (auto simp: ingest_locked_def split: if_splits)
    next
      case good
      obtain res r1 where c: "rp_CreateEventWithOutbox (hd_repo h) (ie_create ie) (ingest_event ie t k req)
          (ingest_outbox ie) (ap_repo s) = (res, r1)" by fastforce
      show thesis
      proof (cases res)
        case (Inl err)
        have "w_Code w' \<in> {400, 409, 500} \<and> s' = s\<lparr>ap_repo := r1, ap_guard := release_lock lock ie t k (ap_guard s)\<rparr>"
          using assms Some good c Inl by (auto simp: ingest_locked_def ingest_reject_eq split: if_splits)
        then show thesis using Refused c Inl by auto
      next
        case (Inr p)
        obtain v ob where p: "p = (v, ob)" by fastforce
        show thesis
        proof (cases "ingest_response v")
          case None
          have "w_Code w' = 500" "ap_guard s' = ap_guard s" "ap_repo s' = r1"
            using assms Some good c Inr p None by (auto simp: ingest_locked_def Let_def)
          then show thesis using Created [OF Some good(1,2,3)] c Inr p None by auto
        next
          case resp: (Some bytes)
          have "w' = \<lparr>w_Header = Header_Set ''Content-Type'' ''application/json'' (w_Header w), w_Code = 202,
              w_Body = w_Body w @ [bytes]\<rparr>" "ap_guard s' = cache_response lock ie (hd_idempTTL h) t k bytes (ap_guard s)"
            "ap_repo s' = r1"
            using assms Some good c Inr p resp by (auto simp: ingest_locked_def cache_response_def Let_def split: option.splits)
          then show thesis using Created [OF Some good(1,2,3)] c Inr p resp by auto
        qed
      qed
    qed
  qed
qed

text \<open>The whole handler: the requests that go past the idempotency check, and the others.\<close>

lemma HandleIngestEvent_cases:
  assumes "HandleIngestEvent h ie r w s = (w', s')"
  obtains (Rejected) "s' = s" "w_Code w' \<in> {400, 405}"
  | (Unlocked) "rq_Method r = ''POST''" "Header_Get (rq_Header r) HeaderTenantID \<noteq> []"
      "Header_Get (rq_Header r) HeaderIdempotencyKey = [] \<or> hd_guard h = None"
      "ingest_locked h None ie r (Header_Get (rq_Header r) HeaderTenantID) (Header_Get (rq_Header r) HeaderIdempotencyKey) w s = (w', s')"
  | (Checked) G res g where "rq_Method r = ''POST''" "Header_Get (rq_Header r) HeaderTenantID \<noteq> []"
      "Header_Get (rq_Header r) HeaderIdempotencyKey \<noteq> []" "hd_guard h = Some G"
      "gd_AcquireLock G (ie_acquire ie) (Header_Get (rq_Header r) HeaderTenantID) (Header_Get (rq_Header r) HeaderIdempotencyKey)
         (hd_idempTTL h) (ap_guard s) = (res, g)"
      "(\<exists>err. res = Inl err) \<and> s' = s\<lparr>ap_guard := g\<rparr> \<and> w_Code w' = 500 \<or>
       (\<exists>a c. res = Inr (a, Some c) \<and> s' = s\<lparr>ap_guard := g\<rparr> \<and>
          w' = \<lparr>w_Header = Header_Set ''X-Idempotency-Replay'' ''true'' (Header_Set ''Content-Type'' ''application/json'' (w_Header w)),
                w_Code = cr_StatusCode c, w_Body = w_Body w @ [cr_Body c]\<rparr>) \<or>
       res = Inr (False, None) \<and> s' = s\<lparr>ap_guard := g\<rparr> \<and> w_Code w' = 409 \<or>
       res = Inr (True, None) \<and> ingest_locked h (Some G) ie r (Header_Get (rq_Header r) HeaderTenantID)
         (Header_Get (rq_Header r) HeaderIdempotencyKey) w (s\<lparr>ap_guard := g\<rparr>) = (w', s')"
proof (cases "rq_Method r = ''POST'' \<and> Header_Get (rq_Header r) HeaderTenantID \<noteq> []")
  case False
  then show thesis using assms Rejected by (auto simp: HandleIngestEvent_def Let_def split: if_splits)
next
  case True
  let ?t = "Header_Get (rq_Header r) HeaderTenantID"
  let ?k = "Header_Get (rq_Header r) HeaderIdempotencyKey"
  show thesis
  proof (cases "?k = [] \<or> hd_guard h = None")
    case None: True
    then have "(if ?k = [] then None else hd_guard h) = None" by auto
    then show thesis using assms True Unlocked None by (simp add: HandleIngestEvent_def Let_def)
  next
    case False
    then obtain G where G: "hd_guard h = Some G" "?k \<noteq> []" by auto
    obtain res g where a: "gd_AcquireLock G (ie_acquire ie) ?t ?k (hd_idempTTL h) (ap_guard s) = (res, g)" by fastforce
    show thesis
      using assms True G a
      by (intro Checked [OF _ _ G(2,1) a])
        (auto simp: HandleIngestEvent_def Let_def split: sum.splits prod.splits option.splits if_splits)
  qed
qed

section \<open>The lock and the cached response\<close>

lemma release_lock_None [simp]: "release_lock None ie t k g = g"
  by (simp add: release_lock_def)

lemma cache_response_None [simp]: "cache_response None ie ttl t k bytes g = g"
  by (simp add: cache_response_def)

context guard_contract
begin

lemma locked_frame:
  assumes "ingest_locked h (Some G) ie r t k w s = (w', s')" "sk \<noteq> kf t k"
  shows "slot_at (ap_guard s') sk = slot_at (ap_guard s) sk"
  using assms(1)
proof (cases rule: ingest_locked_cases)
  case Refused
  then show ?thesis
    using release_frame [OF surjective_pairing assms(2), of "ie_release ie" "ap_guard s"] by (simp add: release_lock_def)
next
  case (Created req v ob)
  then show ?thesis
    using set_frame [OF surjective_pairing assms(2), of "ie_set ie" 202 _ "hd_idempTTL h" "ap_guard s"]
    by (auto simp: cache_response_def)
qed

lemma ingest_keeps_done:
  assumes "hd_guard h = Some G" "slot_at (ap_guard s) sk (e_now (ie_acquire ie)) = Done c"
    and "HandleIngestEvent h ie r w s = (w', s')"
  shows "slot_at (ap_guard s') sk = slot_at (ap_guard s) sk"
  using assms(3)
proof (cases rule: HandleIngestEvent_cases)
  case Unlocked
  from Unlocked(4) show ?thesis by (cases rule: ingest_locked_cases) auto
next
  case (Checked G' res g)
  let ?t = "Header_Get (rq_Header r) HeaderTenantID" and ?k = "Header_Get (rq_Header r) HeaderIdempotencyKey"
  have G': "G' = G" using Checked(4) assms(1) by simp
  note acq = Checked(5) [unfolded G']
  have keep: "slot_at g sk = slot_at (ap_guard s) sk" using acquire_keeps [OF acq, of sk] assms(2) by simp
  have "sk \<noteq> kf ?t ?k" if "res = Inr (True, None)"
  proof
    assume sk: "sk = kf ?t ?k"
    show False
    proof (cases "e_ctx (ie_acquire ie)")
      case None
      then show False using acquire_done [OF None Checked(2,3) _ acq] sk assms(2) that by simp
    next
      case (Some err)
      then show False using acquire_dead [OF Some, of ?t ?k "hd_idempTTL h" "ap_guard s"] acq that by simp
    qed
  qed
  then show ?thesis
    using Checked(6) keep locked_frame [of h ie r ?t ?k w "s\<lparr>ap_guard := g\<rparr>" w' s' sk] unfolding G' by auto
qed simp

text \<open>A fresh key: after the check the lock is held, and it decides what becomes of it.\<close>

lemma ingest_fresh:
  assumes "hd_guard h = Some G" "live (ie_acquire ie)" "rq_Method r = ''POST''"
    and t: "Header_Get (rq_Header r) HeaderTenantID = t" "t \<noteq> []"
    and k: "Header_Get (rq_Header r) HeaderIdempotencyKey = k" "k \<noteq> []"
    and "slot_at (ap_guard s) (kf t k) (e_now (ie_acquire ie)) = Free" "ginv (ap_guard s)"
    and "HandleIngestEvent h ie r w s = (w', s')"
  obtains g where "ginv g" "slot_at g (kf t k) = (\<lambda>n. if n < e_now (ie_acquire ie) + hd_idempTTL h then InFlight else Free)"
    "ingest_locked h (Some G) ie r t k w (s\<lparr>ap_guard := g\<rparr>) = (w', s')"
proof -
  obtain res g where acq: "gd_AcquireLock G (ie_acquire ie) t k (hd_idempTTL h) (ap_guard s) = (res, g)" by fastforce
  have a: "res = Inr (True, None)" "slot_at g (kf t k) = (\<lambda>n. if n < e_now (ie_acquire ie) + hd_idempTTL h then InFlight else Free)"
    using acquire_free [OF assms(2) t(2) k(2) assms(8) acq] by auto
  have "ingest_locked h (Some G) ie r t k w (s\<lparr>ap_guard := g\<rparr>) = (w', s')"
    using assms(10) acq a(1) assms(1,3) t k by (simp add: HandleIngestEvent_def Let_def)
  with that a(2) acquire_inv [OF assms(9) acq] show thesis by blast
qed

text \<open>While the response is cached, a request with its key is answered from the cache.\<close>

lemma ingest_cached:
  assumes "hd_guard h = Some G" "live (ie_acquire ie)" "rq_Method r = ''POST''"
    and t: "Header_Get (rq_Header r) HeaderTenantID = t" "t \<noteq> []"
    and k: "Header_Get (rq_Header r) HeaderIdempotencyKey = k" "k \<noteq> []"
    and "slot_at (ap_guard s) (kf t k) (e_now (ie_acquire ie)) = Done c"
  shows "HandleIngestEvent h ie r w s =
     (\<lparr>w_Header = Header_Set ''X-Idempotency-Replay'' ''true'' (Header_Set ''Content-Type'' ''application/json'' (w_Header w)),
       w_Code = cr_StatusCode c, w_Body = w_Body w @ [cr_Body c]\<rparr>, s)"
proof -
  obtain res g where acq: "gd_AcquireLock G (ie_acquire ie) t k (hd_idempTTL h) (ap_guard s) = (res, g)" by fastforce
  have "res = Inr (False, Some c)" "g = ap_guard s"
    using acquire_done [OF assms(2) t(2) k(2) assms(8) acq] by auto
  then show ?thesis using acq assms(1,3) t k by (simp add: HandleIngestEvent_def Let_def)
qed

end

text \<open>A sequence of ingestions, each with its environment and the writer it is given.\<close>

fun ingest_run ::
    "('r, 'g, 'c, 'h) api_handler \<Rightarrow> (ingest_env \<times> http_request \<times> http_writer) list \<Rightarrow>
       ('r, 'g, 'c, 'h) api_state \<Rightarrow> ('r, 'g, 'c, 'h) api_state" where
  "ingest_run h [] s = s"
| "ingest_run h ((ie, r, w) # rest) s = ingest_run h rest (snd (HandleIngestEvent h ie r w s))"

lemma run_keeps_done:
  assumes "hd_guard h = Some memory_guard_ops" "gm_slot (ap_guard s) sk = (\<lambda>n. if n < bound then Done c else Free)"
    and "\<forall>(ie, r, w) \<in> set ls. e_now (ie_acquire ie) < bound"
  shows "gm_slot (ap_guard (ingest_run h ls s)) sk = (\<lambda>n. if n < bound then Done c else Free)"
  using assms(2,3)
proof (induction ls arbitrary: s)
  case (Cons l ls)
  obtain ie r w where l: "l = (ie, r, w)" by (metis prod.exhaust)
  obtain w' s' where H: "HandleIngestEvent h ie r w s = (w', s')" by fastforce
  have "gm_slot (ap_guard s) sk (e_now (ie_acquire ie)) = Done c" using Cons.prems l by simp
  then have "gm_slot (ap_guard s') sk = (\<lambda>n. if n < bound then Done c else Free)"
    using gm.ingest_keeps_done [OF assms(1) _ H] Cons.prems(1) by simp
  then show ?case using Cons.IH [of s'] Cons.prems(2) l H by simp
qed simp

section \<open>Examples\<close>

definition quoted :: "string \<Rightarrow> string" where
  "quoted s = CHR 0x22 # s @ [CHR 0x22]"

definition body0 :: string where
  "body0 = ''{'' @ quoted ''event_type'' @ '':'' @ quoted ''order'' @ '','' @ quoted ''payload'' @ '':[1]}''"

definition ingest_request :: "string \<Rightarrow> string \<Rightarrow> http_request" where
  "ingest_request key body =
     \<lparr>rq_Method = ''POST'', rq_URL = ''/api/v1/events'',
      rq_Header = [(''X-Tenant-Id'', [''acme'']), (''X-Idempotency-Key'', [key])], rq_Body = body\<rparr>"

definition ingest_env0 :: "int \<Rightarrow> string \<Rightarrow> ingest_env" where
  "ingest_env0 t uuid =
     \<lparr>ie_acquire = genv t, ie_now = t, ie_uuid = uuid, ie_create = genv t, ie_release = genv t, ie_set = genv t\<rparr>"

definition api0 :: "(memory_repo, memory_guard, string list \<Rightarrow> nat, nat) api_handler" where
  "api0 = NewHandler memory_repository (Some memory_guard_ops) counting_prom"

definition api_state0 :: "(memory_repo, memory_guard, string list \<Rightarrow> nat, nat) api_state" where
  "api_state0 = \<lparr>ap_repo = NewMemoryRepository, ap_guard = NewMemoryGuard, ap_metrics = None\<rparr>"

lemma decode_body0: "decode_ingest body0 = Some \<lparr>ir_EventType = ''order'', ir_Payload = ''[1]''\<rparr>"
  by code_simp

lemma json_Valid_payload0: "json_Valid ''[1]''"
  using decode_ingest_valid [OF decode_body0] by simp

lemma canonical_headers:
  "CanonicalHeaderKey ''X-Tenant-ID'' = ''X-Tenant-Id''" "CanonicalHeaderKey ''X-Idempotency-Key'' = ''X-Idempotency-Key''"
  by code_simp+

lemma decode_junk: "decode_ingest ''junk'' = None"
  by code_simp

lemma ingest_request_fields [simp]:
  "rq_Method (ingest_request key body) = ''POST''" "rq_Body (ingest_request key body) = body"
  "Header_Get (rq_Header (ingest_request key body)) HeaderTenantID = ''acme''"
  "Header_Get (rq_Header (ingest_request key body)) HeaderIdempotencyKey = key"
  by (simp_all add: ingest_request_def Header_Get_def HeaderTenantID_def HeaderIdempotencyKey_def canonical_headers)

lemma api0_fields [simp]:
  "hd_guard api0 = Some memory_guard_ops" "hd_repo api0 = memory_repository" "hd_idempTTL api0 = 86400000000000"
  by (simp_all add: api0_def NewHandler_def DefaultIdempTTL_def Hour_def)

lemma api_state0_fields [simp]:
  "ap_repo api_state0 = NewMemoryRepository" "ap_guard api_state0 = NewMemoryGuard" "ap_metrics api_state0 = None"
  by (simp_all add: api_state0_def)

lemma ingest_env0_fields [simp]:
  "ie_acquire (ingest_env0 t u) = genv t" "ie_set (ingest_env0 t u) = genv t" "ie_release (ingest_env0 t u) = genv t"
  "ie_create (ingest_env0 t u) = genv t" "ie_now (ingest_env0 t u) = t" "ie_uuid (ingest_env0 t u) = u"
  "e_ctx (genv t) = None" "e_now (genv t) = t"
  by (simp_all add: ingest_env0_def genv_def)

lemma new_guard_free [simp]: "gm_slot NewMemoryGuard sk n = Free"
  by (simp add: gm_slot_def NewMemoryGuard_def)

lemma time_json_10: "time_json 10 \<noteq> None"
proof -
  have "civil 0 = (1, 1, 1)" by (simp add: civil_def year_day_def)
  then show ?thesis by (simp add: time_json_def)
qed

text \<open>The first ingestion of the examples: accepted, and its response cached.\<close>

definition ingested0 :: Event where
  "ingested0 = ingest_event (ingest_env0 10 ''u1'') ''acme'' ''k1'' \<lparr>ir_EventType = ''order'', ir_Payload = ''[1]''\<rparr>"

lemma first_ingestion:
  obtains bytes s1 where
    "HandleIngestEvent api0 (ingest_env0 10 ''u1'') (ingest_request ''k1'' body0) writer0 api_state0 =
       (\<lparr>w_Header = Header_Set ''Content-Type'' ''application/json'' [], w_Code = 202, w_Body = [bytes]\<rparr>, s1)"
    "mr_evs (ap_repo s1) = [''evt_u1'' \<mapsto> ingested0]"
proof -
  obtain bytes where b: "ingest_response ingested0 = Some bytes"
    using time_json_10 by (auto simp: ingested0_def ingest_event_def ingest_response_def json_time_def)
  obtain g where a: "gd_AcquireLock memory_guard_ops (genv 10) ''acme'' ''k1'' 86400000000000 NewMemoryGuard =
      (Inr (True, None), g)"
    by (simp add: memory_guard_ops_def gm_AcquireLock_def NewMemoryGuard_def Let_def)
  obtain ob r1 where c: "mr_CreateEventWithOutbox (genv 10) ingested0 (ingest_outbox (ingest_env0 10 ''u1''))
      NewMemoryRepository = (Inr (ingested0, ob), r1)" "mr_evs r1 = [''evt_u1'' \<mapsto> ingested0]"
    by (simp add: mr_CreateEventWithOutbox_def NewMemoryRepository_def Let_def ingested0_def ingest_event_def)
  obtain s1 where "ingest_locked api0 (Some memory_guard_ops) (ingest_env0 10 ''u1'') (ingest_request ''k1'' body0) ''acme'' ''k1''
      writer0 (api_state0\<lparr>ap_guard := g\<rparr>) =
      (\<lparr>w_Header = Header_Set ''Content-Type'' ''application/json'' [], w_Code = 202, w_Body = [bytes]\<rparr>, s1)" "ap_repo s1 = r1"
    using b c(1) by (simp add: ingest_locked_def decode_body0 json_Valid_payload0 memory_repository_def
        ingested0_def [symmetric] writer0_def Let_def)
  then have "HandleIngestEvent api0 (ingest_env0 10 ''u1'') (ingest_request ''k1'' body0) writer0 api_state0 =
      (\<lparr>w_Header = Header_Set ''Content-Type'' ''application/json'' [], w_Code = 202, w_Body = [bytes]\<rparr>, s1)"
    using a by (simp add: HandleIngestEvent_def Let_def)
  then show thesis using that c(2) \<open>ap_repo s1 = r1\<close> by simp
qed

section \<open>Properties\<close>

text \<open>C5: an ingestion is all or nothing: it stores one new PENDING event with the tenant, key, type and
  raw payload of the request, valid JSON, together with one new PENDING outbox row that names it, or it
  stores nothing; and a 202 response that is not a replay means that it stored them.\<close>

theorem ingest_all_or_nothing:
  assumes "HandleIngestEvent h ie r w s = (w', s')" "hd_repo h = memory_repository" "mr_inv (ap_repo s)"
  shows "(mr_evs (ap_repo s') = mr_evs (ap_repo s) \<and> mr_obs (ap_repo s') = mr_obs (ap_repo s) \<and>
      (w_Code w' = 202 \<longrightarrow> Header_Get (w_Header w') ''X-Idempotency-Replay'' = ''true'')) \<or>
    (\<exists>req v n ob. decode_ingest (rq_Body r) = Some req \<and> json_Valid (ir_Payload req) \<and> ir_EventType req \<noteq> '''' \<and>
      (\<exists>t. v = (ingest_event ie (Header_Get (rq_Header r) HeaderTenantID) (Header_Get (rq_Header r) HeaderIdempotencyKey) req)
         \<lparr>ev_CreatedAt := t\<rparr>) \<and>
      mr_evs (ap_repo s) (ev_ID v) = None \<and> mr_evs (ap_repo s') = (mr_evs (ap_repo s))(ev_ID v \<mapsto> v) \<and>
      mr_obs (ap_repo s) n = None \<and> mr_obs (ap_repo s') = (mr_obs (ap_repo s))(n \<mapsto> ob) \<and>
      ob_EventID ob = ev_ID v \<and> ob_Status ob = OutboxStatusPending)"
    (is "?none \<or> ?one")
proof -
  let ?t = "Header_Get (rq_Header r) HeaderTenantID" and ?k = "Header_Get (rq_Header r) HeaderIdempotencyKey"
  have locked: "?none \<or> ?one"
    if l: "ingest_locked h lock ie r ?t ?k w s0 = (w', s')" and repo: "ap_repo s0 = ap_repo s" for lock s0
    using l
  proof (cases rule: ingest_locked_cases)
    case Refused
    then have "mr_evs (ap_repo s') = mr_evs (ap_repo s) \<and> mr_obs (ap_repo s') = mr_obs (ap_repo s)"
      using mr.create_error [OF assms(3)] assms(2) repo by auto
    then show ?thesis using Refused(1) by auto
  next
    case (Created req v ob)
    have valid: "json_Valid (ir_Payload req)" using decode_ingest_valid [OF Created(1)] Created(3) by blast
    have "rp_CreateEventWithOutbox memory_repository (ie_create ie) (ingest_event ie ?t ?k req) (ingest_outbox ie)
        (ap_repo s) = (Inr (v, ob), ap_repo s')"
      using Created(5) assms(2) repo by simp
    note c = mr.create_ok [OF assms(3) this]
    from c obtain t where v: "v = (ingest_event ie ?t ?k req)\<lparr>ev_CreatedAt := t\<rparr>" by blast
    from c obtain t' where ob: "ob = (ingest_outbox ie)\<lparr>ob_ID := ob_ID ob, ob_CreatedAt := t'\<rparr>" by blast
    have id: "ev_ID v = ev_ID (ingest_event ie ?t ?k req)" using v by simp
    have obs: "ob_EventID ob = ev_ID v \<and> ob_Status ob = OutboxStatusPending"
      by (subst (1 2) ob) (simp add: ingest_outbox_def id ingest_event_def)
    show ?thesis
      using c valid Created(1,2) v id obs by (intro disjI2 exI [of _ req] exI [of _ v] exI [of _ "ob_ID ob"] exI [of _ ob]) auto
  qed
  from assms(1) show ?thesis
  proof (cases rule: HandleIngestEvent_cases)
    case Unlocked
    then show ?thesis using locked by blast
  next
    case (Checked G res g)
    then show ?thesis using locked [of "Some G" "s\<lparr>ap_guard := g\<rparr>"] by auto
  qed auto
qed

theorem ingest_all_or_nothing_witness:
  "\<exists>w' s1. HandleIngestEvent api0 (ingest_env0 10 ''u1'') (ingest_request ''k1'' body0) writer0 api_state0 = (w', s1) \<and>
     mr_evs (ap_repo s1) = [''evt_u1'' \<mapsto> ingested0] \<and>
     (\<exists>n ob. mr_obs (ap_repo s1) = [n \<mapsto> ob] \<and> ob_EventID ob = ''evt_u1'')"
proof -
  obtain bytes s1 where f: "HandleIngestEvent api0 (ingest_env0 10 ''u1'') (ingest_request ''k1'' body0) writer0 api_state0 =
       (\<lparr>w_Header = Header_Set ''Content-Type'' ''application/json'' [], w_Code = 202, w_Body = [bytes]\<rparr>, s1)"
    "mr_evs (ap_repo s1) = [''evt_u1'' \<mapsto> ingested0]"
    using first_ingestion .
  have inv: "mr_inv (ap_repo api_state0)" using mr_reachable_inv [OF reach_new] by simp
  have new: "mr_evs (ap_repo api_state0) = Map.empty" "mr_obs (ap_repo api_state0) = Map.empty"
    by (simp_all add: NewMemoryRepository_def)
  have "mr_evs (ap_repo s1) \<noteq> mr_evs (ap_repo api_state0)" using f(2) new by simp
  then obtain v n ob where o: "mr_evs (ap_repo s1) = [ev_ID v \<mapsto> v]" "mr_obs (ap_repo s1) = [n \<mapsto> ob]" "ob_EventID ob = ev_ID v"
    using ingest_all_or_nothing [OF f(1) api0_fields(2) inv] unfolding new by blast
  then have "ev_ID v = ''evt_u1''" using f(2) by (metis fun_upd_same fun_upd_other option.distinct(1))
  then show ?thesis using f o by auto
qed

text \<open>C6: idempotency of ingestion: once a keyed request was answered 202 after a fresh check, then until
  the time to live of its response has passed, and whatever other ingestions happen in between, every
  request of the same tenant with the same key is answered with the same status and body, marked as a
  replay, and changes nothing, whatever its body is.\<close>

theorem ingest_replayed:
  assumes "HandleIngestEvent h ie r w s = (w1, s1)" "hd_guard h = Some memory_guard_ops" "gm_inv (ap_guard s)"
    and "rq_Method r = ''POST''" "Header_Get (rq_Header r) HeaderTenantID = t" "t \<noteq> ''''"
    and "Header_Get (rq_Header r) HeaderIdempotencyKey = k" "k \<noteq> ''''"
    and "live (ie_acquire ie)" "gm_slot (ap_guard s) (memoryKey t k) (e_now (ie_acquire ie)) = Free"
    and "live (ie_set ie)" "w_Code w1 = 202"
    and "\<forall>(ie', r', w') \<in> set ls. e_now (ie_acquire ie') < e_now (ie_set ie) + hd_idempTTL h"
    and "rq_Method r2 = ''POST''" "Header_Get (rq_Header r2) HeaderTenantID = t"
    and "Header_Get (rq_Header r2) HeaderIdempotencyKey = k" "live (ie_acquire ie2)"
    and "e_now (ie_acquire ie2) < e_now (ie_set ie) + hd_idempTTL h"
  shows "\<exists>bytes w2. w_Body w1 = w_Body w @ [bytes] \<and>
     HandleIngestEvent h ie2 r2 w0 (ingest_run h ls s1) = (w2, ingest_run h ls s1) \<and>
     w_Code w2 = 202 \<and> w_Body w2 = w_Body w0 @ [bytes] \<and> Header_Get (w_Header w2) ''X-Idempotency-Replay'' = ''true''"
proof -
  obtain g where "ingest_locked h (Some memory_guard_ops) ie r t k w (s\<lparr>ap_guard := g\<rparr>) = (w1, s1)"
    using gm.ingest_fresh [OF assms(2,9,4-8,10,3,1)] .
  then obtain bytes where b: "w_Body w1 = w_Body w @ [bytes]"
    "ap_guard s1 = cache_response (Some memory_guard_ops) ie (hd_idempTTL h) t k bytes g"
    using assms(12) by (cases rule: ingest_locked_cases) auto
  let ?c = "\<lparr>cr_StatusCode = 202, cr_Body = bytes, cr_CompletedAt = e_now (ie_set ie)\<rparr>"
  obtain ro g1 where "gd_SetResponse memory_guard_ops (ie_set ie) t k 202 bytes (hd_idempTTL h) g = (ro, g1)" by fastforce
  then have "gm_slot (ap_guard s1) (memoryKey t k) = (\<lambda>n. if n < e_now (ie_set ie) + hd_idempTTL h then Done ?c else Free)"
    using gm.set_ok [OF assms(11,6,8)] b(2) by (simp add: cache_response_def)
  then have "gm_slot (ap_guard (ingest_run h ls s1)) (memoryKey t k) (e_now (ie_acquire ie2)) = Done ?c"
    using run_keeps_done [OF assms(2) _ assms(13)] assms(18) by simp
  then show ?thesis
    using gm.ingest_cached [OF assms(2,17,14,15,6,16,8)] b(1) by (intro exI [of _ bytes] exI conjI) (assumption | simp)+
qed

theorem ingest_replayed_witness:
  "\<exists>bytes s1 w2. HandleIngestEvent api0 (ingest_env0 10 ''u1'') (ingest_request ''k1'' body0) writer0 api_state0 =
       (\<lparr>w_Header = Header_Set ''Content-Type'' ''application/json'' [], w_Code = 202, w_Body = [bytes]\<rparr>, s1) \<and>
     HandleIngestEvent api0 (ingest_env0 500 ''u3'') (ingest_request ''k1'' ''junk'') writer0
       (ingest_run api0 [(ingest_env0 400 ''u2'', ingest_request ''k2'' body0, writer0)] s1) =
       (w2, ingest_run api0 [(ingest_env0 400 ''u2'', ingest_request ''k2'' body0, writer0)] s1) \<and>
     w_Code w2 = 202 \<and> w_Body w2 = [bytes]"
proof -
  obtain bytes s1 where f: "HandleIngestEvent api0 (ingest_env0 10 ''u1'') (ingest_request ''k1'' body0) writer0 api_state0 =
       (\<lparr>w_Header = Header_Set ''Content-Type'' ''application/json'' [], w_Code = 202, w_Body = [bytes]\<rparr>, s1)"
    "mr_evs (ap_repo s1) = [''evt_u1'' \<mapsto> ingested0]"
    using first_ingestion .
  have wb: "w_Body writer0 = []" by (simp add: writer0_def)
  have "\<exists>b w2. [bytes] = w_Body writer0 @ [b] \<and>
     HandleIngestEvent api0 (ingest_env0 500 ''u3'') (ingest_request ''k1'' ''junk'') writer0
       (ingest_run api0 [(ingest_env0 400 ''u2'', ingest_request ''k2'' body0, writer0)] s1) =
       (w2, ingest_run api0 [(ingest_env0 400 ''u2'', ingest_request ''k2'' body0, writer0)] s1) \<and>
     w_Code w2 = 202 \<and> w_Body w2 = w_Body writer0 @ [b] \<and> Header_Get (w_Header w2) ''X-Idempotency-Replay'' = ''true''"
    using ingest_replayed [OF f(1), where t = "''acme''" and k = "''k1''"
        and ls = "[(ingest_env0 400 ''u2'', ingest_request ''k2'' body0, writer0)]"
        and ?r2.0 = "ingest_request ''k1'' ''junk''" and ?ie2.0 = "ingest_env0 500 ''u3''" and ?w0.0 = writer0]
    unfolding wb by simp
  then show ?thesis using f(1) unfolding wb by auto
qed

text \<open>C36: a keyed ingestion that stored nothing and is not answered 202 leaves its key free when its
  context is still live at the release: the next request with the key is not blocked.\<close>

theorem ingest_refusal_frees_key:
  assumes "HandleIngestEvent h ie r w s = (w1, s1)" "hd_guard h = Some memory_guard_ops" "gm_inv (ap_guard s)"
    and "rq_Method r = ''POST''" "Header_Get (rq_Header r) HeaderTenantID = t" "t \<noteq> ''''"
    and "Header_Get (rq_Header r) HeaderIdempotencyKey = k" "k \<noteq> ''''"
    and "live (ie_acquire ie)" "gm_slot (ap_guard s) (memoryKey t k) (e_now (ie_acquire ie)) = Free"
    and "live (ie_release ie)" "w_Code w1 \<noteq> 202" "hd_repo h = memory_repository" "mr_inv (ap_repo s)"
    and "mr_evs (ap_repo s1) = mr_evs (ap_repo s)"
  shows "gm_slot (ap_guard s1) (memoryKey t k) n = Free"
proof -
  obtain g where g: "gm_inv g" "gm_slot g (memoryKey t k) = (\<lambda>n. if n < e_now (ie_acquire ie) + hd_idempTTL h then InFlight else Free)"
    "ingest_locked h (Some memory_guard_ops) ie r t k w (s\<lparr>ap_guard := g\<rparr>) = (w1, s1)"
    using gm.ingest_fresh [OF assms(2,9,4-8,10,3,1)] .
  from g(3) show ?thesis
  proof (cases rule: ingest_locked_cases)
    case Refused
    obtain ro g1 where r: "gd_ReleaseLock memory_guard_ops (ie_release ie) t k g = (ro, g1)" by fastforce
    have "gm_slot g1 (memoryKey t k) n = Free"
      using gm.release_ok [OF g(1) assms(11,6,8) r] g(2) by simp
    then show ?thesis using Refused(2) r by (simp add: release_lock_def)
  next
    case (Created req v ob)
    have "rp_CreateEventWithOutbox memory_repository (ie_create ie) (ingest_event ie t k req) (ingest_outbox ie) (ap_repo s) =
        (Inr (v, ob), ap_repo s1)" using Created(5) assms(13) by simp
    from mr.create_ok [OF assms(14) this] assms(15) show ?thesis by (metis fun_upd_same option.distinct(1))
  qed
qed

theorem ingest_refusal_frees_key_witness:
  "\<exists>w1 s1. HandleIngestEvent api0 (ingest_env0 10 ''u1'') (ingest_request ''k1'' ''junk'') writer0 api_state0 = (w1, s1) \<and>
     w_Code w1 = 400 \<and> gm_slot (ap_guard s1) (memoryKey ''acme'' ''k1'') 20 = Free"
proof -
  obtain w1 s1 where H: "HandleIngestEvent api0 (ingest_env0 10 ''u1'') (ingest_request ''k1'' ''junk'') writer0 api_state0 = (w1, s1)"
    by fastforce
  have r: "w_Code w1 = 400" "ap_repo s1 = NewMemoryRepository"
    using H by (auto simp: HandleIngestEvent_def memory_guard_ops_def gm_AcquireLock_def NewMemoryGuard_def
        ingest_locked_def decode_junk ingest_reject_eq Let_def)
  have "mr_inv (ap_repo api_state0)" using mr_reachable_inv [OF reach_new] by simp
  with ingest_refusal_frees_key [OF H] H r show ?thesis by simp
qed

text \<open>The release runs under the request's context: when that has ended, the failed request keeps its
  lock, and until the time to live of the lock has passed every request with the key is answered
  409, although nothing is in flight and nothing was stored.\<close>

theorem cancelled_ingest_keeps_lock:
  assumes "HandleIngestEvent h ie r w s = (w1, s1)" "hd_guard h = Some memory_guard_ops" "gm_inv (ap_guard s)"
    and "rq_Method r = ''POST''" "Header_Get (rq_Header r) HeaderTenantID = t" "t \<noteq> ''''"
    and "Header_Get (rq_Header r) HeaderIdempotencyKey = k" "k \<noteq> ''''"
    and "live (ie_acquire ie)" "gm_slot (ap_guard s) (memoryKey t k) (e_now (ie_acquire ie)) = Free"
    and "e_ctx (ie_release ie) = Some err" "w_Code w1 \<noteq> 202"
    and "rq_Method r2 = ''POST''" "Header_Get (rq_Header r2) HeaderTenantID = t"
    and "Header_Get (rq_Header r2) HeaderIdempotencyKey = k" "live (ie_acquire ie2)"
    and "e_now (ie_acquire ie2) < e_now (ie_acquire ie) + hd_idempTTL h"
  shows "w_Code (fst (HandleIngestEvent h ie2 r2 w2 s1)) = 409 \<and> ap_repo (snd (HandleIngestEvent h ie2 r2 w2 s1)) = ap_repo s1"
proof -
  obtain g where g: "gm_slot g (memoryKey t k) = (\<lambda>n. if n < e_now (ie_acquire ie) + hd_idempTTL h then InFlight else Free)"
    "ingest_locked h (Some memory_guard_ops) ie r t k w (s\<lparr>ap_guard := g\<rparr>) = (w1, s1)"
    using gm.ingest_fresh [OF assms(2,9,4-8,10,3,1)] .
  have "ap_guard s1 = g"
    using g(2)
  proof (cases rule: ingest_locked_cases)
    case Refused
    then show ?thesis using gm.release_dead [OF assms(11), of t k g] by (simp add: release_lock_def)
  next
    case (Created req v ob)
    then show ?thesis using assms(12) by auto
  qed
  then have busy: "gm_slot (ap_guard s1) (memoryKey t k) (e_now (ie_acquire ie2)) = InFlight"
    using g(1) assms(17) by simp
  obtain res g2 where acq: "gd_AcquireLock memory_guard_ops (ie_acquire ie2) t k (hd_idempTTL h) (ap_guard s1) = (res, g2)"
    by fastforce
  have "res = Inr (False, None)" using gm.acquire_busy [OF assms(16,6,8) busy acq] by blast
  then show ?thesis using acq assms(2,6,8,13-15) by (simp add: HandleIngestEvent_def Let_def)
qed

theorem cancelled_ingest_keeps_lock_witness:
  "\<exists>w1 s1. HandleIngestEvent api0 ((ingest_env0 10 ''u1'')\<lparr>ie_release := (genv 10)\<lparr>e_ctx := Some CtxCanceled\<rparr>\<rparr>)
       (ingest_request ''k1'' ''junk'') writer0 api_state0 = (w1, s1) \<and> w_Code w1 = 400 \<and>
     w_Code (fst (HandleIngestEvent api0 (ingest_env0 80000000000000 ''u2'') (ingest_request ''k1'' body0) writer0 s1)) = 409"
proof -
  let ?ie = "(ingest_env0 10 ''u1'')\<lparr>ie_release := (genv 10)\<lparr>e_ctx := Some CtxCanceled\<rparr>\<rparr>"
  obtain w1 s1 where H: "HandleIngestEvent api0 ?ie (ingest_request ''k1'' ''junk'') writer0 api_state0 = (w1, s1)"
    by fastforce
  have r: "w_Code w1 = 400"
    using H by (auto simp: HandleIngestEvent_def memory_guard_ops_def gm_AcquireLock_def NewMemoryGuard_def
        ingest_locked_def decode_junk ingest_reject_eq Let_def)
  with cancelled_ingest_keeps_lock [OF H, where ?r2.0 = "ingest_request ''k1'' body0" and ?ie2.0 = "ingest_env0 80000000000000 ''u2''"
      and ?w2.0 = writer0] H
  show ?thesis by simp
qed

text \<open>Registering an endpoint: a 201 response means that a new endpoint was stored under a fresh
  identifier for the tenant of the header, active, with an http or https URL, a secret and a positive
  rate limit, exactly as the request gave them; any other response stores nothing.\<close>

theorem endpoint_registered:
  assumes "HandleCreateEndpoint uri_scheme h e uuid r w s = (w', s')" "hd_repo h = memory_repository"
    and "e_now e \<noteq> 0"
  shows "(w_Code w' \<noteq> 201 \<and> ap_repo s' = ap_repo s) \<or>
    (w_Code w' = 201 \<and> (\<exists>req ep. decode_create (rq_Body r) = Some req \<and>
       ep = created_endpoint (e_now e) uuid (Header_Get (rq_Header r) HeaderTenantID) req \<and>
       ep_TenantID ep \<noteq> '''' \<and> uri_scheme (ep_URL ep) \<in> {Some ''http'', Some ''https''} \<and> ep_Secret ep \<noteq> '''' \<and>
       ep_IsActive ep \<and> 0 < ep_RateLimit ep \<and> map_of (mr_endpoints (ap_repo s)) (ep_ID ep) = None \<and>
       map_of (mr_endpoints (ap_repo s')) = (map_of (mr_endpoints (ap_repo s)))(ep_ID ep \<mapsto> ep)))"
proof -
  let ?t = "Header_Get (rq_Header r) HeaderTenantID"
  consider (early) "s' = s" "w_Code w' \<in> {400, 405}"
    | (store) req where "decode_create (rq_Body r) = Some req"
        "Endpoint_Validate uri_scheme (created_endpoint (e_now e) uuid ?t req) = None"
        "(case mr_CreateEndpoint e (created_endpoint (e_now e) uuid ?t req) (ap_repo s) of
            (Some err, r1) \<Rightarrow> w_Code w' \<in> {409, 500} \<and> s' = s\<lparr>ap_repo := r1\<rparr>
          | (None, r1) \<Rightarrow> w_Code w' = 201 \<and> s' = s\<lparr>ap_repo := r1\<rparr>)"
    using assms(1,2)
    by (auto simp: HandleCreateEndpoint_def memory_repository_def writeJSON_def writeJSONError_def Let_def
        split: if_splits option.splits prod.splits)
  then show ?thesis
  proof cases
    case early
    then show ?thesis by auto
  next
    case store
    let ?ep = "created_endpoint (e_now e) uuid ?t req"
    have f: "ep_IsActive ?ep" "0 < ep_RateLimit ?ep" "ep_CreatedAt ?ep \<noteq> 0" "ep_UpdatedAt ?ep \<noteq> 0"
      using assms(3) by (simp_all add: created_endpoint_def)
    show ?thesis
    proof (cases "fst (mr_CreateEndpoint e ?ep (ap_repo s))")
      case None
      then have "map_of (mr_endpoints (ap_repo s)) (ep_ID ?ep) = None"
        "mr_CreateEndpoint e ?ep (ap_repo s) =
           (None, (ap_repo s)\<lparr>mr_endpoints := AList.update (ep_ID ?ep) ?ep (mr_endpoints (ap_repo s))\<rparr>)"
        using f by (auto simp: mr_CreateEndpoint_def Let_def split: option.splits if_splits)
      then show ?thesis
        using store f by (intro disjI2) (auto simp: Endpoint_Validate_ok)
    next
      case (Some err)
      then have "snd (mr_CreateEndpoint e ?ep (ap_repo s)) = ap_repo s"
        by (auto simp: mr_CreateEndpoint_def Let_def split: option.splits if_splits)
      then show ?thesis using store(3) Some
        by (cases "mr_CreateEndpoint e ?ep (ap_repo s)") auto
    qed
  qed
qed

definition body_endpoint :: string where
  "body_endpoint = ''{'' @ quoted ''URL'' @ '':'' @ quoted ''http://x'' @ '','' @ quoted ''secret'' @ '':'' @ quoted ''s'' @ ''}''"

lemma decode_body_endpoint:
  "decode_create body_endpoint = Some \<lparr>cq_URL = ''http://x'', cq_Secret = ''s'', cq_RateLimit = 0\<rparr>"
  by code_simp

definition scheme0 :: "string \<Rightarrow> string option" where
  "scheme0 url = (case strip_prefix ''http'' url of None \<Rightarrow> None | Some rest \<Rightarrow> Some ''http'')"

theorem endpoint_registered_witness:
  "\<exists>w' s' ep. HandleCreateEndpoint scheme0 api0 (genv 10) ''u'' (ingest_request '''' body_endpoint) writer0 api_state0 =
       (w', s') \<and> w_Code w' = 201 \<and> map_of (mr_endpoints (ap_repo s')) ''ep_u'' = Some ep \<and> ep_RateLimit ep = 100"
proof -
  obtain w' s' where H: "HandleCreateEndpoint scheme0 api0 (genv 10) ''u'' (ingest_request '''' body_endpoint) writer0 api_state0 = (w', s')"
    by fastforce
  have "w_Code w' = 201"
    using H by (simp add: HandleCreateEndpoint_def decode_body_endpoint created_endpoint_def Endpoint_Validate_def
        scheme0_def memory_repository_def mr_CreateEndpoint_def NewMemoryRepository_def writeJSON_def Let_def
        split: prod.splits option.splits) auto
  moreover have "e_now (genv 10) \<noteq> 0" by (simp add: genv_def)
  ultimately show ?thesis
    using endpoint_registered [OF H api0_fields(2)] H
    by (auto simp: decode_body_endpoint created_endpoint_def)
qed

text \<open>Replaying the dead-letter queue over HTTP: the handler accepts between 1 and 100 identifiers and
  then does exactly one \<open>ReplayDLQEvents\<close> for the tenant of the header, answering with its count; a
  request it refuses changes nothing.\<close>

theorem replay_handler_exact:
  assumes "HandleReplayDLQ h e r w s = (w', s')"
  shows "(w_Code w' \<in> {400, 405} \<and> s' = s) \<or>
    (\<exists>ids. decode_replay (rq_Body r) = Some ids \<and> 1 \<le> length ids \<and> length ids \<le> 100 \<and> rq_Method r = ''POST'' \<and>
       (case rp_ReplayDLQEvents (hd_repo h) e (Header_Get (rq_Header r) HeaderTenantID) ids (ap_repo s) of
          (Inl err, r1) \<Rightarrow> w_Code w' = 500 \<and> s' = s\<lparr>ap_repo := r1\<rparr>
        | (Inr n, r1) \<Rightarrow> s' = s\<lparr>ap_repo := r1\<rparr> \<and>
            w' = writeJSON w 200 (Some (JObject [(''replayed_count'', JInt n), (''status'', JString ''QUEUED_FOR_RETRY'')]))))"
proof (cases "rq_Method r = ''POST'' \<and> Header_Get (rq_Header r) HeaderTenantID \<noteq> []")
  case False
  then show ?thesis using assms by (auto simp: HandleReplayDLQ_def Let_def split: if_splits)
next
  case True
  show ?thesis
  proof (cases "decode_replay (rq_Body r)")
    case None
    then show ?thesis using assms True by (auto simp: HandleReplayDLQ_def Let_def)
  next
    case (Some ids)
    show ?thesis
    proof (cases "1 \<le> length ids \<and> length ids \<le> 100")
      case False
      then show ?thesis using assms True Some by (auto simp: HandleReplayDLQ_def Let_def Suc_le_eq split: if_splits)
    next
      case ok: True
      then have "ids \<noteq> []" "\<not> 100 < length ids" by auto
      then show ?thesis using assms True Some ok
        by (cases "rp_ReplayDLQEvents (hd_repo h) e (Header_Get (rq_Header r) HeaderTenantID) ids (ap_repo s)"; cases "fst (rp_ReplayDLQEvents (hd_repo h) e (Header_Get (rq_Header r) HeaderTenantID) ids (ap_repo s))")
          (auto simp: HandleReplayDLQ_def Let_def)
    qed
  qed
qed

definition body_replay :: string where
  "body_replay = ''{'' @ quoted ''event_ids'' @ '':['' @ quoted ''ev1'' @ '','' @ quoted ''x'' @ '']}''"

lemma decode_body_replay: "decode_replay body_replay = Some [''ev1'', ''x'']"
  by code_simp

theorem replay_handler_exact_witness:
  "\<exists>w' s'. HandleReplayDLQ api0 env0 (ingest_request '''' body_replay) writer0 (api_state0\<lparr>ap_repo := repo2\<rparr>) = (w', s') \<and>
     w_Code w' = 200 \<and> ap_repo s' = snd (mr_ReplayDLQEvents env0 ''acme'' [''ev1'', ''x''] repo2)"
proof -
  obtain w' s' where H: "HandleReplayDLQ api0 env0 (ingest_request '''' body_replay) writer0 (api_state0\<lparr>ap_repo := repo2\<rparr>) = (w', s')"
    by fastforce
  obtain res r1 where R: "mr_ReplayDLQEvents env0 ''acme'' [''ev1'', ''x''] repo2 = (res, r1)" by fastforce
  have "\<exists>n. res = Inr n" using R by (auto simp: mr_ReplayDLQEvents_def env0_def split: prod.splits)
  then obtain n where n: "res = Inr n" by blast
  have "w_Code w' \<notin> {400, 405}"
    using H R n by (auto simp: HandleReplayDLQ_def decode_body_replay memory_repository_def writeJSON_def Let_def)
  with replay_handler_exact [OF H] H R n show ?thesis
    by (auto simp: decode_body_replay memory_repository_def writeJSON_def)
qed

lemma cors_keys:
  "(CanonicalHeaderKey ''Access-Control-Allow-Origin'' = CanonicalHeaderKey ''Content-Type'') = False"
  "(CanonicalHeaderKey ''Access-Control-Allow-Origin'' = CanonicalHeaderKey ''X-Content-Type-Options'') = False"
  "(CanonicalHeaderKey ''Access-Control-Allow-Origin'' = CanonicalHeaderKey ''X-Idempotency-Replay'') = False"
  "(CanonicalHeaderKey ''Access-Control-Allow-Origin'' = CanonicalHeaderKey ''Allow'') = False"
  "(CanonicalHeaderKey ''Access-Control-Allow-Origin'' = CanonicalHeaderKey ''Access-Control-Allow-Methods'') = False"
  "(CanonicalHeaderKey ''Access-Control-Allow-Origin'' = CanonicalHeaderKey ''Access-Control-Allow-Headers'') = False"
  "(CanonicalHeaderKey ''Access-Control-Allow-Origin'' = CanonicalHeaderKey ''Access-Control-Expose-Headers'') = False"
  by code_simp+

abbreviation allow_origin :: "http_writer \<Rightarrow> string" where
  "allow_origin w \<equiv> Header_Get (w_Header w) ''Access-Control-Allow-Origin''"

lemma allow_origin_writes [simp]:
  "allow_origin (writeJSON w n d) = allow_origin w" "allow_origin (writeJSONError w n m) = allow_origin w"
  "allow_origin (http_Error w m n) = allow_origin w"
  by (simp_all add: writeJSONError_def writeJSON_def http_Error_def cors_keys)

lemma allow_origin_ingest:
  "HandleIngestEvent h ie r w s = (w', s') \<Longrightarrow> allow_origin w' = allow_origin w"
proof -
  have locked: "allow_origin w' = allow_origin w" if "ingest_locked h lock ie r t k w s0 = (w', s')" for lock t k s0
  proof -
    have rej: "allow_origin (fst (ingest_reject lock ie t k w n m s1)) = allow_origin w" for n m s1
      by (simp add: ingest_reject_eq)
    have "allow_origin (fst (ingest_locked h lock ie r t k w s0)) = allow_origin w"
      unfolding ingest_locked_def
      by (simp add: rej cors_keys Let_def split: option.split sum.split prod.split)
    then show ?thesis using that by simp
  qed
  assume "HandleIngestEvent h ie r w s = (w', s')"
  then show ?thesis
    unfolding HandleIngestEvent_def Let_def
    by (auto simp: cors_keys split: if_splits option.splits sum.splits prod.splits dest: locked)
qed

lemma allow_origin_handlers:
  "HandleCreateEndpoint uri_scheme h e uuid r w s = (w', s') \<Longrightarrow> allow_origin w' = allow_origin w"
  "HandleReplayDLQ h e r w s = (w', s') \<Longrightarrow> allow_origin w' = allow_origin w"
  "allow_origin (HandleListEndpoints h e r w s) = allow_origin w"
  "allow_origin (HandleListDLQ h e r w s) = allow_origin w"
  "allow_origin (HandleHealthz now r w) = allow_origin w"
  "HandleEventStream h r w = Some w' \<Longrightarrow> allow_origin w' = allow_origin w"
  by (auto simp: HandleCreateEndpoint_def HandleReplayDLQ_def HandleListEndpoints_def HandleListDLQ_def
      HandleHealthz_def HandleEventStream_def Let_def split: if_splits option.splits sum.splits prod.splits)

fun served_writer :: "served \<Rightarrow> http_writer" where
  "served_writer (Response w) = w"
| "served_writer (Stream w) = w"
| "served_writer (MetricsPage w) = w"
| "served_writer (Redirect w path) = w"

lemma allow_origin_call:
  "call_handler uri_scheme h route sv r w s = (res, s') \<Longrightarrow> allow_origin (served_writer res) = allow_origin w"
  by (cases route) (auto simp: call_handler_def allow_origin_ingest allow_origin_handlers split: prod.splits option.splits)

lemma allow_origin_mux:
  assumes "mux_serve uri_scheme h sv r w s = (res, s')"
  shows "allow_origin (served_writer res) = allow_origin w"
proof (cases "route_for (rq_Method r) (if rq_Method r = ''CONNECT'' then rq_URL r else cleanPath (rq_URL r))")
  case None
  then show ?thesis using assms by (auto simp: mux_serve_def cors_keys Let_def split: if_splits list.splits)
next
  case (Some route)
  then show ?thesis
    using assms allow_origin_call [of uri_scheme h route sv r w s res s'] by (auto simp: mux_serve_def Let_def split: if_splits)
qed

text \<open>CORS: every response to every request, errors of the multiplexer included, carries the origin of the
  request (or a star) as its allowed origin, and a preflight is answered 204 without anything else
  happening.\<close>

theorem cors_on_every_response:
  "allow_origin (served_writer (fst (NewRouter uri_scheme h sv r w s))) =
      (if Header_Get (rq_Header r) ''Origin'' = [] then ''*'' else Header_Get (rq_Header r) ''Origin'') \<and>
   NewRouter uri_scheme h sv r w s =
      (if rq_Method r = ''OPTIONS''
       then (Response \<lparr>w_Header = cors_header (Header_Get (rq_Header r) ''Origin'') (w_Header w), w_Code = 204,
               w_Body = w_Body w\<rparr>, s)
       else mux_serve uri_scheme h sv r
              (w\<lparr>w_Header := cors_header (Header_Get (rq_Header r) ''Origin'') (w_Header w)\<rparr>) s)"
proof -
  let ?origin = "Header_Get (rq_Header r) ''Origin''"
  let ?w = "w\<lparr>w_Header := cors_header ?origin (w_Header w)\<rparr>"
  have o: "allow_origin ?w = (if ?origin = [] then ''*'' else ?origin)"
    by (simp add: cors_header_def cors_keys)
  have eq: "NewRouter uri_scheme h sv r w s =
      (if rq_Method r = ''OPTIONS''
       then (Response \<lparr>w_Header = cors_header ?origin (w_Header w), w_Code = 204, w_Body = w_Body w\<rparr>, s)
       else mux_serve uri_scheme h sv r ?w s)"
    by (simp add: NewRouter_def corsMiddleware_def Let_def)
  have "allow_origin (served_writer (fst (NewRouter uri_scheme h sv r w s))) = allow_origin ?w"
  proof (cases "rq_Method r = ''OPTIONS''")
    case False
    then show ?thesis unfolding eq using allow_origin_mux [OF surjective_pairing, of uri_scheme h sv r ?w s] by simp
  qed (simp add: eq)
  then show ?thesis using o eq by simp
qed

text \<open>The multiplexer lets HEAD requests through to the handlers of GET routes, and these refuse them: every
  HEAD request to the endpoint list, the dead-letter list, the event stream or the health check is
  answered 405, and changes nothing.\<close>

theorem head_requests_refused:
  assumes "rq_Method r = ''HEAD''" "rq_URL r \<in> {''/api/v1/endpoints'', ''/api/v1/dlq'', ''/api/v1/events/stream'', ''/healthz''}"
  shows "\<exists>w'. NewRouter uri_scheme h sv r w s = (Response w', s) \<and> w_Code w' = 405 \<and>
     route_for ''HEAD'' (rq_URL r) = route_for ''GET'' (rq_URL r) \<and> route_for ''HEAD'' (rq_URL r) \<noteq> None"
proof -
  have routes: "route_for ''HEAD'' ''/api/v1/endpoints'' = Some ListEndpoints" "route_for ''GET'' ''/api/v1/endpoints'' = Some ListEndpoints"
    "route_for ''HEAD'' ''/api/v1/dlq'' = Some ListDLQ" "route_for ''GET'' ''/api/v1/dlq'' = Some ListDLQ"
    "route_for ''HEAD'' ''/api/v1/events/stream'' = Some EventStream" "route_for ''GET'' ''/api/v1/events/stream'' = Some EventStream"
    "route_for ''HEAD'' ''/healthz'' = Some Healthz" "route_for ''GET'' ''/healthz'' = Some Healthz"
    by code_simp+
  have clean: "cleanPath ''/api/v1/endpoints'' = ''/api/v1/endpoints''" "cleanPath ''/api/v1/dlq'' = ''/api/v1/dlq''"
    "cleanPath ''/api/v1/events/stream'' = ''/api/v1/events/stream''" "cleanPath ''/healthz'' = ''/healthz''"
    by code_simp+
  show ?thesis
    using assms by (auto simp: NewRouter_def corsMiddleware_def mux_serve_def clean routes call_handler_def
        HandleListEndpoints_def HandleListDLQ_def HandleEventStream_def HandleHealthz_def Let_def)
qed

theorem head_requests_refused_witness:
  "\<forall>sv. \<exists>w'. NewRouter scheme0 api0 sv \<lparr>rq_Method = ''HEAD'', rq_URL = ''/healthz'', rq_Header = [], rq_Body = ''''\<rparr> writer0 api_state0 =
     (Response w', api_state0) \<and> w_Code w' = 405"
  using head_requests_refused [of "\<lparr>rq_Method = ''HEAD'', rq_URL = ''/healthz'', rq_Header = [], rq_Body = ''''\<rparr>" scheme0 api0
      _ writer0 api_state0] by fastforce

end
