(* ===== verification/Relay.thy ===== *)
theory Relay
  imports MemoryRepo QueueRuns
begin

text \<open>
  The transactional outbox relay, \<open>internal/outbox/relay.go\<close>: one batch fetches pending outbox
  rows, publishes the event of each to the stream and then marks the row; the polling loop backs
  off after errors. Every context check and every call reads its own environment, so any call
  can fail at any point. Lemmas: whatever fails, a row is marked only after its event was
  published; what a batch does when nothing fails; the backoff; termination of the drain loop.
\<close>

section \<open>The relay\<close>

definition RelayDefaultStreamName :: string where
  "RelayDefaultStreamName = ''stream:events:pending''"

record ('r, 'q) relay =
  rl_repo :: "'r repository"
  rl_queue :: "'q stream_queue"
  rl_streamName :: string

definition NewRelay :: "'r repository \<Rightarrow> 'q stream_queue \<Rightarrow> string list \<Rightarrow> ('r, 'q) relay" where
  "NewRelay repo q streamName =
     \<lparr>rl_repo = repo, rl_queue = q,
      rl_streamName = (if length streamName > 0 \<and> streamName ! 0 \<noteq> '''' then streamName ! 0
                       else RelayDefaultStreamName)\<rparr>"

text \<open>The environments of one round of the loop over a batch, and of a batch.\<close>

record item_env =
  ie_check :: "goerr option"
  ie_get :: env
  ie_publish :: env
  ie_mark :: env

record batch_env =
  be_check :: "goerr option"
  be_fetch :: env
  be_item :: "nat \<Rightarrow> item_env"

fun relay_items ::
    "('r, 'q) relay \<Rightarrow> (nat \<Rightarrow> item_env) \<Rightarrow> nat \<Rightarrow> OutboxEvent list \<Rightarrow> int \<Rightarrow> 'r \<Rightarrow> 'q \<Rightarrow>
       (int \<times> goerr option) \<times> 'r \<times> 'q" where
  "relay_items rl ies i [] processedCount r q = ((processedCount, None), r, q)"
| "relay_items rl ies i (ob # obs) processedCount r q =
     (case ie_check (ies i) of
        Some err \<Rightarrow> ((processedCount, Some err), r, q)
      | None \<Rightarrow>
     (case rp_GetEvent (rl_repo rl) (ie_get (ies i)) (ob_EventID ob) r of
        Inl err \<Rightarrow>
          if errors_is err ErrNotFound then relay_items rl ies (Suc i) obs processedCount r q
          else ((processedCount, Some (Errorf (''failed to get event '' @ ob_EventID ob) err)), r, q)
      | Inr evt \<Rightarrow>
     (case sq_PublishEvent (rl_queue rl) (ie_publish (ies i)) (rl_streamName rl) (Some evt) q of
        (Inl err, q1) \<Rightarrow>
          ((processedCount, Some (Errorf (''failed to publish event '' @ ev_ID evt @ '' to queue'') err)), r, q1)
      | (Inr msgID, q1) \<Rightarrow>
     (case rp_MarkOutboxPublished (rl_repo rl) (ie_mark (ies i)) (ob_ID ob) r of
        (Some err, r1) \<Rightarrow>
          ((processedCount,
            Some (Errorf (''failed to mark outbox '' @ show_int (ob_ID ob) @ '' as published'') err)), r1, q1)
      | (None, r1) \<Rightarrow> relay_items rl ies (Suc i) obs (processedCount + 1) r1 q1))))"

definition ProcessNextBatch ::
    "('r, 'q) relay \<Rightarrow> batch_env \<Rightarrow> int \<Rightarrow> 'r \<Rightarrow> 'q \<Rightarrow> (int \<times> goerr option) \<times> 'r \<times> 'q" where
  "ProcessNextBatch rl be batchSize0 r q =
     (case be_check be of
        Some err \<Rightarrow> ((0, Some err), r, q)
      | None \<Rightarrow>
          let batchSize = (if batchSize0 \<le> 0 then 100 else batchSize0) in
          (case rp_FetchAndLockPendingOutbox (rl_repo rl) (be_fetch be) batchSize r of
             Inl err \<Rightarrow> ((0, Some (Errorf ''failed to fetch pending outbox events'' err)), r, q)
           | Inr outboxEvents \<Rightarrow>
               if length outboxEvents = 0 then ((0, None), r, q)
               else relay_items rl (be_item be) 0 outboxEvents 0 r q))"

text \<open>The wait after \<open>n\<close> consecutive errors, and between polls.\<close>

definition relay_backoff :: "int \<Rightarrow> duration" where
  "relay_backoff consecutiveErrors =
     (let shift = (if consecutiveErrors > 6 then 6 else consecutiveErrors);
          backoff = 2 ^ nat shift * 50 * Millisecond
      in if backoff > 3 * Second then 3 * Second else backoff)"

definition relay_wait :: "duration \<Rightarrow> int \<Rightarrow> duration" where
  "relay_wait pollInterval consecutiveErrors =
     (if consecutiveErrors > 0 then relay_backoff consecutiveErrors else pollInterval)"

text \<open>
  The inner loop of \<open>Start\<close>: batches until one fails or is short. The list gives the environment
  of each batch and the context check after it; \<open>DrainMore\<close> means that the list ran out.
\<close>

datatype drain = DrainDone | DrainFailed goerr | DrainCtx goerr | DrainMore

fun relay_drain ::
    "('r, 'q) relay \<Rightarrow> int \<Rightarrow> (batch_env \<times> goerr option) list \<Rightarrow> int \<Rightarrow> 'r \<Rightarrow> 'q \<Rightarrow>
       (drain \<times> int) \<times> 'r \<times> 'q" where
  "relay_drain rl batchSize [] consecutiveErrors r q = ((DrainMore, consecutiveErrors), r, q)"
| "relay_drain rl batchSize ((be, check) # rest) consecutiveErrors r q =
     (case ProcessNextBatch rl be batchSize r q of
        ((n, Some err), r1, q1) \<Rightarrow> ((DrainFailed err, consecutiveErrors + 1), r1, q1)
      | ((n, None), r1, q1) \<Rightarrow>
          if n < batchSize then ((DrainDone, 0), r1, q1)
          else (case check of
                  Some err \<Rightarrow> ((DrainCtx err, 0), r1, q1)
                | None \<Rightarrow> relay_drain rl batchSize rest 0 r1 q1))"

text \<open>
  \<open>Start\<close> over a list of rounds: the context check at the head, whether the wait ended by the
  context or by its timer, and the batches. The result is the error it returns and the waits it
  made; \<open>None\<close> while it is still polling when the rounds run out.
\<close>

record relay_round =
  ro_check :: "goerr option"
  ro_wait :: "goerr option"
  ro_batches :: "(batch_env \<times> goerr option) list"

fun relay_loop ::
    "('r, 'q) relay \<Rightarrow> duration \<Rightarrow> int \<Rightarrow> relay_round list \<Rightarrow> int \<Rightarrow> duration list \<Rightarrow> 'r \<Rightarrow> 'q \<Rightarrow>
       (goerr option \<times> duration list) \<times> 'r \<times> 'q" where
  "relay_loop rl pollInterval batchSize [] consecutiveErrors waits r q = ((None, waits), r, q)"
| "relay_loop rl pollInterval batchSize (rd # rds) consecutiveErrors waits r q =
     (case ro_check rd of
        Some err \<Rightarrow> ((Some err, waits), r, q)
      | None \<Rightarrow>
          let waits' = waits @ [relay_wait pollInterval consecutiveErrors] in
          (case ro_wait rd of
             Some err \<Rightarrow> ((Some err, waits'), r, q)
           | None \<Rightarrow>
               (case relay_drain rl batchSize (ro_batches rd) consecutiveErrors r q of
                  ((DrainCtx err, ce), r1, q1) \<Rightarrow> ((Some err, waits'), r1, q1)
                | ((DrainMore, ce), r1, q1) \<Rightarrow> ((None, waits'), r1, q1)
                | ((_, ce), r1, q1) \<Rightarrow> relay_loop rl pollInterval batchSize rds ce waits' r1 q1)))"

definition Relay_Start ::
    "('r, 'q) relay \<Rightarrow> relay_round list \<Rightarrow> duration \<Rightarrow> int \<Rightarrow> 'r \<Rightarrow> 'q \<Rightarrow>
       (goerr option \<times> duration list) \<times> 'r \<times> 'q" where
  "Relay_Start rl rounds pollInterval batchSize r q =
     relay_loop rl (if pollInterval \<le> 0 then 100 * Millisecond else pollInterval)
       (if batchSize \<le> 0 then 100 else batchSize) rounds 0 [] r q"

section \<open>Over any repository and queue that meet their contracts\<close>

text \<open>A message that carries an event.\<close>

definition carries :: "QueueMessage \<Rightarrow> Event \<Rightarrow> bool" where
  "carries msg v \<longleftrightarrow> qm_EventID msg = ev_ID v \<and> qm_TenantID msg = ev_TenantID v \<and>
     qm_EventType msg = ev_EventType v \<and> qm_Payload msg = ev_Payload v"

text \<open>
  Every row that differs between two outboxes was among \<open>items\<close>, is now PUBLISHED and otherwise as
  it was, and the event it names is carried by one of the new messages.
\<close>

definition rows_published ::
    "(string \<Rightarrow> Event option) \<Rightarrow> (int \<Rightarrow> OutboxEvent option) \<Rightarrow> (int \<Rightarrow> OutboxEvent option) \<Rightarrow>
       OutboxEvent list \<Rightarrow> QueueMessage list \<Rightarrow> bool" where
  "rows_published events before after items new \<longleftrightarrow>
     (\<forall>n. after n = before n \<or>
        (\<exists>ob t o1 v msg. before n = Some ob \<and>
           after n = Some (ob\<lparr>ob_Status := OutboxStatusPublished, ob_ProcessedAt := t\<rparr>) \<and>
           o1 \<in> set items \<and> ob_ID o1 = n \<and> events (ob_EventID o1) = Some v \<and>
           msg \<in> set new \<and> carries msg v))"

locale relay_system =
  repo: repository_contract R evs obs inv + que: queue_contract Q log pend qinv
  for R :: "'r repository" and evs obs inv
  and Q :: "'q stream_queue" and log pend qinv
begin

lemma items_published:
  assumes "inv r" "qinv q" "relay_items \<lparr>rl_repo = R, rl_queue = Q, rl_streamName = sn\<rparr> ies i items c r q = (res, r', q')"
  shows "inv r' \<and> qinv q' \<and> evs r' = evs r \<and> pend q' = pend q \<and>
     (\<exists>new. log q' = (log q)(sn := log q sn @ new) \<and> rows_published (evs r) (obs r) (obs r') items new)"
  using assms
proof (induction items arbitrary: i c r q)
  case Nil
  then show ?case by (auto simp: rows_published_def intro!: exI [of _ "[]"])
next
  case (Cons ob items)
  let ?rl = "\<lparr>rl_repo = R, rl_queue = Q, rl_streamName = sn\<rparr>"
  let ?concl = "\<lambda>items. inv r' \<and> qinv q' \<and> evs r' = evs r \<and> pend q' = pend q \<and>
     (\<exists>new. log q' = (log q)(sn := log q sn @ new) \<and> rows_published (evs r) (obs r) (obs r') items new)"
  have same: "?concl (ob # items)" if "r' = r" "q' = q"
    using that Cons.prems(1,2) by (auto simp: rows_published_def intro!: exI [of _ "[]"])
  have weaken: "?concl items \<Longrightarrow> ?concl (ob # items)"
    by (fastforce simp: rows_published_def)
  show ?case
  proof (cases "ie_check (ies i)")
    case (Some err)
    then have "r' = r" "q' = q" using Cons.prems(3) by simp_all
    then show ?thesis by (rule same)
  next
    case check: None
    show ?thesis
    proof (cases "rp_GetEvent R (ie_get (ies i)) (ob_EventID ob) r")
      case (Inl err)
      show ?thesis
      proof (cases "errors_is err ErrNotFound")
        case True
        then have "relay_items ?rl ies (Suc i) items c r q = (res, r', q')"
          using Cons.prems(3) check Inl by simp
        from Cons.IH [OF Cons.prems(1,2) this] show ?thesis by (rule weaken)
      next
        case False
        then have "r' = r" "q' = q" using Cons.prems(3) check Inl by simp_all
        then show ?thesis by (rule same)
      qed
    next
      case (Inr v)
      have v: "evs r (ob_EventID ob) = Some v" using repo.get_some [OF Cons.prems(1) Inr] by simp
      obtain po q1 where p: "sq_PublishEvent Q (ie_publish (ies i)) sn (Some v) q = (po, q1)" by fastforce
      show ?thesis
      proof (cases po)
        case err: (Inl err)
        then have "r' = r \<and> q' = q1" using Cons.prems(3) check Inr p by simp
        then show ?thesis
          using que.publish_error [OF Cons.prems(2) p [unfolded err]] Cons.prems(1)
          by (elim conjE exE) (simp add: rows_published_def, blast)
      next
        case ok: (Inr msgID)
        obtain pre msg where m: "qinv q1" "pend q1 = pend q" "log q1 = (log q)(sn := log q sn @ pre @ [msg])" "carries msg v"
          using que.publish_ok [OF Cons.prems(2) p [unfolded ok]] unfolding carries_def by blast
        obtain mo r1 where mk: "rp_MarkOutboxPublished R (ie_mark (ies i)) (ob_ID ob) r = (mo, r1)" by fastforce
        show ?thesis
        proof (cases mo)
          case (Some err)
          then have "r' = r1 \<and> q' = q1" using Cons.prems(3) check Inr p ok mk by simp
          moreover have r1: "inv r1" "evs r1 = evs r" "obs r1 = obs r \<or>
              (\<exists>row t. obs r (ob_ID ob) = Some row \<and>
                 obs r1 = (obs r)(ob_ID ob \<mapsto> row\<lparr>ob_Status := OutboxStatusPublished, ob_ProcessedAt := t\<rparr>))"
            using repo.mark_error [OF Cons.prems(1) mk [unfolded Some]] by blast+
          moreover have "rows_published (evs r) (obs r) (obs r1) (ob # items) (pre @ [msg])"
            unfolding rows_published_def
          proof
            fix n
            show "obs r1 n = obs r n \<or>
                (\<exists>ob' t o1 v msg'. obs r n = Some ob' \<and>
                   obs r1 n = Some (ob'\<lparr>ob_Status := OutboxStatusPublished, ob_ProcessedAt := t\<rparr>) \<and>
                   o1 \<in> set (ob # items) \<and> ob_ID o1 = n \<and> evs r (ob_EventID o1) = Some v \<and>
                   msg' \<in> set (pre @ [msg]) \<and> carries msg' v)"
            proof (cases "n = ob_ID ob")
              case True
              from r1(3) show ?thesis
              proof
                assume "\<exists>row t. obs r (ob_ID ob) = Some row \<and>
                  obs r1 = (obs r)(ob_ID ob \<mapsto> row\<lparr>ob_Status := OutboxStatusPublished, ob_ProcessedAt := t\<rparr>)"
                then obtain row t where "obs r (ob_ID ob) = Some row"
                  "obs r1 = (obs r)(ob_ID ob \<mapsto> row\<lparr>ob_Status := OutboxStatusPublished, ob_ProcessedAt := t\<rparr>)" by blast
                then have "\<exists>row t. obs r n = Some row \<and>
                  obs r1 n = Some (row\<lparr>ob_Status := OutboxStatusPublished, ob_ProcessedAt := t\<rparr>)" using True by auto
                moreover have "ob \<in> set (ob # items)" "msg \<in> set (pre @ [msg])" by simp_all
                ultimately show ?thesis using True v m(4) by metis
              qed simp
            qed (use r1(3) in auto)
          qed
          ultimately show ?thesis using m by (auto intro!: exI [of _ "pre @ [msg]"])
        next
          case None
          obtain row t where r1: "inv r1" "evs r1 = evs r" "obs r (ob_ID ob) = Some row"
            "obs r1 = (obs r)(ob_ID ob \<mapsto> row\<lparr>ob_Status := OutboxStatusPublished, ob_ProcessedAt := t\<rparr>)"
            using repo.mark_ok [OF Cons.prems(1)] mk None by blast
          have "relay_items ?rl ies (Suc i) items (c + 1) r1 q1 = (res, r', q')"
            using Cons.prems(3) check Inr p ok mk None by simp
          from Cons.IH [OF r1(1) m(1) this] obtain new where
            ih: "inv r'" "qinv q'" "evs r' = evs r1" "pend q' = pend q1"
            "log q' = (log q1)(sn := log q1 sn @ new)" "rows_published (evs r1) (obs r1) (obs r') items new"
            by blast
          have "rows_published (evs r) (obs r) (obs r') (ob # items) (pre @ msg # new)"
            unfolding rows_published_def
          proof
            fix n
            consider (same) "obs r' n = obs r1 n" | (pub) row1 t1 o1 v1 msg1 where "obs r1 n = Some row1"
                "obs r' n = Some (row1\<lparr>ob_Status := OutboxStatusPublished, ob_ProcessedAt := t1\<rparr>)"
                "o1 \<in> set items" "ob_ID o1 = n" "evs r (ob_EventID o1) = Some v1" "msg1 \<in> set new" "carries msg1 v1"
              using ih(6) [unfolded rows_published_def r1(2), rule_format, of n] by blast
            then show "obs r' n = obs r n \<or>
                (\<exists>ob' t o1 v msg'. obs r n = Some ob' \<and>
                   obs r' n = Some (ob'\<lparr>ob_Status := OutboxStatusPublished, ob_ProcessedAt := t\<rparr>) \<and>
                   o1 \<in> set (ob # items) \<and> ob_ID o1 = n \<and> evs r (ob_EventID o1) = Some v \<and>
                   msg' \<in> set (pre @ msg # new) \<and> carries msg' v)"
            proof cases
              case same
              show ?thesis
              proof (cases "n = ob_ID ob")
                case True
                then show ?thesis using same r1(3,4) v m(4) by (auto intro!: exI [of _ ob])
              qed (use same r1(4) in simp)
            next
              case pub
              show ?thesis
              proof (cases "n = ob_ID ob")
                case True
                then have "row1 = row\<lparr>ob_Status := OutboxStatusPublished, ob_ProcessedAt := t\<rparr>"
                  using pub(1) r1(4) by simp
                then have "obs r' n = Some (row\<lparr>ob_Status := OutboxStatusPublished, ob_ProcessedAt := t1\<rparr>)"
                  using pub(2) by simp
                then show ?thesis using True r1(3) v m(4) by (auto intro!: exI [of _ ob])
              next
                case False
                then have "obs r n = Some row1" using pub(1) r1(4) by simp
                moreover have "msg1 \<in> set (pre @ msg # new)" "o1 \<in> set (ob # items)" using pub(3,6) by simp_all
                ultimately show ?thesis using pub(2,4,5,7) by blast
              qed
            qed
          qed
          moreover have "log q' = (log q)(sn := log q sn @ pre @ msg # new)" using ih(5) m(3) by simp
          ultimately show ?thesis using ih(1-4) r1(2) m(2) by auto
        qed
      qed
    qed
  qed
qed

text \<open>Whatever call fails or context ends, a batch marks a row only after publishing its event.\<close>

lemma batch_published:
  assumes "inv r" "qinv q" "env_ok (be_fetch be)"
    and "ProcessNextBatch \<lparr>rl_repo = R, rl_queue = Q, rl_streamName = sn\<rparr> be n r q = (res, r', q')"
  shows "inv r' \<and> qinv q' \<and> evs r' = evs r \<and> pend q' = pend q \<and>
     (\<exists>new. log q' = (log q)(sn := log q sn @ new) \<and>
        (\<forall>k. obs r' k = obs r k \<or>
           (\<exists>ob t v msg. obs r k = Some ob \<and> ob_Status ob = OutboxStatusPending \<and>
              obs r' k = Some (ob\<lparr>ob_Status := OutboxStatusPublished, ob_ProcessedAt := t\<rparr>) \<and>
              evs r (ob_EventID ob) = Some v \<and> msg \<in> set new \<and> carries msg v)))"
proof -
  let ?rl = "\<lparr>rl_repo = R, rl_queue = Q, rl_streamName = sn\<rparr>"
  let ?n = "if n \<le> 0 then 100 else n"
  have same: ?thesis if "r' = r" "q' = q"
    using that assms(1,2) by (auto intro!: exI [of _ "[]"])
  show ?thesis
  proof (cases "\<exists>batch. be_check be = None \<and> rp_FetchAndLockPendingOutbox R (be_fetch be) ?n r = Inr batch \<and> batch \<noteq> []")
    case False
    then have "r' = r \<and> q' = q"
      using assms(4)
      by (cases "be_check be"; cases "rp_FetchAndLockPendingOutbox R (be_fetch be) ?n r")
        (simp_all add: ProcessNextBatch_def)
    then show ?thesis using same by blast
  next
    case True
    then obtain batch where b: "be_check be = None" "rp_FetchAndLockPendingOutbox R (be_fetch be) ?n r = Inr batch" "batch \<noteq> []"
      by blast
    then have "relay_items ?rl (be_item be) 0 batch 0 r q = (res, r', q')"
      using assms(4) by (simp add: ProcessNextBatch_def Let_def split: if_splits)
    from items_published [OF assms(1,2) this] obtain new where
      ih: "inv r'" "qinv q'" "evs r' = evs r" "pend q' = pend q" "log q' = (log q)(sn := log q sn @ new)"
      "rows_published (evs r) (obs r) (obs r') batch new" by blast
    have "\<exists>ob t v msg. obs r k = Some ob \<and> ob_Status ob = OutboxStatusPending \<and>
              obs r' k = Some (ob\<lparr>ob_Status := OutboxStatusPublished, ob_ProcessedAt := t\<rparr>) \<and>
              evs r (ob_EventID ob) = Some v \<and> msg \<in> set new \<and> carries msg v" if neq: "obs r' k \<noteq> obs r k" for k
    proof -
      obtain ob t o1 v msg where k: "obs r k = Some ob"
        "obs r' k = Some (ob\<lparr>ob_Status := OutboxStatusPublished, ob_ProcessedAt := t\<rparr>)"
        "o1 \<in> set batch" "ob_ID o1 = k" "evs r (ob_EventID o1) = Some v" "msg \<in> set new" "carries msg v"
        using ih(6) [unfolded rows_published_def, rule_format, of k] neq by blast
      moreover have "o1 = ob \<and> ob_Status o1 = OutboxStatusPending"
        using repo.fetch_pending [OF assms(1,3) b(2) k(3)] k(1,4) by simp
      ultimately show ?thesis by blast
    qed
    then show ?thesis using ih(1-5) by blast
  qed
qed

end

interpretation mrq: relay_system memory_repository mr_evs mr_obs mr_inv memory_stream_queue mq_log mq_pend mq_inv
  by unfold_locales

section \<open>When nothing fails\<close>

definition item_live :: "item_env \<Rightarrow> bool" where
  "item_live ie \<longleftrightarrow> ie_check ie = None \<and> live (ie_get ie) \<and> live (ie_publish ie) \<and> live (ie_mark ie)"

definition batch_live :: "batch_env \<Rightarrow> bool" where
  "batch_live be \<longleftrightarrow> be_check be = None \<and> live (be_fetch be) \<and> env_ok (be_fetch be) \<and> (\<forall>i. item_live (be_item be i))"

abbreviation mem_relay :: "string \<Rightarrow> (memory_repo, mem_queue) relay" where
  "mem_relay sn \<equiv> \<lparr>rl_repo = memory_repository, rl_queue = memory_stream_queue, rl_streamName = sn\<rparr>"

definition has_event :: "memory_repo \<Rightarrow> OutboxEvent \<Rightarrow> bool" where
  "has_event r ob \<longleftrightarrow> mr_evs r (ob_EventID ob) \<noteq> None"

definition pending_ids :: "memory_repo \<Rightarrow> int set" where
  "pending_ids r = {n. \<exists>ob. mr_obs r n = Some ob \<and> ob_Status ob = OutboxStatusPending}"

lemma finite_pending_ids: "finite (pending_ids r)"
proof (rule finite_subset)
  show "pending_ids r \<subseteq> dom (mr_obs r)" by (auto simp: pending_ids_def)
  show "finite (dom (mr_obs r))" by (rule finite_dom_map_of)
qed

lemma live_items:
  assumes "mr_inv r" "mq_inv q" "sn \<noteq> ''''" "\<And>i. item_live (ies i)"
    and "\<forall>ob \<in> set items. ob_ID ob \<in> pending_ids r" "distinct (map ob_ID items)"
  shows "\<exists>r' q' new. relay_items (mem_relay sn) ies i items c r q =
      ((c + int (length (filter (has_event r) items)), None), r', q') \<and>
     mr_inv r' \<and> mq_inv q' \<and> mr_evs r' = mr_evs r \<and>
     mq_log q' = (mq_log q)(sn := mq_log q sn @ new) \<and>
     map qm_EventID new = map ob_EventID (filter (has_event r) items) \<and>
     pending_ids r' = pending_ids r - ob_ID ` set (filter (has_event r) items)"
  using assms(1,2,5,6)
proof (induction items arbitrary: i c r q)
  case (Cons ob items)
  have live: "ie_check (ies i) = None" "live (ie_get (ies i))" "live (ie_publish (ies i))" "live (ie_mark (ies i))"
    using assms(4) [of i] by (simp_all add: item_live_def)
  show ?case
  proof (cases "mr_evs r (ob_EventID ob)")
    case None
    have "relay_items (mem_relay sn) ies i (ob # items) c r q = relay_items (mem_relay sn) ies (Suc i) items c r q"
      using mr.get_live_none [OF Cons.prems(1) live(2) None] live(1) by simp
    moreover have "\<not> has_event r ob" using None by (simp add: has_event_def)
    moreover have "\<forall>ob \<in> set items. ob_ID ob \<in> pending_ids r" "distinct (map ob_ID items)"
      using Cons.prems(3,4) by simp_all
    note Cons.IH [OF Cons.prems(1,2) this, of "Suc i" c]
    ultimately show ?thesis by simp
  next
    case (Some v)
    have get: "rp_GetEvent memory_repository (ie_get (ies i)) (ob_EventID ob) r = Inr v"
      by (rule mr.get_live [OF Cons.prems(1) live(2) Some])
    obtain po q1 where p: "mq_PublishEvent (ie_publish (ies i)) sn (Some v) q = (po, q1)" by fastforce
    have "\<exists>x. po = Inr x" using p live(3) assms(3) by (auto simp: mq_PublishEvent_def Let_def)
    then obtain msgID where p: "mq_PublishEvent (ie_publish (ies i)) sn (Some v) q = (Inr msgID, q1)"
      using p by blast
    note pub = mq_publish_frame [OF Cons.prems(2) p]
    define msg where "msg = queue_message (e_now (ie_publish (ies i))) (mq_seq q + 1) v"
    have pub: "mq_inv q1" "mq_log q1 = (mq_log q)(sn := mq_log q sn @ [msg])" and msg: "qm_EventID msg = ob_EventID ob"
      using pub mr_inv_event_id [OF Cons.prems(1) Some] by (auto simp: msg_def queue_message_def)
    obtain row where row: "mr_obs r (ob_ID ob) = Some row" using Cons.prems(3) by (auto simp: pending_ids_def)
    obtain r1 where mk: "rp_MarkOutboxPublished memory_repository (ie_mark (ies i)) (ob_ID ob) r = (None, r1)"
      using mr.mark_live [OF Cons.prems(1) live(4) row] by blast
    obtain row' t where r1: "mr_inv r1" "mr_evs r1 = mr_evs r"
      "mr_obs r1 = (mr_obs r)(ob_ID ob \<mapsto> row'\<lparr>ob_Status := OutboxStatusPublished, ob_ProcessedAt := t\<rparr>)"
      using mr.mark_ok [OF Cons.prems(1) mk] by blast
    have pend1: "pending_ids r1 = pending_ids r - {ob_ID ob}"
      using r1(3) by (auto simp: pending_ids_def)
    have he: "has_event r1 = has_event r" using r1(2) by (simp add: has_event_def fun_eq_iff)
    have step: "relay_items (mem_relay sn) ies i (ob # items) c r q =
        relay_items (mem_relay sn) ies (Suc i) items (c + 1) r1 q1"
      using live(1) get p mk by (simp add: memory_stream_queue_def)
    have "\<forall>ob \<in> set items. ob_ID ob \<in> pending_ids r1" "distinct (map ob_ID items)"
      using Cons.prems(3,4) pend1 by (auto simp: image_iff)
    from Cons.IH [OF r1(1) pub(1) this, of "Suc i" "c + 1"] obtain r' q' new where
      ih: "relay_items (mem_relay sn) ies (Suc i) items (c + 1) r1 q1 =
          ((c + 1 + int (length (filter (has_event r) items)), None), r', q')"
        "mr_inv r'" "mq_inv q'" "mr_evs r' = mr_evs r1" "mq_log q' = (mq_log q1)(sn := mq_log q1 sn @ new)"
        "map qm_EventID new = map ob_EventID (filter (has_event r) items)"
        "pending_ids r' = pending_ids r1 - ob_ID ` set (filter (has_event r) items)"
      unfolding he by blast
    have ev: "has_event r ob" using Some by (simp add: has_event_def)
    show ?thesis
    proof (intro exI conjI)
      show "relay_items (mem_relay sn) ies i (ob # items) c r q =
        ((c + int (length (filter (has_event r) (ob # items))), None), r', q')"
        unfolding step ih(1) using ev by simp
      show "mq_log q' = (mq_log q)(sn := mq_log q sn @ msg # new)" using ih(5) pub(2) by simp
      show "map qm_EventID (msg # new) = map ob_EventID (filter (has_event r) (ob # items))"
        using ih(6) msg ev by simp
      show "pending_ids r' = pending_ids r - ob_ID ` set (filter (has_event r) (ob # items))"
        using ih(7) pend1 ev by auto
    qed (use ih(2-4) r1(2) in simp_all)
  qed
qed (auto intro!: exI [of _ "[]"])

lemma live_batch:
  assumes "mr_inv r" "mq_inv q" "sn \<noteq> ''''" "batch_live be" "0 < n"
  shows "\<exists>batch r' q' new. mr_FetchAndLockPendingOutbox (be_fetch be) n r = Inr batch \<and>
     ProcessNextBatch (mem_relay sn) be n r q = ((int (length (filter (has_event r) batch)), None), r', q') \<and>
     mr_inv r' \<and> mq_inv q' \<and> mr_evs r' = mr_evs r \<and>
     mq_log q' = (mq_log q)(sn := mq_log q sn @ new) \<and>
     map qm_EventID new = map ob_EventID (filter (has_event r) batch) \<and>
     pending_ids r' = pending_ids r - ob_ID ` set (filter (has_event r) batch)"
proof -
  have be: "be_check be = None" "live (be_fetch be)" "env_ok (be_fetch be)" "\<And>i. item_live (be_item be i)"
    using assms(4) unfolding batch_live_def by blast+
  obtain batch where f: "mr_FetchAndLockPendingOutbox (be_fetch be) n r = Inr batch"
    using mr.fetch_live [OF assms(1) be(2), of n] by (auto simp: memory_repository_def)
  have "\<forall>ob \<in> set batch. ob_ID ob \<in> pending_ids r" "distinct (map ob_ID batch)"
    using mr_fetch_contract(1,2) [OF assms(1) be(3) f] by (auto simp: pending_ids_def)
  from live_items [OF assms(1-3) be(4) this, where i = 0 and c = 0] f be(1) assms(5) show ?thesis
    by (cases "batch = []") (auto simp: ProcessNextBatch_def memory_repository_def intro!: exI [of _ "[]"])
qed

section \<open>Properties\<close>

text \<open>C9: at least once: whichever repository or queue call fails and whenever the context ends, a batch
  of the relay turns an outbox row to PUBLISHED only if the row was PENDING and a message carrying
  its event was appended to the stream; it changes no event, no other row, and only appends to
  the stream.\<close>

theorem relay_marks_after_publish:
  assumes "mr_inv r" "mq_inv q" "env_ok (be_fetch be)"
    and "ProcessNextBatch (mem_relay sn) be n r q = (res, r', q')"
  shows "mr_evs r' = mr_evs r \<and>
     (\<exists>new. mq_log q' = (mq_log q)(sn := mq_log q sn @ new) \<and>
        (\<forall>k. mr_obs r' k = mr_obs r k \<or>
           (\<exists>ob t v msg. mr_obs r k = Some ob \<and> ob_Status ob = OutboxStatusPending \<and>
              mr_obs r' k = Some (ob\<lparr>ob_Status := OutboxStatusPublished, ob_ProcessedAt := t\<rparr>) \<and>
              mr_evs r (ob_EventID ob) = Some v \<and> msg \<in> set new \<and> carries msg v)))"
  using mrq.batch_published [OF assms] by blast

text \<open>An environment whose repository fails to mark: the message is published and the row stays pending.\<close>

definition live_item :: item_env where
  "live_item = \<lparr>ie_check = None, ie_get = env0, ie_publish = env0, ie_mark = env0\<rparr>"

definition live_batch_env :: batch_env where
  "live_batch_env = \<lparr>be_check = None, be_fetch = env0, be_item = (\<lambda>_. live_item)\<rparr>"

definition mark_fails_env :: batch_env where
  "mark_fails_env = \<lparr>be_check = None, be_fetch = env0,
     be_item = (\<lambda>_. live_item\<lparr>ie_mark := env0\<lparr>e_ctx := Some CtxCanceled\<rparr>\<rparr>)\<rparr>"

lemma live_batch_env_live: "batch_live live_batch_env"
  by (simp add: batch_live_def live_batch_env_def item_live_def live_item_def env0_def)

theorem relay_marks_after_publish_witness:
  "\<exists>res r' q'. ProcessNextBatch (mem_relay ''st'') mark_fails_env 10 repo1 NewMemoryStreamQueue = (res, r', q') \<and>
     snd res \<noteq> None \<and> mr_evs r' = mr_evs repo1 \<and> length (mq_log q' ''st'') = 1 \<and>
     map_option ob_Status (mr_obs r' 1) = Some OutboxStatusPending"
proof -
  obtain res r' q' where p:
    "ProcessNextBatch (mem_relay ''st'') mark_fails_env 10 repo1 NewMemoryStreamQueue = (res, r', q')"
    by (metis prod.exhaust)
  have "snd res \<noteq> None \<and> length (mq_log q' ''st'') = 1 \<and> map_option ob_Status (mr_obs r' 1) = Some OutboxStatusPending"
    using p by (auto simp: ProcessNextBatch_def mark_fails_env_def live_item_def memory_repository_def
        memory_stream_queue_def mr_FetchAndLockPendingOutbox_def mr_GetEvent_def mr_MarkOutboxPublished_def
        repo1_eval env0_def event0_def outbox0_def mq_PublishEvent_def Let_def NewMemoryRepository_def
        NewMemoryStreamQueue_def mq_log_def getOrCreateStreamLocked_def put_stream_def empty_stream_def)
  moreover have "env_ok (be_fetch mark_fails_env)" by (simp add: mark_fails_env_def env0_def)
  ultimately show ?thesis
    using relay_marks_after_publish [OF mr_reachable_inv [OF repo1_reachable] mq_inv_new _ p] p by auto
qed

text \<open>When nothing fails, a batch publishes the events of the fetched rows in the order of their
  identifiers, one message each, marks exactly those rows, and returns how many it published; rows
  whose event is missing are left pending.\<close>

theorem relay_batch_exact:
  assumes "mr_inv r" "mq_inv q" "sn \<noteq> ''''" "batch_live be" "0 < n"
    and "mr_FetchAndLockPendingOutbox (be_fetch be) n r = Inr batch"
    and "ProcessNextBatch (mem_relay sn) be n r q = (res, r', q')"
  shows "res = (int (length (filter (has_event r) batch)), None) \<and>
     (\<exists>new. mq_log q' = (mq_log q)(sn := mq_log q sn @ new) \<and>
        map qm_EventID new = map ob_EventID (filter (has_event r) batch)) \<and>
     pending_ids r' = pending_ids r - ob_ID ` set (filter (has_event r) batch)"
  using live_batch [OF assms(1-5)] assms(6,7) by auto

theorem relay_batch_exact_witness:
  "\<exists>r' q'. ProcessNextBatch (mem_relay ''st'') live_batch_env 10 repo1 NewMemoryStreamQueue = ((1, None), r', q') \<and>
     map qm_EventID (mq_log q' ''st'') = [''ev1''] \<and> pending_ids r' = {}"
proof -
  obtain ob where f: "mr_FetchAndLockPendingOutbox (be_fetch live_batch_env) 10 repo1 = Inr [ob]"
    and ob: "ob_EventID ob = ''ev1''" "ob_ID ob = 1"
    by (simp add: mr_FetchAndLockPendingOutbox_def live_batch_env_def env0_def repo1_eval outbox0_def NewMemoryRepository_def)
  obtain res r' q' where p:
    "ProcessNextBatch (mem_relay ''st'') live_batch_env 10 repo1 NewMemoryStreamQueue = (res, r', q')"
    by (metis prod.exhaust)
  have "has_event repo1 ob" using ob by (simp add: has_event_def repo1_eval)
  moreover have "pending_ids repo1 = {1}"
    by (auto simp: pending_ids_def repo1_eval outbox0_def split: if_splits)
  moreover have "mq_log NewMemoryStreamQueue ''st'' = []"
    by (simp add: mq_log_def getOrCreateStreamLocked_def NewMemoryStreamQueue_def)
  ultimately show ?thesis
    using relay_batch_exact [OF mr_reachable_inv [OF repo1_reachable] mq_inv_new _ live_batch_env_live _ f p] p ob
    by auto
qed

text \<open>An outbox without orphans: the event of every pending row exists.\<close>

definition no_orphans :: "memory_repo \<Rightarrow> bool" where
  "no_orphans r \<longleftrightarrow> (\<forall>n ob. mr_obs r n = Some ob \<longrightarrow> ob_Status ob = OutboxStatusPending \<longrightarrow> has_event r ob)"

lemma no_orphans_keeps:
  assumes "no_orphans r" "mr_evs r' = mr_evs r"
    and "\<And>k. mr_obs r' k = mr_obs r k \<or> (\<exists>ob. mr_obs r' k = Some ob \<and> ob_Status ob \<noteq> OutboxStatusPending)"
  shows "no_orphans r'"
  unfolding no_orphans_def
proof (intro allI impI)
  fix n ob
  assume a: "mr_obs r' n = Some ob" "ob_Status ob = OutboxStatusPending"
  then have "mr_obs r n = Some ob" using assms(3) [of n] by auto
  then show "has_event r' ob" using a(2) assms(1,2) by (simp add: no_orphans_def has_event_def)
qed

lemma drain_batch:
  assumes "mr_inv r" "mq_inv q" "sn \<noteq> ''''" "batch_live be" "0 < n" "no_orphans r"
  shows "\<exists>k r' q' new. ProcessNextBatch (mem_relay sn) be n r q = ((int k, None), r', q') \<and>
     mr_inv r' \<and> mq_inv q' \<and> no_orphans r' \<and> mr_evs r' = mr_evs r \<and>
     mq_log q' = (mq_log q)(sn := mq_log q sn @ new) \<and>
     pending_ids r' \<subseteq> pending_ids r \<and> card (pending_ids r) = card (pending_ids r') + k \<and>
     (int k < n \<longrightarrow> pending_ids r' = {}) \<and>
     (\<forall>ob. mr_obs r (ob_ID ob) = Some ob \<longrightarrow> ob_ID ob \<in> pending_ids r - pending_ids r' \<longrightarrow>
        ob_EventID ob \<in> qm_EventID ` set new)"
proof -
  obtain batch r' q' new where b: "mr_FetchAndLockPendingOutbox (be_fetch be) n r = Inr batch"
     "ProcessNextBatch (mem_relay sn) be n r q = ((int (length (filter (has_event r) batch)), None), r', q')"
     "mr_inv r'" "mq_inv q'" "mr_evs r' = mr_evs r" "mq_log q' = (mq_log q)(sn := mq_log q sn @ new)"
     "map qm_EventID new = map ob_EventID (filter (has_event r) batch)"
     "pending_ids r' = pending_ids r - ob_ID ` set (filter (has_event r) batch)"
    using live_batch [OF assms(1-5)] by blast
  have be: "env_ok (be_fetch be)" using assms(4) unfolding batch_live_def by blast
  note fc = mr_fetch_contract [OF assms(1) be b(1)]
  have all: "filter (has_event r) batch = batch"
    using fc(1) assms(6) by (auto simp: no_orphans_def filter_id_conv)
  have sub: "ob_ID ` set batch \<subseteq> pending_ids r" using fc(1) by (auto simp: pending_ids_def)
  have "card (ob_ID ` set batch) = length batch"
    using fc(2) distinct_card by fastforce
  then have card: "card (pending_ids r) = card (pending_ids r') + length batch"
    using b(8) sub finite_pending_ids card_Diff_subset [of "ob_ID ` set batch" "pending_ids r"]
      card_mono [OF finite_pending_ids sub] by (simp add: all)
  have orph: "no_orphans r'"
  proof (rule no_orphans_keeps [OF assms(6) b(5)])
    fix k
    show "mr_obs r' k = mr_obs r k \<or> (\<exists>ob. mr_obs r' k = Some ob \<and> ob_Status ob \<noteq> OutboxStatusPending)"
      using mrq.batch_published [OF assms(1,2) be b(2)] by (elim conjE exE) (drule spec [of _ k], auto)
  qed
  have fin: "pending_ids r' = {}" if short: "int (length batch) < n"
  proof -
    have "k \<in> ob_ID ` set batch" if k: "k \<in> pending_ids r" for k
    proof -
      obtain ob where ob: "mr_obs r k = Some ob" "ob_Status ob = OutboxStatusPending"
        using k by (auto simp: pending_ids_def)
      have "ob \<in> set batch" by (rule fc(3) [OF short ob])
      moreover have "ob_ID ob = k" using mr_inv_outbox_id [OF assms(1) ob(1)] by blast
      ultimately show ?thesis by blast
    qed
    then show ?thesis using b(8) all by auto
  qed
  have out: "ob_EventID ob \<in> qm_EventID ` set new"
    if ob: "mr_obs r (ob_ID ob) = Some ob" "ob_ID ob \<in> pending_ids r - pending_ids r'" for ob
  proof -
    have "ob_ID ob \<in> ob_ID ` set batch" using ob(2) unfolding b(8) all by blast
    then obtain ob' where ob': "ob' \<in> set batch" "ob_ID ob = ob_ID ob'" by (rule imageE)
    have "ob' = ob" using fc(1) [OF ob'(1)] ob(1) ob'(2) by simp
    then have "ob \<in> set batch" using ob'(1) by simp
    then have "ob_EventID ob \<in> set (map ob_EventID batch)" by simp
    also have "set (map ob_EventID batch) = set (map qm_EventID new)" using b(7) all by simp
    finally show ?thesis by simp
  qed
  show ?thesis
  proof (intro exI conjI)
    show "ProcessNextBatch (mem_relay sn) be n r q = ((int (length batch), None), r', q')"
      using b(2) all by simp
    show "pending_ids r' \<subseteq> pending_ids r" using b(8) by blast
    show "int (length batch) < n \<longrightarrow> pending_ids r' = {}" using fin by blast
    show "\<forall>ob. mr_obs r (ob_ID ob) = Some ob \<longrightarrow> ob_ID ob \<in> pending_ids r - pending_ids r' \<longrightarrow>
        ob_EventID ob \<in> qm_EventID ` set new" using out by blast
  qed (fact b(3) b(4) orph b(5) b(6) card)+
qed

lemma drain_complete:
  assumes "mr_inv r" "mq_inv q" "no_orphans r" "sn \<noteq> ''''" "0 < n"
    and "\<forall>(be, check) \<in> set bes. batch_live be \<and> check = None" "card (pending_ids r) < length bes"
  shows "\<exists>r' q'. relay_drain (mem_relay sn) n bes ce r q = ((DrainDone, 0), r', q') \<and>
     pending_ids r' = {} \<and> mr_evs r' = mr_evs r \<and>
     (\<exists>new. mq_log q' = (mq_log q)(sn := mq_log q sn @ new) \<and>
        (\<forall>ob. mr_obs r (ob_ID ob) = Some ob \<longrightarrow> ob_ID ob \<in> pending_ids r \<longrightarrow>
           ob_EventID ob \<in> qm_EventID ` set new))"
  using assms
proof (induction bes arbitrary: ce r q)
  case (Cons bec bes)
  obtain be where bec: "bec = (be, None)" and be: "batch_live be"
    using Cons.prems(6) by (cases bec) auto
  obtain k r1 q1 new where s: "ProcessNextBatch (mem_relay sn) be n r q = ((int k, None), r1, q1)"
     "mr_inv r1" "mq_inv q1" "no_orphans r1" "mr_evs r1 = mr_evs r"
     "mq_log q1 = (mq_log q)(sn := mq_log q sn @ new)"
     "pending_ids r1 \<subseteq> pending_ids r" "card (pending_ids r) = card (pending_ids r1) + k"
     "int k < n \<longrightarrow> pending_ids r1 = {}"
     "\<forall>ob. mr_obs r (ob_ID ob) = Some ob \<longrightarrow> ob_ID ob \<in> pending_ids r - pending_ids r1 \<longrightarrow>
        ob_EventID ob \<in> qm_EventID ` set new"
    using drain_batch [OF Cons.prems(1,2,4) be Cons.prems(5,3)] by blast
  show ?case
  proof (cases "int k < n")
    case True
    then have p1: "pending_ids r1 = {}" using s(9) by simp
    have "relay_drain (mem_relay sn) n (bec # bes) ce r q = ((DrainDone, 0), r1, q1)"
      using True s(1) bec by simp
    moreover have "\<forall>ob. mr_obs r (ob_ID ob) = Some ob \<longrightarrow> ob_ID ob \<in> pending_ids r \<longrightarrow>
           ob_EventID ob \<in> qm_EventID ` set new" using s(10) p1 by simp
    ultimately show ?thesis using p1 s(5,6) by blast
  next
    case False
    then have "0 < k" using Cons.prems(5) by simp
    then have "card (pending_ids r1) < length bes" using s(8) Cons.prems(7) by simp
    moreover have "\<forall>(be, check) \<in> set bes. batch_live be \<and> check = None" using Cons.prems(6) by simp
    ultimately obtain r' q' new' where ih:
      "relay_drain (mem_relay sn) n bes 0 r1 q1 = ((DrainDone, 0), r', q')"
      "pending_ids r' = {}" "mr_evs r' = mr_evs r1" "mq_log q' = (mq_log q1)(sn := mq_log q1 sn @ new')"
      "\<forall>ob. mr_obs r1 (ob_ID ob) = Some ob \<longrightarrow> ob_ID ob \<in> pending_ids r1 \<longrightarrow> ob_EventID ob \<in> qm_EventID ` set new'"
      using Cons.IH [OF s(2-4) Cons.prems(4,5), of 0] by blast
    have be_ok: "env_ok (be_fetch be)" using be unfolding batch_live_def by blast
    have "ob_EventID ob \<in> qm_EventID ` set (new @ new')"
      if ob: "mr_obs r (ob_ID ob) = Some ob" "ob_ID ob \<in> pending_ids r" for ob
    proof (cases "ob_ID ob \<in> pending_ids r1")
      case True
      then obtain ob1 where "mr_obs r1 (ob_ID ob) = Some ob1" "ob_Status ob1 = OutboxStatusPending"
        by (auto simp: pending_ids_def)
      then have "mr_obs r1 (ob_ID ob) = Some ob"
        using mrq.batch_published [OF Cons.prems(1,2) be_ok s(1)] ob(1)
        by (elim conjE exE) (drule spec [of _ "ob_ID ob"], auto)
      then show ?thesis using ih(5) True by auto
    next
      case False
      then show ?thesis using s(10) ob by auto
    qed
    moreover have "mq_log q' = (mq_log q)(sn := mq_log q sn @ (new @ new'))" using ih(4) s(6) by simp
    moreover have "relay_drain (mem_relay sn) n (bec # bes) ce r q = ((DrainDone, 0), r', q')"
      using ih(1) s(1) False bec by simp
    ultimately show ?thesis using ih(2,3) s(5) by (metis (no_types, lifting))
  qed
qed simp

text \<open>C17: the drain loop of the relay terminates and misses nothing: when no call fails and every pending
  row has its event, at most one batch more than there are pending rows is processed before the
  loop ends; no row is pending then, and the event of every row that was pending has been
  published.\<close>

theorem relay_drains_outbox:
  assumes "mr_inv r" "mq_inv q" "no_orphans r" "sn \<noteq> ''''" "0 < n"
    and "\<forall>(be, check) \<in> set bes. batch_live be \<and> check = None" "card (pending_ids r) < length bes"
  shows "\<exists>r' q' new. relay_drain (mem_relay sn) n bes ce r q = ((DrainDone, 0), r', q') \<and>
     pending_ids r' = {} \<and> mr_evs r' = mr_evs r \<and>
     mq_log q' = (mq_log q)(sn := mq_log q sn @ new) \<and>
     (\<forall>ob. mr_obs r (ob_ID ob) = Some ob \<longrightarrow> ob_Status ob = OutboxStatusPending \<longrightarrow>
        ob_EventID ob \<in> qm_EventID ` set new)"
  using drain_complete [OF assms, of ce] by (fastforce simp: pending_ids_def)

theorem relay_drains_outbox_witness:
  "\<exists>r' q'. relay_drain (mem_relay ''st'') 1 (replicate 2 (live_batch_env, None)) 3 repo1 NewMemoryStreamQueue =
       ((DrainDone, 0), r', q') \<and> pending_ids r' = {} \<and> ''ev1'' \<in> qm_EventID ` set (mq_log q' ''st'')"
proof -
  have p: "pending_ids repo1 = {1}"
    by (auto simp: pending_ids_def repo1_eval outbox0_def split: if_splits)
  have "no_orphans repo1"
    by (auto simp: no_orphans_def has_event_def repo1_eval outbox0_def)
  moreover have "\<forall>(be, check) \<in> set (replicate 2 (live_batch_env, None :: goerr option)). batch_live be \<and> check = None"
    using live_batch_env_live by auto
  ultimately obtain r' q' new where d:
    "relay_drain (mem_relay ''st'') 1 (replicate 2 (live_batch_env, None)) 3 repo1 NewMemoryStreamQueue = ((DrainDone, 0), r', q')"
    "pending_ids r' = {}" "mq_log q' = (mq_log NewMemoryStreamQueue)(''st'' := mq_log NewMemoryStreamQueue ''st'' @ new)"
    "\<forall>ob. mr_obs repo1 (ob_ID ob) = Some ob \<longrightarrow> ob_Status ob = OutboxStatusPending \<longrightarrow> ob_EventID ob \<in> qm_EventID ` set new"
    using relay_drains_outbox [OF mr_reachable_inv [OF repo1_reachable] mq_inv_new, of "''st''" 1
        "replicate 2 (live_batch_env, None)" 3] p by auto
  have "ob_EventID (outbox0\<lparr>ob_ID := 1, ob_CreatedAt := 1000\<rparr>) \<in> qm_EventID ` set new"
    using d(4) [rule_format, of "outbox0\<lparr>ob_ID := 1, ob_CreatedAt := 1000\<rparr>"] by (simp add: repo1_eval outbox0_def)
  then show ?thesis using d(1-3) by (auto simp: outbox0_def)
qed

text \<open>The relay waits between 100 milliseconds and 3 seconds after an error, doubling with every
  further error in a row, 3 seconds from the sixth on; without errors it waits the poll interval.\<close>

theorem relay_wait_exact:
  "relay_wait poll ce =
     (if ce \<le> 0 then poll
      else if ce \<le> 5 then 2 ^ nat ce * (50 * Millisecond)
      else 3 * Second)"
proof -
  consider "ce \<le> 0" | "ce = 1" | "ce = 2" | "ce = 3" | "ce = 4" | "ce = 5" | "6 \<le> ce" by linarith
  then show ?thesis
    by cases (simp_all add: relay_wait_def relay_backoff_def duration_defs Let_def)
qed

end
