(* ===== verification/PostgresRuns.thy ===== *)
theory PostgresRuns
  imports Postgres ApiRuns Relay
begin

text \<open>
  The properties of the PostgreSQL repository over any sequence of calls and whatever the driver
  does: atomic creation, unique idempotency keys and how a duplicate is answered, the relay on top of
  it, the refinement of the in-memory replay, and the responses that cannot be recorded.
\<close>

section \<open>Reachable databases\<close>

inductive pg_step :: "sql_driver \<Rightarrow> postgres_db \<Rightarrow> postgres_db \<Rightarrow> bool" for D where
  pg_tenant: "pg_step D db (snd (pg_CreateTenant D e t db))"
| pg_endpoint: "pg_step D db (snd (pg_CreateEndpoint D e ep db))"
| pg_event: "pg_step D db (snd (pg_CreateEventWithOutbox D e v ob db))"
| pg_mark: "pg_step D db (snd (pg_MarkOutboxPublished D e n db))"
| pg_attempt: "pg_step D db (snd (pg_RecordDeliveryAttempt D e a db))"
| pg_status: "pg_step D db (snd (pg_UpdateEventStatus D e i st db))"
| pg_replay: "pg_step D db (snd (pg_ReplayDLQEvents D e t ids db))"

inductive pg_reachable :: "sql_driver \<Rightarrow> postgres_db \<Rightarrow> bool" for D where
  pg_init: "pg_reachable D (init_schema now)"
| pg_next: "pg_reachable D db \<Longrightarrow> pg_step D db db' \<Longrightarrow> pg_reachable D db'"

inductive_cases pg_stepE: "pg_step D db db'"

lemma pg_inv_CreateTenant:
  assumes "pg_inv db"
  shows "pg_inv (snd (pg_CreateTenant D e t db))"
proof -
  let ?f = "insert_tenant D (t\<lparr>tn_CreatedAt := or_now e (tn_CreatedAt t)\<rparr>)"
  obtain r db' where x: "exec_stmt D e 0 ?f db = (r, db')" by fastforce
  have "pg_inv db'"
    using x assms by (rule exec_stmt_keeps) (use tenant_stmts(1) assms in blast)
  then show ?thesis using x by (simp add: pg_CreateTenant_def)
qed

lemma pg_endpoint_keeps:
  assumes "pg_inv db" "pg_CreateEndpoint D e ep db = (r, db')"
  shows "pg_inv db' \<and> pg_evs db' = pg_evs db \<and> pg_obs db' = pg_obs db"
proof -
  let ?ep = "ep\<lparr>ep_CreatedAt := or_now e (ep_CreatedAt ep), ep_UpdatedAt := or_now e (ep_UpdatedAt ep)\<rparr>"
  obtain r1 db1 where s1: "exec_stmt D e 0 (insert_tenant_or_nothing D (ep_TenantID ep) (or_now e (ep_CreatedAt ep))) db = (r1, db1)"
    by fastforce
  obtain r2 db2 where s2: "exec_stmt D e 1 (insert_endpoint D ?ep) db1 = (r2, db2)" by fastforce
  have keeps: "pg_evs (db\<lparr>pd_tenants := tab\<rparr>) = pg_evs db" "pg_evs (db\<lparr>pd_endpoints := tab'\<rparr>) = pg_evs db" for db tab tab'
    by (simp_all add: pg_evs_def fun_eq_iff)
  have i1: "pg_inv db1 \<and> pg_evs db1 = pg_evs db \<and> pg_obs db1 = pg_obs db"
    using s1
  proof (rule exec_stmt_keeps)
    show "pg_inv t \<and> pg_evs t = pg_evs db \<and> pg_obs t = pg_obs db"
      if u: "insert_tenant_or_nothing D (ep_TenantID ep) (or_now e (ep_CreatedAt ep)) db = Inr (x, t)" for x t
      using tenant_stmts(2) [OF u assms(1)] keeps by auto
  qed (use assms(1) in simp)
  have i2: "pg_inv db2 \<and> pg_evs db2 = pg_evs db \<and> pg_obs db2 = pg_obs db"
    using s2
  proof (rule exec_stmt_keeps)
    show "pg_inv t \<and> pg_evs t = pg_evs db \<and> pg_obs t = pg_obs db" if u: "insert_endpoint D ?ep db1 = Inr (x, t)" for x t
      using endpoint_stmt [OF u] i1 keeps by auto
  qed (use i1 in simp)
  show ?thesis using s1 s2 i1 i2 assms(2) by (cases r1) (auto simp: pg_CreateEndpoint_def Let_def)
qed

text \<open>What a replay keeps, as one step of its loop.\<close>

definition pg_replay_frame :: "postgres_db \<Rightarrow> postgres_db \<Rightarrow> bool" where
  "pg_replay_frame tx tx' \<longleftrightarrow> pg_inv tx' \<and> pd_outbox_seq tx \<le> pd_outbox_seq tx' \<and>
     (\<forall>i. \<exists>st. pg_evs tx' i = map_option (\<lambda>v. v\<lparr>ev_Status := st\<rparr>) (pg_evs tx i)) \<and>
     (\<forall>k ob. pg_obs tx k = Some ob \<longrightarrow> pg_obs tx' k = Some ob)"

lemma pg_replay_frame_refl: "pg_inv tx \<Longrightarrow> pg_replay_frame tx tx"
  by (simp add: pg_replay_frame_def same_status)

lemma pg_replay_frame_trans:
  assumes "pg_replay_frame a b" "pg_replay_frame b c"
  shows "pg_replay_frame a c"
proof -
  have "\<exists>st. pg_evs c i = map_option (\<lambda>v. v\<lparr>ev_Status := st\<rparr>) (pg_evs a i)" for i
  proof -
    obtain st st' where "pg_evs b i = map_option (\<lambda>v. v\<lparr>ev_Status := st\<rparr>) (pg_evs a i)"
      "pg_evs c i = map_option (\<lambda>v. v\<lparr>ev_Status := st'\<rparr>) (pg_evs b i)"
      using assms unfolding pg_replay_frame_def by blast
    then show ?thesis by (cases "pg_evs a i") auto
  qed
  then show ?thesis using assms by (auto simp: pg_replay_frame_def)
qed

lemma status_stmt_frame:
  assumes "update_event_status cond st i db = Inr (n, db')" "pg_inv db"
  shows "pg_replay_frame db db'"
proof -
  note s = status_stmt [OF assms]
  show ?thesis
  proof (cases "db' = db")
    case True
    then show ?thesis using pg_replay_frame_refl [OF assms(2)] by simp
  next
    case False
    then obtain row where r: "pg_inv db'" "pg_rows db i = Some row"
      "db' = db\<lparr>pd_events := AList.update i (row\<lparr>er_status := st\<rparr>) (pd_events db)\<rparr>" using s by blast
    have "pg_evs db' = (pg_evs db)(i \<mapsto> (event_of_row row)\<lparr>ev_Status := st\<rparr>)"
      using r(3) by (auto simp: pg_evs_def fun_eq_iff event_of_row_def)
    moreover have "pg_evs db i = Some (event_of_row row)" using r(2) by (simp add: pg_evs_def)
    ultimately have "\<exists>st. pg_evs db' j = map_option (\<lambda>v. v\<lparr>ev_Status := st\<rparr>) (pg_evs db j)" for j
      using same_status [of "pg_evs db j"] by (cases "j = i") auto
    then show ?thesis using r(1,3) by (simp add: pg_replay_frame_def)
  qed
qed

lemma outbox_stmt_frame:
  assumes "insert_outbox D i st rc t db = Inr (n, db')" "pg_inv db"
  shows "pg_replay_frame db db'"
  using outbox_stmt [OF assms] same_status by (auto simp: pg_replay_frame_def pg_evs_def)

lemma pg_replay_keeps:
  assumes "pg_inv tx" "pg_replay_loop D e n t ids c tx = (r, tx')"
  shows "pg_replay_frame tx tx'"
  using assms
proof (induction D e n t ids c tx rule: pg_replay_loop.induct)
  case (1 D e n t c tx)
  then show ?case by (simp add: pg_replay_frame_refl)
next
  case (2 D e n t i ids c tx)
  let ?upd = "\<lambda>db. and_then (sql_text t) (\<lambda>t.
             update_event_status (\<lambda>r. er_tenant_id r = t \<and> er_status r = EventStatusDLQ) EventStatusPending i db)"
  obtain r1 tx1 where s1: "exec_stmt D e n ?upd tx = (r1, tx1)" by fastforce
  have t1: "pg_replay_frame tx tx1"
    using s1
  proof (rule exec_stmt_keeps)
    show "pg_replay_frame tx tx1" if u: "?upd tx = Inr (k, tx1)" for k tx1
    proof -
      obtain t' where "update_event_status (\<lambda>r. er_tenant_id r = t' \<and> er_status r = EventStatusDLQ)
          EventStatusPending i tx = Inr (k, tx1)"
        using u by (auto simp: and_then_Inr)
      then show ?thesis by (rule status_stmt_frame [OF _ "2.prems"(1)])
    qed
  qed (rule pg_replay_frame_refl [OF "2.prems"(1)])
  then have i1: "pg_inv tx1" by (simp add: pg_replay_frame_def)
  show ?case
  proof (cases r1)
    case (Inl err)
    then show ?thesis using "2.prems" s1 t1 by auto
  next
    case (Inr k)
    show ?thesis
    proof (cases "k > 0")
      case False
      then have "pg_replay_loop D e (n + 2) t ids c tx1 = (r, tx')" using "2.prems"(2) s1 Inr by simp
      then show ?thesis using "2.IH"(2) [OF s1 [symmetric] Inr False i1] t1 pg_replay_frame_trans by blast
    next
      case True
      obtain r2 tx2 where s2: "exec_stmt D e (n + 1) (insert_outbox D i OutboxStatusPending 0 (e_now e)) tx1 = (r2, tx2)"
        by fastforce
      have t2: "pg_replay_frame tx1 tx2"
        using s2 by (rule exec_stmt_keeps) (use outbox_stmt_frame i1 pg_replay_frame_refl in blast)+
      then have i2: "pg_inv tx2" by (simp add: pg_replay_frame_def)
      have both: "pg_replay_frame tx tx2" by (rule pg_replay_frame_trans [OF t1 t2])
      show ?thesis
      proof (cases r2)
        case (Inl err)
        then show ?thesis using "2.prems"(2) s1 s2 \<open>r1 = Inr k\<close> True both by auto
      next
        case r2: (Inr m)
        have "pg_replay_loop D e (n + 2) t ids (c + 1) tx2 = (r, tx')" using "2.prems"(2) s1 s2 r2 Inr True by simp
        then show ?thesis
          using "2.IH"(1) [OF s1 [symmetric] Inr True s2 [symmetric] r2 i2] both pg_replay_frame_trans by blast
      qed
    qed
  qed
qed

lemma pg_ReplayDLQEvents_frame:
  assumes "pg_inv db" "pg_ReplayDLQEvents D e t ids db = (r, db')"
  shows "pg_inv db' \<and> (\<forall>i. \<exists>st. pg_evs db' i = map_option (\<lambda>v. v\<lparr>ev_Status := st\<rparr>) (pg_evs db i)) \<and>
    (\<forall>k ob. pg_obs db k = Some ob \<longrightarrow> pg_obs db' k = Some ob)"
proof -
  obtain r0 tx where l: "pg_replay_loop D e 1 t ids 0 db = (r0, tx)" by fastforce
  have k: "pg_replay_frame db tx" by (rule pg_replay_keeps [OF assms(1) l])
  then have "pg_inv (rolled_back db tx) \<and> pg_evs (rolled_back db tx) = pg_evs db \<and> pg_obs (rolled_back db tx) = pg_obs db"
    using rolled_back_facts [OF assms(1)] by (simp add: pg_replay_frame_def)
  moreover have "db' = db \<or> db' = tx \<or> db' = rolled_back db tx"
    using assms(2) l by (auto simp: pg_ReplayDLQEvents_def commit_or_def split: option.splits sum.splits if_splits)
  ultimately show ?thesis using k assms(1) same_status by (auto simp: pg_replay_frame_def)
qed

lemma pg_inv_CreateEndpoint: "pg_inv db \<Longrightarrow> pg_inv (snd (pg_CreateEndpoint D e ep db))"
  using pg_endpoint_keeps [OF _ surjective_pairing] by blast

lemma pg_inv_ReplayDLQEvents: "pg_inv db \<Longrightarrow> pg_inv (snd (pg_ReplayDLQEvents D e t ids db))"
  using pg_ReplayDLQEvents_frame [OF _ surjective_pairing] by blast

lemma pg_step_inv:
  assumes "pg_step D db db'" "pg_inv db"
  shows "pg_inv db'"
  using assms(1)
proof cases
  case (pg_event e v ob)
  then show ?thesis using pg_create_spec [OF assms(2) surjective_pairing, of D e v ob] by simp
next
  case (pg_mark e n)
  then show ?thesis
    using pg.mark_ok [OF assms(2)] pg.mark_error [OF assms(2)]
    by (cases "fst (pg_MarkOutboxPublished D e n db)") (metis postgres_repository_def repository.select_convs(8) surjective_pairing)+
next
  case (pg_attempt e a)
  then show ?thesis
    using pg.record_frame [OF assms(2)] by (metis postgres_repository_def repository.select_convs(9) surjective_pairing)
next
  case (pg_status e i st)
  then show ?thesis
    using pg.update_ok [OF assms(2)] pg.update_error [OF assms(2)]
    by (cases "fst (pg_UpdateEventStatus D e i st db)") (metis postgres_repository_def repository.select_convs(10) surjective_pairing)+
qed (use assms(2) in \<open>simp_all add: pg_inv_CreateTenant pg_inv_CreateEndpoint pg_inv_ReplayDLQEvents\<close>)

lemma pg_reachable_inv: "pg_reachable D db \<Longrightarrow> pg_inv db"
  by (induction rule: pg_reachable.induct) (simp_all add: pg_inv_init pg_step_inv)

section \<open>Errors are the driver's\<close>

text \<open>No statement reports one of the program's sentinel errors.\<close>

definition plain_error :: "goerr \<Rightarrow> bool" where
  "plain_error err \<longleftrightarrow> (\<exists>m. err = ErrorsNew m)"

lemma plain_error_not [simp]:
  "plain_error err \<Longrightarrow> errors_is err ErrDuplicateKey = False" "plain_error err \<Longrightarrow> errors_is err ErrNotFound = False"
  by (auto simp: plain_error_def)

lemma plain_states [simp]:
  "plain_error unique_violation" "plain_error foreign_key_violation" "plain_error string_too_long"
  "plain_error invalid_byte_sequence" "plain_error invalid_json" "plain_error numeric_out_of_range"
  by (simp_all add: plain_error_def sqlstate_defs)

lemma and_then_Inl: "and_then x f = Inl err \<longleftrightarrow> x = Inl err \<or> (\<exists>a. x = Inr a \<and> f a = Inl err)"
  by (cases x) simp_all

lemma plain_columns:
  "varchar n s = Inl err \<Longrightarrow> plain_error err" "int4 i = Inl err \<Longrightarrow> plain_error err"
  "sql_text s = Inl err \<Longrightarrow> plain_error err" "jsonb D s = Inl err \<Longrightarrow> plain_error err"
  "nullable (varchar n) k = Inl err \<Longrightarrow> plain_error err" "nullable int4 x = Inl err \<Longrightarrow> plain_error err"
  "nullable sql_text k = Inl err \<Longrightarrow> plain_error err"
  by (auto simp: varchar_def int4_def sql_text_def jsonb_def nullable_def split: option.splits if_splits sum.splits)

lemma plain_statements:
  "insert_tenant_or_nothing D i t db = Inl err \<Longrightarrow> plain_error err"
  "insert_event D v key db = Inl err \<Longrightarrow> plain_error err"
  "insert_outbox D i st rc t db = Inl err \<Longrightarrow> plain_error err"
  "insert_attempt D a rs body msg t db = Inl err \<Longrightarrow> plain_error err"
  by (auto simp: insert_tenant_or_nothing_def tenant_row_def insert_event_def mk_event_row_def insert_outbox_def
      insert_attempt_def mk_attempt_row_def and_then_Inl Let_def split: if_splits dest: plain_columns)

lemma plain_exec:
  assumes "exec_stmt D e n f db = (Inl err, db')" "env_ok e" "\<And>err. f db = Inl err \<Longrightarrow> plain_error err"
  shows "\<not> errors_is err ErrDuplicateKey"
  using assms by (auto simp: exec_stmt_def stmt_error_def split: option.splits sum.splits if_splits)

lemma pg_create_errors:
  assumes "pg_CreateEventWithOutbox D e v ob db = (Inl err, db')" "env_ok e"
  shows "\<not> errors_is err ErrDuplicateKey"
proof -
  have s: "\<not> errors_is err ErrDuplicateKey" if "stmt_error D e n = Some err" for n
    using that assms(2) by (auto simp: stmt_error_def split: option.splits)
  then have c: "\<not> errors_is err ErrDuplicateKey" if "commit_or D e n db x tx = (Inl err, db')" for n tx and x :: "Event \<times> OutboxEvent"
    using that by (auto simp: commit_or_def split: option.splits)
  show ?thesis
    using assms s c
    by (auto simp: pg_CreateEventWithOutbox_def Let_def plain_statements dest: plain_exec
        split: option.splits sum.splits prod.splits)
qed

section \<open>Creating events\<close>

lemma mk_event_row_fields:
  assumes "mk_event_row D v key = Inr row"
  shows "varchar 64 (ev_ID v) = Inr (er_id row)" "varchar 64 (ev_TenantID v) = Inr (er_tenant_id row)"
    "varchar 100 (ev_EventType v) = Inr (er_event_type row)" "nullable (varchar 128) key = Inr (er_idempotency_key row)"
    "sd_jsonb D (ev_Payload v) = Some (er_payload row)" "er_status row = ev_Status v"
  using assms by (auto simp: mk_event_row_def and_then_Inr jsonb_def split: option.splits)

text \<open>
  One new event, with the fields its columns keep of it, and one new outbox row under the number \<open>n\<close>
  that names it.
\<close>

definition pg_stored :: "sql_driver \<Rightarrow> Event \<Rightarrow> OutboxEvent \<Rightarrow> postgres_db \<Rightarrow> postgres_db \<Rightarrow> int \<Rightarrow> bool" where
  "pg_stored D v ob db db' n \<longleftrightarrow>
     (\<exists>w row. pg_evs db (ev_ID w) = None \<and> pg_evs db' = (pg_evs db)(ev_ID w \<mapsto> w) \<and>
        pg_obs db n = None \<and> pg_obs db' = (pg_obs db)(n \<mapsto> row) \<and>
        varchar 64 (ev_ID v) = Inr (ev_ID w) \<and> varchar 64 (ev_TenantID v) = Inr (ev_TenantID w) \<and>
        varchar 100 (ev_EventType v) = Inr (ev_EventType w) \<and> sd_jsonb D (ev_Payload v) = Some (ev_Payload w) \<and>
        ev_Status w = ev_Status v \<and> ob_EventID row = ev_ID w \<and> ob_Status row = ob_Status ob \<and>
        map_of (pd_tenants db') (ev_TenantID w) \<noteq> None)"

lemma pg_created_stored:
  assumes "pg_created D e v ob db db'" "pg_inv db'"
  shows "pg_stored D v ob db db' (pd_outbox_seq db + 1)"
proof -
  let ?v = "v\<lparr>ev_CreatedAt := or_now e (ev_CreatedAt v)\<rparr>" and ?n = "pd_outbox_seq db + 1"
  obtain row c j where
    s: "mk_event_row D ?v (if ev_IdempotencyKey v = '''' then None else Some (ev_IdempotencyKey v)) = Inr row"
    "pg_rows db (er_id row) = None" "varchar 64 (ev_ID v) = Inr j" "pg_rows db' = (pg_rows db)(er_id row \<mapsto> row)"
    "pg_obs db ?n = None"
    "pg_obs db' = (pg_obs db)(?n \<mapsto> \<lparr>ob_ID = ?n, ob_EventID = j, ob_Status = ob_Status ob,
       ob_RetryCount = c, ob_CreatedAt = sd_time D (or_now e (ob_CreatedAt ob)), ob_ProcessedAt = None\<rparr>)"
    using assms(1) by (auto simp: pg_created_def)
  note f = mk_event_row_fields [OF s(1)]
  have j: "j = er_id row" using f(1) s(3) by simp
  have t: "map_of (pd_tenants db') (er_tenant_id row) \<noteq> None"
    using pg_inv_event_tenant [OF assms(2), of "er_id row" row] s(4) by simp
  have e: "pg_evs db' = (pg_evs db)(er_id row \<mapsto> event_of_row row)" "pg_evs db (er_id row) = None"
    using s(2,4) by (auto simp: pg_evs_def fun_eq_iff)
  show ?thesis
    unfolding pg_stored_def
    by (rule exI [of _ "event_of_row row"], rule exI)
      (use e f s(5,6) j t in \<open>auto simp: event_of_row_def\<close>)
qed

text \<open>Creating an event is all or nothing, also when the answer to its \<open>COMMIT\<close> is lost.\<close>

lemma pg_create_outcome:
  assumes "pg_inv db" "pg_CreateEventWithOutbox D e v ob db = (r, db')"
  shows "case r of
      Inl err \<Rightarrow> pg_evs db' = pg_evs db \<and> pg_obs db' = pg_obs db \<and> pd_tenants db' = pd_tenants db \<or>
        sd_fail D e 4 \<noteq> None \<and> sd_applied D e 4 \<and> pg_stored D v ob db db' (pd_outbox_seq db + 1)
    | Inr (v', ob') \<Rightarrow> pg_stored D v ob db db' (ob_ID ob')"
proof -
  note c = pg_create_spec [OF assms]
  have "pg_stored D v ob db db' (pd_outbox_seq db + 1)" if "pg_created D e v ob db db'"
    using pg_created_stored [OF that] c by blast
  moreover have "sd_fail D e 4 \<noteq> None" if "stmt_error D e 0 = None" "stmt_error D e 4 = Some err" for err
    using that by (auto simp: stmt_error_def split: option.splits)
  ultimately show ?thesis using c by (auto simp: pg_evs_def fun_eq_iff split: sum.splits)
qed

interpretation pgx: outbox_repository "postgres_repository D" pg_evs pg_obs pg_inv for D
proof (unfold_locales, unfold postgres_repository_def repository.simps)
  fix s e v ob res s'
  assume a: "pg_inv s" "pg_CreateEventWithOutbox D e v ob s = (res, s')"
    and ob: "ob_EventID ob = ev_ID v" "ob_Status ob = OutboxStatusPending"
  show "(\<exists>err. res = Inl err) \<and> pg_evs s' = pg_evs s \<and> pg_obs s' = pg_obs s \<or>
      (\<exists>w n r. pg_evs s (ev_ID w) = None \<and> pg_evs s' = (pg_evs s)(ev_ID w \<mapsto> w) \<and> pg_obs s n = None \<and>
      pg_obs s' = (pg_obs s)(n \<mapsto> r) \<and> ob_EventID r = ev_ID w \<and> ob_Status r = OutboxStatusPending)"
  proof -
    have st: ?thesis if st: "pg_stored D v ob s s' n" for n
    proof -
      obtain w row where "pg_evs s (ev_ID w) = None" "pg_evs s' = (pg_evs s)(ev_ID w \<mapsto> w)" "pg_obs s n = None"
        "pg_obs s' = (pg_obs s)(n \<mapsto> row)" "ob_EventID row = ev_ID w" "ob_Status row = ob_Status ob"
        using st unfolding pg_stored_def by blast
      then show ?thesis using ob(2) by (intro disjI2 exI [of _ w] exI [of _ n] exI [of _ row]) simp
    qed
    show ?thesis
    proof (cases res)
      case (Inl err)
      then show ?thesis using pg_create_outcome [OF a] st by auto
    next
      case (Inr p)
      then show ?thesis using pg_create_outcome [OF a] st by (cases p) auto
    qed
  qed
next
  fix s e ep er s'
  assume "pg_inv s" "pg_CreateEndpoint D e ep s = (er, s')"
  then show "pg_inv s' \<and> pg_evs s' = pg_evs s \<and> pg_obs s' = pg_obs s" by (rule pg_endpoint_keeps)
next
  fix s e t ids r s'
  assume "pg_inv s" "pg_ReplayDLQEvents D e t ids s = (r, s')"
  then show "pg_inv s' \<and> (\<forall>i. \<exists>st. pg_evs s' i = map_option (\<lambda>v. v\<lparr>ev_Status := st\<rparr>) (pg_evs s i)) \<and>
      (\<forall>n ob. pg_obs s n = Some ob \<longrightarrow> pg_obs s' n = Some ob)" by (rule pg_ReplayDLQEvents_frame)
qed

text \<open>C21: on PostgreSQL a creation is all or nothing, whichever of its statements fails and whether or not a
  failed one had taken effect: one that succeeds stores one new event, with the fields its columns
  keep of it, and one new outbox row that names it. One that fails gives an error that is not
  ErrDuplicateKey, and either changes no event, outbox row or tenant, or stores exactly that event and
  that row; the latter happens only when the \<open>COMMIT\<close> took effect and its answer was lost.\<close>

theorem pg_create_atomic:
  assumes "pg_reachable D db" "env_ok e" "pg_CreateEventWithOutbox D e v ob db = (r, db')"
  shows "case r of
      Inl err \<Rightarrow> \<not> errors_is err ErrDuplicateKey \<and>
        (pg_evs db' = pg_evs db \<and> pg_obs db' = pg_obs db \<and> pd_tenants db' = pd_tenants db \<or>
         sd_fail D e 4 \<noteq> None \<and> sd_applied D e 4 \<and> (\<exists>n. pg_stored D v ob db db' n))
    | Inr (v', ob') \<Rightarrow> pg_stored D v ob db db' (ob_ID ob')"
  using pg_create_outcome [OF pg_reachable_inv [OF assms(1)] assms(3)] pg_create_errors assms(2,3)
  by (auto split: sum.splits)

text \<open>A driver that never fails, keeps payloads as they are and times to the microsecond.\<close>

definition driver0 :: sql_driver where
  "driver0 = \<lparr>sd_fail = (\<lambda>_ _. None), sd_applied = (\<lambda>_ _. False), sd_locked = (\<lambda>_ _. False), sd_jsonb = Some,
     sd_time = (\<lambda>t. t div 1000 * 1000)\<rparr>"

definition db0 :: postgres_db where
  "db0 = snd (pg_CreateEventWithOutbox driver0 env0 event0 outbox0 (init_schema 0))"

lemma db0_reachable: "pg_reachable driver0 db0"
  unfolding db0_def by (rule pg_next [OF pg_init pg_event])

lemma char_length_ascii:
  "code c < 128 \<Longrightarrow> c \<noteq> CHR 0x00 \<Longrightarrow> char_length (c # s) = map_option Suc (char_length s)"
  by (subst char_length.simps) (simp add: rune_width_def)

lemma char_length_Nil [simp]: "char_length [] = Some 0"
  by (simp add: char_length.simps)

lemmas pg_eval = pg_CreateEventWithOutbox_def driver0_def stmt_error_def env0_def exec_stmt_def event0_def
  outbox0_def insert_tenant_or_nothing_def tenant_row_def insert_event_def mk_event_row_def insert_outbox_def varchar_def
  char_length_ascii init_schema_def seed_tenant_def or_now_def nullable_def jsonb_def int4_def commit_or_def
  key_taken_def Let_def pg_UpdateEventStatus_def update_event_status_def sql_text_def not_found_if_none_def
  pg_evs_def event_of_row_def fun_eq_iff

lemma db0_create:
  "\<exists>w ob. pg_CreateEventWithOutbox driver0 env0 event0 outbox0 (init_schema 0) = (Inr (w, ob), db0) \<and>
     ob_ID ob = 1 \<and>
     pg_evs db0 = [''ev1'' \<mapsto> event0\<lparr>ev_CreatedAt := 1000\<rparr>] \<and> ob_EventID (the (pg_obs db0 1)) = ''ev1'' \<and>
     map_option ob_Status (pg_obs db0 1) = Some OutboxStatusPending"
  unfolding db0_def
  by (simp add: pg_eval)

theorem pg_create_atomic_witness:
  "\<exists>w row. varchar 64 (ev_ID event0) = Inr (ev_ID w) \<and> pg_evs db0 = [ev_ID w \<mapsto> w] \<and>
     pg_obs db0 = [1 \<mapsto> row] \<and> ob_EventID row = ev_ID w"
proof -
  obtain w ob where c: "pg_CreateEventWithOutbox driver0 env0 event0 outbox0 (init_schema 0) = (Inr (w, ob), db0)"
    "ob_ID ob = 1" using db0_create by blast
  have "pg_evs (init_schema 0) = Map.empty" "pg_obs (init_schema 0) = Map.empty"
    by (simp_all add: pg_evs_def init_schema_def fun_eq_iff)
  then show ?thesis using pg_create_atomic [OF pg_init env0_ok c(1)] c(2) unfolding pg_stored_def by auto
qed

section \<open>Duplicate keys\<close>

lemma pg_duplicate_refused:
  assumes "pg_inv db" "pg_evs db i = Some w"
    and "varchar 64 (ev_TenantID v) = Inr (ev_TenantID w)"
    and "varchar 128 (ev_IdempotencyKey v) = Inr (ev_IdempotencyKey w)" "ev_IdempotencyKey v \<noteq> ''''"
    and "ev_IdempotencyKey w \<noteq> ''''"
    and "pg_CreateEventWithOutbox D e v ob db = (r, db')"
  shows "\<exists>err. r = Inl err \<and> pg_evs db' = pg_evs db \<and> pg_obs db' = pg_obs db"
proof -
  have "\<not> pg_created D e v ob db db'"
  proof
    assume "pg_created D e v ob db db'"
    then obtain row where row: "\<not> key_taken db row"
      "mk_event_row D (v\<lparr>ev_CreatedAt := or_now e (ev_CreatedAt v)\<rparr>) (Some (ev_IdempotencyKey v)) = Inr row"
      using assms(5) unfolding pg_created_def by auto
    note f = mk_event_row_fields [OF row(2)]
  obtain r0 where r0: "pg_rows db i = Some r0" "w = event_of_row r0"
    using assms(2) by (auto simp: pg_evs_def)
  have "er_tenant_id row = er_tenant_id r0" using f(2) assms(3) r0(2) by (simp add: event_of_row_def)
  moreover have "er_idempotency_key r0 = Some (ev_IdempotencyKey w)"
    using assms(6) r0(2) by (auto simp: event_of_row_def split: option.splits)
  moreover have "er_idempotency_key row = Some (ev_IdempotencyKey w)"
    using f(4) assms(4) by (simp add: nullable_def)
    ultimately have "key_taken db row" using key_taken_iff [OF assms(1)] r0(1) by (metis option.distinct(1))
    then show False using row(1) by blast
  qed
  then show ?thesis
    using pg_create_spec [OF assms(1,7)] by (cases r) (auto simp: pg_evs_def fun_eq_iff)
qed

text \<open>C37: on PostgreSQL the API never answers a repeated idempotency key with 409: once the lock of the key is
  free again (its response has expired), a request whose tenant and key an event already carries is
  answered 500, and no event is stored.\<close>

theorem pg_duplicate_answered_500:
  assumes "pg_reachable D (ap_repo s)" "hd_repo h = postgres_repository D" "hd_guard h = Some memory_guard_ops"
    and "rq_Method r = ''POST''" "Header_Get (rq_Header r) HeaderTenantID = t" "t \<noteq> ''''"
    and "Header_Get (rq_Header r) HeaderIdempotencyKey = k" "k \<noteq> ''''"
    and "live (ie_acquire ie)" "gm_slot (ap_guard s) (memoryKey t k) (e_now (ie_acquire ie)) = Free"
    and "env_ok (ie_create ie)" "decode_ingest (rq_Body r) = Some req" "ir_EventType req \<noteq> ''''"
    and "ir_Payload req \<noteq> ''''" "ir_Payload req \<noteq> ''null''"
    and "pg_evs (ap_repo s) i = Some w" "varchar 64 t = Inr (ev_TenantID w)" "varchar 128 k = Inr (ev_IdempotencyKey w)"
    and "ev_IdempotencyKey w \<noteq> ''''"
    and "HandleIngestEvent h ie r wr s = (wr', s')"
  shows "w_Code wr' = 500 \<and> pg_evs (ap_repo s') = pg_evs (ap_repo s) \<and> pg_obs (ap_repo s') = pg_obs (ap_repo s)"
proof -
  obtain g where a: "gd_AcquireLock memory_guard_ops (ie_acquire ie) t k (hd_idempTTL h) (ap_guard s) = (Inr (True, None), g)"
    using gm.acquire_free [OF assms(9,6,8,10)] by (metis prod.exhaust)
  have valid: "json_Valid (ir_Payload req)" using decode_ingest_valid [OF assms(12)] assms(14) by simp
  obtain cr db' where c: "pg_CreateEventWithOutbox D (ie_create ie) (ingest_event ie t k req) (ingest_outbox ie) (ap_repo s) = (cr, db')"
    by fastforce
  have inv: "pg_inv (ap_repo s)" by (rule pg_reachable_inv [OF assms(1)])
  obtain err where err: "cr = Inl err" and same: "pg_evs db' = pg_evs (ap_repo s)" "pg_obs db' = pg_obs (ap_repo s)"
    using pg_duplicate_refused [OF inv assms(16) _ _ _ assms(19) c] assms(8,17,18) by (auto simp: ingest_event_def)
  have dup: "\<not> errors_is err ErrDuplicateKey" using pg_create_errors c err assms(11) by blast
  show ?thesis
    using assms(2-8,12-15,20) a c err dup valid same
    by (auto simp: HandleIngestEvent_def ingest_locked_def ingest_reject_def postgres_repository_def writeJSONError_def
        writeJSON_def Let_def)
qed

definition pg_api0 :: "(postgres_db, memory_guard, string list \<Rightarrow> nat, nat) api_handler" where
  "pg_api0 = NewHandler (postgres_repository driver0) (Some memory_guard_ops) counting_prom"

definition pg_api_state0 :: "(postgres_db, memory_guard, string list \<Rightarrow> nat, nat) api_state" where
  "pg_api_state0 = \<lparr>ap_repo = db0, ap_guard = NewMemoryGuard, ap_metrics = None\<rparr>"

theorem pg_duplicate_answered_500_witness:
  "\<exists>wr s'. HandleIngestEvent pg_api0 (ingest_env0 10 ''u2'') (ingest_request ''k1'' body0) writer0 pg_api_state0 = (wr, s') \<and>
     w_Code wr = 500"
proof -
  obtain wr s' where h: "HandleIngestEvent pg_api0 (ingest_env0 10 ''u2'') (ingest_request ''k1'' body0) writer0 pg_api_state0 = (wr, s')"
    by fastforce
  have "pg_evs (ap_repo pg_api_state0) ''ev1'' = Some (event0\<lparr>ev_CreatedAt := 1000\<rparr>)"
    using db0_create by (auto simp: pg_api_state0_def)
  from pg_duplicate_answered_500 [OF _ _ _ _ _ _ _ _ _ _ _ _ _ _ _ this _ _ _ h, of driver0 "''acme''" "''k1''"
      "\<lparr>ir_EventType = ''order'', ir_Payload = ''[1]''\<rparr>"]
  show ?thesis
    using h db0_reachable
    by (auto simp: pg_api0_def pg_api_state0_def NewHandler_def decode_body0 varchar_def char_length_ascii event0_def genv_def
        ingest_env0_def)
qed

section \<open>The relay on PostgreSQL\<close>

interpretation pgq: relay_system "postgres_repository D" pg_evs pg_obs pg_inv memory_stream_queue mq_log mq_pend mq_inv for D
  by unfold_locales

text \<open>The relay is at-least-once on PostgreSQL as well: whatever statement or queue call fails and whatever
  rows other transactions hold locked, a batch marks an outbox row only if it was pending and a
  message carrying its event was appended to the stream.\<close>

theorem pg_relay_marks_after_publish:
  assumes "pg_reachable D r" "mq_inv q" "env_ok (be_fetch be)"
    and "ProcessNextBatch \<lparr>rl_repo = postgres_repository D, rl_queue = memory_stream_queue, rl_streamName = sn\<rparr> be n r q
         = (res, r', q')"
  shows "pg_evs r' = pg_evs r \<and>
     (\<exists>new. mq_log q' = (mq_log q)(sn := mq_log q sn @ new) \<and>
        (\<forall>k. pg_obs r' k = pg_obs r k \<or>
           (\<exists>ob t v msg. pg_obs r k = Some ob \<and> ob_Status ob = OutboxStatusPending \<and>
              pg_obs r' k = Some (ob\<lparr>ob_Status := OutboxStatusPublished, ob_ProcessedAt := t\<rparr>) \<and>
              pg_evs r (ob_EventID ob) = Some v \<and> msg \<in> set new \<and> carries msg v)))"
  using pgq.batch_published [OF pg_reachable_inv [OF assms(1)] assms(2-4)] by blast

theorem pg_relay_marks_after_publish_witness:
  "\<exists>res r' q'. ProcessNextBatch \<lparr>rl_repo = postgres_repository driver0, rl_queue = memory_stream_queue, rl_streamName = ''st''\<rparr>
       mark_fails_env 10 db0 NewMemoryStreamQueue = (res, r', q') \<and> pg_evs r' = pg_evs db0 \<and>
     (\<forall>k. pg_obs r' k = pg_obs db0 k \<or> mq_log q' ''st'' \<noteq> [])"
proof -
  obtain res r' q' where p: "ProcessNextBatch \<lparr>rl_repo = postgres_repository driver0, rl_queue = memory_stream_queue, rl_streamName = ''st''\<rparr>
       mark_fails_env 10 db0 NewMemoryStreamQueue = (res, r', q')"
    by (metis prod.exhaust)
  have "env_ok (be_fetch mark_fails_env)" by (simp add: mark_fails_env_def env0_def)
  from pg_relay_marks_after_publish [OF db0_reachable mq_inv_new this p] obtain new where
    n: "pg_evs r' = pg_evs db0" "mq_log q' = (mq_log NewMemoryStreamQueue)(''st'' := mq_log NewMemoryStreamQueue ''st'' @ new)"
      "\<forall>k. pg_obs r' k = pg_obs db0 k \<or> (\<exists>msg. msg \<in> set new)" by blast
  have "\<forall>k. pg_obs r' k = pg_obs db0 k \<or> mq_log q' ''st'' \<noteq> []"
    using n(2,3) by (auto simp: in_set_conv_decomp)
  then show ?thesis using n(1) p by blast
qed

section \<open>Responses that cannot be recorded\<close>

lemma char_length_ascii_prefix:
  "code c < 128 \<Longrightarrow> c \<noteq> CHR 0x00 \<Longrightarrow> char_length (replicate n c @ s) = map_option ((+) n) (char_length s)"
  by (induction n) (cases "char_length s"; simp add: char_length_ascii)+

text \<open>On PostgreSQL a delivery whose response cannot be stored as text is lost: the attempt is not recorded, the
  error is returned, and the event keeps its status although it was delivered. A response that is
  valid UTF-8 becomes such a text when the cut at 4096 bytes falls inside a character.\<close>

theorem pg_unstorable_response_lost:
  assumes "dp_repo d = Some (postgres_repository D)" "de_new_request de (ep_URL endpoint) = None"
    and "de_do de (dispatch_request (time_Unix (de_ts de)) endpoint event) =
           (Some \<lparr>rs_StatusCode = st, rs_Body = Some body\<rparr>, None)"
    and "char_length (take 4096 body) = None"
  shows "\<exists>a err. Dispatch d de (Some endpoint) (Some event) n s = ((Some a, Some err), s) \<and>
     at_ResponseStatus a = st \<and> (200 \<le> st \<and> st < 300 \<longrightarrow> at_Status a = DeliveryStatusSuccess)"
proof -
  let ?a = "attempt_of (dp_policy d) de endpoint event (if n \<le> 0 then 1 else n)"
  have a: "at_ResponseBody ?a = take 4096 body" "at_ResponseStatus ?a = st"
    "200 \<le> st \<and> st < 300 \<longrightarrow> at_Status ?a = DeliveryStatusSuccess"
    using assms(3) by (simp_all add: attempt_of_def outcome_body_def outcome_code_def classify_def Let_def)
  have ne: "take 4096 body \<noteq> []" using assms(4) by auto
  obtain ro r1 where rec: "pg_RecordDeliveryAttempt D (de_record de) ?a (ds_repo s) = (ro, r1)" by fastforce
  have bad: "insert_attempt D ?a rs (Some (take 4096 body)) msg t db \<noteq> Inr (x, db')" for rs msg t db x db'
    using assms(4) by (auto simp: insert_attempt_def mk_attempt_row_def and_then_Inr nullable_def sql_text_def)
  have x: "(\<exists>err. x = Inl err) \<and> db' = db"
    if "exec_stmt D e 0 (insert_attempt D ?a rs (Some (take 4096 body)) msg t) db = (x, db')" for x e rs msg t db db'
    by (rule exec_stmt_cases [OF that]) (use bad in auto)
  define rs where "rs = (if at_ResponseStatus ?a \<noteq> 0 then Some (at_ResponseStatus ?a) else None)"
  define msg where "msg = (if at_ErrorMessage ?a \<noteq> '''' then Some (at_ErrorMessage ?a) else None)"
  define t where "t = or_now (de_record de) (at_ExecutedAt ?a)"
  obtain x0 t1 where e0: "exec_stmt D (de_record de) 0 (insert_attempt D ?a rs (Some (take 4096 body)) msg t) (ds_repo s) = (x0, t1)"
    by fastforce
  then have "pg_RecordDeliveryAttempt D (de_record de) ?a (ds_repo s) = (err_of x0, t1)"
    using ne unfolding pg_RecordDeliveryAttempt_def Let_def a(1) rs_def [symmetric] msg_def [symmetric] t_def [symmetric]
    by simp
  then have "\<exists>err. ro = Some err" "r1 = ds_repo s"
    using rec x [OF e0] by (auto simp: err_of_def)
  then obtain err where st: "dispatch_store (Some (postgres_repository D)) de event ?a (ds_repo s) = (Some err, ds_repo s)"
    using rec by (auto simp: dispatch_store_def postgres_repository_def)
  have "Dispatch d de (Some endpoint) (Some event) n s = ((Some ?a, Some err), s)"
    unfolding Dispatch_attempt [OF assms(2)] Let_def assms(1) st by simp
  then show ?thesis using a(2,3) by blast
qed

definition split_body :: string where
  "split_body = replicate 4095 (CHR ''a'') @ [CHR 0xC3, CHR 0xA9]"

definition pg_dispatcher0 :: "(postgres_db, string list \<Rightarrow> nat, nat, DeliveryAttempt list) dispatcher" where
  "pg_dispatcher0 = NewDispatcher (Some (postgres_repository driver0)) DefaultBackoffPolicy counting_prom"

theorem pg_unstorable_response_lost_witness:
  "char_length split_body = Some 4096 \<and>
   (\<forall>s. \<exists>a err. Dispatch pg_dispatcher0 (delivery_env (Some \<lparr>rs_StatusCode = 200, rs_Body = Some split_body\<rparr>, None))
      (Some endpoint0) (Some event0) 1 s = ((Some a, Some err), s) \<and> at_Status a = DeliveryStatusSuccess)"
proof -
  have "char_length [CHR 0xC3, CHR 0xA9] = Some 1" "char_length [CHR 0xC3] = None"
    by (simp_all add: char_length.simps rune_width_def cont_byte_def)
  moreover have "take 4096 split_body = replicate 4095 (CHR ''a'') @ [CHR 0xC3]"
    by (simp add: split_body_def)
  ultimately have b: "char_length split_body = Some 4096" "char_length (take 4096 split_body) = None"
    by (simp_all add: split_body_def char_length_ascii_prefix)
  let ?de = "delivery_env (Some \<lparr>rs_StatusCode = 200, rs_Body = Some split_body\<rparr>, None)"
  have d: "dp_repo pg_dispatcher0 = Some (postgres_repository driver0)" "de_new_request ?de (ep_URL endpoint0) = None"
    "de_do ?de (dispatch_request (time_Unix (de_ts ?de)) endpoint0 event0) = (Some \<lparr>rs_StatusCode = 200, rs_Body = Some split_body\<rparr>, None)"
    by (simp_all add: pg_dispatcher0_def NewDispatcher_def delivery_env_def)
  show ?thesis
  proof (intro conjI allI)
    fix s
    from pg_unstorable_response_lost [OF d b(2), of 1 s]
    show "\<exists>a err. Dispatch pg_dispatcher0 ?de (Some endpoint0) (Some event0) 1 s = ((Some a, Some err), s) \<and>
        at_Status a = DeliveryStatusSuccess" by force
  qed (rule b(1))
qed

section \<open>Replay refines the in-memory replay\<close>

text \<open>
  Two repositories agree when they hold the same events. A replay adds outbox rows at the end of each
  numbering; \<open>new_rows\<close> compares them by their distance from the last number before it.
\<close>

definition new_rows :: "(int \<Rightarrow> OutboxEvent option) \<Rightarrow> int \<Rightarrow> int \<Rightarrow> (string \<times> OutboxStatus) option list" where
  "new_rows obs from to = map (\<lambda>n. map_option (\<lambda>ob. (ob_EventID ob, ob_Status ob)) (obs n)) [from + 1..to]"

lemma new_rows_cons:
  assumes "from < to"
  shows "new_rows obs from to = map_option (\<lambda>ob. (ob_EventID ob, ob_Status ob)) (obs (from + 1)) # new_rows obs (from + 1) to"
  using assms by (simp add: new_rows_def upto_rec1)

lemma pg_update_status_text:
  assumes "char_length t \<noteq> None" "exec_stmt D e n (\<lambda>db. and_then (sql_text t) (\<lambda>t.
             update_event_status (\<lambda>r. er_tenant_id r = t \<and> er_status r = EventStatusDLQ) EventStatusPending i db)) tx = (Inr k, tx1)"
  shows "update_event_status (\<lambda>r. er_tenant_id r = t \<and> er_status r = EventStatusDLQ) EventStatusPending i tx = Inr (k, tx1)"
  using assms by (auto simp: exec_stmt_Inr and_then_Inr)

lemma replay_sim:
  assumes "pg_inv tx" "mr_inv m" "pg_evs tx = mr_evs m" "char_length t \<noteq> None" "\<forall>i \<in> set ids. varchar 64 i = Inr i"
    and "pg_replay_loop D e n t ids c tx = (Inr c', tx')"
  shows "\<exists>m'. mr_replay_loop now t ids c m = (c', m') \<and> pg_evs tx' = mr_evs m' \<and>
     pd_outbox_seq tx \<le> pd_outbox_seq tx' \<and>
     pd_outbox_seq tx' - pd_outbox_seq tx = mr_nextOutboxID m' - mr_nextOutboxID m \<and>
     (\<forall>j \<le> pd_outbox_seq tx. pg_obs tx' j = pg_obs tx j) \<and>
     (\<forall>j \<le> mr_nextOutboxID m. mr_obs m' j = mr_obs m j) \<and>
     new_rows (pg_obs tx') (pd_outbox_seq tx) (pd_outbox_seq tx') =
       new_rows (mr_obs m') (mr_nextOutboxID m) (mr_nextOutboxID m')"
  using assms
proof (induction ids arbitrary: n c tx m)
  case Nil
  then show ?case by (simp add: new_rows_def)
next
  case (Cons i ids)
  let ?upd = "\<lambda>db. and_then (sql_text t) (\<lambda>t.
             update_event_status (\<lambda>r. er_tenant_id r = t \<and> er_status r = EventStatusDLQ) EventStatusPending i db)"
  obtain r1 tx1 where s1: "exec_stmt D e n ?upd tx = (r1, tx1)" by fastforce
  then obtain k where k: "r1 = Inr k" using Cons.prems(6) by (cases r1) simp_all
  note u = status_stmt [OF pg_update_status_text [OF Cons.prems(4) s1 [unfolded k]] Cons.prems(1)]
  show ?case
  proof (cases "k > 0")
    case False
    then have t1: "tx1 = tx" "\<forall>row. pg_rows tx i = Some row \<longrightarrow> \<not> (er_tenant_id row = t \<and> er_status row = EventStatusDLQ)"
      using u by auto
    have "mr_replay_loop now t (i # ids) c m = mr_replay_loop now t ids c m"
    proof (cases "mr_evs m i")
      case (Some v)
      then obtain row where "pg_rows tx i = Some row" "v = event_of_row row"
        using Cons.prems(3) by (metis pg_evs_def map_option_eq_Some)
      then have "ev_TenantID v \<noteq> t \<or> ev_Status v \<noteq> EventStatusDLQ"
        using t1(2) by (auto simp: event_of_row_def)
      then show ?thesis using Some by simp
    qed simp
    moreover have "pg_replay_loop D e (n + 2) t ids c tx = (Inr c', tx')"
      using Cons.prems(6) s1 k False t1(1) by simp
    ultimately show ?thesis using Cons.IH [OF Cons.prems(1-4)] Cons.prems(5) by simp
  next
    case True
    then obtain row where row: "pg_rows tx i = Some row" "er_tenant_id row = t" "er_status row = EventStatusDLQ"
      and t1: "pg_inv tx1" "tx1 = tx\<lparr>pd_events := AList.update i (row\<lparr>er_status := EventStatusPending\<rparr>) (pd_events tx)\<rparr>"
      using u by auto
    obtain r2 tx2 where s2: "exec_stmt D e (n + 1) (insert_outbox D i OutboxStatusPending 0 (e_now e)) tx1 = (r2, tx2)"
      by fastforce
    then obtain o2 where o2: "r2 = Inr o2" using Cons.prems(6) s1 k True by (cases r2) simp_all
    have vi: "varchar 64 i = Inr i" using Cons.prems(5) by simp
    from outbox_stmt [OF conjunct2 [OF s2 [unfolded o2 exec_stmt_Inr]] t1(1)]
    obtain rc where t2: "pg_inv tx2" "tx2 = tx1\<lparr>pd_outbox_seq := pd_outbox_seq tx + 1,
        pd_outbox_events := AList.update (pd_outbox_seq tx + 1)
         \<lparr>ob_ID = pd_outbox_seq tx + 1, ob_EventID = i, ob_Status = OutboxStatusPending, ob_RetryCount = rc,
          ob_CreatedAt = sd_time D (e_now e), ob_ProcessedAt = None\<rparr> (pd_outbox_events tx)\<rparr>"
      using vi t1(2) by auto
    have v: "mr_evs m i = Some (event_of_row row)" using row(1) Cons.prems(3) by (metis pg_evs_def option.map(2))
    have vt: "ev_TenantID (event_of_row row) = t" "ev_Status (event_of_row row) = EventStatusDLQ"
      using row(2,3) by (simp_all add: event_of_row_def)
    have vid: "ev_ID (event_of_row row) = i" using mr_inv_event_id [OF Cons.prems(2) v] .
    define nid where "nid = mr_nextOutboxID m + 1"
    define ob where "ob = \<lparr>ob_ID = nid, ob_EventID = i, ob_Status = OutboxStatusPending, ob_RetryCount = 0,
        ob_CreatedAt = now, ob_ProcessedAt = None\<rparr>"
    define m1 where "m1 = m\<lparr>mr_events := AList.update i ((event_of_row row)\<lparr>ev_Status := EventStatusPending\<rparr>) (mr_events m),
        mr_nextOutboxID := nid, mr_outboxEvents := AList.update nid ob (mr_outboxEvents m)\<rparr>"
    have step: "mr_replay_loop now t (i # ids) c m = mr_replay_loop now t ids (c + 1) m1"
      using v vt vid by (simp add: m1_def ob_def nid_def Let_def)
    have inv1: "mr_inv m1"
      using mr_inv_replay_step [OF Cons.prems(2) v, of nid ob] by (simp add: m1_def nid_def ob_def)
    have evs1: "pg_evs tx2 = mr_evs m1"
      using Cons.prems(3) by (auto simp: t2(2) t1(2) m1_def pg_evs_def fun_eq_iff event_of_row_def)
    have "pg_replay_loop D e (n + 2) t ids (c + 1) tx2 = (Inr c', tx')"
      using Cons.prems(6) s1 k s2 o2 True by simp
    from Cons.IH [OF t2(1) inv1 evs1 Cons.prems(4) _ this] Cons.prems(5) obtain m' where ih:
      "mr_replay_loop now t ids (c + 1) m1 = (c', m')" "pg_evs tx' = mr_evs m'" "pd_outbox_seq tx2 \<le> pd_outbox_seq tx'"
      "pd_outbox_seq tx' - pd_outbox_seq tx2 = mr_nextOutboxID m' - mr_nextOutboxID m1"
      "\<forall>j \<le> pd_outbox_seq tx2. pg_obs tx' j = pg_obs tx2 j" "\<forall>j \<le> mr_nextOutboxID m1. mr_obs m' j = mr_obs m1 j"
      "new_rows (pg_obs tx') (pd_outbox_seq tx2) (pd_outbox_seq tx') =
       new_rows (mr_obs m') (mr_nextOutboxID m1) (mr_nextOutboxID m')"
      by auto
    have sq: "pd_outbox_seq tx2 = pd_outbox_seq tx + 1" "mr_nextOutboxID m1 = mr_nextOutboxID m + 1"
      by (simp_all add: t2(2) m1_def nid_def)
    have pgr: "map_option (\<lambda>ob. (ob_EventID ob, ob_Status ob)) (pg_obs tx' (pd_outbox_seq tx + 1)) = Some (i, OutboxStatusPending)"
      using ih(5) sq(1) by (simp add: t2(2))
    have mrr: "map_option (\<lambda>ob. (ob_EventID ob, ob_Status ob)) (mr_obs m' (mr_nextOutboxID m + 1)) = Some (i, OutboxStatusPending)"
      using ih(6) sq(2) by (simp add: m1_def nid_def ob_def)
    have rows: "new_rows (pg_obs tx') (pd_outbox_seq tx) (pd_outbox_seq tx') =
       new_rows (mr_obs m') (mr_nextOutboxID m) (mr_nextOutboxID m')"
    proof -
      have "pd_outbox_seq tx < pd_outbox_seq tx'" "mr_nextOutboxID m < mr_nextOutboxID m'" using ih(3,4) sq by simp_all
      then show ?thesis using ih(7) unfolding new_rows_cons [OF \<open>pd_outbox_seq tx < _\<close>]
          new_rows_cons [OF \<open>mr_nextOutboxID m < _\<close>] pgr mrr sq by simp
    qed
    show ?thesis
    proof (intro exI conjI)
      show "\<forall>j \<le> pd_outbox_seq tx. pg_obs tx' j = pg_obs tx j"
        using ih(5) sq(1) by (simp add: t2(2) t1(2))
      show "\<forall>j \<le> mr_nextOutboxID m. mr_obs m' j = mr_obs m j"
        using ih(6) sq(2) by (simp add: m1_def nid_def)
    qed (use step ih rows sq in auto)
  qed
qed

text \<open>C22: replaying on PostgreSQL refines replaying in memory: on repositories with the same events a replay that
  returns a count returns the count of the in-memory replay, leaves the same events, keeps the outbox
  rows there were, and appends outbox rows for the same events in the same order.\<close>

theorem pg_replay_refines_memory:
  assumes "pg_reachable D db" "mr_reachable m" "pg_evs db = mr_evs m" "live e'"
    and "char_length t \<noteq> None" "\<forall>i \<in> set ids. varchar 64 i = Inr i"
    and "pg_ReplayDLQEvents D e t ids db = (Inr c, db')"
  shows "\<exists>m'. mr_ReplayDLQEvents e' t ids m = (Inr c, m') \<and> pg_evs db' = mr_evs m' \<and>
     (\<forall>j \<le> pd_outbox_seq db. pg_obs db' j = pg_obs db j) \<and>
     new_rows (pg_obs db') (pd_outbox_seq db) (pd_outbox_seq db') =
       new_rows (mr_obs m') (mr_nextOutboxID m) (mr_nextOutboxID m')"
proof (cases "ids = []")
  case True
  then show ?thesis using assms(3,4,7) by (auto simp: pg_ReplayDLQEvents_def mr_ReplayDLQEvents_def new_rows_def)
next
  case False
  then have l: "pg_replay_loop D e 1 t ids 0 db = (Inr c, db')"
    using assms(7)
    by (auto simp: pg_ReplayDLQEvents_def commit_or_def split: option.splits sum.splits prod.splits)
  from replay_sim [OF pg_reachable_inv [OF assms(1)] mr_reachable_inv [OF assms(2)] assms(3,5,6) l, of "e_now e'"]
  show ?thesis using assms(4) by (auto simp: mr_ReplayDLQEvents_def)
qed

definition db1 :: postgres_db where
  "db1 = snd (pg_UpdateEventStatus driver0 env0 ''ev1'' EventStatusDLQ db0)"

lemma db1_reachable: "pg_reachable driver0 db1"
  unfolding db1_def by (rule pg_next [OF db0_reachable pg_status])

lemma db1_evs: "pg_evs db1 = mr_evs repo2"
  by (simp add: db1_def db0_def repo2_eval repo1_eval pg_eval)

theorem pg_replay_refines_memory_witness:
  "\<exists>db'. pg_ReplayDLQEvents driver0 env0 ''acme'' [''ev1'', ''nope''] db1 = (Inr 1, db') \<and>
     (\<exists>m'. mr_ReplayDLQEvents env0 ''acme'' [''ev1'', ''nope''] repo2 = (Inr 1, m') \<and> pg_evs db' = mr_evs m')"
proof -
  obtain r db' where p: "pg_ReplayDLQEvents driver0 env0 ''acme'' [''ev1'', ''nope''] db1 = (r, db')" by fastforce
  have "r = Inr 1"
    using p by (simp add: db1_def db0_def pg_ReplayDLQEvents_def pg_eval)
  then show ?thesis
    using pg_replay_refines_memory [OF db1_reachable repo2_reachable db1_evs _ _ _ p [unfolded \<open>r = Inr 1\<close>], of env0] p
    by (auto simp: varchar_def char_length_ascii env0_def)
qed

end
