(* ===== verification/RedisQueue.thy ===== *)
theory RedisQueue
  imports StreamQueue Go_Time RedisClient PostgresRuns
begin

text \<open>
  The Redis queue of \<open>internal/queue/stream.go\<close>: the fields of a message, their parsing, and the five
  operations over the commands of Redis streams, which are parameters with the fate of each call.
  Lemmas: a message is read back as it was published; over a server that does what Redis documents
  the queue satisfies the contract of the interface, whatever replies are lost, so that the relay is
  at-least-once from PostgreSQL to Redis; trimming loses messages that nobody has read.
\<close>

section \<open>The commands\<close>

text \<open>An entry of a stream: \<open>XMessage.Values\<close> maps a field to a value of any type.\<close>

datatype xvalue = XString string | XBytes string | XOther

record xmessage =
  xm_ID :: string
  xm_Values :: "string \<Rightarrow> xvalue option"

record 'r redis_streams =
  xs_XAdd :: "env \<Rightarrow> string \<Rightarrow> int option \<Rightarrow> (string, string) gomap \<Rightarrow> 'r \<Rightarrow> (goerr + string) \<times> 'r"
  xs_XGroupCreateMkStream :: "env \<Rightarrow> string \<Rightarrow> string \<Rightarrow> string \<Rightarrow> 'r \<Rightarrow> (goerr + unit) \<times> 'r"
  xs_XReadGroup ::
    "env \<Rightarrow> string \<Rightarrow> string \<Rightarrow> string list \<Rightarrow> int \<Rightarrow> duration \<Rightarrow> 'r \<Rightarrow> (goerr + (string \<times> xmessage list) list) \<times> 'r"
  xs_XAck :: "env \<Rightarrow> string \<Rightarrow> string \<Rightarrow> string list \<Rightarrow> 'r \<Rightarrow> (goerr + int) \<times> 'r"
  xs_XAutoClaim ::
    "env \<Rightarrow> string \<Rightarrow> string \<Rightarrow> string \<Rightarrow> duration \<Rightarrow> string \<Rightarrow> int \<Rightarrow> 'r \<Rightarrow> (goerr + xmessage list \<times> string) \<times> 'r"
  xs_delivery :: "env \<Rightarrow> delivery"

section \<open>Messages\<close>

definition created_at :: "gotime \<Rightarrow> Event \<Rightarrow> gotime" where
  "created_at now v = (if IsZero (ev_CreatedAt v) then now else ev_CreatedAt v)"

text \<open>The fields of a message, a Go map that the client sends in any order.\<close>

definition message_values :: "gotime \<Rightarrow> Event \<Rightarrow> (string, string) gomap" where
  "message_values now event =
     [(''event_id'', ev_ID event), (''tenant_id'', ev_TenantID event), (''event_type'', ev_EventType event),
      (''payload'', ev_Payload event),
      (''created_at'', rfc3339nano (created_at now event))]"

text \<open>
  \<open>time.Parse\<close> for the layouts \<open>RFC3339Nano\<close> and \<open>RFC3339\<close>: what its fast parser refuses goes to the general
  layout parser, a parameter.
\<close>

datatype time_layout = RFC3339Nano | RFC3339

definition time_Parse :: "(time_layout \<Rightarrow> string \<Rightarrow> gotime option) \<Rightarrow> time_layout \<Rightarrow> string \<Rightarrow> gotime option" where
  "time_Parse general layout v = (case parseRFC3339 v of Some t \<Rightarrow> Some t | None \<Rightarrow> general layout v)"

definition string_field :: "(string \<Rightarrow> xvalue option) \<Rightarrow> string \<Rightarrow> string option" where
  "string_field vs k = (case vs k of Some (XString s) \<Rightarrow> Some s | _ \<Rightarrow> None)"

definition parseRedisMessage :: "(time_layout \<Rightarrow> string \<Rightarrow> gotime option) \<Rightarrow> xmessage \<Rightarrow> QueueMessage" where
  "parseRedisMessage general msg =
     (let text = (\<lambda>k. case string_field (xm_Values msg) k of Some v \<Rightarrow> v | None \<Rightarrow> '''') in
      \<lparr>qm_ID = xm_ID msg,
       qm_EventID = text ''event_id'',
       qm_TenantID = text ''tenant_id'',
       qm_EventType = text ''event_type'',
       qm_Payload = (case xm_Values msg ''payload'' of Some (XString s) \<Rightarrow> s | Some (XBytes b) \<Rightarrow> b | _ \<Rightarrow> ''''),
       qm_CreatedAt =
         (case string_field (xm_Values msg) ''created_at'' of
            None \<Rightarrow> 0
          | Some v \<Rightarrow>
              (case time_Parse general RFC3339Nano v of
                 Some t \<Rightarrow> t
               | None \<Rightarrow> (case time_Parse general RFC3339 v of Some t \<Rightarrow> t | None \<Rightarrow> 0)))\<rparr>)"

section \<open>The queue\<close>

record 'r RedisStreamQueue =
  rs_client :: "'r redis_streams"
  rs_maxLenApprox :: int

definition NewRedisStreamQueue :: "'r redis_streams \<Rightarrow> 'r RedisStreamQueue" where
  "NewRedisStreamQueue client = \<lparr>rs_client = client, rs_maxLenApprox = 500000\<rparr>"

definition WithMaxLenApprox :: "int \<Rightarrow> 'r RedisStreamQueue \<Rightarrow> 'r RedisStreamQueue" where
  "WithMaxLenApprox maxLen r = r\<lparr>rs_maxLenApprox := maxLen\<rparr>"

definition rq_PublishEvent ::
    "'r RedisStreamQueue \<Rightarrow> env \<Rightarrow> string \<Rightarrow> Event option \<Rightarrow> 'r \<Rightarrow> (goerr + string) \<times> 'r" where
  "rq_PublishEvent q e streamName event_opt r =
     (case event_opt of
        None \<Rightarrow> (Inl ErrNilEvent, r)
      | Some event \<Rightarrow>
          if streamName = '''' then (Inl ErrEmptyStream, r)
          else
            let values = message_values (e_now e) event;
                maxLen = (if rs_maxLenApprox q > 0 then Some (rs_maxLenApprox q) else None)
            in (case client_call (xs_delivery (rs_client q) e) (xs_XAdd (rs_client q) e streamName maxLen values) r of
                  (Inl err, r') \<Rightarrow> (Inl (Errorf ''redis xadd error'' err), r')
                | (Inr msgID, r') \<Rightarrow> (Inr msgID, r')))"

fun strings_Contains :: "string \<Rightarrow> string \<Rightarrow> bool" where
  "strings_Contains [] p = (p = [])"
| "strings_Contains (c # cs) p = (strip_prefix p (c # cs) \<noteq> None \<or> strings_Contains cs p)"

definition rq_CreateConsumerGroup ::
    "'r RedisStreamQueue \<Rightarrow> env \<Rightarrow> string \<Rightarrow> string \<Rightarrow> string \<Rightarrow> 'r \<Rightarrow> goerr option \<times> 'r" where
  "rq_CreateConsumerGroup q e streamName groupName startID0 r =
     (if streamName = '''' then (Some ErrEmptyStream, r)
      else if groupName = '''' then (Some ErrEmptyGroup, r)
      else
        let startID = (if startID0 = '''' then ''$'' else startID0) in
        (case client_call (xs_delivery (rs_client q) e) (xs_XGroupCreateMkStream (rs_client q) e streamName groupName startID) r of
           (Inl err, r') \<Rightarrow>
             (if strings_Contains (error_msg err) ''BUSYGROUP'' then None
              else Some (Errorf ''redis xgroup create error'' err), r')
         | (Inr _, r') \<Rightarrow> (None, r')))"

definition rq_ReadEvents ::
    "(time_layout \<Rightarrow> string \<Rightarrow> gotime option) \<Rightarrow> 'r RedisStreamQueue \<Rightarrow> env \<Rightarrow> string \<Rightarrow> string \<Rightarrow> string \<Rightarrow> int \<Rightarrow> duration \<Rightarrow>
       'r \<Rightarrow> (goerr + QueueMessage list) \<times> 'r" where
  "rq_ReadEvents general q e streamName groupName consumerName cnt0 block r =
     (if streamName = '''' then (Inl ErrEmptyStream, r)
      else if groupName = '''' then (Inl ErrEmptyGroup, r)
      else
        let cnt = (if cnt0 \<le> 0 then 10 else cnt0) in
        (case client_call (xs_delivery (rs_client q) e)
            (xs_XReadGroup (rs_client q) e groupName consumerName [streamName, ''>''] cnt block) r of
           (Inl err, r') \<Rightarrow> (if errors_is err redis_Nil then Inr [] else Inl (Errorf ''redis xreadgroup error'' err), r')
         | (Inr res, r') \<Rightarrow> (Inr (concat (map (\<lambda>(stream, msgs). map (parseRedisMessage general) msgs) res)), r')))"

definition rq_AckEvent ::
    "'r RedisStreamQueue \<Rightarrow> env \<Rightarrow> string \<Rightarrow> string \<Rightarrow> string list \<Rightarrow> 'r \<Rightarrow> goerr option \<times> 'r" where
  "rq_AckEvent q e streamName groupName messageIDs r =
     (if length messageIDs = 0 then (None, r)
      else if streamName = '''' then (Some ErrEmptyStream, r)
      else if groupName = '''' then (Some ErrEmptyGroup, r)
      else
        (case client_call (xs_delivery (rs_client q) e) (xs_XAck (rs_client q) e streamName groupName messageIDs) r of
           (Inl err, r') \<Rightarrow> (Some (Errorf ''redis xack error'' err), r')
         | (Inr _, r') \<Rightarrow> (None, r')))"

definition rq_AutoClaim ::
    "(time_layout \<Rightarrow> string \<Rightarrow> gotime option) \<Rightarrow> 'r RedisStreamQueue \<Rightarrow> env \<Rightarrow> string \<Rightarrow> string \<Rightarrow> string \<Rightarrow> duration \<Rightarrow> string \<Rightarrow>
       int \<Rightarrow> 'r \<Rightarrow> (goerr + QueueMessage list \<times> string) \<times> 'r" where
  "rq_AutoClaim general q e streamName groupName consumerName minIdle startID0 cnt0 r =
     (if streamName = '''' then (Inl ErrEmptyStream, r)
      else if groupName = '''' then (Inl ErrEmptyGroup, r)
      else
        let startID = (if startID0 = '''' then ''0-0'' else startID0);
            cnt = (if cnt0 \<le> 0 then 10 else cnt0)
        in (case client_call (xs_delivery (rs_client q) e)
              (xs_XAutoClaim (rs_client q) e streamName groupName consumerName minIdle startID cnt) r of
             (Inl err, r') \<Rightarrow>
               (if errors_is err redis_Nil then Inr ([], ''0-0'') else Inl (Errorf ''redis xautoclaim error'' err), r')
           | (Inr (res, nextStart), r') \<Rightarrow> (Inr (map (parseRedisMessage general) res, nextStart), r')))"

definition redis_stream_queue ::
    "(time_layout \<Rightarrow> string \<Rightarrow> gotime option) \<Rightarrow> 'r RedisStreamQueue \<Rightarrow> 'r stream_queue" where
  "redis_stream_queue general q =
     \<lparr>sq_PublishEvent = rq_PublishEvent q, sq_CreateConsumerGroup = rq_CreateConsumerGroup q,
      sq_ReadEvents = rq_ReadEvents general q, sq_AckEvent = rq_AckEvent q, sq_AutoClaim = rq_AutoClaim general q\<rparr>"

section \<open>A documented server\<close>

text \<open>
  What the commands do to two views of the server: the entries that were ever added to a stream, and the
  pending entries of a group. A command that fails changes nothing; \<open>XADD\<close> adds one entry with a new
  identifier; \<open>XREADGROUP\<close> returns entries of the requested stream, which are pending from then on;
  \<open>XACK\<close> ends the pending state of the entries it names; \<open>XAUTOCLAIM\<close> returns pending entries and drops
  those that were trimmed; \<open>XGROUP CREATE\<close> touches neither.
\<close>

type_synonym 'r stream_log = "'r \<Rightarrow> string \<Rightarrow> xmessage list"
type_synonym 'r stream_pend = "'r \<Rightarrow> string \<Rightarrow> string \<Rightarrow> string \<Rightarrow> xmessage option"

definition XADD_documented :: "'r redis_streams \<Rightarrow> 'r stream_log \<Rightarrow> 'r stream_pend \<Rightarrow> bool" where
  "XADD_documented X slog spend \<longleftrightarrow>
     (\<forall>e st ml vs r. case xs_XAdd X e st ml vs r of
        (Inl err, r') \<Rightarrow> slog r' = slog r \<and> spend r' = spend r
      | (Inr i, r') \<Rightarrow> slog r' = (slog r)(st := slog r st @ [\<lparr>xm_ID = i, xm_Values = map_option XString \<circ> map_of vs\<rparr>]) \<and>
          spend r' = spend r)"

definition XGROUP_documented :: "'r redis_streams \<Rightarrow> 'r stream_log \<Rightarrow> 'r stream_pend \<Rightarrow> bool" where
  "XGROUP_documented X slog spend \<longleftrightarrow>
     (\<forall>e st g i r. slog (snd (xs_XGroupCreateMkStream X e st g i r)) = slog r \<and>
        spend (snd (xs_XGroupCreateMkStream X e st g i r)) = spend r)"

definition XREADGROUP_documented :: "'r redis_streams \<Rightarrow> 'r stream_log \<Rightarrow> 'r stream_pend \<Rightarrow> bool" where
  "XREADGROUP_documented X slog spend \<longleftrightarrow>
     (\<forall>e g c st n block r. case xs_XReadGroup X e g c [st, ''>''] n block r of
        (Inl err, r') \<Rightarrow> slog r' = slog r \<and> spend r' = spend r
      | (Inr res, r') \<Rightarrow> slog r' = slog r \<and>
          (\<forall>st' g' i. spend r st' g' i \<noteq> None \<longrightarrow> spend r' st' g' i \<noteq> None) \<and>
          (\<forall>(st', ms) \<in> set res. \<forall>m \<in> set ms. m \<in> set (slog r st) \<and> spend r' st g (xm_ID m) = Some m))"

definition XACK_documented :: "'r redis_streams \<Rightarrow> 'r stream_log \<Rightarrow> 'r stream_pend \<Rightarrow> bool" where
  "XACK_documented X slog spend \<longleftrightarrow>
     (\<forall>e st g ids r. case xs_XAck X e st g ids r of
        (Inl err, r') \<Rightarrow> slog r' = slog r \<and> spend r' = spend r
      | (Inr n, r') \<Rightarrow> slog r' = slog r \<and>
          (\<forall>st' g' i. spend r' st' g' i = (if st' = st \<and> g' = g \<and> i \<in> set ids then None else spend r st' g' i)))"

definition XAUTOCLAIM_documented :: "'r redis_streams \<Rightarrow> 'r stream_log \<Rightarrow> 'r stream_pend \<Rightarrow> bool" where
  "XAUTOCLAIM_documented X slog spend \<longleftrightarrow>
     (\<forall>e st g c idle i n r. case xs_XAutoClaim X e st g c idle i n r of
        (Inl err, r') \<Rightarrow> slog r' = slog r \<and> spend r' = spend r
      | (Inr (ms, nx), r') \<Rightarrow> slog r' = slog r \<and> (\<forall>st' g'. spend r' st' g' \<subseteq>\<^sub>m spend r st' g') \<and>
          (\<forall>m \<in> set ms. spend r st g (xm_ID m) = Some m))"

definition streams_documented :: "'r redis_streams \<Rightarrow> 'r stream_log \<Rightarrow> 'r stream_pend \<Rightarrow> bool" where
  "streams_documented X slog spend \<longleftrightarrow>
     XADD_documented X slog spend \<and> XGROUP_documented X slog spend \<and> XREADGROUP_documented X slog spend \<and>
     XACK_documented X slog spend \<and> XAUTOCLAIM_documented X slog spend"

section \<open>Reading what was published\<close>

lemma published_message:
  "parseRedisMessage general \<lparr>xm_ID = i, xm_Values = map_option XString \<circ> map_of (message_values now v)\<rparr> =
     \<lparr>qm_ID = i, qm_EventID = ev_ID v, qm_TenantID = ev_TenantID v, qm_EventType = ev_EventType v, qm_Payload = ev_Payload v,
      qm_CreatedAt =
        (case time_Parse general RFC3339Nano (rfc3339nano (created_at now v)) of
           Some t \<Rightarrow> t
         | None \<Rightarrow> (case time_Parse general RFC3339 (rfc3339nano (created_at now v)) of Some t \<Rightarrow> t | None \<Rightarrow> 0))\<rparr>"
  by (simp add: parseRedisMessage_def string_field_def message_values_def Let_def)

lemma published_message_exact:
  assumes "time_json (created_at now v) \<noteq> None" "0 \<le> created_at now v"
  shows "parseRedisMessage general \<lparr>xm_ID = i, xm_Values = map_option XString \<circ> map_of (message_values now v)\<rparr> =
     \<lparr>qm_ID = i, qm_EventID = ev_ID v, qm_TenantID = ev_TenantID v, qm_EventType = ev_EventType v, qm_Payload = ev_Payload v,
      qm_CreatedAt = created_at now v\<rparr>"
proof -
  have "time_json (created_at now v) = Some (rfc3339nano (created_at now v))"
    using assms(1) by (auto simp: time_json_def split: if_splits)
  from parseRFC3339_printed [OF this assms(2)] show ?thesis by (simp add: published_message time_Parse_def)
qed

section \<open>The contract\<close>

lemma XAddD:
  assumes "streams_documented X slog spend" "xs_XAdd X e st ml vs r = (x, r')"
  shows "spend r' = spend r \<and> (case x of Inl err \<Rightarrow> slog r' = slog r
      | Inr i \<Rightarrow> slog r' = (slog r)(st := slog r st @ [\<lparr>xm_ID = i, xm_Values = map_option XString \<circ> map_of vs\<rparr>]))"
proof -
  have "XADD_documented X slog spend" using assms(1) by (simp add: streams_documented_def)
  from this [unfolded XADD_documented_def, THEN spec [of _ e], THEN spec [of _ st], THEN spec [of _ ml], THEN spec [of _ vs], THEN spec [of _ r]] show ?thesis
    using assms(2) by (cases x) auto
qed

lemma XReadGroupD:
  assumes "streams_documented X slog spend" "xs_XReadGroup X e g c [st, ''>''] n block r = (x, r')"
  shows "slog r' = slog r \<and> (\<forall>st' g' i. spend r st' g' i \<noteq> None \<longrightarrow> spend r' st' g' i \<noteq> None) \<and>
    (case x of Inl err \<Rightarrow> True
     | Inr res \<Rightarrow> \<forall>(st', ms) \<in> set res. \<forall>m \<in> set ms. m \<in> set (slog r st) \<and> spend r' st g (xm_ID m) = Some m)"
proof -
  have "XREADGROUP_documented X slog spend" using assms(1) by (simp add: streams_documented_def)
  from this [unfolded XREADGROUP_documented_def, THEN spec [of _ e], THEN spec [of _ g], THEN spec [of _ c], THEN spec [of _ st], THEN spec [of _ n], THEN spec [of _ block], THEN spec [of _ r]] show ?thesis
    using assms(2) by (cases x) auto
qed

lemma XAckD:
  assumes "streams_documented X slog spend" "xs_XAck X e st g ids r = (x, r')"
  shows "slog r' = slog r \<and> (\<forall>st' g' i. st' \<noteq> st \<or> g' \<noteq> g \<or> i \<notin> set ids \<longrightarrow> spend r' st' g' i = spend r st' g' i) \<and>
    (case x of Inl err \<Rightarrow> True | Inr n \<Rightarrow> \<forall>i \<in> set ids. spend r' st g i = None)"
proof -
  have "XACK_documented X slog spend" using assms(1) by (simp add: streams_documented_def)
  from this [unfolded XACK_documented_def, THEN spec [of _ e], THEN spec [of _ st], THEN spec [of _ g], THEN spec [of _ ids], THEN spec [of _ r]] show ?thesis
    using assms(2) by (cases x) auto
qed

lemma XAutoClaimD:
  assumes "streams_documented X slog spend" "xs_XAutoClaim X e st g c idle i n r = (x, r')"
  shows "slog r' = slog r \<and> (\<forall>st' g'. spend r' st' g' \<subseteq>\<^sub>m spend r st' g') \<and>
    (case x of Inl err \<Rightarrow> True | Inr (ms, nx) \<Rightarrow> \<forall>m \<in> set ms. spend r st g (xm_ID m) = Some m)"
proof -
  have "XAUTOCLAIM_documented X slog spend" using assms(1) by (simp add: streams_documented_def)
  from this [unfolded XAUTOCLAIM_documented_def, THEN spec [of _ e], THEN spec [of _ st], THEN spec [of _ g], THEN spec [of _ c], THEN spec [of _ idle], THEN spec [of _ i], THEN spec [of _ n], THEN spec [of _ r]] show ?thesis
    using assms(2) by (cases x) auto
qed

text \<open>The two views of the queue.\<close>

definition rq_log :: "(time_layout \<Rightarrow> string \<Rightarrow> gotime option) \<Rightarrow> 'r stream_log \<Rightarrow> 'r \<Rightarrow> string \<Rightarrow> QueueMessage list" where
  "rq_log general slog r st = map (parseRedisMessage general) (slog r st)"

definition rq_pend ::
    "(time_layout \<Rightarrow> string \<Rightarrow> gotime option) \<Rightarrow> 'r stream_pend \<Rightarrow> 'r \<Rightarrow> string \<Rightarrow> string \<Rightarrow> string \<Rightarrow> QueueMessage option" where
  "rq_pend general spend r st g i = map_option (parseRedisMessage general) (spend r st g i)"

lemma parse_ID [simp]: "qm_ID (parseRedisMessage general m) = xm_ID m"
  by (simp add: parseRedisMessage_def Let_def)

lemma publish_call:
  assumes "streams_documented X slog spend" "client_call d (xs_XAdd X e st ml vs) r = (x, r')"
  shows "spend r' = spend r \<and> (\<exists>pre. slog r' = (slog r)(st := slog r st @ pre) \<and>
    (\<forall>i. x = Inr i \<longrightarrow> (\<exists>pre'. pre = pre' @ [\<lparr>xm_ID = i, xm_Values = map_option XString \<circ> map_of vs\<rparr>])))"
proof -
  let ?P = "\<lambda>s. spend s = spend r \<and> (\<exists>pre. slog s = (slog r)(st := slog r st @ pre))"
  have step1: "?P (snd (xs_XAdd X e st ml vs s))" if P: "?P s" for s
  proof -
    obtain pre where pre: "slog s = (slog r)(st := slog r st @ pre)" using P by blast
    obtain y s' where y: "xs_XAdd X e st ml vs s = (y, s')" by fastforce
    note D = XAddD [OF assms(1) y]
    show ?thesis
    proof (cases y)
      case (Inl err)
      then show ?thesis using D P y by auto
    next
      case (Inr i)
      then have "slog s' = (slog r)(st := slog r st @ pre @ [\<lparr>xm_ID = i, xm_Values = map_option XString \<circ> map_of vs\<rparr>])"
        using D pre by (simp add: fun_eq_iff)
      then show ?thesis using D P y by auto
    qed
  qed
  then have step: "\<forall>s. ?P s \<longrightarrow> ?P (snd (xs_XAdd X e st ml vs s))" by blast
  have start: "?P r" by (auto intro!: exI [of _ "[]"])
  note inv = client_call_inv [where P = ?P, OF assms(2) start step]
  show ?thesis
  proof (cases x)
    case (Inl err)
    then show ?thesis using inv(1) by auto
  next
    case (Inr i)
    then obtain s pre where s: "spend s = spend r" "slog s = (slog r)(st := slog r st @ pre)" "xs_XAdd X e st ml vs s = (Inr i, r')"
      using inv(2) by blast
    then show ?thesis
      using XAddD [OF assms(1) s(3)] Inr
      by (intro conjI exI [of _ "pre @ [\<lparr>xm_ID = i, xm_Values = map_option XString \<circ> map_of vs\<rparr>]"]) (simp_all add: fun_eq_iff)
  qed
qed

lemma read_call:
  assumes "streams_documented X slog spend" "client_call d (xs_XReadGroup X e g c [st, ''>''] n block) r = (x, r')"
  shows "slog r' = slog r \<and> (\<forall>st' g' i. spend r st' g' i \<noteq> None \<longrightarrow> spend r' st' g' i \<noteq> None) \<and>
    (\<forall>res. x = Inr res \<longrightarrow> (\<forall>(st', ms) \<in> set res. \<forall>m \<in> set ms. m \<in> set (slog r st) \<and> spend r' st g (xm_ID m) = Some m))"
proof -
  let ?P = "\<lambda>s. slog s = slog r \<and> (\<forall>st' g' i. spend r st' g' i \<noteq> None \<longrightarrow> spend s st' g' i \<noteq> None)"
  have step: "\<forall>s. ?P s \<longrightarrow> ?P (snd (xs_XReadGroup X e g c [st, ''>''] n block s))"
  proof (intro allI impI)
    fix s
    assume P: "?P s"
    obtain y s' where y: "xs_XReadGroup X e g c [st, ''>''] n block s = (y, s')" by fastforce
    show "?P (snd (xs_XReadGroup X e g c [st, ''>''] n block s))" using XReadGroupD [OF assms(1) y] P y by auto
  qed
  have start: "?P r" by simp
  note inv = client_call_inv [where P = ?P, OF assms(2) start step]
  have "\<forall>(st', ms) \<in> set res. \<forall>m \<in> set ms. m \<in> set (slog r st) \<and> spend r' st g (xm_ID m) = Some m" if x: "x = Inr res" for res
  proof -
    obtain s where s: "?P s" "xs_XReadGroup X e g c [st, ''>''] n block s = (Inr res, r')" using inv(2) [OF x] by blast
    then show ?thesis using XReadGroupD [OF assms(1) s(2)] by simp
  qed
  then show ?thesis using inv(1) by blast
qed

lemma ack_call:
  assumes "streams_documented X slog spend" "client_call d (xs_XAck X e st g ids) r = (x, r')"
  shows "slog r' = slog r \<and> (\<forall>st' g' i. st' \<noteq> st \<or> g' \<noteq> g \<or> i \<notin> set ids \<longrightarrow> spend r' st' g' i = spend r st' g' i) \<and>
    (\<forall>n. x = Inr n \<longrightarrow> (\<forall>i \<in> set ids. spend r' st g i = None))"
proof -
  let ?P = "\<lambda>s. slog s = slog r \<and> (\<forall>st' g' i. st' \<noteq> st \<or> g' \<noteq> g \<or> i \<notin> set ids \<longrightarrow> spend s st' g' i = spend r st' g' i)"
  have step: "\<forall>s. ?P s \<longrightarrow> ?P (snd (xs_XAck X e st g ids s))"
  proof (intro allI impI)
    fix s
    assume P: "?P s"
    obtain y s' where y: "xs_XAck X e st g ids s = (y, s')" by fastforce
    show "?P (snd (xs_XAck X e st g ids s))" using XAckD [OF assms(1) y] P y by auto
  qed
  have start: "?P r" by simp
  note inv = client_call_inv [where P = ?P, OF assms(2) start step]
  have "\<forall>i \<in> set ids. spend r' st g i = None" if x: "x = Inr n" for n
  proof -
    obtain s where s: "?P s" "xs_XAck X e st g ids s = (Inr n, r')" using inv(2) [OF x] by blast
    then show ?thesis using XAckD [OF assms(1) s(2)] by simp
  qed
  then show ?thesis using inv(1) by blast
qed

lemma claim_call:
  assumes "streams_documented X slog spend" "client_call d (xs_XAutoClaim X e st g c idle i n) r = (x, r')"
  shows "slog r' = slog r \<and> (\<forall>ms nx. x = Inr (ms, nx) \<longrightarrow> (\<forall>m \<in> set ms. spend r st g (xm_ID m) = Some m))"
proof -
  let ?P = "\<lambda>s. slog s = slog r \<and> (\<forall>st' g'. spend s st' g' \<subseteq>\<^sub>m spend r st' g')"
  have step: "\<forall>s. ?P s \<longrightarrow> ?P (snd (xs_XAutoClaim X e st g c idle i n s))"
  proof (intro allI impI)
    fix s
    assume P: "?P s"
    obtain y s' where y: "xs_XAutoClaim X e st g c idle i n s = (y, s')" by fastforce
    show "?P (snd (xs_XAutoClaim X e st g c idle i n s))" using XAutoClaimD [OF assms(1) y] P y by (simp, blast intro: map_le_trans)
  qed
  have start: "?P r" by simp
  note inv = client_call_inv [where P = ?P, OF assms(2) start step]
  have "\<forall>m \<in> set ms. spend r st g (xm_ID m) = Some m" if x: "x = Inr (ms, nx)" for ms nx
  proof -
    obtain s where s: "slog s = slog r" "\<forall>st' g'. spend s st' g' \<subseteq>\<^sub>m spend r st' g'" "xs_XAutoClaim X e st g c idle i n s = (Inr (ms, nx), r')"
      using inv(2) [OF x] by blast
    have "\<forall>m \<in> set ms. spend s st g (xm_ID m) = Some m" using XAutoClaimD [OF assms(1) s(3)] by simp
    then show ?thesis using s(2) by (metis domI map_le_def)
  qed
  then show ?thesis using inv(1) by blast
qed

lemma create_call:
  assumes "streams_documented X slog spend" "client_call d (xs_XGroupCreateMkStream X e st g i) r = (x, r')"
  shows "slog r' = slog r \<and> spend r' = spend r"
proof -
  have doc: "XGROUP_documented X slog spend" using assms(1) by (simp add: streams_documented_def)
  show ?thesis
    by (rule client_call_inv(1) [where P = "\<lambda>s. slog s = slog r \<and> spend s = spend r", OF assms(2)])
      (use doc in \<open>simp_all add: XGROUP_documented_def\<close>)
qed

lemma redis_queue_contract:
  assumes doc: "streams_documented (rs_client q) slog spend"
  shows "queue_contract (redis_stream_queue general q) (rq_log general slog) (rq_pend general spend) (\<lambda>r. True)"
proof (unfold_locales, unfold redis_stream_queue_def stream_queue.simps)
  fix r e st v i r'
  assume p: "rq_PublishEvent q e st (Some v) r = (Inr i, r')"
  obtain ml where "client_call (xs_delivery (rs_client q) e) (xs_XAdd (rs_client q) e st ml (message_values (e_now e) v)) r = (Inr i, r')"
    using p by (auto simp: rq_PublishEvent_def Let_def split: if_splits prod.splits sum.splits)
  from publish_call [OF doc this] obtain pre where
    s: "spend r' = spend r" "slog r' = (slog r)(st := slog r st @ pre @ [\<lparr>xm_ID = i, xm_Values = map_option XString \<circ> map_of (message_values (e_now e) v)\<rparr>])"
    by auto
  show "True \<and> rq_pend general spend r' = rq_pend general spend r \<and>
      (\<exists>pre msg. rq_log general slog r' = (rq_log general slog r)(st := rq_log general slog r st @ pre @ [msg]) \<and> qm_ID msg = i \<and>
         qm_EventID msg = ev_ID v \<and> qm_TenantID msg = ev_TenantID v \<and> qm_EventType msg = ev_EventType v \<and> qm_Payload msg = ev_Payload v)"
    by (intro conjI exI [of _ "map (parseRedisMessage general) pre"]
        exI [of _ "parseRedisMessage general \<lparr>xm_ID = i, xm_Values = map_option XString \<circ> map_of (message_values (e_now e) v)\<rparr>"])
      (simp_all add: rq_pend_def rq_log_def s fun_eq_iff published_message)
next
  fix r e st vo err r'
  assume p: "rq_PublishEvent q e st vo r = (Inl err, r')"
  have "r' = r \<or> (\<exists>x ml vs. client_call (xs_delivery (rs_client q) e) (xs_XAdd (rs_client q) e st ml vs) r = (x, r'))"
    using p by (auto simp: rq_PublishEvent_def Let_def split: option.splits if_splits prod.splits sum.splits)
  then obtain pre where s: "spend r' = spend r" "slog r' = (slog r)(st := slog r st @ pre)"
    using publish_call [OF doc] by (metis append_Nil2 fun_upd_triv)
  show "True \<and> rq_pend general spend r' = rq_pend general spend r \<and>
      (\<exists>pre. rq_log general slog r' = (rq_log general slog r)(st := rq_log general slog r st @ pre))"
    by (intro conjI exI [of _ "map (parseRedisMessage general) pre"]) (simp_all add: rq_pend_def rq_log_def s fun_eq_iff)
next
  fix r e st g c n block ms r'
  assume p: "rq_ReadEvents general q e st g c n block r = (Inr ms, r')"
  define cnt where "cnt = (if n \<le> 0 then 10 else n)"
  obtain x where x: "client_call (xs_delivery (rs_client q) e) (xs_XReadGroup (rs_client q) e g c [st, ''>''] cnt block) r = (x, r')"
    "ms = [] \<or> (\<exists>res. x = Inr res \<and> ms = concat (map (\<lambda>(stream, msgs). map (parseRedisMessage general) msgs) res))"
    using p by (auto simp: rq_ReadEvents_def Let_def cnt_def split: if_splits prod.splits sum.splits)
  note R = read_call [OF doc x(1)]
  have "msg \<in> set (rq_log general slog r st) \<and> rq_pend general spend r' st g (qm_ID msg) = Some msg" if msg: "msg \<in> set ms" for msg
  proof -
    obtain res s msgs m where m: "x = Inr res" "(s, msgs) \<in> set res" "m \<in> set msgs" "msg = parseRedisMessage general m"
      using x(2) msg by auto
    then have "m \<in> set (slog r st)" "spend r' st g (xm_ID m) = Some m" using R by auto
    then show ?thesis by (simp add: m(4) rq_log_def rq_pend_def)
  qed
  then show "True \<and> rq_log general slog r' = rq_log general slog r \<and> set ms \<subseteq> set (rq_log general slog r st) \<and>
      (\<forall>msg \<in> set ms. rq_pend general spend r' st g (qm_ID msg) = Some msg) \<and>
      (\<forall>st' g' i. rq_pend general spend r st' g' i \<noteq> None \<longrightarrow> rq_pend general spend r' st' g' i \<noteq> None)"
    using R by (auto simp: rq_log_def rq_pend_def fun_eq_iff)
next
  fix r e st g c n block err r'
  assume p: "rq_ReadEvents general q e st g c n block r = (Inl err, r')"
  define cnt where "cnt = (if n \<le> 0 then 10 else n)"
  have "r' = r \<or> (\<exists>x. client_call (xs_delivery (rs_client q) e) (xs_XReadGroup (rs_client q) e g c [st, ''>''] cnt block) r = (x, r'))"
    using p by (auto simp: rq_ReadEvents_def Let_def cnt_def split: if_splits prod.splits sum.splits)
  then have "slog r' = slog r \<and> (\<forall>st' g' i. spend r st' g' i \<noteq> None \<longrightarrow> spend r' st' g' i \<noteq> None)"
  proof
    assume "\<exists>x. client_call (xs_delivery (rs_client q) e) (xs_XReadGroup (rs_client q) e g c [st, ''>''] cnt block) r = (x, r')"
    then show ?thesis using read_call [OF doc] by blast
  qed simp
  then show "True \<and> rq_log general slog r' = rq_log general slog r \<and>
      (\<forall>st' g' i. rq_pend general spend r st' g' i \<noteq> None \<longrightarrow> rq_pend general spend r' st' g' i \<noteq> None)"
    by (auto simp: rq_log_def rq_pend_def fun_eq_iff)
next
  fix r e st g ids x r'
  assume p: "rq_AckEvent q e st g ids r = (x, r')"
  have "r' = r \<or> (\<exists>y. client_call (xs_delivery (rs_client q) e) (xs_XAck (rs_client q) e st g ids) r = (y, r'))"
    using p by (auto simp: rq_AckEvent_def split: if_splits prod.splits sum.splits)
  then have "slog r' = slog r \<and> (\<forall>st' g' i. st' \<noteq> st \<or> g' \<noteq> g \<or> i \<notin> set ids \<longrightarrow> spend r' st' g' i = spend r st' g' i)"
    using ack_call [OF doc] by metis
  then show "True \<and> rq_log general slog r' = rq_log general slog r \<and>
      (\<forall>st' g' i. st' \<noteq> st \<or> g' \<noteq> g \<or> i \<notin> set ids \<longrightarrow> rq_pend general spend r' st' g' i = rq_pend general spend r st' g' i)"
    by (auto simp: rq_log_def rq_pend_def fun_eq_iff)
next
  fix r e st g ids r' i
  assume p: "rq_AckEvent q e st g ids r = (None, r')" and i: "i \<in> set ids"
  then obtain n where "client_call (xs_delivery (rs_client q) e) (xs_XAck (rs_client q) e st g ids) r = (Inr n, r')"
    by (auto simp: rq_AckEvent_def split: if_splits prod.splits sum.splits)
  then show "rq_pend general spend r' st g i = None" using ack_call [OF doc] i by (auto simp: rq_pend_def)
next
  fix r e st g c idle i0 n ms i1 r'
  assume p: "rq_AutoClaim general q e st g c idle i0 n r = (Inr (ms, i1), r')"
  define start cnt where "start = (if i0 = [] then ''0-0'' else i0)" and "cnt = (if n \<le> 0 then 10 else n)"
  obtain x where x: "client_call (xs_delivery (rs_client q) e) (xs_XAutoClaim (rs_client q) e st g c idle start cnt) r = (x, r')"
    "ms = [] \<or> (\<exists>res. x = Inr (res, i1) \<and> ms = map (parseRedisMessage general) res)"
    using p by (auto simp: rq_AutoClaim_def Let_def start_def cnt_def split: if_splits prod.splits sum.splits)
  then show "True \<and> rq_log general slog r' = rq_log general slog r \<and> (\<forall>msg \<in> set ms. rq_pend general spend r st g (qm_ID msg) = Some msg)"
    using claim_call [OF doc x(1)] by (auto simp: rq_log_def rq_pend_def fun_eq_iff)
next
  fix r e st g c idle i0 n err r'
  assume p: "rq_AutoClaim general q e st g c idle i0 n r = (Inl err, r')"
  define start cnt where "start = (if i0 = [] then ''0-0'' else i0)" and "cnt = (if n \<le> 0 then 10 else n)"
  have "r' = r \<or> (\<exists>x. client_call (xs_delivery (rs_client q) e) (xs_XAutoClaim (rs_client q) e st g c idle start cnt) r = (x, r'))"
    using p by (auto simp: rq_AutoClaim_def Let_def start_def cnt_def split: if_splits prod.splits sum.splits)
  then have "slog r' = slog r" using claim_call [OF doc] by metis
  then show "True \<and> rq_log general slog r' = rq_log general slog r" by (simp add: rq_log_def fun_eq_iff)
next
  fix r e st g i0 x r'
  assume p: "rq_CreateConsumerGroup q e st g i0 r = (x, r')"
  have "r' = r \<or> (\<exists>y i. client_call (xs_delivery (rs_client q) e) (xs_XGroupCreateMkStream (rs_client q) e st g i) r = (y, r'))"
    using p by (auto simp: rq_CreateConsumerGroup_def Let_def split: if_splits prod.splits sum.splits)
  then have "slog r' = slog r \<and> spend r' = spend r" using create_call [OF doc] by metis
  then show "True \<and> rq_log general slog r' = rq_log general slog r \<and> rq_pend general spend r' = rq_pend general spend r"
    by (simp add: rq_log_def rq_pend_def fun_eq_iff)
qed

section \<open>A server\<close>

text \<open>
  A server with these commands, for the witnesses: it keeps every entry that was added and how many of
  them are trimmed, and trims a stream to its limit as soon as it is longer.
\<close>

record xgroup =
  xg_last :: nat
  xg_pel :: "string \<Rightarrow> xmessage option"

record xstream =
  xt_log :: "xmessage list"
  xt_trimmed :: nat
  xt_groups :: "string \<Rightarrow> xgroup option"

type_synonym xserver = "string \<Rightarrow> xstream"

definition xserver0 :: xserver where
  "xserver0 = (\<lambda>st. \<lparr>xt_log = [], xt_trimmed = 0, xt_groups = Map.empty\<rparr>)"

definition sv_log :: "xserver stream_log" where
  "sv_log r st = xt_log (r st)"

definition sv_pend :: "xserver stream_pend" where
  "sv_pend r st g i = (case xt_groups (r st) g of None \<Rightarrow> None | Some x \<Rightarrow> xg_pel x i)"

definition put_xgroup :: "string \<Rightarrow> string \<Rightarrow> xgroup \<Rightarrow> xserver \<Rightarrow> xserver" where
  "put_xgroup st g x r = r(st := (r st)\<lparr>xt_groups := (xt_groups (r st))(g \<mapsto> x)\<rparr>)"

definition sv_XAdd :: "string \<Rightarrow> int option \<Rightarrow> (string, string) gomap \<Rightarrow> xserver \<Rightarrow> (goerr + string) \<times> xserver" where
  "sv_XAdd st ml vs r =
     (let i = show_nat (Suc (length (xt_log (r st)))) @ ''-0'';
          x = r st
      in (Inr i, r(st := x\<lparr>xt_log := xt_log x @ [\<lparr>xm_ID = i, xm_Values = map_option XString \<circ> map_of vs\<rparr>],
           xt_trimmed := (case ml of None \<Rightarrow> xt_trimmed x | Some k \<Rightarrow> max (xt_trimmed x) (Suc (length (xt_log x)) - nat k))\<rparr>)))"

definition sv_XGroupCreate :: "string \<Rightarrow> string \<Rightarrow> string \<Rightarrow> xserver \<Rightarrow> (goerr + unit) \<times> xserver" where
  "sv_XGroupCreate st g i r =
     (if xt_groups (r st) g \<noteq> None then (Inl (ErrorsNew ''BUSYGROUP Consumer Group name already exists''), r)
      else (Inr (), put_xgroup st g \<lparr>xg_last = (if i = ''$'' then length (xt_log (r st)) else 0), xg_pel = Map.empty\<rparr> r))"

definition sv_XReadGroup :: "string \<Rightarrow> string list \<Rightarrow> int \<Rightarrow> xserver \<Rightarrow> (goerr + (string \<times> xmessage list) list) \<times> xserver" where
  "sv_XReadGroup g sts n r =
     (let st = hd sts in
      (case xt_groups (r st) g of
         None \<Rightarrow> (Inl (ErrorsNew ''NOGROUP No such key or consumer group''), r)
       | Some x \<Rightarrow>
           let start = max (xg_last x) (xt_trimmed (r st));
               ms = take (nat n) (drop start (xt_log (r st)));
               pel = (\<lambda>i. case find (\<lambda>m. xm_ID m = i) ms of Some m \<Rightarrow> Some m | None \<Rightarrow> xg_pel x i)
           in if ms = [] then (Inl redis_Nil, r)
              else (Inr [(st, filter (\<lambda>m. pel (xm_ID m) = Some m) ms)], put_xgroup st g \<lparr>xg_last = start + length ms, xg_pel = pel\<rparr> r)))"

definition sv_XAck :: "string \<Rightarrow> string \<Rightarrow> string list \<Rightarrow> xserver \<Rightarrow> (goerr + int) \<times> xserver" where
  "sv_XAck st g ids r =
     (case xt_groups (r st) g of
        None \<Rightarrow> (Inr 0, r)
      | Some x \<Rightarrow> (Inr (int (length (filter (\<lambda>i. xg_pel x i \<noteq> None) ids))),
          put_xgroup st g (x\<lparr>xg_pel := (\<lambda>i. if i \<in> set ids then None else xg_pel x i)\<rparr>) r))"

definition sv_XAutoClaim :: "string \<Rightarrow> string \<Rightarrow> int \<Rightarrow> xserver \<Rightarrow> (goerr + xmessage list \<times> string) \<times> xserver" where
  "sv_XAutoClaim st g n r =
     (case xt_groups (r st) g of
        None \<Rightarrow> (Inl (ErrorsNew ''NOGROUP No such key or consumer group''), r)
      | Some x \<Rightarrow>
          let kept = drop (xt_trimmed (r st)) (xt_log (r st)) in
          (Inr (take (nat n) (filter (\<lambda>m. xg_pel x (xm_ID m) = Some m) kept), ''0-0''),
           put_xgroup st g (x\<lparr>xg_pel := (\<lambda>i. case xg_pel x i of None \<Rightarrow> None | Some m \<Rightarrow> if m \<in> set kept then Some m else None)\<rparr>) r))"

definition xserver_client :: "(env \<Rightarrow> delivery) \<Rightarrow> xserver redis_streams" where
  "xserver_client dl =
     \<lparr>xs_XAdd = (\<lambda>e. sv_XAdd), xs_XGroupCreateMkStream = (\<lambda>e. sv_XGroupCreate),
      xs_XReadGroup = (\<lambda>e g c sts n block. sv_XReadGroup g sts n), xs_XAck = (\<lambda>e. sv_XAck),
      xs_XAutoClaim = (\<lambda>e st g c idle i n. sv_XAutoClaim st g n), xs_delivery = dl\<rparr>"

lemma sv_put [simp]:
  "sv_log (put_xgroup st g x r) = sv_log r"
  "sv_pend (put_xgroup st g x r) st' g' i = (if st' = st \<and> g' = g then xg_pel x i else sv_pend r st' g' i)"
  by (auto simp: sv_log_def sv_pend_def put_xgroup_def fun_eq_iff)

lemma sv_pend_group:
  "xt_groups (r st) g = None \<Longrightarrow> sv_pend r st g i = None"
  "xt_groups (r st) g = Some x \<Longrightarrow> sv_pend r st g i = xg_pel x i"
  by (simp_all add: sv_pend_def)

lemma xserver_documented: "streams_documented (xserver_client dl) sv_log sv_pend"
proof -
  have "XADD_documented (xserver_client dl) sv_log sv_pend"
    by (simp add: XADD_documented_def xserver_client_def sv_XAdd_def Let_def sv_log_def sv_pend_def fun_eq_iff)
  moreover have "XGROUP_documented (xserver_client dl) sv_log sv_pend"
    by (auto simp: XGROUP_documented_def xserver_client_def sv_XGroupCreate_def fun_eq_iff sv_pend_group)
  moreover have "XREADGROUP_documented (xserver_client dl) sv_log sv_pend"
    unfolding XREADGROUP_documented_def
  proof (intro allI)
    fix e g c st n block r
    show "case xs_XReadGroup (xserver_client dl) e g c [st, ''>''] n block r of
        (Inl err, r') \<Rightarrow> sv_log r' = sv_log r \<and> sv_pend r' = sv_pend r
      | (Inr res, r') \<Rightarrow> sv_log r' = sv_log r \<and>
          (\<forall>st' g' i. sv_pend r st' g' i \<noteq> None \<longrightarrow> sv_pend r' st' g' i \<noteq> None) \<and>
          (\<forall>(st', ms) \<in> set res. \<forall>m \<in> set ms. m \<in> set (sv_log r st) \<and> sv_pend r' st g (xm_ID m) = Some m)"
      by (cases "xt_groups (r st) g")
        (auto simp: xserver_client_def sv_XReadGroup_def Let_def sv_pend_group sv_log_def [of r st] split: option.split
          dest!: in_set_takeD in_set_dropD)
  qed
  moreover have "XACK_documented (xserver_client dl) sv_log sv_pend"
    by (auto simp: XACK_documented_def xserver_client_def sv_XAck_def sv_pend_group split: option.splits)
  moreover have "XAUTOCLAIM_documented (xserver_client dl) sv_log sv_pend"
    by (auto simp: XAUTOCLAIM_documented_def xserver_client_def sv_XAutoClaim_def Let_def map_le_def sv_pend_group dom_def
        split: option.splits if_splits dest!: in_set_takeD)
  ultimately show ?thesis by (simp add: streams_documented_def)
qed

section \<open>Properties\<close>

text \<open>C8: what the Redis queue publishes is read back as it was published: over a server that adds to a stream
  what it is given, a publication that succeeds appends to the stream (after entries of repeated calls, if
  any), and the last entry, which has the identifier that is returned, is parsed to a message with exactly
  the event's identifier, tenant, type and payload and its time of creation, or that of the publication
  when the event has none; no other stream and nothing pending changes. The time is one that JSON can write,
  not before the year 1.\<close>

theorem redis_message_roundtrip:
  assumes "streams_documented (rs_client q) slog spend"
    and "time_json (created_at (e_now e) v) \<noteq> None" "0 \<le> created_at (e_now e) v"
    and "rq_PublishEvent q e st (Some v) r = (Inr i, r')"
  shows "(\<exists>repeats. rq_log general slog r' = (rq_log general slog r)(st := rq_log general slog r st @ repeats @
      [\<lparr>qm_ID = i, qm_EventID = ev_ID v, qm_TenantID = ev_TenantID v, qm_EventType = ev_EventType v, qm_Payload = ev_Payload v,
        qm_CreatedAt = created_at (e_now e) v\<rparr>])) \<and>
    rq_pend general spend r' = rq_pend general spend r"
proof -
  obtain ml where "client_call (xs_delivery (rs_client q) e) (xs_XAdd (rs_client q) e st ml (message_values (e_now e) v)) r = (Inr i, r')"
    using assms(4) by (auto simp: rq_PublishEvent_def Let_def split: if_splits prod.splits sum.splits)
  from publish_call [OF assms(1) this] obtain pre' where s: "spend r' = spend r"
    "slog r' = (slog r)(st := slog r st @ pre' @ [\<lparr>xm_ID = i, xm_Values = map_option XString \<circ> map_of (message_values (e_now e) v)\<rparr>])"
    by auto
  have "rq_log general slog r' = (rq_log general slog r)(st := rq_log general slog r st @ map (parseRedisMessage general) pre' @
      [\<lparr>qm_ID = i, qm_EventID = ev_ID v, qm_TenantID = ev_TenantID v, qm_EventType = ev_EventType v, qm_Payload = ev_Payload v,
        qm_CreatedAt = created_at (e_now e) v\<rparr>])"
    using s(2) published_message_exact [OF assms(2,3)] by (simp add: rq_log_def fun_eq_iff)
  moreover have "rq_pend general spend r' = rq_pend general spend r"
    using s(1) by (simp add: rq_pend_def fun_eq_iff)
  ultimately show ?thesis by blast
qed

definition demo_queue :: "int \<Rightarrow> (env \<Rightarrow> delivery) \<Rightarrow> xserver RedisStreamQueue" where
  "demo_queue maxLen dl = WithMaxLenApprox maxLen (NewRedisStreamQueue (xserver_client dl))"

lemma demo_documented: "streams_documented (rs_client (demo_queue maxLen dl)) sv_log sv_pend"
  by (simp add: demo_queue_def WithMaxLenApprox_def NewRedisStreamQueue_def xserver_documented)

lemmas demo_eval = demo_queue_def WithMaxLenApprox_def NewRedisStreamQueue_def xserver_client_def rq_PublishEvent_def
  rq_CreateConsumerGroup_def rq_ReadEvents_def sv_XAdd_def sv_XGroupCreate_def sv_XReadGroup_def put_xgroup_def xserver0_def Let_def

theorem redis_message_roundtrip_witness:
  "\<exists>i r'. rq_PublishEvent (demo_queue 0 (\<lambda>e. Delivered 1)) env0 ''st'' (Some (event0\<lparr>ev_CreatedAt := 1000\<rparr>)) xserver0 = (Inr i, r') \<and>
     last (rq_log (\<lambda>l s. None) sv_log r' ''st'') =
       \<lparr>qm_ID = i, qm_EventID = ev_ID event0, qm_TenantID = ev_TenantID event0, qm_EventType = ev_EventType event0,
        qm_Payload = ev_Payload event0, qm_CreatedAt = 1000\<rparr>"
proof -
  let ?v = "event0\<lparr>ev_CreatedAt := 1000\<rparr>"
  obtain x r' where p: "rq_PublishEvent (demo_queue 0 (\<lambda>e. Delivered 1)) env0 ''st'' (Some ?v) xserver0 = (x, r')" by fastforce
  have "x = Inr (show_nat 2 @ ''-0'')"
    using p by (simp add: demo_eval numeral_2_eq_2 del: show_nat.simps)
  then have p: "rq_PublishEvent (demo_queue 0 (\<lambda>e. Delivered 1)) env0 ''st'' (Some ?v) xserver0 = (Inr (show_nat 2 @ ''-0''), r')"
    using p by simp
  have "time_json 1000 \<noteq> None" by code_simp
  then have "time_json (created_at (e_now env0) ?v) \<noteq> None" "0 \<le> created_at (e_now env0) ?v"
    by (simp_all add: created_at_def)
  from redis_message_roundtrip [OF demo_documented this p, of "\<lambda>l s. None"] show ?thesis
    using p by (auto simp: created_at_def)
qed

text \<open>The relay is at-least-once from PostgreSQL to Redis: whatever statement fails, whatever rows other
  transactions hold locked, and whichever Redis calls are repeated, refused or answered with an error
  after they took effect, a batch marks an outbox row only if it was pending and an entry that is read
  as a message carrying its event was added to the stream.\<close>

theorem redis_relay_marks_after_publish:
  assumes "pg_reachable D r" "streams_documented (rs_client rq) slog spend" "env_ok (be_fetch be)"
    and "ProcessNextBatch \<lparr>rl_repo = postgres_repository D, rl_queue = redis_stream_queue general rq, rl_streamName = sn\<rparr> be n r q
         = (res, r', q')"
  shows "pg_evs r' = pg_evs r \<and>
     (\<exists>new. rq_log general slog q' = (rq_log general slog q)(sn := rq_log general slog q sn @ new) \<and>
        (\<forall>k. pg_obs r' k = pg_obs r k \<or>
           (\<exists>ob t v msg. pg_obs r k = Some ob \<and> ob_Status ob = OutboxStatusPending \<and>
              pg_obs r' k = Some (ob\<lparr>ob_Status := OutboxStatusPublished, ob_ProcessedAt := t\<rparr>) \<and>
              pg_evs r (ob_EventID ob) = Some v \<and> msg \<in> set new \<and> carries msg v)))"
proof -
  have "relay_system (postgres_repository D) pg_evs pg_obs pg_inv (redis_stream_queue general rq)
      (rq_log general slog) (rq_pend general spend) (\<lambda>q. True)"
    by (intro relay_system.intro pg.repository_contract_axioms redis_queue_contract [OF assms(2)])
  from relay_system.batch_published [OF this pg_reachable_inv [OF assms(1)] TrueI assms(3,4)]
  show ?thesis by blast
qed

theorem redis_relay_marks_after_publish_witness:
  "\<exists>res r' q'. ProcessNextBatch \<lparr>rl_repo = postgres_repository driver0,
       rl_queue = redis_stream_queue (\<lambda>l s. None) (demo_queue 0 (\<lambda>e. Delivered 1)), rl_streamName = ''st''\<rparr>
       mark_fails_env 10 db0 xserver0 = (res, r', q') \<and> pg_evs r' = pg_evs db0 \<and>
     (\<forall>k. pg_obs r' k = pg_obs db0 k \<or> rq_log (\<lambda>l s. None) sv_log q' ''st'' \<noteq> [])"
proof -
  let ?general = "\<lambda>l s. None :: gotime option" and ?rq = "demo_queue 0 (\<lambda>e. Delivered 1)"
  obtain res r' q' where p: "ProcessNextBatch \<lparr>rl_repo = postgres_repository driver0,
       rl_queue = redis_stream_queue ?general ?rq, rl_streamName = ''st''\<rparr> mark_fails_env 10 db0 xserver0 = (res, r', q')"
    by (metis prod.exhaust)
  have "env_ok (be_fetch mark_fails_env)" by (simp add: mark_fails_env_def env0_def)
  from redis_relay_marks_after_publish [OF db0_reachable demo_documented this p] obtain new where
    n: "pg_evs r' = pg_evs db0" "rq_log ?general sv_log q' ''st'' = rq_log ?general sv_log xserver0 ''st'' @ new"
      "\<forall>k. pg_obs r' k = pg_obs db0 k \<or> (\<exists>msg. msg \<in> set new)" by (metis fun_upd_same)
  have "\<forall>k. pg_obs r' k = pg_obs db0 k \<or> rq_log ?general sv_log q' ''st'' \<noteq> []"
    using n(2,3) by (auto simp: in_set_conv_decomp)
  then show ?thesis using n(1) p by blast
qed

text \<open>Trimming loses events: with a limit, as the queue has by default, a server may drop entries that no consumer
  has read, although the relay has marked their outbox rows as published.\<close>

theorem trimmed_entry_lost:
  "fst (rq_ReadEvents (\<lambda>l s. None) (demo_queue 1 (\<lambda>e. Delivered 0)) env0 ''st'' ''gr'' ''c1'' 10 0
      (snd (rq_PublishEvent (demo_queue 1 (\<lambda>e. Delivered 0)) env0 ''st'' (Some (event0\<lparr>ev_ID := ''ev2''\<rparr>))
        (snd (rq_PublishEvent (demo_queue 1 (\<lambda>e. Delivered 0)) env0 ''st'' (Some event0)
          (snd (rq_CreateConsumerGroup (demo_queue 1 (\<lambda>e. Delivered 0)) env0 ''st'' ''gr'' ''0'' xserver0))))))) =
   Inr [parseRedisMessage (\<lambda>l s. None) \<lparr>xm_ID = show_nat 2 @ ''-0'',
     xm_Values = map_option XString \<circ> map_of (message_values (e_now env0) (event0\<lparr>ev_ID := ''ev2''\<rparr>))\<rparr>]"
  by (simp add: demo_eval numeral_2_eq_2 del: show_nat.simps)

end
