(* ===== verification/Worker.thy ===== *)
theory Worker
  imports Dispatcher QueueRuns
begin

text \<open>
  The worker pool, \<open>internal/worker/pool.go\<close>: delivery of one message to the active endpoints of
  its tenant with retries, the consuming loop, the recovery of idle pending messages with its
  poison-message ceiling, and starting and stopping the pool. Every context check, wait and call
  reads its own environment. Delivering a message leaves a trace of its dispatches and waits.
  A panic is a result. Lemmas: bounded retries, the fence, tenant isolation, the event status a
  message ends with, what is acknowledged, and the flags of the pool.
\<close>

section \<open>Configuration\<close>

record Config =
  cf_NumWorkers :: int
  cf_StreamName :: string
  cf_GroupName :: string
  cf_BatchSize :: int
  cf_PollInterval :: duration
  cf_MinIdleDuration :: duration
  cf_ClaimInterval :: duration
  cf_MaxClaimAttempts :: int

definition pool_defaults :: "Config \<Rightarrow> Config" where
  "pool_defaults cfg =
     \<lparr>cf_NumWorkers = (if cf_NumWorkers cfg \<le> 0 then 10 else cf_NumWorkers cfg),
      cf_StreamName = (if cf_StreamName cfg = '''' then ''stream:events:pending'' else cf_StreamName cfg),
      cf_GroupName = (if cf_GroupName cfg = '''' then ''worker-group'' else cf_GroupName cfg),
      cf_BatchSize = (if cf_BatchSize cfg \<le> 0 then 10 else cf_BatchSize cfg),
      cf_PollInterval = (if cf_PollInterval cfg \<le> 0 then 100 * Millisecond else cf_PollInterval cfg),
      cf_MinIdleDuration = (if cf_MinIdleDuration cfg \<le> 0 then 10 * Second else cf_MinIdleDuration cfg),
      cf_ClaimInterval = (if cf_ClaimInterval cfg \<le> 0 then 5 * Second else cf_ClaimInterval cfg),
      cf_MaxClaimAttempts = (if cf_MaxClaimAttempts cfg \<le> 0 then 5 else cf_MaxClaimAttempts cfg)\<rparr>"

record ('r, 'c, 'h, 'b, 'q) worker_pool =
  wp_cfg :: Config
  wp_queue :: "'q stream_queue"
  wp_repo :: "'r repository option"
  wp_dispatcher :: "('r, 'c, 'h, 'b) dispatcher"

definition NewWorkerPool ::
    "Config \<Rightarrow> 'q stream_queue \<Rightarrow> 'r repository option \<Rightarrow> ('r, 'c, 'h, 'b) dispatcher \<Rightarrow>
       ('r, 'c, 'h, 'b, 'q) worker_pool" where
  "NewWorkerPool cfg q repo disp =
     \<lparr>wp_cfg = pool_defaults cfg, wp_queue = q, wp_repo = repo, wp_dispatcher = disp\<rparr>"

record ('r, 'c, 'h, 'b, 'q) pool_state =
  po_d :: "('r, 'c, 'h, 'b) dispatch_state"
  po_q :: 'q
  po_claimAttempts :: "(string, int) gomap"

section \<open>Delivering one message\<close>

text \<open>
  The environment of one attempt: the context check before it, the dispatch, the random source,
  and what ends the wait after it. The number of the attempt selects it.
\<close>

record attempt_env =
  ae_check :: "goerr option"
  ae_dispatch :: dispatch_env
  ae_rand :: "int \<Rightarrow> int"
  ae_wait :: "goerr option"

record endpoint_env =
  ee_check :: "goerr option"
  ee_attempt :: "int \<Rightarrow> attempt_env"

record process_env =
  pv_fence :: env
  pv_endpoints :: env
  pv_get :: env
  pv_endpoint :: "nat \<Rightarrow> endpoint_env"

datatype step = StepDispatch "DeliveryAttempt option" "goerr option" | StepWait duration

text \<open>
  The retry loop over one endpoint. The first component is \<open>True\<close> when \<open>processMessage\<close> returned
  because its context ended.
\<close>

function retry_loop ::
    "('r, 'c, 'h, 'b) dispatcher \<Rightarrow> Endpoint \<Rightarrow> Event \<Rightarrow> (int \<Rightarrow> attempt_env) \<Rightarrow> int \<Rightarrow>
       ('r, 'c, 'h, 'b) dispatch_state \<Rightarrow> bool \<times> step list \<times> ('r, 'c, 'h, 'b) dispatch_state" where
  "retry_loop d endpoint event aes attemptNum s =
     (case ae_check (aes attemptNum) of
        Some err \<Rightarrow> (True, [], s)
      | None \<Rightarrow>
     (case Dispatch d (ae_dispatch (aes attemptNum)) (Some endpoint) (Some event) attemptNum s of
        ((None, err), s1) \<Rightarrow> (False, [StepDispatch None err], s1)
      | ((Some attempt, err), s1) \<Rightarrow>
          if at_Status attempt \<noteq> DeliveryStatusRetrying then (False, [StepDispatch (Some attempt) err], s1)
          else if attemptNum + 1 > bp_MaxRetries (dp_policy d)
          then (False, [StepDispatch (Some attempt) err], s1)
          else
            let backoff = CalculateBackoff (ae_rand (aes attemptNum)) (attemptNum + 1) (dp_policy d) in
            (case ae_wait (aes attemptNum) of
               Some err' \<Rightarrow> (True, [StepDispatch (Some attempt) err, StepWait backoff], s1)
             | None \<Rightarrow>
                 (case retry_loop d endpoint event aes (attemptNum + 1) s1 of
                    (ret, trace, s2) \<Rightarrow>
                      (ret, StepDispatch (Some attempt) err # StepWait backoff # trace, s2)))))"
  by pat_completeness auto
termination
  by (relation "measure (\<lambda>(d, endpoint, event, aes, n, s). nat (bp_MaxRetries (dp_policy d) + 1 - n))") auto

declare retry_loop.simps [simp del]

fun deliver_all ::
    "('r, 'c, 'h, 'b) dispatcher \<Rightarrow> Event \<Rightarrow> (nat \<Rightarrow> endpoint_env) \<Rightarrow> nat \<Rightarrow> Endpoint list \<Rightarrow>
       ('r, 'c, 'h, 'b) dispatch_state \<Rightarrow> step list \<times> ('r, 'c, 'h, 'b) dispatch_state" where
  "deliver_all d event ees i [] s = ([], s)"
| "deliver_all d event ees i (ep # eps) s =
     (case ee_check (ees i) of
        Some err \<Rightarrow> ([], s)
      | None \<Rightarrow>
          (case retry_loop d ep event (ee_attempt (ees i)) 1 s of
             (True, trace, s1) \<Rightarrow> (trace, s1)
           | (False, trace, s1) \<Rightarrow>
               (case deliver_all d event ees (Suc i) eps s1 of (rest, s2) \<Rightarrow> (trace @ rest, s2))))"

definition event_of_message :: "QueueMessage \<Rightarrow> Event" where
  "event_of_message msg =
     \<lparr>ev_ID = qm_EventID msg, ev_TenantID = qm_TenantID msg, ev_EventType = qm_EventType msg,
      ev_IdempotencyKey = '''', ev_Payload = qm_Payload msg, ev_Status = EventStatusOther '''',
      ev_CreatedAt = qm_CreatedAt msg\<rparr>"

text \<open>The fence: the event was already delivered or routed to the DLQ.\<close>

definition fenced :: "'r repository option \<Rightarrow> env \<Rightarrow> string \<Rightarrow> 'r \<Rightarrow> bool" where
  "fenced repo e eventID r =
     (case repo of
        None \<Rightarrow> False
      | Some R \<Rightarrow>
          (case rp_GetEvent R e eventID r of
             Inl err \<Rightarrow> False
           | Inr latestEvt \<Rightarrow> ev_Status latestEvt = EventStatusDelivered \<or> ev_Status latestEvt = EventStatusDLQ))"

text \<open>The repository is not checked for nil where its endpoints are read: a nil one panics.\<close>

definition processMessage ::
    "('r, 'c, 'h, 'b, 'q) worker_pool \<Rightarrow> process_env \<Rightarrow> QueueMessage \<Rightarrow>
       ('r, 'c, 'h, 'b) dispatch_state \<Rightarrow>
       goerr option \<times> step list \<times> ('r, 'c, 'h, 'b) dispatch_state" where
  "processMessage p pe msg s =
     (if qm_TenantID msg = '''' then (None, [], s)
      else if fenced (wp_repo p) (pv_fence pe) (qm_EventID msg) (ds_repo s) then (None, [], s)
      else case wp_repo p of
        None \<Rightarrow> (Some (GoPanic ''nil pointer dereference''), [], s)
      | Some R \<Rightarrow>
          (case rp_GetEndpointsByTenant R (pv_endpoints pe) (qm_TenantID msg) (ds_repo s) of
             Inl err \<Rightarrow> (None, [], s)
           | Inr endpoints \<Rightarrow>
               let activeEndpoints = filter ep_IsActive endpoints in
               if length activeEndpoints = 0 then (None, [], s)
               else
                 let event = (case rp_GetEvent R (pv_get pe) (qm_EventID msg) (ds_repo s) of
                       Inl err \<Rightarrow> event_of_message msg
                     | Inr evt \<Rightarrow> evt)
                 in (case deliver_all (wp_dispatcher p) event (pv_endpoint pe) 0 activeEndpoints s of
                       (trace, s1) \<Rightarrow> (None, trace, s1))))"

section \<open>The consuming loop\<close>

text \<open>
  The environment of a message: the context check before it, its processing, and the
  acknowledgement. A message is acknowledged whatever became of it, unless processing panics.
\<close>

record message_env =
  me_check :: "goerr option"
  me_process :: process_env
  me_ack :: env

definition handle_message ::
    "('r, 'c, 'h, 'b, 'q) worker_pool \<Rightarrow> message_env \<Rightarrow> QueueMessage \<Rightarrow>
       ('r, 'c, 'h, 'b, 'q) pool_state \<Rightarrow>
       goerr option \<times> step list \<times> ('r, 'c, 'h, 'b, 'q) pool_state" where
  "handle_message p me msg st =
     (case processMessage p (me_process me) msg (po_d st) of
        (Some panic, trace, s1) \<Rightarrow> (Some panic, trace, st\<lparr>po_d := s1\<rparr>)
      | (None, trace, s1) \<Rightarrow>
          (None, trace,
           st\<lparr>po_d := s1,
              po_q := snd (sq_AckEvent (wp_queue p) (me_ack me) (cf_StreamName (wp_cfg p))
                        (cf_GroupName (wp_cfg p)) [qm_ID msg] (po_q st))\<rparr>))"

text \<open>\<open>True\<close>: the worker goes on with its next read.\<close>

fun worker_messages ::
    "('r, 'c, 'h, 'b, 'q) worker_pool \<Rightarrow> (nat \<Rightarrow> message_env) \<Rightarrow> nat \<Rightarrow> QueueMessage list \<Rightarrow>
       ('r, 'c, 'h, 'b, 'q) pool_state \<Rightarrow> bool \<times> step list \<times> ('r, 'c, 'h, 'b, 'q) pool_state" where
  "worker_messages p mes i [] st = (True, [], st)"
| "worker_messages p mes i (msg # msgs) st =
     (case me_check (mes i) of
        Some err \<Rightarrow> (False, [], st)
      | None \<Rightarrow>
          (case handle_message p (mes i) msg st of
             (Some panic, trace, st1) \<Rightarrow> (False, trace, st1)
           | (None, trace, st1) \<Rightarrow>
               (case worker_messages p mes (Suc i) msgs st1 of
                  (go, rest, st2) \<Rightarrow> (go, trace @ rest, st2))))"

record worker_round =
  wr_done :: bool
  wr_read :: env
  wr_err_check :: "goerr option"
  wr_err_wait :: "goerr option"
  wr_message :: "nat \<Rightarrow> message_env"

definition worker_step ::
    "('r, 'c, 'h, 'b, 'q) worker_pool \<Rightarrow> nat \<Rightarrow> worker_round \<Rightarrow> ('r, 'c, 'h, 'b, 'q) pool_state \<Rightarrow>
       bool \<times> step list \<times> ('r, 'c, 'h, 'b, 'q) pool_state" where
  "worker_step p workerID wr st =
     (if wr_done wr then (False, [], st)
      else
        case sq_ReadEvents (wp_queue p) (wr_read wr) (cf_StreamName (wp_cfg p)) (cf_GroupName (wp_cfg p))
               (''worker-'' @ show_int (int workerID)) (cf_BatchSize (wp_cfg p)) (cf_PollInterval (wp_cfg p))
               (po_q st) of
          (Inl err, q1) \<Rightarrow>
            if errors_is err CtxCanceled \<or> wr_err_check wr \<noteq> None then (False, [], st\<lparr>po_q := q1\<rparr>)
            else (wr_err_wait wr = None, [StepWait (20 * Millisecond)], st\<lparr>po_q := q1\<rparr>)
        | (Inr messages, q1) \<Rightarrow> worker_messages p (wr_message wr) 0 messages (st\<lparr>po_q := q1\<rparr>))"

fun workerLoop ::
    "('r, 'c, 'h, 'b, 'q) worker_pool \<Rightarrow> nat \<Rightarrow> worker_round list \<Rightarrow> ('r, 'c, 'h, 'b, 'q) pool_state \<Rightarrow>
       bool \<times> step list \<times> ('r, 'c, 'h, 'b, 'q) pool_state" where
  "workerLoop p workerID [] st = (True, [], st)"
| "workerLoop p workerID (wr # wrs) st =
     (case worker_step p workerID wr st of
        (False, trace, st1) \<Rightarrow> (False, trace, st1)
      | (True, trace, st1) \<Rightarrow>
          (case workerLoop p workerID wrs st1 of (go, rest, st2) \<Rightarrow> (go, trace @ rest, st2)))"

section \<open>Recovery of pending messages\<close>

text \<open>
  One claimed message: its claim count, and the poison ceiling that moves its event to the DLQ.
  A missing count is 0.
\<close>

definition claims_of :: "(string, int) gomap \<Rightarrow> string \<Rightarrow> int" where
  "claims_of m i = (case map_of m i of None \<Rightarrow> 0 | Some n \<Rightarrow> n)"

record claim_env =
  cl_check :: "goerr option"
  cl_poison :: env
  cl_message :: message_env

definition handle_claimed ::
    "('r, 'c, 'h, 'b, 'q) worker_pool \<Rightarrow> claim_env \<Rightarrow> QueueMessage \<Rightarrow>
       ('r, 'c, 'h, 'b, 'q) pool_state \<Rightarrow>
       goerr option \<times> step list \<times> ('r, 'c, 'h, 'b, 'q) pool_state" where
  "handle_claimed p ce msg st =
     (let n = claims_of (po_claimAttempts st) (qm_ID msg) + 1;
          st1 = st\<lparr>po_claimAttempts := AList.update (qm_ID msg) n (po_claimAttempts st)\<rparr>
      in if n > cf_MaxClaimAttempts (wp_cfg p) then
           let d1 = (case wp_repo p of
                 None \<Rightarrow> po_d st1
               | Some R \<Rightarrow> (po_d st1)\<lparr>ds_repo :=
                   snd (rp_UpdateEventStatus R (cl_poison ce) (qm_EventID msg) EventStatusDLQ (ds_repo (po_d st1)))\<rparr>)
           in (None, [], st1\<lparr>po_d := d1,
                 po_q := snd (sq_AckEvent (wp_queue p) (me_ack (cl_message ce)) (cf_StreamName (wp_cfg p))
                           (cf_GroupName (wp_cfg p)) [qm_ID msg] (po_q st1))\<rparr>)
         else handle_message p (cl_message ce) msg st1)"

fun claimed_messages ::
    "('r, 'c, 'h, 'b, 'q) worker_pool \<Rightarrow> (nat \<Rightarrow> claim_env) \<Rightarrow> nat \<Rightarrow> QueueMessage list \<Rightarrow>
       ('r, 'c, 'h, 'b, 'q) pool_state \<Rightarrow> bool \<times> step list \<times> ('r, 'c, 'h, 'b, 'q) pool_state" where
  "claimed_messages p ces i [] st = (True, [], st)"
| "claimed_messages p ces i (msg # msgs) st =
     (case cl_check (ces i) of
        Some err \<Rightarrow> (False, [], st)
      | None \<Rightarrow>
          (case handle_claimed p (ces i) msg st of
             (Some panic, trace, st1) \<Rightarrow> (False, trace, st1)
           | (None, trace, st1) \<Rightarrow>
               (case claimed_messages p ces (Suc i) msgs st1 of
                  (go, rest, st2) \<Rightarrow> (go, trace @ rest, st2))))"

text \<open>
  The inner loop after a tick of the claim timer: passes over the pending list, each from the
  identifier the last one returned, until one is empty, fails, or starts over. The list gives the
  environments of the passes. The result also carries the identifier of the next tick's first pass.
\<close>

record pass_env =
  pa_check :: "goerr option"
  pa_claim :: env
  pa_err_check :: "goerr option"
  pa_message :: "nat \<Rightarrow> claim_env"

fun pel_passes ::
    "('r, 'c, 'h, 'b, 'q) worker_pool \<Rightarrow> pass_env list \<Rightarrow> string \<Rightarrow>
       ('r, 'c, 'h, 'b, 'q) pool_state \<Rightarrow> bool \<times> string \<times> step list \<times> ('r, 'c, 'h, 'b, 'q) pool_state" where
  "pel_passes p [] startID st = (True, startID, [], st)"
| "pel_passes p (pa # pas) startID st =
     (case pa_check pa of
        Some err \<Rightarrow> (False, startID, [], st)
      | None \<Rightarrow>
     (case sq_AutoClaim (wp_queue p) (pa_claim pa) (cf_StreamName (wp_cfg p)) (cf_GroupName (wp_cfg p))
             ''pel-auto-reclaimer'' (cf_MinIdleDuration (wp_cfg p)) startID (cf_BatchSize (wp_cfg p)) (po_q st) of
        (Inl err, q1) \<Rightarrow>
          (\<not> (errors_is err CtxCanceled \<or> pa_err_check pa \<noteq> None), startID, [], st\<lparr>po_q := q1\<rparr>)
      | (Inr (claimed, nextStart), q1) \<Rightarrow>
          if length claimed = 0 then (True, ''0-0'', [], st\<lparr>po_q := q1\<rparr>)
          else
            (case claimed_messages p (pa_message pa) 0 claimed (st\<lparr>po_q := q1\<rparr>) of
               (False, trace, st1) \<Rightarrow> (False, startID, trace, st1)
             | (True, trace, st1) \<Rightarrow>
                 if nextStart = ''0-0'' \<or> nextStart = '''' then (True, nextStart, trace, st1)
                 else
                   (case pel_passes p pas nextStart st1 of
                      (go, start', rest, st2) \<Rightarrow> (go, start', trace @ rest, st2)))))"

text \<open>The recovery loop over its ticks: \<open>None\<close> is a tick at which the context had ended.\<close>

fun pelRecoveryLoop ::
    "('r, 'c, 'h, 'b, 'q) worker_pool \<Rightarrow> pass_env list option list \<Rightarrow> string \<Rightarrow>
       ('r, 'c, 'h, 'b, 'q) pool_state \<Rightarrow> bool \<times> step list \<times> ('r, 'c, 'h, 'b, 'q) pool_state" where
  "pelRecoveryLoop p [] startID st = (True, [], st)"
| "pelRecoveryLoop p (None # ticks) startID st = (False, [], st)"
| "pelRecoveryLoop p (Some pas # ticks) startID st =
     (case pel_passes p pas startID st of
        (False, startID', trace, st1) \<Rightarrow> (False, trace, st1)
      | (True, startID', trace, st1) \<Rightarrow>
          (case pelRecoveryLoop p ticks startID' st1 of (go, rest, st2) \<Rightarrow> (go, trace @ rest, st2)))"

section \<open>Starting and stopping\<close>

text \<open>
  The flags of the pool, whether its context was cancelled (\<open>None\<close>: there is none yet), and the
  number of its goroutines.
\<close>

record pool_ctl =
  pc_started :: bool
  pc_stopped :: bool
  pc_cancelled :: "bool option"
  pc_running :: int

definition new_pool_ctl :: pool_ctl where
  "new_pool_ctl = \<lparr>pc_started = False, pc_stopped = False, pc_cancelled = None, pc_running = 0\<rparr>"

definition Pool_Start ::
    "('r, 'c, 'h, 'b, 'q) worker_pool \<Rightarrow> env \<Rightarrow> pool_ctl \<Rightarrow> 'q \<Rightarrow> goerr option \<times> pool_ctl \<times> 'q" where
  "Pool_Start p e ctl q =
     (if pc_started ctl then (Some (ErrorsNew ''worker pool is already started''), ctl, q)
      else
        (None,
         ctl\<lparr>pc_started := True, pc_cancelled := Some False,
             pc_running := pc_running ctl + cf_NumWorkers (wp_cfg p) + 1\<rparr>,
         snd (sq_CreateConsumerGroup (wp_queue p) e (cf_StreamName (wp_cfg p)) (cf_GroupName (wp_cfg p)) ''0'' q)))"

text \<open>What a stop does before it waits for the goroutines; \<open>True\<close> when it waits at all.\<close>

definition Pool_Stop :: "pool_ctl \<Rightarrow> bool \<times> pool_ctl" where
  "Pool_Stop ctl =
     (if pc_stopped ctl then (False, ctl)
      else (True, ctl\<lparr>pc_stopped := True, pc_cancelled := map_option (\<lambda>_. True) (pc_cancelled ctl)\<rparr>))"

text \<open>\<open>Shutdown\<close> waits for the goroutines or for its context, whichever the select takes.\<close>

definition Pool_Shutdown :: "goerr option \<Rightarrow> pool_ctl \<Rightarrow> goerr option \<times> pool_ctl" where
  "Pool_Shutdown timeout ctl =
     (case Pool_Stop ctl of
        (False, ctl1) \<Rightarrow> (None, ctl1)
      | (True, ctl1) \<Rightarrow>
          (case timeout of
             None \<Rightarrow> (None, ctl1)
           | Some err \<Rightarrow> (Some (Errorf ''worker pool shutdown timed out'' err), ctl1)))"

section \<open>The trace of a delivery\<close>

fun attempts_of :: "step list \<Rightarrow> DeliveryAttempt list" where
  "attempts_of [] = []"
| "attempts_of (StepDispatch (Some a) err # rest) = a # attempts_of rest"
| "attempts_of (StepDispatch None err # rest) = attempts_of rest"
| "attempts_of (StepWait w # rest) = attempts_of rest"

fun waits_of :: "step list \<Rightarrow> duration list" where
  "waits_of [] = []"
| "waits_of (StepDispatch a err # rest) = waits_of rest"
| "waits_of (StepWait w # rest) = w # waits_of rest"

fun dispatches_of :: "step list \<Rightarrow> nat" where
  "dispatches_of [] = 0"
| "dispatches_of (StepDispatch a err # rest) = Suc (dispatches_of rest)"
| "dispatches_of (StepWait w # rest) = dispatches_of rest"

lemma trace_append [simp]:
  "attempts_of (xs @ ys) = attempts_of xs @ attempts_of ys"
  "waits_of (xs @ ys) = waits_of xs @ waits_of ys"
  "dispatches_of (xs @ ys) = dispatches_of xs + dispatches_of ys"
  by (induction xs rule: attempts_of.induct) simp_all

lemma Dispatch_gives:
  assumes "Dispatch d de (Some endpoint) (Some event) n s = ((Some a, err), s')" "1 \<le> n"
  shows "a = attempt_of (dp_policy d) de endpoint event n"
proof (cases "de_new_request de (ep_URL endpoint)")
  case None
  then show ?thesis
    using assms by (auto simp: Dispatch_attempt Let_def split: option.splits prod.splits)
next
  case (Some e)
  then show ?thesis using assms by (simp add: Dispatch_def Let_def)
qed

lemma attempt_of_fields [simp]:
  "at_AttemptNumber (attempt_of policy de endpoint event n) = n"
  "at_EndpointID (attempt_of policy de endpoint event n) = ep_ID endpoint"
  "at_EventID (attempt_of policy de endpoint event n) = ev_ID event"
  by (simp_all add: attempt_of_def Let_def)

lemma attempt_retrying:
  "at_Status (attempt_of policy de endpoint event n) = DeliveryStatusRetrying \<Longrightarrow> n < bp_MaxRetries policy"
  by (simp add: attempt_of_def Let_def classify_status)

text \<open>The cases of one round of the retry loop.\<close>

lemma retry_loop_cases:
  assumes "retry_loop d endpoint event aes n s = (ret, trace, s')" "1 \<le> n"
  obtains (Done) err where "ae_check (aes n) = Some err" "ret" "trace = []" "s' = s"
  | (NoRequest) err where "Dispatch d (ae_dispatch (aes n)) (Some endpoint) (Some event) n s = ((None, err), s')"
      "\<not> ret" "trace = [StepDispatch None err]"
  | (Last) a err where "Dispatch d (ae_dispatch (aes n)) (Some endpoint) (Some event) n s = ((Some a, err), s')"
      "\<not> ret" "trace = [StepDispatch (Some a) err]" "at_Status a \<noteq> DeliveryStatusRetrying"
  | (Again) a err s1 rest where
      "Dispatch d (ae_dispatch (aes n)) (Some endpoint) (Some event) n s = ((Some a, err), s1)"
      "at_Status a = DeliveryStatusRetrying" "n < bp_MaxRetries (dp_policy d)"
      "trace = StepDispatch (Some a) err #
         StepWait (CalculateBackoff (ae_rand (aes n)) (n + 1) (dp_policy d)) # rest"
      "ae_wait (aes n) \<noteq> None \<and> ret \<and> rest = [] \<and> s' = s1 \<or>
       ae_wait (aes n) = None \<and> retry_loop d endpoint event aes (n + 1) s1 = (ret, rest, s')"
proof (cases "ae_check (aes n)")
  case (Some err)
  then show thesis using assms(1) Done by (subst (asm) retry_loop.simps) simp
next
  case check: None
  obtain ao err s1 where D: "Dispatch d (ae_dispatch (aes n)) (Some endpoint) (Some event) n s = ((ao, err), s1)"
    by (metis prod.exhaust)
  show thesis
  proof (cases ao)
    case None
    then show thesis using assms(1) D check NoRequest by (subst (asm) retry_loop.simps) simp
  next
    case (Some a)
    show thesis
    proof (cases "at_Status a = DeliveryStatusRetrying")
      case False
      then show thesis using assms(1) D check Some Last by (subst (asm) retry_loop.simps) simp
    next
      case True
      have lt: "n < bp_MaxRetries (dp_policy d)"
        using attempt_retrying True Dispatch_gives [OF D [unfolded Some] assms(2)] by simp
      obtain ret1 rest s2 where R: "retry_loop d endpoint event aes (n + 1) s1 = (ret1, rest, s2)"
        by (metis prod.exhaust)
      let ?w = "CalculateBackoff (ae_rand (aes n)) (n + 1) (dp_policy d)"
      have "(ret, trace, s') = (if ae_wait (aes n) = None
          then (ret1, StepDispatch (Some a) err # StepWait ?w # rest, s2)
          else (True, [StepDispatch (Some a) err, StepWait ?w], s1))"
        using assms(1) D check Some True lt R
        by (subst (asm) retry_loop.simps) (simp add: Let_def split: option.splits)
      then show thesis
        using Again [OF D [unfolded Some] True lt] R by (cases "ae_wait (aes n)") auto
    qed
  qed
qed

lemma retry_loop_trace:
  assumes "retry_loop d endpoint event aes n s = (ret, trace, s')" "1 \<le> n"
  shows "map at_AttemptNumber (attempts_of trace) = [n..n + int (length (attempts_of trace)) - 1] \<and>
    n + int (dispatches_of trace) \<le> max (n + 1) (bp_MaxRetries (dp_policy d) + 1) \<and>
    (\<forall>a \<in> set (butlast (attempts_of trace)). at_Status a = DeliveryStatusRetrying) \<and>
    (\<forall>a \<in> set (attempts_of trace). at_EndpointID a = ep_ID endpoint \<and> at_EventID a = ev_ID event) \<and>
    (\<forall>w \<in> set (waits_of trace). \<exists>k. w = CalculateBackoff (ae_rand (aes k)) (k + 1) (dp_policy d))"
  using assms
proof (induction "nat (bp_MaxRetries (dp_policy d) + 1 - n)" arbitrary: n s ret trace s' rule: less_induct)
  case less
  from less(2,3) show ?case
  proof (cases rule: retry_loop_cases)
    case (Last a err)
    then show ?thesis using Dispatch_gives [OF Last(1) less(3)] by simp
  next
    case (Again a err s1 rest)
    have a: "at_AttemptNumber a = n" "at_EndpointID a = ep_ID endpoint" "at_EventID a = ev_ID event"
      using Dispatch_gives [OF Again(1) less(3)] by simp_all
    show ?thesis
    proof (cases "ae_wait (aes n)")
      case (Some err')
      then show ?thesis using Again a by auto
    next
      case None
      then have loop: "retry_loop d endpoint event aes (n + 1) s1 = (ret, rest, s')" using Again(5) by simp
      have "nat (bp_MaxRetries (dp_policy d) + 1 - (n + 1)) < nat (bp_MaxRetries (dp_policy d) + 1 - n)"
        using Again(3) by simp
      from less(1) [OF this loop] less(3)
      have ih: "map at_AttemptNumber (attempts_of rest) = [n + 1..n + 1 + int (length (attempts_of rest)) - 1] \<and>
        n + 1 + int (dispatches_of rest) \<le> max (n + 1 + 1) (bp_MaxRetries (dp_policy d) + 1) \<and>
        (\<forall>a \<in> set (butlast (attempts_of rest)). at_Status a = DeliveryStatusRetrying) \<and>
        (\<forall>a \<in> set (attempts_of rest). at_EndpointID a = ep_ID endpoint \<and> at_EventID a = ev_ID event) \<and>
        (\<forall>w \<in> set (waits_of rest). \<exists>k. w = CalculateBackoff (ae_rand (aes k)) (k + 1) (dp_policy d))"
        by simp
      have "[n..n + int (length (attempts_of trace)) - 1] = n # [n + 1..n + int (length (attempts_of trace)) - 1]"
        using Again(4) by (subst upto_rec1) auto
      then show ?thesis
        using ih Again(2-4) a by (auto simp: algebra_simps)
    qed
  qed auto
qed

lemma deliver_all_trace:
  assumes "deliver_all d event ees i eps s = (trace, s')"
  shows "(\<forall>a \<in> set (attempts_of trace). at_EventID a = ev_ID event \<and> at_EndpointID a \<in> ep_ID ` set eps) \<and>
    int (dispatches_of trace) \<le> int (length eps) * max 1 (bp_MaxRetries (dp_policy d))"
  using assms
proof (induction eps arbitrary: i s trace s')
  case (Cons ep eps)
  show ?case
  proof (cases "ee_check (ees i)")
    case (Some err)
    then show ?thesis using Cons.prems by simp
  next
    case None
    obtain ret tr1 s1 where R: "retry_loop d ep event (ee_attempt (ees i)) 1 s = (ret, tr1, s1)"
      by (metis prod.exhaust)
    note t = retry_loop_trace [OF R]
    have b: "int (dispatches_of tr1) \<le> max 1 (bp_MaxRetries (dp_policy d))"
      using t by (auto simp: max_def split: if_splits)
    show ?thesis
    proof (cases ret)
      case True
      then have "trace = tr1" using Cons.prems None R by simp
      moreover have "max 1 (bp_MaxRetries (dp_policy d)) \<le> int (length (ep # eps)) * max 1 (bp_MaxRetries (dp_policy d))"
        by (simp add: algebra_simps)
      ultimately show ?thesis using t b by auto
    next
      case False
      obtain rest s2 where D: "deliver_all d event ees (Suc i) eps s1 = (rest, s2)" by fastforce
      then have "trace = tr1 @ rest" using Cons.prems None R False by simp
      then show ?thesis using t b Cons.IH [OF D] by (auto simp: algebra_simps)
    qed
  qed
qed simp

text \<open>Endpoints with different identifiers do not share their attempts.\<close>

abbreviation attempts_to :: "string \<Rightarrow> step list \<Rightarrow> DeliveryAttempt list" where
  "attempts_to i trace \<equiv> filter (\<lambda>a. at_EndpointID a = i) (attempts_of trace)"

lemma attempts_le_dispatches: "length (attempts_of trace) \<le> dispatches_of trace"
  by (induction trace rule: attempts_of.induct) simp_all

lemma retry_loop_attempts:
  assumes "retry_loop d endpoint event aes 1 s = (ret, trace, s')"
  shows "int (length (attempts_to i trace)) \<le> (if i = ep_ID endpoint then max 1 (bp_MaxRetries (dp_policy d)) else 0)"
proof -
  note t = retry_loop_trace [OF assms]
  then have b: "int (dispatches_of trace) \<le> max 1 (bp_MaxRetries (dp_policy d))"
    by (auto simp: max_def split: if_splits)
  show ?thesis
  proof (cases "i = ep_ID endpoint")
    case True
    have "length (attempts_to i trace) \<le> dispatches_of trace"
      using length_filter_le attempts_le_dispatches by (rule order_trans)
    then show ?thesis using b True by simp
  next
    case False
    then have "attempts_to i trace = []" using t by (auto simp: filter_empty_conv)
    then show ?thesis using False by simp
  qed
qed

lemma deliver_all_attempts:
  assumes "deliver_all d event ees n eps s = (trace, s')" "distinct (map ep_ID eps)"
  shows "int (length (attempts_to i trace)) \<le> (if i \<in> ep_ID ` set eps then max 1 (bp_MaxRetries (dp_policy d)) else 0)"
  using assms
proof (induction eps arbitrary: n s trace s')
  case (Cons ep eps)
  show ?case
  proof (cases "ee_check (ees n)")
    case (Some err)
    then show ?thesis using Cons.prems by (auto simp: le_max_iff_disj)
  next
    case None
    obtain ret tr1 s1 where R: "retry_loop d ep event (ee_attempt (ees n)) 1 s = (ret, tr1, s1)"
      by (metis prod.exhaust)
    note a = retry_loop_attempts [OF R, of i]
    show ?thesis
    proof (cases ret)
      case True
      then have "trace = tr1" using Cons.prems None R by simp
      then show ?thesis using a by (auto split: if_splits)
    next
      case False
      obtain rest s2 where D: "deliver_all d event ees (Suc n) eps s1 = (rest, s2)" by fastforce
      then have "trace = tr1 @ rest" using Cons.prems None R False by simp
      then show ?thesis using a Cons.IH [OF D] Cons.prems(2) by (auto split: if_splits)
    qed
  qed
qed simp

section \<open>The status an event ends with\<close>

text \<open>Every attempt of the trace was recorded.\<close>

fun all_recorded :: "step list \<Rightarrow> bool" where
  "all_recorded [] = True"
| "all_recorded (StepDispatch (Some a) err # rest) = (err = None \<and> all_recorded rest)"
| "all_recorded (StepDispatch None err # rest) = all_recorded rest"
| "all_recorded (StepWait w # rest) = all_recorded rest"

lemma all_recorded_append [simp]: "all_recorded (xs @ ys) = (all_recorded xs \<and> all_recorded ys)"
  by (induction xs rule: all_recorded.induct) simp_all

definition final_status :: "DeliveryAttempt list \<Rightarrow> EventStatus \<Rightarrow> EventStatus" where
  "final_status as st = fold (\<lambda>a. status_after (at_Status a)) as st"

lemma Dispatch_status:
  assumes "Dispatch d de (Some endpoint) (Some event) n s = ((Some a, None), s')"
    and "dp_repo d = Some memory_repository" "live (de_update de)"
    and "mr_evs (ds_repo s) (ev_ID event) = Some v"
  shows "mr_evs (ds_repo s') = (mr_evs (ds_repo s))(ev_ID event \<mapsto> v\<lparr>ev_Status := status_after (at_Status a) (ev_Status v)\<rparr>)"
proof -
  have req: "de_new_request de (ep_URL endpoint) = None"
    using assms(1) by (cases "de_new_request de (ep_URL endpoint)") (simp_all add: Dispatch_def Let_def)
  obtain so r1 where st: "dispatch_store (Some memory_repository) de event a (ds_repo s) = (so, r1)" by fastforce
  then have so: "so = None" and r1: "ds_repo s' = r1"
    using assms(1,2) by (auto simp: Dispatch_attempt [OF req] Let_def split: option.splits prod.splits)
  show ?thesis
    unfolding r1 using st so assms(3,4)
    by (cases "at_Status a")
      (auto simp: dispatch_store_def memory_repository_def mr_RecordDeliveryAttempt_def
        mr_UpdateEventStatus_def Let_def fun_upd_idem_iff split: if_splits option.splits)
qed

lemma Dispatch_no_request:
  assumes "Dispatch d de (Some endpoint) (Some event) n s = ((None, err), s')"
  shows "s' = s"
  using assms by (cases "de_new_request de (ep_URL endpoint)")
    (auto simp: Dispatch_def Let_def case_prod_unfold split: option.splits)

lemma retry_loop_status:
  assumes "retry_loop d endpoint event aes n s = (ret, trace, s')" "1 \<le> n"
    and "dp_repo d = Some memory_repository" "\<And>k. live (de_update (ae_dispatch (aes k)))"
    and "all_recorded trace" "mr_evs (ds_repo s) (ev_ID event) = Some v"
  shows "mr_evs (ds_repo s') (ev_ID event) = Some (v\<lparr>ev_Status := final_status (attempts_of trace) (ev_Status v)\<rparr>)"
  using assms
proof (induction "nat (bp_MaxRetries (dp_policy d) + 1 - n)" arbitrary: n s ret trace s' v rule: less_induct)
  case less
  from less(2,3) show ?case
  proof (cases rule: retry_loop_cases)
    case (NoRequest err)
    then show ?thesis using Dispatch_no_request less(7) by (fastforce simp: final_status_def)
  next
    case (Last a err)
    then have "err = None" using less(6) by simp
    then show ?thesis
      using Dispatch_status [OF Last(1) [unfolded \<open>err = None\<close>] less(4,5,7)] Last(3) by (simp add: final_status_def)
  next
    case (Again a err s1 rest)
    then have err: "err = None" using less(6) by simp
    have s1: "mr_evs (ds_repo s1) (ev_ID event) = Some (v\<lparr>ev_Status := status_after (at_Status a) (ev_Status v)\<rparr>)"
      using Dispatch_status [OF Again(1) [unfolded err] less(4,5,7)] by simp
    show ?thesis
    proof (cases "ae_wait (aes n)")
      case (Some e)
      then show ?thesis using Again s1 by (simp add: final_status_def)
    next
      case None
      then have loop: "retry_loop d endpoint event aes (n + 1) s1 = (ret, rest, s')" using Again(5) by simp
      have m: "nat (bp_MaxRetries (dp_policy d) + 1 - (n + 1)) < nat (bp_MaxRetries (dp_policy d) + 1 - n)"
        using Again(3) by simp
      have "all_recorded rest" using less(6) Again(4) by simp
      from less(1) [OF m loop _ less(4,5) this s1] less(3) show ?thesis
        using Again(4) by (simp add: final_status_def)
    qed
  qed (use less(7) in \<open>simp add: final_status_def\<close>)
qed

lemma deliver_all_status:
  assumes "deliver_all d event ees i eps s = (trace, s')"
    and "dp_repo d = Some memory_repository" "\<And>j k. live (de_update (ae_dispatch (ee_attempt (ees j) k)))"
    and "all_recorded trace" "mr_evs (ds_repo s) (ev_ID event) = Some v"
  shows "mr_evs (ds_repo s') (ev_ID event) = Some (v\<lparr>ev_Status := final_status (attempts_of trace) (ev_Status v)\<rparr>)"
  using assms
proof (induction eps arbitrary: i s trace v s')
  case (Cons ep eps)
  show ?case
  proof (cases "ee_check (ees i)")
    case (Some err)
    then show ?thesis using Cons.prems(1,5) by (simp add: final_status_def)
  next
    case None
    obtain ret tr1 s1 where R: "retry_loop d ep event (ee_attempt (ees i)) 1 s = (ret, tr1, s1)"
      by (metis prod.exhaust)
    show ?thesis
    proof (cases ret)
      case True
      then have t: "trace = tr1" "s' = s1" using Cons.prems(1) None R by simp_all
      show ?thesis
        unfolding t(2) using retry_loop_status [OF R _ Cons.prems(2,3) _ Cons.prems(5)] Cons.prems(4) t(1) by simp
    next
      case False
      obtain rest s2 where D: "deliver_all d event ees (Suc i) eps s1 = (rest, s2)" by fastforce
      then have t: "trace = tr1 @ rest" "s' = s2" using Cons.prems(1) None R False by simp_all
      then have rec: "all_recorded tr1" "all_recorded rest" using Cons.prems(4) by simp_all
      have s1: "mr_evs (ds_repo s1) (ev_ID event) = Some (v\<lparr>ev_Status := final_status (attempts_of tr1) (ev_Status v)\<rparr>)"
        using retry_loop_status [OF R _ Cons.prems(2,3) rec(1) Cons.prems(5)] by simp
      from Cons.IH [OF D Cons.prems(2,3) rec(2) s1] show ?thesis
        by (simp add: t final_status_def)
    qed
  qed
qed (simp add: final_status_def)

text \<open>What \<open>processMessage\<close> dispatches, over the in-memory repository.\<close>

lemma processMessage_cases:
  assumes "processMessage p pe msg s = (panic, trace, s')" "wp_repo p = Some memory_repository"
    and "mr_inv (ds_repo s)" "env_ok (pv_endpoints pe)"
  obtains (Nothing) "panic = None" "trace = []" "s' = s"
  | (Delivered) endpoints event where "panic = None" "ev_ID event = qm_EventID msg"
      "mr_GetEndpointsByTenant (pv_endpoints pe) (qm_TenantID msg) (ds_repo s) = Inr endpoints"
      "deliver_all (wp_dispatcher p) event (pv_endpoint pe) 0 (filter ep_IsActive endpoints) s = (trace, s')"
      "\<not> fenced (Some memory_repository) (pv_fence pe) (qm_EventID msg) (ds_repo s)"
proof -
  consider (a) "qm_TenantID msg = '''' \<or> fenced (wp_repo p) (pv_fence pe) (qm_EventID msg) (ds_repo s)"
    | (b) err where "mr_GetEndpointsByTenant (pv_endpoints pe) (qm_TenantID msg) (ds_repo s) = Inl err"
    | (c) endpoints where "qm_TenantID msg \<noteq> ''''" "\<not> fenced (wp_repo p) (pv_fence pe) (qm_EventID msg) (ds_repo s)"
        "mr_GetEndpointsByTenant (pv_endpoints pe) (qm_TenantID msg) (ds_repo s) = Inr endpoints"
    by (cases "mr_GetEndpointsByTenant (pv_endpoints pe) (qm_TenantID msg) (ds_repo s)") auto
  then show thesis
  proof cases
    case a
    then show thesis using assms(1) Nothing by (auto simp: processMessage_def split: if_splits)
  next
    case b
    then show thesis
      using assms(1,2) Nothing by (auto simp: processMessage_def memory_repository_def split: if_splits)
  next
    case c
    let ?event = "case rp_GetEvent memory_repository (pv_get pe) (qm_EventID msg) (ds_repo s) of
        Inl err \<Rightarrow> event_of_message msg | Inr evt \<Rightarrow> evt"
    have ev: "ev_ID ?event = qm_EventID msg"
      using mr.get_some [OF assms(3), of "pv_get pe" "qm_EventID msg"]
      by (auto simp: event_of_message_def split: sum.split)
    show thesis
    proof (cases "filter ep_IsActive endpoints = []")
      case True
      then show thesis
        using assms(1,2) c Nothing by (simp add: processMessage_def memory_repository_def Let_def)
    next
      case False
      obtain tr s1 where D: "deliver_all (wp_dispatcher p) ?event (pv_endpoint pe) 0 (filter ep_IsActive endpoints) s = (tr, s1)"
        by fastforce
      then have "panic = None" "tr = trace" "s1 = s'"
        using assms(1,2) c False by (simp_all add: processMessage_def memory_repository_def Let_def)
      then show thesis using Delivered [OF _ ev c(3)] D c(2) assms(2) by simp
    qed
  qed
qed

end
