(* ===== verification/WorkerRuns.thy ===== *)
theory WorkerRuns
  imports Worker
begin

text \<open>
  The properties of the worker pool of \<open>Worker\<close> over the in-memory repository and queue: bounded
  retries, the fence, tenant isolation, the status an event ends with, what is acknowledged, the
  poison ceiling, and starting and stopping the pool, each with an example it applies to.
\<close>

section \<open>The pools of the examples\<close>

definition pool0 :: "(memory_repo, string list \<Rightarrow> nat, nat, DeliveryAttempt list, mem_queue) worker_pool" where
  "pool0 = NewWorkerPool \<lparr>cf_NumWorkers = 0, cf_StreamName = ''st'', cf_GroupName = ''gr'', cf_BatchSize = 0,
     cf_PollInterval = 0, cf_MinIdleDuration = 0, cf_ClaimInterval = 0, cf_MaxClaimAttempts = 0\<rparr>
     memory_stream_queue (Some memory_repository) dispatcher0"

definition attempt_env0 :: "string \<Rightarrow> int \<Rightarrow> attempt_env" where
  "attempt_env0 uuid code = \<lparr>ae_check = None,
     ae_dispatch = (delivery_env (Some \<lparr>rs_StatusCode = code, rs_Body = None\<rparr>, None))\<lparr>de_uuid := uuid\<rparr>,
     ae_rand = (\<lambda>n. n - 1), ae_wait = None\<rparr>"

text \<open>The first endpoint answers 404, the others 200.\<close>

definition process_env0 :: process_env where
  "process_env0 = \<lparr>pv_fence = env0, pv_endpoints = env0, pv_get = env0,
     pv_endpoint = (\<lambda>i. \<lparr>ee_check = None,
       ee_attempt = (\<lambda>n. attempt_env0 (if i = 0 then ''u0'' else ''u1'') (if i = 0 then 404 else 200))\<rparr>)\<rparr>"

definition message0 :: QueueMessage where
  "message0 = queue_message 0 1 event0"

definition repo_two_endpoints :: memory_repo where
  "repo_two_endpoints = snd (mr_CreateEndpoint env0 (endpoint0\<lparr>ep_ID := ''ep2''\<rparr>)
     (snd (mr_CreateEndpoint env0 endpoint0 repo1)))"

lemma repo_two_endpoints_inv: "mr_inv repo_two_endpoints"
  unfolding repo_two_endpoints_def using mr_reachable_inv [OF repo1_reachable] by simp

lemma repo_two_endpoints_eval:
  "repo_two_endpoints = repo1\<lparr>mr_endpoints := [(''ep1'', endpoint0), (''ep2'', endpoint0\<lparr>ep_ID := ''ep2''\<rparr>)]\<rparr>"
  by (simp add: repo_two_endpoints_def mr_CreateEndpoint_def repo1_eval NewMemoryRepository_def env0_def
      endpoint0_def Let_def)

lemma dispatcher0_fields [simp]:
  "dp_repo dispatcher0 = Some memory_repository" "bp_MaxRetries (dp_policy dispatcher0) = 5"
  "bp_RandFunc (dp_policy dispatcher0) = None" "effective_max (dp_policy dispatcher0) = 3600000000000"
  by (simp_all add: dispatcher0_def NewDispatcher_def WithAttemptCallback_def DefaultBackoffPolicy_def
      effective_max_def duration_defs)

lemma pool0_fields [simp]:
  "wp_repo pool0 = Some memory_repository" "wp_dispatcher pool0 = dispatcher0"
  "wp_queue pool0 = memory_stream_queue" "cf_StreamName (wp_cfg pool0) = ''st''"
  "cf_GroupName (wp_cfg pool0) = ''gr''" "cf_MaxClaimAttempts (wp_cfg pool0) = 5"
  by (simp_all add: pool0_def NewWorkerPool_def pool_defaults_def)

text \<open>C16: delivery to one endpoint makes at most \<open>MaxRetries\<close> attempts (at least one), numbered from 1,
  retries only after an attempt that is still RETRYING, and waits between attempts never less than
  zero nor more than the policy's maximum.\<close>

theorem retries_bounded:
  assumes "retry_loop d endpoint event aes 1 s = (ret, trace, s')"
    and "bp_RandFunc (dp_policy d) = None" "effective_max (dp_policy d) < 2 ^ 53" "\<forall>k. int64N_ok (ae_rand (aes k))"
  shows "int (dispatches_of trace) \<le> max 1 (bp_MaxRetries (dp_policy d)) \<and>
    map at_AttemptNumber (attempts_of trace) = [1..int (length (attempts_of trace))] \<and>
    (\<forall>a \<in> set (butlast (attempts_of trace)). at_Status a = DeliveryStatusRetrying) \<and>
    (\<forall>w \<in> set (waits_of trace). 0 \<le> w \<and> w \<le> effective_max (dp_policy d))"
proof -
  note t = retry_loop_trace [OF assms(1)]
  from t have w: "\<forall>w \<in> set (waits_of trace). \<exists>k. w = CalculateBackoff (ae_rand (aes k)) (k + 1) (dp_policy d)"
    by blast
  have "0 \<le> w \<and> w \<le> effective_max (dp_policy d)" if mem: "w \<in> set (waits_of trace)" for w
  proof -
    obtain k where "w = CalculateBackoff (ae_rand (aes k)) (k + 1) (dp_policy d)" using bspec [OF w mem] by blast
    then show ?thesis using CalculateBackoff_bounds [OF _ assms(2,3)] assms(4) by blast
  qed
  moreover from t have "int (dispatches_of trace) \<le> max 1 (bp_MaxRetries (dp_policy d))" by linarith
  moreover from t have "map at_AttemptNumber (attempts_of trace) = [1..int (length (attempts_of trace))]"
    "\<forall>a \<in> set (butlast (attempts_of trace)). at_Status a = DeliveryStatusRetrying"
    by simp_all
  ultimately show ?thesis by blast
qed

theorem retries_bounded_witness:
  "\<exists>ret trace s'. retry_loop dispatcher0 endpoint0 event0 (\<lambda>n. attempt_env0 ''u'' 503) 1 (delivery_state repo1)
       = (ret, trace, s') \<and> int (dispatches_of trace) \<le> 5"
proof -
  obtain ret trace s' where R:
    "retry_loop dispatcher0 endpoint0 event0 (\<lambda>n. attempt_env0 ''u'' 503) 1 (delivery_state repo1) = (ret, trace, s')"
    by (metis prod.exhaust)
  have "int64N_ok (\<lambda>n. n - 1)" by (simp add: int64N_ok_def)
  then show ?thesis using retries_bounded [OF R] R by (simp add: attempt_env0_def)
qed

text \<open>The fence: a message whose event is already DELIVERED or in the DLQ is not dispatched again and
  nothing changes.\<close>

theorem processed_event_fenced:
  assumes "wp_repo p = Some memory_repository" "live (pv_fence pe)"
    and "mr_evs (ds_repo s) (qm_EventID msg) = Some v"
    and "ev_Status v = EventStatusDelivered \<or> ev_Status v = EventStatusDLQ"
  shows "processMessage p pe msg s = (None, [], s)"
  using assms by (auto simp: processMessage_def fenced_def memory_repository_def mr_GetEvent_def)

theorem processed_event_fenced_witness:
  "processMessage pool0 process_env0 message0 (delivery_state repo2) = (None, [], delivery_state repo2)"
  by (rule processed_event_fenced [where v = "event0\<lparr>ev_CreatedAt := 1000, ev_Status := EventStatusDLQ\<rparr>"])
    (simp_all add: process_env0_def env0_def delivery_state_def repo2_eval message0_def queue_message_def event0_def)

text \<open>C18: isolation and cost of a message on the in-memory repository: every attempt made for it carries its
  event and goes to an active endpoint registered by its tenant; no endpoint is sent more than
  \<open>max 1 MaxRetries\<close> requests for it, and all of them together at most that many times the number of the
  tenant's active endpoints.\<close>

theorem delivery_stays_in_tenant:
  assumes "processMessage p pe msg s = (panic, trace, s')" "wp_repo p = Some memory_repository"
    and "mr_inv (ds_repo s)" "env_ok (pv_endpoints pe)"
  shows "panic = None \<and>
    (\<forall>a \<in> set (attempts_of trace). at_EventID a = qm_EventID msg \<and>
       (\<exists>ep. map_of (mr_endpoints (ds_repo s)) (at_EndpointID a) = Some ep \<and>
          ep_TenantID ep = qm_TenantID msg \<and> ep_IsActive ep)) \<and>
    (\<forall>i. int (length (attempts_to i trace)) \<le> max 1 (bp_MaxRetries (dp_policy (wp_dispatcher p)))) \<and>
    int (dispatches_of trace) \<le>
      int (card {i. \<exists>ep. map_of (mr_endpoints (ds_repo s)) i = Some ep \<and> ep_TenantID ep = qm_TenantID msg \<and> ep_IsActive ep})
        * max 1 (bp_MaxRetries (dp_policy (wp_dispatcher p)))"
  using assms
proof (cases rule: processMessage_cases)
  case Nothing
  then show ?thesis by simp
next
  case (Delivered endpoints event)
  let ?m = "mr_endpoints (ds_repo s)"
  let ?active = "filter ep_IsActive endpoints"
  let ?max = "max 1 (bp_MaxRetries (dp_policy (wp_dispatcher p)))"
  have eps: "endpoints = filter (\<lambda>ep. ep_TenantID ep = qm_TenantID msg) (map snd (go_range (e_ord (pv_endpoints pe)) ?m))"
    using Delivered(3) by (simp add: mr_GetEndpointsByTenant_def split: option.splits)
  note t = deliver_all_trace [OF Delivered(4)]
  have reg: "map_of ?m (ep_ID ep) = Some ep \<and> ep_TenantID ep = qm_TenantID msg \<and> ep_IsActive ep"
    if active: "ep \<in> set ?active" for ep
  proof -
    have "ep \<in> snd ` set ?m" using active eps assms(4) by (auto simp: set_go_range)
    then obtain i where "map_of ?m i = Some ep" using assms(3) gomap_values [of ?m ep] by (auto simp: mr_inv_def)
    moreover from this have "ep_ID ep = i" using assms(3) by (simp add: mr_inv_def)
    ultimately show ?thesis using active eps by simp
  qed
  let ?ids = "{i. \<exists>ep. map_of ?m i = Some ep \<and> ep_TenantID ep = qm_TenantID msg \<and> ep_IsActive ep}"
  have keys: "map (ep_ID \<circ> snd) ?m = map fst ?m"
    using assms(3) gomap_in_set [of ?m] by (auto simp: mr_inv_def)
  have "distinct (map (ep_ID \<circ> snd) ?m)" unfolding keys using assms(3) by (simp add: mr_inv_def gomap_ok_def)
  then have dist: "distinct (map ep_ID ?active)"
    unfolding eps using assms(4) by (intro distinct_map_filter) (simp add: distinct_go_range)
  have "length ?active = card (ep_ID ` set ?active)"
    using distinct_card [OF dist] by simp
  also have "\<dots> \<le> card ?ids"
  proof (rule card_mono)
    show "finite ?ids" by (rule finite_subset [OF _ finite_dom_map_of [of ?m]]) auto
    show "ep_ID ` set ?active \<subseteq> ?ids" using reg by blast
  qed
  finally have "int (length ?active) * ?max \<le> int (card ?ids) * ?max"
    by (intro mult_right_mono) auto
  with t have "int (dispatches_of trace) \<le> int (card ?ids) * ?max" by linarith
  moreover have "int (length (attempts_to i trace)) \<le> ?max" for i
    using deliver_all_attempts [OF Delivered(4) dist, of i] by (simp split: if_splits)
  moreover have "at_EventID a = qm_EventID msg \<and>
      (\<exists>ep. map_of ?m (at_EndpointID a) = Some ep \<and> ep_TenantID ep = qm_TenantID msg \<and> ep_IsActive ep)"
    if a: "a \<in> set (attempts_of trace)" for a
  proof -
    from t a obtain ep where "at_EventID a = ev_ID event" "ep \<in> set ?active" "at_EndpointID a = ep_ID ep" by blast
    with reg Delivered(2) show ?thesis by metis
  qed
  ultimately show ?thesis using Delivered(1) by blast
qed

theorem delivery_stays_in_tenant_witness:
  "\<exists>trace s'. processMessage pool0 process_env0 message0 (delivery_state repo_two_endpoints) = (None, trace, s') \<and>
     int (length (attempts_to ''ep2'' trace)) \<le> 5 \<and> int (dispatches_of trace) \<le> 10"
proof -
  obtain panic trace s' where p:
    "processMessage pool0 process_env0 message0 (delivery_state repo_two_endpoints) = (panic, trace, s')"
    by (metis prod.exhaust)
  have "env_ok (pv_endpoints process_env0)" by (simp add: process_env0_def env0_def)
  moreover have "{i. \<exists>ep. map_of (mr_endpoints (ds_repo (delivery_state repo_two_endpoints))) i = Some ep \<and>
      ep_TenantID ep = qm_TenantID message0 \<and> ep_IsActive ep} = {''ep1'', ''ep2''}"
    by (auto simp: delivery_state_def repo_two_endpoints_eval endpoint0_def message0_def queue_message_def event0_def
        split: if_splits)
  ultimately show ?thesis
    using delivery_stays_in_tenant [OF p] p repo_two_endpoints_inv by (simp add: delivery_state_def)
qed

text \<open>C32: the status an event ends with after a message was processed is that of the last attempt which
  was not RETRYING, over all endpoints: with several endpoints the last one decides, and a failure
  at an earlier endpoint leaves no trace in the event's status.\<close>

theorem last_endpoint_decides:
  assumes "processMessage p pe msg s = (None, trace, s')" "wp_repo p = Some memory_repository"
    and "dp_repo (wp_dispatcher p) = Some memory_repository" "mr_inv (ds_repo s)" "env_ok (pv_endpoints pe)"
    and "\<forall>j k. live (de_update (ae_dispatch (ee_attempt (pv_endpoint pe j) k)))" "all_recorded trace"
    and "mr_evs (ds_repo s) (qm_EventID msg) = Some v"
  shows "mr_evs (ds_repo s') (qm_EventID msg) =
     Some (v\<lparr>ev_Status := final_status (attempts_of trace) (ev_Status v)\<rparr>)"
  using assms(1,2,4,5)
proof (cases rule: processMessage_cases)
  case Nothing
  then show ?thesis using assms(8) by (simp add: final_status_def)
next
  case (Delivered endpoints event)
  then show ?thesis
    using deliver_all_status [OF Delivered(4) assms(3) _ assms(7)] assms(6,8) by simp
qed

lemma retry_loop_once:
  assumes "ae_check (aes 1) = None"
    and "Dispatch d (ae_dispatch (aes 1)) (Some endpoint) (Some event) 1 s = ((Some a, err), s1)"
    and "at_Status a \<noteq> DeliveryStatusRetrying"
  shows "retry_loop d endpoint event aes 1 s = (False, [StepDispatch (Some a) err], s1)"
  using assms by (subst retry_loop.simps) simp

text \<open>A first attempt answered with a final status code.\<close>

lemma example_dispatch:
  assumes "map_of (mr_attempts (ds_repo s)) (''att_'' @ u) = None" "code = 200 \<or> code = 404"
  shows "\<exists>a s1. Dispatch dispatcher0 (ae_dispatch (attempt_env0 u code)) (Some endpoint) (Some event) 1 s =
      ((Some a, None), s1) \<and>
    at_Status a = (if code = 200 then DeliveryStatusSuccess else DeliveryStatusFailed) \<and>
    dom (map_of (mr_attempts (ds_repo s1))) = insert (''att_'' @ u) (dom (map_of (mr_attempts (ds_repo s))))"
proof -
  let ?de = "ae_dispatch (attempt_env0 u code)"
  let ?a = "attempt_of (dp_policy dispatcher0) ?de endpoint event 1"
  have req: "de_new_request ?de (ep_URL endpoint) = None" by (simp add: attempt_env0_def delivery_env_def)
  have a: "at_ID ?a = ''att_'' @ u" "at_Status ?a = (if code = 200 then DeliveryStatusSuccess else DeliveryStatusFailed)"
    using assms(2) by (auto simp: attempt_of_def attempt_env0_def delivery_env_def outcome_code_def classify_def
        IsRetryable_def Let_def)
  obtain so r1 where st: "dispatch_store (Some memory_repository) ?de event ?a (ds_repo s) = (so, r1)" by fastforce
  have "so = None \<and> dom (map_of (mr_attempts r1)) = insert (''att_'' @ u) (dom (map_of (mr_attempts (ds_repo s))))"
    using st a assms by (auto simp: dispatch_store_def memory_repository_def mr_RecordDeliveryAttempt_def
        mr_UpdateEventStatus_def attempt_env0_def delivery_env_def env0_def Let_def split: if_splits option.splits)
  then show ?thesis
    using a(2) st by (auto simp: Dispatch_attempt [OF req] Let_def)
qed

theorem last_endpoint_decides_witness:
  "\<exists>trace s' w. processMessage pool0 process_env0 message0 (delivery_state repo_two_endpoints) = (None, trace, s') \<and>
     map at_Status (attempts_of trace) = [DeliveryStatusFailed, DeliveryStatusSuccess] \<and>
     mr_evs (ds_repo s') ''ev1'' = Some w \<and> ev_Status w = EventStatusDelivered"
proof -
  let ?s = "delivery_state repo_two_endpoints"
  let ?v = "event0\<lparr>ev_CreatedAt := 1000\<rparr>"
  let ?eps = "[endpoint0, endpoint0\<lparr>ep_ID := ''ep2''\<rparr>]"
  have fresh: "map_of (mr_attempts (ds_repo ?s)) (''att_'' @ ''u0'') = None" "mr_attempts (ds_repo ?s) = []"
    by (simp_all add: delivery_state_def repo_two_endpoints_eval repo1_eval NewMemoryRepository_def)
  obtain a1 s1 where d1: "Dispatch dispatcher0 (ae_dispatch (attempt_env0 ''u0'' 404)) (Some endpoint0) (Some ?v) 1 ?s = ((Some a1, None), s1)"
    "at_Status a1 = (if (404 :: int) = 200 then DeliveryStatusSuccess else DeliveryStatusFailed)"
    "dom (map_of (mr_attempts (ds_repo s1))) = insert (''att_'' @ ''u0'') (dom (map_of (mr_attempts (ds_repo ?s))))"
    using example_dispatch [OF fresh(1), of 404 endpoint0 ?v] by blast
  have st1: "at_Status a1 = DeliveryStatusFailed" using d1(2) by simp
  have "''att_'' @ ''u1'' \<notin> dom (map_of (mr_attempts (ds_repo s1)))" unfolding d1(3) fresh(2) by simp
  then have fresh2: "map_of (mr_attempts (ds_repo s1)) (''att_'' @ ''u1'') = None" unfolding domIff by blast
  obtain a2 s2 where d2: "Dispatch dispatcher0 (ae_dispatch (attempt_env0 ''u1'' 200))
      (Some (endpoint0\<lparr>ep_ID := ''ep2''\<rparr>)) (Some ?v) 1 s1 = ((Some a2, None), s2)"
    "at_Status a2 = (if (200 :: int) = 200 then DeliveryStatusSuccess else DeliveryStatusFailed)"
    using example_dispatch [OF fresh2, of 200 "endpoint0\<lparr>ep_ID := ''ep2''\<rparr>" ?v] by blast
  have st2: "at_Status a2 = DeliveryStatusSuccess" using d2(2) by simp
  have r1: "retry_loop dispatcher0 endpoint0 ?v (ee_attempt (pv_endpoint process_env0 0)) 1 ?s =
      (False, [StepDispatch (Some a1) None], s1)"
    using d1(1) st1 by (intro retry_loop_once) (simp_all add: process_env0_def attempt_env0_def)
  have r2: "retry_loop dispatcher0 (endpoint0\<lparr>ep_ID := ''ep2''\<rparr>) ?v (ee_attempt (pv_endpoint process_env0 (Suc 0))) 1 s1 =
      (False, [StepDispatch (Some a2) None], s2)"
    using d2(1) st2 by (intro retry_loop_once) (simp_all add: process_env0_def attempt_env0_def)
  have checks: "ee_check (pv_endpoint process_env0 i) = None" for i by (simp add: process_env0_def)
  have deliver: "deliver_all dispatcher0 ?v (pv_endpoint process_env0) 0 ?eps ?s =
      ([StepDispatch (Some a1) None, StepDispatch (Some a2) None], s2)"
    using r1 r2 checks by simp
  have get: "mr_GetEvent env0 ''ev1'' (ds_repo ?s) = Inr ?v"
    "mr_GetEndpointsByTenant env0 ''acme'' (ds_repo ?s) = Inr ?eps"
    by (simp_all add: mr_GetEvent_def mr_GetEndpointsByTenant_def env0_def delivery_state_def
        repo_two_endpoints_eval repo1_eval endpoint0_def)
  have msg: "qm_TenantID message0 = ''acme''" "qm_EventID message0 = ''ev1''"
    by (simp_all add: message0_def queue_message_def event0_def)
  have envs: "pv_fence process_env0 = env0" "pv_endpoints process_env0 = env0" "pv_get process_env0 = env0"
    by (simp_all add: process_env0_def)
  have p: "processMessage pool0 process_env0 message0 ?s =
      (None, [StepDispatch (Some a1) None, StepDispatch (Some a2) None], s2)"
    using deliver get unfolding processMessage_def fenced_def msg envs
    by (simp add: memory_repository_def endpoint0_def event0_def)
  have live: "\<forall>j k. live (de_update (ae_dispatch (ee_attempt (pv_endpoint process_env0 j) k)))"
    by (simp add: process_env0_def attempt_env0_def delivery_env_def env0_def)
  have inv: "mr_inv (ds_repo ?s)" "env_ok (pv_endpoints process_env0)"
    "mr_evs (ds_repo ?s) (qm_EventID message0) = Some ?v"
    using repo_two_endpoints_inv unfolding msg
    by (simp_all add: delivery_state_def repo_two_endpoints_eval repo1_eval envs env0_def)
  have "mr_evs (ds_repo s2) (qm_EventID message0) =
      Some (?v\<lparr>ev_Status := final_status [a1, a2] (ev_Status ?v)\<rparr>)"
    using last_endpoint_decides [OF p _ _ inv(1,2) live _ inv(3)] by simp
  then show ?thesis using p st1 st2 by (simp add: msg final_status_def)
qed

text \<open>A message is acknowledged whatever became of it: when its tenant has no active endpoint it is
  removed from the pending entries without a single attempt, and its event keeps its status.\<close>

theorem undeliverable_message_acked:
  assumes "wp_repo p = Some memory_repository" "wp_queue p = memory_stream_queue"
    and "cf_StreamName (wp_cfg p) \<noteq> ''''" "cf_GroupName (wp_cfg p) \<noteq> ''''" "live (me_ack me)"
    and "mq_inv (po_q st)" "env_ok (pv_endpoints (me_process me))"
    and "\<forall>i ep. map_of (mr_endpoints (ds_repo (po_d st))) i = Some ep \<longrightarrow> ep_TenantID ep = qm_TenantID msg \<longrightarrow>
           \<not> ep_IsActive ep" "mr_inv (ds_repo (po_d st))"
    and "handle_message p me msg st = (panic, trace, st')"
  shows "panic = None \<and> trace = [] \<and> po_d st' = po_d st \<and>
     mq_pend (po_q st') (cf_StreamName (wp_cfg p)) (cf_GroupName (wp_cfg p)) (qm_ID msg) = None"
proof -
  obtain pc tr s1 where P: "processMessage p (me_process me) msg (po_d st) = (pc, tr, s1)"
    by (metis prod.exhaust)
  have idle: "pc = None \<and> tr = [] \<and> s1 = po_d st"
  proof (cases rule: processMessage_cases [OF P assms(1,9,7)])
    case (2 endpoints event)
    have "endpoints = filter (\<lambda>ep. ep_TenantID ep = qm_TenantID msg)
        (map snd (go_range (e_ord (pv_endpoints (me_process me))) (mr_endpoints (ds_repo (po_d st)))))"
      using 2(3) by (simp add: mr_GetEndpointsByTenant_def split: option.splits)
    then have "\<forall>ep \<in> set endpoints. \<not> ep_IsActive ep"
      using assms(7,8,9) gomap_values [of "mr_endpoints (ds_repo (po_d st))"]
      by (auto simp: set_go_range mr_inv_def)
    then have "filter ep_IsActive endpoints = []" by (simp add: filter_empty_conv)
    then show ?thesis using 2(1,4) by simp
  qed simp
  obtain ro q1 where A: "mq_AckEvent (me_ack me) (cf_StreamName (wp_cfg p)) (cf_GroupName (wp_cfg p)) [qm_ID msg] (po_q st) = (ro, q1)"
    by fastforce
  have "ro = None" using A assms(3-5) by (auto simp: mq_AckEvent_eq split: option.splits)
  moreover have "panic = None \<and> trace = [] \<and> po_d st' = po_d st \<and> po_q st' = q1"
    using assms(10) P A idle unfolding handle_message_def assms(2) memory_stream_queue_def by auto
  ultimately show ?thesis using mq_ack_frame [OF assms(6) A] by simp
qed

definition pool_state0 :: "memory_repo \<Rightarrow> (memory_repo, string list \<Rightarrow> nat, nat, DeliveryAttempt list, mem_queue) pool_state" where
  "pool_state0 m = \<lparr>po_d = delivery_state m, po_q = queue2, po_claimAttempts = []\<rparr>"

definition message_env0 :: message_env where
  "message_env0 = \<lparr>me_check = None, me_process = process_env0, me_ack = env0\<rparr>"

theorem undeliverable_message_acked_witness:
  "\<exists>st'. handle_message pool0 message_env0 message0 (pool_state0 repo1) = (None, [], st') \<and>
     mq_pend queue2 ''st'' ''gr'' (qm_ID message0) = Some message0 \<and>
     mq_pend (po_q st') ''st'' ''gr'' (qm_ID message0) = None"
proof -
  obtain panic trace st' where h: "handle_message pool0 message_env0 message0 (pool_state0 repo1) = (panic, trace, st')"
    by (metis prod.exhaust)
  have "env_ok (pv_endpoints (me_process message_env0))"
    by (simp add: message_env0_def process_env0_def env0_def)
  moreover have "mq_pend queue2 ''st'' ''gr'' (qm_ID message0) = Some message0"
    by (simp add: queue_run_eval message0_def queue_message_def)
  ultimately show ?thesis
    using undeliverable_message_acked [OF _ _ _ _ _ _ _ _ _ h] h queue2_inv mr_reachable_inv [OF repo1_reachable]
    by (auto simp: pool_state0_def delivery_state_def message_env0_def env0_def repo1_eval NewMemoryRepository_def)
qed

text \<open>The poison ceiling: a message claimed more often than \<open>MaxClaimAttempts\<close> is acknowledged without
  being dispatched and its event is moved to the DLQ, whatever its status was, DELIVERED included.\<close>

theorem poison_ceiling:
  assumes "wp_repo p = Some memory_repository" "wp_queue p = memory_stream_queue"
    and "cf_StreamName (wp_cfg p) \<noteq> ''''" "cf_GroupName (wp_cfg p) \<noteq> ''''"
    and "live (cl_poison ce)" "live (me_ack (cl_message ce))" "mq_inv (po_q st)"
    and "cf_MaxClaimAttempts (wp_cfg p) \<le> claims_of (po_claimAttempts st) (qm_ID msg)"
    and "mr_evs (ds_repo (po_d st)) (qm_EventID msg) = Some v"
    and "handle_claimed p ce msg st = (panic, trace, st')"
  shows "panic = None \<and> trace = [] \<and>
     mr_evs (ds_repo (po_d st')) =
       (mr_evs (ds_repo (po_d st)))(qm_EventID msg \<mapsto> v\<lparr>ev_Status := EventStatusDLQ\<rparr>) \<and>
     mq_pend (po_q st') (cf_StreamName (wp_cfg p)) (cf_GroupName (wp_cfg p)) (qm_ID msg) = None"
proof -
  obtain ro q1 where A: "mq_AckEvent (me_ack (cl_message ce)) (cf_StreamName (wp_cfg p)) (cf_GroupName (wp_cfg p))
      [qm_ID msg] (po_q st) = (ro, q1)"
    by fastforce
  have "ro = None" using A assms(3,4,6) by (auto simp: mq_AckEvent_eq split: option.splits)
  then have "mq_pend q1 (cf_StreamName (wp_cfg p)) (cf_GroupName (wp_cfg p)) (qm_ID msg) = None"
    using mq_ack_frame [OF assms(7) A] by simp
  moreover have "panic = None \<and> trace = [] \<and> po_q st' = q1 \<and>
     ds_repo (po_d st') = snd (mr_UpdateEventStatus (cl_poison ce) (qm_EventID msg) EventStatusDLQ (ds_repo (po_d st)))"
    using assms(1,2,8,10) A
    by (auto simp: handle_claimed_def Let_def memory_repository_def memory_stream_queue_def)
  ultimately show ?thesis using assms(5,9) by (simp add: mr_UpdateEventStatus_def)
qed

theorem poison_ceiling_witness:
  "\<exists>st' w. handle_claimed pool0 \<lparr>cl_check = None, cl_poison = env0, cl_message = message_env0\<rparr> message0
       ((pool_state0 (snd (mr_UpdateEventStatus env0 ''ev1'' EventStatusDelivered repo1)))
          \<lparr>po_claimAttempts := [(qm_ID message0, 5)]\<rparr>) = (None, [], st') \<and>
     mr_evs (ds_repo (po_d st')) ''ev1'' = Some w \<and> ev_Status w = EventStatusDLQ"
proof -
  let ?st = "(pool_state0 (snd (mr_UpdateEventStatus env0 ''ev1'' EventStatusDelivered repo1)))
          \<lparr>po_claimAttempts := [(qm_ID message0, 5)]\<rparr>"
  let ?ce = "\<lparr>cl_check = None, cl_poison = env0, cl_message = message_env0\<rparr>"
  obtain panic trace st' where h: "handle_claimed pool0 ?ce message0 ?st = (panic, trace, st')"
    by (metis prod.exhaust)
  have v: "mr_evs (ds_repo (po_d ?st)) (qm_EventID message0) =
      Some (event0\<lparr>ev_CreatedAt := 1000, ev_Status := EventStatusDelivered\<rparr>)"
    by (simp add: pool_state0_def delivery_state_def mr_UpdateEventStatus_def env0_def repo1_eval message0_def
        queue_message_def event0_def)
  have "qm_EventID message0 = ''ev1''" by (simp add: message0_def queue_message_def event0_def)
  with poison_ceiling [OF _ _ _ _ _ _ _ _ v h] h show ?thesis
    using queue2_inv by (auto simp: pool_state0_def claims_of_def message_env0_def env0_def)
qed

text \<open>A pool that was stopped before it was started can still be started, and then no later stop
  does anything: its workers run on and their context is never cancelled.\<close>

theorem stop_before_start_disables_stop:
  assumes "Pool_Start p e (snd (Pool_Stop new_pool_ctl)) q = (r, ctl, q')"
  shows "r = None \<and> pc_running ctl = cf_NumWorkers (wp_cfg p) + 1 \<and> pc_cancelled ctl = Some False \<and>
     Pool_Stop ctl = (False, ctl) \<and> Pool_Shutdown timeout ctl = (None, ctl)"
  using assms by (auto simp: Pool_Start_def Pool_Stop_def Pool_Shutdown_def new_pool_ctl_def)

theorem stop_before_start_disables_stop_witness:
  "\<exists>ctl q'. Pool_Start pool0 env0 (snd (Pool_Stop new_pool_ctl)) NewMemoryStreamQueue = (None, ctl, q') \<and>
     pc_running ctl = 11 \<and> Pool_Stop ctl = (False, ctl)"
proof -
  obtain r ctl q' where p: "Pool_Start pool0 env0 (snd (Pool_Stop new_pool_ctl)) NewMemoryStreamQueue = (r, ctl, q')"
    by (metis prod.exhaust)
  have "cf_NumWorkers (wp_cfg pool0) = 10" by (simp add: pool0_def NewWorkerPool_def pool_defaults_def)
  then show ?thesis using stop_before_start_disables_stop [OF p] p by auto
qed

text \<open>
  The life of a pool: its owner starts, stops and shuts it down in any order and any number of times,
  and goroutines that run end one by one.
\<close>

inductive pool_life :: "('r, 'c, 'h, 'b, 'q) worker_pool \<Rightarrow> pool_ctl \<Rightarrow> bool" for p where
  life_new: "pool_life p new_pool_ctl"
| life_start: "pool_life p ctl \<Longrightarrow> Pool_Start p e ctl q = (r, ctl', q') \<Longrightarrow> pool_life p ctl'"
| life_stop: "pool_life p ctl \<Longrightarrow> pool_life p (snd (Pool_Stop ctl))"
| life_shutdown: "pool_life p ctl \<Longrightarrow> pool_life p (snd (Pool_Shutdown timeout ctl))"
| life_exit: "pool_life p ctl \<Longrightarrow> 0 < pc_running ctl \<Longrightarrow> pool_life p (ctl\<lparr>pc_running := pc_running ctl - 1\<rparr>)"

definition ctl_inv :: "int \<Rightarrow> pool_ctl \<Rightarrow> bool" where
  "ctl_inv n ctl \<longleftrightarrow> 0 \<le> pc_running ctl \<and> pc_running ctl \<le> (if pc_started ctl then n + 1 else 0) \<and>
     (pc_started ctl \<longleftrightarrow> pc_cancelled ctl \<noteq> None) \<and> (pc_cancelled ctl = Some True \<longrightarrow> pc_stopped ctl)"

lemma snd_Pool_Shutdown: "snd (Pool_Shutdown timeout ctl) = snd (Pool_Stop ctl)"
  by (auto simp: Pool_Shutdown_def Pool_Stop_def split: option.splits)

lemma pool_life_inv:
  assumes "pool_life p ctl" "0 \<le> cf_NumWorkers (wp_cfg p)"
  shows "ctl_inv (cf_NumWorkers (wp_cfg p)) ctl"
  using assms(1)
proof induction
  case life_new
  then show ?case by (simp add: ctl_inv_def new_pool_ctl_def)
next
  case (life_start ctl e q r ctl' q')
  then show ?case using assms(2) by (auto simp: ctl_inv_def Pool_Start_def split: if_splits)
next
  case (life_stop ctl)
  then show ?case by (auto simp: ctl_inv_def Pool_Stop_def)
next
  case (life_shutdown ctl timeout)
  then show ?case by (auto simp: snd_Pool_Shutdown ctl_inv_def Pool_Stop_def)
next
  case (life_exit ctl)
  then show ?case by (auto simp: ctl_inv_def)
qed

lemma NumWorkers_pos: "0 < cf_NumWorkers (wp_cfg (NewWorkerPool cfg q repo disp))"
  by (simp add: NewWorkerPool_def pool_defaults_def)

text \<open>C33: over the whole life of a pool, in whatever order its owner starts, stops and shuts it down, at most one
  batch of \<open>NumWorkers + 1\<close> goroutines is ever running and none before the start. The first stop of a
  pool that is running cancels the workers' context; from then on every start is refused and every
  stop or shutdown does nothing. A pool whose first stop came before its start can still be started,
  but no later stop or shutdown does anything and its context is never cancelled.\<close>

theorem pool_lifecycle:
  assumes "pool_life (NewWorkerPool cfg mq repo disp) ctl"
  shows "0 \<le> pc_running ctl \<and> pc_running ctl \<le> cf_NumWorkers (pool_defaults cfg) + 1 \<and>
    (\<not> pc_started ctl \<longrightarrow> pc_running ctl = 0) \<and>
    (pc_started ctl \<and> \<not> pc_stopped ctl \<longrightarrow>
       fst (Pool_Stop ctl) \<and> pc_cancelled (snd (Pool_Stop ctl)) = Some True) \<and>
    (pc_cancelled ctl = Some True \<longrightarrow> Pool_Stop ctl = (False, ctl) \<and> Pool_Shutdown timeout ctl = (None, ctl) \<and>
       Pool_Start (NewWorkerPool cfg mq repo disp) e ctl q = (Some (ErrorsNew ''worker pool is already started''), ctl, q)) \<and>
    (pc_stopped ctl \<and> pc_cancelled ctl \<noteq> Some True \<longrightarrow> Pool_Stop ctl = (False, ctl) \<and> Pool_Shutdown timeout ctl = (None, ctl) \<and>
       (\<not> pc_started ctl \<longrightarrow>
          (\<exists>ctl' q'. Pool_Start (NewWorkerPool cfg mq repo disp) e ctl q = (None, ctl', q') \<and>
             pc_running ctl' = cf_NumWorkers (pool_defaults cfg) + 1 \<and> pc_stopped ctl' \<and> pc_cancelled ctl' = Some False)))"
proof -
  let ?p = "NewWorkerPool cfg mq repo disp"
  have cfg: "wp_cfg ?p = pool_defaults cfg" by (simp add: NewWorkerPool_def)
  have "0 \<le> cf_NumWorkers (wp_cfg ?p)" using NumWorkers_pos less_imp_le by blast
  then have inv: "ctl_inv (cf_NumWorkers (pool_defaults cfg)) ctl" using pool_life_inv [OF assms] cfg by simp
  have n: "0 < cf_NumWorkers (pool_defaults cfg)" using NumWorkers_pos [of cfg mq repo disp] cfg by simp
  show ?thesis
    using inv n cfg by (auto simp: ctl_inv_def Pool_Stop_def Pool_Shutdown_def Pool_Start_def split: if_splits)
qed

theorem pool_lifecycle_witness:
  "\<exists>ctl q'. Pool_Start pool0 env0 new_pool_ctl NewMemoryStreamQueue = (None, ctl, q') \<and> pc_running ctl = 11 \<and>
     pc_cancelled (snd (Pool_Stop ctl)) = Some True \<and>
     Pool_Stop (snd (Pool_Stop ctl)) = (False, snd (Pool_Stop ctl))"
proof -
  obtain r ctl q' where start: "Pool_Start pool0 env0 new_pool_ctl NewMemoryStreamQueue = (r, ctl, q')"
    by (metis prod.exhaust)
  have n: "cf_NumWorkers (wp_cfg pool0) = 10" by (simp add: pool0_def NewWorkerPool_def pool_defaults_def)
  have c: "r = None" "pc_running ctl = 11" "pc_started ctl" "\<not> pc_stopped ctl"
    using start n by (auto simp: Pool_Start_def new_pool_ctl_def)
  have life: "pool_life pool0 (snd (Pool_Stop ctl))" by (intro life_stop life_start [OF life_new start])
  have "pool_life pool0 ctl" by (rule life_start [OF life_new start])
  from pool_lifecycle [OF this [unfolded pool0_def]] c
  have "pc_cancelled (snd (Pool_Stop ctl)) = Some True" by (simp add: Pool_Stop_def)
  moreover from this pool_lifecycle [OF life [unfolded pool0_def]]
  have "Pool_Stop (snd (Pool_Stop ctl)) = (False, snd (Pool_Stop ctl))" by blast
  ultimately show ?thesis using start c by blast
qed

end
