(* ===== verification/Go_Url.thy ===== *)
theory Go_Url
  imports Go_JsonCodec "HOL-Library.List_Lexorder" "HOL-Library.Char_ord"
begin

text \<open>
  What the source uses of \<open>net/url\<close>: splitting a URL at its query, and queries as lists of keys with
  their values, read and written. Lemmas: a query that was written is read back.
\<close>

definition url_path :: "string \<Rightarrow> string" where
  "url_path url = takeWhile (\<lambda>c. c \<noteq> CHR ''?'') url"

definition url_query :: "string \<Rightarrow> string" where
  "url_query url = tl (dropWhile (\<lambda>c. c \<noteq> CHR ''?'') url)"

text \<open>\<open>url.Values.Get\<close> on a query: pairs that are malformed or hold a semicolon are left out.\<close>

fun query_bytes :: "string \<Rightarrow> string option" where
  "query_bytes [] = Some []"
| "query_bytes (c # cs) =
     (if c = CHR ''%'' then
        (case cs of
           a # b # rest \<Rightarrow>
             (case (hex_val a, hex_val b) of
                (Some x, Some y) \<Rightarrow> map_option (Cons (char_of (16 * x + y))) (query_bytes rest)
              | _ \<Rightarrow> None)
         | _ \<Rightarrow> None)
      else map_option (Cons (if c = CHR ''+'' then CHR '' '' else c)) (query_bytes cs))"

definition query_pair :: "string \<Rightarrow> (string \<times> string) option" where
  "query_pair p =
     (if p = '''' \<or> CHR '';'' \<in> set p then None
      else
        (case (query_bytes (takeWhile (\<lambda>c. c \<noteq> CHR ''='') p), query_bytes (tl (dropWhile (\<lambda>c. c \<noteq> CHR ''='') p))) of
           (Some k, Some v) \<Rightarrow> Some (k, v)
         | _ \<Rightarrow> None))"

text \<open>\<open>url.ParseQuery\<close>: every key once, with its values in order.\<close>

type_synonym url_values = "(string \<times> string list) list"

definition values_Add :: "string \<times> string \<Rightarrow> url_values \<Rightarrow> url_values" where
  "values_Add kv vs = AList.map_default (fst kv) [snd kv] (\<lambda>xs. xs @ [snd kv]) vs"

definition ParseQuery :: "string \<Rightarrow> url_values" where
  "ParseQuery query = fold values_Add (List.map_filter query_pair (strings_Split (CHR ''&'') query)) []"

definition values_Set :: "string \<Rightarrow> string \<Rightarrow> url_values \<Rightarrow> url_values" where
  "values_Set k v vs = AList.update k [v] vs"

text \<open>\<open>url.QueryEscape\<close>.\<close>

definition unreserved :: "char \<Rightarrow> bool" where
  "unreserved c \<longleftrightarrow>
     (48 \<le> code c \<and> code c \<le> 57) \<or> (65 \<le> code c \<and> code c \<le> 90) \<or> (97 \<le> code c \<and> code c \<le> 122) \<or>
     c \<in> {CHR ''-'', CHR ''_'', CHR ''.'', CHR ''~''}"

definition upper_hex :: "nat \<Rightarrow> char" where
  "upper_hex d = (if d < 10 then char_of (48 + d) else char_of (55 + d))"

definition QueryEscape :: "string \<Rightarrow> string" where
  "QueryEscape s = concat (map (\<lambda>c.
     if c = CHR '' '' then [CHR ''+'']
     else if unreserved c then [c]
     else [CHR ''%'', upper_hex (code c div 16), upper_hex (code c mod 16)]) s)"

text \<open>\<open>Values.Encode\<close>: sorted by key.\<close>

fun join_amp :: "string list \<Rightarrow> string" where
  "join_amp [] = []"
| "join_amp [x] = x"
| "join_amp (x # y # zs) = x @ CHR ''&'' # join_amp (y # zs)"

definition values_Encode :: "url_values \<Rightarrow> string" where
  "values_Encode vs =
     join_amp (concat (map (\<lambda>(k, xs). map (\<lambda>v. QueryEscape k @ CHR ''='' # QueryEscape v) xs) (sort_key fst vs)))"

definition query_Get :: "string \<Rightarrow> string \<Rightarrow> string" where
  "query_Get query k =
     (case map_of (List.map_filter query_pair (strings_Split (CHR ''&'') query)) k of None \<Rightarrow> '''' | Some v \<Rightarrow> v)"


lemma hex_val_upper_hex: "d < 16 \<Longrightarrow> hex_val (upper_hex d) = Some d"
  by (auto simp: hex_val_def upper_hex_def)

lemma query_bytes_escape: "query_bytes (QueryEscape s @ t) = map_option (append s) (query_bytes t)"
proof (induction s)
  case (Cons c s)
  define w where "w = code c"
  have w: "w div 16 < 16" "w mod 16 < 16" "16 * (w div 16) + w mod 16 = w" and c: "char_of w = c"
    by (simp_all add: w_def less_mult_imp_div_less)
  have step: "QueryEscape (c # s) @ t = (if c = CHR '' '' then [CHR ''+''] else if unreserved c then [c]
      else [CHR ''%'', upper_hex (w div 16), upper_hex (w mod 16)]) @ QueryEscape s @ t"
    by (simp add: QueryEscape_def w_def)
  show ?case
  proof (cases "unreserved c \<and> c \<noteq> CHR '' ''")
    case True
    then have "c \<noteq> CHR ''%''" "c \<noteq> CHR ''+''" by (auto simp: unreserved_def)
    then show ?thesis unfolding step using True Cons.IH by (cases "query_bytes t") simp_all
  next
    case False
    then show ?thesis unfolding step using Cons.IH w c by (cases "query_bytes t") (simp_all add: hex_val_upper_hex)
  qed
qed (simp add: QueryEscape_def map_option.id [unfolded id_def] option.map_ident)

theorem query_bytes_QueryEscape: "query_bytes (QueryEscape s) = Some s"
  using query_bytes_escape [of s "[]"] by simp

end
