(* ===== verification/MockReceiver.thy ===== *)
theory MockReceiver
  imports Router Go_Url "HOL-Library.List_Lexorder" "HOL-Library.Char_ord"
begin

text \<open>
  The mock webhook receiver, \<open>cmd/mockreceiver/main.go\<close>: the ring buffer of captured requests, the
  counters of the flaky endpoint, the handlers, and the routes behind its CORS middleware. The locks
  make every operation of the buffer and of the counters one atomic step. The parser of durations
  (\<open>time.ParseDuration\<close>) is a parameter.
\<close>

section \<open>The ring buffer\<close>

record CapturedRequest =
  cap_ID :: string
  cap_URL :: string
  cap_Method :: string
  cap_Headers :: http_header
  cap_Signature :: string
  cap_WebhookID :: string
  cap_Body :: string
  cap_ReceivedAt :: gotime

record ring_buffer =
  rb_capacity :: int
  rb_entries :: "CapturedRequest list"

definition NewRingBuffer :: "int \<Rightarrow> ring_buffer" where
  "NewRingBuffer capacity = \<lparr>rb_capacity = (if capacity \<le> 0 then 50 else capacity), rb_entries = []\<rparr>"

definition rb_Add :: "CapturedRequest \<Rightarrow> ring_buffer \<Rightarrow> ring_buffer" where
  "rb_Add req rb =
     (if int (length (rb_entries rb)) \<ge> rb_capacity rb
      then rb\<lparr>rb_entries := tl (rb_entries rb) @ [req]\<rparr>
      else rb\<lparr>rb_entries := rb_entries rb @ [req]\<rparr>)"

definition rb_GetAll :: "ring_buffer \<Rightarrow> CapturedRequest list" where
  "rb_GetAll rb = rb_entries rb"

definition rb_Clear :: "ring_buffer \<Rightarrow> ring_buffer" where
  "rb_Clear rb = rb\<lparr>rb_entries := []\<rparr>"

definition rb_Len :: "ring_buffer \<Rightarrow> nat" where
  "rb_Len rb = length (rb_entries rb)"

section \<open>The flaky endpoint\<close>

record flaky_state =
  fs_attempts :: "(string, int) gomap"
  fs_global :: int

definition NewFlakyState :: flaky_state where
  "NewFlakyState = \<lparr>fs_attempts = [], fs_global = 0\<rparr>"

definition NextAttempt :: "string \<Rightarrow> flaky_state \<Rightarrow> int \<times> flaky_state" where
  "NextAttempt key fs =
     (if key \<noteq> '''' then
        let n = wrap64 ((case map_of (fs_attempts fs) key of None \<Rightarrow> 0 | Some n \<Rightarrow> n) + 1)
        in (n, fs\<lparr>fs_attempts := AList.update key n (fs_attempts fs)\<rparr>)
      else
        let n = wrap64 (fs_global fs + 1) in (n, fs\<lparr>fs_global := n\<rparr>))"

definition fs_Reset :: "flaky_state \<Rightarrow> flaky_state" where
  "fs_Reset fs = \<lparr>fs_attempts = [], fs_global = 0\<rparr>"

text \<open>The remainder of Go has the sign of the dividend.\<close>

definition go_rem :: "int \<Rightarrow> int \<Rightarrow> int" where
  "go_rem a b = a - go_quot a b * b"

section \<open>The server\<close>

record mock_server =
  mo_buffer :: ring_buffer
  mo_flakyState :: flaky_state

definition NewMockServerWithCapacity :: "int \<Rightarrow> mock_server" where
  "NewMockServerWithCapacity capacity = \<lparr>mo_buffer = NewRingBuffer capacity, mo_flakyState = NewFlakyState\<rparr>"

definition NewMockServer :: mock_server where
  "NewMockServer = NewMockServerWithCapacity 50"

definition mock_Reset :: "mock_server \<Rightarrow> mock_server" where
  "mock_Reset s = \<lparr>mo_buffer = rb_Clear (mo_buffer s), mo_flakyState = fs_Reset (mo_flakyState s)\<rparr>"

text \<open>
  What serving a request reads: the error of reading its body, the fresh UUID, the clock at the
  capture and at the response, and whether the timer of a slow request fired before its context ended.
\<close>

record mock_env =
  mv_read :: "goerr option"
  mv_uuid :: string
  mv_now :: gotime
  mv_reply :: gotime
  mv_timer :: bool

definition header_or :: "http_header \<Rightarrow> string \<Rightarrow> string \<Rightarrow> string" where
  "header_or h k1 k2 = (if Header_Get h k1 = '''' then Header_Get h k2 else Header_Get h k1)"

definition captured_request :: "mock_env \<Rightarrow> http_request \<Rightarrow> CapturedRequest" where
  "captured_request me r =
     \<lparr>cap_ID = mv_uuid me, cap_URL = rq_URL r, cap_Method = rq_Method r, cap_Headers = rq_Header r,
      cap_Signature = header_or (rq_Header r) ''X-Webhook-Signature'' ''Svix-Signature'',
      cap_WebhookID = header_or (rq_Header r) ''X-Webhook-ID'' ''Svix-Id'',
      cap_Body = rq_Body r, cap_ReceivedAt = mv_now me\<rparr>"

definition captureRequest :: "mock_env \<Rightarrow> http_request \<Rightarrow> mock_server \<Rightarrow> (goerr + string) \<times> mock_server" where
  "captureRequest me r s =
     (case mv_read me of
        Some err \<Rightarrow> (Inl err, s)
      | None \<Rightarrow> (Inr (rq_Body r), s\<lparr>mo_buffer := rb_Add (captured_request me r) (mo_buffer s)\<rparr>))"

definition read_failed :: "http_writer \<Rightarrow> http_writer" where
  "read_failed w = http_Error w (CHR ''{'' # json_quote ''error'' @ CHR '':'' # json_quote ''failed to read body'' @ ''}'') 500"

definition now_json :: "mock_env \<Rightarrow> json" where
  "now_json me = JString (rfc3339nano (mv_reply me))"

definition handleWebhookSuccess :: "mock_env \<Rightarrow> http_request \<Rightarrow> http_writer \<Rightarrow> mock_server \<Rightarrow> http_writer \<times> mock_server" where
  "handleWebhookSuccess me r w s =
     (case captureRequest me r s of
        (Inl err, s1) \<Rightarrow> (read_failed w, s1)
      | (Inr body, s1) \<Rightarrow>
          (writeJSON w 200 (Some (JObject
             [(''received'', JBool True), (''received_at'', now_json me), (''status'', JString ''success'')])), s1))"

definition handleWebhookFlaky :: "mock_env \<Rightarrow> http_request \<Rightarrow> http_writer \<Rightarrow> mock_server \<Rightarrow> http_writer \<times> mock_server" where
  "handleWebhookFlaky me r w s =
     (case captureRequest me r s of
        (Inl err, s1) \<Rightarrow> (read_failed w, s1)
      | (Inr body, s1) \<Rightarrow>
          let key = header_or (rq_Header r) ''X-Webhook-ID'' ''Svix-Id'';
              (attempt, fs) = NextAttempt key (mo_flakyState s1);
              s2 = s1\<lparr>mo_flakyState := fs\<rparr>
          in if go_rem attempt 3 \<noteq> 0 then
               (writeJSON w 500 (Some (JObject
                  [(''attempt'', JInt attempt), (''error'', JString ''intermittent_failure''), (''status'', JString ''error'')])), s2)
             else
               (writeJSON w 200 (Some (JObject
                  [(''attempt'', JInt attempt), (''received'', JBool True), (''received_at'', now_json me),
                   (''status'', JString ''success'')])), s2))"

definition handleWebhookPoison :: "mock_env \<Rightarrow> http_request \<Rightarrow> http_writer \<Rightarrow> mock_server \<Rightarrow> http_writer \<times> mock_server" where
  "handleWebhookPoison me r w s =
     (case captureRequest me r s of
        (Inl err, s1) \<Rightarrow> (read_failed w, s1)
      | (Inr body, s1) \<Rightarrow>
          (writeJSON w 400 (Some (JObject
             [(''error'', JString ''poison_pill_rejected''), (''status'', JString ''rejected'')])), s1))"

definition slow_delay :: "(string \<Rightarrow> duration option) \<Rightarrow> string \<Rightarrow> duration" where
  "slow_delay parse_duration dStr =
     (if dStr = '''' then 4 * Second
      else (case parse_duration dStr of
              Some parsed \<Rightarrow> parsed
            | None \<Rightarrow> (case ParseInt64 dStr of Some parsedMs \<Rightarrow> wrap64 (parsedMs * Millisecond) | None \<Rightarrow> 4 * Second)))"

text \<open>The result also carries the delay of the timer; a request whose context ends first is not answered.\<close>

definition handleWebhookSlow ::
    "(string \<Rightarrow> duration option) \<Rightarrow> mock_env \<Rightarrow> http_request \<Rightarrow> http_writer \<Rightarrow> mock_server \<Rightarrow>
       (duration option \<times> http_writer) \<times> mock_server" where
  "handleWebhookSlow parse_duration me r w s =
     (case captureRequest me r s of
        (Inl err, s1) \<Rightarrow> ((None, read_failed w), s1)
      | (Inr body, s1) \<Rightarrow>
          let delay = slow_delay parse_duration (query_Get (url_query (rq_URL r)) ''delay'') in
          if \<not> mv_timer me then ((Some delay, w), s1)
          else
            ((Some delay, writeJSON w 200 (Some (JObject
                [(''received_at'', now_json me), (''slow'', JBool True), (''status'', JString ''success'')]))), s1))"

definition CapturedRequest_json :: "CapturedRequest \<Rightarrow> json option" where
  "CapturedRequest_json c =
     map_option (\<lambda>received. JObject
       ([(''id'', JString (cap_ID c)), (''url'', JString (cap_URL c)), (''method'', JString (cap_Method c)),
         (''headers'', JObject (map (\<lambda>(k, vs). (k, JArray (map JString vs))) (sort_key fst (cap_Headers c))))] @
        omitempty (cap_Signature c = []) ''signature'' (JString (cap_Signature c)) @
        omitempty (cap_WebhookID c = []) ''webhook_id'' (JString (cap_WebhookID c)) @
        [(''body'', JString (cap_Body c)), (''received_at'', received)]))
       (json_time (cap_ReceivedAt c))"

definition handleInspectLogs :: "http_writer \<Rightarrow> mock_server \<Rightarrow> http_writer" where
  "handleInspectLogs w s =
     writeJSON w 200 (map_option JArray (json_list CapturedRequest_json (rb_GetAll (mo_buffer s))))"

definition handleInspectClear :: "http_writer \<Rightarrow> mock_server \<Rightarrow> http_writer \<times> mock_server" where
  "handleInspectClear w s =
     (writeJSON w 200 (Some (JObject [(''status'', JString ''cleared'')])), s\<lparr>mo_buffer := rb_Clear (mo_buffer s)\<rparr>)"

definition handleHealth :: "http_writer \<Rightarrow> http_writer" where
  "handleHealth w = writeJSON w 200 (Some (JObject [(''status'', JString ''ok'')]))"

section \<open>Routes\<close>

datatype mock_handler =
    WebhookSuccess | WebhookFlaky | WebhookPoison | WebhookSlow | InspectLogs | InspectClear | MockHealth

definition mock_routes :: "(string \<times> mock_handler) list" where
  "mock_routes =
     [(''/webhook/success'', WebhookSuccess), (''/webhook/flaky'', WebhookFlaky),
      (''/webhook/poison'', WebhookPoison), (''/webhook/slow'', WebhookSlow),
      (''/inspect/logs'', InspectLogs), (''/requests'', InspectLogs), (''/inspect/clear'', InspectClear),
      (''/healthz'', MockHealth), (''/health'', MockHealth)]"

definition mock_route_for :: "string \<Rightarrow> mock_handler option" where
  "mock_route_for p = map_option snd (List.find (\<lambda>(pattern, h). path_matches pattern p) mock_routes)"

definition mock_call ::
    "(string \<Rightarrow> duration option) \<Rightarrow> mock_handler \<Rightarrow> mock_env \<Rightarrow> http_request \<Rightarrow> http_writer \<Rightarrow> mock_server \<Rightarrow>
       http_writer \<times> mock_server" where
  "mock_call parse_duration h me r w s =
     (case h of
        WebhookSuccess \<Rightarrow> handleWebhookSuccess me r w s
      | WebhookFlaky \<Rightarrow> handleWebhookFlaky me r w s
      | WebhookPoison \<Rightarrow> handleWebhookPoison me r w s
      | WebhookSlow \<Rightarrow> (case handleWebhookSlow parse_duration me r w s of ((delay, w1), s1) \<Rightarrow> (w1, s1))
      | InspectLogs \<Rightarrow> (handleInspectLogs w s, s)
      | InspectClear \<Rightarrow> handleInspectClear w s
      | MockHealth \<Rightarrow> (handleHealth w, s))"

definition mock_mux ::
    "(string \<Rightarrow> duration option) \<Rightarrow> mock_env \<Rightarrow> http_request \<Rightarrow> http_writer \<Rightarrow> mock_server \<Rightarrow> served \<times> mock_server" where
  "mock_mux parse_duration me r w s =
     (let p = url_path (rq_URL r); path = (if rq_Method r = ''CONNECT'' then p else cleanPath p) in
      if path \<noteq> p then (Redirect w (path @ drop (length p) (rq_URL r)), s)
      else
        (case mock_route_for path of
           None \<Rightarrow> (Response (http_Error w ''404 page not found'' 404), s)
         | Some h \<Rightarrow> (case mock_call parse_duration h me r w s of (w1, s1) \<Rightarrow> (Response w1, s1))))"

definition mock_cors_header :: "http_header \<Rightarrow> http_header" where
  "mock_cors_header h =
     Header_Set ''Access-Control-Max-Age'' ''86400''
     (Header_Set ''Access-Control-Expose-Headers'' ''*''
     (Header_Set ''Access-Control-Allow-Headers'' ''Content-Type, Authorization, X-Tenant-ID, X-Webhook-ID, X-Webhook-Signature, X-Idempotency-Key, Svix-Id, Svix-Timestamp, Svix-Signature''
     (Header_Set ''Access-Control-Allow-Methods'' ''GET, POST, PUT, DELETE, OPTIONS''
     (Header_Set ''Access-Control-Allow-Origin'' ''*'' h))))"

definition mock_serve ::
    "(string \<Rightarrow> duration option) \<Rightarrow> mock_env \<Rightarrow> http_request \<Rightarrow> http_writer \<Rightarrow> mock_server \<Rightarrow> served \<times> mock_server" where
  "mock_serve parse_duration me r w s =
     (let w1 = w\<lparr>w_Header := mock_cors_header (w_Header w)\<rparr> in
      if rq_Method r = ''OPTIONS'' then (Response (w1\<lparr>w_Code := 204\<rparr>), s)
      else mock_mux parse_duration me r w1 s)"

text \<open>The port: the flag unless it is empty or the default, then the environment variable.\<close>

definition trim_colon :: "string \<Rightarrow> string" where
  "trim_colon p = (case p of [] \<Rightarrow> [] | c # cs \<Rightarrow> if c = CHR '':'' then cs else p)"

definition getPort :: "string \<Rightarrow> string \<Rightarrow> string" where
  "getPort flagPort envPort =
     (if flagPort \<noteq> '''' \<and> flagPort \<noteq> ''9090'' then trim_colon flagPort
      else if envPort \<noteq> '''' then trim_colon envPort
      else trim_colon flagPort)"

end
