(* ===== verification/MockRuns.thy ===== *)
theory MockRuns
  imports MockReceiver WorkerRuns
begin

text \<open>
  The mock receiver over any sequence of requests: what its log holds, which attempts its flaky
  endpoint accepts, and the delivery of an event to that endpoint by the worker's retry loop.
\<close>

section \<open>Effects of a request\<close>

definition routed :: "http_request \<Rightarrow> mock_handler option" where
  "routed r =
     (let p = url_path (rq_URL r) in
      if rq_Method r = ''OPTIONS'' \<or> (rq_Method r \<noteq> ''CONNECT'' \<and> cleanPath p \<noteq> p) then None
      else mock_route_for p)"

definition is_webhook :: "mock_handler option \<Rightarrow> bool" where
  "is_webhook h \<longleftrightarrow> h \<in> {Some WebhookSuccess, Some WebhookFlaky, Some WebhookPoison, Some WebhookSlow}"

definition request_key :: "http_request \<Rightarrow> string" where
  "request_key r = header_or (rq_Header r) ''X-Webhook-ID'' ''Svix-Id''"

definition flaky_hit :: "mock_env \<Rightarrow> http_request \<Rightarrow> bool" where
  "flaky_hit me r \<longleftrightarrow> routed r = Some WebhookFlaky \<and> mv_read me = None"

lemma captureRequest_flaky [simp]: "mo_flakyState (snd (captureRequest me r s)) = mo_flakyState s"
  by (simp add: captureRequest_def split: option.splits)

lemma mock_serve_routed:
  "mock_serve pd me r w s =
     (case routed r of
        Some h \<Rightarrow> (case mock_call pd h me r (w\<lparr>w_Header := mock_cors_header (w_Header w)\<rparr>) s of (w1, s1) \<Rightarrow> (Response w1, s1))
      | None \<Rightarrow> (fst (mock_serve pd me r w s), s))"
  by (auto simp: mock_serve_def mock_mux_def routed_def Let_def split: option.splits)

lemma mock_call_buffer:
  "mo_buffer (snd (mock_call pd h me r w s)) =
     (if h = InspectClear then rb_Clear (mo_buffer s)
      else if is_webhook (Some h) \<and> mv_read me = None then rb_Add (captured_request me r) (mo_buffer s)
      else mo_buffer s)"
  by (cases h; cases "mv_read me")
    (simp_all add: mock_call_def is_webhook_def handleWebhookSuccess_def handleWebhookFlaky_def handleWebhookPoison_def
      handleWebhookSlow_def handleInspectClear_def captureRequest_def case_prod_unfold Let_def)

lemma mock_call_flaky:
  "mo_flakyState (snd (mock_call pd h me r w s)) =
     (if h = WebhookFlaky \<and> mv_read me = None then snd (NextAttempt (request_key r) (mo_flakyState s))
      else mo_flakyState s)"
  by (cases h; cases "mv_read me")
    (simp_all add: mock_call_def request_key_def handleWebhookSuccess_def handleWebhookFlaky_def handleWebhookPoison_def
      handleWebhookSlow_def handleInspectClear_def captureRequest_def case_prod_unfold Let_def)

type_synonym mock_call_args = "mock_env \<times> http_request \<times> http_writer"

definition mock_run :: "(string \<Rightarrow> duration option) \<Rightarrow> mock_call_args list \<Rightarrow> mock_server \<Rightarrow> mock_server" where
  "mock_run pd qs s = fold (\<lambda>(me, r, w) s. snd (mock_serve pd me r w s)) qs s"

lemma mock_run_Nil [simp]: "mock_run pd [] s = s"
  by (simp add: mock_run_def)

lemma mock_run_snoc [simp]: "mock_run pd (qs @ [(me, r, w)]) s = snd (mock_serve pd me r w (mock_run pd qs s))"
  by (simp add: mock_run_def)

lemma mock_serve_buffer:
  "mo_buffer (snd (mock_serve pd me r w s)) =
     (if routed r = Some InspectClear then rb_Clear (mo_buffer s)
      else if is_webhook (routed r) \<and> mv_read me = None then rb_Add (captured_request me r) (mo_buffer s)
      else mo_buffer s)"
proof (cases "routed r")
  case None
  then show ?thesis by (subst mock_serve_routed) (simp add: is_webhook_def)
next
  case (Some h)
  then show ?thesis by (subst mock_serve_routed) (simp add: mock_call_buffer case_prod_unfold)
qed

lemma mock_serve_flaky:
  "mo_flakyState (snd (mock_serve pd me r w s)) =
     (if flaky_hit me r then snd (NextAttempt (request_key r) (mo_flakyState s)) else mo_flakyState s)"
proof (cases "routed r")
  case None
  then show ?thesis by (subst mock_serve_routed) (simp add: flaky_hit_def)
next
  case (Some h)
  then show ?thesis by (subst mock_serve_routed) (simp add: flaky_hit_def mock_call_flaky case_prod_unfold)
qed

section \<open>The log\<close>

text \<open>The requests captured since the log was last cleared.\<close>

definition logged_step :: "mock_call_args \<Rightarrow> CapturedRequest list \<Rightarrow> CapturedRequest list" where
  "logged_step q xs =
     (case q of (me, r, w) \<Rightarrow>
        if routed r = Some InspectClear then []
        else if is_webhook (routed r) \<and> mv_read me = None then xs @ [captured_request me r]
        else xs)"

definition logged :: "mock_call_args list \<Rightarrow> CapturedRequest list" where
  "logged qs = fold logged_step qs []"

definition last_n :: "nat \<Rightarrow> 'a list \<Rightarrow> 'a list" where
  "last_n n xs = drop (length xs - n) xs"

lemma last_n_snoc:
  assumes "0 < n"
  shows "last_n n (xs @ [x]) = (if n \<le> length (last_n n xs) then tl (last_n n xs) else last_n n xs) @ [x]"
  using assms by (auto simp: last_n_def tl_drop Suc_diff_le simp flip: drop_Suc)

text \<open>C38: the log of the mock receiver holds exactly the last \<open>capacity\<close> requests that were captured since it was
  last cleared, in the order in which they came, over any sequence of requests.\<close>

theorem mock_log_exact:
  "rb_GetAll (mo_buffer (mock_run pd qs (NewMockServerWithCapacity c))) =
     last_n (if c \<le> 0 then 50 else nat c) (logged qs)"
proof -
  let ?n = "if c \<le> 0 then 50 else nat c"
  have "rb_entries (mo_buffer (mock_run pd qs (NewMockServerWithCapacity c))) = last_n ?n (logged qs) \<and>
      rb_capacity (mo_buffer (mock_run pd qs (NewMockServerWithCapacity c))) = int ?n"
  proof (induction qs rule: rev_induct)
    case Nil
    then show ?case by (simp add: logged_def last_n_def NewMockServerWithCapacity_def NewRingBuffer_def)
  next
    case (snoc q qs)
    obtain me r w where q: "q = (me, r, w)" by (cases q)
    let ?b = "mo_buffer (mock_run pd qs (NewMockServerWithCapacity c))"
    have n: "0 < ?n" by simp
    have cap: "rb_capacity ?b \<le> int (length (rb_entries ?b)) \<longleftrightarrow> ?n \<le> length (last_n ?n (logged qs))"
      using snoc.IH by (simp only: zle_int)
    have l: "logged (qs @ [q]) = logged_step q (logged qs)" by (simp add: logged_def)
    show ?case
      unfolding l unfolding q mock_run_snoc mock_serve_buffer logged_step_def
      using snoc.IH cap last_n_snoc [OF n, of "logged qs" "captured_request me r"]
      by (auto simp: rb_Clear_def rb_Add_def last_n_def [of _ "[]"])
  qed
  then show ?thesis by (simp add: rb_GetAll_def)
qed

section \<open>The flaky endpoint\<close>

definition hits :: "string \<Rightarrow> mock_call_args list \<Rightarrow> nat" where
  "hits key qs = length (filter (\<lambda>(me, r, w). flaky_hit me r \<and> request_key r = key) qs)"

definition counter :: "string \<Rightarrow> flaky_state \<Rightarrow> int" where
  "counter key fs =
     (if key = '''' then fs_global fs else case map_of (fs_attempts fs) key of None \<Rightarrow> 0 | Some n \<Rightarrow> n)"

lemma NextAttempt_counter:
  "fst (NextAttempt key fs) = wrap64 (counter key fs + 1)"
  "counter k (snd (NextAttempt key fs)) = (if k = key then wrap64 (counter key fs + 1) else counter k fs)"
  by (auto simp: NextAttempt_def counter_def Let_def)

lemma hits_le: "hits key qs \<le> length qs"
  by (simp add: hits_def)

lemma counter_hits:
  assumes "length qs < 2 ^ 62"
  shows "counter key (mo_flakyState (mock_run pd qs (NewMockServerWithCapacity c))) = int (hits key qs)"
  using assms
proof (induction qs rule: rev_induct)
  case Nil
  then show ?case by (simp add: hits_def counter_def NewMockServerWithCapacity_def NewFlakyState_def)
next
  case (snoc q qs)
  obtain me r w where q: "q = (me, r, w)" by (cases q)
  have "int64_ok (int (hits key qs) + 1)" for key
    using hits_le [of key qs] snoc.prems by (simp add: int64_ok_def)
  then show ?case
    using snoc by (auto simp: q mock_serve_flaky NextAttempt_counter hits_def)
qed

text \<open>The status a flaky request is answered with.\<close>

lemma flaky_code:
  assumes "flaky_hit me r" "length qs < 2 ^ 62"
    and "mock_serve pd me r w (mock_run pd qs (NewMockServerWithCapacity c)) = (res, s')"
  shows "\<exists>w'. res = Response w' \<and> w_Code w' = (if (hits (request_key r) qs + 1) mod 3 = 0 then 200 else 500)"
proof -
  let ?s = "mock_run pd qs (NewMockServerWithCapacity c)" and ?h = "hits (request_key r) qs"
  have h: "?h < 2 ^ 62" using hits_le [of "request_key r" qs] assms(2) by linarith
  then have "int64_ok (int ?h + 1)" by (simp add: int64_ok_def)
  then have n: "fst (NextAttempt (request_key r) (mo_flakyState ?s)) = int ?h + 1"
    by (simp add: NextAttempt_counter counter_hits [OF assms(2)])
  have rem: "go_rem (int ?h + 1) 3 = int ((?h + 1) mod 3)"
    by (simp add: go_rem_def go_quot_def minus_div_mult_eq_mod zmod_int add.commute)
  show ?thesis
    using assms(1,3) n rem
    by (subst (asm) mock_serve_routed)
      (auto simp: flaky_hit_def mock_call_def handleWebhookFlaky_def captureRequest_def request_key_def writeJSON_def
        case_prod_unfold Let_def split: if_splits)
qed

text \<open>The flaky endpoint accepts exactly every third attempt of a webhook: whatever other requests the
  receiver served in between, other webhooks and clearings of the log included, a request with the
  identifier of a webhook is answered 200 when its number among the requests with that identifier
  is a multiple of three, and 500 otherwise.\<close>

theorem flaky_every_third:
  assumes "routed r = Some WebhookFlaky" "mv_read me = None" "length qs < 2 ^ 62"
    and "mock_serve pd me r w (mock_run pd qs (NewMockServerWithCapacity c)) = (res, s')"
  shows "\<exists>w'. res = Response w' \<and>
     (w_Code w' = 200 \<longleftrightarrow> 3 dvd hits (request_key r) (qs @ [(me, r, w)])) \<and>
     (w_Code w' = 500 \<longleftrightarrow> \<not> 3 dvd hits (request_key r) (qs @ [(me, r, w)]))"
proof -
  have hit: "flaky_hit me r" using assms(1,2) by (simp add: flaky_hit_def)
  then have "hits (request_key r) (qs @ [(me, r, w)]) = hits (request_key r) qs + 1" by (simp add: hits_def)
  then show ?thesis using flaky_code [OF hit assms(3,4)] by (auto simp: dvd_eq_mod_eq_0)
qed

definition mock_env0 :: mock_env where
  "mock_env0 = \<lparr>mv_read = None, mv_uuid = ''u'', mv_now = 1, mv_reply = 1, mv_timer = True\<rparr>"

definition mock_writer :: http_writer where
  "mock_writer = \<lparr>w_Header = [], w_Code = 200, w_Body = []\<rparr>"

definition flaky_request :: "string \<Rightarrow> http_request" where
  "flaky_request key =
     \<lparr>rq_Method = ''POST'', rq_URL = ''/webhook/flaky'', rq_Header = [(''X-Webhook-Id'', [key])], rq_Body = ''{}''\<rparr>"

lemma mock_env0_read [simp]: "mv_read mock_env0 = None"
  by (simp add: mock_env0_def)

lemma route_flaky: "cleanPath ''/webhook/flaky'' = ''/webhook/flaky''" "mock_route_for ''/webhook/flaky'' = Some WebhookFlaky"
  by code_simp+

lemma canonical_webhook_id:
  "CanonicalHeaderKey ''X-Webhook-ID'' = ''X-Webhook-Id''" "CanonicalHeaderKey ''X-Webhook-Timestamp'' = ''X-Webhook-Timestamp''"
  "CanonicalHeaderKey ''X-Webhook-Signature'' = ''X-Webhook-Signature''"
  by code_simp+

lemma flaky_request_routed [simp]: "routed (flaky_request key) = Some WebhookFlaky"
  by (simp add: routed_def flaky_request_def url_path_def route_flaky)

lemma flaky_request_key [simp]: "key \<noteq> '''' \<Longrightarrow> request_key (flaky_request key) = key"
  by (simp add: request_key_def header_or_def flaky_request_def Header_Get_def canonical_webhook_id)

theorem flaky_every_third_witness:
  "\<exists>w'. fst (mock_serve (\<lambda>_. None) mock_env0 (flaky_request ''a'') mock_writer
       (mock_run (\<lambda>_. None) [(mock_env0, flaky_request ''a'', mock_writer), (mock_env0, flaky_request ''b'', mock_writer),
          (mock_env0, flaky_request ''a'', mock_writer)] NewMockServer)) = Response w' \<and> w_Code w' = 200"
proof -
  let ?qs = "[(mock_env0, flaky_request ''a'', mock_writer), (mock_env0, flaky_request ''b'', mock_writer),
          (mock_env0, flaky_request ''a'', mock_writer)]"
  have "hits ''a'' (?qs @ [(mock_env0, flaky_request ''a'', mock_writer)]) = 3"
    by (simp add: hits_def flaky_hit_def)
  then show ?thesis
    using flaky_every_third [of "flaky_request ''a''" mock_env0 ?qs "\<lambda>_. None" mock_writer 50, OF _ _ _ surjective_pairing]
    by (auto simp: NewMockServer_def)
qed

section \<open>Delivery to the flaky endpoint\<close>

text \<open>The request of a dispatch as the server of the URL sees it, and the answer as the client sees it.\<close>

definition at_flaky :: "http_request \<Rightarrow> http_request" where
  "at_flaky rq = rq\<lparr>rq_URL := ''/webhook/flaky''\<rparr>"

definition client_outcome :: "served \<Rightarrow> http_response option \<times> goerr option" where
  "client_outcome res =
     (case res of
        Response w \<Rightarrow> (Some \<lparr>rs_StatusCode = w_Code w, rs_Body = Some (concat (w_Body w))\<rparr>, None)
      | _ \<Rightarrow> (None, Some (ErrorsNew ''not answered by a handler'')))"

lemma attempt_status_code:
  assumes "de_do de (dispatch_request (time_Unix (de_ts de)) endpoint event) = (Some \<lparr>rs_StatusCode = st, rs_Body = b\<rparr>, None)"
  shows "at_Status (attempt_of policy de endpoint event n) = fst (classify policy n st None)"
  using assms by (simp add: attempt_of_def outcome_code_def Let_def)

lemma Dispatch_makes_attempt:
  assumes "de_new_request de (ep_URL endpoint) = None" "1 \<le> n"
  shows "\<exists>err s1. Dispatch d de (Some endpoint) (Some event) n s = ((Some (attempt_of (dp_policy d) de endpoint event n), err), s1)"
proof -
  obtain so r1 where "dispatch_store (dp_repo d) de event (attempt_of (dp_policy d) de endpoint event n) (ds_repo s) = (so, r1)"
    by fastforce
  then show ?thesis using assms by (cases so) (simp_all add: Dispatch_attempt Let_def)
qed

lemma retry_loop_again:
  assumes "ae_check (aes n) = None" "ae_wait (aes n) = None" "de_new_request (ae_dispatch (aes n)) (ep_URL endpoint) = None"
    and "at_Status (attempt_of (dp_policy d) (ae_dispatch (aes n)) endpoint event n) = DeliveryStatusRetrying"
    and "1 \<le> n" "n < bp_MaxRetries (dp_policy d)" "retry_loop d endpoint event aes n s = (ret, trace, s')"
  shows "\<exists>s1 err w rest. retry_loop d endpoint event aes (n + 1) s1 = (ret, rest, s') \<and>
    trace = StepDispatch (Some (attempt_of (dp_policy d) (ae_dispatch (aes n)) endpoint event n)) err # StepWait w # rest"
proof -
  let ?a = "attempt_of (dp_policy d) (ae_dispatch (aes n)) endpoint event n"
  obtain err s1 where D: "Dispatch d (ae_dispatch (aes n)) (Some endpoint) (Some event) n s = ((Some ?a, err), s1)"
    using Dispatch_makes_attempt [of "ae_dispatch (aes n)" endpoint n d event s] assms(3,5) by blast
  obtain rest s2 ret2 where R: "retry_loop d endpoint event aes (n + 1) s1 = (ret2, rest, s2)" by (metis prod.exhaust)
  show ?thesis
    using assms(7) D R assms(1,2,4,6) by (subst (asm) retry_loop.simps) (auto simp: Let_def)
qed

lemma retry_loop_last:
  assumes "ae_check (aes n) = None" "de_new_request (ae_dispatch (aes n)) (ep_URL endpoint) = None"
    and "at_Status (attempt_of (dp_policy d) (ae_dispatch (aes n)) endpoint event n) \<noteq> DeliveryStatusRetrying"
    and "1 \<le> n" "retry_loop d endpoint event aes n s = (ret, trace, s')"
  shows "\<exists>err. \<not> ret \<and> trace = [StepDispatch (Some (attempt_of (dp_policy d) (ae_dispatch (aes n)) endpoint event n)) err]"
proof -
  let ?a = "attempt_of (dp_policy d) (ae_dispatch (aes n)) endpoint event n"
  obtain err s1 where D: "Dispatch d (ae_dispatch (aes n)) (Some endpoint) (Some event) n s = ((Some ?a, err), s1)"
    using Dispatch_makes_attempt [of "ae_dispatch (aes n)" endpoint n d event s] assms(2,4) by blast
  show ?thesis using assms(5) D assms(1,3) by (subst (asm) retry_loop.simps) auto
qed

text \<open>An event is delivered to the flaky endpoint in exactly three attempts: the retry loop with at least three
  attempts makes two that are retried and a third that succeeds, whatever requests of other webhooks
  the receiver serves in between, and with every attempt recorded the event is DELIVERED.\<close>

theorem flaky_delivered_on_third:
  assumes "3 \<le> bp_MaxRetries (dp_policy d)" "3 dvd hits (ev_ID event) (before 1)"
    and "hits (ev_ID event) (before 2) = hits (ev_ID event) (before 1) + 1"
    and "hits (ev_ID event) (before 3) = hits (ev_ID event) (before 1) + 2"
    and "\<forall>n \<in> {1, 2, 3}. length (before n) < 2 ^ 62"
    and "ev_ID event \<noteq> ''''"
    and "\<And>n. ae_check (aes n) = None \<and> ae_wait (aes n) = None \<and> de_new_request (ae_dispatch (aes n)) (ep_URL endpoint) = None"
    and "\<And>n rq. de_do (ae_dispatch (aes n)) rq =
           client_outcome (fst (mock_serve pd mock_env0 (at_flaky rq) mock_writer (mock_run pd (before n) NewMockServer)))"
    and "retry_loop d endpoint event aes 1 s = (ret, trace, s')"
  shows "\<not> ret \<and>
     map at_Status (attempts_of trace) = [DeliveryStatusRetrying, DeliveryStatusRetrying, DeliveryStatusSuccess] \<and>
     (dp_repo d = Some memory_repository \<longrightarrow> (\<forall>k. live (de_update (ae_dispatch (aes k)))) \<longrightarrow> all_recorded trace \<longrightarrow>
        (\<forall>v. mr_evs (ds_repo s) (ev_ID event) = Some v \<longrightarrow>
           mr_evs (ds_repo s') (ev_ID event) = Some (v\<lparr>ev_Status := EventStatusDelivered\<rparr>)))"
proof -
  let ?rq = "\<lambda>n. dispatch_request (time_Unix (de_ts (ae_dispatch (aes n)))) endpoint event"
  let ?att = "\<lambda>n. attempt_of (dp_policy d) (ae_dispatch (aes n)) endpoint event n"
  have key: "request_key (at_flaky (?rq n)) = ev_ID event" for n
    using assms(6) by (simp add: request_key_def header_or_def at_flaky_def dispatch_request_def canonical_webhook_id Let_def)
  have hit: "flaky_hit mock_env0 (at_flaky (?rq n))" for n
    by (simp add: flaky_hit_def routed_def at_flaky_def dispatch_request_def url_path_def route_flaky Let_def)
  have out: "\<exists>b. de_do (ae_dispatch (aes n)) (?rq n) =
      (Some \<lparr>rs_StatusCode = (if (hits (ev_ID event) (before n) + 1) mod 3 = 0 then 200 else 500), rs_Body = b\<rparr>, None)" if "n \<in> {1, 2, 3}" for n
    using flaky_code [OF hit [of n] bspec [OF assms(5) that] surjective_pairing, where pd = pd and w = mock_writer and c = 50]
    by (auto simp: assms(8) key client_outcome_def NewMockServer_def)
  obtain m where m: "hits (ev_ID event) (before 1) = 3 * m" using assms(2) by (auto elim: dvdE)
  have h1: "(hits (ev_ID event) (before 1) + 1) mod 3 = 1" unfolding m by presburger
  have h2: "(hits (ev_ID event) (before 2) + 1) mod 3 = 2" unfolding assms(3) m by presburger
  have h3: "(hits (ev_ID event) (before 3) + 1) mod 3 = 0" unfolding assms(4) m by presburger
  have st1: "at_Status (?att 1) = DeliveryStatusRetrying"
    using out [of 1] h1 assms(1) by (auto simp: attempt_status_code classify_status)
  have st2: "at_Status (?att 2) = DeliveryStatusRetrying"
    using out [of 2] h2 assms(1) by (auto simp: attempt_status_code classify_status)
  have st3: "at_Status (?att 3) = DeliveryStatusSuccess"
    using out [of 3] h3 by (auto simp: attempt_status_code classify_status)
  obtain s1 e1 w1 t1 where r1: "retry_loop d endpoint event aes 2 s1 = (ret, t1, s')"
    "trace = StepDispatch (Some (?att 1)) e1 # StepWait w1 # t1"
    using retry_loop_again [OF _ _ _ st1 _ _ assms(9)] assms(1,7) by fastforce
  obtain s2 e2 w2 t2 where r2: "retry_loop d endpoint event aes 3 s2 = (ret, t2, s')"
    "t1 = StepDispatch (Some (?att 2)) e2 # StepWait w2 # t2"
    using retry_loop_again [OF _ _ _ st2 _ _ r1(1)] assms(1,7) by fastforce
  obtain e3 where r3: "\<not> ret" "t2 = [StepDispatch (Some (?att 3)) e3]"
    using retry_loop_last [OF _ _ _ _ r2(1)] assms(7) st3 by fastforce
  have as: "map at_Status (attempts_of trace) = [DeliveryStatusRetrying, DeliveryStatusRetrying, DeliveryStatusSuccess]"
    using r1(2) r2(2) r3(2) st1 st2 st3 by simp
  have "final_status (attempts_of trace) st = EventStatusDelivered" for st
    using r1(2) r2(2) r3(2) st1 st2 st3 by (simp add: final_status_def)
  then show ?thesis
    using as r3(1) retry_loop_status [OF assms(9)] by auto
qed

definition flaky_before :: "int \<Rightarrow> mock_call_args list" where
  "flaky_before n = replicate (nat (n - 1)) (mock_env0, flaky_request ''ev1'', mock_writer)"

definition flaky_attempt :: "int \<Rightarrow> attempt_env" where
  "flaky_attempt n =
     \<lparr>ae_check = None,
      ae_dispatch = (delivery_env (None, None))\<lparr>de_do := (\<lambda>rq. client_outcome (fst (mock_serve (\<lambda>_. None) mock_env0 (at_flaky rq)
        mock_writer (mock_run (\<lambda>_. None) (flaky_before n) NewMockServer))))\<rparr>,
      ae_rand = (\<lambda>_. 0), ae_wait = None\<rparr>"

theorem flaky_delivered_on_third_witness:
  "\<exists>ret trace s'. retry_loop dispatcher0 endpoint0 event0 flaky_attempt 1 (delivery_state repo1) = (ret, trace, s') \<and>
     map at_Status (attempts_of trace) = [DeliveryStatusRetrying, DeliveryStatusRetrying, DeliveryStatusSuccess]"
proof -
  obtain ret trace s' where r: "retry_loop dispatcher0 endpoint0 event0 flaky_attempt 1 (delivery_state repo1) = (ret, trace, s')"
    by (metis prod.exhaust)
  have h: "hits ''ev1'' (flaky_before n) = nat (n - 1)" for n
    by (simp add: hits_def flaky_before_def flaky_hit_def)
  have id: "ev_ID event0 = ''ev1''" by (simp add: event0_def)
  have "map at_Status (attempts_of trace) = [DeliveryStatusRetrying, DeliveryStatusRetrying, DeliveryStatusSuccess]"
    by (rule conjunct1 [OF conjunct2 [OF flaky_delivered_on_third [where before = flaky_before and pd = "\<lambda>_. None", OF _ _ _ _ _ _ _ _ r]]])
      (simp_all add: id h, simp_all add: flaky_before_def flaky_attempt_def delivery_env_def dispatcher0_def NewDispatcher_def
        WithAttemptCallback_def DefaultBackoffPolicy_def)
  then show ?thesis using r by (intro exI conjI)
qed

end
