(* ===== verification/Sdk.thy ===== *)
theory Sdk
  imports Router Go_Url Go_Time Signature
begin

text \<open>
  The Go client of \<open>sdk/go/webhookclient\<close>: \<open>client.go\<close> and \<open>types.go\<close>. A call builds one request, hands
  it to the HTTP client, which is a parameter, and decodes the reply. The timeouts of HTTP clients
  live in a store, because \<open>WithTimeout\<close> writes through the pointer the caller gave. The URL parser and
  the general parser of times are parameters; the text of JSON errors is not modelled.
\<close>

section \<open>Clients and options\<close>

type_synonym timeouts = "nat \<Rightarrow> duration"

record Client =
  cl_baseURL :: string
  cl_tenantID :: string
  cl_apiKey :: string
  cl_httpClient :: "nat option"
  cl_timeout :: duration

type_synonym client_option = "Client \<times> timeouts \<Rightarrow> Client \<times> timeouts"

definition WithAPIKey :: "string \<Rightarrow> client_option" where
  "WithAPIKey apiKey = (\<lambda>(c, ts). (c\<lparr>cl_apiKey := apiKey\<rparr>, ts))"

definition WithHTTPClient :: "nat option \<Rightarrow> client_option" where
  "WithHTTPClient client = (\<lambda>(c, ts). (if client \<noteq> None then c\<lparr>cl_httpClient := client\<rparr> else c, ts))"

definition WithTimeout :: "duration \<Rightarrow> client_option" where
  "WithTimeout d =
     (\<lambda>(c, ts). case cl_httpClient c of
        Some p \<Rightarrow> (c, ts(p := d))
      | None \<Rightarrow> (c\<lparr>cl_timeout := d\<rparr>, ts))"

definition strings_TrimRight :: "string \<Rightarrow> char \<Rightarrow> string" where
  "strings_TrimRight s x = rev (dropWhile (\<lambda>c. c = x) (rev s))"

text \<open>\<open>fresh\<close> is the address of the HTTP client that is made when none was given.\<close>

definition New :: "nat \<Rightarrow> string \<Rightarrow> string \<Rightarrow> client_option list \<Rightarrow> timeouts \<Rightarrow> Client \<times> timeouts" where
  "New fresh baseURL tenantID opts ts =
     (case fold (\<lambda>opt c. opt c) opts
             (\<lparr>cl_baseURL = strings_TrimRight baseURL CHR ''/'', cl_tenantID = tenantID, cl_apiKey = '''',
               cl_httpClient = None, cl_timeout = 30 * Second\<rparr>, ts) of
        (c, ts1) \<Rightarrow>
          if cl_httpClient c = None then (c\<lparr>cl_httpClient := Some fresh\<rparr>, ts1(fresh := cl_timeout c))
          else (c, ts1))"

definition NewClient :: "nat \<Rightarrow> string \<Rightarrow> string \<Rightarrow> client_option list \<Rightarrow> timeouts \<Rightarrow> Client \<times> timeouts" where
  "NewClient = New"

record publishOptions =
  po_idempotencyKey :: string

type_synonym publish_option = "publishOptions \<Rightarrow> publishOptions"

definition WithIdempotencyKey :: "string \<Rightarrow> publish_option" where
  "WithIdempotencyKey key = (\<lambda>po. po\<lparr>po_idempotencyKey := key\<rparr>)"

section \<open>Results\<close>

record PublishResult =
  pr_ID :: string
  pr_Status :: string
  pr_CreatedAt :: gotime

record DLQEvent =
  dq_ID :: string
  dq_TenantID :: string
  dq_EventType :: string
  dq_IdempotencyKey :: string
  dq_Payload :: string
  dq_Status :: string
  dq_CreatedAt :: gotime
  dq_UpdatedAt :: "gotime option"

record ReplayResult =
  rr_Status :: string
  rr_ReplayedCount :: int

record APIError =
  ae_StatusCode :: int
  ae_Message :: string
  ae_Body :: string

datatype sdk_error = GoError goerr | Api APIError

definition APIError_Error :: "APIError \<Rightarrow> string" where
  "APIError_Error e =
     (if ae_Message e \<noteq> ''''
      then ''webhook API error (status '' @ show_int (ae_StatusCode e) @ ''): '' @ ae_Message e
      else ''webhook API error (status '' @ show_int (ae_StatusCode e) @ '')'')"

section \<open>Decoding\<close>

definition store_publish :: "(string \<Rightarrow> gotime option) \<Rightarrow> string \<Rightarrow> string \<Rightarrow> PublishResult \<Rightarrow> PublishResult option" where
  "store_publish lenient k v r =
     (if is_field ''id'' k then map_option (\<lambda>x. r\<lparr>pr_ID := x\<rparr>) (decode_string v (pr_ID r))
      else if is_field ''status'' k then map_option (\<lambda>x. r\<lparr>pr_Status := x\<rparr>) (decode_string v (pr_Status r))
      else if is_field ''created_at'' k
      then map_option (\<lambda>x. r\<lparr>pr_CreatedAt := x\<rparr>) (decode_time lenient v (pr_CreatedAt r))
      else Some r)"

definition store_dlq :: "(string \<Rightarrow> gotime option) \<Rightarrow> string \<Rightarrow> string \<Rightarrow> DLQEvent \<Rightarrow> DLQEvent option" where
  "store_dlq lenient k v r =
     (if is_field ''id'' k then map_option (\<lambda>x. r\<lparr>dq_ID := x\<rparr>) (decode_string v (dq_ID r))
      else if is_field ''tenant_id'' k then map_option (\<lambda>x. r\<lparr>dq_TenantID := x\<rparr>) (decode_string v (dq_TenantID r))
      else if is_field ''event_type'' k then map_option (\<lambda>x. r\<lparr>dq_EventType := x\<rparr>) (decode_string v (dq_EventType r))
      else if is_field ''idempotency_key'' k
      then map_option (\<lambda>x. r\<lparr>dq_IdempotencyKey := x\<rparr>) (decode_string v (dq_IdempotencyKey r))
      else if is_field ''payload'' k then Some (r\<lparr>dq_Payload := v\<rparr>)
      else if is_field ''status'' k then map_option (\<lambda>x. r\<lparr>dq_Status := x\<rparr>) (decode_string v (dq_Status r))
      else if is_field ''created_at'' k
      then map_option (\<lambda>x. r\<lparr>dq_CreatedAt := x\<rparr>) (decode_time lenient v (dq_CreatedAt r))
      else if is_field ''updated_at'' k
      then (if v = ''null'' then Some (r\<lparr>dq_UpdatedAt := None\<rparr>)
            else map_option (\<lambda>x. r\<lparr>dq_UpdatedAt := Some x\<rparr>)
              (decode_time lenient v (case dq_UpdatedAt r of None \<Rightarrow> 0 | Some t \<Rightarrow> t)))
      else Some r)"

definition store_replay_result :: "string \<Rightarrow> string \<Rightarrow> ReplayResult \<Rightarrow> ReplayResult option" where
  "store_replay_result k v r =
     (if is_field ''status'' k then map_option (\<lambda>x. r\<lparr>rr_Status := x\<rparr>) (decode_string v (rr_Status r))
      else if is_field ''replayed_count'' k
      then map_option (\<lambda>x. r\<lparr>rr_ReplayedCount := x\<rparr>) (decode_int v (rr_ReplayedCount r))
      else Some r)"

definition store_error :: "string \<Rightarrow> string \<Rightarrow> string \<Rightarrow> string option" where
  "store_error k v msg = (if is_field ''error'' k then decode_string v msg else Some msg)"

definition parseAPIError :: "int \<Rightarrow> string \<Rightarrow> APIError" where
  "parseAPIError statusCode body =
     \<lparr>ae_StatusCode = statusCode,
      ae_Message =
        (case Unmarshal_struct store_error '''' body of
           Some msg \<Rightarrow> if msg \<noteq> '''' then msg else if 0 < length body then TrimSpace body else ''''
         | None \<Rightarrow> if 0 < length body then TrimSpace body else ''''),
      ae_Body = body\<rparr>"

section \<open>Calls\<close>

text \<open>
  A parsed URL: what stands before its query, the query, whether an empty one is marked, and its
  fragment with the mark.
\<close>

record parsed_url =
  pu_head :: string
  pu_RawQuery :: string
  pu_ForceQuery :: bool
  pu_fragment :: string

definition url_String :: "parsed_url \<Rightarrow> string" where
  "url_String u = pu_head u @ (if pu_ForceQuery u \<or> pu_RawQuery u \<noteq> '''' then CHR ''?'' # pu_RawQuery u else '''') @ pu_fragment u"

text \<open>
  What a call meets: the check of the request constructor, the URL parser, the reply of the HTTP
  client (an error, or a status and what reading the body yields).
\<close>

record sdk_env =
  se_new_request :: "string \<Rightarrow> goerr option"
  se_parse :: "string \<Rightarrow> goerr + parsed_url"
  se_lenient :: "string \<Rightarrow> gotime option"
  se_do :: "http_request \<Rightarrow> goerr + int \<times> (goerr + string)"

definition auth_header :: "Client \<Rightarrow> http_header \<Rightarrow> http_header" where
  "auth_header c h = (if cl_apiKey c \<noteq> '''' then Header_Set ''Authorization'' (''Bearer '' @ cl_apiKey c) h else h)"

text \<open>What every call does with its request.\<close>

definition sdk_call :: "sdk_env \<Rightarrow> http_request \<Rightarrow> string \<Rightarrow> (string \<Rightarrow> 'a option) \<Rightarrow> sdk_error + 'a" where
  "sdk_call se rq decodeMsg decode =
     (case se_do se rq of
        Inl err \<Rightarrow> Inl (GoError err)
      | Inr (status, Inl err) \<Rightarrow> Inl (GoError (Errorf ''failed to read response body'' err))
      | Inr (status, Inr respBody) \<Rightarrow>
          if status < 200 \<or> status \<ge> 300 then Inl (Api (parseAPIError status respBody))
          else
            (case decode respBody of
               None \<Rightarrow> Inl (GoError (Errorf decodeMsg json_error))
             | Some r \<Rightarrow> Inr r))"

text \<open>
  A payload is a byte slice, or a value of another type together with the document that
  \<open>json.Marshal\<close> makes of it. Bytes that are no valid JSON are marshalled as a byte slice.
\<close>

datatype payload = PayloadBytes "string option" | PayloadValue "json option"

definition payload_json :: "payload \<Rightarrow> json option" where
  "payload_json p =
     (case p of
        PayloadBytes None \<Rightarrow> Some JNull
      | PayloadBytes (Some b) \<Rightarrow> Some (if json_Valid b then JRaw b else JString (base64 b))
      | PayloadValue doc \<Rightarrow> doc)"

definition publish_header :: "Client \<Rightarrow> publishOptions \<Rightarrow> http_header" where
  "publish_header c po =
     (let h = auth_header c (Header_Set ''X-Tenant-ID'' (cl_tenantID c) (Header_Set ''Content-Type'' ''application/json'' [])) in
      if po_idempotencyKey po \<noteq> '''' then Header_Set ''X-Idempotency-Key'' (po_idempotencyKey po) h else h)"

definition sdk_Publish ::
    "sdk_env \<Rightarrow> Client \<Rightarrow> string \<Rightarrow> payload \<Rightarrow> publish_option list \<Rightarrow> sdk_error + PublishResult" where
  "sdk_Publish se c eventType payload opts =
     (if eventType = '''' then Inl (GoError (ErrorsNew ''eventType is required''))
      else
        let po = fold (\<lambda>opt po. opt po) opts \<lparr>po_idempotencyKey = ''''\<rparr> in
        (case payload_json payload of
           None \<Rightarrow> Inl (GoError (Errorf ''failed to marshal publish payload'' json_error))
         | Some reqPayload \<Rightarrow>
             let bodyBytes = encode (JObject [(''event_type'', JString eventType), (''payload'', reqPayload)]);
                 url = cl_baseURL c @ ''/api/v1/events''
             in
             (case se_new_request se url of
                Some err \<Rightarrow> Inl (GoError (Errorf ''failed to create HTTP request'' err))
              | None \<Rightarrow>
                  sdk_call se \<lparr>rq_Method = ''POST'', rq_URL = url, rq_Header = publish_header c po, rq_Body = bodyBytes\<rparr>
                    ''failed to decode publish response''
                    (Unmarshal_struct (store_publish (se_lenient se)) \<lparr>pr_ID = '''', pr_Status = '''', pr_CreatedAt = 0\<rparr>))))"

definition list_url :: "parsed_url \<Rightarrow> int \<Rightarrow> int \<Rightarrow> parsed_url" where
  "list_url u limit offset =
     (let q = ParseQuery (pu_RawQuery u);
          q = (if limit > 0 then values_Set ''limit'' (show_int limit) q else q);
          q = (if offset > 0 then values_Set ''offset'' (show_int offset) q else q)
      in u\<lparr>pu_RawQuery := values_Encode q\<rparr>)"

definition sdk_ListDLQ :: "sdk_env \<Rightarrow> Client \<Rightarrow> int \<Rightarrow> int \<Rightarrow> sdk_error + DLQEvent list" where
  "sdk_ListDLQ se c limit offset =
     (case se_parse se (cl_baseURL c @ ''/api/v1/dlq'') of
        Inl err \<Rightarrow> Inl (GoError (Errorf ''invalid DLQ URL'' err))
      | Inr u \<Rightarrow>
          let url = url_String (list_url u limit offset) in
          (case se_new_request se url of
             Some err \<Rightarrow> Inl (GoError (Errorf ''failed to create HTTP request'' err))
           | None \<Rightarrow>
               sdk_call se
                 \<lparr>rq_Method = ''GET'', rq_URL = url,
                  rq_Header = auth_header c (Header_Set ''X-Tenant-ID'' (cl_tenantID c) (Header_Set ''Accept'' ''application/json'' [])),
                  rq_Body = ''''\<rparr>
                 ''failed to decode DLQ events''
                 (Unmarshal_slice (store_dlq (se_lenient se))
                   \<lparr>dq_ID = '''', dq_TenantID = '''', dq_EventType = '''', dq_IdempotencyKey = '''', dq_Payload = '''',
                    dq_Status = '''', dq_CreatedAt = 0, dq_UpdatedAt = None\<rparr>)))"

definition sdk_ReplayDLQ :: "sdk_env \<Rightarrow> Client \<Rightarrow> string list \<Rightarrow> sdk_error + ReplayResult" where
  "sdk_ReplayDLQ se c eventIDs =
     (if length eventIDs = 0 then Inl (GoError (ErrorsNew ''eventIDs cannot be empty''))
      else
        let bodyBytes = encode (JObject [(''event_ids'', JArray (map JString eventIDs))]);
            url = cl_baseURL c @ ''/api/v1/dlq/replay''
        in
        (case se_new_request se url of
           Some err \<Rightarrow> Inl (GoError (Errorf ''failed to create HTTP request'' err))
         | None \<Rightarrow>
             sdk_call se
               \<lparr>rq_Method = ''POST'', rq_URL = url,
                rq_Header = auth_header c (Header_Set ''X-Tenant-ID'' (cl_tenantID c) (Header_Set ''Content-Type'' ''application/json'' [])),
                rq_Body = bodyBytes\<rparr>
               ''failed to decode replay response''
               (Unmarshal_struct store_replay_result \<lparr>rr_Status = '''', rr_ReplayedCount = 0\<rparr>)))"

end
