(* ===== verification/SdkRuns.thy ===== *)
theory SdkRuns
  imports Sdk ApiRuns
begin

text \<open>
  The SDK against the API: its HTTP client hands every request to the router of the program, as the
  transport of \<open>client_test.go\<close> does in process. What \<open>Publish\<close> is given is what the repository
  stores and what comes back names it; what \<open>ListDLQ\<close> and \<open>ReplayDLQ\<close> return is what the
  repository holds and did.
\<close>

section \<open>The transport\<close>

definition reply_of :: "served \<Rightarrow> goerr + int \<times> (goerr + string)" where
  "reply_of res =
     (case res of
        Response w \<Rightarrow> Inr (w_Code w, Inr (concat (w_Body w)))
      | _ \<Rightarrow> Inl (ErrorsNew ''no response''))"

definition new_writer :: http_writer where
  "new_writer = \<lparr>w_Header = [], w_Code = 200, w_Body = []\<rparr>"

text \<open>The router, reached under a base URL.\<close>

definition served_at ::
    "string \<Rightarrow> (string \<Rightarrow> string option) \<Rightarrow> ('r, 'g, 'c, 'h) api_handler \<Rightarrow> serve_env \<Rightarrow>
       ('r, 'g, 'c, 'h) api_state \<Rightarrow> http_request \<Rightarrow> served \<times> ('r, 'g, 'c, 'h) api_state" where
  "served_at base uri h sv s rq = NewRouter uri h sv (rq\<lparr>rq_URL := url_path (drop (length base) (rq_URL rq))\<rparr>) new_writer s"

lemma served_at_route:
  assumes "rq_Method rq \<noteq> ''OPTIONS''" "rq_Method rq \<noteq> ''CONNECT''" "url_path (drop (length base) (rq_URL rq)) = p"
    and "cleanPath p = p" "route_for (rq_Method rq) p = Some route"
  shows "served_at base uri h sv s rq =
     call_handler uri h route sv (rq\<lparr>rq_URL := p\<rparr>) (new_writer\<lparr>w_Header := cors_header (Header_Get (rq_Header rq) ''Origin'') []\<rparr>) s"
  using assms by (simp add: served_at_def NewRouter_def corsMiddleware_def mux_serve_def new_writer_def)

text \<open>The request of a publish call.\<close>

definition publish_options :: "publish_option list \<Rightarrow> publishOptions" where
  "publish_options opts = fold (\<lambda>opt po. opt po) opts \<lparr>po_idempotencyKey = ''''\<rparr>"

definition publish_request :: "Client \<Rightarrow> string \<Rightarrow> json \<Rightarrow> publish_option list \<Rightarrow> http_request" where
  "publish_request c et doc opts =
     \<lparr>rq_Method = ''POST'', rq_URL = cl_baseURL c @ ''/api/v1/events'', rq_Header = publish_header c (publish_options opts),
      rq_Body = encode (JObject [(''event_type'', JString et), (''payload'', doc)])\<rparr>"

section \<open>What arrives\<close>

lemma publish_header_get:
  "Header_Get (publish_header c po) HeaderTenantID = cl_tenantID c"
  "Header_Get (publish_header c po) HeaderIdempotencyKey = po_idempotencyKey po"
proof -
  have k: "CanonicalHeaderKey ''X-Tenant-ID'' = ''X-Tenant-Id''" "CanonicalHeaderKey ''X-Idempotency-Key'' = ''X-Idempotency-Key''"
    "CanonicalHeaderKey ''Content-Type'' = ''Content-Type''" "CanonicalHeaderKey ''Authorization'' = ''Authorization''"
    by code_simp+
  show "Header_Get (publish_header c po) HeaderTenantID = cl_tenantID c"
    "Header_Get (publish_header c po) HeaderIdempotencyKey = po_idempotencyKey po"
    by (simp_all add: publish_header_def auth_header_def HeaderTenantID_def HeaderIdempotencyKey_def k Let_def)
      (simp add: Header_Get_def)
qed

lemma decode_published:
  assumes "fits (maxNestingDepth - 1) doc"
  shows "decode_ingest (encode (JObject [(''event_type'', JString et), (''payload'', doc)])) =
    Some \<lparr>ir_EventType = to_valid et, ir_Payload = encode doc\<rparr>"
proof -
  have "fits maxNestingDepth (JObject [(''event_type'', JString et), (''payload'', doc)])"
    using assms by (simp add: maxNestingDepth_def)
  from decode_struct_encode [OF this rep_Nil, of store_ingest] show ?thesis
    by (simp add: decode_ingest_def store_ingest_def del: encode.simps(6))
qed

text \<open>A creation that meets no other event is carried out.\<close>

lemma mr_create_new:
  assumes "live e" "mr_evs m (ev_ID v) = None" "\<not> IsZero (ev_CreatedAt v)"
    and "ev_IdempotencyKey v = '''' \<or> map_of (mr_idempotencyIndex m) (idempKey (ev_TenantID v) (ev_IdempotencyKey v)) = None"
  obtains ob' m' where "mr_CreateEventWithOutbox e v ob m = (Inr (v, ob'), m')" "mr_evs m' = (mr_evs m)(ev_ID v \<mapsto> v)"
proof -
  obtain r m' where c: "mr_CreateEventWithOutbox e v ob m = (r, m')" by fastforce
  have "\<exists>ob'. r = Inr (v, ob')" "mr_evs m' = (mr_evs m)(ev_ID v \<mapsto> v)"
    using assms c by (auto simp: mr_CreateEventWithOutbox_def Let_def split: if_splits)
  then show thesis using that c by blast
qed

section \<open>What comes back\<close>

lemma ascii_append: "to_valid s = s \<Longrightarrow> \<forall>c \<in> set p. code c < 128 \<Longrightarrow> to_valid (p @ s) = p @ s"
  by (induction p) (simp_all add: to_valid.simps [of "_ # _"])

lemma decode_publish_response:
  assumes "ingest_response v = Some bytes" "0 \<le> ev_CreatedAt v" "valid_utf8 (ev_ID v)" "ev_Status v = EventStatusPending"
  shows "Unmarshal_struct (store_publish lenient) r bytes =
     Some \<lparr>pr_ID = ev_ID v, pr_Status = EventStatus_string (ev_Status v), pr_CreatedAt = ev_CreatedAt v\<rparr>"
proof -
  obtain t where t: "time_json (ev_CreatedAt v) = Some t"
    and b: "bytes = encode (JObject [(''id'', JString (ev_ID v)), (''status'', JString (EventStatus_string (ev_Status v))), (''created_at'', JString t)])"
      (is "_ = encode (JObject ?kvs)")
    using assms(1) by (auto simp: ingest_response_def json_time_def)
  have f: "fits maxNestingDepth (JObject ?kvs)" by (simp add: maxNestingDepth_def)
  have st: "to_valid (EventStatus_string (ev_Status v)) = EventStatus_string (ev_Status v)"
    by (rule to_valid_ascii) (simp add: assms(4))
  have "json_Valid bytes" using json_Valid_text [OF encode_value_text [OF f] order_refl, of "[]"] b by (simp add: skip_ws_def)
  then show ?thesis
    using decode_struct_encode [OF f rep_Nil, of "store_publish lenient" r] decode_time_printed [OF t assms(2)] assms(3) st
    by (simp add: Unmarshal_struct_def b store_publish_def valid_utf8_def del: encode.simps(6))
qed

section \<open>Publishing\<close>

text \<open>C19: what a client publishes is what the API stores, and the result names it. For a client whose requests
  reach the router, a tenant, an event type and a payload that is not null and not nested up to the limit,
  with a fresh event identifier and an idempotency key (or none) that neither the guard nor the repository
  has seen, \<open>Publish\<close> succeeds: the repository holds a new PENDING event with the client's tenant, the key,
  the event type with malformed UTF-8 replaced and the encoded payload, which is the compacted form of
  raw JSON bytes, and the result has its identifier, status and time.\<close>

theorem sdk_publish_stores:
  assumes rq: "rq = publish_request c et doc opts" and k: "po_idempotencyKey (publish_options opts) = k"
    and se: "se_new_request se (rq_URL rq) = None" "se_do se rq = reply_of (fst (served_at (cl_baseURL c) uri h sv s rq))"
    and input: "cl_tenantID c \<noteq> ''''" "et \<noteq> ''''" "payload_json p = Some doc" "fits (maxNestingDepth - 1) doc" "encode doc \<noteq> ''null''"
    and server: "hd_repo h = memory_repository" "hd_guard h = Some memory_guard_ops" "live (ie_create (sv_ingest sv))"
      "valid_utf8 (ie_uuid (sv_ingest sv))" "0 < ie_now (sv_ingest sv)" "time_json (ie_now (sv_ingest sv)) \<noteq> None"
    and new: "mr_evs (ap_repo s) (''evt_'' @ ie_uuid (sv_ingest sv)) = None"
      "k = '''' \<or> live (ie_acquire (sv_ingest sv)) \<and> gm_inv (ap_guard s) \<and>
         map_of (mr_idempotencyIndex (ap_repo s)) (idempKey (cl_tenantID c) k) = None \<and>
         gm_slot (ap_guard s) (memoryKey (cl_tenantID c) k) (e_now (ie_acquire (sv_ingest sv))) = Free"
  shows "sdk_Publish se c et p opts =
      Inr \<lparr>pr_ID = ''evt_'' @ ie_uuid (sv_ingest sv), pr_Status = ''PENDING'', pr_CreatedAt = ie_now (sv_ingest sv)\<rparr> \<and>
    mr_evs (ap_repo (snd (served_at (cl_baseURL c) uri h sv s rq))) =
      (mr_evs (ap_repo s))(''evt_'' @ ie_uuid (sv_ingest sv) \<mapsto>
         \<lparr>ev_ID = ''evt_'' @ ie_uuid (sv_ingest sv), ev_TenantID = cl_tenantID c, ev_EventType = to_valid et, ev_IdempotencyKey = k,
          ev_Payload = encode doc, ev_Status = EventStatusPending, ev_CreatedAt = ie_now (sv_ingest sv)\<rparr>)"
proof -
  let ?ie = "sv_ingest sv" and ?base = "cl_baseURL c" and ?t = "cl_tenantID c"
  let ?req = "\<lparr>ir_EventType = to_valid et, ir_Payload = encode doc\<rparr>"
  define v where "v = ingest_event ?ie ?t k ?req"
  define w where "w = new_writer\<lparr>w_Header := cors_header (Header_Get (rq_Header rq) ''Origin'') []\<rparr>"
  define r where "r = rq\<lparr>rq_URL := ''/api/v1/events''\<rparr>"
  have url: "rq_URL rq = ?base @ ''/api/v1/events''" "rq_Method rq = ''POST''" "rq_Header rq = publish_header c (publish_options opts)"
    by (simp_all add: rq publish_request_def)
  have route: "served_at ?base uri h sv s rq = call_handler uri h IngestEvent sv r w s"
    unfolding r_def w_def
  proof (rule served_at_route)
    show "url_path (drop (length ?base) (rq_URL rq)) = ''/api/v1/events''" by (simp add: url url_path_def)
    show "cleanPath ''/api/v1/events'' = ''/api/v1/events''" by code_simp
    show "route_for (rq_Method rq) ''/api/v1/events'' = Some IngestEvent" unfolding url by code_simp
  qed (simp_all add: url)
  have r: "rq_Method r = ''POST''" "Header_Get (rq_Header r) HeaderTenantID = ?t" "Header_Get (rq_Header r) HeaderIdempotencyKey = k"
    by (simp_all add: r_def url publish_header_get k)
  have body: "decode_ingest (rq_Body r) = Some ?req"
    using decode_published [OF input(4)] by (simp add: r_def rq publish_request_def del: encode.simps(6))
  have doc: "value_text (maxNestingDepth - 1) (encode doc)" by (rule encode_value_text [OF input(4)])
  have ok: "to_valid et \<noteq> []" "encode doc \<noteq> []" "json_Valid (encode doc)"
    using input(2) doc json_Valid_text [OF doc, of "[]"]
    by (cases et; simp add: to_valid.simps [of "_ # _"] replacement_def encode_rune_def value_text_def skip_ws_def)+
  obtain bytes where bytes: "ingest_response v = Some bytes"
    using server(6) by (auto simp: v_def ingest_event_def ingest_response_def json_time_def)
  obtain ob m' where c: "mr_CreateEventWithOutbox (ie_create ?ie) v (ingest_outbox ?ie) (ap_repo s) = (Inr (v, ob), m')"
    "mr_evs m' = (mr_evs (ap_repo s))(ev_ID v \<mapsto> v)"
    by (rule mr_create_new [OF server(3), of "ap_repo s" v "ingest_outbox ?ie"]) (use new server(5) in \<open>auto simp: v_def ingest_event_def\<close>)
  have locked: "\<exists>s'. ingest_locked h lock ?ie r ?t k w s0 =
      (\<lparr>w_Header = Header_Set ''Content-Type'' ''application/json'' (w_Header w), w_Code = 202, w_Body = w_Body w @ [bytes]\<rparr>, s') \<and>
      ap_repo s' = m'" if "ap_repo s0 = ap_repo s" for lock s0
    using that body ok input(5) server(1) c(1) bytes by (cases lock) (simp_all add: ingest_locked_def memory_repository_def v_def [symmetric] Let_def)
  have "\<exists>s'. HandleIngestEvent h ?ie r w s =
      (\<lparr>w_Header = Header_Set ''Content-Type'' ''application/json'' (w_Header w), w_Code = 202, w_Body = w_Body w @ [bytes]\<rparr>, s') \<and>
      ap_repo s' = m'"
  proof (cases "k = ''''")
    case True
    then show ?thesis using locked [of s None] r input(1) by (simp add: HandleIngestEvent_def)
  next
    case False
    obtain w' s' where H: "HandleIngestEvent h ?ie r w s = (w', s')" by fastforce
    have n: "live (ie_acquire ?ie)" "gm_inv (ap_guard s)" "gm_slot (ap_guard s) (memoryKey ?t k) (e_now (ie_acquire ?ie)) = Free"
      using new(2) False by auto
    obtain g where "ingest_locked h (Some memory_guard_ops) ?ie r ?t k w (s\<lparr>ap_guard := g\<rparr>) = (w', s')"
      using gm.ingest_fresh [OF server(2) n(1) r(1,2) input(1) r(3) False n(3,2) H] by blast
    then show ?thesis using locked [of "s\<lparr>ap_guard := g\<rparr>" "Some memory_guard_ops"] H by auto
  qed
  then obtain s' where H: "HandleIngestEvent h ?ie r w s =
      (\<lparr>w_Header = Header_Set ''Content-Type'' ''application/json'' (w_Header w), w_Code = 202, w_Body = w_Body w @ [bytes]\<rparr>, s')"
    "ap_repo s' = m'" by blast
  have sv: "served_at ?base uri h sv s rq = (Response \<lparr>w_Header = Header_Set ''Content-Type'' ''application/json'' (w_Header w), w_Code = 202,
      w_Body = w_Body w @ [bytes]\<rparr>, s')"
    unfolding route by (simp add: call_handler_def H(1))
  have "valid_utf8 (ev_ID v)" using ascii_append [of "ie_uuid ?ie" "''evt_''"] server(4) by (simp add: valid_utf8_def v_def ingest_event_def)
  then have dec: "Unmarshal_struct (store_publish (se_lenient se)) z bytes =
      Some \<lparr>pr_ID = ev_ID v, pr_Status = EventStatus_string (ev_Status v), pr_CreatedAt = ev_CreatedAt v\<rparr>" for z
    using decode_publish_response [OF bytes] server(5) by (simp add: v_def ingest_event_def)
  have "sdk_Publish se c et p opts = sdk_call se rq ''failed to decode publish response''
      (Unmarshal_struct (store_publish (se_lenient se)) \<lparr>pr_ID = '''', pr_Status = '''', pr_CreatedAt = 0\<rparr>)"
    using input(2,3) se(1) unfolding rq by (simp add: sdk_Publish_def publish_request_def publish_options_def Let_def del: encode.simps)
  also have "\<dots> = Inr \<lparr>pr_ID = ev_ID v, pr_Status = EventStatus_string (ev_Status v), pr_CreatedAt = ev_CreatedAt v\<rparr>"
    using dec by (simp add: sdk_call_def se(2) sv reply_of_def w_def new_writer_def)
  finally show ?thesis using sv c(2) H(2) by (simp add: v_def ingest_event_def)
qed

section \<open>The dead-letter queue\<close>

lemma valid_reply:
  assumes "fits maxNestingDepth doc"
  shows "json_Valid (encode doc @ [CHR 0x0A])" "first_value (encode doc @ [CHR 0x0A]) = Some (encode doc)"
  using json_Valid_text [OF encode_value_text [OF assms] order_refl, of "[CHR 0x0A]"]
    first_value_text [OF encode_value_text [OF assms] order_refl, of "[CHR 0x0A]"]
  by (simp_all add: skip_ws_def json_space_def rep_Nil_left number_end_def json_digit_def)

definition received :: "Event \<Rightarrow> DLQEvent" where
  "received v =
     \<lparr>dq_ID = to_valid (ev_ID v), dq_TenantID = to_valid (ev_TenantID v), dq_EventType = to_valid (ev_EventType v),
      dq_IdempotencyKey = to_valid (ev_IdempotencyKey v), dq_Payload = json_quote (base64 (ev_Payload v)),
      dq_Status = to_valid (EventStatus_string (ev_Status v)), dq_CreatedAt = ev_CreatedAt v, dq_UpdatedAt = None\<rparr>"

definition dlq_zero :: DLQEvent where
  "dlq_zero = \<lparr>dq_ID = '''', dq_TenantID = '''', dq_EventType = '''', dq_IdempotencyKey = '''', dq_Payload = '''',
     dq_Status = '''', dq_CreatedAt = 0, dq_UpdatedAt = None\<rparr>"

lemma decode_event:
  assumes "Event_json v = Some doc" "0 \<le> ev_CreatedAt v"
  shows "decode_struct (store_dlq lenient) dlq_zero (encode doc) = Some (received v) \<and> (\<forall>d > 0. fits d doc)"
proof -
  obtain t where t: "time_json (ev_CreatedAt v) = Some t" and doc: "doc = JObject
       ([(''id'', JString (ev_ID v)), (''tenant_id'', JString (ev_TenantID v)), (''event_type'', JString (ev_EventType v))] @
        omitempty (ev_IdempotencyKey v = []) ''idempotency_key'' (JString (ev_IdempotencyKey v)) @
        [(''payload'', JString (base64 (ev_Payload v))), (''status'', JString (EventStatus_string (ev_Status v))), (''created_at'', JString t)])"
      (is "_ = JObject ?kvs")
    using assms(1) by (auto simp: Event_json_def json_time_def)
  have f1: "\<forall>d > 0. fits d (JObject ?kvs)" and f: "fits maxNestingDepth (JObject ?kvs)" by (auto simp: omitempty_def maxNestingDepth_def)
  show ?thesis
    using decode_struct_encode [OF f rep_Nil, of "store_dlq lenient" dlq_zero] decode_time_printed [OF t assms(2)] f1
    by (simp add: doc store_dlq_def dlq_zero_def received_def omitempty_def del: encode.simps(6) fits.simps)
qed

lemma decode_events:
  assumes "json_list Event_json vs = Some docs" "\<forall>v \<in> set vs. 0 \<le> ev_CreatedAt v"
  shows "decode_each (store_dlq lenient) dlq_zero (map encode docs) = Some (map received vs) \<and> (\<forall>doc \<in> set docs. \<forall>d > 0. fits d doc)"
  using assms
proof (induction vs arbitrary: docs)
  case (Cons v vs)
  obtain doc docs' where d: "Event_json v = Some doc" "json_list Event_json vs = Some docs'" "docs = doc # docs'"
    using Cons.prems(1) by (auto split: option.splits)
  have "0 \<le> ev_CreatedAt v" "\<forall>v \<in> set vs. 0 \<le> ev_CreatedAt v" using Cons.prems(2) by simp_all
  then show ?case using Cons.IH [OF d(2)] decode_event [OF d(1), of lenient] d(3) by simp
qed simp

lemma url_path_query: "CHR ''?'' \<notin> set s \<Longrightarrow> url_path (s @ (if q then CHR ''?'' # t else [])) = s"
  by (auto simp: url_path_def takeWhile_append takeWhile_eq_all_conv)

text \<open>Listing the dead-letter queue through the SDK returns exactly the first fifty events of the
  tenant's queue that the repository lists, whatever limit and offset the caller asks for, and each
  payload arrives as a JSON string of its base64 form, not as the JSON that was published.\<close>

theorem sdk_list_dlq_exact:
  assumes "cl_tenantID c \<noteq> ''''" "hd_repo h = memory_repository"
    and "se_parse se (cl_baseURL c @ ''/api/v1/dlq'') =
      Inr \<lparr>pu_head = cl_baseURL c @ ''/api/v1/dlq'', pu_RawQuery = '''', pu_ForceQuery = False, pu_fragment = ''''\<rparr>"
    and "\<And>url. se_new_request se url = None" "\<And>rq. se_do se rq = reply_of (fst (served_at (cl_baseURL c) uri h sv s rq))"
    and "mr_GetDLQEvents (sv_env sv) (cl_tenantID c) 50 0 (ap_repo s) = Inr vs"
    and "\<forall>v \<in> set vs. 0 \<le> ev_CreatedAt v \<and> time_json (ev_CreatedAt v) \<noteq> None"
  shows "sdk_ListDLQ se c limit offset = Inr (map received vs)"
proof -
  let ?base = "cl_baseURL c"
  let ?u = "\<lparr>pu_head = ?base @ ''/api/v1/dlq'', pu_RawQuery = '''', pu_ForceQuery = False, pu_fragment = ''''\<rparr>"
  define url where "url = url_String (list_url ?u limit offset)"
  define rq where "rq = \<lparr>rq_Method = ''GET'', rq_URL = url,
      rq_Header = auth_header c (Header_Set ''X-Tenant-ID'' (cl_tenantID c) (Header_Set ''Accept'' ''application/json'' [])), rq_Body = ''''\<rparr>"
  define w where "w = new_writer\<lparr>w_Header := cors_header (Header_Get (rq_Header rq) ''Origin'') []\<rparr>"
  obtain q t where "drop (length ?base) url = ''/api/v1/dlq'' @ (if q then CHR ''?'' # t else [])"
    by (auto simp: url_def url_String_def list_url_def Let_def)
  then have p: "url_path (drop (length ?base) url) = ''/api/v1/dlq''" using url_path_query [of "''/api/v1/dlq''" q t] by simp
  have k: "CanonicalHeaderKey ''X-Tenant-ID'' = ''X-Tenant-Id''" "CanonicalHeaderKey ''Accept'' = ''Accept''"
    "CanonicalHeaderKey ''Authorization'' = ''Authorization''"
    by code_simp+
  have t: "Header_Get (rq_Header rq) HeaderTenantID = cl_tenantID c"
    by (simp add: rq_def auth_header_def HeaderTenantID_def k)
  have route: "served_at ?base uri h sv s rq = call_handler uri h ListDLQ sv (rq\<lparr>rq_URL := ''/api/v1/dlq''\<rparr>) w s"
    unfolding w_def
  proof (rule served_at_route)
    show "url_path (drop (length ?base) (rq_URL rq)) = ''/api/v1/dlq''" using p by (simp add: rq_def)
    show "cleanPath ''/api/v1/dlq'' = ''/api/v1/dlq''" by code_simp
    show "route_for (rq_Method rq) ''/api/v1/dlq'' = Some ListDLQ" unfolding rq_def by code_simp
  qed (simp_all add: rq_def)
  have "\<exists>docs. json_list Event_json vs = Some docs"
    using assms(7)
  proof (induction vs)
    case (Cons v vs)
    then show ?case by (auto simp: Event_json_def json_time_def)
  qed simp
  then obtain docs where docs: "json_list Event_json vs = Some docs" by blast
  have dec: "decode_each (store_dlq lenient) dlq_zero (map encode docs) = Some (map received vs)" "\<forall>doc \<in> set docs. \<forall>d > 0. fits d doc" for lenient
    using decode_events [OF docs, of lenient] assms(7) by auto
  have f: "fits maxNestingDepth (JArray docs)" using dec(2) by (auto simp: maxNestingDepth_def)
  have "reply_of (fst (served_at ?base uri h sv s rq)) = Inr (200, Inr (encode (JArray docs) @ [CHR 0x0A]))"
    unfolding route using assms(1,2,6) t docs
    by (simp add: call_handler_def HandleListDLQ_def memory_repository_def reply_of_def writeJSON_def w_def new_writer_def rq_def Let_def
        del: encode.simps)
  moreover have "Unmarshal_slice (store_dlq lenient) dlq_zero (encode (JArray docs) @ [CHR 0x0A]) = Some (map received vs)" for lenient
    using valid_reply [OF f] items_of_encode [OF f order_refl] dec(1)
    by (simp add: Unmarshal_slice_def json_array_def del: encode.simps) (simp add: encode.simps(5))
  ultimately show ?thesis
    using assms(3-5) by (simp add: sdk_ListDLQ_def sdk_call_def dlq_zero_def url_def [symmetric] rq_def [symmetric] Let_def)
qed

lemma mr_replay_count: "mr_replay_loop now t ids n m = (n', m') \<Longrightarrow> n \<le> n' \<and> n' \<le> n + int (length ids)"
proof (induction ids arbitrary: n m)
  case (Cons i ids)
  have IH: "mr_replay_loop now t ids k m0 = (n', m') \<Longrightarrow> n \<le> k \<Longrightarrow> k \<le> n + 1 \<Longrightarrow> n \<le> n' \<and> n' \<le> n + int (length (i # ids))" for k m0
    using Cons.IH [of k m0] by auto
  show ?case using Cons.prems IH by (auto simp only: mr_replay_loop.simps Let_def split: option.splits if_splits)
qed simp

lemma decode_replay_ids:
  assumes "ids \<noteq> []"
  shows "decode_replay (encode (JObject [(''event_ids'', JArray (map JString ids))])) = Some (map to_valid ids)"
proof -
  have f: "fits maxNestingDepth (JObject [(''event_ids'', JArray (map JString ids))])"
    and fa: "fits maxNestingDepth (JArray (map JString ids))"
    by (auto simp: maxNestingDepth_def)
  have items: "items_of (encode (JArray (map JString ids))) = map json_quote ids"
    using items_of_encode [OF fa order_refl] by (simp add: comp_def)
  have "decode_strings (encode (JArray (map JString ids))) ([], 0) = Some (map to_valid ids, length ids)"
    using items assms decode_slots_quote [of ids "[]"]
    by (simp add: decode_strings_def json_array_def del: encode.simps) (simp add: encode.simps(5))
  then show ?thesis
    using decode_struct_encode [OF f rep_Nil, of store_replay "\<lparr>rd_EventIDs = ([], 0)\<rparr>"]
    by (simp add: decode_replay_def store_replay_def del: encode.simps)
qed

definition replay_request :: "Client \<Rightarrow> string list \<Rightarrow> http_request" where
  "replay_request c ids =
     \<lparr>rq_Method = ''POST'', rq_URL = cl_baseURL c @ ''/api/v1/dlq/replay'',
      rq_Header = auth_header c (Header_Set ''X-Tenant-ID'' (cl_tenantID c) (Header_Set ''Content-Type'' ''application/json'' [])),
      rq_Body = encode (JObject [(''event_ids'', JArray (map JString ids))])\<rparr>"

text \<open>Replaying through the SDK is exactly one replay of the repository: for 1 to 100 identifiers the
  call hands them over, with malformed UTF-8 replaced, for the client's tenant, and returns the number of
  events that the repository replayed.\<close>

theorem sdk_replay_exact:
  assumes "cl_tenantID c \<noteq> ''''" "hd_repo h = memory_repository" "ids \<noteq> []" "length ids \<le> 100"
    and "se_new_request se (cl_baseURL c @ ''/api/v1/dlq/replay'') = None" "rq = replay_request c ids"
    and "se_do se rq = reply_of (fst (served_at (cl_baseURL c) uri h sv s rq))"
    and "mr_ReplayDLQEvents (sv_env sv) (cl_tenantID c) (map to_valid ids) (ap_repo s) = (Inr n, m')"
  shows "sdk_ReplayDLQ se c ids = Inr \<lparr>rr_Status = ''QUEUED_FOR_RETRY'', rr_ReplayedCount = n\<rparr> \<and>
    ap_repo (snd (served_at (cl_baseURL c) uri h sv s rq)) = m'"
proof -
  let ?base = "cl_baseURL c"
  note rq_def = assms(6) [unfolded replay_request_def]
  define w where "w = new_writer\<lparr>w_Header := cors_header (Header_Get (rq_Header rq) ''Origin'') []\<rparr>"
  define doc where "doc = JObject [(''replayed_count'', JInt n), (''status'', JString ''QUEUED_FOR_RETRY'')]"
  have k: "CanonicalHeaderKey ''X-Tenant-ID'' = ''X-Tenant-Id''" "CanonicalHeaderKey ''Content-Type'' = ''Content-Type''"
    "CanonicalHeaderKey ''Authorization'' = ''Authorization''"
    by code_simp+
  have t: "Header_Get (rq_Header rq) HeaderTenantID = cl_tenantID c"
    by (simp add: rq_def auth_header_def HeaderTenantID_def k)
  have route: "served_at ?base uri h sv s rq = call_handler uri h ReplayDLQ sv (rq\<lparr>rq_URL := ''/api/v1/dlq/replay''\<rparr>) w s"
    unfolding w_def
  proof (rule served_at_route)
    show "url_path (drop (length ?base) (rq_URL rq)) = ''/api/v1/dlq/replay''" by (simp add: rq_def url_path_def)
    show "cleanPath ''/api/v1/dlq/replay'' = ''/api/v1/dlq/replay''" by code_simp
    show "route_for (rq_Method rq) ''/api/v1/dlq/replay'' = Some ReplayDLQ" unfolding rq_def by code_simp
  qed (simp_all add: rq_def)
  have body: "decode_replay (rq_Body rq) = Some (map to_valid ids)"
    using decode_replay_ids [OF assms(3)] by (simp add: rq_def del: encode.simps)
  have n: "int64_ok n"
    using assms(4,8) mr_replay_count [of "e_now (sv_env sv)" "cl_tenantID c" "map to_valid ids" 0 "ap_repo s"]
    by (auto simp: mr_ReplayDLQEvents_def int64_ok_def split: option.splits prod.splits if_splits)
  have H: "HandleReplayDLQ h (sv_env sv) (rq\<lparr>rq_URL := ''/api/v1/dlq/replay''\<rparr>) w s = (writeJSON w 200 (Some doc), s\<lparr>ap_repo := m'\<rparr>)"
    using assms(1-4,8) t body by (simp add: HandleReplayDLQ_def memory_repository_def doc_def rq_def Let_def)
  then have sv: "served_at ?base uri h sv s rq = (Response (writeJSON w 200 (Some doc)), s\<lparr>ap_repo := m'\<rparr>)"
    unfolding route by (simp add: call_handler_def)
  then have r: "reply_of (fst (served_at ?base uri h sv s rq)) = Inr (200, Inr (encode doc @ [CHR 0x0A]))"
    by (simp add: reply_of_def writeJSON_def w_def new_writer_def)
  have f: "fits maxNestingDepth doc" by (simp add: doc_def maxNestingDepth_def)
  have "decode_struct store_replay_result z (encode doc @ [CHR 0x0A]) = Some \<lparr>rr_Status = ''QUEUED_FOR_RETRY'', rr_ReplayedCount = n\<rparr>" for z
    using decode_struct_encode [OF f [unfolded doc_def], of "[CHR 0x0A]" store_replay_result z] n to_valid_ascii [of "''QUEUED_FOR_RETRY''"]
    by (simp add: doc_def store_replay_result_def rep_Nil_left number_end_def json_digit_def del: encode.simps(6))
  then have "Unmarshal_struct store_replay_result z (encode doc @ [CHR 0x0A]) =
      Some \<lparr>rr_Status = ''QUEUED_FOR_RETRY'', rr_ReplayedCount = n\<rparr>" for z
    using valid_reply(1) [OF f] by (simp add: Unmarshal_struct_def)
  then have "sdk_ReplayDLQ se c ids = Inr \<lparr>rr_Status = ''QUEUED_FOR_RETRY'', rr_ReplayedCount = n\<rparr>"
    using assms(3,5,7) r by (simp add: sdk_ReplayDLQ_def sdk_call_def rq_def [symmetric] Let_def del: encode.simps)
  then show ?thesis using sv by simp
qed

section \<open>Examples\<close>

definition client0 :: Client where
  "client0 = \<lparr>cl_baseURL = ''http://h'', cl_tenantID = ''acme'', cl_apiKey = '''', cl_httpClient = Some 0, cl_timeout = 0\<rparr>"

definition serve_env0 :: serve_env where
  "serve_env0 = \<lparr>sv_ingest = ingest_env0 10 ''u1'', sv_env = env0, sv_uuid = ''''\<rparr>"

definition sdk_env0 :: "(memory_repo, memory_guard, string list \<Rightarrow> nat, nat) api_state \<Rightarrow> sdk_env" where
  "sdk_env0 s =
     \<lparr>se_new_request = (\<lambda>_. None),
      se_parse = (\<lambda>u. Inr \<lparr>pu_head = u, pu_RawQuery = '''', pu_ForceQuery = False, pu_fragment = ''''\<rparr>),
      se_lenient = (\<lambda>_. None),
      se_do = (\<lambda>rq. reply_of (fst (served_at ''http://h'' scheme0 api0 serve_env0 s rq)))\<rparr>"

lemma client0_New: "fst (New 0 ''http://h/'' ''acme'' [WithTimeout 0] (\<lambda>_. 5)) = client0"
  by (simp add: New_def WithTimeout_def strings_TrimRight_def client0_def)

lemma raw_fits_payload0: "raw_fits (maxNestingDepth - 1) ''[1]''"
proof -
  have "scan_value (Suc (Suc (Suc n))) d ''[1]'' = Some []" if "0 < d" for n d
    using that by (simp add: scan_value.simps scan_elements.simps scan_number_def scan_integer_def scan_fraction_def scan_exponent_def
        json_digit_def json_space_def skip_ws_def)
  from this [of "maxNestingDepth - 1" 5] show ?thesis
    by (simp add: raw_fits_def maxNestingDepth_def skip_ws_def json_space_def eval_nat_numeral)
qed

theorem sdk_publish_stores_witness:
  "\<exists>rq. sdk_Publish (sdk_env0 api_state0) client0 ''order'' (PayloadBytes (Some ''[1]'')) [WithIdempotencyKey ''k1''] =
      Inr \<lparr>pr_ID = ''evt_u1'', pr_Status = ''PENDING'', pr_CreatedAt = 10\<rparr> \<and>
    (\<exists>v. mr_evs (ap_repo (snd (served_at ''http://h'' scheme0 api0 serve_env0 api_state0 rq))) = [''evt_u1'' \<mapsto> v] \<and>
       ev_Payload v = ''[1]'' \<and> ev_TenantID v = ''acme'' \<and> ev_IdempotencyKey v = ''k1'')"
proof -
  have f: "fits (maxNestingDepth - 1) (JRaw ''[1]'')" using raw_fits_payload0 by simp
  have e: "encode (JRaw ''[1]'') = ''[1]''" by (simp add: json_space_def)
  have u: "valid_utf8 ''u1''" unfolding valid_utf8_def by (rule to_valid_ascii) simp
  let ?rq = "publish_request client0 ''order'' (JRaw ''[1]'') [WithIdempotencyKey ''k1'']"
  let ?v = "\<lparr>ev_ID = ''evt_u1'', ev_TenantID = ''acme'', ev_EventType = to_valid ''order'', ev_IdempotencyKey = ''k1'', ev_Payload = ''[1]'', ev_Status = EventStatusPending, ev_CreatedAt = 10\<rparr>"
  have P: "sdk_Publish (sdk_env0 api_state0) client0 ''order'' (PayloadBytes (Some ''[1]'')) [WithIdempotencyKey ''k1''] =
      Inr \<lparr>pr_ID = ''evt_u1'', pr_Status = ''PENDING'', pr_CreatedAt = 10\<rparr> \<and>
    mr_evs (ap_repo (snd (served_at ''http://h'' scheme0 api0 serve_env0 api_state0 ?rq))) = [''evt_u1'' \<mapsto> ?v]"
    using sdk_publish_stores [OF refl refl _ _ _ _ _ f, where c = client0 and opts = "[WithIdempotencyKey ''k1'']" and et = "''order''"
        and se = "sdk_env0 api_state0" and s = api_state0 and sv = serve_env0 and h = api0 and uri = scheme0
        and p = "PayloadBytes (Some ''[1]'')"] u
    by (simp add: e client0_def sdk_env0_def serve_env0_def payload_json_def json_Valid_payload0 time_json_10 publish_options_def
        WithIdempotencyKey_def NewMemoryRepository_def del: encode.simps)
  then show ?thesis by (intro exI [of _ ?rq] exI [of _ ?v] conjI) simp_all
qed

definition dead0 :: Event where
  "dead0 = event0\<lparr>ev_CreatedAt := 1000, ev_Status := EventStatusDLQ\<rparr>"

definition api_state2 :: "(memory_repo, memory_guard, string list \<Rightarrow> nat, nat) api_state" where
  "api_state2 = api_state0\<lparr>ap_repo := repo2\<rparr>"

theorem sdk_list_dlq_exact_witness:
  "sdk_ListDLQ (sdk_env0 api_state2) client0 5 7 = Inr [received dead0] \<and>
     dq_Payload (received dead0) = json_quote (base64 ''{}'')"
proof -
  have "mr_events repo2 = [(''ev1'', dead0)]" by (simp add: repo2_eval dead0_def)
  then have g: "mr_GetDLQEvents env0 ''acme'' 50 0 repo2 = Inr [dead0]"
    by (simp add: mr_GetDLQEvents_def env0_def go_range_def dead0_def event0_def)
  have "civil 0 = (1, 1, 1)" by (simp add: civil_def year_day_def)
  then have "time_json 1000 \<noteq> None" by (simp add: time_json_def)
  then have "sdk_ListDLQ (sdk_env0 api_state2) client0 5 7 = Inr (map received [dead0])"
    using g by (intro sdk_list_dlq_exact [where uri = scheme0 and h = api0 and sv = serve_env0 and s = api_state2])
      (simp_all add: client0_def sdk_env0_def serve_env0_def api_state2_def dead0_def)
  then show ?thesis by (simp add: received_def dead0_def event0_def)
qed

theorem sdk_replay_exact_witness:
  "\<exists>m'. sdk_ReplayDLQ (sdk_env0 api_state2) client0 [''ev1'', ''nope''] =
      Inr \<lparr>rr_Status = ''QUEUED_FOR_RETRY'', rr_ReplayedCount = 1\<rparr> \<and>
    ap_repo (snd (served_at ''http://h'' scheme0 api0 serve_env0 api_state2 (replay_request client0 [''ev1'', ''nope'']))) = m' \<and>
    map_option ev_Status (mr_evs m' ''ev1'') = Some EventStatusPending"
proof -
  have v: "map to_valid [''ev1'', ''nope''] = [''ev1'', ''nope'']"
    using to_valid_ascii [of "''ev1''"] to_valid_ascii [of "''nope''"] by simp
  obtain m' where m: "mr_ReplayDLQEvents env0 ''acme'' [''ev1'', ''nope''] repo2 = (Inr 1, m')"
    "map_option ev_Status (mr_evs m' ''ev1'') = Some EventStatusPending"
    by (simp add: mr_ReplayDLQEvents_def repo2_eval repo1_eval env0_def event0_def NewMemoryRepository_def Let_def)
  have "sdk_ReplayDLQ (sdk_env0 api_state2) client0 [''ev1'', ''nope''] =
      Inr \<lparr>rr_Status = ''QUEUED_FOR_RETRY'', rr_ReplayedCount = 1\<rparr> \<and>
    ap_repo (snd (served_at (cl_baseURL client0) scheme0 api0 serve_env0 api_state2 (replay_request client0 [''ev1'', ''nope'']))) = m'"
    by (rule sdk_replay_exact [where h = api0]) (simp_all add: v m(1) client0_def sdk_env0_def serve_env0_def api_state2_def del: list.map)
  then show ?thesis using m(2) by (simp add: client0_def)
qed

end
