(* ===== verification/Server.thy ===== *)
theory Server
  imports WorkerRuns ApiRuns RedisGuard RedisQueue Sse Ssrf
begin

text \<open>
  The server of \<open>cmd/server/main.go\<close>: its settings, the choice of the storage, the queue and the guard, how
  it wires the components together, what it starts, and the order in which it shuts down. The system is
  the state that the components share, with one step for a request, a batch of the relay, a turn of a
  worker and a pass of the recovery. Lemmas: the fields of the views and of the wiring.
\<close>

section \<open>Settings\<close>

text \<open>An unset variable of the environment is the empty string, as for \<open>os.Getenv\<close>.\<close>

definition getEnv :: "(string \<Rightarrow> string) \<Rightarrow> string \<Rightarrow> string \<Rightarrow> string" where
  "getEnv osenv key defaultVal = (if osenv key \<noteq> '''' then osenv key else defaultVal)"

definition getEnvInt :: "(string \<Rightarrow> string) \<Rightarrow> string \<Rightarrow> int \<Rightarrow> int" where
  "getEnvInt osenv key defaultVal =
     (if osenv key \<noteq> '''' then (case ParseInt64 (osenv key) of Some val \<Rightarrow> val | None \<Rightarrow> defaultVal)
      else defaultVal)"

text \<open>
  The storage: PostgreSQL when it can be opened and answers a ping, memory otherwise. The database handle
  stays open, and is closed at the end, even when the ping failed.
\<close>

datatype repo_choice = InMemoryRepo | PostgresRepo

definition choose_repo :: "(string \<Rightarrow> string) \<Rightarrow> (string \<Rightarrow> goerr option) \<Rightarrow> goerr option \<Rightarrow> repo_choice \<times> bool" where
  "choose_repo osenv sql_open ping =
     (if osenv ''DATABASE_URL'' \<noteq> '''' then
        (case sql_open (osenv ''DATABASE_URL'') of
           Some err \<Rightarrow> (InMemoryRepo, False)
         | None \<Rightarrow> (case ping of Some err \<Rightarrow> (InMemoryRepo, True) | None \<Rightarrow> (PostgresRepo, True)))
      else (InMemoryRepo, False))"

text \<open>The queue and the guard: a URL that does not parse is taken as an address.\<close>

datatype 'o redis_choice = InMemoryQueue | RedisQueueAt 'o

definition choose_redis ::
    "(string \<Rightarrow> string) \<Rightarrow> (string \<Rightarrow> goerr + 'o) \<Rightarrow> (string \<Rightarrow> 'o) \<Rightarrow> ('o \<Rightarrow> goerr option) \<Rightarrow> 'o redis_choice \<times> bool" where
  "choose_redis osenv parse_url with_addr ping =
     (if osenv ''REDIS_URL'' \<noteq> '''' then
        let opt = (case parse_url (osenv ''REDIS_URL'') of Inl err \<Rightarrow> with_addr (osenv ''REDIS_URL'') | Inr opt \<Rightarrow> opt)
        in (case ping opt of Some err \<Rightarrow> (InMemoryQueue, True) | None \<Rightarrow> (RedisQueueAt opt, True))
      else (InMemoryQueue, False))"

definition allowLocal :: "(string \<Rightarrow> string) \<Rightarrow> bool" where
  "allowLocal osenv \<longleftrightarrow> osenv ''ALLOW_LOCAL_DISPATCH'' = ''true'' \<or> osenv ''ENABLE_SSRF_PROTECTION'' = ''false''"

text \<open>A connection of the dispatcher's client.\<close>

definition server_dial ::
    "(string \<Rightarrow> string) \<Rightarrow> (string \<Rightarrow> goerr + IP list) \<Rightarrow> (string \<Rightarrow> string list) \<Rightarrow> (string \<Rightarrow> goerr option) \<Rightarrow>
       string \<Rightarrow> goerr + string" where
  "server_dial osenv lookup resolve connects addr = transport_DialContext (allowLocal osenv) lookup resolve connects addr"

section \<open>Wiring\<close>

type_synonym sse_sink = "sse_broker \<times> channels"

definition broadcast_to :: "(nat \<Rightarrow> nat list) \<Rightarrow> DeliveryAttempt \<Rightarrow> sse_sink \<Rightarrow> sse_sink" where
  "broadcast_to ord attempt sink = (fst sink, Broadcast ord (Some attempt) (fst sink) (snd sink))"

record ('r, 'g, 'q, 'c, 'h) server =
  sr_disp :: "('r, 'c, 'h, sse_sink) dispatcher"
  sr_pool :: "('r, 'c, 'h, sse_sink, 'q) worker_pool"
  sr_relay :: "('r, 'q) relay"
  sr_handler :: "('r, 'g, 'c, 'h) api_handler"
  sr_batch :: int
  sr_addr :: string

definition worker_config :: "(string \<Rightarrow> string) \<Rightarrow> Config" where
  "worker_config osenv =
     \<lparr>cf_NumWorkers = getEnvInt osenv ''WORKER_COUNT'' 10, cf_StreamName = ''stream:events:pending'',
      cf_GroupName = ''worker-group'', cf_BatchSize = 10, cf_PollInterval = 100 * Millisecond,
      cf_MinIdleDuration = 0, cf_ClaimInterval = 0, cf_MaxClaimAttempts = 0\<rparr>"

definition wire_server ::
    "('c, 'h) prom_ops \<Rightarrow> (nat \<Rightarrow> nat list) \<Rightarrow> (string \<Rightarrow> string) \<Rightarrow> 'r repository \<Rightarrow> 'q stream_queue \<Rightarrow> 'g guard \<Rightarrow>
       ('r, 'g, 'q, 'c, 'h) server" where
  "wire_server P ord osenv repo streamQueue guard =
     (let disp = WithAttemptCallback (Some (broadcast_to ord)) (NewDispatcher (Some repo) DefaultBackoffPolicy P) in
      \<lparr>sr_disp = disp,
       sr_pool = NewWorkerPool (worker_config osenv) streamQueue (Some repo) disp,
       sr_relay = NewRelay repo streamQueue [],
       sr_handler = WithSSEBroker True (NewHandler repo (Some guard) P),
       sr_batch = getEnvInt osenv ''RELAY_BATCH_SIZE'' 100,
       sr_addr = CHR '':'' # getEnv osenv ''PORT'' ''8080''\<rparr>)"

section \<open>The running system\<close>

record ('r, 'g, 'q, 'c, 'h) system =
  sy_repo :: 'r
  sy_guard :: 'g
  sy_queue :: 'q
  sy_metrics :: "('c, 'h) Metrics option"
  sy_sse :: sse_sink
  sy_claims :: "(string, int) gomap"
  sy_pool :: pool_ctl

text \<open>What the server starts with: new metrics and broker, and the pool with its consumer group.\<close>

definition server_start ::
    "('r, 'g, 'q, 'c, 'h) server \<Rightarrow> ('c, 'h) prom_ops \<Rightarrow> env \<Rightarrow> 'r \<Rightarrow> 'g \<Rightarrow> 'q \<Rightarrow> goerr option \<times> ('r, 'g, 'q, 'c, 'h) system" where
  "server_start srv P e r g q =
     (case Pool_Start (sr_pool srv) e new_pool_ctl q of (err, ctl, q1) \<Rightarrow>
        (err, \<lparr>sy_repo = r, sy_guard = g, sy_queue = q1, sy_metrics = Some (NewMetrics P),
               sy_sse = (NewSSEBroker, \<lambda>_. []), sy_claims = [], sy_pool = ctl\<rparr>))"

definition api_view :: "('r, 'g, 'q, 'c, 'h) system \<Rightarrow> ('r, 'g, 'c, 'h) api_state" where
  "api_view s = \<lparr>ap_repo = sy_repo s, ap_guard = sy_guard s, ap_metrics = sy_metrics s\<rparr>"

definition server_request ::
    "('r, 'g, 'q, 'c, 'h) server \<Rightarrow> (string \<Rightarrow> string option) \<Rightarrow> serve_env \<Rightarrow> http_request \<Rightarrow> http_writer \<Rightarrow>
       ('r, 'g, 'q, 'c, 'h) system \<Rightarrow> served \<times> ('r, 'g, 'q, 'c, 'h) system" where
  "server_request srv uri_scheme sv rq w s =
     (case NewRouter uri_scheme (sr_handler srv) sv rq w (api_view s) of (res, a) \<Rightarrow>
        (res, s\<lparr>sy_repo := ap_repo a, sy_guard := ap_guard a, sy_metrics := ap_metrics a\<rparr>))"

text \<open>A batch of the relay, whose loop replaces a batch size that is not positive.\<close>

definition server_relay ::
    "('r, 'g, 'q, 'c, 'h) server \<Rightarrow> batch_env \<Rightarrow> ('r, 'g, 'q, 'c, 'h) system \<Rightarrow> (int \<times> goerr option) \<times> ('r, 'g, 'q, 'c, 'h) system" where
  "server_relay srv be s =
     (case ProcessNextBatch (sr_relay srv) be (if sr_batch srv \<le> 0 then 100 else sr_batch srv) (sy_repo s) (sy_queue s) of
        (res, r, q) \<Rightarrow> (res, s\<lparr>sy_repo := r, sy_queue := q\<rparr>))"

definition pool_view :: "('r, 'g, 'q, 'c, 'h) system \<Rightarrow> ('r, 'c, 'h, sse_sink, 'q) pool_state" where
  "pool_view s =
     \<lparr>po_d = \<lparr>ds_repo = sy_repo s, ds_metrics = sy_metrics s, ds_sink = sy_sse s\<rparr>, po_q = sy_queue s,
      po_claimAttempts = sy_claims s\<rparr>"

definition put_pool :: "('r, 'c, 'h, sse_sink, 'q) pool_state \<Rightarrow> ('r, 'g, 'q, 'c, 'h) system \<Rightarrow> ('r, 'g, 'q, 'c, 'h) system" where
  "put_pool st s =
     s\<lparr>sy_repo := ds_repo (po_d st), sy_metrics := ds_metrics (po_d st), sy_sse := ds_sink (po_d st), sy_queue := po_q st,
       sy_claims := po_claimAttempts st\<rparr>"

definition server_worker ::
    "('r, 'g, 'q, 'c, 'h) server \<Rightarrow> nat \<Rightarrow> worker_round \<Rightarrow> ('r, 'g, 'q, 'c, 'h) system \<Rightarrow>
       bool \<times> step list \<times> ('r, 'g, 'q, 'c, 'h) system" where
  "server_worker srv workerID wr s =
     (case worker_step (sr_pool srv) workerID wr (pool_view s) of (go, trace, st) \<Rightarrow> (go, trace, put_pool st s))"

definition server_recovery ::
    "('r, 'g, 'q, 'c, 'h) server \<Rightarrow> pass_env list \<Rightarrow> string \<Rightarrow> ('r, 'g, 'q, 'c, 'h) system \<Rightarrow>
       bool \<times> string \<times> step list \<times> ('r, 'g, 'q, 'c, 'h) system" where
  "server_recovery srv pas startID s =
     (case pel_passes (sr_pool srv) pas startID (pool_view s) of (go, startID', trace, st) \<Rightarrow> (go, startID', trace, put_pool st s))"

text \<open>The order of the shutdown; a handle is closed when there is one.\<close>

datatype shutdown_step = ServerShutdown | RootCancel | AwaitRelay | PoolStop | CloseDB | CloseRedis

definition shutdown_steps :: "bool \<Rightarrow> bool \<Rightarrow> shutdown_step list" where
  "shutdown_steps db redisClient =
     [ServerShutdown, RootCancel, AwaitRelay, PoolStop] @ (if db then [CloseDB] else []) @ (if redisClient then [CloseRedis] else [])"

lemma view_fields [simp]:
  "ap_repo (api_view s) = sy_repo s" "ap_guard (api_view s) = sy_guard s"
  "ds_repo (po_d (pool_view s)) = sy_repo s" "po_q (pool_view s) = sy_queue s"
  "sy_repo (put_pool st s) = ds_repo (po_d st)" "sy_queue (put_pool st s) = po_q st"
  by (simp_all add: api_view_def pool_view_def put_pool_def)

lemma wire_server_fields [simp]:
  "sr_relay (wire_server P ord osenv repo q g) = \<lparr>rl_repo = repo, rl_queue = q, rl_streamName = ''stream:events:pending''\<rparr>"
  "hd_repo (sr_handler (wire_server P ord osenv repo q g)) = repo"
  "hd_guard (sr_handler (wire_server P ord osenv repo q g)) = Some g"
  "wp_repo (sr_pool (wire_server P ord osenv repo q g)) = Some repo"
  "wp_queue (sr_pool (wire_server P ord osenv repo q g)) = q"
  "dp_repo (wp_dispatcher (sr_pool (wire_server P ord osenv repo q g))) = Some repo"
  "dp_policy (wp_dispatcher (sr_pool (wire_server P ord osenv repo q g))) = DefaultBackoffPolicy"
  "cf_StreamName (wp_cfg (sr_pool (wire_server P ord osenv repo q g))) = ''stream:events:pending''"
  "cf_GroupName (wp_cfg (sr_pool (wire_server P ord osenv repo q g))) = ''worker-group''"
  "cf_BatchSize (wp_cfg (sr_pool (wire_server P ord osenv repo q g))) = 10"
  by (simp_all add: wire_server_def NewRelay_def RelayDefaultStreamName_def WithSSEBroker_def NewHandler_def NewWorkerPool_def
      WithAttemptCallback_def NewDispatcher_def DefaultBackoffPolicy_def pool_defaults_def worker_config_def Let_def)

end
