(* ===== verification/System.thy ===== *)
theory System
  imports Server PostgresRuns
begin

text \<open>
  The whole server: the steps its goroutines take on the state they share, in any order and with any
  failure, and what every run of it keeps. Lemmas: what a request, a turn of a worker and a pass of the
  recovery change of the repository and the stream, over any repository with an outbox and any queue.
  The locale \<open>server_system\<close> draws the consequence for every run; \<open>SystemRuns\<close> interprets it.
\<close>

section \<open>Steps\<close>

text \<open>
  A request, a batch of the relay, a turn of a worker, a pass over the pending messages. Every context and
  every failure is any; the order of a map iteration is a permutation.
\<close>

inductive server_step ::
    "('r, 'g, 'q, 'c, 'h) server \<Rightarrow> (string \<Rightarrow> string option) \<Rightarrow> ('r, 'g, 'q, 'c, 'h) system \<Rightarrow>
       ('r, 'g, 'q, 'c, 'h) system \<Rightarrow> bool" for srv uri_scheme where
  a_request: "server_request srv uri_scheme sv rq w s = (res, s') \<Longrightarrow> server_step srv uri_scheme s s'"
| a_batch: "server_relay srv be s = (res, s') \<Longrightarrow> env_ok (be_fetch be) \<Longrightarrow> server_step srv uri_scheme s s'"
| a_turn: "server_worker srv workerID wr s = (go, trace, s') \<Longrightarrow> server_step srv uri_scheme s s'"
| a_recovery: "server_recovery srv pas startID s = (go, startID', trace, s') \<Longrightarrow>
    list_all (\<lambda>pa. env_ok (pa_claim pa)) pas \<Longrightarrow> server_step srv uri_scheme s s'"

inductive_cases server_stepE: "server_step srv uri_scheme s s'"

abbreviation server_run ::
    "('r, 'g, 'q, 'c, 'h) server \<Rightarrow> (string \<Rightarrow> string option) \<Rightarrow> ('r, 'g, 'q, 'c, 'h) system \<Rightarrow>
       ('r, 'g, 'q, 'c, 'h) system \<Rightarrow> bool" where
  "server_run srv uri_scheme \<equiv> (server_step srv uri_scheme)\<^sup>*\<^sup>*"

section \<open>Accounted events\<close>

text \<open>
  Every event has an outbox row that names it and is still pending, or is carried by a message of the
  stream.
\<close>

definition accounted :: "(string \<Rightarrow> Event option) \<Rightarrow> (int \<Rightarrow> OutboxEvent option) \<Rightarrow> QueueMessage list \<Rightarrow> bool" where
  "accounted events rows published \<longleftrightarrow>
     (\<forall>i v. events i = Some v \<longrightarrow>
        (\<exists>n ob. rows n = Some ob \<and> ob_EventID ob = i \<and> ob_Status ob = OutboxStatusPending) \<or>
        (\<exists>msg \<in> set published. carries msg v))"

text \<open>
  What the API and the workers do to the repository: rows stay, events stay up to their status, and a new
  event comes with a pending row.
\<close>

definition grows ::
    "(string \<Rightarrow> Event option) \<Rightarrow> (int \<Rightarrow> OutboxEvent option) \<Rightarrow> (string \<Rightarrow> Event option) \<Rightarrow>
       (int \<Rightarrow> OutboxEvent option) \<Rightarrow> bool" where
  "grows events rows events' rows' \<longleftrightarrow>
     (\<forall>n x. rows n = Some x \<longrightarrow> rows' n = Some x) \<and>
     (\<forall>i v. events i = Some v \<longrightarrow> (\<exists>st. events' i = Some (v\<lparr>ev_Status := st\<rparr>))) \<and>
     (\<forall>i. events i = None \<longrightarrow> events' i \<noteq> None \<longrightarrow>
        (\<exists>n ob. rows' n = Some ob \<and> ob_EventID ob = i \<and> ob_Status ob = OutboxStatusPending))"

lemma carries_status [simp]: "carries msg (v\<lparr>ev_Status := st\<rparr>) = carries msg v"
  by (simp add: carries_def)

lemma status_same [simp]: "\<exists>st. v = v\<lparr>ev_Status := st\<rparr>" for v :: Event
  by (rule exI [of _ "ev_Status v"]) simp

lemma status_self: "\<exists>st. Some v = Some (v\<lparr>ev_Status := st\<rparr>)"
  by (rule exI [of _ "ev_Status v"]) simp

lemma grows_refl [simp]: "grows ev ob ev ob"
  using status_self by (auto simp: grows_def)

lemma grows_trans:
  assumes "grows ev ob ev1 ob1" "grows ev1 ob1 ev2 ob2"
  shows "grows ev ob ev2 ob2"
proof -
  have "\<exists>st. ev2 i = Some (v\<lparr>ev_Status := st\<rparr>)" if v: "ev i = Some v" for i v
  proof -
    obtain st where "ev1 i = Some (v\<lparr>ev_Status := st\<rparr>)" using assms(1) v unfolding grows_def by blast
    then obtain st' where "ev2 i = Some (v\<lparr>ev_Status := st, ev_Status := st'\<rparr>)" using assms(2) unfolding grows_def by blast
    then show ?thesis by auto
  qed
  moreover have "\<exists>n row. ob2 n = Some row \<and> ob_EventID row = i \<and> ob_Status row = OutboxStatusPending"
    if "ev i = None" "ev2 i \<noteq> None" for i
    using assms that unfolding grows_def by (cases "ev1 i = None") blast+
  ultimately show ?thesis using assms unfolding grows_def by blast
qed

lemma accounted_grows:
  assumes "accounted ev ob ms" "grows ev ob ev' ob'"
  shows "accounted ev' ob' ms"
  unfolding accounted_def
proof (intro allI impI)
  fix i v'
  assume v': "ev' i = Some v'"
  let ?goal = "(\<exists>n row. ob' n = Some row \<and> ob_EventID row = i \<and> ob_Status row = OutboxStatusPending) \<or>
      (\<exists>msg \<in> set ms. carries msg v')"
  show ?goal
  proof (cases "ev i")
    case None
    then show ?thesis using assms(2) v' unfolding grows_def by blast
  next
    case (Some v)
    then obtain st where "v' = v\<lparr>ev_Status := st\<rparr>" using assms(2) v' unfolding grows_def by fastforce
    moreover have "(\<exists>n row. ob n = Some row \<and> ob_EventID row = i \<and> ob_Status row = OutboxStatusPending) \<or>
      (\<exists>msg \<in> set ms. carries msg v)" using assms(1) Some unfolding accounted_def by blast
    ultimately show ?thesis using assms(2) unfolding grows_def by auto
  qed
qed

lemma accounted_published:
  assumes "accounted ev ob ms"
    and "\<forall>k. ob' k = ob k \<or> (\<exists>row t v msg. ob k = Some row \<and> ob_Status row = OutboxStatusPending \<and>
          ob' k = Some (row\<lparr>ob_Status := OutboxStatusPublished, ob_ProcessedAt := t\<rparr>) \<and>
          ev (ob_EventID row) = Some v \<and> msg \<in> set new \<and> carries msg v)"
  shows "accounted ev ob' (ms @ new)"
  unfolding accounted_def
proof (intro allI impI)
  fix i v
  assume v: "ev i = Some v"
  consider (row) n row where "ob n = Some row" "ob_EventID row = i" "ob_Status row = OutboxStatusPending"
    | (msg) msg where "msg \<in> set ms" "carries msg v"
    using assms(1) v unfolding accounted_def by blast
  then show "(\<exists>n row. ob' n = Some row \<and> ob_EventID row = i \<and> ob_Status row = OutboxStatusPending) \<or>
      (\<exists>msg \<in> set (ms @ new). carries msg v)"
  proof cases
    case row
    then show ?thesis using spec [OF assms(2), of n] v by auto
  qed auto
qed

section \<open>What the steps change\<close>

text \<open>
  The calls that the API and the workers make on the repository, with what they pass to it, and the call of
  the relay.
\<close>

inductive repo_call :: "(string \<Rightarrow> string option) \<Rightarrow> 'r repository \<Rightarrow> 'r \<Rightarrow> 'r \<Rightarrow> bool" for uri_scheme R where
  rc_created: "rp_CreateEventWithOutbox R e (ingest_event ie t k req) (ingest_outbox ie) r = (Inr p, r') \<Longrightarrow>
    t \<noteq> [] \<Longrightarrow> ir_EventType req \<noteq> [] \<Longrightarrow> json_Valid (ir_Payload req) \<Longrightarrow> repo_call uri_scheme R r r'"
| rc_refused: "rp_CreateEventWithOutbox R e (ingest_event ie t k req) (ingest_outbox ie) r = (Inl err, r') \<Longrightarrow>
    repo_call uri_scheme R r r'"
| rc_endpoint: "rp_CreateEndpoint R e ep r = (er, r') \<Longrightarrow> Endpoint_Validate uri_scheme ep = None \<Longrightarrow> repo_call uri_scheme R r r'"
| rc_replay: "rp_ReplayDLQEvents R e t ids r = (n, r') \<Longrightarrow> repo_call uri_scheme R r r'"
| rc_attempt: "rp_RecordDeliveryAttempt R e a r = (ro, r') \<Longrightarrow> repo_call uri_scheme R r r'"
| rc_status: "rp_UpdateEventStatus R e i st r = (uo, r') \<Longrightarrow> st \<in> {EventStatusDelivered, EventStatusDLQ} \<Longrightarrow>
    repo_call uri_scheme R r r'"

inductive mark_call :: "'r repository \<Rightarrow> 'r \<Rightarrow> 'r \<Rightarrow> bool" for R where
  mc_mark: "rp_MarkOutboxPublished R e n r = (mo, r') \<Longrightarrow> mark_call R r r'"

abbreviation repo_calls :: "(string \<Rightarrow> string option) \<Rightarrow> 'r repository \<Rightarrow> 'r \<Rightarrow> 'r \<Rightarrow> bool" where
  "repo_calls uri_scheme R \<equiv> (repo_call uri_scheme R)\<^sup>*\<^sup>*"

lemma one: "repo_call us R r r' \<Longrightarrow> repo_calls us R r r'"
  by (rule r_into_rtranclp)

lemmas one_call = repo_call.intros [THEN one]

lemma on: "repo_calls us R r r1 \<Longrightarrow> repo_calls us R r1 r2 \<Longrightarrow> repo_calls us R r r2"
  by (rule rtranclp_trans)

subsection \<open>Requests\<close>

lemma locked_calls:
  assumes "ingest_locked h lock ie rq t k w s = (w', s')" "t \<noteq> []"
  shows "repo_calls us (hd_repo h) (ap_repo s) (ap_repo s')"
  using assms(1)
proof (cases rule: ingest_locked_cases)
  case Refused
  then show ?thesis by (auto intro: one_call(2))
next
  case (Created req v ob)
  have "json_Valid (ir_Payload req)" using decode_ingest_valid [OF Created(1)] Created(3) by blast
  then show ?thesis using one_call(1) [OF Created(5) assms(2) Created(2)] by simp
qed

lemma ingest_calls:
  assumes "HandleIngestEvent h ie rq w s = (w', s')"
  shows "repo_calls us (hd_repo h) (ap_repo s) (ap_repo s')"
  using assms
proof (cases rule: HandleIngestEvent_cases)
  case Unlocked
  show ?thesis by (rule locked_calls [OF Unlocked(4,2)])
next
  case (Checked G res g)
  then show ?thesis
    using locked_calls [OF _ Checked(2), of h "Some G" ie rq _ w "s\<lparr>ap_guard := g\<rparr>" w' s' us] by auto
qed simp

lemma router_calls:
  assumes "NewRouter us h sv rq w s = (res, s')"
  shows "repo_calls us (hd_repo h) (ap_repo s) (ap_repo s')"
proof -
  have "s' = s \<or> (\<exists>route w1 res. call_handler us h route sv rq w1 s = (res, s'))"
    using assms by (auto simp: NewRouter_def corsMiddleware_def mux_serve_def Let_def split: if_splits option.splits list.splits)
  then consider "s' = s" | route w1 res where "call_handler us h route sv rq w1 s = (res, s')" by blast
  then show ?thesis
  proof cases
    case 2
    have "repo_calls us (hd_repo h) (ap_repo s) (ap_repo s')" if "HandleCreateEndpoint us h (sv_env sv) (sv_uuid sv) rq w1 s = (w2, s')" for w2
      using that by (auto simp: HandleCreateEndpoint_def Let_def intro: one_call(3) split: if_splits option.splits prod.splits)
    moreover have "repo_calls us (hd_repo h) (ap_repo s) (ap_repo s')" if "HandleReplayDLQ h (sv_env sv) rq w1 s = (w2, s')" for w2
      using that by (auto simp: HandleReplayDLQ_def Let_def intro: one_call(4) split: if_splits option.splits prod.splits sum.splits)
    ultimately show ?thesis
      using 2 ingest_calls by (cases route) (auto simp: call_handler_def split: prod.splits)
  qed simp
qed

subsection \<open>Deliveries\<close>

lemma store_calls:
  assumes "dispatch_store (Some R) de event a r = (so, r')"
  shows "repo_calls us R r r'"
proof -
  obtain ro r1 where rec: "rp_RecordDeliveryAttempt R (de_record de) a r = (ro, r1)" by fastforce
  then have "repo_call us R r r1" by (rule rc_attempt)
  moreover have "r' = r1 \<or> (\<exists>st \<in> {EventStatusDelivered, EventStatusDLQ}.
      r' = snd (rp_UpdateEventStatus R (de_update de) (ev_ID event) st r1))"
    using assms rec by (auto simp: dispatch_store_def split: option.splits if_splits)
  then have "repo_calls us R r1 r'"
    using one_call(6) [OF surjective_pairing, where R = R and us = us] by auto
  ultimately show ?thesis by (rule converse_rtranclp_into_rtranclp)
qed

lemma dispatch_calls:
  assumes "dp_repo d = Some R" "Dispatch d de epo evo n s = (res, s')"
  shows "repo_calls us R (ds_repo s) (ds_repo s')"
proof (cases "\<exists>endpoint event. epo = Some endpoint \<and> evo = Some event \<and> de_new_request de (ep_URL endpoint) = None")
  case False
  then have "s' = s" using assms(2) by (auto simp: Dispatch_def Let_def split: option.splits)
  then show ?thesis by simp
next
  case True
  then obtain endpoint event where e: "epo = Some endpoint" "evo = Some event"
    "de_new_request de (ep_URL endpoint) = None" by blast
  obtain a so r1 where st: "dispatch_store (Some R) de event a (ds_repo s) = (so, r1)" and s': "ds_repo s' = r1"
    using assms e
    by (cases "dispatch_store (Some R) de event
          (attempt_of (dp_policy d) de endpoint event (if n \<le> 0 then 1 else n)) (ds_repo s)")
      (auto simp: Dispatch_attempt Let_def split: option.splits)
  from store_calls [OF st] show ?thesis by (simp add: s')
qed

lemma retry_calls:
  assumes "dp_repo d = Some R" "retry_loop d endpoint event aes n s = (ret, trace, s')"
  shows "repo_calls us R (ds_repo s) (ds_repo s')"
  using assms
proof (induction d endpoint event aes n s arbitrary: ret trace s' rule: retry_loop.induct)
  case (1 d endpoint event aes n s)
  show ?case
  proof (cases "ae_check (aes n)")
    case (Some err)
    then show ?thesis using "1.prems" by (simp add: retry_loop.simps [of d endpoint event aes n s])
  next
    case check: None
    obtain ao err s1 where D: "Dispatch d (ae_dispatch (aes n)) (Some endpoint) (Some event) n s = ((ao, err), s1)"
      by (metis prod.exhaust)
    note m = dispatch_calls [OF "1.prems"(1) D]
    have "s' = s1 \<or> (\<exists>a ret1 rest. ao = Some a \<and> at_Status a = DeliveryStatusRetrying \<and>
        \<not> bp_MaxRetries (dp_policy d) < n + 1 \<and> ae_wait (aes n) = None \<and>
        retry_loop d endpoint event aes (n + 1) s1 = (ret1, rest, s'))"
      using "1.prems"(2) check D
      by (auto simp: retry_loop.simps [of d endpoint event aes n s] Let_def split: option.splits if_splits prod.splits)
    then consider "s' = s1" | a ret1 rest where "ao = Some a" "at_Status a = DeliveryStatusRetrying"
        "\<not> bp_MaxRetries (dp_policy d) < n + 1" "ae_wait (aes n) = None"
        "retry_loop d endpoint event aes (n + 1) s1 = (ret1, rest, s')" by blast
    then show ?thesis
    proof cases
      case 2
      have "repo_calls us R (ds_repo s1) (ds_repo s')"
        using "1.IH" [OF check D [symmetric] refl 2(1) _ _ refl 2(4) "1.prems"(1) 2(5)] 2(2,3) by simp
      then show ?thesis using on [OF m] by simp
    qed (use m in simp)
  qed
qed

lemma deliver_all_calls:
  assumes "dp_repo d = Some R" "deliver_all d event ees i eps s = (trace, s')"
  shows "repo_calls us R (ds_repo s) (ds_repo s')"
  using assms
proof (induction eps arbitrary: i s trace s')
  case Nil
  then show ?case by simp
next
  case (Cons ep eps)
  show ?case
  proof (cases "ee_check (ees i)")
    case (Some err)
    then show ?thesis using Cons.prems by simp
  next
    case None
    obtain ret tr1 s1 where R: "retry_loop d ep event (ee_attempt (ees i)) 1 s = (ret, tr1, s1)"
      by (metis prod.exhaust)
    note m = retry_calls [OF Cons.prems(1) R, of us]
    show ?thesis
    proof (cases ret)
      case True
      then show ?thesis using Cons.prems(2) None R m by simp
    next
      case False
      obtain rest s2 where D: "deliver_all d event ees (Suc i) eps s1 = (rest, s2)" by fastforce
      then have "s2 = s'" using Cons.prems(2) None R False by simp
      then show ?thesis
        using on [OF m Cons.IH [OF Cons.prems(1) D]] by simp
    qed
  qed
qed

lemma process_calls:
  assumes "dp_repo (wp_dispatcher p) = Some R" "wp_repo p = Some R" "processMessage p pe msg s = (panic, trace, s')"
  shows "panic = None \<and> repo_calls us R (ds_repo s) (ds_repo s')"
proof -
  have "panic = None \<and> (s' = s \<or> (\<exists>event eps. deliver_all (wp_dispatcher p) event (pv_endpoint pe) 0 eps s = (trace, s')))"
    using assms(2,3) by (auto simp: processMessage_def Let_def split: if_splits sum.splits prod.splits)
  then show ?thesis using deliver_all_calls [OF assms(1)] by auto
qed

text \<open>What such a call changes, over any repository with an outbox.\<close>

context outbox_repository
begin

lemma create_grows:
  assumes c: "rp_CreateEventWithOutbox R e (ingest_event ie t k req) (ingest_outbox ie) r = (res, r')" and inv: "inv r"
  shows "inv r' \<and> grows (evs r) (obs r) (evs r') (obs r')"
proof -
  have "(evs r' = evs r \<and> obs r' = obs r) \<or>
      (\<exists>w n row. evs r (ev_ID w) = None \<and> evs r' = (evs r)(ev_ID w \<mapsto> w) \<and> obs r n = None \<and>
        obs r' = (obs r)(n \<mapsto> row) \<and> ob_EventID row = ev_ID w \<and> ob_Status row = OutboxStatusPending)"
    using create_row [OF inv c] by (auto simp: ingest_event_def ingest_outbox_def)
  then have "grows (evs r) (obs r) (evs r') (obs r')"
  proof
    assume "\<exists>w n row. evs r (ev_ID w) = None \<and> evs r' = (evs r)(ev_ID w \<mapsto> w) \<and> obs r n = None \<and>
        obs r' = (obs r)(n \<mapsto> row) \<and> ob_EventID row = ev_ID w \<and> ob_Status row = OutboxStatusPending"
    then obtain w n row where "evs r (ev_ID w) = None" "evs r' = (evs r)(ev_ID w \<mapsto> w)" "obs r n = None"
      "obs r' = (obs r)(n \<mapsto> row)" "ob_EventID row = ev_ID w" "ob_Status row = OutboxStatusPending" by blast
    then show ?thesis using status_self unfolding grows_def by auto
  qed simp
  then show ?thesis using create_extends [OF inv c] by blast
qed

lemma call_grows:
  assumes "repo_call us R r r'" "inv r"
  shows "inv r' \<and> grows (evs r) (obs r) (evs r') (obs r')"
  using assms(1)
proof cases
  case (rc_created e ie t k req p)
  obtain v ob where p: "p = (v, ob)" by fastforce
  note c = rc_created(1) [unfolded p]
  show ?thesis by (rule create_grows [OF c assms(2)])
next
  case (rc_refused e ie t k req err)
  show ?thesis by (rule create_grows [OF rc_refused(1) assms(2)])
next
  case (rc_endpoint e ep er)
  then show ?thesis using endpoint_frame [OF assms(2)] by simp
next
  case (rc_replay e t ids n)
  note f = replay_frame [OF assms(2) rc_replay(1)]
  have "\<exists>st. evs r' i = Some (v\<lparr>ev_Status := st\<rparr>)" if "evs r i = Some v" for i v
    using f that by (metis option.simps(9))
  moreover have "evs r' i = None" if "evs r i = None" for i
    using f that by (metis option.simps(8))
  ultimately show ?thesis using f by (simp add: grows_def)
next
  case (rc_attempt e a ro)
  then show ?thesis using record_frame [OF assms(2)] by simp
next
  case (rc_status e i st uo)
  show ?thesis
  proof (cases uo)
    case None
    obtain v where v: "inv r'" "obs r' = obs r" "evs r i = Some v" "evs r' = (evs r)(i \<mapsto> v\<lparr>ev_Status := st\<rparr>)"
      using update_ok [OF assms(2) rc_status(1) [unfolded None]] by blast
    have "\<exists>st. evs r' j = Some (x\<lparr>ev_Status := st\<rparr>)" if "evs r j = Some x" for j x
      using that v(3) status_self by (cases "j = i") (auto simp: v(4))
    then show ?thesis using v by (auto simp: grows_def)
  next
    case (Some err)
    then have u: "inv r'" "obs r' = obs r"
      "evs r' = evs r \<or> (\<exists>v. evs r i = Some v \<and> evs r' = (evs r)(i \<mapsto> v\<lparr>ev_Status := st\<rparr>))"
      using update_error [OF assms(2)] rc_status(1) by blast+
    have "\<exists>st. evs r' j = Some (x\<lparr>ev_Status := st\<rparr>)" if "evs r j = Some x" for j x
      using that u(3) status_self by (cases "j = i") auto
    moreover have "evs r' j = None" if "evs r j = None" for j
      using that u(3) by (cases "j = i") auto
    ultimately show ?thesis using u(1,2) by (simp add: grows_def)
  qed
qed

lemma calls_grow:
  assumes "repo_calls us R r r'" "inv r"
  shows "inv r' \<and> grows (evs r) (obs r) (evs r') (obs r')"
  using assms(1)
proof (induction rule: rtranclp_induct)
  case base
  then show ?case using assms(2) by simp
next
  case (step r1 r2)
  then show ?case using call_grows grows_trans by blast
qed

end

subsection \<open>Workers\<close>

text \<open>A pool makes calls on its repository, and keeps the streams and their entries as they are.\<close>

definition pool_moves ::
    "(string \<Rightarrow> string option) \<Rightarrow> 'r repository \<Rightarrow> ('q \<Rightarrow> bool) \<Rightarrow> ('q \<Rightarrow> string \<Rightarrow> QueueMessage list) \<Rightarrow>
       ('r, 'c, 'h, 'b, 'q) pool_state \<Rightarrow> ('r, 'c, 'h, 'b, 'q) pool_state \<Rightarrow> bool" where
  "pool_moves us R qok qlog st st' \<longleftrightarrow>
     repo_calls us R (ds_repo (po_d st)) (ds_repo (po_d st')) \<and> qok (po_q st') \<and> qlog (po_q st') = qlog (po_q st)"

context queue_contract
begin

abbreviation "pool_ok R p st \<equiv> qinv (po_q st) \<and> wp_queue p = Q \<and> wp_repo p = Some R \<and> dp_repo (wp_dispatcher p) = Some R"

abbreviation "pmoves us R \<equiv> pool_moves us R qinv log"

lemma pool_still: "qinv (po_q st) \<Longrightarrow> pmoves us R st st"
  by (simp add: pool_moves_def)

lemma pool_on: "pmoves us R st st1 \<Longrightarrow> pmoves us R st1 st2 \<Longrightarrow> pmoves us R st st2"
  by (auto simp: pool_moves_def intro: on)

lemma pool_kept: "pmoves us R st st' \<Longrightarrow> pool_ok R p st \<Longrightarrow> pool_ok R p st'"
  by (simp add: pool_moves_def)

lemma ack_moves:
  assumes "qinv q"
  shows "qinv (snd (sq_AckEvent Q e sn g ids q)) \<and> log (snd (sq_AckEvent Q e sn g ids q)) = log q"
  using ack_frame [OF assms surjective_pairing] by simp

lemma handle_moves:
  assumes "pool_ok R p st" "handle_message p me msg st = (panic, trace, st')"
  shows "panic = None \<and> pmoves us R st st'"
proof -
  obtain pn tr s1 where P: "processMessage p (me_process me) msg (po_d st) = (pn, tr, s1)"
    by (metis prod.exhaust)
  have m: "pn = None" "repo_calls us R (ds_repo (po_d st)) (ds_repo s1)"
    using process_calls [OF _ _ P] assms(1) by auto
  then show ?thesis
    using assms P ack_moves by (auto simp: handle_message_def pool_moves_def)
qed

lemma messages_moves:
  assumes "pool_ok R p st" "worker_messages p mes i msgs st = (go, trace, st')"
  shows "pmoves us R st st'"
  using assms
proof (induction msgs arbitrary: i st go trace)
  case Nil
  then show ?case by (simp add: pool_still)
next
  case (Cons msg msgs)
  show ?case
  proof (cases "me_check (mes i)")
    case (Some err)
    then show ?thesis using Cons.prems by (simp add: pool_still)
  next
    case None
    obtain panic tr st1 where H: "handle_message p (mes i) msg st = (panic, tr, st1)"
      by (metis prod.exhaust)
    note m = handle_moves [OF Cons.prems(1) H]
    obtain go2 rest st2 where W: "worker_messages p mes (Suc i) msgs st1 = (go2, rest, st2)"
      by (metis prod.exhaust)
    have "st2 = st'" using Cons.prems(2) None H m W by simp
    then show ?thesis
      using Cons.IH [OF pool_kept [OF conjunct2 [OF m] Cons.prems(1)], of "Suc i" go2 rest] W m pool_on by blast
  qed
qed

lemma worker_moves:
  assumes "pool_ok R p st" "worker_step p workerID wr st = (go, trace, st')"
  shows "pmoves us R st st'"
proof (cases "wr_done wr")
  case True
  then show ?thesis using assms by (auto simp: worker_step_def pool_still)
next
  case False
  obtain r q1 where r: "sq_ReadEvents Q (wr_read wr) (cf_StreamName (wp_cfg p)) (cf_GroupName (wp_cfg p))
      (''worker-'' @ show_int (int workerID)) (cf_BatchSize (wp_cfg p)) (cf_PollInterval (wp_cfg p)) (po_q st) = (r, q1)"
    by fastforce
  have q1: "qinv q1" "log q1 = log (po_q st)"
    using r assms(1) read_ok [of "po_q st"] read_error [of "po_q st"] by (cases r; blast)+
  then have m: "pmoves us R st (st\<lparr>po_q := q1\<rparr>)" using assms(1) by (simp add: pool_moves_def)
  show ?thesis
  proof (cases r)
    case (Inl err)
    then have "st' = st\<lparr>po_q := q1\<rparr>" using assms r False by (auto simp: worker_step_def split: if_splits)
    then show ?thesis using m by simp
  next
    case (Inr ms)
    then have "worker_messages p (wr_message wr) 0 ms (st\<lparr>po_q := q1\<rparr>) = (go, trace, st')"
      using assms r False by (simp add: worker_step_def)
    then show ?thesis using messages_moves [OF pool_kept [OF m assms(1)]] m pool_on by blast
  qed
qed

subsection \<open>Recovery\<close>

lemma claimed_moves:
  assumes "pool_ok R p st" "handle_claimed p ce msg st = (panic, trace, st')"
  shows "panic = None \<and> pmoves us R st st'"
proof -
  let ?n = "claims_of (po_claimAttempts st) (qm_ID msg) + 1"
  define st1 where "st1 = st\<lparr>po_claimAttempts := AList.update (qm_ID msg) ?n (po_claimAttempts st)\<rparr>"
  have m: "pmoves us R st st1" using assms(1) by (simp add: st1_def pool_moves_def)
  have ok1: "pool_ok R p st1" using assms(1) by (simp add: st1_def)
  show ?thesis
  proof (cases "?n > cf_MaxClaimAttempts (wp_cfg p)")
    case False
    then have "handle_message p (cl_message ce) msg st1 = (panic, trace, st')"
      using assms(2) by (simp add: handle_claimed_def st1_def Let_def)
    then show ?thesis using handle_moves [OF ok1] m pool_on by blast
  next
    case True
    then show ?thesis
      using assms ack_moves one_call(6) [OF surjective_pairing, where R = R and us = us and r = "ds_repo (po_d st)"]
      by (auto simp: handle_claimed_def Let_def pool_moves_def)
  qed
qed

lemma claimed_messages_moves:
  assumes "pool_ok R p st" "claimed_messages p ces i msgs st = (go, trace, st')"
  shows "pmoves us R st st'"
  using assms
proof (induction msgs arbitrary: i st go trace)
  case Nil
  then show ?case by (simp add: pool_still)
next
  case (Cons msg msgs)
  show ?case
  proof (cases "cl_check (ces i)")
    case (Some err)
    then show ?thesis using Cons.prems by (simp add: pool_still)
  next
    case None
    obtain panic tr st1 where H: "handle_claimed p (ces i) msg st = (panic, tr, st1)"
      by (metis prod.exhaust)
    note m = claimed_moves [OF Cons.prems(1) H]
    obtain go2 rest st2 where W: "claimed_messages p ces (Suc i) msgs st1 = (go2, rest, st2)"
      by (metis prod.exhaust)
    have "st2 = st'" using Cons.prems(2) None H m W by simp
    then show ?thesis
      using Cons.IH [OF pool_kept [OF conjunct2 [OF m] Cons.prems(1)], of "Suc i" go2 rest] W m pool_on by blast
  qed
qed

lemma passes_moves:
  assumes "pool_ok R p st" "list_all (\<lambda>pa. env_ok (pa_claim pa)) pas" "pel_passes p pas startID st = (go, startID', trace, st')"
  shows "pmoves us R st st'"
  using assms
proof (induction pas arbitrary: startID st go startID' trace st')
  case Nil
  then show ?case by (simp add: pool_still)
next
  case (Cons pa pas)
  show ?case
  proof (cases "pa_check pa")
    case (Some err)
    then show ?thesis using Cons.prems by (simp add: pool_still)
  next
    case None
    obtain r q1 where r: "sq_AutoClaim Q (pa_claim pa) (cf_StreamName (wp_cfg p)) (cf_GroupName (wp_cfg p))
        ''pel-auto-reclaimer'' (cf_MinIdleDuration (wp_cfg p)) startID (cf_BatchSize (wp_cfg p)) (po_q st) = (r, q1)"
      by fastforce
    have e: "env_ok (pa_claim pa)" "list_all (\<lambda>pa. env_ok (pa_claim pa)) pas" using Cons.prems(2) by simp_all
    have "qinv q1 \<and> log q1 = log (po_q st)"
    proof (cases r)
      case (Inl err)
      then show ?thesis using claim_error [OF _ e(1)] r Cons.prems(1) by blast
    next
      case (Inr x)
      obtain ms i1 where "x = (ms, i1)" by fastforce
      then show ?thesis using claim_ok [OF _ e(1)] r Inr Cons.prems(1) by blast
    qed
    then have m: "pmoves us R st (st\<lparr>po_q := q1\<rparr>)" using Cons.prems(1) by (simp add: pool_moves_def)
    note ok1 = pool_kept [OF m Cons.prems(1)]
    show ?thesis
    proof (cases "\<exists>claimed nextStart. r = Inr (claimed, nextStart) \<and> claimed \<noteq> []")
      case False
      then have "st' = st\<lparr>po_q := q1\<rparr>"
        using Cons.prems None r by (auto split: sum.splits prod.splits if_splits)
      then show ?thesis using m by simp
    next
      case True
      then obtain claimed nextStart where c: "r = Inr (claimed, nextStart)" "claimed \<noteq> []" by blast
      obtain go1 tr1 st1 where C: "claimed_messages p (pa_message pa) 0 claimed (st\<lparr>po_q := q1\<rparr>) = (go1, tr1, st1)"
        by (metis prod.exhaust)
      have m1: "pmoves us R st st1" using claimed_messages_moves [OF ok1 C] m pool_on by blast
      obtain go2 s2 tr2 st2 where L: "pel_passes p pas nextStart st1 = (go2, s2, tr2, st2)" by (metis prod.exhaust)
      have "st' = st1 \<or> st' = st2"
        using Cons.prems None r c C L by (cases go1) (auto split: if_splits)
      then show ?thesis
        using Cons.IH [OF pool_kept [OF m1 Cons.prems(1)] e(2) L] m1 pool_on by blast
    qed
  qed
qed

end

subsection \<open>The relay\<close>

lemma items_mark:
  "relay_items rl ies i items c r q = (res, r', q') \<Longrightarrow> (mark_call (rl_repo rl))\<^sup>*\<^sup>* r r'"
proof (induction items arbitrary: i c r q)
  case (Cons ob items)
  show ?case
  proof (cases "ie_check (ies i) = None")
    case False
    then show ?thesis using Cons.prems by auto
  next
    case check: True
    show ?thesis
    proof (cases "rp_GetEvent (rl_repo rl) (ie_get (ies i)) (ob_EventID ob) r")
      case (Inl err)
      then show ?thesis using Cons.prems check Cons.IH by (cases "errors_is err ErrNotFound") auto
    next
      case (Inr v)
      obtain po q1 where p: "sq_PublishEvent (rl_queue rl) (ie_publish (ies i)) (rl_streamName rl) (Some v) q = (po, q1)"
        by fastforce
      obtain mo r1 where m: "rp_MarkOutboxPublished (rl_repo rl) (ie_mark (ies i)) (ob_ID ob) r = (mo, r1)" by fastforce
      note one = mc_mark [OF m]
      show ?thesis
      proof (cases po)
        case (Inl err)
        then show ?thesis using Cons.prems check Inr p by auto
      next
        case ok: (Inr msgID)
        show ?thesis
        proof (cases mo)
          case (Some err)
          then have "r' = r1" using Cons.prems check Inr p ok m by simp
          then show ?thesis using one by simp
        next
          case None
          then have "relay_items rl ies (Suc i) items (c + 1) r1 q1 = (res, r', q')" using Cons.prems check Inr p ok m by simp
          from Cons.IH [OF this] one show ?thesis by (rule converse_rtranclp_into_rtranclp [rotated])
        qed
      qed
    qed
  qed
qed simp

lemma batch_marks:
  assumes "ProcessNextBatch rl be n r q = (res, r', q')"
  shows "(mark_call (rl_repo rl))\<^sup>*\<^sup>* r r'"
proof -
  have "r' = r \<or> (\<exists>items. relay_items rl (be_item be) 0 items 0 r q = (res, r', q'))"
    using assms by (auto simp: ProcessNextBatch_def Let_def split: option.splits sum.splits if_splits)
  then show ?thesis
  proof (elim disjE exE)
    fix items
    assume "relay_items rl (be_item be) 0 items 0 r q = (res, r', q')"
    then show ?thesis by (rule items_mark)
  qed simp
qed

subsection \<open>Every step\<close>

locale server_system =
  repo: outbox_repository R evs obs inv + relay_system R evs obs inv Q log pend qinv
  for R :: "'r repository" and evs obs inv and Q :: "'q stream_queue" and log pend qinv
begin

abbreviation "wired srv \<equiv> hd_repo (sr_handler srv) = R \<and> sr_relay srv = \<lparr>rl_repo = R, rl_queue = Q, rl_streamName = ''stream:events:pending''\<rparr> \<and>
  wp_queue (sr_pool srv) = Q \<and> wp_repo (sr_pool srv) = Some R \<and> dp_repo (wp_dispatcher (sr_pool srv)) = Some R"

abbreviation "system_ok s \<equiv> inv (sy_repo s) \<and> qinv (sy_queue s) \<and>
  accounted (evs (sy_repo s)) (obs (sy_repo s)) (log (sy_queue s) ''stream:events:pending'')"

abbreviation "keeps_events s s' \<equiv> \<forall>i v. evs (sy_repo s) i = Some v \<longrightarrow> (\<exists>st. evs (sy_repo s') i = Some (v\<lparr>ev_Status := st\<rparr>))"

lemma system_moves:
  assumes "system_ok s" "repo_calls us R (sy_repo s) (sy_repo s')" "qinv (sy_queue s')" "log (sy_queue s') = log (sy_queue s)"
  shows "system_ok s' \<and> keeps_events s s'"
proof -
  have g: "inv (sy_repo s')" "grows (evs (sy_repo s)) (obs (sy_repo s)) (evs (sy_repo s')) (obs (sy_repo s'))"
    using repo.calls_grow [OF assms(2)] assms(1) by simp_all
  have "keeps_events s s'" using g(2) by (simp add: grows_def)
  moreover have "accounted (evs (sy_repo s')) (obs (sy_repo s')) (log (sy_queue s') ''stream:events:pending'')"
    using accounted_grows [OF _ g(2)] assms(1,4) by simp
  ultimately show ?thesis using g(1) assms(3) by simp
qed

lemma step_keeps:
  assumes "server_step srv uri_scheme s s'" "wired srv" "system_ok s"
  shows "system_ok s' \<and> keeps_events s s'"
  using assms(1)
proof cases
  case (a_request sv rq w res)
  obtain a where a: "NewRouter uri_scheme (sr_handler srv) sv rq w (api_view s) = (res, a)"
    "s' = s\<lparr>sy_repo := ap_repo a, sy_guard := ap_guard a, sy_metrics := ap_metrics a\<rparr>"
    using a_request by (auto simp: server_request_def split: prod.splits)
  have "repo_calls uri_scheme R (sy_repo s) (ap_repo a)" using router_calls [OF a(1)] assms(2) by simp
  then show ?thesis using system_moves [of s uri_scheme s'] assms(3) a(2) by simp
next
  case (a_batch be res)
  obtain r' q' where b: "ProcessNextBatch \<lparr>rl_repo = R, rl_queue = Q, rl_streamName = ''stream:events:pending''\<rparr> be
      (if sr_batch srv \<le> 0 then 100 else sr_batch srv) (sy_repo s) (sy_queue s) = (res, r', q')"
    "s' = s\<lparr>sy_repo := r', sy_queue := q'\<rparr>"
    using a_batch assms(2) by (auto simp: server_relay_def split: prod.splits)
  have i: "inv (sy_repo s)" "qinv (sy_queue s)" using assms(3) by simp_all
  from batch_published [OF i a_batch(2) b(1)] obtain new where
    n: "inv r'" "qinv q'" "evs r' = evs (sy_repo s)"
      "log q' = (log (sy_queue s))(''stream:events:pending'' := log (sy_queue s) ''stream:events:pending'' @ new)"
      "\<forall>k. obs r' k = obs (sy_repo s) k \<or> (\<exists>row t v msg. obs (sy_repo s) k = Some row \<and> ob_Status row = OutboxStatusPending \<and>
          obs r' k = Some (row\<lparr>ob_Status := OutboxStatusPublished, ob_ProcessedAt := t\<rparr>) \<and>
          evs (sy_repo s) (ob_EventID row) = Some v \<and> msg \<in> set new \<and> carries msg v)"
    by blast
  then show ?thesis
    using accounted_published [OF conjunct2 [OF conjunct2 [OF assms(3)]] n(5)] b(2) by (simp add: n)
next
  case (a_turn workerID wr go trace)
  obtain st where w: "worker_step (sr_pool srv) workerID wr (pool_view s) = (go, trace, st)" "s' = put_pool st s"
    using a_turn by (auto simp: server_worker_def split: prod.splits)
  have "que.pmoves uri_scheme R (pool_view s) st" using que.worker_moves [OF _ w(1)] assms(2,3) by simp
  then show ?thesis using system_moves [of s uri_scheme s'] assms(3) w(2) by (simp add: pool_moves_def)
next
  case (a_recovery pas startID go startID' trace)
  obtain st where w: "pel_passes (sr_pool srv) pas startID (pool_view s) = (go, startID', trace, st)" "s' = put_pool st s"
    using a_recovery by (auto simp: server_recovery_def split: prod.splits)
  have "que.pmoves uri_scheme R (pool_view s) st" using que.passes_moves [OF _ a_recovery(2) w(1)] assms(2,3) by simp
  then show ?thesis using system_moves [of s uri_scheme s'] assms(3) w(2) by (simp add: pool_moves_def)
qed

lemma run_keeps:
  assumes "server_run srv uri_scheme s s'" "wired srv" "system_ok s"
  shows "system_ok s' \<and> keeps_events s s'"
  using assms(1)
proof (induction rule: rtranclp_induct)
  case base
  then show ?case using assms(3) by simp
next
  case (step s1 s2)
  note k = step_keeps [OF step.hyps(2) assms(2) conjunct1 [OF step.IH]]
  have "\<exists>st. evs (sy_repo s2) i = Some (v\<lparr>ev_Status := st\<rparr>)" if v: "evs (sy_repo s) i = Some v" for i v
  proof -
    obtain st where "evs (sy_repo s1) i = Some (v\<lparr>ev_Status := st\<rparr>)" using step.IH v by blast
    then obtain st' where "evs (sy_repo s2) i = Some (v\<lparr>ev_Status := st, ev_Status := st'\<rparr>)" using k by blast
    then show ?thesis by auto
  qed
  then show ?case using k by blast
qed

end

end
