(* ===== verification/SystemRuns.thy ===== *)
theory SystemRuns
  imports System
begin

text \<open>
  Properties of the running server over its wiring: accepted events are never lost, on the in-memory
  components and on PostgreSQL with Redis, and what its store holds is well typed.
\<close>

section \<open>Accepted requests\<close>

lemma ingest_route:
  assumes "rq_Method rq = ''POST''" "rq_URL rq = ''/api/v1/events''"
  shows "NewRouter uri_scheme h sv rq w s =
    (case HandleIngestEvent h (sv_ingest sv) rq (w\<lparr>w_Header := cors_header (Header_Get (rq_Header rq) ''Origin'') (w_Header w)\<rparr>) s of
       (w1, s1) \<Rightarrow> (Response w1, s1))"
proof -
  have "route_for ''POST'' ''/api/v1/events'' = Some IngestEvent" "cleanPath ''/api/v1/events'' = ''/api/v1/events''"
    by code_simp+
  then show ?thesis using assms by (simp add: NewRouter_def corsMiddleware_def mux_serve_def call_handler_def Let_def)
qed

lemma replay_header: "Header_Get (Header_Set ''X-Idempotency-Replay'' ''true'' hdr) ''X-Idempotency-Replay'' = ''true''"
  by simp

text \<open>A 202 response that is no replay comes from a creation.\<close>

lemma accepted_creates:
  assumes "HandleIngestEvent h ie rq w s = (w', s')" "w_Code w' = 202" "Header_Get (w_Header w') ''X-Idempotency-Replay'' \<noteq> ''true''"
  shows "\<exists>req v ob. decode_ingest (rq_Body rq) = Some req \<and>
    rp_CreateEventWithOutbox (hd_repo h) (ie_create ie)
      (ingest_event ie (Header_Get (rq_Header rq) HeaderTenantID) (Header_Get (rq_Header rq) HeaderIdempotencyKey) req)
      (ingest_outbox ie) (ap_repo s) = (Inr (v, ob), ap_repo s')"
proof -
  let ?t = "Header_Get (rq_Header rq) HeaderTenantID" and ?k = "Header_Get (rq_Header rq) HeaderIdempotencyKey"
  have locked: ?thesis if "ingest_locked h lock ie rq ?t ?k w s0 = (w', s')" "ap_repo s0 = ap_repo s" for lock s0
    using that(1)
  proof (cases rule: ingest_locked_cases)
    case Refused
    then show ?thesis using assms(2) by simp
  next
    case (Created req v ob)
    then show ?thesis using that(2) by auto
  qed
  from assms(1) show ?thesis
  proof (cases rule: HandleIngestEvent_cases)
    case Rejected
    then show ?thesis using assms(2) by simp
  next
    case Unlocked
    then show ?thesis using locked by blast
  next
    case (Checked G res g)
    then show ?thesis using locked [of "Some G" "s\<lparr>ap_guard := g\<rparr>"] assms(2,3) by auto
  qed
qed

lemma accepted_request:
  assumes "server_request srv uri_scheme sv rq w s = (Response w', s')" "rq_Method rq = ''POST''" "rq_URL rq = ''/api/v1/events''"
    and "w_Code w' = 202" "Header_Get (w_Header w') ''X-Idempotency-Replay'' \<noteq> ''true''"
  shows "\<exists>req v ob. decode_ingest (rq_Body rq) = Some req \<and>
    rp_CreateEventWithOutbox (hd_repo (sr_handler srv)) (ie_create (sv_ingest sv))
      (ingest_event (sv_ingest sv) (Header_Get (rq_Header rq) HeaderTenantID) (Header_Get (rq_Header rq) HeaderIdempotencyKey) req)
      (ingest_outbox (sv_ingest sv)) (sy_repo s) = (Inr (v, ob), sy_repo s')"
proof -
  let ?w = "w\<lparr>w_Header := cors_header (Header_Get (rq_Header rq) ''Origin'') (w_Header w)\<rparr>"
  obtain a where "HandleIngestEvent (sr_handler srv) (sv_ingest sv) rq ?w (api_view s) = (w', a)" "sy_repo s' = ap_repo a"
    using assms(1) by (auto simp: server_request_def ingest_route [OF assms(2,3)] split: prod.splits)
  from accepted_creates [OF this(1) assms(4,5)] this(2) show ?thesis by simp
qed

section \<open>In memory\<close>

interpretation msys: server_system memory_repository mr_evs mr_obs mr_inv memory_stream_queue mq_log mq_pend mq_inv
  by unfold_locales

abbreviation memory_server ::
    "('c, 'h) prom_ops \<Rightarrow> (nat \<Rightarrow> nat list) \<Rightarrow> (string \<Rightarrow> string) \<Rightarrow> (memory_repo, memory_guard, mem_queue, 'c, 'h) server" where
  "memory_server P ord osenv \<equiv> wire_server P ord osenv memory_repository memory_stream_queue memory_guard_ops"

abbreviation memory_start ::
    "('c, 'h) prom_ops \<Rightarrow> (nat \<Rightarrow> nat list) \<Rightarrow> (string \<Rightarrow> string) \<Rightarrow> env \<Rightarrow> (memory_repo, memory_guard, mem_queue, 'c, 'h) system" where
  "memory_start P ord osenv e \<equiv>
     snd (server_start (memory_server P ord osenv) P e NewMemoryRepository NewMemoryGuard NewMemoryStreamQueue)"

lemma accounted_none [simp]: "accounted Map.empty rows ms"
  by (simp add: accounted_def)

lemma memory_start_ok:
  "mr_inv (sy_repo (memory_start P ord osenv e)) \<and> mq_inv (sy_queue (memory_start P ord osenv e)) \<and>
   accounted (mr_evs (sy_repo (memory_start P ord osenv e))) (mr_obs (sy_repo (memory_start P ord osenv e)))
     (mq_log (sy_queue (memory_start P ord osenv e)) ''stream:events:pending'')"
proof -
  obtain err ctl q1 where s: "Pool_Start (sr_pool (memory_server P ord osenv)) e new_pool_ctl NewMemoryStreamQueue = (err, ctl, q1)"
    by (metis prod.exhaust)
  have "q1 = NewMemoryStreamQueue \<or> q1 = snd (mq_CreateConsumerGroup e ''stream:events:pending'' ''worker-group'' ''0'' NewMemoryStreamQueue)"
    using s by (auto simp: Pool_Start_def memory_stream_queue_def split: if_splits)
  then have "mq_inv q1" using mq_inv_new mq_inv_create_group by auto
  moreover have "mr_evs NewMemoryRepository = Map.empty" by (simp add: NewMemoryRepository_def)
  ultimately show ?thesis using s mr_reachable_inv [OF reach_new] by (simp add: server_start_def)
qed

text \<open>C1: no accepted event is ever lost: at any point of any run of the server in memory, whatever requests,
  relay batches, worker turns and recovery passes ran before and run afterwards and whatever fails in them,
  a request answered 202 that is no replay has stored a new event with its tenant, key, type and payload;
  from then on the event stays stored with these, and either an outbox row naming it is still pending or a
  message carrying it is in the stream.\<close>

theorem accepted_never_lost:
  assumes "server_run (memory_server P ord osenv) uri_scheme (memory_start P ord osenv e) s"
    and "server_request (memory_server P ord osenv) uri_scheme sv rq w s = (Response w', s1)"
    and "rq_Method rq = ''POST''" "rq_URL rq = ''/api/v1/events''"
    and "w_Code w' = 202" "Header_Get (w_Header w') ''X-Idempotency-Replay'' \<noteq> ''true''"
    and "server_run (memory_server P ord osenv) uri_scheme s1 s2"
  shows "\<exists>req v st. decode_ingest (rq_Body rq) = Some req \<and>
    ev_TenantID v = Header_Get (rq_Header rq) HeaderTenantID \<and>
    ev_IdempotencyKey v = Header_Get (rq_Header rq) HeaderIdempotencyKey \<and>
    ev_EventType v = ir_EventType req \<and> ev_Payload v = ir_Payload req \<and>
    mr_evs (sy_repo s) (ev_ID v) = None \<and> mr_evs (sy_repo s2) (ev_ID v) = Some (v\<lparr>ev_Status := st\<rparr>) \<and>
    ((\<exists>n ob. mr_obs (sy_repo s2) n = Some ob \<and> ob_EventID ob = ev_ID v \<and> ob_Status ob = OutboxStatusPending) \<or>
     (\<exists>msg \<in> set (mq_log (sy_queue s2) ''stream:events:pending''). carries msg v))"
proof -
  let ?srv = "memory_server P ord osenv"
  have ok: "msys.system_ok s" using msys.run_keeps [OF assms(1) _ memory_start_ok] by simp
  have "server_step ?srv uri_scheme s s1" by (rule a_request [OF assms(2)])
  then have ok1: "msys.system_ok s1" using msys.step_keeps [OF _ _ ok] by simp
  have ok2: "msys.system_ok s2" "msys.keeps_events s1 s2" using msys.run_keeps [OF assms(7) _ ok1] by simp_all
  obtain req v ob where c: "decode_ingest (rq_Body rq) = Some req"
    "rp_CreateEventWithOutbox memory_repository (ie_create (sv_ingest sv))
      (ingest_event (sv_ingest sv) (Header_Get (rq_Header rq) HeaderTenantID) (Header_Get (rq_Header rq) HeaderIdempotencyKey) req)
      (ingest_outbox (sv_ingest sv)) (sy_repo s) = (Inr (v, ob), sy_repo s1)"
    using accepted_request [OF assms(2-6)] by auto
  obtain t where v: "v = (ingest_event (sv_ingest sv) (Header_Get (rq_Header rq) HeaderTenantID)
      (Header_Get (rq_Header rq) HeaderIdempotencyKey) req)\<lparr>ev_CreatedAt := t\<rparr>"
    and new: "mr_evs (sy_repo s) (ev_ID v) = None" "mr_evs (sy_repo s1) (ev_ID v) = Some v"
    using mr.create_ok [OF conjunct1 [OF ok] c(2)] by auto
  obtain st where st: "mr_evs (sy_repo s2) (ev_ID v) = Some (v\<lparr>ev_Status := st\<rparr>)" using ok2(2) new(2) by blast
  then have "(\<exists>n ob. mr_obs (sy_repo s2) n = Some ob \<and> ob_EventID ob = ev_ID v \<and> ob_Status ob = OutboxStatusPending) \<or>
     (\<exists>msg \<in> set (mq_log (sy_queue s2) ''stream:events:pending''). carries msg v)"
    using ok2(1) unfolding accounted_def by (metis carries_status)
  then show ?thesis
    using c(1) v new(1) st by (intro exI [of _ req] exI [of _ v] exI [of _ st]) (simp add: ingest_event_def)
qed

text \<open>The first request of the examples.\<close>

definition demo_server :: "(memory_repo, memory_guard, mem_queue, string list \<Rightarrow> nat, nat) server" where
  "demo_server = memory_server counting_prom (\<lambda>n. [0..<n]) (\<lambda>_. '''')"

definition demo_serve :: serve_env where
  "demo_serve = \<lparr>sv_ingest = ingest_env0 10 ''u1'', sv_env = env0, sv_uuid = ''u1''\<rparr>"

lemma demo_request:
  assumes "sy_guard s = NewMemoryGuard" "sy_repo s = NewMemoryRepository\<lparr>mr_endpoints := eps\<rparr>"
  shows "\<exists>w' s1. server_request demo_server scheme0 demo_serve (ingest_request ''k1'' body0) writer0 s = (Response w', s1) \<and>
    w_Code w' = 202 \<and> Header_Get (w_Header w') ''X-Idempotency-Replay'' \<noteq> ''true'' \<and> mr_evs (sy_repo s1) = [''evt_u1'' \<mapsto> ingested0] \<and>
    (\<exists>ob. mr_obs (sy_repo s1) = [1 \<mapsto> ob] \<and> ob_EventID ob = ''evt_u1'' \<and> ob_Status ob = OutboxStatusPending) \<and>
    mr_endpoints (sy_repo s1) = eps \<and> mr_attempts (sy_repo s1) = [] \<and> sy_queue s1 = sy_queue s"
proof -
  let ?h = "sr_handler demo_server"
  let ?w = "writer0\<lparr>w_Header := cors_header (Header_Get (rq_Header (ingest_request ''k1'' body0)) ''Origin'') (w_Header writer0)\<rparr>"
  have h: "hd_guard ?h = Some memory_guard_ops" "hd_repo ?h = memory_repository" "hd_idempTTL ?h = 86400000000000"
    by (simp_all add: demo_server_def) (simp add: wire_server_def WithSSEBroker_def NewHandler_def DefaultIdempTTL_def Hour_def Let_def)
  obtain bytes where b: "ingest_response ingested0 = Some bytes"
    using time_json_10 by (auto simp: ingested0_def ingest_event_def ingest_response_def json_time_def)
  obtain g where a: "gd_AcquireLock memory_guard_ops (genv 10) ''acme'' ''k1'' 86400000000000 NewMemoryGuard =
      (Inr (True, None), g)"
    by (simp add: memory_guard_ops_def gm_AcquireLock_def NewMemoryGuard_def Let_def)
  obtain ob r1 where c: "mr_CreateEventWithOutbox (genv 10) ingested0 (ingest_outbox (ingest_env0 10 ''u1''))
      (NewMemoryRepository\<lparr>mr_endpoints := eps\<rparr>) = (Inr (ingested0, ob), r1)" "mr_evs r1 = [''evt_u1'' \<mapsto> ingested0]"
    "mr_obs r1 = [1 \<mapsto> ob]" "ob_EventID ob = ''evt_u1''" "ob_Status ob = OutboxStatusPending" "mr_endpoints r1 = eps" "mr_attempts r1 = []"
    by (simp add: ingest_outbox_def mr_CreateEventWithOutbox_def NewMemoryRepository_def Let_def ingested0_def ingest_event_def)
  obtain a1 where l: "ingest_locked ?h (Some memory_guard_ops) (ingest_env0 10 ''u1'') (ingest_request ''k1'' body0) ''acme'' ''k1''
      ?w ((api_view s)\<lparr>ap_guard := g\<rparr>) =
      (\<lparr>w_Header = Header_Set ''Content-Type'' ''application/json'' (w_Header ?w), w_Code = 202, w_Body = w_Body ?w @ [bytes]\<rparr>, a1)"
      "ap_repo a1 = r1"
    using b c(1) assms by (simp add: ingest_locked_def decode_body0 json_Valid_payload0 memory_repository_def h
        ingested0_def [symmetric] Let_def)
  have e: "HandleIngestEvent ?h (ingest_env0 10 ''u1'') (ingest_request ''k1'' body0) ?w (api_view s) =
      (\<lparr>w_Header = Header_Set ''Content-Type'' ''application/json'' (w_Header ?w), w_Code = 202, w_Body = w_Body ?w @ [bytes]\<rparr>, a1)"
    using a l(1) assms by (simp add: HandleIngestEvent_def h Let_def)
  have url: "rq_URL (ingest_request ''k1'' body0) = ''/api/v1/events''" by (simp add: ingest_request_def)
  have "Header_Get (Header_Set ''Content-Type'' ''application/json'' (cors_header '''' [])) ''X-Idempotency-Replay'' = ''''"
    "Header_Get (rq_Header (ingest_request ''k1'' body0)) ''Origin'' = ''''"
    by code_simp+
  then show ?thesis
    using e l(2) c(2-7)
    by (simp add: server_request_def ingest_route [OF _ url] demo_serve_def writer0_def) (intro exI [of _ ob], simp)
qed

theorem accepted_never_lost_witness:
  "\<exists>w' s1. server_request demo_server scheme0 demo_serve (ingest_request ''k1'' body0) writer0
       (memory_start counting_prom (\<lambda>n. [0..<n]) (\<lambda>_. '''') env0) = (Response w', s1) \<and>
     mr_evs (sy_repo s1) ''evt_u1'' \<noteq> None \<and>
     ((\<exists>n ob. mr_obs (sy_repo s1) n = Some ob \<and> ob_EventID ob = ''evt_u1'' \<and> ob_Status ob = OutboxStatusPending) \<or>
      (\<exists>msg \<in> set (mq_log (sy_queue s1) ''stream:events:pending''). qm_EventID msg = ''evt_u1''))"
proof -
  let ?s = "memory_start counting_prom (\<lambda>n. [0..<n]) (\<lambda>_. '''') env0"
  have "sy_guard ?s = NewMemoryGuard" "sy_repo ?s = NewMemoryRepository\<lparr>mr_endpoints := []\<rparr>"
    by (simp_all add: server_start_def NewMemoryRepository_def split: prod.split)
  from demo_request [OF this] obtain w' s1 where
    d: "server_request demo_server scheme0 demo_serve (ingest_request ''k1'' body0) writer0 ?s = (Response w', s1)"
      "w_Code w' = 202" "Header_Get (w_Header w') ''X-Idempotency-Replay'' \<noteq> ''true''" "mr_evs (sy_repo s1) = [''evt_u1'' \<mapsto> ingested0]"
    by blast
  have url: "rq_URL (ingest_request ''k1'' body0) = ''/api/v1/events''" by (simp add: ingest_request_def)
  have post: "rq_Method (ingest_request ''k1'' body0) = ''POST''" by simp
  from accepted_never_lost [OF rtranclp.rtrancl_refl d(1) [unfolded demo_server_def] post url d(2,3) rtranclp.rtrancl_refl]
  obtain v st where v: "mr_evs (sy_repo s1) (ev_ID v) = Some (v\<lparr>ev_Status := st\<rparr>)"
    "(\<exists>n ob. mr_obs (sy_repo s1) n = Some ob \<and> ob_EventID ob = ev_ID v \<and> ob_Status ob = OutboxStatusPending) \<or>
     (\<exists>msg \<in> set (mq_log (sy_queue s1) ''stream:events:pending''). carries msg v)"
    by blast
  have "ev_ID v = ''evt_u1''" using v(1) d(4) by (simp split: if_splits)
  then show ?thesis using v d(1,4) by (auto simp: carries_def)
qed

section \<open>On PostgreSQL and Redis\<close>

lemma durable_system:
  assumes "streams_documented (rs_client rq) slog spend"
  shows "server_system (postgres_repository D) pg_evs pg_obs pg_inv (redis_stream_queue general rq)
    (rq_log general slog) (rq_pend general spend) (\<lambda>q. True)"
  by (intro server_system.intro pgx.outbox_repository_axioms relay_system.intro pg.repository_contract_axioms
      redis_queue_contract [OF assms])

text \<open>C2: no stored event is ever lost on PostgreSQL with Redis: the server starts on any database its calls can
  have left behind in which every event is accounted for, by a pending outbox row or by an entry that was
  added to the stream; then in every run, whatever statement or COMMIT fails and whether or not it had
  taken effect when its answer was lost, whatever rows other transactions hold locked, and whichever Redis
  calls are repeated, refused or lose their reply, every event is kept, up to its status, and every event,
  old or new, is accounted for. The Redis commands do what Redis documents; an entry that was added counts
  even when the server trims it later.\<close>

theorem durable_never_lost:
  assumes "pg_reachable D db" "streams_documented (rs_client rq) slog spend"
    and "accounted (pg_evs db) (pg_obs db) (rq_log general slog r ''stream:events:pending'')"
    and "server_start (wire_server P ord osenv (postgres_repository D) (redis_stream_queue general rq) gd) P e db g r = (err, s0)"
    and "server_run (wire_server P ord osenv (postgres_repository D) (redis_stream_queue general rq) gd) uri_scheme s0 s"
  shows "accounted (pg_evs (sy_repo s)) (pg_obs (sy_repo s)) (rq_log general slog (sy_queue s) ''stream:events:pending'') \<and>
    (\<forall>i v. pg_evs db i = Some v \<longrightarrow> (\<exists>st. pg_evs (sy_repo s) i = Some (v\<lparr>ev_Status := st\<rparr>)))"
proof -
  let ?srv = "wire_server P ord osenv (postgres_repository D) (redis_stream_queue general rq) gd"
  obtain err1 ctl q1 where p: "Pool_Start (sr_pool ?srv) e new_pool_ctl r = (err1, ctl, q1)" by (metis prod.exhaust)
  have "rq_log general slog q1 = rq_log general slog r"
  proof (cases "q1 = r")
    case False
    then have "q1 = snd (sq_CreateConsumerGroup (redis_stream_queue general rq) e ''stream:events:pending'' ''worker-group'' ''0'' r)"
      using p by (auto simp: Pool_Start_def split: if_splits)
    then show ?thesis
      using queue_contract.create_frame [OF redis_queue_contract [OF assms(2)] TrueI surjective_pairing] by blast
  qed simp
  moreover have "sy_repo s0 = db" "sy_queue s0 = q1" using assms(4) p by (auto simp: server_start_def)
  ultimately have start: "pg_inv (sy_repo s0) \<and> True \<and> accounted (pg_evs (sy_repo s0)) (pg_obs (sy_repo s0))
      (rq_log general slog (sy_queue s0) ''stream:events:pending'')" and db: "sy_repo s0 = db"
    using assms(3) pg_reachable_inv [OF assms(1)] by simp_all
  show ?thesis
    using server_system.run_keeps [OF durable_system [OF assms(2)] assms(5) _ start] db by simp
qed

theorem durable_never_lost_witness:
  "\<exists>err s0. server_start (wire_server counting_prom (\<lambda>n. [0..<n]) (\<lambda>_. []) (postgres_repository driver0)
       (redis_stream_queue (\<lambda>l s. None) (demo_queue 0 (\<lambda>e. Delivered 1))) memory_guard_ops) counting_prom env0
       db0 NewMemoryGuard xserver0 = (err, s0) \<and>
     (\<forall>s. server_run (wire_server counting_prom (\<lambda>n. [0..<n]) (\<lambda>_. []) (postgres_repository driver0)
         (redis_stream_queue (\<lambda>l s. None) (demo_queue 0 (\<lambda>e. Delivered 1))) memory_guard_ops) scheme0 s0 s \<longrightarrow>
       accounted (pg_evs (sy_repo s)) (pg_obs (sy_repo s)) (rq_log (\<lambda>l s. None) sv_log (sy_queue s) ''stream:events:pending'') \<and>
       pg_evs (sy_repo s) ''ev1'' \<noteq> None)"
proof -
  let ?srv = "wire_server counting_prom (\<lambda>n. [0..<n]) (\<lambda>_. []) (postgres_repository driver0)
       (redis_stream_queue (\<lambda>l s. None) (demo_queue 0 (\<lambda>e. Delivered 1))) memory_guard_ops"
  obtain err s0 where s0: "server_start ?srv counting_prom env0 db0 NewMemoryGuard xserver0 = (err, s0)" by fastforce
  obtain row where "pg_obs db0 1 = Some row" "ob_EventID row = ''ev1''" "ob_Status row = OutboxStatusPending"
    and ev: "pg_evs db0 ''ev1'' \<noteq> None" and evs: "pg_evs db0 = [''ev1'' \<mapsto> event0\<lparr>ev_CreatedAt := 1000\<rparr>]"
    using db0_create by auto
  then have acc: "accounted (pg_evs db0) (pg_obs db0) (rq_log (\<lambda>l s. None) sv_log xserver0 ''stream:events:pending'')"
    by (auto simp: accounted_def split: if_splits)
  have k: "accounted (pg_evs (sy_repo s)) (pg_obs (sy_repo s)) (rq_log (\<lambda>l s. None) sv_log (sy_queue s) ''stream:events:pending'') \<and>
       pg_evs (sy_repo s) ''ev1'' \<noteq> None" if run: "server_run ?srv scheme0 s0 s" for s
    using durable_never_lost [OF db0_reachable demo_documented acc s0 run] ev by fastforce
  then show ?thesis using s0 by blast
qed

section \<open>What the store holds\<close>

text \<open>
  A well-typed event: one that \<open>Event.Validate\<close> accepts, with a generated identifier, valid JSON and one of
  the statuses the engine sets.
\<close>

definition event_typed :: "Event \<Rightarrow> bool" where
  "event_typed v \<longleftrightarrow> Event_Validate v = None \<and> json_Valid (ev_Payload v) \<and> take 4 (ev_ID v) = ''evt_'' \<and>
     ev_Status v \<in> {EventStatusPending, EventStatusDelivered, EventStatusDLQ}"

definition store_typed :: "(string \<Rightarrow> string option) \<Rightarrow> memory_repo \<Rightarrow> bool" where
  "store_typed uri_scheme m \<longleftrightarrow>
     (\<forall>i v. mr_evs m i = Some v \<longrightarrow> ev_ID v = i \<and> event_typed v) \<and>
     (\<forall>n ob. mr_obs m n = Some ob \<longrightarrow> ob_Status ob \<in> {OutboxStatusPending, OutboxStatusPublished} \<and>
        mr_evs m (ob_EventID ob) \<noteq> None) \<and>
     (\<forall>i ep. map_of (mr_endpoints m) i = Some ep \<longrightarrow> Endpoint_Validate uri_scheme ep = None)"

lemma Event_Validate_ok: "Event_Validate v = None \<longleftrightarrow> ev_TenantID v \<noteq> [] \<and> ev_EventType v \<noteq> [] \<and> ev_Payload v \<noteq> []"
  by (auto simp: Event_Validate_def)

lemma json_Valid_Nil [simp]: "\<not> json_Valid []"
  by code_simp

lemma event_typed_status:
  "event_typed v \<Longrightarrow> st \<in> {EventStatusPending, EventStatusDelivered, EventStatusDLQ} \<Longrightarrow> event_typed (v\<lparr>ev_Status := st\<rparr>)"
  by (auto simp: event_typed_def Event_Validate_ok)

lemma typed_replay:
  "store_typed us m \<Longrightarrow> store_typed us (snd (mr_replay_loop now t ids n m))"
proof (induction now t ids n m rule: mr_replay_loop.induct)
  case (2 now t i ids n m)
  show ?case
  proof (cases "\<exists>v. mr_evs m i = Some v \<and> ev_TenantID v = t \<and> ev_Status v = EventStatusDLQ")
    case False
    then show ?thesis using 2 by (auto split: option.splits)
  next
    case True
    then obtain v where v: "mr_evs m i = Some v" "ev_TenantID v = t" "ev_Status v = EventStatusDLQ" by blast
    have "ev_ID v = i" "event_typed (v\<lparr>ev_Status := EventStatusPending\<rparr>)"
      using 2(4) v(1) event_typed_status [of v EventStatusPending] by (auto simp: store_typed_def)
    then have "store_typed us (m\<lparr>mr_events := AList.update i (v\<lparr>ev_Status := EventStatusPending\<rparr>) (mr_events m),
        mr_nextOutboxID := mr_nextOutboxID m + 1, mr_outboxEvents := AList.update (mr_nextOutboxID m + 1)
          \<lparr>ob_ID = mr_nextOutboxID m + 1, ob_EventID = ev_ID v, ob_Status = OutboxStatusPending, ob_RetryCount = 0,
           ob_CreatedAt = now, ob_ProcessedAt = None\<rparr> (mr_outboxEvents m)\<rparr>)"
      using 2(4) v(1) by (auto simp: store_typed_def)
    then show ?thesis using 2(3) [OF v(1) _ refl refl] v by (simp add: Let_def)
  qed
qed simp

lemma mr_stored_endpoint:
  "mr_evs (snd (mr_CreateEndpoint e ep m)) = mr_evs m \<and> mr_obs (snd (mr_CreateEndpoint e ep m)) = mr_obs m \<and>
   map_of (mr_endpoints (snd (mr_CreateEndpoint e ep m))) \<in> {map_of (mr_endpoints m), (map_of (mr_endpoints m))
     (ep_ID ep \<mapsto> ep\<lparr>ep_CreatedAt := or_now e (ep_CreatedAt ep), ep_UpdatedAt := or_now e (ep_UpdatedAt ep)\<rparr>)}"
  by (cases ep) (auto simp: mr_CreateEndpoint_def or_now_def update_conv' Let_def split: option.split)

lemma typed_call:
  assumes "repo_call us memory_repository r r'" "store_typed us r"
  shows "store_typed us r'"
  using assms(1)
proof cases
  case (rc_created e ie t k req p)
  obtain v ob where p: "p = (v, ob)" by fastforce
  let ?v = "ingest_event ie t k req"
  have typed: "event_typed (?v\<lparr>ev_CreatedAt := c\<rparr>)" for c
    using rc_created(2-4) by (auto simp: event_typed_def Event_Validate_ok ingest_event_def)
  have ctx: "e_ctx e = None" "ob = (ingest_outbox ie)\<lparr>ob_ID := ob_ID ob, ob_CreatedAt := ob_CreatedAt ob\<rparr>" "v = ?v\<lparr>ev_CreatedAt := ev_CreatedAt v\<rparr>"
    and new: "mr_evs r' = (mr_evs r)(ev_ID ?v \<mapsto> v)" "mr_obs r' = (mr_obs r)(mr_nextOutboxID r + 1 \<mapsto> ob)"
      "mr_endpoints r' = mr_endpoints r"
    using rc_created(1) unfolding p
    by (auto simp: memory_repository_def mr_CreateEventWithOutbox_def Let_def split: option.splits if_splits)
  have v: "event_typed v" "ev_ID v = ev_ID ?v" using typed [of "ev_CreatedAt v"] ctx(3) by (metis, metis Event.select_convs(1) Event.surjective Event.update_convs(7))
  have ob: "ob_Status ob = OutboxStatusPending" "ob_EventID ob = ev_ID ?v"
    by (subst ctx(2), simp add: ingest_outbox_def ingest_event_def)+
  show ?thesis
    using assms(2) v ob unfolding store_typed_def new by (auto split: if_splits)
next
  case (rc_refused e v ob err)
  then have "mr_evs r' = mr_evs r \<and> mr_obs r' = mr_obs r \<and> mr_endpoints r' = mr_endpoints r"
    by (auto simp: memory_repository_def mr_CreateEventWithOutbox_def Let_def split: option.splits if_splits)
  then show ?thesis using assms(2) by (simp add: store_typed_def)
next
  case (rc_endpoint e ep er)
  have same: "mr_evs r' = mr_evs r" "mr_obs r' = mr_obs r"
    and new: "map_of (mr_endpoints r') \<in> {map_of (mr_endpoints r), (map_of (mr_endpoints r))
        (ep_ID ep \<mapsto> ep\<lparr>ep_CreatedAt := or_now e (ep_CreatedAt ep), ep_UpdatedAt := or_now e (ep_UpdatedAt ep)\<rparr>)}"
    using rc_endpoint(1) mr_stored_endpoint [of e ep r] by (simp_all add: memory_repository_def)
  have "Endpoint_Validate us (ep\<lparr>ep_CreatedAt := c, ep_UpdatedAt := u\<rparr>) = None" for c u
    using rc_endpoint(2) by (simp add: Endpoint_Validate_ok)
  then show ?thesis using assms(2) same new by (auto simp: store_typed_def split: if_splits)
next
  case (rc_replay e t ids n)
  then show ?thesis
    using assms(2) typed_replay [OF assms(2), of "e_now e" t ids 0]
    by (auto simp: memory_repository_def mr_ReplayDLQEvents_def split: option.splits prod.splits)
next
  case (rc_attempt e a ro)
  then have "mr_evs r' = mr_evs r \<and> mr_obs r' = mr_obs r \<and> mr_endpoints r' = mr_endpoints r"
    by (auto simp: memory_repository_def mr_RecordDeliveryAttempt_def Let_def split: option.splits if_splits)
  then show ?thesis using assms(2) by (simp add: store_typed_def)
next
  case (rc_status e i st uo)
  have st: "st \<in> {EventStatusPending, EventStatusDelivered, EventStatusDLQ}" using rc_status(2) by blast
  have same: "mr_obs r' = mr_obs r" "mr_endpoints r' = mr_endpoints r"
    and evs: "mr_evs r' = mr_evs r \<or> (\<exists>v. mr_evs r i = Some v \<and> mr_evs r' = (mr_evs r)(i \<mapsto> v\<lparr>ev_Status := st\<rparr>))"
    using rc_status(1) by (auto simp: memory_repository_def mr_UpdateEventStatus_def split: option.splits)
  from evs show ?thesis
  proof (elim disjE exE conjE)
    fix v
    assume v: "mr_evs r i = Some v" "mr_evs r' = (mr_evs r)(i \<mapsto> v\<lparr>ev_Status := st\<rparr>)"
    have "event_typed (v\<lparr>ev_Status := st\<rparr>)" "ev_ID v = i"
      using assms(2) v(1) event_typed_status [OF _ st] by (auto simp: store_typed_def)
    then show ?thesis using assms(2) unfolding store_typed_def same v(2) by simp
  next
    assume "mr_evs r' = mr_evs r"
    then show ?thesis using assms(2) by (simp add: store_typed_def same)
  qed
qed

lemma typed_mark: "mark_call memory_repository r r' \<Longrightarrow> store_typed us r \<Longrightarrow> store_typed us r'"
  by (erule mark_call.cases)
    (auto simp: memory_repository_def mr_MarkOutboxPublished_def store_typed_def split: option.splits)

lemma typed_calls: "repo_calls us memory_repository r r' \<Longrightarrow> store_typed us r \<Longrightarrow> store_typed us r'"
  by (induction rule: rtranclp_induct) (auto intro: typed_call)

lemma typed_marks: "(mark_call memory_repository)\<^sup>*\<^sup>* r r' \<Longrightarrow> store_typed us r \<Longrightarrow> store_typed us r'"
  by (induction rule: rtranclp_induct) (auto intro: typed_mark)

lemma typed_step:
  assumes "server_step (memory_server P ord osenv) us s s'" "store_typed us (sy_repo s)" "mq_inv (sy_queue s)"
  shows "store_typed us (sy_repo s')"
  using assms(1)
proof cases
  case (a_request sv rq w res)
  then obtain a where a: "NewRouter us (sr_handler (memory_server P ord osenv)) sv rq w (api_view s) = (res, a)" "sy_repo s' = ap_repo a"
    by (auto simp: server_request_def split: prod.splits)
  have "repo_calls us memory_repository (sy_repo s) (ap_repo a)" using router_calls [OF a(1)] by simp
  then show ?thesis unfolding a(2) by (rule typed_calls [OF _ assms(2)])
next
  case (a_batch be res)
  then obtain n r' q' where b: "ProcessNextBatch (mem_relay ''stream:events:pending'') be n (sy_repo s) (sy_queue s) = (res, r', q')"
    "sy_repo s' = r'"
    by (auto simp: server_relay_def split: prod.splits)
  have "(mark_call memory_repository)\<^sup>*\<^sup>* (sy_repo s) r'" using batch_marks [OF b(1)] by simp
  then show ?thesis unfolding b(2) by (rule typed_marks [OF _ assms(2)])
next
  case (a_turn workerID wr go trace)
  then obtain st where w: "worker_step (sr_pool (memory_server P ord osenv)) workerID wr (pool_view s) = (go, trace, st)" "s' = put_pool st s"
    by (auto simp: server_worker_def split: prod.splits)
  have "repo_calls us memory_repository (sy_repo s) (ds_repo (po_d st))"
    using mq.worker_moves [OF _ w(1), of memory_repository us] assms(3) by (simp add: pool_moves_def)
  then show ?thesis using typed_calls [OF _ assms(2)] by (simp add: w(2))
next
  case (a_recovery pas startID go startID' trace)
  then obtain st where w: "pel_passes (sr_pool (memory_server P ord osenv)) pas startID (pool_view s) = (go, startID', trace, st)" "s' = put_pool st s"
    by (auto simp: server_recovery_def split: prod.splits)
  have "repo_calls us memory_repository (sy_repo s) (ds_repo (po_d st))"
    using mq.passes_moves [OF _ a_recovery(2) w(1), of memory_repository us] assms(3) by (simp add: pool_moves_def)
  then show ?thesis using typed_calls [OF _ assms(2)] by (simp add: w(2))
qed

lemma running_ok:
  assumes "server_run (memory_server P ord osenv) uri_scheme (memory_start P ord osenv e) s"
  shows "store_typed uri_scheme (sy_repo s) \<and> msys.system_ok s"
  using assms
proof (induction rule: rtranclp_induct)
  case base
  have "store_typed uri_scheme (sy_repo (memory_start P ord osenv e))"
    by (simp add: store_typed_def server_start_def NewMemoryRepository_def split: prod.split)
  then show ?case using memory_start_ok by blast
next
  case (step s1 s2)
  then show ?case using typed_step [OF step.hyps(2)] msys.step_keeps [OF step.hyps(2)] by simp
qed

text \<open>C11: what the store of a running server holds is well typed: in every run of the server in memory every event is
  stored under its generated identifier, passes \<open>Event.Validate\<close>, has valid JSON as its payload and is
  PENDING, DELIVERED or in the DLQ; every outbox row is PENDING or PUBLISHED and names a stored event, so
  that the relay never meets an orphan; and every endpoint passes \<open>Endpoint.Validate\<close>.\<close>

theorem running_store_typed:
  assumes "server_run (memory_server P ord osenv) uri_scheme (memory_start P ord osenv e) s"
  shows "store_typed uri_scheme (sy_repo s) \<and> no_orphans (sy_repo s)"
proof -
  have t: "store_typed uri_scheme (sy_repo s)" using running_ok [OF assms] by blast
  then have "no_orphans (sy_repo s)" by (auto simp: no_orphans_def has_event_def store_typed_def)
  with t show ?thesis by blast
qed

theorem running_store_typed_witness:
  "\<exists>w' s1. server_request demo_server scheme0 demo_serve (ingest_request ''k1'' body0) writer0
       (memory_start counting_prom (\<lambda>n. [0..<n]) (\<lambda>_. []) env0) = (Response w', s1) \<and>
     mr_evs (sy_repo s1) ''evt_u1'' = Some ingested0 \<and> event_typed ingested0"
proof -
  let ?s = "memory_start counting_prom (\<lambda>n. [0..<n]) (\<lambda>_. []) env0"
  have "sy_guard ?s = NewMemoryGuard" "sy_repo ?s = NewMemoryRepository\<lparr>mr_endpoints := []\<rparr>"
    by (simp_all add: server_start_def NewMemoryRepository_def split: prod.split)
  from demo_request [OF this] obtain w' s1 where
    d: "server_request demo_server scheme0 demo_serve (ingest_request ''k1'' body0) writer0 ?s = (Response w', s1)"
      "mr_evs (sy_repo s1) = [''evt_u1'' \<mapsto> ingested0]"
    by blast
  have "server_run demo_server scheme0 ?s s1" by (rule r_into_rtranclp) (rule a_request [OF d(1)])
  from running_store_typed [OF this [unfolded demo_server_def]] show ?thesis
    using d by (auto simp: store_typed_def)
qed

end
