(* ===== verification/Pipeline.thy ===== *)
theory Pipeline
  imports SystemRuns
begin

text \<open>
  The pipeline of the running server in memory when nothing fails: one batch of the relay and one turn of a
  worker deliver a stored event to every active endpoint of its tenant and acknowledge its message.
\<close>

section \<open>Endpoints that accept\<close>

text \<open>Attempts that are answered with a 2xx status, whose calls are live.\<close>

definition accepts :: "dispatch_env \<Rightarrow> bool" where
  "accepts de \<longleftrightarrow> (\<forall>url. de_new_request de url = None) \<and> live (de_record de) \<and> live (de_update de) \<and>
     (\<forall>rq. \<exists>rs. de_do de rq = (Some rs, None) \<and> 200 \<le> rs_StatusCode rs \<and> rs_StatusCode rs < 300)"

definition first_dispatch :: "(nat \<Rightarrow> endpoint_env) \<Rightarrow> nat \<Rightarrow> dispatch_env" where
  "first_dispatch ees j = ae_dispatch (ee_attempt (ees j) 1)"

text \<open>No context ends, every first attempt is accepted, and the identifiers of the attempts are new.\<close>

definition healthy :: "(nat \<Rightarrow> endpoint_env) \<Rightarrow> memory_repo \<Rightarrow> bool" where
  "healthy ees m \<longleftrightarrow>
     (\<forall>j. ee_check (ees j) = None \<and> ae_check (ee_attempt (ees j) 1) = None \<and> accepts (first_dispatch ees j) \<and>
        (\<forall>k. live (de_update (ae_dispatch (ee_attempt (ees j) k)))) \<and>
        map_of (mr_attempts m) (''att_'' @ de_uuid (first_dispatch ees j)) = None) \<and>
     inj (\<lambda>j. de_uuid (first_dispatch ees j))"

text \<open>What delivering an event may change: its status and the attempts.\<close>

definition only_event :: "string \<Rightarrow> memory_repo \<Rightarrow> memory_repo \<Rightarrow> bool" where
  "only_event i m m' \<longleftrightarrow> (mr_inv m \<longrightarrow> mr_inv m') \<and> mr_endpoints m' = mr_endpoints m \<and>
     (\<forall>j. j \<noteq> i \<longrightarrow> mr_evs m' j = mr_evs m j)"

lemma only_event_refl [simp]: "only_event i m m"
  by (simp add: only_event_def)

lemma only_event_trans: "only_event i m m1 \<Longrightarrow> only_event i m1 m2 \<Longrightarrow> only_event i m m2"
  by (simp add: only_event_def)

lemma accepted_dispatch:
  assumes "accepts de" "dp_repo d = Some memory_repository" "map_of (mr_attempts (ds_repo s)) (''att_'' @ de_uuid de) = None"
  shows "\<exists>a s'. Dispatch d de (Some endpoint) (Some event) 1 s = ((Some a, None), s') \<and> at_Status a = DeliveryStatusSuccess \<and>
    at_EndpointID a = ep_ID endpoint \<and> at_EventID a = ev_ID event \<and>
    dom (map_of (mr_attempts (ds_repo s'))) = insert (''att_'' @ de_uuid de) (dom (map_of (mr_attempts (ds_repo s)))) \<and>
    only_event (ev_ID event) (ds_repo s) (ds_repo s')"
proof -
  let ?a = "attempt_of (dp_policy d) de endpoint event 1"
  have req: "de_new_request de (ep_URL endpoint) = None" using assms(1) by (simp add: accepts_def)
  have live: "live (de_record de)" "live (de_update de)" using assms(1) by (simp_all add: accepts_def)
  obtain rs where "de_do de (dispatch_request (time_Unix (de_ts de)) endpoint event) = (Some rs, None)"
    "200 \<le> rs_StatusCode rs" "rs_StatusCode rs < 300" using assms(1) unfolding accepts_def by blast
  then have a: "at_ID ?a = ''att_'' @ de_uuid de" "at_Status ?a = DeliveryStatusSuccess"
    by (simp_all add: attempt_of_def outcome_code_def classify_status Let_def)
  obtain so r1 where st: "dispatch_store (Some memory_repository) de event ?a (ds_repo s) = (so, r1)" by fastforce
  have "so = None \<and> dom (map_of (mr_attempts r1)) = insert (''att_'' @ de_uuid de) (dom (map_of (mr_attempts (ds_repo s))))"
    using st a live assms(3) by (auto simp: dispatch_store_def memory_repository_def mr_RecordDeliveryAttempt_def
        mr_UpdateEventStatus_def Let_def split: if_splits option.splits)
  moreover have "only_event (ev_ID event) (ds_repo s) r1"
    using st a live assms(3) mr_inv_RecordDeliveryAttempt [of "ds_repo s" "de_record de" ?a]
      mr_inv_UpdateEventStatus [of "snd (mr_RecordDeliveryAttempt (de_record de) ?a (ds_repo s))" "de_update de" "ev_ID event" EventStatusDelivered]
    by (auto simp: only_event_def dispatch_store_def memory_repository_def mr_RecordDeliveryAttempt_def
        mr_UpdateEventStatus_def Let_def split: if_splits option.splits)
  ultimately show ?thesis
    using a(2) st assms(2) by (auto simp: Dispatch_attempt [OF req] Let_def)
qed

definition new_attempts :: "(nat \<Rightarrow> endpoint_env) \<Rightarrow> string set" where
  "new_attempts ees = range (\<lambda>j. ''att_'' @ de_uuid (first_dispatch ees j))"

lemma healthy_delivery:
  assumes "\<forall>j. ee_check (ees j) = None \<and> ae_check (ee_attempt (ees j) 1) = None \<and> accepts (first_dispatch ees j)"
    and "inj (\<lambda>j. de_uuid (first_dispatch ees j))" "dp_repo d = Some memory_repository"
    and "\<forall>j \<ge> i. map_of (mr_attempts (ds_repo s)) (''att_'' @ de_uuid (first_dispatch ees j)) = None"
    and "deliver_all d event ees i eps s = (trace, s')"
  shows "all_recorded trace \<and> map at_EndpointID (attempts_of trace) = map ep_ID eps \<and>
    (\<forall>a \<in> set (attempts_of trace). at_Status a = DeliveryStatusSuccess \<and> at_EventID a = ev_ID event) \<and>
    only_event (ev_ID event) (ds_repo s) (ds_repo s') \<and>
    dom (map_of (mr_attempts (ds_repo s'))) \<subseteq> dom (map_of (mr_attempts (ds_repo s))) \<union> new_attempts ees"
  using assms(4,5)
proof (induction eps arbitrary: i s trace)
  case (Cons ep eps)
  have c: "ee_check (ees i) = None" "ae_check (ee_attempt (ees i) 1) = None" "accepts (first_dispatch ees i)"
    using assms(1) by blast+
  have fresh: "map_of (mr_attempts (ds_repo s)) (''att_'' @ de_uuid (first_dispatch ees i)) = None" using Cons.prems(1) by blast
  obtain a s1 where D: "Dispatch d (first_dispatch ees i) (Some ep) (Some event) 1 s = ((Some a, None), s1)"
    and a: "at_Status a = DeliveryStatusSuccess" "at_EndpointID a = ep_ID ep" "at_EventID a = ev_ID event"
    and dom: "dom (map_of (mr_attempts (ds_repo s1))) =
      insert (''att_'' @ de_uuid (first_dispatch ees i)) (dom (map_of (mr_attempts (ds_repo s))))"
    and only: "only_event (ev_ID event) (ds_repo s) (ds_repo s1)"
    using accepted_dispatch [OF c(3) assms(3) fresh] by blast
  have R: "retry_loop d ep event (ee_attempt (ees i)) 1 s = (False, [StepDispatch (Some a) None], s1)"
    using D a(1) c(2) by (intro retry_loop_once) (simp_all add: first_dispatch_def)
  have "map_of (mr_attempts (ds_repo s1)) (''att_'' @ de_uuid (first_dispatch ees j)) = None" if j: "Suc i \<le> j" for j
  proof -
    have "de_uuid (first_dispatch ees j) \<noteq> de_uuid (first_dispatch ees i)" using j injD [OF assms(2), of j i] by auto
    moreover have "''att_'' @ de_uuid (first_dispatch ees j) \<notin> dom (map_of (mr_attempts (ds_repo s)))"
      using Cons.prems(1) j by (simp add: domIff)
    ultimately have "''att_'' @ de_uuid (first_dispatch ees j) \<notin> dom (map_of (mr_attempts (ds_repo s1)))"
      unfolding dom by simp
    then show ?thesis by (simp add: domIff)
  qed
  moreover obtain rest s2 where L: "deliver_all d event ees (Suc i) eps s1 = (rest, s2)" by fastforce
  moreover have "trace = [StepDispatch (Some a) None] @ rest" "s2 = s'"
    using Cons.prems(2) c(1) R L by simp_all
  moreover have "''att_'' @ de_uuid (first_dispatch ees i) \<in> new_attempts ees" by (auto simp: new_attempts_def)
  ultimately show ?case
    using Cons.IH [of "Suc i" s1 rest] a dom only_event_trans [OF only, of "ds_repo s'"] by auto
qed simp

lemma final_status_delivered:
  "as \<noteq> [] \<Longrightarrow> \<forall>a \<in> set as. at_Status a = DeliveryStatusSuccess \<Longrightarrow> final_status as st = EventStatusDelivered"
proof (induction as arbitrary: st)
  case (Cons a as)
  then show ?case by (cases "as = []") (auto simp: final_status_def)
qed simp

section \<open>A message that is processed\<close>

definition process_live :: "process_env \<Rightarrow> bool" where
  "process_live pe \<longleftrightarrow> live (pv_fence pe) \<and> live (pv_endpoints pe) \<and> env_ok (pv_endpoints pe) \<and> live (pv_get pe)"

definition active_endpoints :: "process_env \<Rightarrow> string \<Rightarrow> memory_repo \<Rightarrow> Endpoint list" where
  "active_endpoints pe t m = filter ep_IsActive (filter (\<lambda>ep. ep_TenantID ep = t) (map snd (go_range (e_ord (pv_endpoints pe)) (mr_endpoints m))))"

lemma process_delivers:
  assumes "wp_repo p = Some memory_repository" "dp_repo (wp_dispatcher p) = Some memory_repository"
    and "mr_inv (ds_repo s)" "process_live pe" "healthy (pv_endpoint pe) (ds_repo s)"
    and "mr_evs (ds_repo s) (qm_EventID msg) = Some v" "qm_TenantID msg = ev_TenantID v" "ev_TenantID v \<noteq> []"
    and "ev_Status v = EventStatusPending" "active_endpoints pe (ev_TenantID v) (ds_repo s) \<noteq> []"
    and "processMessage p pe msg s = (panic, trace, s')"
  shows "panic = None \<and> map at_EndpointID (attempts_of trace) = map ep_ID (active_endpoints pe (ev_TenantID v) (ds_repo s)) \<and>
    (\<forall>a \<in> set (attempts_of trace). at_Status a = DeliveryStatusSuccess \<and> at_EventID a = ev_ID v) \<and>
    mr_evs (ds_repo s') (qm_EventID msg) = Some (v\<lparr>ev_Status := EventStatusDelivered\<rparr>) \<and>
    all_recorded trace \<and> only_event (qm_EventID msg) (ds_repo s) (ds_repo s') \<and>
    dom (map_of (mr_attempts (ds_repo s'))) \<subseteq> dom (map_of (mr_attempts (ds_repo s))) \<union> new_attempts (pv_endpoint pe)"
proof -
  let ?eps = "active_endpoints pe (ev_TenantID v) (ds_repo s)"
  have get: "mr_GetEvent e (qm_EventID msg) (ds_repo s) = Inr v" if "live e" for e
    using that assms(6) by (simp add: mr_GetEvent_def)
  have vid: "ev_ID v = qm_EventID msg" by (rule mr_inv_event_id [OF assms(3,6)])
  have eps: "mr_GetEndpointsByTenant (pv_endpoints pe) (ev_TenantID v) (ds_repo s) =
      Inr (filter (\<lambda>ep. ep_TenantID ep = ev_TenantID v) (map snd (go_range (e_ord (pv_endpoints pe)) (mr_endpoints (ds_repo s)))))"
    using assms(4) by (simp add: mr_GetEndpointsByTenant_def process_live_def)
  obtain tr s1 where D: "deliver_all (wp_dispatcher p) v (pv_endpoint pe) 0 ?eps s = (tr, s1)" by fastforce
  have "processMessage p pe msg s = (None, tr, s1)"
    using assms(1,4,7-10) D get eps unfolding processMessage_def fenced_def
    by (simp add: memory_repository_def process_live_def active_endpoints_def Let_def)
  then have r: "panic = None" "trace = tr" "s' = s1" using assms(11) by simp_all
  note h = healthy_delivery [OF _ _ assms(2) _ D]
  have hp: "all_recorded tr" "map at_EndpointID (attempts_of tr) = map ep_ID ?eps"
    "\<forall>a \<in> set (attempts_of tr). at_Status a = DeliveryStatusSuccess \<and> at_EventID a = ev_ID v"
    "only_event (ev_ID v) (ds_repo s) (ds_repo s1)"
    "dom (map_of (mr_attempts (ds_repo s1))) \<subseteq> dom (map_of (mr_attempts (ds_repo s))) \<union> new_attempts (pv_endpoint pe)"
    using h assms(5) by (simp_all add: healthy_def)
  have "mr_evs (ds_repo s1) (ev_ID v) = Some (v\<lparr>ev_Status := final_status (attempts_of tr) (ev_Status v)\<rparr>)"
    using deliver_all_status [OF D assms(2) _ hp(1)] assms(5,6) vid by (simp add: healthy_def)
  moreover have "attempts_of tr \<noteq> []" using hp(2) assms(10) by auto
  ultimately show ?thesis using r hp vid final_status_delivered [of "attempts_of tr" "ev_Status v"] by simp
qed

section \<open>One event through the pipeline\<close>

lemma read_locked_next:
  assumes "mq_inv q" "mq_delivered q s g < length (mq_log q s)" "0 < cnt" "int (length (mq_log q s)) + cnt < 2 ^ 63"
    and "mq_read_locked now s g c cnt q = (r1, q1)"
  shows "r1 = Inr (Some (take (nat cnt) (drop (mq_delivered q s g) (mq_log q s))))"
proof -
  let ?d = "mq_delivered q s g" and ?L = "mq_log q s"
  have w: "wrap64 (int ?d + cnt) = int ?d + cnt"
    using assms(2-4) by (intro wrap64_id) (simp add: int64_ok_def)
  show ?thesis
  proof (rule read_locked_cases [OF assms(1,5)])
    fix err assume "r1 = Inl err"
    moreover have "\<not> (min (int (length ?L)) (int ?d + cnt) < int ?d)" using assms(2,3) by auto
    ultimately show ?thesis
      using assms(2,3,5) w group_or_new_ok [OF assms(1), of s g]
      by (simp add: mq_read_locked_def Let_def group_or_new_def delivered_group grp_ok_def
          mq_log_def mq_grp_def split: if_splits)
  next
    fix ms k
    assume ms: "r1 = Inr (Some ms)" "ms = take k (drop ?d ?L)"
      and k: "k = nat (min (int (length ?L)) (wrap64 (int ?d + cnt)) - int ?d)"
    have "ms = take (nat cnt) (drop ?d ?L)"
      using ms(2) k w assms(2,3) by (cases "int (length ?L) \<le> int ?d + cnt") (auto simp: min_def nat_le_iff)
    then show ?thesis using ms(1) by simp
  qed (use assms(2) in simp)
qed

lemma worker_reads:
  assumes "mq_inv q" "live e" "s \<noteq> []" "g \<noteq> []" "0 < cnt" "mq_log q s = old @ [msg]" "mq_delivered q s g = length old"
    and "int (length (mq_log q s)) + cnt < 2 ^ 63"
  shows "\<exists>q'. mq_ReadEvents_quiet e s g c cnt block q = (Inr [msg], q') \<and> mq_inv q' \<and> mq_log q' = mq_log q"
proof -
  obtain r1 q1 where r: "mq_read_locked (e_now e) s g c cnt q = (r1, q1)" by fastforce
  have "r1 = Inr (Some [msg])"
    using read_locked_next [OF assms(1) _ assms(5,8) r] assms(5-7) by (simp add: take_Cons')
  then show ?thesis
    using r assms(2-5) mq_read_locked_frame [OF assms(1) r] by (simp add: mq_ReadEvents_quiet_def mq_ReadEvents_def Let_def)
qed

lemma relay_publishes_one:
  assumes "mr_inv r" "mq_inv q" "sn \<noteq> []" "batch_live be" "0 < n" "pending_ids r = {k}"
    and "mr_obs r k = Some ob" "mr_evs r (ob_EventID ob) = Some v"
  shows "\<exists>r' q' msg. ProcessNextBatch (mem_relay sn) be n r q = ((1, None), r', q') \<and> mr_inv r' \<and> mq_inv q' \<and>
    mr_evs r' = mr_evs r \<and> mr_endpoints r' = mr_endpoints r \<and> mr_attempts r' = mr_attempts r \<and>
    mq_log q' = (mq_log q)(sn := mq_log q sn @ [msg]) \<and> carries msg v \<and>
    pending_ids r' = {} \<and> (\<forall>g. mq_delivered q' sn g = mq_delivered q sn g)"
proof -
  have be: "be_check be = None" "live (be_fetch be)" "env_ok (be_fetch be)" "item_live (be_item be 0)"
    using assms(4) unfolding batch_live_def by blast+
  then have it: "ie_check (be_item be 0) = None" "live (ie_get (be_item be 0))" "live (ie_publish (be_item be 0))"
    "live (ie_mark (be_item be 0))" by (simp_all add: item_live_def)
  obtain batch where f: "mr_FetchAndLockPendingOutbox (be_fetch be) n r = Inr batch"
    using mr.fetch_live [OF assms(1) be(2), of n] by (auto simp: memory_repository_def)
  note fc = mr_fetch_contract [OF assms(1) be(3) f]
  have sub: "x = ob" if "x \<in> set batch" for x
  proof -
    have "mr_obs r (ob_ID x) = Some x" "ob_ID x \<in> pending_ids r" using fc(1) that by (auto simp: pending_ids_def)
    then show ?thesis using assms(6,7) by simp
  qed
  have "batch \<noteq> []"
  proof
    assume e: "batch = []"
    have "k \<in> pending_ids r" using assms(6) by simp
    then have "ob_Status ob = OutboxStatusPending" using assms(7) by (auto simp: pending_ids_def)
    then show False using fc(3) [OF _ assms(7)] e assms(5) by simp
  qed
  moreover have "distinct batch" using fc(2) by (simp add: distinct_map)
  ultimately have batch: "batch = [ob]" using sub by (cases batch; cases "tl batch") auto
  have oid: "ob_ID ob = k" using mr_inv_outbox_id [OF assms(1,7)] by blast
  obtain i q1 where p: "mq_PublishEvent (ie_publish (be_item be 0)) sn (Some v) q = (Inr i, q1)"
    using assms(3) it(3) by (simp add: mq_PublishEvent_def Let_def)
  note pf = mq_publish_frame [OF assms(2) p]
  obtain r1 where m: "mr_MarkOutboxPublished (ie_mark (be_item be 0)) k r = (None, r1)"
    using mr.mark_live [OF assms(1) it(4) assms(7)] by (auto simp: memory_repository_def)
  have mark: "rp_MarkOutboxPublished memory_repository (ie_mark (be_item be 0)) k r = (None, r1)"
    using m by (simp add: memory_repository_def)
  obtain t where r1: "mr_inv r1" "mr_evs r1 = mr_evs r"
    and obs: "mr_obs r1 = (mr_obs r)(k \<mapsto> ob\<lparr>ob_Status := OutboxStatusPublished, ob_ProcessedAt := t\<rparr>)"
    using mr.mark_ok [OF assms(1) mark] assms(7) by auto
  have "x \<in> pending_ids r1 \<Longrightarrow> x \<in> pending_ids r \<and> x \<noteq> k" for x
    by (auto simp: pending_ids_def obs split: if_splits)
  then have none: "pending_ids r1 = {}" using assms(6) by auto
  have same: "mr_endpoints r1 = mr_endpoints r" "mr_attempts r1 = mr_attempts r"
    using m by (auto simp: mr_MarkOutboxPublished_def split: option.splits)
  have "mr_GetEvent (ie_get (be_item be 0)) (ob_EventID ob) r = Inr v" using assms(8) it(2) by (simp add: mr_GetEvent_def)
  then have "ProcessNextBatch (mem_relay sn) be n r q = ((1, None), r1, q1)"
    using be(1) f batch it(1) p m assms(5) by (simp add: ProcessNextBatch_def memory_repository_def memory_stream_queue_def oid)
  moreover have "carries (queue_message (e_now (ie_publish (be_item be 0))) (mq_seq q + 1) v) v"
    by (simp add: carries_def queue_message_def)
  ultimately show ?thesis using r1 same none pf by blast
qed

lemma one_event_delivered:
  assumes "server_run (memory_server P ord osenv) uri_scheme (memory_start P ord osenv e) s"
    and "pending_ids (sy_repo s) = {k}" "mr_obs (sy_repo s) k = Some ob"
    and "mr_evs (sy_repo s) (ob_EventID ob) = Some v" "ev_Status v = EventStatusPending"
    and "mq_delivered (sy_queue s) ''stream:events:pending'' ''worker-group'' = length (mq_log (sy_queue s) ''stream:events:pending'')"
    and "int (length (mq_log (sy_queue s) ''stream:events:pending'')) + 11 < 2 ^ 63"
    and "batch_live be" "server_relay (memory_server P ord osenv) be s = (n, s1)"
    and "\<not> wr_done wr" "live (wr_read wr)" "me_check (wr_message wr 0) = None" "live (me_ack (wr_message wr 0))"
    and "process_live (me_process (wr_message wr 0))" "healthy (pv_endpoint (me_process (wr_message wr 0))) (sy_repo s)"
    and "active_endpoints (me_process (wr_message wr 0)) (ev_TenantID v) (sy_repo s) \<noteq> []"
    and "server_worker (memory_server P ord osenv) workerID wr s1 = (go, trace, s2)"
  shows "n = (1, None) \<and> go \<and> pending_ids (sy_repo s1) = {} \<and>
    map at_EndpointID (attempts_of trace) = map ep_ID (active_endpoints (me_process (wr_message wr 0)) (ev_TenantID v) (sy_repo s)) \<and>
    (\<forall>a \<in> set (attempts_of trace). at_Status a = DeliveryStatusSuccess \<and> at_EventID a = ev_ID v) \<and>
    mr_evs (sy_repo s2) (ev_ID v) = Some (v\<lparr>ev_Status := EventStatusDelivered\<rparr>) \<and>
    (\<exists>msg. mq_log (sy_queue s2) ''stream:events:pending'' = mq_log (sy_queue s) ''stream:events:pending'' @ [msg] \<and> carries msg v \<and>
       mq_pend (sy_queue s2) ''stream:events:pending'' ''worker-group'' (qm_ID msg) = None)"
proof -
  let ?st = "''stream:events:pending''" and ?g = "''worker-group''" and ?srv = "memory_server P ord osenv"
  let ?me = "wr_message wr 0"
  have ok: "mr_inv (sy_repo s)" "mq_inv (sy_queue s)" "store_typed uri_scheme (sy_repo s)" using running_ok [OF assms(1)] by blast+
  then have tenant: "ev_TenantID v \<noteq> []" using assms(4) by (auto simp: store_typed_def event_typed_def Event_Validate_ok)
  have vid: "ev_ID v = ob_EventID ob" by (rule mr_inv_event_id [OF ok(1) assms(4)])
  have "(0 :: int) < (if sr_batch ?srv \<le> 0 then 100 else sr_batch ?srv)" by simp
  from relay_publishes_one [OF ok(1,2) _ assms(8) this assms(2-4), of ?st] obtain r1 q1 msg where
    b: "ProcessNextBatch (mem_relay ?st) be (if sr_batch ?srv \<le> 0 then 100 else sr_batch ?srv) (sy_repo s) (sy_queue s) = ((1, None), r1, q1)"
    and r1: "mr_inv r1" "mr_evs r1 = mr_evs (sy_repo s)" "mr_endpoints r1 = mr_endpoints (sy_repo s)"
      "mr_attempts r1 = mr_attempts (sy_repo s)" "pending_ids r1 = {}"
    and q1: "mq_inv q1" "mq_log q1 ?st = mq_log (sy_queue s) ?st @ [msg]" "carries msg v"
      "mq_delivered q1 ?st ?g = mq_delivered (sy_queue s) ?st ?g"
    by auto
  have s1: "n = (1, None)" "s1 = s\<lparr>sy_repo := r1, sy_queue := q1\<rparr>"
    using assms(9) b by (simp_all add: server_relay_def)
  obtain q2 where read: "mq_ReadEvents_quiet (wr_read wr) ?st ?g (''worker-'' @ show_int (int workerID)) 10
      (cf_PollInterval (wp_cfg (sr_pool ?srv))) q1 = (Inr [msg], q2)" and q2: "mq_inv q2" "mq_log q2 = mq_log q1"
    using worker_reads [OF q1(1) assms(11) _ _ _ q1(2), of ?g 10] q1(2,4) assms(6,7) by auto
  obtain panic tr d2 where P: "processMessage (sr_pool ?srv) (me_process ?me) msg (po_d (pool_view s1)) = (panic, tr, d2)"
    by (metis prod.exhaust)
  have mid: "qm_EventID msg = ev_ID v" "qm_TenantID msg = ev_TenantID v" using q1(3) by (simp_all add: carries_def)
  have active: "active_endpoints (me_process ?me) (ev_TenantID v) r1 = active_endpoints (me_process ?me) (ev_TenantID v) (sy_repo s)"
    by (simp add: active_endpoints_def r1(3))
  have hl: "healthy (pv_endpoint (me_process ?me)) r1" using assms(15) by (simp add: healthy_def r1(4))
  have D: "panic = None" "map at_EndpointID (attempts_of tr) = map ep_ID (active_endpoints (me_process ?me) (ev_TenantID v) (sy_repo s))"
    "\<forall>a \<in> set (attempts_of tr). at_Status a = DeliveryStatusSuccess \<and> at_EventID a = ev_ID v"
    "mr_evs (ds_repo d2) (qm_EventID msg) = Some (v\<lparr>ev_Status := EventStatusDelivered\<rparr>)"
    using process_delivers [OF _ _ _ assms(14) _ _ mid(2) tenant assms(5) _ P] hl r1(1,2) s1(2) mid(1) vid assms(4,16) active by simp_all
  obtain ao q3 where A: "mq_AckEvent (me_ack ?me) ?st ?g [qm_ID msg] q2 = (ao, q3)" by fastforce
  have "ao = None" using A assms(13) by (auto simp: mq_AckEvent_eq split: option.splits)
  then have q3: "mq_log q3 = mq_log q2" "mq_pend q3 ?st ?g (qm_ID msg) = None" using mq_ack_frame [OF q2(1) A] by simp_all
  have msq: "sq_ReadEvents memory_stream_queue = mq_ReadEvents_quiet" "sq_AckEvent memory_stream_queue = mq_AckEvent"
    by (simp_all add: memory_stream_queue_def)
  have H: "handle_message (sr_pool ?srv) ?me msg ((pool_view s1)\<lparr>po_q := q2\<rparr>) = (None, tr, (pool_view s1)\<lparr>po_d := d2, po_q := q3\<rparr>)"
    using P A D(1) by (simp add: handle_message_def msq)
  have "worker_step (sr_pool ?srv) workerID wr (pool_view s1) =
      (True, tr, (pool_view s1)\<lparr>po_d := d2, po_q := q3\<rparr>)"
    using assms(10,12) read H s1(2) by (simp add: worker_step_def msq)
  then have "go" "trace = tr" "sy_repo s2 = ds_repo d2" "sy_queue s2 = q3"
    using assms(17) by (auto simp: server_worker_def)
  then show ?thesis using s1 r1(5) D q3 q2(2) q1(2,3) mid(1) by auto
qed

text \<open>C3: the pipeline delivers: at any point of any run of the server in memory at which one outbox row is pending
  and the workers have been given everything in the stream, one live batch of the relay followed by one live
  turn of any worker, with endpoints that accept, delivers the row's event exactly once to each active
  endpoint of its tenant, makes it DELIVERED, leaves no row pending, and acknowledges its message.\<close>

theorem accepted_event_delivered:
  assumes "server_run (memory_server P ord osenv) uri_scheme (memory_start P ord osenv e) s"
    and "pending_ids (sy_repo s) = {k}" "mr_obs (sy_repo s) k = Some ob"
    and "mr_evs (sy_repo s) (ob_EventID ob) = Some v" "ev_Status v = EventStatusPending"
    and "mq_delivered (sy_queue s) ''stream:events:pending'' ''worker-group'' = length (mq_log (sy_queue s) ''stream:events:pending'')"
    and "int (length (mq_log (sy_queue s) ''stream:events:pending'')) + 11 < 2 ^ 63"
    and "batch_live be" "server_relay (memory_server P ord osenv) be s = (n, s1)"
    and "\<not> wr_done wr" "live (wr_read wr)" "me_check (wr_message wr 0) = None" "live (me_ack (wr_message wr 0))"
    and "process_live (me_process (wr_message wr 0))" "healthy (pv_endpoint (me_process (wr_message wr 0))) (sy_repo s)"
    and "active_endpoints (me_process (wr_message wr 0)) (ev_TenantID v) (sy_repo s) \<noteq> []"
    and "server_worker (memory_server P ord osenv) workerID wr s1 = (go, trace, s2)"
  shows "n = (1, None) \<and> go \<and> pending_ids (sy_repo s1) = {} \<and>
    map at_EndpointID (attempts_of trace) = map ep_ID (active_endpoints (me_process (wr_message wr 0)) (ev_TenantID v) (sy_repo s)) \<and>
    (\<forall>a \<in> set (attempts_of trace). at_Status a = DeliveryStatusSuccess \<and> at_EventID a = ev_ID v) \<and>
    mr_evs (sy_repo s2) (ev_ID v) = Some (v\<lparr>ev_Status := EventStatusDelivered\<rparr>) \<and>
    (\<exists>msg. mq_log (sy_queue s2) ''stream:events:pending'' = mq_log (sy_queue s) ''stream:events:pending'' @ [msg] \<and> carries msg v \<and>
       mq_pend (sy_queue s2) ''stream:events:pending'' ''worker-group'' (qm_ID msg) = None)"
  by (rule one_event_delivered [OF assms])

text \<open>The run of the example: an endpoint is registered, an event is ingested.\<close>

definition demo_endpoint :: Endpoint where
  "demo_endpoint = created_endpoint 1000 ''u1'' ''acme'' \<lparr>cq_URL = ''http://x'', cq_Secret = ''s'', cq_RateLimit = 0\<rparr>"

definition endpoint_request :: http_request where
  "endpoint_request = (ingest_request '''' body_endpoint)\<lparr>rq_URL := ''/api/v1/endpoints''\<rparr>"

lemma demo_register:
  assumes "sy_repo s = NewMemoryRepository"
  shows "\<exists>w' s1. server_request demo_server scheme0 demo_serve endpoint_request writer0 s = (Response w', s1) \<and>
    sy_repo s1 = NewMemoryRepository\<lparr>mr_endpoints := [(''ep_u1'', demo_endpoint)]\<rparr> \<and> sy_guard s1 = sy_guard s \<and> sy_queue s1 = sy_queue s"
proof -
  have r: "route_for ''POST'' ''/api/v1/endpoints'' = Some CreateEndpoint" "cleanPath ''/api/v1/endpoints'' = ''/api/v1/endpoints''"
    by code_simp+
  have h: "hd_repo (sr_handler demo_server) = memory_repository" by (simp add: demo_server_def)
  have q: "rq_Method endpoint_request = ''POST''" "rq_URL endpoint_request = ''/api/v1/endpoints''" "rq_Body endpoint_request = body_endpoint"
    "Header_Get (rq_Header endpoint_request) HeaderTenantID = ''acme''"
    by (simp_all add: endpoint_request_def ingest_request_def Header_Get_def HeaderTenantID_def canonical_headers)
  have v: "Endpoint_Validate scheme0 demo_endpoint = None"
    by (simp add: demo_endpoint_def created_endpoint_def Endpoint_Validate_def scheme0_def)
  have c: "mr_CreateEndpoint env0 demo_endpoint NewMemoryRepository =
      (None, NewMemoryRepository\<lparr>mr_endpoints := [(''ep_u1'', demo_endpoint)]\<rparr>)"
    by (simp add: mr_CreateEndpoint_def env0_def NewMemoryRepository_def demo_endpoint_def created_endpoint_def Let_def)
  have e: "created_endpoint (e_now env0) ''u1'' ''acme'' \<lparr>cq_URL = ''http://x'', cq_Secret = ''s'', cq_RateLimit = 0\<rparr> = demo_endpoint"
    by (simp add: demo_endpoint_def env0_def)
  have H: "\<exists>w2. HandleCreateEndpoint scheme0 (sr_handler demo_server) env0 ''u1'' endpoint_request w (api_view s) =
      (w2, (api_view s)\<lparr>ap_repo := NewMemoryRepository\<lparr>mr_endpoints := [(''ep_u1'', demo_endpoint)]\<rparr>\<rparr>)" for w
    using v c assms by (simp add: HandleCreateEndpoint_def q h decode_body_endpoint e memory_repository_def Let_def)
  let ?w = "writer0\<lparr>w_Header := cors_header (Header_Get (rq_Header endpoint_request) ''Origin'') (w_Header writer0)\<rparr>"
  obtain w2 where "HandleCreateEndpoint scheme0 (sr_handler demo_server) env0 ''u1'' endpoint_request ?w (api_view s) =
      (w2, (api_view s)\<lparr>ap_repo := NewMemoryRepository\<lparr>mr_endpoints := [(''ep_u1'', demo_endpoint)]\<rparr>\<rparr>)"
    using H by blast
  then show ?thesis
    by (simp add: server_request_def NewRouter_def corsMiddleware_def mux_serve_def call_handler_def q r demo_serve_def Let_def)
qed

definition demo_round :: worker_round where
  "demo_round = \<lparr>wr_done = False, wr_read = env0, wr_err_check = None, wr_err_wait = None,
     wr_message = (\<lambda>_. \<lparr>me_check = None, me_process = \<lparr>pv_fence = env0, pv_endpoints = env0, pv_get = env0,
       pv_endpoint = (\<lambda>j. \<lparr>ee_check = None, ee_attempt = (\<lambda>_. attempt_env0 (replicate j CHR ''x'') 200)\<rparr>)\<rparr>, me_ack = env0\<rparr>)\<rparr>"

lemma demo_healthy:
  assumes "mr_attempts m = []"
  shows "healthy (pv_endpoint (me_process (wr_message demo_round 0))) m"
proof -
  have "inj (\<lambda>j. replicate j CHR ''x'')" by (rule injI) (metis length_replicate)
  then show ?thesis
    using assms by (auto simp: healthy_def demo_round_def accepts_def first_dispatch_def attempt_env0_def delivery_env_def env0_def)
qed

lemma memory_start_fields:
  "sy_guard (memory_start P ord osenv env0) = NewMemoryGuard" "sy_repo (memory_start P ord osenv env0) = NewMemoryRepository"
  "mq_log (sy_queue (memory_start P ord osenv env0)) ''stream:events:pending'' = []"
  "mq_delivered (sy_queue (memory_start P ord osenv env0)) ''stream:events:pending'' ''worker-group'' = 0"
  by (simp_all add: server_start_def Pool_Start_def new_pool_ctl_def memory_stream_queue_def mq_CreateConsumerGroup_def env0_def
      NewMemoryStreamQueue_def getOrCreateStreamLocked_def put_stream_def empty_stream_def mq_views Let_def)

lemma request_claims: "server_request srv us sv rq w s = (res, s') \<Longrightarrow> sy_claims s' = sy_claims s"
  by (auto simp: server_request_def split: prod.splits)

lemma demo_ingested:
  obtains s ob where "server_run demo_server scheme0 (memory_start counting_prom (\<lambda>n. [0..<n]) (\<lambda>_. '''') env0) s"
    "mr_evs (sy_repo s) = [''evt_u1'' \<mapsto> ingested0]" "mr_obs (sy_repo s) = [1 \<mapsto> ob]" "ob_EventID ob = ''evt_u1''"
    "ob_Status ob = OutboxStatusPending" "mr_endpoints (sy_repo s) = [(''ep_u1'', demo_endpoint)]" "mr_attempts (sy_repo s) = []"
    "sy_queue s = sy_queue (memory_start counting_prom (\<lambda>n. [0..<n]) (\<lambda>_. '''') env0)" "sy_claims s = []"
proof -
  let ?s0 = "memory_start counting_prom (\<lambda>n. [0..<n]) (\<lambda>_. '''') env0"
  obtain w0 sa where a: "server_request demo_server scheme0 demo_serve endpoint_request writer0 ?s0 = (Response w0, sa)"
    "sy_repo sa = NewMemoryRepository\<lparr>mr_endpoints := [(''ep_u1'', demo_endpoint)]\<rparr>" "sy_guard sa = NewMemoryGuard" "sy_queue sa = sy_queue ?s0"
    using demo_register [OF memory_start_fields(2)] memory_start_fields(1) by metis
  obtain w1 s ob where b: "server_request demo_server scheme0 demo_serve (ingest_request ''k1'' body0) writer0 sa = (Response w1, s)"
    "mr_evs (sy_repo s) = [''evt_u1'' \<mapsto> ingested0]" "mr_obs (sy_repo s) = [1 \<mapsto> ob]" "ob_EventID ob = ''evt_u1''"
    "ob_Status ob = OutboxStatusPending" "mr_endpoints (sy_repo s) = [(''ep_u1'', demo_endpoint)]" "mr_attempts (sy_repo s) = []"
    "sy_queue s = sy_queue ?s0"
    using demo_request [OF a(3,2)] a(4) by auto
  have "server_run demo_server scheme0 ?s0 s"
    by (rule rtranclp.rtrancl_into_rtrancl [OF r_into_rtranclp]) (rule a_request [OF a(1)], rule a_request [OF b(1)])
  moreover have "sy_claims s = []"
    using request_claims [OF a(1)] request_claims [OF b(1)] by (simp add: server_start_def split: prod.splits)
  ultimately show thesis using that b by blast
qed

text \<open>What the example's batch and turn start from.\<close>

lemma demo_turn:
  obtains s ob s1 n go trace s2 where
    "server_run demo_server scheme0 (memory_start counting_prom (\<lambda>n. [0..<n]) (\<lambda>_. '''') env0) s"
    "pending_ids (sy_repo s) = {1}" "mr_obs (sy_repo s) 1 = Some ob" "mr_evs (sy_repo s) (ob_EventID ob) = Some ingested0"
    "ob_EventID ob = ''evt_u1''"
    "mq_delivered (sy_queue s) ''stream:events:pending'' ''worker-group'' = length (mq_log (sy_queue s) ''stream:events:pending'')"
    "int (length (mq_log (sy_queue s) ''stream:events:pending'')) + 11 < 2 ^ 63"
    "server_relay demo_server live_batch_env s = (n, s1)" "server_worker demo_server 0 demo_round s1 = (go, trace, s2)"
    "healthy (pv_endpoint (me_process (wr_message demo_round 0))) (sy_repo s)"
    "active_endpoints (me_process (wr_message demo_round 0)) (ev_TenantID ingested0) (sy_repo s) = [demo_endpoint]"
proof -
  let ?s0 = "memory_start counting_prom (\<lambda>n. [0..<n]) (\<lambda>_. '''') env0"
  obtain s ob where run: "server_run demo_server scheme0 ?s0 s" and b: "mr_evs (sy_repo s) = [''evt_u1'' \<mapsto> ingested0]"
    "mr_obs (sy_repo s) = [1 \<mapsto> ob]" "ob_EventID ob = ''evt_u1''" "ob_Status ob = OutboxStatusPending"
    "mr_endpoints (sy_repo s) = [(''ep_u1'', demo_endpoint)]" "mr_attempts (sy_repo s) = []" "sy_queue s = sy_queue ?s0"
    by (rule demo_ingested)
  obtain n s1 where r: "server_relay demo_server live_batch_env s = (n, s1)" by fastforce
  obtain go trace s2 where w: "server_worker demo_server 0 demo_round s1 = (go, trace, s2)" by (metis prod.exhaust)
  have pend: "pending_ids (sy_repo s) = {1}" using b(2,4) by (auto simp: pending_ids_def split: if_splits)
  have "ev_TenantID ingested0 = ''acme''" by (simp add: ingested0_def ingest_event_def)
  then have active: "active_endpoints (me_process (wr_message demo_round 0)) (ev_TenantID ingested0) (sy_repo s) = [demo_endpoint]"
    by (simp add: active_endpoints_def demo_round_def env0_def b(5) demo_endpoint_def created_endpoint_def)
  note q = memory_start_fields(3,4) [of counting_prom "\<lambda>n. [0..<n]" "\<lambda>_. ''''"]
  show thesis
    by (rule that [OF run pend _ _ b(3) _ _ r w demo_healthy [OF b(6)] active]) (use b(1-3,7) q in simp_all)
qed

lemma demo_round_live:
  "\<not> wr_done demo_round" "live (wr_read demo_round)" "me_check (wr_message demo_round 0) = None"
  "live (me_ack (wr_message demo_round 0))" "process_live (me_process (wr_message demo_round 0))"
  by (simp_all add: demo_round_def env0_def process_live_def)

lemma ingested0_fields:
  "ev_Status ingested0 = EventStatusPending" "ev_TenantID ingested0 = ''acme''" "ev_ID ingested0 = ''evt_u1''"
  "ep_ID demo_endpoint = ''ep_u1''"
  by (simp_all add: ingested0_def ingest_event_def demo_endpoint_def created_endpoint_def)

theorem accepted_event_delivered_witness:
  "\<exists>s s1 s2 trace. server_run demo_server scheme0 (memory_start counting_prom (\<lambda>n. [0..<n]) (\<lambda>_. '''') env0) s \<and>
     server_relay demo_server live_batch_env s = ((1, None), s1) \<and> server_worker demo_server 0 demo_round s1 = (True, trace, s2) \<and>
     map at_EndpointID (attempts_of trace) = [''ep_u1''] \<and>
     mr_evs (sy_repo s2) ''evt_u1'' = Some (ingested0\<lparr>ev_Status := EventStatusDelivered\<rparr>)"
proof (rule demo_turn)
  fix s ob s1 n go trace s2
  assume d: "server_run demo_server scheme0 (memory_start counting_prom (\<lambda>n. [0..<n]) (\<lambda>_. '''') env0) s"
    "pending_ids (sy_repo s) = {1}" "mr_obs (sy_repo s) 1 = Some ob" "mr_evs (sy_repo s) (ob_EventID ob) = Some ingested0"
    "ob_EventID ob = ''evt_u1''"
    "mq_delivered (sy_queue s) ''stream:events:pending'' ''worker-group'' = length (mq_log (sy_queue s) ''stream:events:pending'')"
    "int (length (mq_log (sy_queue s) ''stream:events:pending'')) + 11 < 2 ^ 63"
    "server_relay demo_server live_batch_env s = (n, s1)" "server_worker demo_server 0 demo_round s1 = (go, trace, s2)"
    "healthy (pv_endpoint (me_process (wr_message demo_round 0))) (sy_repo s)"
    "active_endpoints (me_process (wr_message demo_round 0)) (ev_TenantID ingested0) (sy_repo s) = [demo_endpoint]"
  have "n = (1, None) \<and> go \<and> map at_EndpointID (attempts_of trace) = [''ep_u1''] \<and>
    mr_evs (sy_repo s2) ''evt_u1'' = Some (ingested0\<lparr>ev_Status := EventStatusDelivered\<rparr>)"
    using accepted_event_delivered [OF d(1) [unfolded demo_server_def] d(2-4) ingested0_fields(1) d(6,7) live_batch_env_live
        d(8) [unfolded demo_server_def] demo_round_live d(10) _ d(9) [unfolded demo_server_def]] d(11)
    by (simp add: ingested0_fields)
  then show ?thesis using d(1,8,9) by auto
qed

end
