(* ===== verification/Recovery.thy ===== *)
theory Recovery
  imports Pipeline
begin

text \<open>
  The recovery of what a crashed worker has left: in any state of a run of the server in memory a live pass
  over the pending messages delivers the stale ones to endpoints that accept and acknowledges them, each
  with whatever other messages are claimed with it.
\<close>

section \<open>One message\<close>

text \<open>What becomes of the status of an event whose delivery is accepted: a processed one is fenced.\<close>

definition recovered :: "EventStatus \<Rightarrow> EventStatus" where
  "recovered st = (if st = EventStatusPending then EventStatusDelivered else st)"

lemma recovered_again [simp]: "recovered (recovered st) = recovered st"
  by (simp add: recovered_def)

definition has_active :: "memory_repo \<Rightarrow> string \<Rightarrow> bool" where
  "has_active m t \<longleftrightarrow> (\<exists>i ep. map_of (mr_endpoints m) i = Some ep \<and> ep_TenantID ep = t \<and> ep_IsActive ep)"

text \<open>A message that carries a stored event the workers can deliver.\<close>

definition deliverable :: "memory_repo \<Rightarrow> QueueMessage \<Rightarrow> bool" where
  "deliverable m msg \<longleftrightarrow> (\<exists>v. mr_evs m (qm_EventID msg) = Some v \<and> qm_TenantID msg = ev_TenantID v \<and> ev_TenantID v \<noteq> '''' \<and>
     ev_Status v \<in> {EventStatusPending, EventStatusDelivered, EventStatusDLQ} \<and> has_active m (ev_TenantID v))"

definition message_live :: "message_env \<Rightarrow> bool" where
  "message_live me \<longleftrightarrow> live (me_ack me) \<and> process_live (me_process me)"

abbreviation endpoints_of :: "message_env \<Rightarrow> nat \<Rightarrow> endpoint_env" where
  "endpoints_of me \<equiv> pv_endpoint (me_process me)"

locale memory_pool =
  fixes p :: "(memory_repo, 'c, 'h, 'b, mem_queue) worker_pool"
  assumes repo: "wp_repo p = Some memory_repository" "dp_repo (wp_dispatcher p) = Some memory_repository"
    and queue: "wp_queue p = memory_stream_queue"
    and names: "cf_StreamName (wp_cfg p) \<noteq> ''''" "cf_GroupName (wp_cfg p) \<noteq> ''''"
begin

abbreviation "pend q i \<equiv> mq_pend q (cf_StreamName (wp_cfg p)) (cf_GroupName (wp_cfg p)) i"

lemma active_exist:
  assumes "has_active m t" "process_live pe"
  shows "active_endpoints pe t m \<noteq> []"
proof -
  obtain i ep where "map_of (mr_endpoints m) i = Some ep" and ep: "ep_TenantID ep = t" "ep_IsActive ep"
    using assms(1) by (auto simp: has_active_def)
  then have "(i, ep) \<in> set (go_range (e_ord (pv_endpoints pe)) (mr_endpoints m))"
    using assms(2) by (auto simp: process_live_def set_go_range dest: map_of_SomeD)
  then have "ep \<in> set (active_endpoints pe t m)" using ep by (force simp: active_endpoints_def)
  then show ?thesis by auto
qed

lemma message_recovered:
  assumes "message_live me" "healthy (endpoints_of me) (ds_repo (po_d s))"
    and "mr_inv (ds_repo (po_d s))" "mq_inv (po_q s)" "deliverable (ds_repo (po_d s)) msg"
    and "handle_message p me msg s = (panic, trace, s')"
  shows "panic = None \<and> mq_inv (po_q s') \<and> po_claimAttempts s' = po_claimAttempts s \<and>
    (\<forall>a \<in> set (attempts_of trace). at_Status a = DeliveryStatusSuccess) \<and>
    (\<forall>i. pend (po_q s') i = (if i = qm_ID msg then None else pend (po_q s) i)) \<and>
    (\<forall>v. mr_evs (ds_repo (po_d s)) (qm_EventID msg) = Some v \<longrightarrow>
       mr_evs (ds_repo (po_d s')) (qm_EventID msg) = Some (v\<lparr>ev_Status := recovered (ev_Status v)\<rparr>)) \<and>
    only_event (qm_EventID msg) (ds_repo (po_d s)) (ds_repo (po_d s')) \<and>
    dom (map_of (mr_attempts (ds_repo (po_d s')))) \<subseteq> dom (map_of (mr_attempts (ds_repo (po_d s)))) \<union> new_attempts (endpoints_of me)"
proof -
  let ?m = "ds_repo (po_d s)"
  have live: "live (me_ack me)" "process_live (me_process me)" using assms(1) by (simp_all add: message_live_def)
  obtain v where v: "mr_evs ?m (qm_EventID msg) = Some v" "qm_TenantID msg = ev_TenantID v" "ev_TenantID v \<noteq> []"
    "ev_Status v \<in> {EventStatusPending, EventStatusDelivered, EventStatusDLQ}" "has_active ?m (ev_TenantID v)"
    using assms(5) by (auto simp: deliverable_def)
  obtain pn tr d where P: "processMessage p (me_process me) msg (po_d s) = (pn, tr, d)" by (metis prod.exhaust)
  have D: "pn = None \<and> (\<forall>a \<in> set (attempts_of tr). at_Status a = DeliveryStatusSuccess) \<and>
      mr_evs (ds_repo d) (qm_EventID msg) = Some (v\<lparr>ev_Status := recovered (ev_Status v)\<rparr>) \<and>
      only_event (qm_EventID msg) ?m (ds_repo d) \<and>
      dom (map_of (mr_attempts (ds_repo d))) \<subseteq> dom (map_of (mr_attempts ?m)) \<union> new_attempts (endpoints_of me)"
  proof (cases "ev_Status v = EventStatusPending")
    case True
    then show ?thesis
      using process_delivers [OF repo assms(3) live(2) assms(2) v(1,2,3) True active_exist [OF v(5) live(2)] P]
      by (simp add: recovered_def)
  next
    case False
    then have "processMessage p (me_process me) msg (po_d s) = (None, [], po_d s)"
      using v live(2) repo(1)
      by (auto simp: processMessage_def fenced_def memory_repository_def mr_GetEvent_def process_live_def)
    then show ?thesis using P v(1) False by (simp add: recovered_def)
  qed
  obtain ao q1 where A: "mq_AckEvent (me_ack me) (cf_StreamName (wp_cfg p)) (cf_GroupName (wp_cfg p)) [qm_ID msg] (po_q s) = (ao, q1)"
    by fastforce
  have "ao = None" using A live(1) names by (auto simp: mq_AckEvent_eq split: option.splits)
  then have q1: "mq_inv q1" "\<forall>i. pend q1 i = (if i = qm_ID msg then None else pend (po_q s) i)"
    using mq_ack_frame [OF assms(4) A] by auto
  have "s' = s\<lparr>po_d := d, po_q := q1\<rparr>" "panic = None" "trace = tr"
    using assms(6) P D A queue by (simp_all add: handle_message_def memory_stream_queue_def)
  then show ?thesis using D q1 v(1) by simp
qed

end

section \<open>All claimed messages\<close>

lemma healthy_free:
  assumes "healthy ees m" "dom (map_of (mr_attempts m')) \<subseteq> dom (map_of (mr_attempts m)) \<union> new"
    and "new_attempts ees \<inter> new = {}"
  shows "healthy ees m'"
proof -
  have "map_of (mr_attempts m') (''att_'' @ de_uuid (first_dispatch ees j)) = None" for j
  proof -
    have "''att_'' @ de_uuid (first_dispatch ees j) \<in> new_attempts ees" by (auto simp: new_attempts_def)
    moreover have "''att_'' @ de_uuid (first_dispatch ees j) \<notin> dom (map_of (mr_attempts m))"
      using assms(1) by (auto simp: healthy_def)
    ultimately show ?thesis using assms(2,3) by (auto simp: domIff subset_iff)
  qed
  then show ?thesis using assms(1) by (simp add: healthy_def)
qed

lemma deliverable_after:
  assumes "deliverable m msg'" "only_event (qm_EventID msg) m m'"
    and "\<forall>v. mr_evs m (qm_EventID msg) = Some v \<longrightarrow> mr_evs m' (qm_EventID msg) = Some (v\<lparr>ev_Status := recovered (ev_Status v)\<rparr>)"
  shows "deliverable m' msg'"
proof -
  have "has_active m' t = has_active m t" for t using assms(2) by (simp add: has_active_def only_event_def)
  then show ?thesis
    using assms by (cases "qm_EventID msg' = qm_EventID msg") (auto simp: deliverable_def only_event_def recovered_def)
qed

text \<open>The environments of the claimed messages: every context is live, every endpoint accepts.\<close>

definition claims_live :: "(nat \<Rightarrow> claim_env) \<Rightarrow> memory_repo \<Rightarrow> bool" where
  "claims_live ces m \<longleftrightarrow>
     (\<forall>j. cl_check (ces j) = None \<and> message_live (cl_message (ces j)) \<and> healthy (endpoints_of (cl_message (ces j))) m) \<and>
     (\<forall>j k. j \<noteq> k \<longrightarrow> new_attempts (endpoints_of (cl_message (ces j))) \<inter> new_attempts (endpoints_of (cl_message (ces k))) = {})"

context memory_pool
begin

lemma claimed_recovered:
  assumes "\<forall>j. cl_check (ces j) = None \<and> message_live (cl_message (ces j))"
    and "\<forall>j k. j \<noteq> k \<longrightarrow> new_attempts (endpoints_of (cl_message (ces j))) \<inter> new_attempts (endpoints_of (cl_message (ces k))) = {}"
    and "\<forall>j \<ge> i. healthy (endpoints_of (cl_message (ces j))) (ds_repo (po_d s))"
    and "mr_inv (ds_repo (po_d s))" "mq_inv (po_q s)" "distinct (map qm_ID msgs)"
    and "\<forall>msg \<in> set msgs. deliverable (ds_repo (po_d s)) msg \<and>
           claims_of (po_claimAttempts s) (qm_ID msg) < cf_MaxClaimAttempts (wp_cfg p)"
    and "claimed_messages p ces i msgs s = (go, trace, s')"
  shows "go \<and> (\<forall>a \<in> set (attempts_of trace). at_Status a = DeliveryStatusSuccess) \<and>
    (\<forall>i. pend (po_q s') i = (if i \<in> qm_ID ` set msgs then None else pend (po_q s) i)) \<and>
    (\<forall>j v. mr_evs (ds_repo (po_d s)) j = Some v \<longrightarrow> mr_evs (ds_repo (po_d s')) j =
       Some (if j \<in> qm_EventID ` set msgs then v\<lparr>ev_Status := recovered (ev_Status v)\<rparr> else v))"
  using assms(3-8)
proof (induction msgs arbitrary: i s trace)
  case (Cons msg msgs)
  let ?ce = "ces i" and ?m = "ds_repo (po_d s)"
  define s0 where "s0 = s\<lparr>po_claimAttempts := AList.update (qm_ID msg) (claims_of (po_claimAttempts s) (qm_ID msg) + 1) (po_claimAttempts s)\<rparr>"
  have s0: "po_d s0 = po_d s" "po_q s0 = po_q s" by (simp_all add: s0_def)
  have live: "cl_check ?ce = None" "message_live (cl_message ?ce)" using assms(1) by blast+
  have msg: "deliverable ?m msg" "claims_of (po_claimAttempts s) (qm_ID msg) < cf_MaxClaimAttempts (wp_cfg p)"
    using Cons.prems(5) by simp_all
  obtain panic tr s1 where H: "handle_message p (cl_message ?ce) msg s0 = (panic, tr, s1)" by (metis prod.exhaust)
  have "healthy (endpoints_of (cl_message ?ce)) (ds_repo (po_d s0))" using Cons.prems(1) s0 by simp
  from message_recovered [OF live(2) this _ _ _ H]
  have M: "panic = None" "mq_inv (po_q s1)" "po_claimAttempts s1 = po_claimAttempts s0"
    "\<forall>a \<in> set (attempts_of tr). at_Status a = DeliveryStatusSuccess"
    "\<forall>i. pend (po_q s1) i = (if i = qm_ID msg then None else pend (po_q s) i)"
    "\<forall>v. mr_evs ?m (qm_EventID msg) = Some v \<longrightarrow>
       mr_evs (ds_repo (po_d s1)) (qm_EventID msg) = Some (v\<lparr>ev_Status := recovered (ev_Status v)\<rparr>)"
    "only_event (qm_EventID msg) ?m (ds_repo (po_d s1))"
    "dom (map_of (mr_attempts (ds_repo (po_d s1)))) \<subseteq> dom (map_of (mr_attempts ?m)) \<union> new_attempts (endpoints_of (cl_message ?ce))"
    using Cons.prems(2,3) msg(1) unfolding s0 by blast+
  have "handle_claimed p ?ce msg s = (None, tr, s1)"
    using msg(2) H M(1) by (simp add: handle_claimed_def Let_def s0_def)
  then obtain rest where L: "claimed_messages p ces (Suc i) msgs s1 = (go, rest, s')" "trace = tr @ rest"
    using Cons.prems(6) live(1) by (auto split: prod.splits)
  have h1: "\<forall>j \<ge> Suc i. healthy (endpoints_of (cl_message (ces j))) (ds_repo (po_d s1))"
  proof (intro allI impI)
    fix j assume "Suc i \<le> j"
    then show "healthy (endpoints_of (cl_message (ces j))) (ds_repo (po_d s1))"
      using healthy_free [OF _ M(8)] Cons.prems(1) assms(2) by (metis Suc_leD not_less_eq_eq order_refl)
  qed
  have i1: "mr_inv (ds_repo (po_d s1))" using M(7) Cons.prems(2) by (simp add: only_event_def)
  have d1: "\<forall>msg' \<in> set msgs. deliverable (ds_repo (po_d s1)) msg' \<and>
      claims_of (po_claimAttempts s1) (qm_ID msg') < cf_MaxClaimAttempts (wp_cfg p)"
  proof
    fix msg' assume m': "msg' \<in> set msgs"
    then have "qm_ID msg' \<noteq> qm_ID msg" using Cons.prems(4) by (simp, metis imageI)
    then have "claims_of (po_claimAttempts s1) (qm_ID msg') = claims_of (po_claimAttempts s) (qm_ID msg')"
      by (simp add: M(3) s0_def claims_of_def)
    then show "deliverable (ds_repo (po_d s1)) msg' \<and>
      claims_of (po_claimAttempts s1) (qm_ID msg') < cf_MaxClaimAttempts (wp_cfg p)"
      using m' Cons.prems(5) deliverable_after [OF _ M(7,6)] by simp
  qed
  have dist: "distinct (map qm_ID msgs)" "qm_ID msg \<notin> qm_ID ` set msgs" using Cons.prems(4) by simp_all
  note ih = Cons.IH [OF h1 i1 M(2) dist(1) d1 L(1)]
  have "mr_evs (ds_repo (po_d s')) j = Some (if j \<in> qm_EventID ` set (msg # msgs) then v\<lparr>ev_Status := recovered (ev_Status v)\<rparr> else v)"
    if v: "mr_evs ?m j = Some v" for j v
  proof (cases "j = qm_EventID msg")
    case True
    then have "mr_evs (ds_repo (po_d s1)) j = Some (v\<lparr>ev_Status := recovered (ev_Status v)\<rparr>)" using M(6) v by simp
    then show ?thesis using ih True by auto
  next
    case False
    then have "mr_evs (ds_repo (po_d s1)) j = Some v" using M(7) v by (simp add: only_event_def)
    then show ?thesis using ih False by auto
  qed
  then show ?case using ih M(4,5) L(2) dist(2) by auto
qed simp

end

section \<open>A pass of the running server\<close>

definition pass_live :: "pass_env \<Rightarrow> memory_repo \<Rightarrow> bool" where
  "pass_live pa m \<longleftrightarrow> pa_check pa = None \<and> live (pa_claim pa) \<and> env_ok (pa_claim pa) \<and> claims_live (pa_message pa) m"

text \<open>The pending entries of the workers that were not acknowledged for ten seconds.\<close>

definition stale :: "mem_queue \<Rightarrow> gotime \<Rightarrow> memPendingEntry set" where
  "stale q now = {pe. \<exists>i. mq_entry q ''stream:events:pending'' ''worker-group'' i = Some pe \<and>
     10 * Second \<le> now - pe_deliveryTime pe}"

lemma finite_stale: "finite (stale q now)"
proof -
  have "stale q now \<subseteq> ran (mq_entry q ''stream:events:pending'' ''worker-group'')" by (auto simp: stale_def ran_def)
  moreover have "finite (ran (mq_entry q ''stream:events:pending'' ''worker-group''))"
    by (cases "mq_grp q ''stream:events:pending'' ''worker-group''")
      (simp_all add: mq_entry_def [abs_def] finite_ran finite_dom_map_of ran_def [of "\<lambda>_. None"])
  ultimately show ?thesis by (rule finite_subset)
qed

lemma claims_stale:
  assumes "mq_inv q" "live e" "env_ok e" "card (stale q (e_now e)) < 10"
    and "mq_AutoClaim e ''stream:events:pending'' ''worker-group'' c (10 * Second) startID 10 q = (res, q1)"
  obtains ms where "res = Inr (ms, ''0-0'')" "distinct (map qm_ID ms)" "set ms = pe_msg ` stale q (e_now e)"
    "mq_inv q1" "mq_pend q1 = mq_pend q"
proof -
  obtain ms where r: "res = Inr (ms, ''0-0'')"
    using assms(2,5) by (auto simp: mq_AutoClaim_def Let_def split: option.splits prod.splits)
  have f: "distinct (map qm_ID ms)" "\<forall>msg \<in> set ms. msg \<in> pe_msg ` stale q (e_now e)"
    "length ms < 10 \<longrightarrow> (\<forall>pe \<in> stale q (e_now e). pe_msg pe \<in> set ms)"
  proof -
    note c = claim_facts [OF assms(1,3) assms(5) [unfolded r]]
    show "distinct (map qm_ID ms)" using c by blast
    show "length ms < 10 \<longrightarrow> (\<forall>pe \<in> stale q (e_now e). pe_msg pe \<in> set ms)" using c by (auto simp: stale_def)
    show "\<forall>msg \<in> set ms. msg \<in> pe_msg ` stale q (e_now e)"
    proof
      fix msg assume "msg \<in> set ms"
      then obtain pe where "pe \<in> stale q (e_now e)" "pe_msg pe = msg" using c unfolding stale_def by blast
      then show "msg \<in> pe_msg ` stale q (e_now e)" by blast
    qed
  qed
  have "length ms = card (set ms)" using f(1) by (simp add: distinct_map distinct_card)
  also have "\<dots> \<le> card (pe_msg ` stale q (e_now e))" using f(2) finite_stale by (intro card_mono) auto
  also have "\<dots> \<le> card (stale q (e_now e))" by (rule card_image_le [OF finite_stale])
  finally have "length ms < 10" using assms(4) by simp
  then have "set ms = pe_msg ` stale q (e_now e)" using f(2,3) by auto
  then show thesis using that r f(1) mq_claim_frame [OF assms(1) _ assms(5)] assms(3) by simp
qed

interpretation wsp: memory_pool "sr_pool (memory_server P ord osenv)" for P ord osenv
  by unfold_locales simp_all

text \<open>C4: a crashed worker loses nothing: at any point of any run of the server in memory, one live pass of the
  recovery, at which fewer than ten pending messages are stale, acknowledges every stale message and brings
  its event, if it was PENDING, to DELIVERED, provided its tenant has an active endpoint, the message was
  claimed fewer than five times and the endpoints accept; events that are DELIVERED or in the DLQ stay so.\<close>

theorem crashed_worker_recovered:
  assumes "server_run (memory_server P ord osenv) uri_scheme (memory_start P ord osenv e) s"
    and "pass_live pa (sy_repo s)" "card (stale (sy_queue s) (e_now (pa_claim pa))) < 10"
    and "\<forall>pe \<in> stale (sy_queue s) (e_now (pa_claim pa)). claims_of (sy_claims s) (qm_ID (pe_msg pe)) < 5 \<and>
      (\<exists>v. mr_evs (sy_repo s) (qm_EventID (pe_msg pe)) = Some v \<and> carries (pe_msg pe) v \<and> has_active (sy_repo s) (ev_TenantID v))"
    and "server_recovery (memory_server P ord osenv) [pa] startID s = (go, startID', trace, s')"
  shows "go \<and> (\<forall>a \<in> set (attempts_of trace). at_Status a = DeliveryStatusSuccess) \<and>
    (\<forall>pe \<in> stale (sy_queue s) (e_now (pa_claim pa)).
       mq_pend (sy_queue s') ''stream:events:pending'' ''worker-group'' (qm_ID (pe_msg pe)) = None \<and>
       (\<forall>v. mr_evs (sy_repo s) (qm_EventID (pe_msg pe)) = Some v \<longrightarrow>
          mr_evs (sy_repo s') (qm_EventID (pe_msg pe)) = Some (v\<lparr>ev_Status := recovered (ev_Status v)\<rparr>)))"
proof -
  let ?p = "sr_pool (memory_server P ord osenv)"
  have p: "wp_repo ?p = Some memory_repository" "dp_repo (wp_dispatcher ?p) = Some memory_repository"
    "wp_queue ?p = memory_stream_queue" "cf_StreamName (wp_cfg ?p) = ''stream:events:pending''"
    "cf_GroupName (wp_cfg ?p) = ''worker-group''" "cf_BatchSize (wp_cfg ?p) = 10"
    "cf_MinIdleDuration (wp_cfg ?p) = 10 * Second" "cf_MaxClaimAttempts (wp_cfg ?p) = 5"
    by (simp_all add: wire_server_def NewWorkerPool_def pool_defaults_def worker_config_def Let_def
        WithAttemptCallback_def NewDispatcher_def)
  have ok: "mr_inv (sy_repo s)" "mq_inv (sy_queue s)" "store_typed uri_scheme (sy_repo s)" using running_ok [OF assms(1)] by blast+
  have pl: "pa_check pa = None" "live (pa_claim pa)" "env_ok (pa_claim pa)" "claims_live (pa_message pa) (sy_repo s)"
    using assms(2) by (simp_all add: pass_live_def)
  obtain res q1 where C: "mq_AutoClaim (pa_claim pa) ''stream:events:pending'' ''worker-group'' ''pel-auto-reclaimer''
      (10 * Second) startID 10 (sy_queue s) = (res, q1)" by fastforce
  obtain ms where ms: "res = Inr (ms, ''0-0'')" "distinct (map qm_ID ms)"
    "set ms = pe_msg ` stale (sy_queue s) (e_now (pa_claim pa))" "mq_inv q1" "mq_pend q1 = mq_pend (sy_queue s)"
    using claims_stale [OF ok(2) pl(2,3) assms(3) C] .
  let ?st = "(pool_view s)\<lparr>po_q := q1\<rparr>"
  have claim: "sq_AutoClaim memory_stream_queue = mq_AutoClaim" by (simp add: memory_stream_queue_def)
  have view: "ds_repo (po_d ?st) = sy_repo s" "po_q ?st = q1" "po_claimAttempts ?st = sy_claims s" by (simp_all add: pool_view_def)
  obtain g1 tr st1 where L: "claimed_messages ?p (pa_message pa) 0 ms ?st = (g1, tr, st1)" by (metis prod.exhaust)
  have typed: "\<forall>msg \<in> set ms. deliverable (sy_repo s) msg \<and> claims_of (sy_claims s) (qm_ID msg) < 5"
  proof
    fix msg assume "msg \<in> set ms"
    then obtain v where v: "mr_evs (sy_repo s) (qm_EventID msg) = Some v" "carries msg v" "has_active (sy_repo s) (ev_TenantID v)"
      and n: "claims_of (sy_claims s) (qm_ID msg) < 5"
      using assms(4) ms(3) by auto
    have "event_typed v" using ok(3) v(1) by (simp add: store_typed_def)
    then show "deliverable (sy_repo s) msg \<and> claims_of (sy_claims s) (qm_ID msg) < 5"
      using v n by (auto simp: deliverable_def event_typed_def Event_Validate_ok carries_def)
  qed
  have R: "g1 \<and> (\<forall>a \<in> set (attempts_of tr). at_Status a = DeliveryStatusSuccess) \<and>
    (\<forall>i. mq_pend (po_q st1) ''stream:events:pending'' ''worker-group'' i =
       (if i \<in> qm_ID ` set ms then None else mq_pend q1 ''stream:events:pending'' ''worker-group'' i)) \<and>
    (\<forall>j v. mr_evs (sy_repo s) j = Some v \<longrightarrow> mr_evs (ds_repo (po_d st1)) j =
       Some (if j \<in> qm_EventID ` set ms then v\<lparr>ev_Status := recovered (ev_Status v)\<rparr> else v))"
    using wsp.claimed_recovered [OF _ _ _ _ _ ms(2) _ L] pl(4) ok(1) ms(4) typed
    unfolding view p claims_live_def by simp
  have "pel_passes ?p [pa] startID (pool_view s) = (True, ''0-0'', tr, st1)"
    using pl(1) C ms(1) L R by (cases ms) (simp_all add: p claim)
  then have "go" "trace = tr" "sy_repo s' = ds_repo (po_d st1)" "sy_queue s' = po_q st1"
    using assms(5) by (auto simp: server_recovery_def)
  then show ?thesis using R ms(3) by auto
qed

section \<open>An example\<close>

text \<open>A worker that reads the message and crashes, and the pass that follows.\<close>

definition crash_round :: worker_round where
  "crash_round = demo_round\<lparr>wr_message := (\<lambda>_. (wr_message demo_round 0)\<lparr>me_check := Some CtxCanceled\<rparr>)\<rparr>"

definition pair_uuid :: "nat \<Rightarrow> nat \<Rightarrow> string" where
  "pair_uuid j i = replicate j CHR ''x'' @ CHR ''y'' # replicate i CHR ''x''"

definition demo_claim :: "nat \<Rightarrow> claim_env" where
  "demo_claim j = \<lparr>cl_check = None, cl_poison = env0, cl_message = (wr_message demo_round 0)\<lparr>me_process :=
     (me_process (wr_message demo_round 0))\<lparr>pv_endpoint := (\<lambda>i. \<lparr>ee_check = None, ee_attempt = (\<lambda>_. attempt_env0 (pair_uuid j i) 200)\<rparr>)\<rparr>\<rparr>\<rparr>"

definition demo_pass :: "gotime \<Rightarrow> pass_env" where
  "demo_pass now = \<lparr>pa_check = None, pa_claim = env0\<lparr>e_now := now\<rparr>, pa_err_check = None, pa_message = demo_claim\<rparr>"

lemma pair_uuid_inj: "pair_uuid j i = pair_uuid j' i' \<longleftrightarrow> j = j' \<and> i = i'"
proof
  assume e: "pair_uuid j i = pair_uuid j' i'"
  have t: "takeWhile (\<lambda>c. c \<noteq> CHR ''y'') (pair_uuid a b) = replicate a CHR ''x''" for a b
    by (induction a) (simp_all add: pair_uuid_def)
  have "length (pair_uuid a b) = Suc (a + b)" for a b by (simp add: pair_uuid_def)
  then have "j + i = j' + i'" using arg_cong [OF e, of length] by simp
  moreover have "j = j'" using t [of j i] t [of j' i'] e by (simp add: replicate_eq_replicate)
  ultimately show "j = j' \<and> i = i'" by simp
qed simp

lemma demo_claims_live:
  assumes "mr_attempts m = []"
  shows "claims_live (pa_message (demo_pass now)) m"
proof -
  have u: "new_attempts (endpoints_of (cl_message (demo_claim j))) = range (\<lambda>i. ''att_'' @ pair_uuid j i)" for j
    by (simp add: new_attempts_def demo_claim_def first_dispatch_def attempt_env0_def)
  have "healthy (endpoints_of (cl_message (demo_claim j))) m" for j
    using assms by (auto simp: healthy_def demo_claim_def accepts_def first_dispatch_def attempt_env0_def delivery_env_def env0_def
        inj_def pair_uuid_inj)
  then show ?thesis
    using u by (auto simp: claims_live_def demo_pass_def message_live_def demo_claim_def demo_round_def process_live_def env0_def pair_uuid_inj)
qed

theorem crashed_worker_recovered_witness:
  "\<exists>s now i1 trace s'. server_run demo_server scheme0 (memory_start counting_prom (\<lambda>n. [0..<n]) (\<lambda>_. '''') env0) s \<and>
     stale (sy_queue s) now \<noteq> {} \<and> server_recovery demo_server [demo_pass now] ''0-0'' s = (True, i1, trace, s') \<and>
     mr_evs (sy_repo s') ''evt_u1'' = Some (ingested0\<lparr>ev_Status := EventStatusDelivered\<rparr>)"
proof -
  let ?s0 = "memory_start counting_prom (\<lambda>n. [0..<n]) (\<lambda>_. '''') env0" and ?st = "''stream:events:pending''" and ?g = "''worker-group''"
  obtain s ob where run: "server_run demo_server scheme0 ?s0 s" and b: "mr_evs (sy_repo s) = [''evt_u1'' \<mapsto> ingested0]"
    "mr_obs (sy_repo s) = [1 \<mapsto> ob]" "ob_EventID ob = ''evt_u1''" "ob_Status ob = OutboxStatusPending"
    "mr_endpoints (sy_repo s) = [(''ep_u1'', demo_endpoint)]" "mr_attempts (sy_repo s) = []" "sy_queue s = sy_queue ?s0" and claims: "sy_claims s = []"
    by (rule demo_ingested)
  have ok: "mr_inv (sy_repo s)" "mq_inv (sy_queue s)" using running_ok [OF run [unfolded demo_server_def]] by blast+
  have pend: "pending_ids (sy_repo s) = {1}" using b(2,4) by (auto simp: pending_ids_def split: if_splits)
  have v: "mr_obs (sy_repo s) 1 = Some ob" "mr_evs (sy_repo s) (ob_EventID ob) = Some ingested0" using b(1-3) by simp_all
  note q0 = memory_start_fields(3,4) [of counting_prom "\<lambda>n. [0..<n]" "\<lambda>_. ''''"]
  obtain r1 q1 msg where R: "ProcessNextBatch (mem_relay ?st) live_batch_env 100 (sy_repo s) (sy_queue s) = ((1, None), r1, q1)"
    and r1: "mr_evs r1 = mr_evs (sy_repo s)" "mr_endpoints r1 = mr_endpoints (sy_repo s)" "mr_attempts r1 = mr_attempts (sy_repo s)"
    and q1: "mq_inv q1" "mq_log q1 = (mq_log (sy_queue s))(?st := mq_log (sy_queue s) ?st @ [msg])" "carries msg ingested0"
      "mq_delivered q1 ?st ?g = mq_delivered (sy_queue s) ?st ?g"
    using relay_publishes_one [OF ok _ live_batch_env_live _ pend v, of ?st 100] by auto
  have log: "mq_log q1 ?st = [msg]" "mq_delivered q1 ?st ?g = 0" using q1(2,4) q0 b(7) by simp_all
  obtain q2 where read: "mq_ReadEvents_quiet env0 ?st ?g (''worker-'' @ show_int (int 0)) 10
      (cf_PollInterval (wp_cfg (sr_pool demo_server))) q1 = (Inr [msg], q2)" and q2: "mq_inv q2" "mq_log q2 = mq_log q1"
    using worker_reads [OF q1(1), of env0 ?st ?g 10 "[]" msg "''worker-'' @ show_int (int 0)" "cf_PollInterval (wp_cfg (sr_pool demo_server))"]
      log by (auto simp: env0_def)
  have pnd: "mq_pend q2 ?st ?g (qm_ID msg) = Some msg"
    using mq.read_ok [OF q1(1), of env0 ?st ?g "''worker-'' @ show_int (int 0)" 10 _ "[msg]" q2] read
    by (simp add: memory_stream_queue_def)
  then obtain pe where pe: "mq_entry q2 ?st ?g (qm_ID msg) = Some pe" "pe_msg pe = msg"
    by (auto simp: mq_pend_def mq_entry_def split: option.splits)
  define s1 where "s1 = s\<lparr>sy_repo := r1, sy_queue := q1\<rparr>"
  define s2 where "s2 = put_pool ((pool_view s1)\<lparr>po_q := q2\<rparr>) s1"
  define now where "now = pe_deliveryTime pe + 10 * Second"
  have "sr_batch demo_server = 100" by (simp add: demo_server_def wire_server_def getEnvInt_def Let_def)
  moreover have "sr_relay demo_server = mem_relay ?st" by (simp add: demo_server_def)
  ultimately have "server_relay demo_server live_batch_env s = ((1, None), s1)"
    using R by (simp add: server_relay_def s1_def)
  then have "server_step demo_server scheme0 s s1" by (rule a_batch) (simp add: live_batch_env_def env0_def)
  moreover have "worker_step (sr_pool demo_server) 0 crash_round (pool_view s1) = (False, [], (pool_view s1)\<lparr>po_q := q2\<rparr>)"
    using read by (simp add: worker_step_def crash_round_def demo_round_def demo_server_def memory_stream_queue_def s1_def)
  then have "server_worker demo_server 0 crash_round s1 = (False, [], s2)" by (simp add: server_worker_def s2_def)
  then have "server_step demo_server scheme0 s1 s2" by (rule a_turn)
  ultimately have run2: "server_run demo_server scheme0 ?s0 s2" using run by (meson rtranclp.rtrancl_into_rtrancl)
  have s2: "sy_repo s2 = r1" "sy_queue s2 = q2" "sy_claims s2 = sy_claims s" by (simp_all add: s2_def s1_def put_pool_def pool_view_def)
  have sub: "x = pe" if x: "x \<in> stale q2 t" for x t
  proof -
    obtain i where i: "mq_entry q2 ?st ?g i = Some x" using x by (auto simp: stale_def)
    then have "mq_pend q2 ?st ?g i = Some (pe_msg x)" by (auto simp: mq_pend_def mq_entry_def split: option.splits)
    then have "pe_msg x \<in> set (mq_log q2 ?st)" "qm_ID (pe_msg x) = i" using pend_in_log [OF q2(1)] by blast+
    then have "i = qm_ID msg" using log(1) q2(2) by simp
    then show "x = pe" using i pe(1) by simp
  qed
  have "pe \<in> stale q2 now" using pe(1) by (auto simp: stale_def now_def)
  then have st: "stale q2 now = {pe}" using sub by blast
  have pl: "pass_live (demo_pass now) (sy_repo s2)"
    using demo_claims_live [of "sy_repo s2" now] b(6) r1(3) s2(1) by (simp add: pass_live_def demo_pass_def env0_def)
  obtain go i1 trace s' where P: "server_recovery demo_server [demo_pass now] ''0-0'' s2 = (go, i1, trace, s')" by (metis prod.exhaust)
  have n: "e_now (pa_claim (demo_pass now)) = now" by (simp add: demo_pass_def)
  have vid: "qm_EventID msg = ''evt_u1''" "ev_TenantID ingested0 = ''acme''" "ev_Status ingested0 = EventStatusPending"
    using q1(3) by (simp_all add: carries_def ingested0_def ingest_event_def)
  have act: "has_active (sy_repo s2) ''acme''"
    using b(5) r1(2) s2(1) by (auto simp: has_active_def demo_endpoint_def created_endpoint_def)
  have evs: "mr_evs (sy_repo s2) ''evt_u1'' = Some ingested0" using b(1) r1(1) s2(1) by simp
  have "go \<and> mr_evs (sy_repo s') (qm_EventID (pe_msg pe)) = Some (ingested0\<lparr>ev_Status := recovered (ev_Status ingested0)\<rparr>)"
    using crashed_worker_recovered [OF run2 [unfolded demo_server_def] pl _ _ P [unfolded demo_server_def]]
      st act evs vid(1,2) q1(3) pe(2) claims unfolding n s2 by (simp add: claims_of_def)
  then show ?thesis using run2 P st s2(2) vid pe(2) by (intro exI [of _ s2] exI [of _ now] exI [of _ i1] exI [of _ trace] exI [of _ s']) (simp add: recovered_def)
qed

end
