(* ===== verification/Fence.thy ===== *)
theory Fence
  imports Recovery
begin

text \<open>
  The fence of the workers in the running server in memory: an event that is DELIVERED or in the DLQ is
  dispatched by no turn of a worker and by no pass of the recovery, however often its message comes back.
  Lemmas: a delivery changes the status of its own event only, whatever fails in it.
\<close>

section \<open>What a delivery changes\<close>

lemma store_only_event:
  assumes "dispatch_store (Some memory_repository) de event a r = (so, r')"
  shows "only_event (ev_ID event) r r'"
proof -
  obtain ro r1 where rec: "mr_RecordDeliveryAttempt (de_record de) a r = (ro, r1)" by fastforce
  then have "only_event (ev_ID event) r r1"
    using mr.record_frame [of r "de_record de" a ro r1]
    by (auto simp: only_event_def memory_repository_def mr_RecordDeliveryAttempt_def Let_def split: option.splits if_splits)
  moreover have "only_event (ev_ID event) r1 (snd (mr_UpdateEventStatus e (ev_ID event) st r1))" for e st
    using mr_inv_UpdateEventStatus [of r1 e "ev_ID event" st]
    by (auto simp: only_event_def mr_UpdateEventStatus_def split: option.splits)
  moreover have "r' = r1 \<or> (\<exists>st. r' = snd (mr_UpdateEventStatus (de_update de) (ev_ID event) st r1))"
    using assms rec by (auto simp: dispatch_store_def memory_repository_def split: option.splits if_splits)
  ultimately show ?thesis using only_event_trans by metis
qed

lemma dispatch_only_event:
  assumes "dp_repo d = Some memory_repository" "Dispatch d de (Some endpoint) (Some event) n s = (res, s')"
  shows "only_event (ev_ID event) (ds_repo s) (ds_repo s')"
proof (cases "de_new_request de (ep_URL endpoint)")
  case None
  obtain so r1 where st: "dispatch_store (Some memory_repository) de event
      (attempt_of (dp_policy d) de endpoint event (if n \<le> 0 then 1 else n)) (ds_repo s) = (so, r1)" by fastforce
  then have "ds_repo s' = r1" using assms by (auto simp: Dispatch_attempt [OF None] Let_def split: option.splits)
  then show ?thesis using store_only_event [OF st] by simp
next
  case (Some e)
  then show ?thesis using assms(2) by (auto simp: Dispatch_def Let_def)
qed

lemma retry_only_event:
  assumes "retry_loop d endpoint event aes n s = (ret, trace, s')" "1 \<le> n" "dp_repo d = Some memory_repository"
  shows "only_event (ev_ID event) (ds_repo s) (ds_repo s')"
  using assms
proof (induction "nat (bp_MaxRetries (dp_policy d) + 1 - n)" arbitrary: n s ret trace s' rule: less_induct)
  case less
  from less(2,3) show ?case
  proof (cases rule: retry_loop_cases)
    case (Again a err s1 rest)
    note one = dispatch_only_event [OF less(4) Again(1)]
    show ?thesis
    proof (cases "ae_wait (aes n) = None")
      case True
      then have "retry_loop d endpoint event aes (n + 1) s1 = (ret, rest, s')" using Again(5) by simp
      then have "only_event (ev_ID event) (ds_repo s1) (ds_repo s')" using less(1) [of "n + 1"] less(3,4) Again(3) by simp
      then show ?thesis by (rule only_event_trans [OF one])
    next
      case False
      then show ?thesis using Again(5) one by metis
    qed
  qed (use dispatch_only_event [OF less(4)] in simp_all)
qed

lemma deliver_only_event:
  assumes "deliver_all d event ees i eps s = (trace, s')" "dp_repo d = Some memory_repository"
  shows "only_event (ev_ID event) (ds_repo s) (ds_repo s')"
  using assms(1)
proof (induction eps arbitrary: i s trace s')
  case (Cons ep eps)
  show ?case
  proof (cases "ee_check (ees i)")
    case None
    obtain ret tr s1 where R: "retry_loop d ep event (ee_attempt (ees i)) 1 s = (ret, tr, s1)" by (metis prod.exhaust)
    note one = retry_only_event [OF R _ assms(2)]
    obtain rest s2 where L: "deliver_all d event ees (Suc i) eps s1 = (rest, s2)" by fastforce
    show ?thesis
      using Cons.prems None R one only_event_trans [OF one Cons.IH [OF L]] L by (cases ret) auto
  qed (use Cons.prems in simp)
qed simp

section \<open>One message\<close>

abbreviation processed :: "EventStatus \<Rightarrow> bool" where
  "processed st \<equiv> st = EventStatusDelivered \<or> st = EventStatusDLQ"

text \<open>The event is stored as it was, up to a status that is still final, and no attempt was made for it.\<close>

definition skipped :: "string \<Rightarrow> Event \<Rightarrow> step list \<Rightarrow> memory_repo \<Rightarrow> bool" where
  "skipped i v trace m \<longleftrightarrow> mr_inv m \<and> i \<notin> at_EventID ` set (attempts_of trace) \<and> mr_evs m i = Some v"

lemma skipped_append: "skipped i v xs m \<Longrightarrow> skipped i v' ys m' \<Longrightarrow> skipped i v' (xs @ ys) m'"
  by (auto simp: skipped_def)

lemma fence_live: "live e \<Longrightarrow> fenced (Some memory_repository) e i m \<longleftrightarrow> (\<exists>v. mr_evs m i = Some v \<and> processed (ev_Status v))"
  by (auto simp: fenced_def memory_repository_def mr_GetEvent_def split: option.splits)

lemma process_skips:
  assumes "wp_repo p = Some memory_repository" "dp_repo (wp_dispatcher p) = Some memory_repository"
    and "mr_inv (ds_repo s)" "live (pv_fence pe)" "mr_evs (ds_repo s) i = Some v" "processed (ev_Status v)"
    and "processMessage p pe msg s = (panic, trace, s')"
  shows "skipped i v trace (ds_repo s')"
proof (cases "s' = s \<and> trace = []")
  case True
  then show ?thesis using assms(3,5) by (simp add: skipped_def)
next
  case False
  let ?event = "case rp_GetEvent memory_repository (pv_get pe) (qm_EventID msg) (ds_repo s) of
      Inl err \<Rightarrow> event_of_message msg | Inr evt \<Rightarrow> evt"
  have ev: "ev_ID ?event = qm_EventID msg"
    using mr.get_some [OF assms(3), of "pv_get pe" "qm_EventID msg"] by (auto simp: event_of_message_def split: sum.split)
  obtain eps where D: "deliver_all (wp_dispatcher p) ?event (pv_endpoint pe) 0 eps s = (trace, s')"
    and f: "\<not> fenced (Some memory_repository) (pv_fence pe) (qm_EventID msg) (ds_repo s)"
    using assms(1,7) False by (auto simp: processMessage_def Let_def split: if_splits sum.splits prod.splits)
  have "i \<noteq> qm_EventID msg" using f assms(5,6) by (auto simp: fence_live [OF assms(4)])
  moreover have "only_event (qm_EventID msg) (ds_repo s) (ds_repo s')" using deliver_only_event [OF D assms(2)] ev by simp
  moreover have "\<forall>a \<in> set (attempts_of trace). at_EventID a = qm_EventID msg" using deliver_all_trace [OF D] ev by simp
  ultimately show ?thesis using assms(3,5) by (auto simp: skipped_def only_event_def)
qed

lemma handle_skips:
  assumes "wp_repo p = Some memory_repository" "dp_repo (wp_dispatcher p) = Some memory_repository"
    and "mr_inv (ds_repo (po_d st))" "live (pv_fence (me_process me))" "mr_evs (ds_repo (po_d st)) i = Some v" "processed (ev_Status v)"
    and "handle_message p me msg st = (panic, trace, st')"
  shows "skipped i v trace (ds_repo (po_d st'))"
  using assms(7) process_skips [OF assms(1-6)]
  by (auto simp: handle_message_def split: prod.splits option.splits)

section \<open>Turns and passes\<close>

lemma messages_skip:
  assumes "wp_repo p = Some memory_repository" "dp_repo (wp_dispatcher p) = Some memory_repository"
    and "\<forall>k. live (pv_fence (me_process (mes k)))" "processed (ev_Status v)"
    and "skipped i v [] (ds_repo (po_d st))" "worker_messages p mes j msgs st = (go, trace, st')"
  shows "skipped i v trace (ds_repo (po_d st'))"
  using assms(5,6)
proof (induction msgs arbitrary: j st go trace st')
  case (Cons msg msgs)
  show ?case
  proof (cases "me_check (mes j)")
    case None
    obtain panic tr st1 where H: "handle_message p (mes j) msg st = (panic, tr, st1)" by (metis prod.exhaust)
    have one: "skipped i v tr (ds_repo (po_d st1))"
      using handle_skips [OF assms(1,2) _ spec [OF assms(3)] _ assms(4) H, of i] Cons.prems(1) by (simp add: skipped_def)
    then have s1: "skipped i v [] (ds_repo (po_d st1))" by (simp add: skipped_def)
    obtain g rest st2 where L: "worker_messages p mes (Suc j) msgs st1 = (g, rest, st2)" by (metis prod.exhaust)
    show ?thesis
      using Cons.prems(2) None H one skipped_append [OF one Cons.IH [OF s1 L]] L by (cases panic) auto
  qed (use Cons.prems in simp)
qed simp

text \<open>In the recovery the poison ceiling may move a delivered event to the DLQ.\<close>

definition kept :: "string \<Rightarrow> Event \<Rightarrow> step list \<Rightarrow> memory_repo \<Rightarrow> bool" where
  "kept i v trace m \<longleftrightarrow> (\<exists>st. processed st \<and> skipped i (v\<lparr>ev_Status := st\<rparr>) trace m)"

lemma kept_Nil: "kept i v trace m \<Longrightarrow> kept i v [] m"
  by (auto simp: kept_def skipped_def)

lemma kept_append: "kept i v xs m \<Longrightarrow> kept i v ys m' \<Longrightarrow> kept i v (xs @ ys) m'"
  by (auto simp: kept_def skipped_def)

lemma claimed_keeps:
  assumes "wp_repo p = Some memory_repository" "dp_repo (wp_dispatcher p) = Some memory_repository"
    and "live (pv_fence (me_process (cl_message ce)))" "kept i v [] (ds_repo (po_d st))"
    and "handle_claimed p ce msg st = (panic, trace, st')"
  shows "kept i v trace (ds_repo (po_d st'))"
proof -
  let ?m = "ds_repo (po_d st)"
  obtain st0 where k: "processed st0" "mr_inv ?m" "mr_evs ?m i = Some (v\<lparr>ev_Status := st0\<rparr>)"
    using assms(4) by (auto simp: kept_def skipped_def)
  define n where "n = claims_of (po_claimAttempts st) (qm_ID msg) + 1"
  define st1 where "st1 = st\<lparr>po_claimAttempts := AList.update (qm_ID msg) n (po_claimAttempts st)\<rparr>"
  show ?thesis
  proof (cases "n > cf_MaxClaimAttempts (wp_cfg p)")
    case True
    let ?r = "snd (mr_UpdateEventStatus (cl_poison ce) (qm_EventID msg) EventStatusDLQ ?m)"
    have "ds_repo (po_d st') = ?r" "trace = []"
      using assms(1,5) True by (auto simp: handle_claimed_def Let_def n_def [symmetric] memory_repository_def)
    moreover have "mr_inv ?r" using mr_inv_UpdateEventStatus [OF k(2)] .
    moreover have "\<exists>st. processed st \<and> mr_evs ?r i = Some (v\<lparr>ev_Status := st\<rparr>)"
      using k(1,3) by (auto simp: mr_UpdateEventStatus_def split: option.splits)
    ultimately show ?thesis by (auto simp: kept_def skipped_def)
  next
    case False
    have "handle_message p (cl_message ce) msg st1 = (panic, trace, st')"
      using assms(5) False by (simp add: handle_claimed_def Let_def n_def [symmetric] st1_def)
    from handle_skips [OF assms(1,2) _ assms(3) _ _ this, of i "v\<lparr>ev_Status := st0\<rparr>"]
    show ?thesis using k by (auto simp: kept_def st1_def)
  qed
qed

lemma claimed_messages_keep:
  assumes "wp_repo p = Some memory_repository" "dp_repo (wp_dispatcher p) = Some memory_repository"
    and "\<forall>k. live (pv_fence (me_process (cl_message (ces k))))"
    and "kept i v [] (ds_repo (po_d st))" "claimed_messages p ces j msgs st = (go, trace, st')"
  shows "kept i v trace (ds_repo (po_d st'))"
  using assms(4,5)
proof (induction msgs arbitrary: j st go trace st')
  case (Cons msg msgs)
  show ?case
  proof (cases "cl_check (ces j)")
    case None
    obtain panic tr st1 where H: "handle_claimed p (ces j) msg st = (panic, tr, st1)" by (metis prod.exhaust)
    have one: "kept i v tr (ds_repo (po_d st1))"
      by (rule claimed_keeps [OF assms(1,2) spec [OF assms(3)] Cons.prems(1) H])
    obtain g rest st2 where L: "claimed_messages p ces (Suc j) msgs st1 = (g, rest, st2)" by (metis prod.exhaust)
    show ?thesis
      using Cons.prems(2) None H one kept_append [OF one Cons.IH [OF kept_Nil [OF one] L]] L by (cases panic) auto
  qed (use Cons.prems in simp)
qed simp

lemma passes_keep:
  assumes "wp_repo p = Some memory_repository" "dp_repo (wp_dispatcher p) = Some memory_repository"
    and "\<forall>pa \<in> set pas. \<forall>k. live (pv_fence (me_process (cl_message (pa_message pa k))))"
    and "kept i v [] (ds_repo (po_d st))" "pel_passes p pas startID st = (go, startID', trace, st')"
  shows "kept i v trace (ds_repo (po_d st'))"
  using assms(3-5)
proof (induction pas arbitrary: startID st go startID' trace st')
  case (Cons pa pas)
  obtain res q1 where C: "sq_AutoClaim (wp_queue p) (pa_claim pa) (cf_StreamName (wp_cfg p)) (cf_GroupName (wp_cfg p))
      ''pel-auto-reclaimer'' (cf_MinIdleDuration (wp_cfg p)) startID (cf_BatchSize (wp_cfg p)) (po_q st) = (res, q1)" by fastforce
  show ?case
  proof (cases "pa_check pa = None \<and> (\<exists>ms next. res = Inr (ms, next) \<and> ms \<noteq> [])")
    case False
    then have "trace = [] \<and> ds_repo (po_d st') = ds_repo (po_d st)"
      using Cons.prems(3) C by (auto split: option.splits sum.splits if_splits)
    then show ?thesis using Cons.prems(2) by simp
  next
    case True
    then obtain ms "next" where r: "pa_check pa = None" "res = Inr (ms, next)" "ms \<noteq> []" by blast
    obtain g tr st1 where L: "claimed_messages p (pa_message pa) 0 ms (st\<lparr>po_q := q1\<rparr>) = (g, tr, st1)" by (metis prod.exhaust)
    have one: "kept i v tr (ds_repo (po_d st1))"
      using claimed_messages_keep [OF assms(1,2) _ _ L] Cons.prems(1,2) by simp
    obtain g' id' rest st2 where N: "pel_passes p pas next st1 = (g', id', rest, st2)" by (metis prod.exhaust)
    have "kept i v rest (ds_repo (po_d st2))"
      using Cons.IH [OF _ kept_Nil [OF one] N] Cons.prems(1) by simp
    then show ?thesis
      using Cons.prems(3) C r L N one kept_append [OF one] by (cases g) (auto split: if_splits)
  qed
qed simp

section \<open>The running server\<close>

text \<open>C14: no delivery after the end: at any point of any run of the server in memory, an event that is DELIVERED
  or in the DLQ is left alone by whatever turn of a worker and whatever passes of the recovery follow, however
  often its message is read or claimed and whatever fails in them, when the fence can read the store: no attempt is made for
  it; a turn leaves it exactly as it is, a pass leaves it DELIVERED or in the DLQ.\<close>

theorem final_events_fenced:
  assumes "server_run (memory_server P ord osenv) uri_scheme (memory_start P ord osenv e) s"
    and "mr_evs (sy_repo s) i = Some v" "ev_Status v = EventStatusDelivered \<or> ev_Status v = EventStatusDLQ"
    and "\<forall>k. live (pv_fence (me_process (wr_message wr k)))"
    and "server_worker (memory_server P ord osenv) workerID wr s = (go1, trace1, s1)"
    and "\<forall>pa \<in> set pas. \<forall>k. live (pv_fence (me_process (cl_message (pa_message pa k))))"
    and "server_recovery (memory_server P ord osenv) pas startID s = (go2, startID', trace2, s2)"
  shows "i \<notin> at_EventID ` set (attempts_of trace1) \<and> mr_evs (sy_repo s1) i = Some v \<and>
    i \<notin> at_EventID ` set (attempts_of trace2) \<and>
    (\<exists>st \<in> {EventStatusDelivered, EventStatusDLQ}. mr_evs (sy_repo s2) i = Some (v\<lparr>ev_Status := st\<rparr>))"
proof -
  let ?p = "sr_pool (memory_server P ord osenv)"
  have p: "wp_repo ?p = Some memory_repository" "dp_repo (wp_dispatcher ?p) = Some memory_repository" by simp_all
  have start: "skipped i v [] (ds_repo (po_d (pool_view s)))"
    using running_ok [OF assms(1)] assms(2) by (simp add: skipped_def)
  obtain st1 where W: "worker_step ?p workerID wr (pool_view s) = (go1, trace1, st1)" "sy_repo s1 = ds_repo (po_d st1)"
    using assms(5) by (auto simp: server_worker_def split: prod.splits)
  have "skipped i v trace1 (ds_repo (po_d st1))"
  proof (cases "\<exists>msgs q1. worker_messages ?p (wr_message wr) 0 msgs ((pool_view s)\<lparr>po_q := q1\<rparr>) = (go1, trace1, st1)")
    case True
    then obtain msgs q1 where M: "worker_messages ?p (wr_message wr) 0 msgs ((pool_view s)\<lparr>po_q := q1\<rparr>) = (go1, trace1, st1)" by blast
    show ?thesis by (rule messages_skip [OF p assms(4,3) _ M]) (use start in simp)
  next
    case False
    then show ?thesis
      using W(1) start by (auto simp: worker_step_def skipped_def split: if_splits sum.splits prod.splits)
  qed
  moreover obtain st2 where R: "pel_passes ?p pas startID (pool_view s) = (go2, startID', trace2, st2)" "sy_repo s2 = ds_repo (po_d st2)"
    using assms(7) by (auto simp: server_recovery_def split: prod.splits)
  have "kept i v [] (ds_repo (po_d (pool_view s)))"
    using start assms(3) unfolding kept_def by (intro exI [of _ "ev_Status v"]) simp
  from passes_keep [OF p assms(6) this R(1)] have "kept i v trace2 (ds_repo (po_d st2))" .
  ultimately show ?thesis using W(2) R(2) by (auto simp: skipped_def kept_def)
qed


text \<open>The example: the event of the pipeline, delivered.\<close>

lemma demo_delivered:
  obtains s where "server_run demo_server scheme0 (memory_start counting_prom (\<lambda>n. [0..<n]) (\<lambda>_. '''') env0) s"
    "mr_evs (sy_repo s) ''evt_u1'' = Some (ingested0\<lparr>ev_Status := EventStatusDelivered\<rparr>)"
proof (rule demo_turn)
  fix s ob s1 n go trace s2
  assume d: "server_run demo_server scheme0 (memory_start counting_prom (\<lambda>n. [0..<n]) (\<lambda>_. '''') env0) s"
    "pending_ids (sy_repo s) = {1}" "mr_obs (sy_repo s) 1 = Some ob" "mr_evs (sy_repo s) (ob_EventID ob) = Some ingested0"
    "ob_EventID ob = ''evt_u1''"
    "mq_delivered (sy_queue s) ''stream:events:pending'' ''worker-group'' = length (mq_log (sy_queue s) ''stream:events:pending'')"
    "int (length (mq_log (sy_queue s) ''stream:events:pending'')) + 11 < 2 ^ 63"
    "server_relay demo_server live_batch_env s = (n, s1)" "server_worker demo_server 0 demo_round s1 = (go, trace, s2)"
    "healthy (pv_endpoint (me_process (wr_message demo_round 0))) (sy_repo s)"
    "active_endpoints (me_process (wr_message demo_round 0)) (ev_TenantID ingested0) (sy_repo s) = [demo_endpoint]"
  have "mr_evs (sy_repo s2) ''evt_u1'' = Some (ingested0\<lparr>ev_Status := EventStatusDelivered\<rparr>)"
    using one_event_delivered [OF d(1) [unfolded demo_server_def] d(2-4) ingested0_fields(1) d(6,7) live_batch_env_live
        d(8) [unfolded demo_server_def] demo_round_live d(10) _ d(9) [unfolded demo_server_def]] d(11)
    by (simp add: ingested0_fields)
  moreover have "server_step demo_server scheme0 s s1"
    by (rule a_batch [OF d(8)]) (simp add: live_batch_env_def env0_def)
  then have "server_run demo_server scheme0 (memory_start counting_prom (\<lambda>n. [0..<n]) (\<lambda>_. '''') env0) s2"
    using d(1) a_turn [OF d(9)] by (meson rtranclp.rtrancl_into_rtrancl)
  ultimately show ?thesis using that by blast
qed

theorem final_events_fenced_witness:
  "\<exists>s go1 trace1 s1 go2 i2 trace2 s2.
     server_run demo_server scheme0 (memory_start counting_prom (\<lambda>n. [0..<n]) (\<lambda>_. '''') env0) s \<and>
     server_worker demo_server 1 demo_round s = (go1, trace1, s1) \<and>
     server_recovery demo_server [demo_pass 0] ''0-0'' s = (go2, i2, trace2, s2) \<and>
     ''evt_u1'' \<notin> at_EventID ` set (attempts_of (trace1 @ trace2)) \<and>
     mr_evs (sy_repo s1) ''evt_u1'' = Some (ingested0\<lparr>ev_Status := EventStatusDelivered\<rparr>)"
proof (rule demo_delivered)
  fix s
  assume d: "server_run demo_server scheme0 (memory_start counting_prom (\<lambda>n. [0..<n]) (\<lambda>_. '''') env0) s"
    "mr_evs (sy_repo s) ''evt_u1'' = Some (ingested0\<lparr>ev_Status := EventStatusDelivered\<rparr>)"
  obtain go1 trace1 s1 where w: "server_worker demo_server 1 demo_round s = (go1, trace1, s1)" by (metis prod.exhaust)
  obtain go2 i2 trace2 s2 where r: "server_recovery demo_server [demo_pass 0] ''0-0'' s = (go2, i2, trace2, s2)"
    by (metis prod.exhaust)
  have live: "\<forall>k. live (pv_fence (me_process (wr_message demo_round k)))"
    "\<forall>pa \<in> set [demo_pass 0]. \<forall>k. live (pv_fence (me_process (cl_message (pa_message pa k))))"
    by (simp_all add: demo_round_def demo_pass_def demo_claim_def env0_def)
  from final_events_fenced [OF d(1) [unfolded demo_server_def] d(2) _ live(1) w [unfolded demo_server_def] live(2)
      r [unfolded demo_server_def]]
  have "''evt_u1'' \<notin> at_EventID ` set (attempts_of (trace1 @ trace2)) \<and>
      mr_evs (sy_repo s1) ''evt_u1'' = Some (ingested0\<lparr>ev_Status := EventStatusDelivered\<rparr>)" by auto
  with d(1) w r show ?thesis by blast
qed

end
