(* ===== verification/IngestSteps.thy ===== *)
theory IngestSteps
  imports ApiRuns
begin

text \<open>
  Ingestions that run at the same time. \<open>HandleIngestEvent\<close> is cut where it calls the guard or the
  repository: the check of the key, the creation, and the release of the lock or the caching of the
  response. Between these calls other requests, the relay and the workers run. Lemmas: the phases of one
  request, run without interruption, are the handler; whatever the interleaving, the requests with one key
  store one event.
\<close>

section \<open>The phases of a request\<close>

text \<open>
  Before the key is checked; before the event is created; before the lock is released with a refusal;
  before the response is cached; answered. A phase carries the guard whose lock is held.
\<close>

datatype 'g ingest_phase =
    Arriving
  | Creating "'g guard option"
  | Refusing "'g guard option" http_writer
  | Caching "'g guard option" string http_writer
  | Answered http_writer

definition accepted_writer :: "http_writer \<Rightarrow> string \<Rightarrow> http_writer" where
  "accepted_writer w respBytes =
     \<lparr>w_Header = Header_Set ''Content-Type'' ''application/json'' (w_Header w), w_Code = 202,
      w_Body = w_Body w @ [respBytes]\<rparr>"

definition check_phase ::
    "('r, 'g, 'c, 'h) api_handler \<Rightarrow> ingest_env \<Rightarrow> http_request \<Rightarrow> http_writer \<Rightarrow>
       ('r, 'g, 'c, 'h) api_state \<Rightarrow> 'g ingest_phase \<times> ('r, 'g, 'c, 'h) api_state" where
  "check_phase h ie r w s =
     (if rq_Method r \<noteq> ''POST'' then (Answered (writeJSONError w 405 ''method not allowed''), s)
      else
        let tenantID = Header_Get (rq_Header r) HeaderTenantID in
        if tenantID = '''' then (Answered (writeJSONError w 400 ''X-Tenant-ID header is required''), s)
        else
          let key = Header_Get (rq_Header r) HeaderIdempotencyKey in
          (case (if key = '''' then None else hd_guard h) of
             None \<Rightarrow> (Creating None, s)
           | Some G \<Rightarrow>
               (case gd_AcquireLock G (ie_acquire ie) tenantID key (hd_idempTTL h) (ap_guard s) of
                  (Inl err, g) \<Rightarrow> (Answered (writeJSONError w 500 ''idempotency check failed''), s\<lparr>ap_guard := g\<rparr>)
                | (Inr (acquired, Some cached), g) \<Rightarrow>
                    (Answered \<lparr>w_Header = Header_Set ''X-Idempotency-Replay'' ''true''
                        (Header_Set ''Content-Type'' ''application/json'' (w_Header w)),
                      w_Code = cr_StatusCode cached, w_Body = w_Body w @ [cr_Body cached]\<rparr>,
                     s\<lparr>ap_guard := g\<rparr>)
                | (Inr (acquired, None), g) \<Rightarrow>
                    if \<not> acquired then
                      (Answered (writeJSONError w 409 ''concurrent request in flight with same idempotency key''),
                       s\<lparr>ap_guard := g\<rparr>)
                    else (Creating (Some G), s\<lparr>ap_guard := g\<rparr>))))"

definition create_phase ::
    "('r, 'g, 'c, 'h) api_handler \<Rightarrow> 'g guard option \<Rightarrow> ingest_env \<Rightarrow> http_request \<Rightarrow> http_writer \<Rightarrow>
       ('r, 'g, 'c, 'h) api_state \<Rightarrow> 'g ingest_phase \<times> ('r, 'g, 'c, 'h) api_state" where
  "create_phase h lock ie r w s =
     (let tenantID = Header_Get (rq_Header r) HeaderTenantID;
          key = Header_Get (rq_Header r) HeaderIdempotencyKey in
      case decode_ingest (rq_Body r) of
        None \<Rightarrow> (Refusing lock (writeJSONError w 400 ''invalid JSON payload''), s)
      | Some req \<Rightarrow>
          if ir_EventType req = '''' then
            (Refusing lock (writeJSONError w 400 ''event_type is required''), s)
          else if length (ir_Payload req) = 0 \<or> ir_Payload req = ''null'' then
            (Refusing lock (writeJSONError w 400 ''payload cannot be empty''), s)
          else if \<not> json_Valid (ir_Payload req) then
            (Refusing lock (writeJSONError w 400 ''payload must be valid JSON''), s)
          else
            (case rp_CreateEventWithOutbox (hd_repo h) (ie_create ie) (ingest_event ie tenantID key req)
                    (ingest_outbox ie) (ap_repo s) of
               (Inl err, r1) \<Rightarrow>
                 (Refusing lock
                    (if errors_is err ErrDuplicateKey
                     then writeJSONError w 409 ''duplicate event or idempotency key violation''
                     else writeJSONError w 500 ''failed to persist event and outbox record''),
                  s\<lparr>ap_repo := r1\<rparr>)
             | (Inr (event, outbox), r1) \<Rightarrow>
                 ((case ingest_response event of
                     None \<Rightarrow> Answered (writeJSONError w 500 ''failed to marshal response'')
                   | Some respBytes \<Rightarrow> Caching lock respBytes (accepted_writer w respBytes)),
                  s\<lparr>ap_repo := r1,
                    ap_metrics := IncIngested (hd_prom h) tenantID (ir_EventType req) (ap_metrics s)\<rparr>)))"

definition settle_guard ::
    "('g guard \<Rightarrow> goerr option \<times> 'g) \<Rightarrow> 'g guard option \<Rightarrow> ('r, 'g, 'c, 'h) api_state \<Rightarrow> ('r, 'g, 'c, 'h) api_state" where
  "settle_guard call lock s = (case lock of None \<Rightarrow> s | Some G \<Rightarrow> s\<lparr>ap_guard := snd (call G)\<rparr>)"

fun ingest_advance ::
    "('r, 'g, 'c, 'h) api_handler \<Rightarrow> ingest_env \<Rightarrow> http_request \<Rightarrow> http_writer \<Rightarrow> 'g ingest_phase \<Rightarrow>
       ('r, 'g, 'c, 'h) api_state \<Rightarrow> 'g ingest_phase \<times> ('r, 'g, 'c, 'h) api_state" where
  "ingest_advance h ie r w Arriving s = check_phase h ie r w s"
| "ingest_advance h ie r w (Creating lock) s = create_phase h lock ie r w s"
| "ingest_advance h ie r w (Refusing lock w') s =
     (Answered w',
      settle_guard (\<lambda>G. gd_ReleaseLock G (ie_release ie) (Header_Get (rq_Header r) HeaderTenantID)
        (Header_Get (rq_Header r) HeaderIdempotencyKey) (ap_guard s)) lock s)"
| "ingest_advance h ie r w (Caching lock respBytes w') s =
     (Answered w',
      settle_guard (\<lambda>G. gd_SetResponse G (ie_set ie) (Header_Get (rq_Header r) HeaderTenantID)
        (Header_Get (rq_Header r) HeaderIdempotencyKey) 202 respBytes (hd_idempTTL h) (ap_guard s)) lock s)"
| "ingest_advance h ie r w (Answered w') s = (Answered w', s)"

section \<open>The handler is its phases\<close>

lemma ingest_locked_phases:
  assumes "Header_Get (rq_Header r) HeaderTenantID = t" "Header_Get (rq_Header r) HeaderIdempotencyKey = k"
  shows "(case ingest_advance h ie r w (Creating lock) s of (p, s1) \<Rightarrow> ingest_advance h ie r w p s1) =
    (Answered (fst (ingest_locked h lock ie r t k w s)), snd (ingest_locked h lock ie r t k w s))"
  using assms
  by (cases lock) (auto simp: create_phase_def ingest_locked_def ingest_reject_def settle_guard_def accepted_writer_def Let_def
      split: option.splits sum.splits prod.splits)

text \<open>The phases are the handler: a request that runs through its phases without interruption is
  answered with the response of \<open>HandleIngestEvent\<close> and leaves the state it leaves, for every
  repository, every guard and every failure.\<close>

theorem ingest_phases_exact:
  "(case ingest_advance h ie r w Arriving s of (p1, s1) \<Rightarrow>
     (case ingest_advance h ie r w p1 s1 of (p2, s2) \<Rightarrow> ingest_advance h ie r w p2 s2)) =
   (Answered (fst (HandleIngestEvent h ie r w s)), snd (HandleIngestEvent h ie r w s))"
proof -
  let ?t = "Header_Get (rq_Header r) HeaderTenantID" and ?k = "Header_Get (rq_Header r) HeaderIdempotencyKey"
  note phases = ingest_locked_phases [OF refl refl, of h ie r w]
  have "(\<exists>w' s'. check_phase h ie r w s = (Answered w', s') \<and> HandleIngestEvent h ie r w s = (w', s')) \<or>
    (\<exists>lock s'. check_phase h ie r w s = (Creating lock, s') \<and>
       HandleIngestEvent h ie r w s = ingest_locked h lock ie r ?t ?k w s')"
    by (auto simp: check_phase_def HandleIngestEvent_def Let_def split: option.splits sum.splits prod.splits)
  then show ?thesis
  proof (elim disjE exE conjE)
    fix lock s'
    assume "check_phase h ie r w s = (Creating lock, s')" "HandleIngestEvent h ie r w s = ingest_locked h lock ie r ?t ?k w s'"
    then show ?thesis using phases [of lock s'] by (simp add: case_prod_beta)
  qed simp
qed


section \<open>Any interleaving\<close>

text \<open>
  What the relay, the workers and the replay do to the repository meanwhile.
\<close>

inductive background :: "memory_repo \<Rightarrow> memory_repo \<Rightarrow> bool" where
  bg_mark: "background m (snd (mr_MarkOutboxPublished e n m))"
| bg_attempt: "background m (snd (mr_RecordDeliveryAttempt e a m))"
| bg_status: "background m (snd (mr_UpdateEventStatus e i st m))"
| bg_replay: "background m (snd (mr_ReplayDLQEvents e t ids m))"

text \<open>
  A request of the tenant with a key and a payload that the handler accepts, and the environment of one of
  its calls: no context has ended, the clock is within one time to live, the UUID is new.
\<close>

definition request_key :: "http_request \<Rightarrow> string" where
  "request_key r = Header_Get (rq_Header r) HeaderIdempotencyKey"

definition ingestable :: "string \<Rightarrow> http_request \<Rightarrow> bool" where
  "ingestable t r \<longleftrightarrow> rq_Method r = ''POST'' \<and> Header_Get (rq_Header r) HeaderTenantID = t \<and> t \<noteq> '''' \<and> request_key r \<noteq> '''' \<and>
     (case decode_ingest (rq_Body r) of None \<Rightarrow> False
      | Some req \<Rightarrow> ir_EventType req \<noteq> '''' \<and> ir_Payload req \<noteq> '''' \<and> ir_Payload req \<noteq> ''null'' \<and> json_Valid (ir_Payload req))"

definition call_ok :: "gotime \<Rightarrow> duration \<Rightarrow> ingest_env \<Rightarrow> memory_repo \<Rightarrow> bool" where
  "call_ok t0 ttl ie m \<longleftrightarrow>
     live (ie_acquire ie) \<and> live (ie_create ie) \<and> live (ie_set ie) \<and>
     t0 \<le> e_now (ie_acquire ie) \<and> e_now (ie_acquire ie) < t0 + ttl \<and> t0 \<le> e_now (ie_set ie) \<and>
     \<not> IsZero (ie_now ie) \<and> json_time (ie_now ie) \<noteq> None \<and> mr_evs m (''evt_'' @ ie_uuid ie) = None"

type_synonym ('c, 'h) storm = "memory_guard ingest_phase list \<times> (memory_repo, memory_guard, 'c, 'h) api_state"

inductive storm_step ::
    "(memory_repo, memory_guard, 'c, 'h) api_handler \<Rightarrow> gotime \<Rightarrow> http_request list \<Rightarrow> (nat \<Rightarrow> http_writer) \<Rightarrow>
       ('c, 'h) storm \<Rightarrow> ('c, 'h) storm \<Rightarrow> bool" for h t0 rs ws where
  storm_call: "\<lbrakk>i < length rs; call_ok t0 (hd_idempTTL h) ie (ap_repo s);
      ingest_advance h ie (rs ! i) (ws i) (ps ! i) s = (p, s')\<rbrakk> \<Longrightarrow> storm_step h t0 rs ws (ps, s) (ps[i := p], s')"
| storm_other: "background (ap_repo s) m \<Longrightarrow> storm_step h t0 rs ws (ps, s) (ps, s\<lparr>ap_repo := m\<rparr>)"

abbreviation storm_run ::
    "(memory_repo, memory_guard, 'c, 'h) api_handler \<Rightarrow> gotime \<Rightarrow> http_request list \<Rightarrow> (nat \<Rightarrow> http_writer) \<Rightarrow>
       ('c, 'h) storm \<Rightarrow> ('c, 'h) storm \<Rightarrow> bool" where
  "storm_run h t0 rs ws \<equiv> (storm_step h t0 rs ws)\<^sup>*\<^sup>*"

definition events_of :: "memory_repo \<Rightarrow> string \<Rightarrow> string \<Rightarrow> string set" where
  "events_of m t k = {i. \<exists>v. mr_evs m i = Some v \<and> ev_TenantID v = t \<and> ev_IdempotencyKey v = k}"

subsection \<open>What a key is worth\<close>

text \<open>
  Nothing was done for the key; one request holds its lock and will create; one request holds its lock and
  has created; the response is cached.
\<close>

definition slot_is :: "gotime \<Rightarrow> duration \<Rightarrow> memory_guard \<Rightarrow> string \<Rightarrow> slot \<Rightarrow> bool" where
  "slot_is t0 ttl g sk v \<longleftrightarrow> (\<forall>n. t0 \<le> n \<longrightarrow> n < t0 + ttl \<longrightarrow> gm_slot g sk n = v)"

definition unused :: "memory_repo \<Rightarrow> string \<Rightarrow> string \<Rightarrow> bool" where
  "unused m t k \<longleftrightarrow> events_of m t k = {} \<and> map_of (mr_idempotencyIndex m) (idempKey t k) = None"

definition stored_once :: "memory_repo \<Rightarrow> string \<Rightarrow> string \<Rightarrow> string \<Rightarrow> bool" where
  "stored_once m t k bytes \<longleftrightarrow> (\<exists>v. events_of m t k = {ev_ID v} \<and> ingest_response v = Some bytes)"

definition waits :: "'g ingest_phase \<Rightarrow> bool" where
  "waits p \<longleftrightarrow> p = Arriving \<or> (\<exists>w. p = Answered w \<and> w_Code w = 409)"

definition replied :: "http_writer \<Rightarrow> string \<Rightarrow> 'g ingest_phase \<Rightarrow> bool" where
  "replied w0 bytes p \<longleftrightarrow> waits p \<or> (\<exists>w. p = Answered w \<and> w_Code w = 202 \<and> w_Body w = w_Body w0 @ [bytes])"

abbreviation key_slot :: "gotime \<Rightarrow> duration \<Rightarrow> string \<Rightarrow> string \<Rightarrow> ('r, memory_guard, 'c, 'h) api_state \<Rightarrow> slot \<Rightarrow> bool" where
  "key_slot t0 ttl t k s v \<equiv> slot_is t0 ttl (ap_guard s) (memoryKey t k) v"

abbreviation others_wait :: "http_request list \<Rightarrow> memory_guard ingest_phase list \<Rightarrow> string \<Rightarrow> nat \<Rightarrow> bool" where
  "others_wait rs ps k j \<equiv> j < length rs \<and> request_key (rs ! j) = k \<and>
     (\<forall>i < length rs. request_key (rs ! i) = k \<longrightarrow> i \<noteq> j \<longrightarrow> waits (ps ! i))"

inductive key_ok ::
    "gotime \<Rightarrow> duration \<Rightarrow> string \<Rightarrow> http_request list \<Rightarrow> (nat \<Rightarrow> http_writer) \<Rightarrow> string \<Rightarrow> ('c, 'h) storm \<Rightarrow> bool"
  for t0 ttl t rs ws k where
  key_free: "\<lbrakk>key_slot t0 ttl t k s Free; unused (ap_repo s) t k;
      \<forall>i < length rs. request_key (rs ! i) = k \<longrightarrow> ps ! i = Arriving\<rbrakk> \<Longrightarrow> key_ok t0 ttl t rs ws k (ps, s)"
| key_creating: "\<lbrakk>key_slot t0 ttl t k s InFlight; unused (ap_repo s) t k; others_wait rs ps k j;
      ps ! j = Creating (Some memory_guard_ops)\<rbrakk> \<Longrightarrow> key_ok t0 ttl t rs ws k (ps, s)"
| key_caching: "\<lbrakk>key_slot t0 ttl t k s InFlight; stored_once (ap_repo s) t k bytes; others_wait rs ps k j;
      ps ! j = Caching (Some memory_guard_ops) bytes (accepted_writer (ws j) bytes)\<rbrakk> \<Longrightarrow> key_ok t0 ttl t rs ws k (ps, s)"
| key_done: "\<lbrakk>key_slot t0 ttl t k s (Done c); cr_StatusCode c = 202; stored_once (ap_repo s) t k (cr_Body c);
      \<forall>i < length rs. request_key (rs ! i) = k \<longrightarrow> replied (ws i) (cr_Body c) (ps ! i)\<rbrakk> \<Longrightarrow> key_ok t0 ttl t rs ws k (ps, s)"

lemma replay_index: "mr_idempotencyIndex (snd (mr_replay_loop now t ids n m)) = mr_idempotencyIndex m"
  by (induction now t ids n m rule: mr_replay_loop.induct) (auto simp: Let_def split: option.splits)

lemma events_of_status:
  assumes "\<forall>i. \<exists>st. mr_evs m' i = map_option (\<lambda>v. v\<lparr>ev_Status := st\<rparr>) (mr_evs m i)"
  shows "events_of m' t k = events_of m t k"
proof -
  have "(\<exists>v. mr_evs m' i = Some v \<and> ev_TenantID v = t \<and> ev_IdempotencyKey v = k) \<longleftrightarrow>
      (\<exists>v. mr_evs m i = Some v \<and> ev_TenantID v = t \<and> ev_IdempotencyKey v = k)" for i
  proof -
    obtain st where "mr_evs m' i = map_option (\<lambda>v. v\<lparr>ev_Status := st\<rparr>) (mr_evs m i)" using assms by blast
    then show ?thesis by (cases "mr_evs m i") auto
  qed
  then show ?thesis by (simp add: events_of_def)
qed

lemma background_keeps:
  assumes "background m m'" "mr_inv m"
  shows "mr_inv m' \<and> events_of m' t k = events_of m t k \<and> mr_idempotencyIndex m' = mr_idempotencyIndex m"
  using assms(1)
proof cases
  case (bg_mark e n)
  then show ?thesis using assms(2) mr_inv_MarkOutboxPublished [of m e n]
    by (auto simp: mr_MarkOutboxPublished_def events_of_def split: option.splits)
next
  case (bg_attempt e a)
  then show ?thesis using assms(2) mr_inv_RecordDeliveryAttempt [of m e a]
    by (auto simp: mr_RecordDeliveryAttempt_def events_of_def Let_def split: option.splits)
next
  case (bg_status e i st)
  have "\<forall>j. \<exists>st'. mr_evs m' j = map_option (\<lambda>v. v\<lparr>ev_Status := st'\<rparr>) (mr_evs m j)"
  proof
    fix j
    show "\<exists>st'. mr_evs m' j = map_option (\<lambda>v. v\<lparr>ev_Status := st'\<rparr>) (mr_evs m j)"
      using bg_status same_status [of "mr_evs m j"]
      by (cases "i = j") (auto simp: mr_UpdateEventStatus_def split: option.splits)
  qed
  moreover have "mr_idempotencyIndex m' = mr_idempotencyIndex m"
    using bg_status by (auto simp: mr_UpdateEventStatus_def split: option.splits)
  ultimately show ?thesis using bg_status assms(2) events_of_status mr_inv_UpdateEventStatus by blast
next
  case (bg_replay e t' ids)
  obtain r where r: "mr_ReplayDLQEvents e t' ids m = (r, m')" using bg_replay by (metis prod.collapse)
  have "rp_ReplayDLQEvents memory_repository e t' ids m = (r, m')" using r by (simp add: memory_repository_def)
  note f = mrx.replay_frame [OF assms(2) this]
  have "mr_idempotencyIndex m' = mr_idempotencyIndex m"
    using bg_replay replay_index by (auto simp: mr_ReplayDLQEvents_def split: option.splits prod.splits) (metis replay_index snd_conv)
  then show ?thesis using f events_of_status by blast
qed

lemma key_ok_frame:
  assumes "key_ok t0 ttl t rs ws k (ps, s)"
    and "gm_slot (ap_guard s') (memoryKey t k) = gm_slot (ap_guard s) (memoryKey t k)"
    and "events_of (ap_repo s') t k = events_of (ap_repo s) t k"
    and "map_of (mr_idempotencyIndex (ap_repo s')) (idempKey t k) = map_of (mr_idempotencyIndex (ap_repo s)) (idempKey t k)"
    and "\<forall>i < length rs. request_key (rs ! i) = k \<longrightarrow> ps' ! i = ps ! i"
  shows "key_ok t0 ttl t rs ws k (ps', s')"
proof -
  have slot: "key_slot t0 ttl t k s' v = key_slot t0 ttl t k s v" for v using assms(2) by (simp add: slot_is_def)
  have un: "unused (ap_repo s') t k = unused (ap_repo s) t k" using assms(3,4) by (simp add: unused_def)
  have st: "stored_once (ap_repo s') t k = stored_once (ap_repo s) t k" by (intro ext) (simp add: stored_once_def assms(3))
  from assms(1) show ?thesis
  proof cases
    case key_free
    then show ?thesis using slot un assms(5) by (intro key_ok.key_free) auto
  next
    case (key_creating j)
    then show ?thesis using slot un assms(5) by (intro key_ok.key_creating [where j = j]) auto
  next
    case (key_caching bytes j)
    then show ?thesis using slot st assms(5) by (intro key_ok.key_caching [where bytes = bytes and j = j]) auto
  next
    case (key_done c)
    then show ?thesis using slot st assms(5) by (intro key_ok.key_done [where c = c]) auto
  qed
qed

subsection \<open>One call of one request\<close>

lemma other_keys:
  assumes "t \<noteq> []" "k \<noteq> k'"
  shows "memoryKey t k \<noteq> memoryKey t k'" "idempKey t k \<noteq> idempKey t k'"
  using assms(2) by (simp_all add: memoryKey_def idempKey_def)

text \<open>The creation of the event of a key that nothing was done for.\<close>

lemma create_unused:
  assumes "mr_inv (ap_repo s)" "unused (ap_repo s) t k" "ingestable t r" "request_key r = k"
    and "call_ok t0 ttl ie (ap_repo s)" "hd_repo h = memory_repository"
    and "create_phase h lock ie r w s = (p, s')"
  shows "mr_inv (ap_repo s') \<and> ap_guard s' = ap_guard s \<and>
    (\<exists>bytes. p = Caching lock bytes (accepted_writer w bytes) \<and> stored_once (ap_repo s') t k bytes) \<and>
    (\<forall>k'. k' \<noteq> k \<longrightarrow> events_of (ap_repo s') t k' = events_of (ap_repo s) t k' \<and>
       map_of (mr_idempotencyIndex (ap_repo s')) (idempKey t k') = map_of (mr_idempotencyIndex (ap_repo s)) (idempKey t k'))"
proof -
  obtain req where req: "decode_ingest (rq_Body r) = Some req" "ir_EventType req \<noteq> []" "ir_Payload req \<noteq> []"
    "ir_Payload req \<noteq> ''null''" "json_Valid (ir_Payload req)"
    and r: "Header_Get (rq_Header r) HeaderTenantID = t" "Header_Get (rq_Header r) HeaderIdempotencyKey = k" "t \<noteq> []" "k \<noteq> []"
    using assms(3,4) by (auto simp: ingestable_def request_key_def split: option.splits)
  let ?v = "ingest_event ie t k req"
  have live: "live (ie_create ie)" and fresh: "mr_evs (ap_repo s) (''evt_'' @ ie_uuid ie) = None"
    and now: "\<not> IsZero (ie_now ie)" "json_time (ie_now ie) \<noteq> None" using assms(5) by (simp_all add: call_ok_def)
  have v: "ev_ID ?v = ''evt_'' @ ie_uuid ie" "ev_TenantID ?v = t" "ev_IdempotencyKey ?v = k" "ev_CreatedAt ?v = ie_now ie"
    by (simp_all add: ingest_event_def)
  have free: "map_of (mr_idempotencyIndex (ap_repo s)) (idempKey t k) = None" using assms(2) by (simp add: unused_def)
  obtain ob r1 where c: "rp_CreateEventWithOutbox memory_repository (ie_create ie) ?v (ingest_outbox ie) (ap_repo s) = (Inr (?v, ob), r1)"
    and ix: "map_of (mr_idempotencyIndex r1) = (map_of (mr_idempotencyIndex (ap_repo s)))(idempKey t k \<mapsto> ev_ID ?v)"
    using live fresh free now(1) r(4)
    by (simp add: memory_repository_def mr_CreateEventWithOutbox_def v Let_def update_conv')
  note ok = mr.create_ok [OF assms(1) c]
  obtain bytes where b: "ingest_response ?v = Some bytes" using now(2) by (auto simp: ingest_response_def v(4))
  have "create_phase h lock ie r w s = (Caching lock bytes (accepted_writer w bytes),
      s\<lparr>ap_repo := r1, ap_metrics := IncIngested (hd_prom h) t (ir_EventType req) (ap_metrics s)\<rparr>)"
    using req r c b assms(6) by (simp add: create_phase_def Let_def)
  then have p: "p = Caching lock bytes (accepted_writer w bytes)" "ap_repo s' = r1" "ap_guard s' = ap_guard s"
    using assms(7) by auto
  have evs: "mr_evs r1 = (mr_evs (ap_repo s))(ev_ID ?v \<mapsto> ?v)" using ok by blast
  have ev: "events_of r1 t k' = (if k' = k then insert (ev_ID ?v) (events_of (ap_repo s) t k') else events_of (ap_repo s) t k')" for k'
    using ok by (auto simp: events_of_def evs v(2,3))
  have "events_of r1 t k = {ev_ID ?v}" using ev [of k] assms(2) by (simp add: unused_def)
  then have "stored_once r1 t k bytes" using b unfolding stored_once_def by blast
  moreover have "events_of r1 t k' = events_of (ap_repo s) t k' \<and>
      map_of (mr_idempotencyIndex r1) (idempKey t k') = map_of (mr_idempotencyIndex (ap_repo s)) (idempKey t k')" if "k' \<noteq> k" for k'
    using ev [of k'] ix that other_keys(2) [OF r(3), of k' k] by simp
  ultimately show ?thesis using p ok by auto
qed

text \<open>The check of a key finds what its slot holds.\<close>

lemma check_slot:
  assumes "ingestable t r" "request_key r = k" "call_ok t0 ttl ie m" "hd_guard h = Some memory_guard_ops" "hd_idempTTL h = ttl"
    and "key_slot t0 ttl t k s v" "check_phase h ie r w s = (p, s')"
  shows "case v of
      Free \<Rightarrow> p = Creating (Some memory_guard_ops) \<and> ap_repo s' = ap_repo s \<and> key_slot t0 ttl t k s' InFlight \<and>
        (\<forall>sk. sk \<noteq> memoryKey t k \<longrightarrow> gm_slot (ap_guard s') sk = gm_slot (ap_guard s) sk)
    | InFlight \<Rightarrow> (\<exists>w'. p = Answered w' \<and> w_Code w' = 409) \<and> s' = s
    | Done c \<Rightarrow> s' = s \<and> (\<exists>w'. p = Answered w' \<and> w_Code w' = cr_StatusCode c \<and> w_Body w' = w_Body w @ [cr_Body c])"
proof -
  have r: "rq_Method r = ''POST''" "Header_Get (rq_Header r) HeaderTenantID = t" "Header_Get (rq_Header r) HeaderIdempotencyKey = k"
    "t \<noteq> []" "k \<noteq> []" using assms(1,2) by (auto simp: ingestable_def request_key_def)
  have e: "live (ie_acquire ie)" "t0 \<le> e_now (ie_acquire ie)" "e_now (ie_acquire ie) < t0 + ttl" using assms(3) by (simp_all add: call_ok_def)
  have slot: "gm_slot (ap_guard s) (memoryKey t k) (e_now (ie_acquire ie)) = v" using assms(6) e(2,3) by (simp add: slot_is_def)
  obtain res g where a: "gd_AcquireLock memory_guard_ops (ie_acquire ie) t k ttl (ap_guard s) = (res, g)" by fastforce
  have P: "check_phase h ie r w s = (case (res, g) of
      (Inl err, g) \<Rightarrow> (Answered (writeJSONError w 500 ''idempotency check failed''), s\<lparr>ap_guard := g\<rparr>)
    | (Inr (acquired, Some cached), g) \<Rightarrow>
        (Answered \<lparr>w_Header = Header_Set ''X-Idempotency-Replay'' ''true'' (Header_Set ''Content-Type'' ''application/json'' (w_Header w)),
           w_Code = cr_StatusCode cached, w_Body = w_Body w @ [cr_Body cached]\<rparr>, s\<lparr>ap_guard := g\<rparr>)
    | (Inr (acquired, None), g) \<Rightarrow>
        if \<not> acquired then (Answered (writeJSONError w 409 ''concurrent request in flight with same idempotency key''), s\<lparr>ap_guard := g\<rparr>)
        else (Creating (Some memory_guard_ops), s\<lparr>ap_guard := g\<rparr>))"
    using r assms(4,5) a by (simp add: check_phase_def Let_def)
  show ?thesis
  proof (cases v)
    case Free
    have "res = Inr (True, None)" "gm_slot g (memoryKey t k) = (\<lambda>n. if n < e_now (ie_acquire ie) + ttl then InFlight else Free)"
      using gm.acquire_free [OF e(1) r(4,5) _ a] slot Free by auto
    then show ?thesis using P assms(7) Free e(2) gm.acquire_frame [OF a] by (auto simp: slot_is_def)
  next
    case InFlight
    have "res = Inr (False, None)" "g = ap_guard s" using gm.acquire_busy [OF e(1) r(4,5) _ a] slot InFlight by auto
    then show ?thesis using P assms(7) InFlight by auto
  next
    case (Done c)
    have "res = Inr (False, Some c)" "g = ap_guard s" using gm.acquire_done [OF e(1) r(4,5) _ a] slot Done by auto
    then show ?thesis using P assms(7) Done by auto
  qed
qed

lemma waiting_call:
  assumes "waits ph" "ingestable t r" "request_key r = k" "call_ok t0 (hd_idempTTL h) ie m" "hd_guard h = Some memory_guard_ops"
    and "key_slot t0 (hd_idempTTL h) t k s InFlight" "ingest_advance h ie r w ph s = (p, s')"
  shows "waits p \<and> s' = s"
proof (cases "ph = Arriving")
  case True
  then show ?thesis using check_slot [OF assms(2-5) refl assms(6)] assms(7) by (auto simp: waits_def)
next
  case False
  then show ?thesis using assms(1,7) by (auto simp: waits_def)
qed

lemma own_key:
  fixes s :: "(memory_repo, memory_guard, 'c, 'h) api_state"
  assumes "key_ok t0 (hd_idempTTL h) t rs ws k (ps, s)" "mr_inv (ap_repo s)" "length ps = length rs"
    and i: "i < length rs" "request_key (rs ! i) = k" "ingestable t (rs ! i)"
    and "call_ok t0 (hd_idempTTL h) ie (ap_repo s)" "hd_repo h = memory_repository" "hd_guard h = Some memory_guard_ops"
    and adv: "ingest_advance h ie (rs ! i) (ws i) (ps ! i) s = (p, s')"
  shows "key_ok t0 (hd_idempTTL h) t rs ws k (ps[i := p], s') \<and> mr_inv (ap_repo s') \<and>
    (\<forall>k'. k' \<noteq> k \<longrightarrow> gm_slot (ap_guard s') (memoryKey t k') = gm_slot (ap_guard s) (memoryKey t k') \<and>
       events_of (ap_repo s') t k' = events_of (ap_repo s) t k' \<and>
       map_of (mr_idempotencyIndex (ap_repo s')) (idempKey t k') = map_of (mr_idempotencyIndex (ap_repo s)) (idempKey t k'))"
proof -
  let ?ttl = "hd_idempTTL h"
  have t: "t \<noteq> []" "k \<noteq> []" "Header_Get (rq_Header (rs ! i)) HeaderTenantID = t" "Header_Get (rq_Header (rs ! i)) HeaderIdempotencyKey = k"
    using i(2,3) by (auto simp: ingestable_def request_key_def)
  note check = check_slot [OF i(3,2) assms(7,9) refl]
  note waiting = waiting_call [OF _ i(3,2) assms(7,9) _ adv]
  from assms(1) show ?thesis
  proof cases
    case key_free
    have "check_phase h ie (rs ! i) (ws i) s = (p, s')" using key_free(3) i(1,2) adv by simp
    from check [OF key_free(1) this] have c: "p = Creating (Some memory_guard_ops)" "ap_repo s' = ap_repo s"
      "key_slot t0 ?ttl t k s' InFlight" "\<forall>sk. sk \<noteq> memoryKey t k \<longrightarrow> gm_slot (ap_guard s') sk = gm_slot (ap_guard s) sk"
      by simp_all
    have "key_ok t0 ?ttl t rs ws k (ps[i := p], s')"
      using c(1-3) key_free(2,3) i(1,2) assms(3) by (intro key_ok.key_creating [where j = i]) (auto simp: waits_def)
    then show ?thesis using c assms(2) other_keys(1) [OF t(1)] by auto
  next
    case (key_creating j)
    show ?thesis
    proof (cases "i = j")
      case True
      have cp: "create_phase h (Some memory_guard_ops) ie (rs ! i) (ws i) s = (p, s')" using key_creating(4) adv True by simp
      note c = create_unused [OF assms(2) key_creating(2) i(3,2) assms(7,8) cp]
      then obtain bytes where b: "p = Caching (Some memory_guard_ops) bytes (accepted_writer (ws i) bytes)"
        "stored_once (ap_repo s') t k bytes" by blast
      have "key_ok t0 ?ttl t rs ws k (ps[i := p], s')"
        using c b key_creating(1,3) True assms(3) by (intro key_ok.key_caching [where j = j and bytes = bytes]) auto
      then show ?thesis using c by simp
    next
      case False
      then have "waits p \<and> s' = s" using waiting [OF _ key_creating(1)] key_creating(3) i(1,2) by blast
      then have "key_ok t0 ?ttl t rs ws k (ps[i := p], s')" "s' = s"
        using key_creating False assms(3) i(1) by (auto intro!: key_ok.key_creating [where j = j] simp: nth_list_update)
      then show ?thesis using assms(2) by simp
    qed
  next
    case (key_caching bytes j)
    show ?thesis
    proof (cases "i = j")
      case True
      obtain ro g where st: "gd_SetResponse memory_guard_ops (ie_set ie) t k 202 bytes ?ttl (ap_guard s) = (ro, g)" by fastforce
      have p: "p = Answered (accepted_writer (ws i) bytes)" "s' = s\<lparr>ap_guard := g\<rparr>"
        using key_caching(4) adv True t(3,4) st by (auto simp: settle_guard_def)
      let ?c = "\<lparr>cr_StatusCode = 202, cr_Body = bytes, cr_CompletedAt = e_now (ie_set ie)\<rparr>"
      have e: "live (ie_set ie)" "t0 \<le> e_now (ie_set ie)" using assms(7) by (simp_all add: call_ok_def)
      have "key_slot t0 ?ttl t k s' (Done ?c)" using gm.set_ok [OF e(1) t(1,2) st] e(2) p(2) by (auto simp: slot_is_def)
      then have "key_ok t0 ?ttl t rs ws k (ps[i := p], s')"
        using key_caching(2,3) p True assms(3)
        by (intro key_ok.key_done [where c = ?c]) (auto simp: nth_list_update replied_def accepted_writer_def)
      then show ?thesis using p assms(2) gm.set_frame [OF st] other_keys(1) [OF t(1)] by simp
    next
      case False
      then have "waits p \<and> s' = s" using waiting [OF _ key_caching(1)] key_caching(3) i(1,2) by blast
      then have "key_ok t0 ?ttl t rs ws k (ps[i := p], s')" "s' = s"
        using key_caching False assms(3) i(1) by (auto intro!: key_ok.key_caching [where j = j and bytes = bytes] simp: nth_list_update)
      then show ?thesis using assms(2) by simp
    qed
  next
    case (key_done c)
    have "replied (ws i) (cr_Body c) p \<and> s' = s"
    proof (cases "ps ! i = Arriving")
      case True
      then have "check_phase h ie (rs ! i) (ws i) s = (p, s')" using adv by simp
      from check [OF key_done(1) this] show ?thesis using key_done(2) by (auto simp: replied_def)
    next
      case False
      then have "\<exists>w. ps ! i = Answered w" using key_done(4) i(1,2) by (auto simp: replied_def waits_def)
      then show ?thesis using adv key_done(4) i(1,2) by auto
    qed
    then have "key_ok t0 ?ttl t rs ws k (ps[i := p], s')" "s' = s"
      using key_done assms(3) i(1) by (auto intro!: key_ok.key_done [where c = c] simp: nth_list_update)
    then show ?thesis using assms(2) by simp
  qed
qed

subsection \<open>Every call of every request\<close>

definition storm_ok :: "gotime \<Rightarrow> duration \<Rightarrow> string \<Rightarrow> http_request list \<Rightarrow> (nat \<Rightarrow> http_writer) \<Rightarrow> ('c, 'h) storm \<Rightarrow> bool" where
  "storm_ok t0 ttl t rs ws st \<longleftrightarrow> length (fst st) = length rs \<and> mr_inv (ap_repo (snd st)) \<and>
     (\<forall>k \<in> set (map request_key rs). key_ok t0 ttl t rs ws k st)"

lemma storm_step_ok:
  fixes st st' :: "('c, 'h) storm"
  assumes "storm_step h t0 rs ws st st'" "storm_ok t0 (hd_idempTTL h) t rs ws st"
    and "hd_repo h = memory_repository" "hd_guard h = Some memory_guard_ops" "\<forall>r \<in> set rs. ingestable t r"
  shows "storm_ok t0 (hd_idempTTL h) t rs ws st'"
  using assms(1)
proof cases
  case (storm_call i ie s ps p s')
  let ?k = "request_key (rs ! i)" and ?ttl = "hd_idempTTL h"
  have len: "length ps = length rs" "mr_inv (ap_repo s)"
    and ok: "\<forall>k \<in> set (map request_key rs). key_ok t0 ?ttl t rs ws k (ps, s)"
    using assms(2) storm_call(1) by (simp_all add: storm_ok_def)
  have k: "?k \<in> set (map request_key rs)" and r: "ingestable t (rs ! i)" using storm_call(3) assms(5) by simp_all
  have own: "key_ok t0 ?ttl t rs ws ?k (ps[i := p], s')" "mr_inv (ap_repo s')"
    and frame: "k' \<noteq> ?k \<Longrightarrow> gm_slot (ap_guard s') (memoryKey t k') = gm_slot (ap_guard s) (memoryKey t k') \<and>
       events_of (ap_repo s') t k' = events_of (ap_repo s) t k' \<and>
       map_of (mr_idempotencyIndex (ap_repo s')) (idempKey t k') = map_of (mr_idempotencyIndex (ap_repo s)) (idempKey t k')" for k'
    using own_key [OF ok [rule_format, OF k] len(2,1) storm_call(3) refl r storm_call(4) assms(3,4) storm_call(5)] by blast+
  have "key_ok t0 ?ttl t rs ws k' (ps[i := p], s')" if "k' \<in> set (map request_key rs)" for k'
  proof (cases "k' = ?k")
    case False
    then have "\<forall>j < length rs. request_key (rs ! j) = k' \<longrightarrow> ps[i := p] ! j = ps ! j" by (metis nth_list_update_neq)
    then show ?thesis
      using frame [OF False] by (intro key_ok_frame [OF ok [rule_format, OF that]]) simp_all
  qed (use own in simp)
  then show ?thesis using storm_call(2) len own by (simp add: storm_ok_def)
next
  case (storm_other s m ps)
  have inv: "mr_inv (ap_repo s)" using assms(2) storm_other(1) by (simp add: storm_ok_def)
  note b = background_keeps [OF storm_other(3) inv, of t]
  have "key_ok t0 (hd_idempTTL h) t rs ws k (ps, s\<lparr>ap_repo := m\<rparr>)" if "k \<in> set (map request_key rs)" for k
  proof -
    have ok: "key_ok t0 (hd_idempTTL h) t rs ws k (ps, s)" using assms(2) storm_other(1) that by (auto simp: storm_ok_def)
    show ?thesis using b [of k] by (intro key_ok_frame [OF ok]) simp_all
  qed
  then show ?thesis using assms(2) storm_other b by (simp add: storm_ok_def)
qed

lemma storm_run_ok:
  fixes st st' :: "('c, 'h) storm"
  assumes "storm_run h t0 rs ws st st'" "storm_ok t0 (hd_idempTTL h) t rs ws st"
    and "hd_repo h = memory_repository" "hd_guard h = Some memory_guard_ops" "\<forall>r \<in> set rs. ingestable t r"
  shows "storm_ok t0 (hd_idempTTL h) t rs ws st'"
  using assms(1,2) by (induction rule: rtranclp_induct) (auto intro: storm_step_ok [OF _ _ assms(3-5)])

lemma storm_start_ok:
  assumes "mr_inv (ap_repo s)"
    and "\<forall>k \<in> set (map request_key rs). slot_is t0 ttl (ap_guard s) (memoryKey t k) Free \<and> unused (ap_repo s) t k"
  shows "storm_ok t0 ttl t rs ws (replicate (length rs) Arriving, s)"
  using assms by (auto simp: storm_ok_def intro!: key_ok.key_free)

lemma storm_outcome:
  assumes "storm_run h t0 rs ws (replicate (length rs) Arriving, s) (ps, s')"
    and "hd_repo h = memory_repository" "hd_guard h = Some memory_guard_ops" "\<forall>r \<in> set rs. ingestable t r"
    and "mr_inv (ap_repo s)"
    and "\<forall>r \<in> set rs. slot_is t0 (hd_idempTTL h) (ap_guard s) (memoryKey t (request_key r)) Free \<and>
           unused (ap_repo s) t (request_key r)"
    and "\<forall>p \<in> set ps. \<exists>w. p = Answered w" "r \<in> set rs"
  shows "\<exists>v bytes. events_of (ap_repo s') t (request_key r) = {ev_ID v} \<and> ingest_response v = Some bytes \<and>
    (\<forall>i < length rs. request_key (rs ! i) = request_key r \<longrightarrow>
       (\<exists>w. ps ! i = Answered w \<and> (w_Code w = 409 \<or> w_Code w = 202 \<and> w_Body w = w_Body (ws i) @ [bytes])))"
proof -
  let ?k = "request_key r"
  have "storm_ok t0 (hd_idempTTL h) t rs ws (replicate (length rs) Arriving, s)"
    using assms(5,6) by (intro storm_start_ok) auto
  from storm_run_ok [OF assms(1) this assms(2-4)]
  have len: "length ps = length rs" and ok: "key_ok t0 (hd_idempTTL h) t rs ws ?k (ps, s')"
    using assms(8) by (auto simp: storm_ok_def)
  have ans: "i < length rs \<Longrightarrow> \<exists>w. ps ! i = Answered w" for i using assms(7) len by simp
  obtain j where j: "j < length rs" "request_key (rs ! j) = ?k" using assms(8) by (metis in_set_conv_nth)
  from ok show ?thesis
  proof cases
    case key_free
    then show ?thesis using ans [OF j(1)] j by auto
  next
    case (key_creating i)
    then show ?thesis using ans [of i] by auto
  next
    case (key_caching bytes i)
    then show ?thesis using ans [of i] by auto
  next
    case (key_done c)
    then obtain v where v: "events_of (ap_repo s') t ?k = {ev_ID v}" "ingest_response v = Some (cr_Body c)"
      by (auto simp: stored_once_def)
    have "\<exists>w. ps ! i = Answered w \<and> (w_Code w = 409 \<or> w_Code w = 202 \<and> w_Body w = w_Body (ws i) @ [cr_Body c])"
      if "i < length rs" "request_key (rs ! i) = ?k" for i
      using key_done(4) ans [OF that(1)] that by (auto simp: replied_def waits_def)
    with v show ?thesis by blast
  qed
qed

text \<open>C7: idempotency under concurrency: when any number of acceptable requests of a tenant, with any keys
  that are still unused, are served at the same time, in any interleaving of their calls on the guard and
  the repository with each other and with what the relay, the workers and the replay do, within one time
  to live, then once all are answered each key has exactly one stored event, and every request with that
  key was answered 409 or 202 with one and the same response, that of the event.\<close>

theorem storm_collapses:
  assumes "storm_run h t0 rs ws (replicate (length rs) Arriving, s) (ps, s')"
    and "hd_repo h = memory_repository" "hd_guard h = Some memory_guard_ops" "\<forall>r \<in> set rs. ingestable t r"
    and "mr_inv (ap_repo s)"
    and "\<forall>r \<in> set rs. slot_is t0 (hd_idempTTL h) (ap_guard s) (memoryKey t (request_key r)) Free \<and>
           unused (ap_repo s) t (request_key r)"
    and "\<forall>p \<in> set ps. \<exists>w. p = Answered w" "r \<in> set rs"
  shows "\<exists>v bytes. events_of (ap_repo s') t (request_key r) = {ev_ID v} \<and> ingest_response v = Some bytes \<and>
    (\<forall>i < length rs. request_key (rs ! i) = request_key r \<longrightarrow>
       (\<exists>w. ps ! i = Answered w \<and> (w_Code w = 409 \<or> w_Code w = 202 \<and> w_Body w = w_Body (ws i) @ [bytes])))"
  by (rule storm_outcome [OF assms])

theorem storm_collapses_witness:
  "\<exists>ps s' v bytes w. storm_run api0 10 [ingest_request ''k1'' body0, ingest_request ''k1'' body0] (\<lambda>_. writer0)
       ([Arriving, Arriving], api_state0) ([Answered (accepted_writer writer0 bytes), Answered w], s') \<and> w_Code w = 409 \<and>
     events_of (ap_repo s') ''acme'' ''k1'' = {ev_ID v} \<and> ingest_response v = Some bytes"
proof -
  let ?r = "ingest_request ''k1'' body0" and ?ie = "ingest_env0 10 ''u1''" and ?G = "Some memory_guard_ops"
  let ?rs = "[?r, ?r]" and ?ws = "\<lambda>_ :: nat. writer0"
  have r: "ingestable ''acme'' ?r" "request_key ?r = ''k1''"
    using json_Valid_payload0 by (simp_all add: ingestable_def request_key_def decode_body0)
  have call: "call_ok 10 (hd_idempTTL api0) ?ie m" if "mr_evs m = Map.empty" for m
    using that time_json_10 by (simp add: call_ok_def json_time_def)
  have inv: "mr_inv (ap_repo api_state0)" by simp
  have none: "mr_evs (ap_repo api_state0) = Map.empty" by (simp add: NewMemoryRepository_def)
  have free: "key_slot 10 (hd_idempTTL api0) ''acme'' ''k1'' api_state0 Free" "unused (ap_repo api_state0) ''acme'' ''k1''"
    by (simp_all add: slot_is_def unused_def events_of_def NewMemoryRepository_def)
  obtain p1 s1 where a1: "check_phase api0 ?ie ?r writer0 api_state0 = (p1, s1)" by fastforce
  have s1: "p1 = Creating ?G" "ap_repo s1 = ap_repo api_state0" "key_slot 10 (hd_idempTTL api0) ''acme'' ''k1'' s1 InFlight"
    using check_slot [OF r call [OF none] api0_fields(1) refl free(1) a1] by simp_all
  obtain p2 s2 where a2: "check_phase api0 ?ie ?r writer0 s1 = (p2, s2)" by fastforce
  obtain w where s2: "p2 = Answered w" "w_Code w = 409" "s2 = s1"
    using check_slot [OF r call [OF none] api0_fields(1) refl s1(3) a2] by auto
  obtain p3 s3 where a3: "create_phase api0 ?G ?ie ?r writer0 s1 = (p3, s3)" by fastforce
  have un1: "unused (ap_repo s1) ''acme'' ''k1''" and i1: "mr_inv (ap_repo s1)" and n1: "mr_evs (ap_repo s1) = Map.empty"
    using free(2) inv none s1(2) by simp_all
  obtain bytes where s3: "p3 = Caching ?G bytes (accepted_writer writer0 bytes)"
    using create_unused [OF i1 un1 r call [OF n1] api0_fields(2) a3] by blast
  have call3: "call_ok 10 (hd_idempTTL api0) (ingest_env0 10 u) (ap_repo s3)" if "mr_evs (ap_repo s3) (''evt_'' @ u) = None" for u
    using that time_json_10 by (simp add: call_ok_def json_time_def)
  obtain u where u: "mr_evs (ap_repo s3) (''evt_'' @ u) = None"
  proof -
    have "finite (dom (mr_evs (ap_repo s3)))" by (rule finite_dom_map_of)
    then have "finite ((@) ''evt_'' -` dom (mr_evs (ap_repo s3)))" by (rule finite_vimageI) (simp add: inj_def)
    then obtain u where "u \<notin> (@) ''evt_'' -` dom (mr_evs (ap_repo s3))" using ex_new_if_finite infinite_UNIV_listI by blast
    then show thesis using that by (auto simp: domIff)
  qed
  obtain s4 where a4: "ingest_advance api0 (ingest_env0 10 u) ?r writer0 p3 s3 = (Answered (accepted_writer writer0 bytes), s4)"
    using s3 by simp
  note steps = storm_call [of _ ?rs 10 api0, where ws = ?ws]
  have "storm_step api0 10 ?rs ?ws ([Arriving, Arriving], api_state0) ([Creating ?G, Arriving], s1)"
    using steps [of 0 ?ie api_state0 "[Arriving, Arriving]" p1 s1] call [OF none] a1 s1(1) by simp
  moreover have "storm_step api0 10 ?rs ?ws ([Creating ?G, Arriving], s1) ([Creating ?G, Answered w], s1)"
    using steps [of 1 ?ie s1 "[Creating ?G, Arriving]" p2 s2] call [OF n1] a2 s2 by simp
  moreover have "storm_step api0 10 ?rs ?ws ([Creating ?G, Answered w], s1) ([p3, Answered w], s3)"
    using steps [of 0 ?ie s1 "[Creating ?G, Answered w]" p3 s3] call [OF n1] a3 by simp
  moreover have "storm_step api0 10 ?rs ?ws ([p3, Answered w], s3) ([Answered (accepted_writer writer0 bytes), Answered w], s4)"
    using steps [of 0 "ingest_env0 10 u" s3 "[p3, Answered w]" "Answered (accepted_writer writer0 bytes)" s4] call3 [OF u] a4 by simp
  ultimately have run: "storm_run api0 10 ?rs ?ws ([Arriving, Arriving], api_state0) ([Answered (accepted_writer writer0 bytes), Answered w], s4)"
    by (meson converse_rtranclp_into_rtranclp rtranclp.rtrancl_refl)
  obtain v b where v: "events_of (ap_repo s4) ''acme'' (request_key ?r) = {ev_ID v}" "ingest_response v = Some b"
    and all: "\<forall>i < length ?rs. request_key (?rs ! i) = request_key ?r \<longrightarrow>
      (\<exists>w'. [Answered (accepted_writer writer0 bytes), Answered w :: memory_guard ingest_phase] ! i = Answered w' \<and>
         (w_Code w' = 409 \<or> w_Code w' = 202 \<and> w_Body w' = w_Body (?ws i) @ [b]))"
  proof -
    have run': "storm_run api0 10 ?rs ?ws (replicate (length ?rs) Arriving, api_state0)
        ([Answered (accepted_writer writer0 bytes), Answered w], s4)" using run by (simp add: numeral_2_eq_2)
    have pre: "\<forall>r \<in> set ?rs. ingestable ''acme'' r" "\<forall>r \<in> set ?rs. slot_is 10 (hd_idempTTL api0) (ap_guard api_state0)
        (memoryKey ''acme'' (request_key r)) Free \<and> unused (ap_repo api_state0) ''acme'' (request_key r)"
      "\<forall>p \<in> set [Answered (accepted_writer writer0 bytes), Answered w]. \<exists>w. p = Answered w" "?r \<in> set ?rs"
      using r free by simp_all
    show thesis
      using storm_collapses [OF run' api0_fields(2,1) pre(1) inv pre(2-4)] by (elim exE conjE) (rule that)
  qed
  from all [rule_format, of 0] have "b = bytes" by (auto simp: accepted_writer_def)
  then show ?thesis using run v r(2) s2(2) by auto
qed

end
