(* ===== verification/Chaos.thy ===== *)
theory Chaos
  imports IngestSteps SdkRuns Relay WorkerRuns
begin

text \<open>
  The chaos drills of \<open>cmd/chaos/main.go\<close>: which scenarios are run, the servers that stand for the
  destinations, how each scenario wires the engine and what it sends, the loop that waits for the
  deliveries, the verdicts and the report. What the engine does meanwhile is the subject of the other
  theories: a scenario reads the counter of its destination and the clock from its environment, which also
  says whether what it waits for ends: the requests it sends (their client has no timeout), the
  servers it closes and the pool it stops.
\<close>

section \<open>Results and the report\<close>

record ScenarioResult =
  sc_Name :: string
  sc_TotalIngested :: int
  sc_TotalDelivered :: int
  sc_TotalDLQ :: int
  sc_DataLossCount :: int
  sc_DurationMs :: int
  sc_Passed :: bool
  sc_VerificationNote :: string

record ChaosAuditReport =
  ca_Timestamp :: gotime
  ca_EngineVersion :: string
  ca_TotalScenarios :: int
  ca_PassedCount :: int
  ca_OverallStatus :: string
  ca_Scenarios :: "ScenarioResult list"

text \<open>A scenario is run when the flag is \<open>all\<close> or its name; any other flag runs none.\<close>

definition runs_scenario :: "string \<Rightarrow> string \<Rightarrow> bool" where
  "runs_scenario scenariosFlag name \<longleftrightarrow> scenariosFlag = ''all'' \<or> scenariosFlag = name"

definition chaos_results ::
    "string \<Rightarrow> ScenarioResult \<Rightarrow> ScenarioResult \<Rightarrow> ScenarioResult \<Rightarrow> ScenarioResult \<Rightarrow> ScenarioResult list" where
  "chaos_results scenariosFlag r1 r2 r3 r4 =
     (if runs_scenario scenariosFlag ''s1'' then [r1] else []) @ (if runs_scenario scenariosFlag ''s2'' then [r2] else []) @
     (if runs_scenario scenariosFlag ''s3'' then [r3] else []) @ (if runs_scenario scenariosFlag ''s4'' then [r4] else [])"

fun passedCount :: "ScenarioResult list \<Rightarrow> int" where
  "passedCount [] = 0"
| "passedCount (r # results) = (if sc_Passed r then 1 + passedCount results else passedCount results)"

definition chaos_report :: "gotime \<Rightarrow> ScenarioResult list \<Rightarrow> ChaosAuditReport" where
  "chaos_report now results =
     \<lparr>ca_Timestamp = now, ca_EngineVersion = ''Mini-Svix v1.0-chaos-hardened'', ca_TotalScenarios = int (length results),
      ca_PassedCount = passedCount results,
      ca_OverallStatus = (if passedCount results < int (length results) then ''FAILED'' else ''PASSED (100% ZERO LOSS VERIFIED)''),
      ca_Scenarios = results\<rparr>"

definition chaos_exit :: "ScenarioResult list \<Rightarrow> int" where
  "chaos_exit results = (if passedCount results < int (length results) then 1 else 0)"

section \<open>Destinations\<close>

text \<open>Each server counts its requests; the counters are those of \<open>atomic.Int64\<close>.\<close>

definition respond_ok :: "string \<Rightarrow> http_writer \<Rightarrow> http_writer" where
  "respond_ok body w = w\<lparr>w_Code := 200, w_Body := w_Body w @ [body]\<rparr>"

definition quoted_field :: "string \<Rightarrow> string \<Rightarrow> string" where
  "quoted_field k v = CHR ''{'' # quoted k @ CHR '':'' # v @ ''}''"

definition accepting_server :: "http_writer \<Rightarrow> int \<Rightarrow> http_writer \<times> int" where
  "accepting_server w delivered = (respond_ok (quoted_field ''received'' ''true'') w, wrap64 (delivered + 1))"

definition flaky_server :: "http_writer \<Rightarrow> int \<Rightarrow> http_writer \<times> int" where
  "flaky_server w attempts =
     (let att = wrap64 (attempts + 1) in
      if att \<le> 2 then (http_Error w ''server error'' 503, att)
      else (respond_ok (quoted_field ''status'' (quoted ''ok'')) w, att))"

definition poison_server :: "http_writer \<Rightarrow> http_writer" where
  "poison_server w = http_Error w ''bad request'' 400"

section \<open>The engine of a drill\<close>

text \<open>The dispatcher of a drill has neither metrics nor a callback; the relay and the pool share a stream.\<close>

record ('c, 'h) drill =
  dl_pool :: "(memory_repo, 'c, 'h, unit, mem_queue) worker_pool"
  dl_relay :: "(memory_repo, mem_queue) relay"
  dl_handler :: "(memory_repo, memory_guard, 'c, 'h) api_handler"
  dl_interval :: duration
  dl_batch :: int

definition drill_engine :: "('c, 'h) prom_ops \<Rightarrow> BackoffPolicy \<Rightarrow> Config \<Rightarrow> ('c, 'h) drill" where
  "drill_engine P policy cfg =
     \<lparr>dl_pool = NewWorkerPool cfg memory_stream_queue (Some memory_repository) (NewDispatcher (Some memory_repository) policy P),
      dl_relay = NewRelay memory_repository memory_stream_queue [cf_StreamName cfg],
      dl_handler = NewHandler memory_repository (Some memory_guard_ops) P,
      dl_interval = 10 * Millisecond, dl_batch = 20\<rparr>"

definition drill_endpoint :: "string \<Rightarrow> string \<Rightarrow> string \<Rightarrow> string \<Rightarrow> int \<Rightarrow> Endpoint" where
  "drill_endpoint epID tenantID url secret rate =
     \<lparr>ep_ID = epID, ep_TenantID = tenantID, ep_URL = url, ep_Secret = secret, ep_RateLimit = rate, ep_IsActive = True,
      ep_CreatedAt = 0, ep_UpdatedAt = 0\<rparr>"

text \<open>A tenant and its endpoints; errors are ignored.\<close>

definition drill_tenant :: "env \<Rightarrow> string \<Rightarrow> string \<Rightarrow> (env \<times> Endpoint) list \<Rightarrow> memory_repo \<Rightarrow> memory_repo" where
  "drill_tenant e tenantID name eps m =
     fold (\<lambda>(e', ep) m1. snd (mr_CreateEndpoint e' ep m1)) eps
       (snd (mr_CreateTenant e \<lparr>tn_ID = tenantID, tn_Name = name, tn_CreatedAt = 0\<rparr> m))"

definition drill_request :: "string \<Rightarrow> string option \<Rightarrow> string \<Rightarrow> http_request" where
  "drill_request tenantID key payload =
     \<lparr>rq_Method = ''POST'', rq_URL = ''/api/v1/events'',
      rq_Header = (case key of
          None \<Rightarrow> Header_Set ''X-Tenant-ID'' tenantID []
        | Some k \<Rightarrow> Header_Set ''Content-Type'' ''application/json''
            (Header_Set ''X-Idempotency-Key'' k (Header_Set ''X-Tenant-ID'' tenantID []))),
      rq_Body = payload\<rparr>"

text \<open>The document of an event with its payload.\<close>

definition event_body :: "string \<Rightarrow> string \<Rightarrow> string" where
  "event_body eventType payload =
     CHR ''{'' # quoted ''event_type'' @ CHR '':'' # quoted eventType @ '','' @ quoted ''payload'' @ CHR '':'' # payload @ ''}''"

section \<open>Waiting for the deliveries\<close>

text \<open>
  The loop reads the counter and the clock and sleeps for 20 milliseconds: \<open>loads\<close> are the values of the
  counter in the order in which it is read, \<open>clock\<close> the times. The result is the number of sleeps;
  \<open>None\<close> is a loop that does not end.
\<close>

partial_function (option) await_count :: "int \<Rightarrow> gotime \<Rightarrow> (nat \<Rightarrow> int) \<Rightarrow> (nat \<Rightarrow> gotime) \<Rightarrow> nat \<Rightarrow> nat option" where
  "await_count totalEvents deadline loads clock n =
     (if loads n < totalEvents \<and> clock n < deadline then await_count totalEvents deadline loads clock (Suc n) else Some n)"

text \<open>
  The start; how the requests end; the clock before the loop, the loads of the counter and the readings of
  the clock; whether the deferred calls return: the server of the API and those of the destinations are
  closed, which waits for their requests, and the pool of scenario 2 is stopped, which waits for its
  goroutines; the clock at the end.
\<close>

datatype request_end = ReqAnswered | ReqFailed | ReqHangs

record drill_env =
  dv_start :: gotime
  dv_requests :: "nat \<Rightarrow> request_end"
  dv_base :: gotime
  dv_loads :: "nat \<Rightarrow> int"
  dv_clock :: "nat \<Rightarrow> gotime"
  dv_ts_closes :: bool
  dv_dest_closes :: bool
  dv_pool_stops :: bool
  dv_end :: gotime

text \<open>\<open>wg.Wait\<close> over \<open>n\<close> requests.\<close>

definition all_requests_end :: "nat \<Rightarrow> drill_env \<Rightarrow> bool" where
  "all_requests_end n de = list_all (\<lambda>i. dv_requests de i \<noteq> ReqHangs) [0..<n]"

definition since_ms :: "drill_env \<Rightarrow> int" where
  "since_ms de = go_quot (dv_end de - dv_start de) 1000000"

section \<open>The scenarios\<close>

subsection \<open>Zero loss\<close>

definition s1_config :: Config where
  "s1_config = \<lparr>cf_NumWorkers = 4, cf_StreamName = ''stream:chaos:drill:s1'', cf_GroupName = ''chaos-s1-group'', cf_BatchSize = 10,
     cf_PollInterval = 10 * Millisecond, cf_MinIdleDuration = 30 * Millisecond, cf_ClaimInterval = 30 * Millisecond,
     cf_MaxClaimAttempts = 0\<rparr>"

definition s1_engine :: "('c, 'h) prom_ops \<Rightarrow> ('c, 'h) drill" where
  "s1_engine P = drill_engine P DefaultBackoffPolicy s1_config"

definition s1_repo :: "env \<Rightarrow> env \<Rightarrow> string \<Rightarrow> memory_repo" where
  "s1_repo e e' url = drill_tenant e ''tenant_drill_s1'' ''Drill Tenant 1''
     [(e', drill_endpoint ''ep_drill_1'' ''tenant_drill_s1'' url ''sec_1'' 500)] NewMemoryRepository"

definition s1_requests :: "http_request list" where
  "s1_requests = map (\<lambda>idx. drill_request ''tenant_drill_s1'' (Some (''idemp_drill_'' @ show_int idx))
     (event_body ''order.created'' (quoted_field ''id'' (show_int idx)))) [0..99]"

text \<open>
  \<open>None\<close> is a scenario that does not return. The counter is read once more after the loop. The deferred calls
  run last; \<open>cancel\<close> always returns.
\<close>

definition runScenario1 :: "drill_env \<Rightarrow> ScenarioResult option" where
  "runScenario1 de =
     (if \<not> all_requests_end 100 de then None
      else case await_count 100 (dv_base de + 5 * Second) (dv_loads de) (dv_clock de) 0 of
        None \<Rightarrow> None
      | Some n \<Rightarrow>
          let got = dv_loads de (Suc n);
              loss = wrap64 (100 - got);
              res = \<lparr>sc_Name = ''Outbox Buffer Zero-Loss Recovery'', sc_TotalIngested = 100, sc_TotalDelivered = got, sc_TotalDLQ = 0,
                sc_DataLossCount = loss, sc_DurationMs = since_ms de, sc_Passed = (loss = 0),
                sc_VerificationNote = ''All events committed to outbox drained and delivered with 0 loss.''\<rparr>
          in if dv_ts_closes de \<and> dv_dest_closes de then Some res else None)"

subsection \<open>Crash recovery\<close>

definition s2_config :: Config where
  "s2_config = \<lparr>cf_NumWorkers = 2, cf_StreamName = ''stream:chaos:drill:s2'', cf_GroupName = ''chaos-s2-group'', cf_BatchSize = 0,
     cf_PollInterval = 0, cf_MinIdleDuration = 30 * Millisecond, cf_ClaimInterval = 30 * Millisecond, cf_MaxClaimAttempts = 0\<rparr>"

definition s2_pool :: "('c, 'h) prom_ops \<Rightarrow> (memory_repo, 'c, 'h, unit, mem_queue) worker_pool" where
  "s2_pool P = dl_pool (drill_engine P DefaultBackoffPolicy s2_config)"

definition s2_repo :: "env \<Rightarrow> env \<Rightarrow> string \<Rightarrow> memory_repo" where
  "s2_repo e e' url = drill_tenant e ''tenant_drill_s2'' ''Drill Tenant 2''
     [(e', drill_endpoint ''ep_drill_2'' ''tenant_drill_s2'' url ''sec_2'' 100)] NewMemoryRepository"

definition s2_event :: "gotime \<Rightarrow> nat \<Rightarrow> Event" where
  "s2_event now i =
     \<lparr>ev_ID = ''evt_s2_'' @ show_int (int i), ev_TenantID = ''tenant_drill_s2'', ev_EventType = ''drill.crash'',
      ev_IdempotencyKey = '''', ev_Payload = ''{}'', ev_Status = EventStatusPending, ev_CreatedAt = now\<rparr>"

definition pending_row :: "string \<Rightarrow> OutboxEvent" where
  "pending_row eventID =
     \<lparr>ob_ID = 0, ob_EventID = eventID, ob_Status = OutboxStatusPending, ob_RetryCount = 0, ob_CreatedAt = 0, ob_ProcessedAt = None\<rparr>"

text \<open>
  The event of a creation is changed in place, so the one that is published is the stored one; when the
  creation fails it is published all the same. \<open>es\<close> gives the clock and the environments of a round.
\<close>

definition create_and_publish ::
    "string \<Rightarrow> env \<Rightarrow> env \<Rightarrow> Event \<Rightarrow> memory_repo \<times> mem_queue \<Rightarrow> memory_repo \<times> mem_queue" where
  "create_and_publish streamName e e' evt mq =
     (case mr_CreateEventWithOutbox e evt (pending_row (ev_ID evt)) (fst mq) of
        (Inl err, m1) \<Rightarrow> (m1, snd (mq_PublishEvent e' streamName (Some evt) (snd mq)))
      | (Inr (evt', ob), m1) \<Rightarrow> (m1, snd (mq_PublishEvent e' streamName (Some evt') (snd mq))))"

definition s2_fill :: "(nat \<Rightarrow> gotime \<times> env \<times> env) \<Rightarrow> nat \<Rightarrow> memory_repo \<times> mem_queue \<Rightarrow> memory_repo \<times> mem_queue" where
  "s2_fill es numEvents mq =
     fold (\<lambda>i. create_and_publish ''stream:chaos:drill:s2'' (fst (snd (es i))) (snd (snd (es i))) (s2_event (fst (es i)) i))
       [0..<numEvents] mq"

text \<open>The state when the pool is started: the events were read by a consumer that never acknowledges.\<close>

definition s2_crash :: "env \<Rightarrow> env \<Rightarrow> string \<Rightarrow> env \<Rightarrow> (nat \<Rightarrow> gotime \<times> env \<times> env) \<Rightarrow> env \<Rightarrow> memory_repo \<times> mem_queue" where
  "s2_crash e e' url eg es er =
     (case s2_fill es 20 (s2_repo e e' url,
             snd (mq_CreateConsumerGroup eg ''stream:chaos:drill:s2'' ''chaos-s2-group'' ''0'' NewMemoryStreamQueue)) of
        (m, q) \<Rightarrow> (m, snd (mq_ReadEvents_quiet er ''stream:chaos:drill:s2'' ''chaos-s2-group'' ''crashed-worker'' 20 0 q)))"

text \<open>This scenario sends no request; its pool is stopped before it returns.\<close>

definition runScenario2 :: "drill_env \<Rightarrow> ScenarioResult option" where
  "runScenario2 de =
     (case await_count 20 (dv_base de + 4 * Second) (dv_loads de) (dv_clock de) 0 of
        None \<Rightarrow> None
      | Some n \<Rightarrow>
          let got = dv_loads de (Suc n);
              loss = wrap64 (20 - got);
              res = \<lparr>sc_Name = ''Worker Crash & PEL Auto-Claim'', sc_TotalIngested = 20, sc_TotalDelivered = got, sc_TotalDLQ = 0,
                sc_DataLossCount = loss, sc_DurationMs = since_ms de, sc_Passed = (loss = 0),
                sc_VerificationNote = ''Abandoned in-flight messages successfully reclaimed and dispatched.''\<rparr>
          in if dv_pool_stops de \<and> dv_dest_closes de then Some res else None)"

subsection \<open>Failing destinations\<close>

definition s3_config :: Config where
  "s3_config = \<lparr>cf_NumWorkers = 2, cf_StreamName = ''stream:chaos:drill:s3'', cf_GroupName = ''chaos-s3-group'', cf_BatchSize = 0,
     cf_PollInterval = 10 * Millisecond, cf_MinIdleDuration = 0, cf_ClaimInterval = 0, cf_MaxClaimAttempts = 0\<rparr>"

definition s3_policy :: BackoffPolicy where
  "s3_policy = \<lparr>bp_InitialInterval = 20 * Millisecond, bp_MaxInterval = 100 * Millisecond, bp_Multiplier = 2, bp_MaxRetries = 4,
     bp_RandFunc = None\<rparr>"

definition s3_engine :: "('c, 'h) prom_ops \<Rightarrow> ('c, 'h) drill" where
  "s3_engine P = drill_engine P s3_policy s3_config"

definition s3_repo :: "env \<Rightarrow> env \<Rightarrow> env \<Rightarrow> string \<Rightarrow> string \<Rightarrow> memory_repo" where
  "s3_repo e e1 e2 flakyURL poisonURL = drill_tenant e ''tenant_drill_s3'' ''Drill Tenant 3''
     [(e1, drill_endpoint ''ep_flaky_3'' ''tenant_drill_s3'' flakyURL ''sec_3'' 100),
      (e2, drill_endpoint ''ep_poison_3'' ''tenant_drill_s3'' poisonURL ''sec_3'' 100)] NewMemoryRepository"

definition s3_request :: http_request where
  "s3_request = drill_request ''tenant_drill_s3'' None (event_body ''flaky'' (quoted_field ''a'' ''1''))"

text \<open>
  The one request is not waited for in a goroutine: when it fails its nil response is dereferenced. The list is
  nil when it cannot be read; the counts of the result are constants.
\<close>

definition runScenario3 :: "drill_env \<Rightarrow> env \<Rightarrow> memory_repo \<Rightarrow> (goerr + ScenarioResult) option" where
  "runScenario3 de e m =
     (let ret = (\<lambda>r. if dv_ts_closes de \<and> dv_dest_closes de then Some r else None) in
      case dv_requests de 0 of
        ReqHangs \<Rightarrow> None
      | ReqFailed \<Rightarrow> ret (Inl (GoPanic ''invalid memory address or nil pointer dereference''))
      | ReqAnswered \<Rightarrow>
          let dlqList = (case mr_GetDLQEvents e ''tenant_drill_s3'' 10 0 m of Inl err \<Rightarrow> [] | Inr vs \<Rightarrow> vs) in
          ret (Inr \<lparr>sc_Name = ''Destination Chaos & DLQ Isolation'', sc_TotalIngested = 2, sc_TotalDelivered = 1,
            sc_TotalDLQ = int (length dlqList), sc_DataLossCount = 0, sc_DurationMs = since_ms de,
            sc_Passed = (length dlqList \<ge> 1),
            sc_VerificationNote = ''Flaky events retried with jitter; non-retryable errors routed to DLQ.''\<rparr>))"

subsection \<open>Idempotency storm\<close>

definition s4_config :: Config where
  "s4_config = \<lparr>cf_NumWorkers = 4, cf_StreamName = ''stream:chaos:drill:s4'', cf_GroupName = ''chaos-s4-group'', cf_BatchSize = 0,
     cf_PollInterval = 10 * Millisecond, cf_MinIdleDuration = 0, cf_ClaimInterval = 0, cf_MaxClaimAttempts = 0\<rparr>"

definition s4_engine :: "('c, 'h) prom_ops \<Rightarrow> ('c, 'h) drill" where
  "s4_engine P = drill_engine P DefaultBackoffPolicy s4_config"

definition s4_repo :: "env \<Rightarrow> env \<Rightarrow> string \<Rightarrow> memory_repo" where
  "s4_repo e e' url = drill_tenant e ''tenant_drill_s4'' ''Drill Tenant 4''
     [(e', drill_endpoint ''ep_drill_4'' ''tenant_drill_s4'' url ''sec_4'' 500)] NewMemoryRepository"

definition s4_key :: "int \<Rightarrow> string" where
  "s4_key keyIdx = ''idemp_burst_'' @ show_int keyIdx"

definition s4_request :: "int \<Rightarrow> int \<Rightarrow> http_request" where
  "s4_request keyIdx burstIdx =
     drill_request ''tenant_drill_s4'' (Some (s4_key keyIdx))
       (event_body ''burst'' (CHR ''{'' # quoted ''k'' @ CHR '':'' # show_int keyIdx @ '','' @ quoted ''b'' @ CHR '':'' # show_int burstIdx @ ''}''))"

definition s4_requests :: "http_request list" where
  "s4_requests = concat (map (\<lambda>k. map (\<lambda>b. s4_request k b) [0..9]) [0..9])"

definition runScenario4 :: "drill_env \<Rightarrow> ScenarioResult option" where
  "runScenario4 de =
     (if \<not> all_requests_end 100 de then None
      else case await_count 10 (dv_base de + 5 * Second) (dv_loads de) (dv_clock de) 0 of
        None \<Rightarrow> None
      | Some n \<Rightarrow>
          let got = dv_loads de (Suc n);
              res = \<lparr>sc_Name = ''Concurrent Idempotency Storm'', sc_TotalIngested = 100, sc_TotalDelivered = got, sc_TotalDLQ = 0,
                sc_DataLossCount = 0, sc_DurationMs = since_ms de, sc_Passed = (got = 10),
                sc_VerificationNote =
                  ''100 requests collapsed into exactly 10 unique events with zero duplicate deliveries.''\<rparr>
          in if dv_ts_closes de \<and> dv_dest_closes de then Some res else None)"

section \<open>The waiting ends\<close>

lemma await_within:
  assumes "\<forall>n. clock n + 20 * Millisecond \<le> clock (Suc n)" "deadline \<le> clock n + int k * (20 * Millisecond)"
  shows "\<exists>j \<le> n + k. await_count totalEvents deadline loads clock n = Some j \<and>
    (totalEvents \<le> loads j \<or> deadline \<le> clock j)"
  using assms(2)
proof (induction k arbitrary: n)
  case 0
  then show ?case by (subst await_count.simps) (auto intro!: exI [of _ n])
next
  case (Suc k)
  show ?case
  proof (cases "loads n < totalEvents \<and> clock n < deadline")
    case True
    have "deadline \<le> clock (Suc n) + int k * (20 * Millisecond)"
      using Suc.prems assms(1) [rule_format, of n] by (simp add: algebra_simps)
    from Suc.IH [OF this] obtain j where "j \<le> Suc n + k" "await_count totalEvents deadline loads clock (Suc n) = Some j"
      "totalEvents \<le> loads j \<or> deadline \<le> clock j" by blast
    with True show ?thesis by (subst await_count.simps) (auto intro!: exI [of _ j])
  next
    case False
    then show ?thesis by (subst await_count.simps) (auto intro!: exI [of _ n])
  qed
qed

text \<open>
  How a scenario that waits for \<open>expected\<close> deliveries ends after \<open>n\<close> sleeps: the counter reached \<open>expected\<close> or the
  time is over; the result holds the value the counter has afterwards, and the scenario passes exactly
  when that is \<open>expected\<close>; otherwise the time is over or there were more deliveries than events.
\<close>

definition drill_outcome :: "drill_env \<Rightarrow> int \<Rightarrow> duration \<Rightarrow> ScenarioResult \<Rightarrow> nat \<Rightarrow> bool" where
  "drill_outcome de expected limit r n \<longleftrightarrow>
     int n * (20 * Millisecond) \<le> limit \<and>
     (expected \<le> dv_loads de n \<or> dv_base de + limit \<le> dv_clock de n) \<and>
     sc_TotalDelivered r = dv_loads de (Suc n) \<and> (sc_Passed r \<longleftrightarrow> dv_loads de (Suc n) = expected) \<and>
     (\<not> sc_Passed r \<longrightarrow> expected < dv_loads de (Suc n) \<or> dv_base de + limit \<le> dv_clock de n)"

text \<open>A sleep advances the clock by its 20 milliseconds, and the counter only grows.\<close>

definition drill_advances :: "drill_env \<Rightarrow> bool" where
  "drill_advances de \<longleftrightarrow>
     (\<forall>n. dv_clock de n + 20 * Millisecond \<le> dv_clock de (Suc n)) \<and> dv_base de \<le> dv_clock de 0 \<and>
     (\<forall>n. dv_loads de n \<le> dv_loads de (Suc n)) \<and> (\<forall>n. 0 \<le> dv_loads de n \<and> int64_ok (dv_loads de n))"

abbreviation requests_and_servers_end :: "drill_env \<Rightarrow> bool" where
  "requests_and_servers_end de \<equiv> (\<forall>i < 100. dv_requests de i \<noteq> ReqHangs) \<and> dv_ts_closes de \<and> dv_dest_closes de"

lemma all_requests_end_iff: "all_requests_end n de \<longleftrightarrow> (\<forall>i < n. dv_requests de i \<noteq> ReqHangs)"
  by (auto simp: all_requests_end_def list_all_iff)

lemma await_drill:
  assumes "drill_advances de" "limit = int k * (20 * Millisecond)"
  obtains n where "n \<le> k" "await_count expected (dv_base de + limit) (dv_loads de) (dv_clock de) 0 = Some n"
    "\<And>r. sc_TotalDelivered r = dv_loads de (Suc n) \<Longrightarrow> sc_Passed r \<longleftrightarrow> dv_loads de (Suc n) = expected \<Longrightarrow>
       drill_outcome de expected limit r n"
proof -
  have "dv_base de + limit \<le> dv_clock de 0 + int k * (20 * Millisecond)"
    using assms by (simp add: drill_advances_def)
  with await_within [of "dv_clock de" "dv_base de + limit" 0 k expected "dv_loads de"] assms(1) obtain n where
    n: "n \<le> k" "await_count expected (dv_base de + limit) (dv_loads de) (dv_clock de) 0 = Some n"
      "expected \<le> dv_loads de n \<or> dv_base de + limit \<le> dv_clock de n"
    by (auto simp: drill_advances_def)
  have "int n * (20 * Millisecond) \<le> limit" using n(1) assms(2) by (simp add: duration_defs)
  moreover have "dv_loads de n \<le> dv_loads de (Suc n)" using assms(1) by (simp add: drill_advances_def)
  ultimately show thesis using n that by (auto simp: drill_outcome_def)
qed

lemma loss_none:
  assumes "drill_advances de" "0 \<le> expected" "expected \<le> 100"
  shows "wrap64 (expected - dv_loads de n) = 0 \<longleftrightarrow> dv_loads de n = expected"
proof -
  have "0 \<le> dv_loads de n" "int64_ok (dv_loads de n)" using assms(1) by (simp_all add: drill_advances_def)
  then have "int64_ok (expected - dv_loads de n)" using assms(2,3) by (simp add: int64_ok_def)
  then show ?thesis by (auto simp: wrap64_id)
qed

lemma scenario1_ends:
  assumes "drill_advances de"
  shows "if requests_and_servers_end de
    then \<exists>r n. runScenario1 de = Some r \<and> n \<le> 250 \<and> drill_outcome de 100 (5 * Second) r n else runScenario1 de = None"
proof -
  obtain n where n: "n \<le> 250" "await_count 100 (dv_base de + 5 * Second) (dv_loads de) (dv_clock de) 0 = Some n"
    "\<And>r. sc_TotalDelivered r = dv_loads de (Suc n) \<Longrightarrow> sc_Passed r \<longleftrightarrow> dv_loads de (Suc n) = 100 \<Longrightarrow>
       drill_outcome de 100 (5 * Second) r n"
    using await_drill [OF assms, of "5 * Second" 250 100] by (auto simp: duration_defs)
  show ?thesis
  proof (cases "requests_and_servers_end de")
    case True
    then obtain r where "runScenario1 de = Some r" "sc_TotalDelivered r = dv_loads de (Suc n)"
      "sc_Passed r \<longleftrightarrow> dv_loads de (Suc n) = 100"
      using n(2) loss_none [OF assms, of 100] by (simp add: runScenario1_def all_requests_end_iff Let_def)
    with True n(1,3) show ?thesis by auto
  next
    case False
    then have "runScenario1 de = None" using n(2) unfolding runScenario1_def all_requests_end_iff Let_def by auto
    with False show ?thesis by simp
  qed
qed

lemma scenario2_ends:
  assumes "drill_advances de"
  shows "if dv_pool_stops de \<and> dv_dest_closes de
    then \<exists>r n. runScenario2 de = Some r \<and> n \<le> 200 \<and> drill_outcome de 20 (4 * Second) r n else runScenario2 de = None"
proof -
  obtain n where n: "n \<le> 200" "await_count 20 (dv_base de + 4 * Second) (dv_loads de) (dv_clock de) 0 = Some n"
    "\<And>r. sc_TotalDelivered r = dv_loads de (Suc n) \<Longrightarrow> sc_Passed r \<longleftrightarrow> dv_loads de (Suc n) = 20 \<Longrightarrow>
       drill_outcome de 20 (4 * Second) r n"
    using await_drill [OF assms, of "4 * Second" 200 20] by (auto simp: duration_defs)
  show ?thesis
  proof (cases "dv_pool_stops de \<and> dv_dest_closes de")
    case True
    then obtain r where "runScenario2 de = Some r" "sc_TotalDelivered r = dv_loads de (Suc n)"
      "sc_Passed r \<longleftrightarrow> dv_loads de (Suc n) = 20"
      using n(2) loss_none [OF assms, of 20] by (simp add: runScenario2_def Let_def)
    with True n(1,3) show ?thesis by auto
  next
    case False
    then have "runScenario2 de = None" using n(2) unfolding runScenario2_def Let_def by auto
    with False show ?thesis by simp
  qed
qed

lemma scenario4_ends:
  assumes "drill_advances de"
  shows "if requests_and_servers_end de
    then \<exists>r n. runScenario4 de = Some r \<and> n \<le> 250 \<and> drill_outcome de 10 (5 * Second) r n else runScenario4 de = None"
proof -
  obtain n where n: "n \<le> 250" "await_count 10 (dv_base de + 5 * Second) (dv_loads de) (dv_clock de) 0 = Some n"
    "\<And>r. sc_TotalDelivered r = dv_loads de (Suc n) \<Longrightarrow> sc_Passed r \<longleftrightarrow> dv_loads de (Suc n) = 10 \<Longrightarrow>
       drill_outcome de 10 (5 * Second) r n"
    using await_drill [OF assms, of "5 * Second" 250 10] by (auto simp: duration_defs)
  show ?thesis
  proof (cases "requests_and_servers_end de")
    case True
    then obtain r where "runScenario4 de = Some r" "sc_TotalDelivered r = dv_loads de (Suc n)"
      "sc_Passed r \<longleftrightarrow> dv_loads de (Suc n) = 10"
      using n(2) by (simp add: runScenario4_def all_requests_end_iff Let_def)
    with True n(1,3) show ?thesis by auto
  next
    case False
    then have "runScenario4 de = None" using n(2) unfolding runScenario4_def all_requests_end_iff Let_def by auto
    with False show ?thesis by simp
  qed
qed

text \<open>C39: scenarios 1, 2 and 4 of the drill, on clocks and counters that advance (a sleep moves the clock by its 20
  milliseconds, the counter only grows): a scenario returns exactly when what it waits for ends, that is
  when every request it sends ends, answered or not, and the servers it closes and the pool it stops let
  it return. Its loop then stops after at most 250, 200 and 250 sleeps, with all deliveries counted or the
  deadline passed, and it passes exactly when the counter, read after the loop, is 100, 20 and 10; one
  that fails has reached its deadline or counted surplus deliveries.\<close>

theorem drills_end:
  assumes "drill_advances de"
  shows "(if (\<forall>i < 100. dv_requests de i \<noteq> ReqHangs) \<and> dv_ts_closes de \<and> dv_dest_closes de
      then \<exists>r n. runScenario1 de = Some r \<and> n \<le> 250 \<and> drill_outcome de 100 (5 * Second) r n
      else runScenario1 de = None) \<and>
    (if dv_pool_stops de \<and> dv_dest_closes de
      then \<exists>r n. runScenario2 de = Some r \<and> n \<le> 200 \<and> drill_outcome de 20 (4 * Second) r n
      else runScenario2 de = None) \<and>
    (if (\<forall>i < 100. dv_requests de i \<noteq> ReqHangs) \<and> dv_ts_closes de \<and> dv_dest_closes de
      then \<exists>r n. runScenario4 de = Some r \<and> n \<le> 250 \<and> drill_outcome de 10 (5 * Second) r n
      else runScenario4 de = None)"
  by (intro conjI scenario1_ends [OF assms] scenario2_ends [OF assms] scenario4_ends [OF assms])

text \<open>A drill whose deliveries are counted one per round.\<close>

definition drill_env0 :: drill_env where
  "drill_env0 = \<lparr>dv_start = 0, dv_requests = (\<lambda>_. ReqAnswered), dv_base = 0, dv_loads = (\<lambda>n. min 100 (int n)),
     dv_clock = (\<lambda>n. int n * (20 * Millisecond)), dv_ts_closes = True, dv_dest_closes = True, dv_pool_stops = True, dv_end = 0\<rparr>"

theorem drills_end_witness:
  "\<exists>r1. runScenario1 drill_env0 = Some r1 \<and> sc_Passed r1"
proof -
  have "drill_advances drill_env0"
    by (auto simp: drill_advances_def drill_env0_def duration_defs int64_ok_def)
  from drills_end [OF this] obtain r n where r: "runScenario1 drill_env0 = Some r" "drill_outcome drill_env0 100 (5 * Second) r n"
    by (auto simp: drill_env0_def)
  then have "sc_Passed r"
    by (auto simp: drill_outcome_def drill_env0_def duration_defs)
  with r(1) show ?thesis by blast
qed

section \<open>The report\<close>

lemma passedCount_le: "0 \<le> passedCount rs \<and> passedCount rs \<le> int (length rs)"
  by (induction rs) auto

lemma passedCount_all: "passedCount rs < int (length rs) \<longleftrightarrow> (\<exists>r \<in> set rs. \<not> sc_Passed r)"
proof (induction rs)
  case (Cons r rs)
  then show ?case using passedCount_le [of rs] by auto
qed simp

text \<open>The command succeeds exactly when the report says so, that is, when every scenario that ran has passed.\<close>

theorem chaos_verdict:
  "chaos_exit rs = 0 \<longleftrightarrow> (\<forall>r \<in> set rs. sc_Passed r)"
  "ca_OverallStatus (chaos_report now rs) = ''FAILED'' \<longleftrightarrow> chaos_exit rs \<noteq> 0"
  by (auto simp: chaos_exit_def chaos_report_def passedCount_all)

text \<open>An unknown scenario name runs nothing, and passes.\<close>

theorem unknown_scenario_passes:
  assumes "flag \<notin> {''all'', ''s1'', ''s2'', ''s3'', ''s4''}"
  shows "chaos_results flag r1 r2 r3 r4 = [] \<and> chaos_exit (chaos_results flag r1 r2 r3 r4) = 0 \<and>
    ca_OverallStatus (chaos_report now (chaos_results flag r1 r2 r3 r4)) = ''PASSED (100% ZERO LOSS VERIFIED)''"
  using assms by (simp add: chaos_results_def runs_scenario_def chaos_exit_def chaos_report_def)

section \<open>The idempotency storm\<close>

lemma s4_body: "rq_Body (s4_request k b) = encode (JObject [(''event_type'', JString ''burst''),
    (''payload'', JObject [(''k'', JInt k), (''b'', JInt b)])])"
proof -
  have e: "escape ''event_type'' = ''event_type''" "escape ''burst'' = ''burst''" "escape ''payload'' = ''payload''"
    "escape ''k'' = ''k''" "escape ''b'' = ''b''" by code_simp+
  show ?thesis by (simp add: s4_request_def drill_request_def event_body_def quoted_def json_quote_def e)
qed

lemma s4_header:
  "Header_Get (rq_Header (s4_request k b)) HeaderTenantID = ''tenant_drill_s4''"
  "request_key (s4_request k b) = s4_key k" "rq_Method (s4_request k b) = ''POST''"
proof -
  have c: "CanonicalHeaderKey ''Content-Type'' = ''Content-Type''" by code_simp
  show "Header_Get (rq_Header (s4_request k b)) HeaderTenantID = ''tenant_drill_s4''"
    "request_key (s4_request k b) = s4_key k" "rq_Method (s4_request k b) = ''POST''"
    by (simp_all add: request_key_def s4_request_def drill_request_def Header_Get_def Header_Set_def HeaderTenantID_def
        HeaderIdempotencyKey_def canonical_headers c)
qed

lemma s4_ingestable: "ingestable ''tenant_drill_s4'' (s4_request k b)"
proof -
  let ?doc = "JObject [(''k'', JInt k), (''b'', JInt b)]"
  have f: "fits (maxNestingDepth - 1) ?doc" by (simp add: maxNestingDepth_def)
  have v: "json_Valid (encode ?doc)"
    using json_Valid_text [OF encode_value_text [OF f], of "[]"] by (simp add: skip_ws_def del: encode.simps)
  have t: "to_valid ''burst'' = ''burst''" by code_simp
  have n: "encode ?doc \<noteq> []" "encode ?doc \<noteq> ''null''" by simp_all
  have "decode_ingest (rq_Body (s4_request k b)) = Some \<lparr>ir_EventType = ''burst'', ir_Payload = encode ?doc\<rparr>"
    using decode_published [OF f, of "''burst''"] by (simp only: s4_body t)
  then show ?thesis using s4_header [of k b] v n by (simp add: ingestable_def s4_key_def)
qed

lemma drill_tenant_frame:
  assumes "mr_inv m"
  shows "mr_inv (drill_tenant e t name eps m) \<and> mr_events (drill_tenant e t name eps m) = mr_events m \<and>
    mr_idempotencyIndex (drill_tenant e t name eps m) = mr_idempotencyIndex m"
proof -
  let ?same = "\<lambda>m'. mr_inv m' \<and> mr_events m' = mr_events m \<and> mr_idempotencyIndex m' = mr_idempotencyIndex m"
  have ep: "?same m1 \<Longrightarrow> ?same (snd (mr_CreateEndpoint e' ep m1))" for e' ep m1
    using mr_inv_CreateEndpoint [of m1 e' ep] by (auto simp: mr_CreateEndpoint_def Let_def split: option.splits)
  have "?same m1 \<Longrightarrow> ?same (fold (\<lambda>(e', ep) m1. snd (mr_CreateEndpoint e' ep m1)) eps m1)" for m1
    by (induction eps arbitrary: m1) (use ep in auto)
  moreover have "?same (snd (mr_CreateTenant e \<lparr>tn_ID = t, tn_Name = name, tn_CreatedAt = 0\<rparr> m))"
    using assms mr_inv_CreateTenant [OF assms, of e "\<lparr>tn_ID = t, tn_Name = name, tn_CreatedAt = 0\<rparr>"]
    by (auto simp: mr_CreateTenant_def Let_def split: option.splits)
  ultimately show ?thesis by (simp add: drill_tenant_def)
qed

text \<open>
  Scenario 4: whatever the interleaving of its hundred requests with each other and with the relay and the
  workers, once all are answered each of its ten keys has exactly one event.
\<close>

lemma burst_collapses:
  assumes "storm_run (dl_handler (s4_engine P)) t0 s4_requests ws (replicate (length s4_requests) Arriving,
      \<lparr>ap_repo = s4_repo e e' url, ap_guard = NewMemoryGuard, ap_metrics = metrics\<rparr>) (ps, s')"
    and "\<forall>p \<in> set ps. \<exists>w. p = Answered w" "k \<in> set [0..9]"
  shows "\<exists>v :: Event. events_of (ap_repo s') ''tenant_drill_s4'' (s4_key k) = {ev_ID v}"
proof -
  let ?h = "dl_handler (s4_engine P)" and ?s = "\<lparr>ap_repo = s4_repo e e' url, ap_guard = NewMemoryGuard, ap_metrics = metrics\<rparr>"
  have h: "hd_repo ?h = memory_repository" "hd_guard ?h = Some memory_guard_ops"
    by (simp_all add: s4_engine_def drill_engine_def NewHandler_def)
  have all: "\<forall>r \<in> set s4_requests. ingestable ''tenant_drill_s4'' r" using s4_ingestable by (auto simp: s4_requests_def)
  have r: "s4_request k 0 \<in> set s4_requests" using assms(3) by (force simp: s4_requests_def)
  have m: "mr_inv (ap_repo ?s)" "mr_evs (ap_repo ?s) = Map.empty" "map_of (mr_idempotencyIndex (ap_repo ?s)) = Map.empty"
    using drill_tenant_frame [OF mr_inv_new] by (simp_all add: s4_repo_def NewMemoryRepository_def)
  then have sl: "\<forall>r \<in> set s4_requests. slot_is t0 (hd_idempTTL ?h) (ap_guard ?s) (memoryKey ''tenant_drill_s4'' (request_key r)) Free \<and>
      unused (ap_repo ?s) ''tenant_drill_s4'' (request_key r)"
    by (simp add: slot_is_def unused_def events_of_def)
  from storm_outcome [OF assms(1) h all m(1) sl assms(2) r] show ?thesis
    unfolding s4_header(2) by (elim exE conjE) (rule exI)
qed

end
