(* ===== verification/Soak.thy ===== *)
theory Soak
  imports Chaos Pipeline MockReceiver
begin

text \<open>
  The soak test of \<open>cmd/soak/main.go\<close>: the destination with its scheduled failures, the counters the
  attempts feed, the wiring of the engine, the tenants, the requests of the producer, the injector of
  abandoned messages, the snapshots, and the verdict with the exit status. Lemmas: the counters count
  recorded attempts; what the verdict says of the counters. Floating point is rational arithmetic rounded
  to 53 bits after every operation; numbers too small or too large for \<open>float64\<close> do not occur.
\<close>

section \<open>Floating point\<close>

definition pow2 :: "int \<Rightarrow> rat" where
  "pow2 i = (if 0 \<le> i then 2 ^ nat i else 1 / 2 ^ nat (- i))"

text \<open>The exponent of a positive number: the greatest \<open>e\<close> such that \<open>2 ^ e\<close> is not above it.\<close>

definition exponent_of :: "rat \<Rightarrow> int" where
  "exponent_of q =
     (case quotient_of q of (n, d) \<Rightarrow>
        let e = int (flog2 (nat n)) - int (flog2 (nat d)) in if q < pow2 e then e - 1 else e)"

definition float64 :: "rat \<Rightarrow> rat" where
  "float64 q =
     (if q = 0 then 0
      else let e = exponent_of \<bar>q\<bar> in sgn q * (of_int (round_even (\<bar>q\<bar> * pow2 (52 - e))) * pow2 (e - 52)))"

section \<open>Snapshots and the summary\<close>

record SoakMetricsSnapshot =
  sn_TimestampUTC :: gotime
  sn_ElapsedSeconds :: rat
  sn_TotalIngested :: int
  sn_TotalDelivered :: int
  sn_TotalDLQ :: int
  sn_TotalRetried :: int
  sn_TotalPELReclaimed :: int
  sn_TotalSSEEvents :: int
  sn_ActiveSSEClients :: int
  sn_CurrentRPS :: rat
  sn_GoroutineCount :: int
  sn_HeapAllocMB :: rat
  sn_HeapSysMB :: rat
  sn_HeapObjects :: nat
  sn_NumGC :: nat

record SoakTestSummary =
  ss_EngineVersion :: string
  ss_StartTime :: gotime
  ss_EndTime :: gotime
  ss_TargetDuration :: string
  ss_ActualDurationSecs :: rat
  ss_TotalIngested :: int
  ss_TotalDelivered :: int
  ss_TotalDLQ :: int
  ss_TotalRetried :: int
  ss_TotalPELReclaimed :: int
  ss_TotalSSEBroadcasts :: int
  ss_PeakGoroutines :: int
  ss_InitialAllocMB :: rat
  ss_FinalAllocMB :: rat
  ss_MemoryLeakDetected :: bool
  ss_DataLossCount :: int
  ss_Status :: string
  ss_SnapshotsCount :: int
  ss_Snapshots :: "SoakMetricsSnapshot list"

section \<open>Counters\<close>

record soak_counters =
  sk_delivered :: int
  sk_dlq :: int
  sk_retries :: int
  sk_pel :: int
  sk_sse :: int
  sk_ingested :: int
  sk_raw :: int
  sk_clients :: int

definition zero_counters :: soak_counters where
  "zero_counters = \<lparr>sk_delivered = 0, sk_dlq = 0, sk_retries = 0, sk_pel = 0, sk_sse = 0, sk_ingested = 0, sk_raw = 0, sk_clients = 0\<rparr>"

text \<open>Every 80th request is refused for good, every other 40th fails once.\<close>

definition soak_destination :: "http_writer \<Rightarrow> soak_counters \<Rightarrow> http_writer \<times> soak_counters" where
  "soak_destination w k =
     (let reqNum = wrap64 (sk_raw k + 1); k1 = k\<lparr>sk_raw := reqNum\<rparr> in
      if go_rem reqNum 80 = 0 then (http_Error w (quoted_field ''error'' (quoted ''invalid_payload_schema'')) 400, k1)
      else if go_rem reqNum 40 = 0 then (http_Error w (quoted_field ''error'' (quoted ''temporary_upstream_timeout'')) 500, k1)
      else (\<lparr>w_Header = Header_Set ''Content-Type'' ''application/json'' (w_Header w), w_Code = 200,
             w_Body = w_Body w @ [CHR ''{'' # quoted ''received'' @ '':true,'' @ quoted ''status'' @ CHR '':'' # quoted ''ok'' @ ''}'']\<rparr>, k1))"

text \<open>The callback of the dispatcher.\<close>

definition count_attempt :: "DeliveryStatus \<Rightarrow> soak_counters \<Rightarrow> soak_counters" where
  "count_attempt st k =
     (case st of
        DeliveryStatusSuccess \<Rightarrow> k\<lparr>sk_delivered := wrap64 (sk_delivered k + 1)\<rparr>
      | DeliveryStatusFailed \<Rightarrow> k\<lparr>sk_dlq := wrap64 (sk_dlq k + 1)\<rparr>
      | DeliveryStatusRetrying \<Rightarrow> k\<lparr>sk_retries := wrap64 (sk_retries k + 1)\<rparr>)"

definition soak_onAttempt :: "(nat \<Rightarrow> nat list) \<Rightarrow> DeliveryAttempt \<Rightarrow> sse_sink \<times> soak_counters \<Rightarrow> sse_sink \<times> soak_counters" where
  "soak_onAttempt ord attempt sink = (broadcast_to ord attempt (fst sink), count_attempt (at_Status attempt) (snd sink))"

text \<open>A line of the event stream.\<close>

definition count_line :: "string \<Rightarrow> soak_counters \<Rightarrow> soak_counters" where
  "count_line line k = (if take 5 line = ''data:'' then k\<lparr>sk_sse := wrap64 (sk_sse k + 1)\<rparr> else k)"

section \<open>The engine\<close>

definition soak_stream :: string where
  "soak_stream = ''stream:soak:events''"

definition soak_group :: string where
  "soak_group = ''soak-worker-group''"

definition soak_policy :: BackoffPolicy where
  "soak_policy = \<lparr>bp_InitialInterval = 10 * Millisecond, bp_MaxInterval = 100 * Millisecond, bp_Multiplier = 2, bp_MaxRetries = 3,
     bp_RandFunc = None\<rparr>"

definition soak_config :: Config where
  "soak_config = \<lparr>cf_NumWorkers = 8, cf_StreamName = soak_stream, cf_GroupName = soak_group, cf_BatchSize = 25,
     cf_PollInterval = 10 * Millisecond, cf_MinIdleDuration = 50 * Millisecond, cf_ClaimInterval = 50 * Millisecond,
     cf_MaxClaimAttempts = 0\<rparr>"

record ('c, 'h) soak_engine =
  se_disp :: "(memory_repo, 'c, 'h, sse_sink \<times> soak_counters) dispatcher"
  se_pool :: "(memory_repo, 'c, 'h, sse_sink \<times> soak_counters, mem_queue) worker_pool"
  se_relay :: "(memory_repo, mem_queue) relay"
  se_handler :: "(memory_repo, memory_guard, 'c, 'h) api_handler"

definition wire_soak :: "('c, 'h) prom_ops \<Rightarrow> (nat \<Rightarrow> nat list) \<Rightarrow> ('c, 'h) soak_engine" where
  "wire_soak P ord =
     (let disp = WithAttemptCallback (Some (soak_onAttempt ord)) (NewDispatcher (Some memory_repository) soak_policy P) in
      \<lparr>se_disp = disp,
       se_pool = NewWorkerPool soak_config memory_stream_queue (Some memory_repository) disp,
       se_relay = NewRelay memory_repository memory_stream_queue [soak_stream],
       se_handler = WithSSEBroker True (NewHandler memory_repository (Some memory_guard_ops) P)\<rparr>)"

section \<open>Load\<close>

definition soak_tenants :: "string list" where
  "soak_tenants = [''tenant_prod_alpha'', ''tenant_prod_beta'', ''tenant_prod_gamma'', ''tenant_prod_delta'']"

text \<open>The \<open>i\<close>-th tenant with its endpoint; errors are ignored.\<close>

definition soak_tenant :: "string \<Rightarrow> (nat \<Rightarrow> env \<times> env) \<Rightarrow> nat \<Rightarrow> memory_repo \<Rightarrow> memory_repo" where
  "soak_tenant url es i m =
     drill_tenant (fst (es i)) (soak_tenants ! i) (''Production Tenant '' @ show_int (int i + 1))
       [(snd (es i), drill_endpoint (''ep_soak_'' @ show_int (int i + 1)) (soak_tenants ! i) url
           (''whsec_soak_key_'' @ show_int (int i + 1)) 1000)] m"

definition soak_repo :: "string \<Rightarrow> (nat \<Rightarrow> env \<times> env) \<Rightarrow> memory_repo" where
  "soak_repo url es = fold (soak_tenant url es) [0..<length soak_tenants] NewMemoryRepository"

text \<open>The injector: an event that is stored, published and read by a consumer that never acknowledges it.\<close>

definition pel_event :: "int \<Rightarrow> nat \<Rightarrow> gotime \<Rightarrow> Event" where
  "pel_event nano crashCounter now =
     (let crashTenant = soak_tenants ! (crashCounter mod 4) in
      \<lparr>ev_ID = ''evt_pel_chaos_'' @ show_int nano @ ''_'' @ show_int (int crashCounter), ev_TenantID = crashTenant,
       ev_EventType = ''order.pel_stress'', ev_IdempotencyKey = '''',
       ev_Payload = CHR ''{'' # quoted ''crash_id'' @ CHR '':'' # show_int (int crashCounter) @ '','' @ quoted ''tenant'' @ CHR '':'' # quoted crashTenant @ ''}'',
       ev_Status = EventStatusPending, ev_CreatedAt = now\<rparr>)"

definition inject_pel ::
    "int \<Rightarrow> nat \<Rightarrow> gotime \<Rightarrow> env \<Rightarrow> env \<Rightarrow> env \<Rightarrow> memory_repo \<times> mem_queue \<times> soak_counters \<Rightarrow> memory_repo \<times> mem_queue \<times> soak_counters" where
  "inject_pel nano crashCounter now ec ep er st =
     (case create_and_publish soak_stream ec ep (pel_event nano crashCounter now) (fst st, fst (snd st)) of
        (m, q) \<Rightarrow>
          (m, snd (mq_ReadEvents_quiet er soak_stream soak_group (''crashed-worker-'' @ show_int (int crashCounter)) 1 0 q),
           (snd (snd st))\<lparr>sk_pel := wrap64 (sk_pel (snd (snd st)) + 1), sk_ingested := wrap64 (sk_ingested (snd (snd st)) + 1)\<rparr>))"

text \<open>The producer: its interval, its requests and what it counts as ingested.\<close>

definition producer_interval :: "int \<Rightarrow> duration" where
  "producer_interval rps = (let interval = go_quot Second rps in if interval \<le> 0 then Millisecond else interval)"

definition soak_request :: "nat \<Rightarrow> int \<Rightarrow> http_request" where
  "soak_request sq ms =
     \<lparr>rq_Method = ''POST'', rq_URL = ''/api/v1/events'',
      rq_Header = Header_Set ''X-Idempotency-Key'' (''idemp_soak_'' @ show_int (int sq))
        (Header_Set ''X-Tenant-ID'' (soak_tenants ! (sq mod 4)) (Header_Set ''Content-Type'' ''application/json'' [])),
      rq_Body = event_body ''payment.processed''
        (CHR ''{'' # quoted ''seq'' @ CHR '':'' # show_int (int sq) @ '','' @ quoted ''amount'' @ CHR '':'' # show_int (int (1000 + sq mod 500)) @ '','' @
         quoted ''timestamp'' @ CHR '':'' # show_int ms @ ''}'')\<rparr>"

definition count_response :: "int option \<Rightarrow> soak_counters \<Rightarrow> soak_counters" where
  "count_response statusCode k =
     (case statusCode of
        None \<Rightarrow> k
      | Some c \<Rightarrow> if c = 202 \<or> c = 200 then k\<lparr>sk_ingested := wrap64 (sk_ingested k + 1)\<rparr> else k)"

section \<open>Telemetry\<close>

text \<open>A snapshot reads the memory statistics, the goroutines and the counters.\<close>

record mem_stats =
  me_Alloc :: nat
  me_Sys :: nat
  me_HeapObjects :: nat
  me_NumGC :: nat

definition float_seconds :: "duration \<Rightarrow> rat" where
  "float_seconds d =
     (let sec = go_quot d Second; nsec = d - sec * Second in float64 (float64 (of_int sec) + float64 (float64 (of_int nsec) / 1000000000)))"

definition megabytes :: "nat \<Rightarrow> rat" where
  "megabytes b = float64 (of_nat b) / 1048576"

record soak_watch =
  sw_start :: gotime
  sw_peak :: int
  sw_lastIngested :: int
  sw_lastTime :: gotime
  sw_snapshots :: "SoakMetricsSnapshot list"

definition take_snapshot :: "gotime \<Rightarrow> mem_stats \<Rightarrow> int \<Rightarrow> soak_counters \<Rightarrow> soak_watch \<Rightarrow> soak_watch" where
  "take_snapshot now m gCount k sw =
     (let timeDelta = float_seconds (now - sw_lastTime sw);
          ingestDelta = wrap64 (sk_ingested k - sw_lastIngested sw);
          currentRPS = (if timeDelta > 0 then float64 (float64 (of_int ingestDelta) / timeDelta) else 0);
          snap = \<lparr>sn_TimestampUTC = now, sn_ElapsedSeconds = float_seconds (now - sw_start sw), sn_TotalIngested = sk_ingested k,
            sn_TotalDelivered = sk_delivered k, sn_TotalDLQ = sk_dlq k, sn_TotalRetried = sk_retries k,
            sn_TotalPELReclaimed = sk_pel k, sn_TotalSSEEvents = sk_sse k, sn_ActiveSSEClients = sk_clients k,
            sn_CurrentRPS = currentRPS, sn_GoroutineCount = gCount, sn_HeapAllocMB = megabytes (me_Alloc m),
            sn_HeapSysMB = megabytes (me_Sys m), sn_HeapObjects = me_HeapObjects m, sn_NumGC = me_NumGC m\<rparr>
      in sw\<lparr>sw_peak := (if gCount > sw_peak sw then gCount else sw_peak sw), sw_lastIngested := sk_ingested k,
            sw_lastTime := now, sw_snapshots := sw_snapshots sw @ [snap]\<rparr>)"

section \<open>The verdict\<close>

definition soak_dataLoss :: "soak_counters \<Rightarrow> int" where
  "soak_dataLoss k =
     (let processedTotal = wrap64 (sk_delivered k + sk_dlq k); dataLoss = wrap64 (sk_ingested k - processedTotal)
      in if dataLoss < 0 then 0 else dataLoss)"

text \<open>
  More than 4096 bytes per record: a division by zero is infinite, or not a number and then not greater.
\<close>

definition over_4096 :: "rat \<Rightarrow> int \<Rightarrow> bool" where
  "over_4096 netAllocMB finalIngested =
     (if finalIngested = 0 then netAllocMB > 0
      else float64 (float64 (float64 (netAllocMB * 1024) * 1024) / float64 (of_int finalIngested)) > 4096)"

definition soak_memLeak :: "rat \<Rightarrow> rat \<Rightarrow> int \<Rightarrow> int \<Rightarrow> bool" where
  "soak_memLeak initialAllocMB finalAllocMB peakGoroutines finalIngested =
     (let netAllocMB0 = float64 (finalAllocMB - initialAllocMB);
          netAllocMB = (if netAllocMB0 < 0 then 0 else netAllocMB0)
      in (finalAllocMB > 10 \<and> over_4096 netAllocMB finalIngested) \<or> peakGoroutines > 150)"

definition soak_passed :: string where
  "soak_passed = ''PASSED (100% STABLE & ZERO LOSS VERIFIED)''"

definition soak_status :: "soak_counters \<Rightarrow> bool \<Rightarrow> string" where
  "soak_status k memLeak =
     (if soak_dataLoss k > go_quot (sk_ingested k) 100 \<or> memLeak then ''FAILED'' else soak_passed)"

definition soak_summary :: "gotime \<Rightarrow> string \<Rightarrow> rat \<Rightarrow> rat \<Rightarrow> int \<Rightarrow> soak_counters \<Rightarrow> soak_watch \<Rightarrow> SoakTestSummary" where
  "soak_summary endTime target initialAllocMB finalAllocMB gCount k sw =
     (let peak = (if gCount > sw_peak sw then gCount else sw_peak sw);
          memLeak = soak_memLeak initialAllocMB finalAllocMB peak (sk_ingested k)
      in \<lparr>ss_EngineVersion = ''Mini-Svix v1.0.0-turnkey'', ss_StartTime = sw_start sw, ss_EndTime = endTime,
          ss_TargetDuration = target, ss_ActualDurationSecs = float_seconds (endTime - sw_start sw),
          ss_TotalIngested = sk_ingested k, ss_TotalDelivered = sk_delivered k, ss_TotalDLQ = sk_dlq k,
          ss_TotalRetried = sk_retries k, ss_TotalPELReclaimed = sk_pel k, ss_TotalSSEBroadcasts = sk_sse k,
          ss_PeakGoroutines = peak, ss_InitialAllocMB = initialAllocMB, ss_FinalAllocMB = finalAllocMB,
          ss_MemoryLeakDetected = memLeak, ss_DataLossCount = soak_dataLoss k, ss_Status = soak_status k memLeak,
          ss_SnapshotsCount = int (length (sw_snapshots sw)), ss_Snapshots = sw_snapshots sw\<rparr>)"

definition soak_exit :: "SoakTestSummary \<Rightarrow> int" where
  "soak_exit summary = (if ss_Status summary \<noteq> soak_passed then 1 else 0)"

section \<open>What the counters count\<close>

text \<open>The attempts of a trace that were recorded, so that the callback ran.\<close>

fun recorded_of :: "step list \<Rightarrow> DeliveryAttempt list" where
  "recorded_of [] = []"
| "recorded_of (StepDispatch (Some a) None # rest) = a # recorded_of rest"
| "recorded_of (StepDispatch (Some a) (Some err) # rest) = recorded_of rest"
| "recorded_of (StepDispatch None err # rest) = recorded_of rest"
| "recorded_of (StepWait w # rest) = recorded_of rest"

lemma recorded_of_append [simp]: "recorded_of (xs @ ys) = recorded_of xs @ recorded_of ys"
  by (induction xs rule: recorded_of.induct) simp_all

definition counted :: "step list \<Rightarrow> sse_sink \<times> soak_counters \<Rightarrow> soak_counters" where
  "counted trace sink = fold (\<lambda>a. count_attempt (at_Status a)) (recorded_of trace) (snd sink)"

lemma counted_append: "snd sink' = counted xs sink \<Longrightarrow> counted (xs @ ys) sink = counted ys sink'"
  by (simp add: counted_def)

lemma counted_Nil [simp]: "counted [] sink = snd sink"
  by (simp add: counted_def)

lemma dispatch_counted:
  assumes "Dispatch d de (Some endpoint) (Some event) n s = ((ao, err), s')" "dp_onAttempt d = Some (soak_onAttempt ord)"
  shows "snd (ds_sink s') = counted [StepDispatch ao err] (ds_sink s)"
proof (cases "de_new_request de (ep_URL endpoint)")
  case None
  then show ?thesis
    using assms by (auto simp: Dispatch_attempt Let_def counted_def soak_onAttempt_def split: option.splits prod.splits)
next
  case (Some e)
  then show ?thesis using assms by (auto simp: Dispatch_def Let_def counted_def)
qed

lemma retry_counted:
  assumes "retry_loop d endpoint event aes n s = (ret, trace, s')" "1 \<le> n" "dp_onAttempt d = Some (soak_onAttempt ord)"
  shows "snd (ds_sink s') = counted trace (ds_sink s)"
  using assms
proof (induction "nat (bp_MaxRetries (dp_policy d) + 1 - n)" arbitrary: n s ret trace s' rule: less_induct)
  case less
  from less(2,3) show ?case
  proof (cases rule: retry_loop_cases)
    case (NoRequest err)
    then show ?thesis using dispatch_counted [OF NoRequest(1) less(4)] by simp
  next
    case (Last a err)
    then show ?thesis using dispatch_counted [OF Last(1) less(4)] by simp
  next
    case (Again a err s1 rest)
    have one: "snd (ds_sink s1) = counted [StepDispatch (Some a) err] (ds_sink s)" using dispatch_counted [OF Again(1) less(4)] .
    let ?w = "StepWait (CalculateBackoff (ae_rand (aes n)) (n + 1) (dp_policy d))"
    have "snd (ds_sink s') = counted (?w # rest) (ds_sink s1)"
    proof (cases "ae_wait (aes n) = None")
      case True
      then have "retry_loop d endpoint event aes (n + 1) s1 = (ret, rest, s')" using Again(5) by simp
      then have "snd (ds_sink s') = counted rest (ds_sink s1)" using less(1) [of "n + 1"] less(3,4) Again(3) by simp
      then show ?thesis by (simp add: counted_def)
    next
      case False
      then have "rest = [] \<and> s' = s1" using Again(5) by metis
      then show ?thesis by (simp add: counted_def)
    qed
    then show ?thesis using counted_append [OF one, of "?w # rest"] Again(4) by simp
  qed simp
qed

lemma deliver_counted:
  assumes "deliver_all d event ees i eps s = (trace, s')" "dp_onAttempt d = Some (soak_onAttempt ord)"
  shows "snd (ds_sink s') = counted trace (ds_sink s)"
  using assms(1)
proof (induction eps arbitrary: i s trace s')
  case (Cons ep eps)
  show ?case
  proof (cases "ee_check (ees i)")
    case None
    obtain ret tr s1 where R: "retry_loop d ep event (ee_attempt (ees i)) 1 s = (ret, tr, s1)" by (metis prod.exhaust)
    note one = retry_counted [OF R _ assms(2)]
    obtain rest s2 where L: "deliver_all d event ees (Suc i) eps s1 = (rest, s2)" by fastforce
    show ?thesis
      using Cons.prems None R one counted_append [OF one, of rest] Cons.IH [OF L] L by (cases ret) auto
  qed (use Cons.prems in simp)
qed simp

lemma process_counted:
  assumes "processMessage p pe msg s = (panic, trace, s')" "dp_onAttempt (wp_dispatcher p) = Some (soak_onAttempt ord)"
  shows "snd (ds_sink s') = counted trace (ds_sink s)"
  using assms(1) deliver_counted [OF _ assms(2)]
  by (auto simp: processMessage_def Let_def split: if_splits option.splits sum.splits prod.splits)

definition pool_counters :: "('r, 'c, 'h, sse_sink \<times> soak_counters, 'q) pool_state \<Rightarrow> soak_counters" where
  "pool_counters st = snd (ds_sink (po_d st))"

lemma handle_counted:
  assumes "handle_message p me msg st = (panic, trace, st')" "dp_onAttempt (wp_dispatcher p) = Some (soak_onAttempt ord)"
  shows "pool_counters st' = counted trace (ds_sink (po_d st))"
  using assms(1) process_counted [OF _ assms(2)]
  by (auto simp: handle_message_def pool_counters_def split: prod.splits option.splits)

lemma messages_counted:
  assumes "worker_messages p mes i msgs st = (go, trace, st')" "dp_onAttempt (wp_dispatcher p) = Some (soak_onAttempt ord)"
  shows "pool_counters st' = counted trace (ds_sink (po_d st))"
  using assms(1)
proof (induction msgs arbitrary: i st go trace st')
  case Nil
  then show ?case by (simp add: pool_counters_def)
next
  case (Cons msg msgs)
  show ?case
  proof (cases "me_check (mes i)")
    case None
    obtain panic tr st1 where H: "handle_message p (mes i) msg st = (panic, tr, st1)" by (metis prod.exhaust)
    note one = handle_counted [OF H assms(2)]
    obtain g rest st2 where L: "worker_messages p mes (Suc i) msgs st1 = (g, rest, st2)" by (metis prod.exhaust)
    show ?thesis
      using Cons.prems None H one counted_append [OF one [unfolded pool_counters_def], of rest] Cons.IH [OF L] L
      by (cases panic) (auto simp: pool_counters_def)
  qed (use Cons.prems in \<open>simp add: pool_counters_def\<close>)
qed

lemma wrap64_add: "wrap64 (wrap64 x + y) = wrap64 (x + y)"
  by (simp add: wrap64_def mod_simps algebra_simps)

abbreviation attempts_with :: "DeliveryStatus \<Rightarrow> step list \<Rightarrow> int" where
  "attempts_with st trace \<equiv> int (length (filter (\<lambda>a. at_Status a = st) (recorded_of trace)))"

lemma counted_numbers:
  assumes "int64_ok (sk_delivered (snd sink))" "int64_ok (sk_dlq (snd sink))" "int64_ok (sk_retries (snd sink))"
  shows "counted trace sink = (snd sink)
    \<lparr>sk_delivered := wrap64 (sk_delivered (snd sink) + attempts_with DeliveryStatusSuccess trace),
     sk_dlq := wrap64 (sk_dlq (snd sink) + attempts_with DeliveryStatusFailed trace),
     sk_retries := wrap64 (sk_retries (snd sink) + attempts_with DeliveryStatusRetrying trace)\<rparr>"
proof -
  have "fold (\<lambda>a. count_attempt (at_Status a)) as k = k
    \<lparr>sk_delivered := wrap64 (sk_delivered k + int (length (filter (\<lambda>a. at_Status a = DeliveryStatusSuccess) as))),
     sk_dlq := wrap64 (sk_dlq k + int (length (filter (\<lambda>a. at_Status a = DeliveryStatusFailed) as))),
     sk_retries := wrap64 (sk_retries k + int (length (filter (\<lambda>a. at_Status a = DeliveryStatusRetrying) as)))\<rparr>"
    if "int64_ok (sk_delivered k)" "int64_ok (sk_dlq k)" "int64_ok (sk_retries k)" for as :: "DeliveryAttempt list" and k
    using that
  proof (induction as arbitrary: k)
    case (Cons a as)
    have "int64_ok (sk_delivered (count_attempt (at_Status a) k))" "int64_ok (sk_dlq (count_attempt (at_Status a) k))"
      "int64_ok (sk_retries (count_attempt (at_Status a) k))"
      using Cons.prems by (cases "at_Status a"; simp add: count_attempt_def)+
    from Cons.IH [OF this] show ?case
      by (cases "at_Status a") (simp_all add: count_attempt_def wrap64_add add.assoc)
  qed simp
  then show ?thesis using assms by (simp add: counted_def)
qed

lemma soak_callback [simp]: "dp_onAttempt (wp_dispatcher (se_pool (wire_soak P ord))) = Some (soak_onAttempt ord)"
  by (simp add: wire_soak_def NewWorkerPool_def WithAttemptCallback_def Let_def)

text \<open>C40: the counters of the soak test count attempts, not events: a turn of a worker, whatever it reads and
  whatever fails, adds to the delivered, the dead-letter and the retry counter exactly the number of its
  recorded attempts that succeeded, failed for good and are retried, and to no other counter; attempts that
  could not be recorded are not counted.\<close>

theorem soak_counts_attempts:
  assumes "worker_step (se_pool (wire_soak P ord)) workerID wr st = (go, trace, st')"
    and "int64_ok (sk_delivered (pool_counters st))" "int64_ok (sk_dlq (pool_counters st))" "int64_ok (sk_retries (pool_counters st))"
  shows "pool_counters st' = (pool_counters st)
    \<lparr>sk_delivered := wrap64 (sk_delivered (pool_counters st) + attempts_with DeliveryStatusSuccess trace),
     sk_dlq := wrap64 (sk_dlq (pool_counters st) + attempts_with DeliveryStatusFailed trace),
     sk_retries := wrap64 (sk_retries (pool_counters st) + attempts_with DeliveryStatusRetrying trace)\<rparr>"
proof -
  have "pool_counters st' = counted trace (ds_sink (po_d st))"
  proof (cases "\<exists>mes msgs q1. worker_messages (se_pool (wire_soak P ord)) mes 0 msgs (st\<lparr>po_q := q1\<rparr>) = (go, trace, st')")
    case True
    then obtain mes msgs q1 where "worker_messages (se_pool (wire_soak P ord)) mes 0 msgs (st\<lparr>po_q := q1\<rparr>) = (go, trace, st')" by blast
    from messages_counted [OF this soak_callback] show ?thesis by simp
  next
    case False
    then show ?thesis
      using assms(1) by (auto simp: worker_step_def pool_counters_def counted_def split: if_splits sum.splits prod.splits)
  qed
  then show ?thesis using counted_numbers [of "ds_sink (po_d st)" trace] assms(2-4) by (simp add: pool_counters_def)
qed

lemma recorded_all: "all_recorded trace \<Longrightarrow> recorded_of trace = attempts_of trace"
  by (induction trace rule: recorded_of.induct) simp_all

text \<open>The event and the endpoint of the pipeline's example, on the stream of the soak test.\<close>

theorem soak_counts_attempts_witness:
  "\<exists>m q go trace st'. worker_step (se_pool (wire_soak counting_prom (\<lambda>n. [0..<n]))) 0 demo_round
       \<lparr>po_d = \<lparr>ds_repo = m, ds_metrics = None, ds_sink = ((NewSSEBroker, \<lambda>_. []), zero_counters)\<rparr>, po_q = q, po_claimAttempts = []\<rparr> =
       (go, trace, st') \<and> pool_counters st' = zero_counters\<lparr>sk_delivered := 1\<rparr>"
proof -
  let ?p = "se_pool (wire_soak counting_prom (\<lambda>n. [0..<n]))" and ?me = "wr_message demo_round 0"
  obtain s where run: "server_run demo_server scheme0 (memory_start counting_prom (\<lambda>n. [0..<n]) (\<lambda>_. '''') env0) s"
    and m: "mr_evs (sy_repo s) = [''evt_u1'' \<mapsto> ingested0]" "mr_endpoints (sy_repo s) = [(''ep_u1'', demo_endpoint)]" "mr_attempts (sy_repo s) = []"
    by (rule demo_ingested)
  have inv: "mr_inv (sy_repo s)" using running_ok [OF run [unfolded demo_server_def]] by blast
  obtain i q where pub: "mq_PublishEvent env0 soak_stream (Some ingested0) NewMemoryStreamQueue = (Inr i, q)"
    by (simp add: mq_PublishEvent_def soak_stream_def env0_def Let_def)
  define msg where "msg = queue_message (e_now env0) (mq_seq NewMemoryStreamQueue + 1) ingested0"
  have new: "mq_log NewMemoryStreamQueue soak_stream = []" "mq_delivered NewMemoryStreamQueue soak_stream soak_group = 0"
    by (simp_all add: NewMemoryStreamQueue_def getOrCreateStreamLocked_def empty_stream_def mq_views)
  then have q: "mq_inv q" "mq_log q soak_stream = [] @ [msg]" "carries msg ingested0"
    "mq_delivered q soak_stream soak_group = length ([] :: QueueMessage list)"
    using mq_publish_frame [OF mq_inv_new pub] by (simp_all add: msg_def carries_def queue_message_def)
  obtain q2 where read: "mq_ReadEvents_quiet env0 soak_stream soak_group (''worker-'' @ show_int (int 0)) 25 (cf_PollInterval (wp_cfg ?p)) q = (Inr [msg], q2)"
    using worker_reads [OF q(1) _ _ _ _ q(2,4), of env0 25 "''worker-'' @ show_int (int 0)" "cf_PollInterval (wp_cfg ?p)"] q(2)
    by (auto simp: env0_def soak_stream_def soak_group_def)
  let ?st = "\<lparr>po_d = \<lparr>ds_repo = sy_repo s, ds_metrics = None, ds_sink = ((NewSSEBroker, \<lambda>_. []), zero_counters)\<rparr>, po_q = q, po_claimAttempts = []\<rparr>"
  obtain panic tr d2 where P: "processMessage ?p (me_process ?me) msg (po_d ?st) = (panic, tr, d2)" by (metis prod.exhaust)
  have p: "wp_repo ?p = Some memory_repository" "dp_repo (wp_dispatcher ?p) = Some memory_repository" "wp_queue ?p = memory_stream_queue"
    "cf_StreamName (wp_cfg ?p) = soak_stream" "cf_GroupName (wp_cfg ?p) = soak_group" "cf_BatchSize (wp_cfg ?p) = 25"
    by (simp_all add: wire_soak_def NewWorkerPool_def WithAttemptCallback_def NewDispatcher_def pool_defaults_def soak_config_def
        soak_stream_def soak_group_def Let_def)
  have v: "qm_EventID msg = ''evt_u1''" "qm_TenantID msg = ''acme''" "ev_TenantID ingested0 = ''acme''" "ev_Status ingested0 = EventStatusPending"
    using q(3) by (simp_all add: carries_def ingested0_def ingest_event_def)
  have live: "process_live (me_process ?me)" by (simp add: demo_round_def env0_def process_live_def)
  have active: "active_endpoints (me_process ?me) ''acme'' (sy_repo s) = [demo_endpoint]"
    by (simp add: active_endpoints_def demo_round_def env0_def m(2) demo_endpoint_def created_endpoint_def)
  have D: "panic = None" "map at_EndpointID (attempts_of tr) = [ep_ID demo_endpoint]"
    "\<forall>a \<in> set (attempts_of tr). at_Status a = DeliveryStatusSuccess" "all_recorded tr"
    using process_delivers [OF p(1,2) _ live _ _ _ _ v(4) _ P] inv demo_healthy [OF m(3)] m(1) v(1-3) active by simp_all
  obtain a where a: "recorded_of tr = [a]" "at_Status a = DeliveryStatusSuccess"
    using D(2-4) recorded_all [OF D(4)] by (cases "attempts_of tr") auto
  obtain ao q3 where A: "mq_AckEvent (me_ack ?me) soak_stream soak_group [qm_ID msg] q2 = (ao, q3)" by fastforce
  have msq: "sq_ReadEvents memory_stream_queue = mq_ReadEvents_quiet" "sq_AckEvent memory_stream_queue = mq_AckEvent"
    by (simp_all add: memory_stream_queue_def)
  have W: "worker_step ?p 0 demo_round ?st = (True, tr, ?st\<lparr>po_d := d2, po_q := q3\<rparr>)"
  proof -
    have "handle_message ?p ?me msg (?st\<lparr>po_q := q2\<rparr>) = (None, tr, ?st\<lparr>po_d := d2, po_q := q3\<rparr>)"
      using P A D(1) by (simp add: handle_message_def p msq)
    moreover have "wr_message demo_round k = ?me" "me_check ?me = None" "\<not> wr_done demo_round" "wr_read demo_round = env0" for k
      by (simp_all add: demo_round_def)
    ultimately show ?thesis using read by (simp add: worker_step_def p msq)
  qed
  have "pool_counters (?st\<lparr>po_d := d2, po_q := q3\<rparr>) = zero_counters\<lparr>sk_delivered := 1\<rparr>"
    using soak_counts_attempts [OF W] a
    by (simp add: pool_counters_def zero_counters_def int64_ok_def)
  then show ?thesis using W by blast
qed

section \<open>What the verdict says\<close>

text \<open>
  The test passes exactly when the attempts that ended, successful or not, are at least as many as the
  ingested events less one in a hundred, and there is no leak: an event that was delivered twice makes up
  for one that was lost.
\<close>

theorem soak_verdict:
  assumes "0 \<le> sk_ingested k" "0 \<le> sk_delivered k" "0 \<le> sk_dlq k" "sk_ingested k < 2 ^ 63" "sk_delivered k + sk_dlq k < 2 ^ 63"
    and "summary = soak_summary endTime tgt initialAllocMB finalAllocMB gCount k sw"
  shows "soak_exit summary = 0 \<longleftrightarrow>
    sk_ingested k - (sk_delivered k + sk_dlq k) \<le> sk_ingested k div 100 \<and>
    \<not> soak_memLeak initialAllocMB finalAllocMB (max gCount (sw_peak sw)) (sk_ingested k)"
proof -
  have w: "wrap64 (sk_delivered k + sk_dlq k) = sk_delivered k + sk_dlq k"
    "wrap64 (sk_ingested k - (sk_delivered k + sk_dlq k)) = sk_ingested k - (sk_delivered k + sk_dlq k)"
    using assms by (simp_all add: int64_ok_def)
  have m: "(if gCount > sw_peak sw then gCount else sw_peak sw) = max gCount (sw_peak sw)" by simp
  have q: "go_quot (sk_ingested k) 100 = sk_ingested k div 100" using assms(1) by (simp add: go_quot_def)
  have "''FAILED'' \<noteq> soak_passed" by (simp add: soak_passed_def)
  moreover have "0 \<le> sk_ingested k div 100" using assms(1) by simp
  ultimately show ?thesis
    by (auto simp: assms(6) soak_exit_def soak_summary_def soak_status_def soak_dataLoss_def Let_def w m q)
qed

text \<open>One event in a hundred may be lost, and the status still says that there is zero loss.\<close>

theorem soak_hides_loss:
  "\<exists>k. sk_ingested k = 100 \<and> sk_delivered k = 99 \<and> sk_dlq k = 0 \<and> soak_dataLoss k = 1 \<and> soak_status k False = soak_passed"
  by (intro exI [of _ "zero_counters\<lparr>sk_ingested := 100, sk_delivered := 99\<rparr>"])
    (simp add: zero_counters_def soak_dataLoss_def soak_status_def go_quot_def wrap64_def)

end
