(* ===== verification/Spec2Isabelle.thy ===== *)
theory Spec2Isabelle
  imports Ssrf QueueRuns RedisGuard RedisQueue Dispatcher Relay WorkerRuns ApiRuns PostgresRuns MockRuns SdkRuns Fence IngestSteps Soak
begin

text \<open>
  Verification of the webhook reliability engine, a Go program. Paths below are relative to \<open>src/\<close>.

  \<^bold>\<open>The program.\<close> A tenant posts an event to the HTTP API (\<open>internal/api\<close>). Under an idempotency lock
  (\<open>internal/idempotency\<close>) the handler stores the event together with an outbox row in one transaction
  (\<open>internal/storage\<close>). The outbox relay (\<open>internal/outbox\<close>) publishes pending rows to a stream with consumer
  groups (\<open>internal/queue\<close>) and marks them published afterwards. Workers (\<open>internal/worker\<close>) read the stream,
  skip events that are already final, and hand the event to the dispatcher (\<open>internal/dispatcher\<close>) once per
  active endpoint of the tenant, with retries after jittered backoff (\<open>internal/retry\<close>). The dispatcher signs
  the payload, posts it through a dialer that refuses restricted addresses, records the attempt, updates the
  event's status and calls back, which feeds the live stream of attempts (\<open>internal/api/stream.go\<close>). A
  message that a worker has read and not acknowledged stays pending and is claimed by a recovery loop, up to
  a ceiling, above which its event goes to the dead-letter queue, from where the API replays it.
  \<open>cmd/server\<close> wires all this on PostgreSQL and Redis, or in memory when these do not answer;
  \<open>cmd/soak\<close> and \<open>cmd/chaos\<close> wire it in memory under a load and in drills; \<open>cmd/mockreceiver\<close> is a
  destination to try it with; \<open>sdk/go/webhookclient\<close> is the client.

  \<^bold>\<open>Theories and the code they model.\<close>

  \<^item> \<open>Go_Prelude\<close>, \<open>Go_Strings\<close>, \<open>Go_Url\<close>, \<open>Go_Time\<close>, \<open>Go_Crypto\<close>, \<open>Go_Json\<close>, \<open>Go_JsonCodec\<close>, \<open>Go_JsonRound\<close>:
    what the source uses of Go's standard library. Strings and byte slices are lists of bytes (\<open>string\<close>),
    a Go \<open>map\<close> is an association list whose iteration order comes from the environment, \<open>int64\<close> is \<open>int\<close> with
    \<open>wrap64\<close> written out where a sum may overflow, times and durations are nanoseconds. SHA-256, HMAC,
    the JSON scanner, decoder and encoder, base64 and RFC 3339 are written out.
  \<^item> \<open>Domain\<close>, \<open>Wire\<close>: the entities of \<open>internal/domain\<close>, their \<open>Validate\<close> methods and their JSON.
  \<^item> \<open>Repository\<close>, \<open>MemoryRepo\<close>, \<open>Postgres\<close>, \<open>PostgresRuns\<close>: \<open>storage/repository.go\<close>, \<open>memory.go\<close> and
    \<open>postgres.go\<close>. A Go interface is a record of operations over a state type, and its contract is a locale
    that both implementations interpret.
  \<^item> \<open>StreamQueue\<close>, \<open>MemoryQueue\<close>, \<open>QueueRuns\<close>, \<open>RedisQueue\<close>: \<open>queue/stream.go\<close>.
  \<^item> \<open>Guard\<close>, \<open>MemoryGuard\<close>, \<open>RedisGuard\<close>: \<open>idempotency/guard.go\<close>; \<open>RedisClient\<close>: the fate of a call of the
    Redis client, which the guard and the queue share.
  \<^item> \<open>Signature\<close>, \<open>Ssrf\<close>, \<open>Retry\<close>, \<open>Telemetry\<close>, \<open>Dispatcher\<close>: \<open>dispatcher/hmac.go\<close> with the SDK's
    \<open>signature.go\<close>, \<open>dispatcher/ssrf.go\<close>, \<open>retry/scheduler.go\<close>, \<open>telemetry/metrics.go\<close> and
    \<open>dispatcher/client.go\<close>.
  \<^item> \<open>Relay\<close>: \<open>outbox/relay.go\<close>. \<open>Worker\<close>, \<open>WorkerRuns\<close>: \<open>worker/pool.go\<close>.
  \<^item> \<open>Api\<close>, \<open>Router\<close>, \<open>ApiRuns\<close>, \<open>IngestSteps\<close>, \<open>Sse\<close>: \<open>api/handler.go\<close>, \<open>router.go\<close> and \<open>stream.go\<close>.
  \<^item> \<open>Server\<close>, \<open>System\<close>, \<open>SystemRuns\<close>, \<open>Pipeline\<close>, \<open>Recovery\<close>, \<open>Fence\<close>: \<open>cmd/server/main.go\<close> and the composition of
    all components on the state they share.
  \<^item> \<open>Soak\<close>, \<open>Chaos\<close>: \<open>cmd/soak/main.go\<close> and \<open>cmd/chaos/main.go\<close>. \<open>MockReceiver\<close>, \<open>MockRuns\<close>:
    \<open>cmd/mockreceiver/main.go\<close>. \<open>Sdk\<close>, \<open>SdkRuns\<close>: \<open>sdk/go/webhookclient\<close>.

  Definitions keep the names of the source, with a prefix per implementation where Go has a receiver
  (\<open>mr_\<close> and \<open>pg_\<close> for the repositories, \<open>mq_\<close> and \<open>rq_\<close> for the queues, \<open>gm_\<close> and \<open>rg_\<close> for the guards), and
  a field of a Go structure is a field of the record, with a prefix of two letters.

  \<^bold>\<open>State, errors and the outside.\<close> A method takes the state of its receiver and returns it changed; an
  error is \<open>Inl\<close> of a sum or \<open>Some\<close> of an option, a panic is a result of its own where the code can panic.
  Every call has its own environment, what it sees of its context, of the clock and of the map order,
  so that a property quantified over environments covers a cancellation or a failure at any point.
  Loops that stop when their context ends (relay, workers, recovery) run over an explicit list of rounds, one
  environment for each; a property about them holds for every such list, and the list bounds nothing that the
  code does not. The retry loop is a function whose recursion the bound on attempts limits
  (\<open>retries_bounded\<close>). The drain loop of the relay is recursive over its environments, and
  \<open>relay_drains_outbox\<close> proves that it stops after at most one batch more than there are pending rows. The drills
  wait by \<open>await_count\<close>, a loop that may run for ever; \<open>drills_end\<close> proves at most 250 sleeps on a clock that
  advances, and says for what else a scenario waits (its requests, its servers, its pool), so that one that
  never returns is \<open>None\<close>. The JSON scanner has the length of
  its input as fuel, which is proved to be enough; the remaining functions are total by their recursion.
  The two counters of the in-memory components, of messages and of outbox rows, are integers that do not
  wrap around; they differ from the \<open>int64\<close> of the code only after \<open>2 ^ 63\<close> operations of one process.

  \<^bold>\<open>Parameters.\<close> Code that is not part of the repository is an argument: what the SQL driver and server do
  with a statement (\<open>sql_driver\<close>: failures, of COMMIT too, and whether what failed had taken effect all the same,
  row locks, JSONB, precision of times), the Redis commands and
  the fate of a call, the DNS resolver and the connection, the HTTP client, the random source, the parser
  of URLs (a function from a text to a scheme), general layouts of times and durations, the Prometheus
  vectors, UUIDs and clocks. Where a property relies on their documented behaviour, that is a named
  hypothesis (\<open>streams_documented\<close> for Redis streams, for instance), and its witness instantiates it.

  \<^bold>\<open>What the lemmas show.\<close>

  \<^item> Storage: the invariants of the in-memory maps and the integrity constraints of the schema are kept by
    every call; creation is atomic, and one that fails has stored its event only if the answer of a COMMIT was
    lost; idempotency keys are unique; replaying the dead-letter queue does what it says, and PostgreSQL
    refines memory in it.
  \<^item> Queue: a message is owed to its group until it is acknowledged, reads are in order and without gaps,
    claiming returns exactly the idle entries; a publication closes the notification channel that a waiting
    read has taken, and the read goes on with what was published; over Redis, a message is read back as it
    was published.
  \<^item> Guard: the lock excludes other holders until it expires, is released or gets its response; the Redis guard
    refines the in-memory one.
  \<^item> Relay and workers: a row is marked only after its event was published; the drain ends with an empty
    outbox; a delivery never leaves its tenant; the bounds on retries.
  \<^item> Dispatcher: the outcome of an attempt and what is stored of it; the receiver's verification accepts
    exactly the genuine, fresh signatures; the address test is a list of intervals and, unless private
    networks are allowed, no connection reaches a restricted address that has no zone; the backoff.
  \<^item> API and SDK: all or nothing, replays, refusals; the phases of a request, interleaved with others, keep
    one event per key (and without interruption they are the handler, \<open>ingest_phases_exact\<close>); what the SDK
    publishes is stored; what a live client receives.
  \<^item> The running server: \<open>server_step\<close> interleaves requests, batches of the relay, turns of workers and
    passes of the recovery in any order and with any failure. The locale \<open>server_system\<close> proves once, from
    the contracts of the repository and the queue, that accepted events stay stored and accounted for; it is
    interpreted in memory and on PostgreSQL with Redis. On top of it: what the store holds is well
    typed, the pipeline delivers when nothing fails, what a crashed worker has left is recovered, and final
    events are dispatched no more.
  \<^item> Soak and chaos: what their counters count, when the drills end, and what their verdicts say and hide.

  \<^bold>\<open>Granularity.\<close> The locks of the in-memory components make each of their methods one step. In \<open>server_step\<close>
  a request, a batch, a turn and a pass are one step each. \<open>IngestSteps\<close> interleaves the single calls of any
  number of ingestions with each other and with the rest of the server, and the properties of the queue in
  \<open>QueueRuns\<close>, of the guard in \<open>MemoryGuard\<close>, of the store in \<open>MemoryRepo\<close> and \<open>PostgresRuns\<close> and of the live
  stream in \<open>Sse\<close> hold over any interleaving of the calls of their component.

  \<^bold>\<open>Not modelled.\<close> Process set-up (flags, signals, listening, logging, tickers, printing and writing of the
  reports): it has no state of the engine. The HTTP page of the Prometheus registry and the body of a
  redirect: third-party code or text that no one reads. Flushing and write deadlines of the live stream,
  connection pools and timeouts of HTTP clients: they decide when, not what. The text of JSON errors in the
  SDK. What the engine does while a drill waits is not run inside the drill: a scenario reads the counter of
  its destination, and the engine is the subject of the other theories. The dashboard, the SDKs in other
  languages and the deployment files are not Go code of the engine.
\<close>

end
